(* ===== verification/Go_Strings.thy ===== *)
theory Go_Strings
  imports Go_Prelude
begin

text \<open>
  The functions of Go's \<open>strings\<close> and \<open>strconv\<close> packages that the source calls. A Go
  string is a sequence of bytes: a HOL \<open>string\<close>, one \<open>char\<close> per byte, UTF-8 where the source
  holds Chinese text. \<open>TrimSpace\<close> strips all of Unicode's white space, in its UTF-8
  encoding. The case mappings move the ASCII letters and those non-ASCII letters that map to an
  ASCII letter (the Kelvin sign, the dotted capital I, the dotless i, the long s), so a
  comparison with an ASCII constant is exact; other non-ASCII letters are left as they are.
\<close>

abbreviation code :: "char \<Rightarrow> nat" where
  "code c \<equiv> of_char c"

section \<open>TrimSpace\<close>

definition ascii_space :: "char \<Rightarrow> bool" where
  "ascii_space c \<longleftrightarrow> code c \<in> {9, 10, 11, 12, 13, 32}"

definition space2 :: "char \<Rightarrow> char \<Rightarrow> bool" where
  "space2 a b \<longleftrightarrow> code a = 0xC2 \<and> (code b = 0x85 \<or> code b = 0xA0)"

definition space3 :: "char \<Rightarrow> char \<Rightarrow> char \<Rightarrow> bool" where
  "space3 a b c \<longleftrightarrow>
     (code a = 0xE1 \<and> code b = 0x9A \<and> code c = 0x80) \<or>
     (code a = 0xE2 \<and> code b = 0x80 \<and>
        (0x80 \<le> code c \<and> code c \<le> 0x8A \<or> code c \<in> {0xA8, 0xA9, 0xAF})) \<or>
     (code a = 0xE2 \<and> code b = 0x81 \<and> code c = 0x9F) \<or>
     (code a = 0xE3 \<and> code b = 0x80 \<and> code c = 0x80)"

fun trim_with :: "(char \<Rightarrow> char \<Rightarrow> bool) \<Rightarrow> (char \<Rightarrow> char \<Rightarrow> char \<Rightarrow> bool) \<Rightarrow> string \<Rightarrow> string" where
  "trim_with p2 p3 [] = []"
| "trim_with p2 p3 [a] = (if ascii_space a then [] else [a])"
| "trim_with p2 p3 [a, b] =
     (if ascii_space a then trim_with p2 p3 [b] else if p2 a b then [] else [a, b])"
| "trim_with p2 p3 (a # b # c # s) =
     (if ascii_space a then trim_with p2 p3 (b # c # s)
      else if p2 a b then trim_with p2 p3 (c # s)
      else if p3 a b c then trim_with p2 p3 s
      else a # b # c # s)"

definition trim_left :: "string \<Rightarrow> string" where
  "trim_left s = trim_with space2 space3 s"

definition trim_right :: "string \<Rightarrow> string" where
  "trim_right s = rev (trim_with (\<lambda>a b. space2 b a) (\<lambda>a b c. space3 c b a) (rev s))"

definition trim_space :: "string \<Rightarrow> string" where
  "trim_space s = trim_right (trim_left s)"

lemma trim_with_suffix: "suffix (trim_with p2 p3 s) s"
proof (induction p2 p3 s rule: trim_with.induct)
  case (4 p2 p3 a b c s)
  then show ?case by (auto intro: suffix_ConsI)
qed (auto simp: suffix_ConsI)

lemma trim_with_idem [simp]: "trim_with p2 p3 (trim_with p2 p3 s) = trim_with p2 p3 s"
  by (induction p2 p3 s rule: trim_with.induct) auto

text \<open>A string with no leading white space has no prefix with leading white space.\<close>

lemma trim_with_prefix_fixed:
  "trim_with p2 p3 t = t \<Longrightarrow> prefix u t \<Longrightarrow> trim_with p2 p3 u = u"
proof (induction p2 p3 u rule: trim_with.induct)
  case (2 p2 p3 a)
  then obtain w where t: "t = a # w" by (auto simp: prefix_def)
  have "\<not> ascii_space a"
  proof
    assume "ascii_space a"
    then have "suffix (trim_with p2 p3 t) w"
      using t trim_with_suffix[of p2 p3 w] by (cases w rule: remdups_adj.cases) auto
    with 2(1) t show False by (auto dest: suffix_length_le)
  qed
  then show ?case by simp
next
  case (3 p2 p3 a b)
  then obtain w where t: "t = a # b # w" by (auto simp: prefix_def)
  have "\<not> ascii_space a \<and> \<not> p2 a b"
  proof (rule ccontr)
    assume "\<not> (\<not> ascii_space a \<and> \<not> p2 a b)"
    then have "length (trim_with p2 p3 t) < length t"
      using t suffix_length_le[OF trim_with_suffix[of p2 p3 "b # w"]]
        suffix_length_le[OF trim_with_suffix[of p2 p3 w]]
      by (cases w) (auto split: if_splits)
    with 3 show False by simp
  qed
  then show ?case by simp
next
  case (4 p2 p3 a b c s)
  then obtain w where t: "t = a # b # c # w" by (auto simp: prefix_def)
  have "\<not> ascii_space a \<and> \<not> p2 a b \<and> \<not> p3 a b c"
  proof (rule ccontr)
    assume "\<not> (\<not> ascii_space a \<and> \<not> p2 a b \<and> \<not> p3 a b c)"
    then have "length (trim_with p2 p3 t) < length t"
      using t suffix_length_le[OF trim_with_suffix[of p2 p3 "b # c # w"]]
        suffix_length_le[OF trim_with_suffix[of p2 p3 "c # w"]]
        suffix_length_le[OF trim_with_suffix[of p2 p3 w]]
      by (auto split: if_splits)
    with 4 show False by simp
  qed
  then show ?case by simp
qed simp

lemma trim_space_idem [simp]: "trim_space (trim_space s) = trim_space s"
proof -
  let ?t = "trim_left s" and ?u = "trim_space s"
  have "suffix (rev ?u) (rev ?t)"
    by (simp add: trim_space_def trim_right_def trim_with_suffix)
  then have "prefix ?u ?t" by (simp add: suffix_to_prefix)
  moreover have "trim_with space2 space3 ?t = ?t" by (simp add: trim_left_def)
  ultimately have "trim_left ?u = ?u"
    unfolding trim_left_def by (rule trim_with_prefix_fixed[rotated])
  then show ?thesis by (simp add: trim_space_def trim_right_def)
qed

lemma trim_space_Nil [simp]: "trim_space [] = []"
  by (simp add: trim_space_def trim_left_def trim_right_def)

lemma trim_left_id:
  assumes "32 < code c" "code c \<notin> {0xC2, 0xE1, 0xE2, 0xE3}"
  shows "trim_left (c # r) = c # r"
proof -
  have "\<not> ascii_space c" using assms by (auto simp: ascii_space_def)
  moreover have "\<not> space2 c b" "\<not> space3 c b d" for b d
    using assms by (auto simp: space2_def space3_def)
  ultimately show ?thesis unfolding trim_left_def
    by (cases r rule: remdups_adj.cases) auto
qed

lemma trim_right_id:
  assumes "32 < code c" "code c < 127"
  shows "trim_right (r @ [c]) = r @ [c]"
proof -
  have "\<not> ascii_space c" using assms by (auto simp: ascii_space_def)
  moreover have "\<not> space2 b c" "\<not> space3 d b c" for b d
    using assms by (auto simp: space2_def space3_def)
  ultimately have "trim_with (\<lambda>a b. space2 b a) (\<lambda>a b c. space3 c b a) (c # rev r) = c # rev r"
    by (cases "rev r" rule: remdups_adj.cases) auto
  then show ?thesis by (simp add: trim_right_def)
qed

lemma trim_space_id:
  assumes "s \<noteq> []" "32 < code (hd s)" "code (hd s) < 127" "32 < code (last s)" "code (last s) < 127"
  shows "trim_space s = s"
proof -
  have "trim_left s = s" using assms trim_left_id[of "hd s" "tl s"] by auto
  moreover have "trim_right s = s" using assms trim_right_id[of "last s" "butlast s"] by simp
  ultimately show ?thesis by (simp add: trim_space_def)
qed

section \<open>Case mapping\<close>

definition lower_char :: "char \<Rightarrow> char" where
  "lower_char c = (if 65 \<le> code c \<and> code c \<le> 90 then char_of (code c + 32) else c)"

definition upper_char :: "char \<Rightarrow> char" where
  "upper_char c = (if 97 \<le> code c \<and> code c \<le> 122 then char_of (code c - 32) else c)"

text \<open>U+0130 and U+212A have an ASCII lower case; U+0131 and U+017F an ASCII upper case.\<close>

definition dotted_I :: "char \<Rightarrow> char \<Rightarrow> bool" where
  "dotted_I a b \<longleftrightarrow> code a = 0xC4 \<and> code b = 0xB0"

definition kelvin :: "char \<Rightarrow> char \<Rightarrow> char \<Rightarrow> bool" where
  "kelvin a b c \<longleftrightarrow> code a = 0xE2 \<and> code b = 0x84 \<and> code c = 0xAA"

definition dotless_i :: "char \<Rightarrow> char \<Rightarrow> bool" where
  "dotless_i a b \<longleftrightarrow> code a = 0xC4 \<and> code b = 0xB1"

definition long_s :: "char \<Rightarrow> char \<Rightarrow> bool" where
  "long_s a b \<longleftrightarrow> code a = 0xC5 \<and> code b = 0xBF"

fun to_lower :: "string \<Rightarrow> string" where
  "to_lower [] = []"
| "to_lower [a] = [lower_char a]"
| "to_lower [a, b] = (if dotted_I a b then ''i'' else lower_char a # to_lower [b])"
| "to_lower (a # b # c # s) =
     (if dotted_I a b then CHR ''i'' # to_lower (c # s)
      else if kelvin a b c then CHR ''k'' # to_lower s
      else lower_char a # to_lower (b # c # s))"

fun to_upper :: "string \<Rightarrow> string" where
  "to_upper [] = []"
| "to_upper [a] = [upper_char a]"
| "to_upper (a # b # s) =
     (if dotless_i a b then CHR ''I'' # to_upper s
      else if long_s a b then CHR ''S'' # to_upper s
      else upper_char a # to_upper (b # s))"

text \<open>\<open>EqualFold\<close> compares by simple folding, which also folds the Kelvin sign and the long s.\<close>

fun fold_key :: "string \<Rightarrow> string" where
  "fold_key [] = []"
| "fold_key [a] = [lower_char a]"
| "fold_key [a, b] = (if long_s a b then ''s'' else lower_char a # fold_key [b])"
| "fold_key (a # b # c # s) =
     (if long_s a b then CHR ''s'' # fold_key (c # s)
      else if kelvin a b c then CHR ''k'' # fold_key s
      else lower_char a # fold_key (b # c # s))"

definition equal_fold :: "string \<Rightarrow> string \<Rightarrow> bool" where
  "equal_fold s t \<longleftrightarrow> fold_key s = fold_key t"

section \<open>Searching and splitting\<close>

definition has_prefix :: "string \<Rightarrow> string \<Rightarrow> bool" where
  "has_prefix p s \<longleftrightarrow> take (length p) s = p"

definition has_suffix :: "string \<Rightarrow> string \<Rightarrow> bool" where
  "has_suffix p s \<longleftrightarrow> has_prefix (rev p) (rev s)"

definition trim_prefix :: "string \<Rightarrow> string \<Rightarrow> string" where
  "trim_prefix p s = (if has_prefix p s then drop (length p) s else s)"

definition trim_suffix :: "string \<Rightarrow> string \<Rightarrow> string" where
  "trim_suffix p s = rev (trim_prefix (rev p) (rev s))"

lemma has_prefix_append [simp]: "has_prefix p (p @ s)"
  by (simp add: has_prefix_def)

lemma trim_prefix_append [simp]: "trim_prefix p (p @ s) = s"
  by (simp add: trim_prefix_def)

fun index_of :: "string \<Rightarrow> string \<Rightarrow> nat option" where
  "index_of p [] = (if p = [] then Some 0 else None)"
| "index_of p (c # s) =
     (if has_prefix p (c # s) then Some 0 else map_option Suc (index_of p s))"

definition contains_str :: "string \<Rightarrow> string \<Rightarrow> bool" where
  "contains_str p s \<longleftrightarrow> index_of p s \<noteq> None"

fun split_on :: "char \<Rightarrow> string \<Rightarrow> string list" where
  "split_on d [] = [[]]"
| "split_on d (c # s) =
     (if c = d then [] # split_on d s
      else (case split_on d s of [] \<Rightarrow> [[c]] | w # ws \<Rightarrow> (c # w) # ws))"

text \<open>\<open>strings.SplitN(s, d, 2)\<close>: the text before and after the first separator, if any.\<close>

fun cut_at :: "char \<Rightarrow> string \<Rightarrow> (string \<times> string) option" where
  "cut_at d [] = None"
| "cut_at d (c # s) =
     (if c = d then Some ([], s)
      else map_option (\<lambda>(a, b). (c # a, b)) (cut_at d s))"

definition replace_char :: "char \<Rightarrow> char \<Rightarrow> string \<Rightarrow> string" where
  "replace_char a b s = map (\<lambda>c. if c = a then b else c) s"

fun join_str :: "string \<Rightarrow> string list \<Rightarrow> string" where
  "join_str sep [] = []"
| "join_str sep [x] = x"
| "join_str sep (x # xs) = x @ sep @ join_str sep xs"

lemma split_on_not_Nil [simp]: "split_on d s \<noteq> []"
  by (induction s) (auto split: list.splits)

lemma split_on_absent: "d \<notin> set s \<Longrightarrow> split_on d s = [s]"
  by (induction s) auto

lemma split_on_append: "d \<notin> set w \<Longrightarrow> split_on d (w @ d # s) = w # split_on d s"
  by (induction w) auto

lemma join_split: "join_str [d] (split_on d s) = s"
proof (induction s)
  case (Cons c s)
  show ?case
  proof (cases "split_on d s")
    case Nil
    then show ?thesis by simp
  next
    case (Cons w ws)
    with \<open>join_str [d] (split_on d s) = s\<close> show ?thesis by (cases ws) auto
  qed
qed simp

lemma split_on_parts: "w \<in> set (split_on d s) \<Longrightarrow> d \<notin> set w"
proof (induction s arbitrary: w)
  case (Cons c s)
  then show ?case by (cases "split_on d s") (auto split: if_splits)
qed simp

lemma cut_at_Some: "cut_at d s = Some (a, b) \<Longrightarrow> s = a @ d # b \<and> d \<notin> set a"
  by (induction s arbitrary: a) (auto split: if_splits)

lemma cut_at_append [simp]: "d \<notin> set a \<Longrightarrow> cut_at d (a @ d # b) = Some (a, b)"
  by (induction a) auto

lemma cut_at_None: "cut_at d s = None \<longleftrightarrow> d \<notin> set s"
  by (induction s) auto

section \<open>Decimal numbers\<close>

definition digit_char :: "nat \<Rightarrow> char" where
  "digit_char n = char_of (48 + n)"

definition is_digit :: "char \<Rightarrow> bool" where
  "is_digit c \<longleftrightarrow> 48 \<le> code c \<and> code c \<le> 57"

definition digit_val :: "char \<Rightarrow> nat" where
  "digit_val c = code c - 48"

fun dec_nat :: "nat \<Rightarrow> string" where
  "dec_nat n = (if n < 10 then [digit_char n] else dec_nat (n div 10) @ [digit_char (n mod 10)])"

declare dec_nat.simps [simp del]

definition go_itoa :: "int \<Rightarrow> string" where
  "go_itoa n = (if n < 0 then CHR ''-'' # dec_nat (nat (- n)) else dec_nat (nat n))"

definition digits_val :: "string \<Rightarrow> nat" where
  "digits_val s = foldl (\<lambda>a c. a * 10 + digit_val c) 0 s"

text \<open>
  \<open>strconv.Atoi\<close>: an optional sign, at least one digit, nothing else, and a value that fits
  a 64-bit \<open>int\<close>; anything else is an error.
\<close>

definition int_min :: int where "int_min = - (2 ^ 63)"
definition int_max :: int where "int_max = 2 ^ 63 - 1"

definition atoi :: "string \<Rightarrow> int option" where
  "atoi s =
     (let neg = (case s of c # _ \<Rightarrow> c = CHR ''-'' | [] \<Rightarrow> False);
          body = (case s of c # r \<Rightarrow> if c = CHR ''-'' \<or> c = CHR ''+'' then r else s | [] \<Rightarrow> []);
          v = (if neg then - int (digits_val body) else int (digits_val body))
      in if body = [] \<or> \<not> list_all is_digit body then None
         else if int_min \<le> v \<and> v \<le> int_max then Some v else None)"

lemma digit_char_props [simp]:
  "n < 10 \<Longrightarrow> is_digit (digit_char n)"
  "n < 10 \<Longrightarrow> digit_val (digit_char n) = n"
  by (simp_all add: is_digit_def digit_char_def digit_val_def)

lemma dec_nat_digits: "list_all is_digit (dec_nat n)"
  by (induction n rule: dec_nat.induct) (subst dec_nat.simps, auto)

lemma dec_nat_not_Nil [simp]: "dec_nat n \<noteq> []"
  by (subst dec_nat.simps) simp

lemma digits_val_snoc: "digits_val (s @ [c]) = digits_val s * 10 + digit_val c"
  by (simp add: digits_val_def)

lemma digits_val_dec_nat [simp]: "digits_val (dec_nat n) = n"
proof (induction n rule: dec_nat.induct)
  case (1 n)
  show ?case
  proof (cases "n < 10")
    case True
    then show ?thesis by (subst dec_nat.simps) (simp add: digits_val_def)
  next
    case False
    then have "digits_val (dec_nat n) = digits_val (dec_nat (n div 10)) * 10 + n mod 10"
      by (subst dec_nat.simps) (simp add: digits_val_snoc)
    with 1 False show ?thesis by simp
  qed
qed

lemma dec_nat_inj [simp]: "dec_nat m = dec_nat n \<longleftrightarrow> m = n"
  by (metis digits_val_dec_nat)

lemma is_digit_not_sign: "is_digit c \<Longrightarrow> c \<noteq> CHR ''-'' \<and> c \<noteq> CHR ''+''"
  by (auto simp: is_digit_def)

lemma atoi_go_itoa:
  assumes "int_min \<le> n" "n \<le> int_max"
  shows "atoi (go_itoa n) = Some n"
proof (cases "n < 0")
  case True
  with assms show ?thesis by (simp add: atoi_def go_itoa_def dec_nat_digits)
next
  case False
  obtain c r where cr: "dec_nat (nat n) = c # r" by (cases "dec_nat (nat n)") auto
  have "is_digit c" using dec_nat_digits[of "nat n"] cr by simp
  then have "c \<noteq> CHR ''-'' \<and> c \<noteq> CHR ''+''" by (rule is_digit_not_sign)
  moreover have "digits_val (c # r) = nat n" using cr digits_val_dec_nat[of "nat n"] by simp
  ultimately show ?thesis
    using False assms cr dec_nat_digits[of "nat n"] by (simp add: atoi_def go_itoa_def)
qed

section \<open>Runes\<close>

text \<open>The width \<open>utf8.DecodeRune\<close> gives the first rune; an invalid sequence is one byte wide.\<close>

definition cont_byte :: "string \<Rightarrow> nat \<Rightarrow> bool" where
  "cont_byte s i \<longleftrightarrow> i < length s \<and> 0x80 \<le> code (s ! i) \<and> code (s ! i) \<le> 0xBF"

definition rune_width :: "string \<Rightarrow> nat" where
  "rune_width s =
     (let c0 = code (hd s); c1 = (if length s > 1 then code (s ! 1) else 0) in
      if 0xC2 \<le> c0 \<and> c0 \<le> 0xDF \<and> cont_byte s 1 then 2
      else if 0xE0 \<le> c0 \<and> c0 \<le> 0xEF \<and> cont_byte s 1 \<and> cont_byte s 2
          \<and> (c0 = 0xE0 \<longrightarrow> 0xA0 \<le> c1) \<and> (c0 = 0xED \<longrightarrow> c1 \<le> 0x9F) then 3
      else if 0xF0 \<le> c0 \<and> c0 \<le> 0xF4 \<and> cont_byte s 1 \<and> cont_byte s 2 \<and> cont_byte s 3
          \<and> (c0 = 0xF0 \<longrightarrow> 0x90 \<le> c1) \<and> (c0 = 0xF4 \<longrightarrow> c1 \<le> 0x8F) then 4
      else 1)"

lemma rune_width_pos [simp]: "0 < rune_width s"
  by (simp add: rune_width_def Let_def)

function runes :: "string \<Rightarrow> string list" where
  "runes [] = []"
| "runes (c # s) = take (rune_width (c # s)) (c # s) # runes (drop (rune_width (c # s)) (c # s))"
  by pat_completeness auto
termination
  by (relation "measure length") auto

declare runes.simps(2) [simp del]

lemma runes_ascii [simp]: "code c < 128 \<Longrightarrow> runes (c # s) = [c] # runes s"
  by (simp add: runes.simps(2) rune_width_def Let_def)

lemma runes_digits: "list_all is_digit s \<Longrightarrow> runes s = map (\<lambda>c. [c]) s"
  by (induction s) (auto simp: is_digit_def)

lemma length_dec_nat: "n < 10 ^ Suc k \<Longrightarrow> length (dec_nat n) \<le> Suc k"
proof (induction k arbitrary: n)
  case 0
  then show ?case by (subst dec_nat.simps) simp
next
  case (Suc k)
  have "n div 10 < 10 ^ Suc k" using Suc.prems by (simp add: less_mult_imp_div_less mult.commute)
  then have "length (dec_nat (n div 10)) \<le> Suc k" by (rule Suc.IH)
  then show ?case by (subst dec_nat.simps) simp
qed

end
