(* ===== verification/Go_Net.thy ===== *)
theory Go_Net
  imports Go_Strings
begin

text \<open>
  The parts of Go's \<open>net\<close> package the source relies on: textual IPv4 and IPv6 addresses
  (\<open>net.ParseIP\<close>, \<open>IP.To4\<close>, \<open>IP.To16\<close>, \<open>IP.Equal\<close>, \<open>IP.String\<close>, the class predicates) and
  \<open>host:port\<close> strings (\<open>SplitHostPort\<close>, \<open>JoinHostPort\<close>). An \<open>IP\<close> is a byte list of
  length 4 or 16, as in Go. Every parse error is \<open>None\<close>: the source never inspects which one it was.
\<close>

section \<open>Addresses\<close>

type_synonym ip = bytes

definition v4_prefix :: bytes where
  "v4_prefix = [0, 0, 0, 0, 0, 0, 0, 0, 0, 0, 0xFF, 0xFF]"

definition to4 :: "ip \<Rightarrow> ip option" where
  "to4 a = (if length a = 4 then Some a
            else if length a = 16 \<and> take 12 a = v4_prefix then Some (drop 12 a)
            else None)"

definition to16 :: "ip \<Rightarrow> ip option" where
  "to16 a = (if length a = 4 then Some (v4_prefix @ a) else if length a = 16 then Some a else None)"

definition ip_equal :: "ip \<Rightarrow> ip \<Rightarrow> bool" where
  "ip_equal a b =
     (if length a = length b then a = b
      else if length a = 4 \<and> length b = 16 then take 12 b = v4_prefix \<and> a = drop 12 b
      else if length a = 16 \<and> length b = 4 then take 12 a = v4_prefix \<and> drop 12 a = b
      else False)"

lemma length_v4_prefix [simp]: "length v4_prefix = 12"
  by (simp add: v4_prefix_def)

lemma to4_length: "to4 a = Some b \<Longrightarrow> length b = 4"
  by (auto simp: to4_def split: if_splits)

lemma to4_4 [simp]: "length a = 4 \<Longrightarrow> to4 a = Some a"
  by (simp add: to4_def)

lemma to4_v4_prefix [simp]: "length a = 4 \<Longrightarrow> to4 (v4_prefix @ a) = Some a"
  by (simp add: to4_def)

lemma to16_length: "to16 a = Some b \<Longrightarrow> length b = 16"
  by (auto simp: to16_def split: if_splits)

lemma ip_equal_refl [simp]: "ip_equal a a"
  by (simp add: ip_equal_def)

lemma ip_equal_sym: "ip_equal a b = ip_equal b a"
  by (auto simp: ip_equal_def)

lemma ip_equal_to4: "to4 a = Some x \<Longrightarrow> to4 b = Some y \<Longrightarrow> ip_equal a b \<longleftrightarrow> x = y"
  by (auto simp: to4_def ip_equal_def split: if_splits) (metis append_take_drop_id)+

definition is_loopback :: "ip \<Rightarrow> bool" where
  "is_loopback a = (case to4 a of Some b \<Rightarrow> b ! 0 = 127
                    | None \<Rightarrow> a = replicate 15 0 @ [1])"

definition is_private4 :: "ip \<Rightarrow> bool" where
  "is_private4 b \<longleftrightarrow> b ! 0 = 10 \<or> (b ! 0 = 172 \<and> b ! 1 AND 0xF0 = 16) \<or> (b ! 0 = 192 \<and> b ! 1 = 168)"

definition is_link_local4 :: "ip \<Rightarrow> bool" where
  "is_link_local4 b \<longleftrightarrow> b ! 0 = 169 \<and> b ! 1 = 254"

section \<open>Parsing addresses\<close>

definition parse_octet :: "string \<Rightarrow> u8 option" where
  "parse_octet s =
     (if s = [] \<or> \<not> list_all is_digit s then None
      else if length s > 1 \<and> hd s = CHR ''0'' then None
      else if digits_val s > 255 then None
      else Some (of_nat (digits_val s)))"

definition parse_ip4 :: "string \<Rightarrow> bytes option" where
  "parse_ip4 s =
     (case map parse_octet (split_on (CHR ''.'') s) of
        [Some a, Some b, Some c, Some d] \<Rightarrow> Some [a, b, c, d]
      | _ \<Rightarrow> None)"

definition is_hex :: "char \<Rightarrow> bool" where
  "is_hex c \<longleftrightarrow> is_digit c \<or> (97 \<le> code c \<and> code c \<le> 102) \<or> (65 \<le> code c \<and> code c \<le> 70)"

definition hex_val :: "char \<Rightarrow> nat" where
  "hex_val c = (if is_digit c then code c - 48 else if 97 \<le> code c then code c - 87 else code c - 55)"

definition hex_group :: "string \<Rightarrow> u16" where
  "hex_group s = of_nat (foldl (\<lambda>a c. a * 16 + hex_val c) 0 s)"

text \<open>
  The group loop of \<open>netip\<close>'s IPv6 parser. \<open>n\<close> bounds the groups still to read, \<open>acc\<close> holds the
  bytes so far and \<open>el\<close> the position of the ellipsis; the result is the bytes, the ellipsis
  and the unread text.
\<close>

fun ip6_groups ::
  "nat \<Rightarrow> string \<Rightarrow> bytes \<Rightarrow> nat option \<Rightarrow> (bytes \<times> nat option \<times> string) option" where
  "ip6_groups 0 s acc el = Some (acc, el, s)"
| "ip6_groups (Suc n) s acc el =
     (let h = takeWhile is_hex s; r = dropWhile is_hex s in
      if h = [] \<or> length h > 4 then None
      else if r \<noteq> [] \<and> hd r = CHR ''.'' then
        (if el = None \<and> length acc \<noteq> 12 then None
         else if length acc + 4 > 16 then None
         else (case parse_ip4 s of None \<Rightarrow> None | Some b \<Rightarrow> Some (acc @ b, el, [])))
      else
        (let acc' = acc @ put_u16 (hex_group h) in
         if r = [] then Some (acc', el, [])
         else if hd r \<noteq> CHR '':'' \<or> length r = 1 then None
         else if hd (tl r) = CHR '':'' then
           (if el \<noteq> None then None
            else if tl (tl r) = [] then Some (acc', Some (length acc'), [])
            else ip6_groups n (tl (tl r)) acc' (Some (length acc')))
         else ip6_groups n (tl r) acc' el))"

definition ip6_finish :: "bytes \<times> nat option \<times> string \<Rightarrow> bytes option" where
  "ip6_finish r =
     (case r of (acc, el, s) \<Rightarrow>
        if s \<noteq> [] then None
        else if length acc < 16 then
          (case el of None \<Rightarrow> None
           | Some e \<Rightarrow> Some (take e acc @ replicate (16 - length acc) 0 @ drop e acc))
        else (if el = None then Some acc else None))"

definition parse_ip6 :: "string \<Rightarrow> bytes option" where
  "parse_ip6 s =
     (if take 2 s = ''::'' then
        (if length s = 2 then Some (replicate 16 0)
         else Option.bind (ip6_groups 8 (drop 2 s) [] (Some 0)) ip6_finish)
      else Option.bind (ip6_groups 8 s [] None) ip6_finish)"

text \<open>
  \<open>net.ParseIP\<close>: the first of the characters \<open>.\<close>, \<open>:\<close> and \<open>%\<close> decides the family; the result
  is in the 16-byte form. An address with a zone is refused.
\<close>

definition parse_ip :: "string \<Rightarrow> ip option" where
  "parse_ip s =
     (if CHR ''%'' \<in> set s then None
      else case dropWhile (\<lambda>c. c \<noteq> CHR ''.'' \<and> c \<noteq> CHR '':'') s of
        [] \<Rightarrow> None
      | c # _ \<Rightarrow> (if c = CHR ''.'' then map_option (\<lambda>b. v4_prefix @ b) (parse_ip4 s)
                 else parse_ip6 s))"

section \<open>Printing addresses\<close>

definition ip4_string :: "ip \<Rightarrow> string" where
  "ip4_string b = join_str ''.'' (map (\<lambda>x. dec_nat (unat x)) b)"

definition hex_char :: "nat \<Rightarrow> char" where
  "hex_char n = (if n < 10 then char_of (48 + n) else char_of (87 + n))"

fun hex_nat :: "nat \<Rightarrow> string" where
  "hex_nat n = (if n < 16 then [hex_char n] else hex_nat (n div 16) @ [hex_char (n mod 16)])"

declare hex_nat.simps [simp del]

fun groups_of :: "bytes \<Rightarrow> u16 list" where
  "groups_of (a # b # r) = get_u16 a b # groups_of r"
| "groups_of _ = []"

text \<open>The leftmost longest run of at least two zero groups, as (start, length).\<close>

fun zero_run :: "nat \<Rightarrow> u16 list \<Rightarrow> nat \<times> nat \<Rightarrow> nat \<times> nat" where
  "zero_run i [] best = best"
| "zero_run i (g # gs) best =
     (let l = length (takeWhile (\<lambda>x. x = 0) (g # gs))
      in zero_run (Suc i) gs (if l > snd best \<and> l \<ge> 2 then (i, l) else best))"

definition ip6_string :: "ip \<Rightarrow> string" where
  "ip6_string a =
     (let gs = groups_of a; txt = map (\<lambda>g. hex_nat (unat g)) gs;
          (st, l) = zero_run 0 gs (0, 0)
      in if l = 0 then join_str '':'' txt
         else join_str '':'' (take st txt) @ ''::'' @ join_str '':'' (drop (st + l) txt))"

text \<open>\<open>IP.String\<close> for addresses of 4 and 16 bytes; an IPv4-mapped address prints as IPv4.\<close>

definition ip_string :: "ip \<Rightarrow> string" where
  "ip_string a = (case to4 a of Some b \<Rightarrow> ip4_string b | None \<Rightarrow> ip6_string a)"

lemma dec_nat_small: "n < 10 \<Longrightarrow> dec_nat n = [digit_char n]"
  by (subst dec_nat.simps) simp

lemma dec_nat_hd: "0 < n \<Longrightarrow> hd (dec_nat n) \<noteq> CHR ''0''"
proof (induction n rule: dec_nat.induct)
  case (1 n)
  show ?case
  proof (cases "n < 10")
    case True
    moreover have "digit_char n \<noteq> CHR ''0''"
    proof
      assume "digit_char n = CHR ''0''"
      then have "digit_val (digit_char n) = 0" by (simp add: digit_val_def)
      with True \<open>0 < n\<close> show False by simp
    qed
    ultimately show ?thesis by (simp add: dec_nat_small)
  next
    case False
    with 1 have "hd (dec_nat (n div 10)) \<noteq> CHR ''0''" by simp
    with False show ?thesis by (subst dec_nat.simps) simp
  qed
qed

lemma parse_octet_dec: "parse_octet (dec_nat (unat (x :: u8))) = Some x"
proof -
  have "unat x < 2 ^ LENGTH(8)" by (rule unsigned_less)
  then have le: "unat x \<le> 255" by simp
  have "\<not> (length (dec_nat (unat x)) > 1 \<and> hd (dec_nat (unat x)) = CHR ''0'')"
    using dec_nat_hd[of "unat x"] by (cases "unat x = 0") (auto simp: dec_nat_small)
  with le show ?thesis by (auto simp: parse_octet_def dec_nat_digits)
qed

lemma dot_not_digit: "list_all is_digit s \<Longrightarrow> CHR ''.'' \<notin> set s"
  by (auto simp: list_all_iff is_digit_def)

lemma colon_not_digit: "list_all is_digit s \<Longrightarrow> CHR '':'' \<notin> set s"
  by (auto simp: list_all_iff is_digit_def)

lemma parse_ip4_string:
  assumes "length b = 4"
  shows "parse_ip4 (ip4_string b) = Some b"
proof -
  obtain w x y z where b: "b = [w, x, y, z]"
    using assms by (auto simp: numeral_eq_Suc length_Suc_conv)
  show ?thesis
    by (simp add: b ip4_string_def parse_ip4_def split_on_append split_on_absent
        dot_not_digit dec_nat_digits parse_octet_dec)
qed

lemma ip4_string_chars:
  "length b = 4 \<Longrightarrow> c \<in> set (ip4_string b) \<Longrightarrow> is_digit c \<or> c = CHR ''.''"
  using dec_nat_digits
  by (auto simp: ip4_string_def numeral_eq_Suc length_Suc_conv list_all_iff)

lemma parse_ip_string4:
  assumes "length b = 4"
  shows "parse_ip (ip4_string b) = Some (v4_prefix @ b)"
proof -
  have chars: "\<forall>c \<in> set (ip4_string b). is_digit c \<or> c = CHR ''.''"
    using assms ip4_string_chars by blast
  then have no: "CHR ''%'' \<notin> set (ip4_string b)" "CHR '':'' \<notin> set (ip4_string b)"
    by (auto simp: is_digit_def)
  have dot: "CHR ''.'' \<in> set (ip4_string b)"
    using assms by (auto simp: ip4_string_def numeral_eq_Suc length_Suc_conv)
  obtain r where "dropWhile (\<lambda>c. c \<noteq> CHR ''.'' \<and> c \<noteq> CHR '':'') (ip4_string b) = CHR ''.'' # r"
  proof -
    let ?d = "dropWhile (\<lambda>c. c \<noteq> CHR ''.'' \<and> c \<noteq> CHR '':'') (ip4_string b)"
    from dot have ne: "?d \<noteq> []" by (auto simp: dropWhile_eq_Nil_conv)
    then have "hd ?d = CHR ''.'' \<or> hd ?d = CHR '':''" using hd_dropWhile[OF ne] by blast
    moreover have "hd ?d \<in> set (ip4_string b)"
      using ne hd_in_set set_dropWhileD by metis
    ultimately have "hd ?d = CHR ''.''" using no by auto
    with ne that show ?thesis by (metis list.collapse)
  qed
  with no parse_ip4_string[OF assms] show ?thesis by (simp add: parse_ip_def)
qed

lemma join_str_nonempty [simp]: "x \<noteq> [] \<Longrightarrow> join_str d (x # xs) \<noteq> []"
  by (cases xs) auto

lemma ip4_string_nonempty: "length b = 4 \<Longrightarrow> ip4_string b \<noteq> []"
  by (cases b) (auto simp: ip4_string_def)

lemma hex_nat_not_Nil [simp]: "hex_nat n \<noteq> []"
  by (subst hex_nat.simps) simp

lemma ip6_string_nonempty: "length a = 16 \<Longrightarrow> ip6_string a \<noteq> []"
  by (cases a; cases "tl a") (auto simp: ip6_string_def Let_def case_prod_unfold)

lemma ip_string_nonempty: "length a = 4 \<or> length a = 16 \<Longrightarrow> ip_string a \<noteq> []"
  by (auto simp: ip_string_def to4_length ip4_string_nonempty ip6_string_nonempty split: option.splits)

section \<open>host:port\<close>

text \<open>\<open>split_last d s\<close> cuts at the last occurrence of \<open>d\<close>.\<close>

definition split_last :: "char \<Rightarrow> string \<Rightarrow> (string \<times> string) option" where
  "split_last d s = map_option (\<lambda>(a, b). (rev b, rev a)) (cut_at d (rev s))"

definition split_host_port :: "string \<Rightarrow> (string \<times> string) option" where
  "split_host_port s =
     (case split_last (CHR '':'') s of
        None \<Rightarrow> None
      | Some (front, port) \<Rightarrow>
          if hd s = CHR ''['' then
            (case cut_at (CHR '']'') s of
               None \<Rightarrow> None
             | Some (inner, rest) \<Rightarrow>
                 if rest \<noteq> CHR '':'' # port then None
                 else if CHR ''['' \<in> set (tl s) \<or> CHR '']'' \<in> set rest then None
                 else Some (tl inner, port))
          else if CHR '':'' \<in> set front then None
          else if CHR ''['' \<in> set s \<or> CHR '']'' \<in> set s then None
          else Some (front, port))"

definition join_host_port :: "string \<Rightarrow> string \<Rightarrow> string" where
  "join_host_port h p =
     (if CHR '':'' \<in> set h then CHR ''['' # h @ '']:'' @ p else h @ '':'' @ p)"

lemma split_last_append:
  "d \<notin> set b \<Longrightarrow> split_last d (a @ d # b) = Some (a, b)"
  by (simp add: split_last_def)

lemma split_join_host_port:
  assumes "CHR ''['' \<notin> set h" "CHR '']'' \<notin> set h"
    and "CHR '':'' \<notin> set p" "CHR ''['' \<notin> set p" "CHR '']'' \<notin> set p"
  shows "split_host_port (join_host_port h p) = Some (h, p)"
proof (cases "CHR '':'' \<in> set h")
  case True
  have l: "split_last (CHR '':'') (CHR ''['' # h @ '']:'' @ p) = Some (CHR ''['' # h @ '']'', p)"
    using split_last_append[OF assms(3), of "CHR ''['' # h @ '']''"] by simp
  have c: "cut_at (CHR '']'') (CHR ''['' # h @ '']:'' @ p) = Some (CHR ''['' # h, CHR '':'' # p)"
    using cut_at_append[of "CHR '']''" "CHR ''['' # h" "CHR '':'' # p"] assms by simp
  from True l c assms show ?thesis by (simp add: split_host_port_def join_host_port_def)
next
  case False
  then have "hd (h @ '':'' @ p) \<noteq> CHR ''[''" using assms by (cases h) auto
  with False split_last_append[OF assms(3), of h] assms show ?thesis
    by (simp add: split_host_port_def join_host_port_def)
qed

lemma split_last_Some: "split_last d s = Some (a, b) \<Longrightarrow> s = a @ d # b \<and> d \<notin> set b"
proof -
  assume "split_last d s = Some (a, b)"
  then have "cut_at d (rev s) = Some (rev b, rev a)"
    by (auto simp: split_last_def)
  then have "rev s = rev b @ d # rev a \<and> d \<notin> set (rev b)" by (rule cut_at_Some)
  then show ?thesis by (auto simp: rev_swap)
qed

lemma split_host_port_no_colon:
  assumes "split_host_port s = Some (h, p)"
  shows "CHR '':'' \<notin> set p"
proof -
  from assms obtain x where "split_last (CHR '':'') s = Some (x, p)"
    by (auto simp: split_host_port_def split: option.splits if_splits)
  then show ?thesis by (simp add: split_last_Some)
qed

end
