(* ===== verification/Stun_Codec.thy ===== *)
theory Stun_Codec
  imports Go_Net
begin

text \<open>
  The STUN message codec of \<open>stun2\<close>: the attribute builders and \<open>buildBindingResponse\<close> of
  \<open>svr.go\<close>, and the attribute parser \<open>getStunIpPort4\<close>/\<open>getStunIpPort5\<close> of \<open>cli.go\<close>. A slice or
  an index of the Go code that may be out of range is a checked read whose failure is the error
  \<open>StunPanic\<close>; the parser un-XORs the address in place, so it also returns the buffer.
\<close>

section \<open>Addresses and constants\<close>

record udp_addr =
  ua_ip :: ip
  ua_port :: int

definition MsgTypeBindingRequest :: u16 where "MsgTypeBindingRequest = 0x0001"
definition AttrMappedAddress :: u16 where "AttrMappedAddress = 0x0001"
definition AttrChangedAddress :: u16 where "AttrChangedAddress = 0x0005"
definition AttrXorMappedAddress :: u16 where "AttrXorMappedAddress = 0x0020"
definition FamilyIPv4 :: u8 where "FamilyIPv4 = 1"
definition FamilyIPv6 :: u8 where "FamilyIPv6 = 2"
definition FingerprintXor :: u32 where "FingerprintXor = 0x5354554e"

definition magicCookieBytes :: bytes where
  "magicCookieBytes = [0x21, 0x12, 0xA4, 0x42]"

lemmas stun_consts = MsgTypeBindingRequest_def AttrMappedAddress_def AttrChangedAddress_def
  AttrXorMappedAddress_def FamilyIPv4_def FamilyIPv6_def magicCookieBytes_def

definition port16 :: "int \<Rightarrow> u16" where
  "port16 p = word_of_int p"

definition xor_bytes :: "bytes \<Rightarrow> bytes \<Rightarrow> bytes" where
  "xor_bytes xs ys = map2 (\<lambda>x y. x XOR y) xs ys"

lemma xor_bytes_simps [simp]:
  "xor_bytes [] ys = []"
  "xor_bytes (x # xs) (y # ys) = (x XOR y) # xor_bytes xs ys"
  by (simp_all add: xor_bytes_def)

lemma length_xor_bytes [simp]: "length (xor_bytes xs ys) = min (length xs) (length ys)"
  by (simp add: xor_bytes_def)

lemma xor_bytes_twice:
  "length xs \<le> length ys \<Longrightarrow> xor_bytes (xor_bytes xs ys) ys = xs"
proof (induction xs arbitrary: ys)
  case (Cons x xs)
  then show ?case by (cases ys) (auto simp: xor.assoc)
qed simp

section \<open>Attribute builders\<close>

definition address_attr :: "u16 \<Rightarrow> u8 \<Rightarrow> u16 \<Rightarrow> bytes \<Rightarrow> bytes" where
  "address_attr ty family port a =
     put_u16 ty @ put_u16 (if family = FamilyIPv4 then 0x0008 else 0x0014)
       @ [0x00, family] @ put_u16 port @ a"

definition buildMappedAddress :: "udp_addr \<Rightarrow> bytes" where
  "buildMappedAddress addr =
     (case to4 (ua_ip addr) of
        Some ip4 \<Rightarrow> address_attr AttrMappedAddress FamilyIPv4 (port16 (ua_port addr)) ip4
      | None \<Rightarrow> address_attr AttrMappedAddress FamilyIPv6 (port16 (ua_port addr))
                  (case to16 (ua_ip addr) of Some ip16 \<Rightarrow> ip16 | None \<Rightarrow> []))"

text \<open>\<open>None\<close> is the index panic of an address that is neither 4 nor 16 bytes long.\<close>

definition buildXorMappedAddress :: "udp_addr \<Rightarrow> bytes \<Rightarrow> bytes option" where
  "buildXorMappedAddress addr tid =
     (let xport = port16 (ua_port addr) XOR 0x2112 in
      case to4 (ua_ip addr) of
        Some ip4 \<Rightarrow>
          Some (address_attr AttrXorMappedAddress FamilyIPv4 xport (xor_bytes ip4 magicCookieBytes))
      | None \<Rightarrow>
          (case to16 (ua_ip addr) of
             None \<Rightarrow> None
           | Some ip16 \<Rightarrow>
               if length tid < 12 then None
               else Some (address_attr AttrXorMappedAddress FamilyIPv6 xport
                            (xor_bytes (take 4 ip16) magicCookieBytes
                               @ xor_bytes (drop 4 ip16) (take 12 tid)))))"

text \<open>The port loop of \<open>buildChangedAddress\<close>: each character contributes its code minus that of 0.\<close>

definition changed_port :: "string \<Rightarrow> int" where
  "changed_port s = foldl (\<lambda>p c. p * 10 + (int (code c) - 48)) 0 s"

definition buildChangedAddress :: "string \<Rightarrow> bytes" where
  "buildChangedAddress addr =
     (case split_host_port addr of
        None \<Rightarrow> []
      | Some (host, port) \<Rightarrow>
          (case parse_ip host of
             None \<Rightarrow> []
           | Some a \<Rightarrow>
               (case to4 a of
                  Some ip4 \<Rightarrow>
                    address_attr AttrChangedAddress FamilyIPv4 (port16 (changed_port port)) ip4
                | None \<Rightarrow>
                    address_attr AttrChangedAddress FamilyIPv6 (port16 (changed_port port))
                      (case to16 a of Some ip16 \<Rightarrow> ip16 | None \<Rightarrow> []))))"

section \<open>Fingerprint\<close>

text \<open>\<open>crc32.ChecksumIEEE\<close>: the reflected polynomial 0xEDB88320, one bit at a time.\<close>

fun crc32_bits :: "nat \<Rightarrow> u32 \<Rightarrow> u32" where
  "crc32_bits 0 c = c"
| "crc32_bits (Suc n) c =
     crc32_bits n (if bit c 0 then drop_bit 1 c XOR 0xEDB88320 else drop_bit 1 c)"

definition crc32 :: "bytes \<Rightarrow> u32" where
  "crc32 bs = NOT (foldl (\<lambda>c b. crc32_bits 8 (c XOR ucast b)) (NOT 0) bs)"

definition calcFingerprint :: "bytes \<Rightarrow> u32" where
  "calcFingerprint bs = crc32 bs XOR FingerprintXor"

definition buildFingerprint :: "u32 \<Rightarrow> bytes" where
  "buildFingerprint crc = [0x80, 0x28] @ [0x00, 0x04] @ put_u32 crc"

definition buildBindingResponse :: "udp_addr \<Rightarrow> bytes \<Rightarrow> string \<Rightarrow> bytes option" where
  "buildBindingResponse addr tid changed =
     (case buildXorMappedAddress addr tid of
        None \<Rightarrow> None
      | Some xorMapped \<Rightarrow>
          (let mapped = buildMappedAddress addr;
               chg = buildChangedAddress changed;
               attrsLen = length mapped + length xorMapped + length chg;
               buf = [0x01, 0x01] @ put_u16 (of_nat (attrsLen + 8)) @ magicCookieBytes @ tid
                       @ mapped @ xorMapped @ chg
           in Some (buf @ buildFingerprint (calcFingerprint buf))))"

section \<open>The attribute parser\<close>

datatype stun_err =
    StunPanic
  | AttrLengthOverflow u16
  | ShortAddressAttr
  | ShortIPv4Attr nat
  | ShortIPv6Attr nat
  | UnknownFamily u8
  | ShortCookie
  | ShortTransactionID
  | AttrNotFound

text \<open>\<open>xs[a:b]\<close>; out of range it panics.\<close>

definition slice :: "bytes \<Rightarrow> nat \<Rightarrow> nat \<Rightarrow> stun_err + bytes" where
  "slice xs a b = (if a \<le> b \<and> b \<le> length xs then Inr (take (b - a) (drop a xs)) else Inl StunPanic)"

definition uint16_at :: "bytes \<Rightarrow> stun_err + u16" where
  "uint16_at xs = (case xs of a # b # _ \<Rightarrow> Inr (get_u16 a b) | _ \<Rightarrow> Inl StunPanic)"

text \<open>Where the address bytes of the value lie: \<open>attributeValue[4:8]\<close> or \<open>[4:20]\<close>.\<close>

definition family_len :: "bytes \<Rightarrow> stun_err + nat" where
  "family_len v =
     (if length v < 2 then Inl ShortAddressAttr
      else if v ! 1 = 1 then
        (if length v < 8 then Inl (ShortIPv4Attr (length v)) else Inr 4)
      else if v ! 1 = 2 then
        (if length v < 20 then Inl (ShortIPv6Attr (length v)) else Inr 16)
      else Inl (UnknownFamily (v ! 1)))"

text \<open>The mask of the in-place XOR: the cookie, then for IPv6 the transaction id.\<close>

definition xor_mask :: "nat \<Rightarrow> bytes \<Rightarrow> bytes \<Rightarrow> stun_err + bytes" where
  "xor_mask n cookie tid =
     (if length cookie < 4 then Inl ShortCookie
      else if length tid < 12 then Inl ShortTransactionID
      else Inr (take n (take 4 cookie @ take 12 tid)))"

definition getStunIpPort5 ::
  "u16 \<Rightarrow> bytes \<Rightarrow> u16 \<Rightarrow> bytes \<Rightarrow> bytes \<Rightarrow> (stun_err + string \<times> int) \<times> bytes" where
  "getStunIpPort5 attrType attributes attrLength cookie tid =
     (if length attributes < 4 \<or> unat attrLength + 4 > length attributes
      then (Inl (AttrLengthOverflow attrLength), attributes)
      else case bind_res (slice attributes 4 (4 + unat attrLength)) (\<lambda>v.
                bind_res (family_len v) (\<lambda>n.
                bind_res (slice v 4 (4 + n)) (\<lambda>ip.
                bind_res (slice v 2 4) (\<lambda>port.
                  Inr (n, ip, port))))) of
             Inl e \<Rightarrow> (Inl e, attributes)
           | Inr (n, ip, port) \<Rightarrow>
               if attrType = AttrXorMappedAddress then
                 (case xor_mask n cookie tid of
                    Inl e \<Rightarrow> (Inl e, attributes)
                  | Inr msk \<Rightarrow>
                      (let ip' = xor_bytes ip msk;
                           attributes' = take 8 attributes @ ip' @ drop (8 + n) attributes
                       in (bind_res (uint16_at port) (\<lambda>p.
                             Inr (ip_string ip', int (unat (p XOR 0x2112)))), attributes')))
               else (bind_res (uint16_at port) (\<lambda>p. Inr (ip_string ip, int (unat p))), attributes))"

text \<open>The padded length is computed in 16 bits, as \<open>(attrLength + 3) &^ 3\<close> is.\<close>

definition padded_len :: "u16 \<Rightarrow> nat" where
  "padded_len l = unat ((l + 3) AND NOT 3)"

function stun_scan ::
  "bytes \<Rightarrow> nat \<Rightarrow> u16 \<Rightarrow> bytes \<Rightarrow> bytes \<Rightarrow> nat \<Rightarrow> (stun_err + string \<times> int) \<times> bytes" where
  "stun_scan response limit needType cookie tid start =
     (if start + 4 > limit then (Inl AttrNotFound, response)
      else case slice response start limit of
        Inl e \<Rightarrow> (Inl e, response)
      | Inr attributes \<Rightarrow>
          (case bind_res (slice attributes 0 2) uint16_at of
             Inl e \<Rightarrow> (Inl e, response)
           | Inr attrType \<Rightarrow>
               (case bind_res (slice attributes 2 4) uint16_at of
                  Inl e \<Rightarrow> (Inl e, response)
                | Inr attrLength \<Rightarrow>
                    if 4 + padded_len attrLength > length attributes
                    then (Inl AttrNotFound, response)
                    else if attrType = needType then
                      (let (r, attributes') =
                             getStunIpPort5 attrType attributes attrLength cookie tid
                       in (r, take start response @ attributes' @ drop limit response))
                    else stun_scan response limit needType cookie tid
                           (start + 4 + padded_len attrLength))))"
  by pat_completeness auto
termination
  by (relation "measure (\<lambda>(response, limit, needType, cookie, tid, start). limit - start)") auto

declare stun_scan.simps [simp del]

definition getStunIpPort4 ::
  "bytes \<Rightarrow> int \<Rightarrow> u16 \<Rightarrow> bytes \<Rightarrow> bytes \<Rightarrow> (stun_err + string \<times> int) \<times> bytes" where
  "getStunIpPort4 response response_len needType cookie tid =
     stun_scan response (nat (min response_len (int (length response)))) needType cookie tid 0"

section \<open>The parser never reads out of range\<close>

lemma slice_Inr [simp]: "a \<le> b \<Longrightarrow> b \<le> length xs \<Longrightarrow> slice xs a b = Inr (take (b - a) (drop a xs))"
  by (simp add: slice_def)

lemma family_len_Inr: "family_len v = Inr n \<Longrightarrow> (n = 4 \<or> n = 16) \<and> 4 + n \<le> length v"
  by (auto simp: family_len_def split: if_splits)

lemma family_len_no_panic: "family_len v \<noteq> Inl StunPanic"
  by (simp add: family_len_def)

lemma xor_mask_no_panic: "xor_mask n cookie tid \<noteq> Inl StunPanic"
  by (simp add: xor_mask_def)

lemma uint16_at_2: "length xs = 2 \<Longrightarrow> \<exists>w. uint16_at xs = Inr w"
  by (auto simp: uint16_at_def numeral_eq_Suc length_Suc_conv)

lemma getStunIpPort5_no_panic:
  "fst (getStunIpPort5 ty attributes len cookie tid) \<noteq> Inl StunPanic"
proof (cases "length attributes < 4 \<or> unat len + 4 > length attributes")
  case True
  then show ?thesis by (auto simp: getStunIpPort5_def)
next
  case False
  let ?v = "take (unat len) (drop 4 attributes)"
  have v: "slice attributes 4 (4 + unat len) = Inr ?v" using False by simp
  show ?thesis
  proof (cases "family_len ?v")
    case (Inl e)
    then show ?thesis using False v family_len_no_panic[of ?v] by (auto simp: getStunIpPort5_def)
  next
    case (Inr n)
    note family_len_Inr[OF Inr]
    then have n: "4 + n \<le> length ?v" "n = 4 \<or> n = 16" by simp_all
    then have "length (take 2 (drop 2 ?v)) = 2" by auto
    then obtain w where "uint16_at (take 2 (drop 2 ?v)) = Inr w" using uint16_at_2 by blast
    with False v Inr n xor_mask_no_panic[of n cookie tid] show ?thesis
      by (auto simp: getStunIpPort5_def Let_def split: sum.splits)
  qed
qed

lemma getStunIpPort5_length:
  "length (snd (getStunIpPort5 ty attributes len cookie tid)) = length attributes"
proof (cases "length attributes < 4 \<or> unat len + 4 > length attributes")
  case False
  let ?v = "take (unat len) (drop 4 attributes)"
  have v: "slice attributes 4 (4 + unat len) = Inr ?v" using False by simp
  show ?thesis
  proof (cases "family_len ?v")
    case (Inr n)
    note family_len_Inr[OF Inr]
    then have n: "4 + n \<le> length ?v" "n = 4 \<or> n = 16" by simp_all
    then show ?thesis using False v Inr
      by (auto simp: getStunIpPort5_def Let_def xor_mask_def split: sum.splits)
  qed (use False v in \<open>auto simp: getStunIpPort5_def\<close>)
qed (auto simp: getStunIpPort5_def)

lemma stun_scan_no_panic:
  "limit \<le> length response \<Longrightarrow> fst (stun_scan response limit need cookie tid start) \<noteq> Inl StunPanic"
proof (induction response limit need cookie tid start rule: stun_scan.induct)
  case (1 response limit need cookie tid start)
  show ?case
  proof (cases "start + 4 > limit")
    case True
    then show ?thesis by (simp add: stun_scan.simps)
  next
    case False
    let ?a = "take (limit - start) (drop start response)"
    have len: "length ?a = limit - start" using "1.prems" False by simp
    then have "length (take 2 ?a) = 2" "length (take 2 (drop 2 ?a)) = 2" using False by auto
    then obtain ty l where h: "uint16_at (take 2 ?a) = Inr ty" "uint16_at (take 2 (drop 2 ?a)) = Inr l"
      using uint16_at_2 by blast
    have s: "slice response start limit = Inr ?a"
      "slice ?a 0 2 = Inr (take 2 ?a)" "slice ?a 2 4 = Inr (take 2 (drop 2 ?a))"
      using "1.prems" False by auto
    show ?thesis
      using 1(1)[OF False s(1), of ty l] "1.prems" False s h
        getStunIpPort5_no_panic[of ty ?a l cookie tid]
      by (auto simp: stun_scan.simps[of response limit need cookie tid start] case_prod_unfold Let_def)
  qed
qed


section \<open>Round trip of the address attributes\<close>

definition attr_ok :: "u8 \<Rightarrow> bytes \<Rightarrow> bool" where
  "attr_ok fam a \<longleftrightarrow> (fam = FamilyIPv4 \<and> length a = 4) \<or> (fam = FamilyIPv6 \<and> length a = 16)"

lemma padded_len_8 [simp]: "padded_len 8 = 8"
  and padded_len_20 [simp]: "padded_len 20 = 20"
  by (simp_all add: padded_len_def)

lemma length_address_attr [simp]: "length (address_attr ty fam port a) = 8 + length a"
  by (simp add: address_attr_def)

definition attr_len :: "u8 \<Rightarrow> u16" where
  "attr_len fam = (if fam = FamilyIPv4 then 8 else 20)"

lemma attr_ok_len:
  "attr_ok fam a \<Longrightarrow> unat (attr_len fam) = 4 + length a"
  "attr_ok fam a \<Longrightarrow> padded_len (attr_len fam) = 4 + length a"
  by (auto simp: attr_ok_def attr_len_def FamilyIPv4_def FamilyIPv6_def)

lemma uint16_at_put [simp]: "uint16_at (put_u16 w) = Inr w" "uint16_at (put_u16 w @ xs) = Inr w"
  by (simp_all add: uint16_at_def put_u16_def)

lemma address_attr_eq:
  "address_attr ty fam port a = put_u16 ty @ put_u16 (attr_len fam) @ ([0, fam] @ put_u16 port @ a)"
  by (simp add: address_attr_def attr_len_def)

lemma address_attr_slices:
  assumes "attr_ok fam a"
  shows "slice (address_attr ty fam port a @ rest) 0 2 = Inr (put_u16 ty)"
    and "slice (address_attr ty fam port a @ rest) 2 4 = Inr (put_u16 (attr_len fam))"
    and "slice (address_attr ty fam port a @ rest) 4 (4 + unat (attr_len fam)) =
           Inr ([0, fam] @ put_u16 port @ a)"
    and "slice ([0, fam] @ put_u16 port @ a) 4 (4 + length a) = Inr a"
    and "slice ([0, fam] @ put_u16 port @ a) 2 4 = Inr (put_u16 port)"
    and "family_len ([0, fam] @ put_u16 port @ a) = Inr (length a)"
  using assms attr_ok_len(1)[OF assms]
  by (auto simp: slice_def address_attr_eq attr_ok_def family_len_def put_u16_def
      FamilyIPv4_def FamilyIPv6_def)

lemma stun_scan_at_attr:
  assumes "attr_ok fam a"
  shows "stun_scan (pre @ address_attr ty fam port a @ rest)
           (length pre + (8 + length a) + length rest) need cookie tid (length pre) =
         (if ty = need then
            (fst (getStunIpPort5 ty (address_attr ty fam port a @ rest) (attr_len fam) cookie tid),
             pre @ snd (getStunIpPort5 ty (address_attr ty fam port a @ rest) (attr_len fam) cookie tid))
          else stun_scan (pre @ address_attr ty fam port a @ rest)
                 (length pre + (8 + length a) + length rest) need cookie tid
                 (length pre + (8 + length a)))"
proof -
  define at where "at = address_attr ty fam port a @ rest"
  let ?n = "length pre + (8 + length a) + length rest"
  have len: "length at = 8 + length a + length rest" by (simp add: at_def)
  have s: "slice (pre @ at) (length pre) ?n = Inr at"
    by (simp add: slice_def len)
  note h = address_attr_slices(1,2)[OF assms, of ty port rest, folded at_def]
  have nge: "\<not> length pre + 4 > ?n" by simp
  have le: "\<not> 4 + padded_len (attr_len fam) > length at"
    using attr_ok_len[OF assms] by (simp add: len)
  have eq: "length pre + 4 + padded_len (attr_len fam) = length pre + (8 + length a)"
    using attr_ok_len[OF assms] by simp
  have d: "drop ?n (pre @ at) = []" by (simp add: len)
  show ?thesis
    unfolding at_def[symmetric] stun_scan.simps[of "pre @ at" ?n need cookie tid "length pre"]
    by (simp only: nge le eq s h d if_False sum.case bind_res_simps uint16_at_put
        case_prod_unfold Let_def append_Nil2)
       (simp add: len)
qed

lemma getStunIpPort5_attr:
  assumes "attr_ok fam a" "ty \<noteq> AttrXorMappedAddress"
  shows "getStunIpPort5 ty (address_attr ty fam port a @ rest) (attr_len fam) cookie tid =
    (Inr (ip_string a, int (unat port)), address_attr ty fam port a @ rest)"
proof -
  define at where "at = address_attr ty fam port a @ rest"
  note h = address_attr_slices(3)[OF assms(1), of ty port rest, folded at_def]
    address_attr_slices(4-)[OF assms(1), of port]
  have g: "\<not> (length at < 4 \<or> unat (attr_len fam) + 4 > length at)"
    using attr_ok_len(1)[OF assms(1)] by (simp add: at_def)
  show ?thesis
    unfolding at_def[symmetric] getStunIpPort5_def
    using assms(2) by (simp only: g h bind_res_simps sum.case prod.case if_False uint16_at_put)
qed

lemma getStunIpPort5_xor_attr:
  assumes "attr_ok fam a" "length cookie = 4" "length tid = 12"
  shows "getStunIpPort5 AttrXorMappedAddress
            (address_attr AttrXorMappedAddress fam port a @ rest) (attr_len fam) cookie tid =
    (Inr (ip_string (xor_bytes a (take (length a) (cookie @ tid))), int (unat (port XOR 0x2112))),
     address_attr AttrXorMappedAddress fam port (xor_bytes a (take (length a) (cookie @ tid))) @ rest)"
proof -
  define at where "at = address_attr AttrXorMappedAddress fam port a @ rest"
  note h = address_attr_slices(3)[OF assms(1), of AttrXorMappedAddress port rest, folded at_def]
    address_attr_slices(4-)[OF assms(1), of port]
  have g: "\<not> (length at < 4 \<or> unat (attr_len fam) + 4 > length at)"
    using attr_ok_len(1)[OF assms(1)] by (simp add: at_def)
  have m: "xor_mask (length a) cookie tid = Inr (take (length a) (cookie @ tid))"
    using assms by (simp add: xor_mask_def)
  have t: "take 8 at = put_u16 AttrXorMappedAddress @ put_u16 (attr_len fam) @ [0, fam] @ put_u16 port"
    by (simp add: at_def address_attr_eq put_u16_def)
  have d: "drop (8 + length a) at = rest" by (simp add: at_def)
  show ?thesis
    unfolding at_def[symmetric] getStunIpPort5_def
    by (simp only: g h m t d bind_res_simps sum.case prod.case if_False uint16_at_put Let_def if_True)
       (simp add: address_attr_eq)
qed


section \<open>The whole response\<close>

text \<open>The bytes an address has on the wire, and the family byte in front of them.\<close>

definition wire_ip :: "ip \<Rightarrow> bytes" where
  "wire_ip a = (case to4 a of Some b \<Rightarrow> b | None \<Rightarrow> a)"

definition wire_family :: "ip \<Rightarrow> u8" where
  "wire_family a = (case to4 a of Some _ \<Rightarrow> FamilyIPv4 | None \<Rightarrow> FamilyIPv6)"

definition valid_ip :: "ip \<Rightarrow> bool" where
  "valid_ip a \<longleftrightarrow> length a = 4 \<or> length a = 16"

lemma wire_attr_ok: "valid_ip a \<Longrightarrow> attr_ok (wire_family a) (wire_ip a)"
  by (auto simp: valid_ip_def attr_ok_def wire_family_def wire_ip_def to4_length split: option.splits)

lemma to4_None_wire: "to4 a = None \<Longrightarrow> valid_ip a \<Longrightarrow> length a = 16 \<and> to16 a = Some a"
  by (auto simp: valid_ip_def to16_def)

lemma ip_string_wire: "valid_ip a \<Longrightarrow> ip_string (wire_ip a) = ip_string a"
  by (auto simp: ip_string_def wire_ip_def to4_length split: option.splits)

lemma buildMappedAddress_eq:
  "valid_ip (ua_ip addr) \<Longrightarrow> buildMappedAddress addr =
     address_attr AttrMappedAddress (wire_family (ua_ip addr)) (port16 (ua_port addr))
       (wire_ip (ua_ip addr))"
  by (auto simp: buildMappedAddress_def wire_family_def wire_ip_def dest: to4_None_wire
      split: option.splits)

lemma xor_bytes_append:
  "length a = length c \<Longrightarrow> xor_bytes a c @ xor_bytes b d = xor_bytes (a @ b) (c @ d)"
  by (simp add: xor_bytes_def)

lemma buildXorMappedAddress_eq:
  assumes "valid_ip (ua_ip addr)" "length tid = 12"
  shows "buildXorMappedAddress addr tid = Some
    (address_attr AttrXorMappedAddress (wire_family (ua_ip addr)) (port16 (ua_port addr) XOR 0x2112)
      (xor_bytes (wire_ip (ua_ip addr))
         (take (length (wire_ip (ua_ip addr))) (magicCookieBytes @ tid))))"
proof (cases "to4 (ua_ip addr)")
  case (Some b)
  then have "length b = 4" by (rule to4_length)
  then show ?thesis using Some
    by (simp add: buildXorMappedAddress_def wire_family_def wire_ip_def magicCookieBytes_def)
next
  case None
  with to4_None_wire assms have i: "length (ua_ip addr) = 16" "to16 (ua_ip addr) = Some (ua_ip addr)"
    by auto
  have "xor_bytes (take 4 (ua_ip addr)) magicCookieBytes @ xor_bytes (drop 4 (ua_ip addr)) tid =
      xor_bytes (ua_ip addr) (magicCookieBytes @ tid)"
    using i by (subst xor_bytes_append) (auto simp: magicCookieBytes_def)
  then show ?thesis using None i assms
    by (simp add: buildXorMappedAddress_def wire_family_def wire_ip_def magicCookieBytes_def)
qed

lemma buildChangedAddress_eq:
  assumes "split_host_port changed = Some (h, p)" "parse_ip h = Some a" "valid_ip a"
  shows "buildChangedAddress changed =
    address_attr AttrChangedAddress (wire_family a) (port16 (changed_port p)) (wire_ip a)"
  using assms
  by (auto simp: buildChangedAddress_def wire_family_def wire_ip_def dest: to4_None_wire
      split: option.splits)

lemma buildBindingResponse_parts:
  assumes "buildXorMappedAddress addr tid = Some x" "buildBindingResponse addr tid changed = Some msg"
    and "length tid = 12"
  shows "\<exists>fp. length fp = 8 \<and> drop 20 msg =
           buildMappedAddress addr @ x @ buildChangedAddress changed @ fp
         \<and> take 20 msg = [0x01, 0x01]
           @ put_u16 (of_nat (length (drop 20 msg))) @ magicCookieBytes @ tid"
proof -
  let ?m = "buildMappedAddress addr" and ?c = "buildChangedAddress changed"
  let ?hd = "[0x01, 0x01] @ put_u16 (of_nat (length ?m + length x + length ?c + 8))
    @ magicCookieBytes @ tid"
  have len: "length ?hd = 20" using assms(3) by (simp add: magicCookieBytes_def)
  obtain fp where fp: "length fp = 8" "msg = ?hd @ (?m @ x @ ?c @ fp)"
  proof (rule that[of "buildFingerprint (calcFingerprint (?hd @ ?m @ x @ ?c))"])
    show "msg = ?hd @ (?m @ x @ ?c @ buildFingerprint (calcFingerprint (?hd @ ?m @ x @ ?c)))"
      using assms(1,2) by (simp add: buildBindingResponse_def Let_def)
  qed (simp add: buildFingerprint_def)
  then have "drop 20 msg = ?m @ x @ ?c @ fp" "take 20 msg = ?hd"
    using len by (simp_all only: take_append_exact drop_append_exact)
  then show ?thesis
    using fp(1) by (intro exI[of _ fp]) (simp add: ac_simps)
qed

lemma buildBindingResponse_Some:
  assumes "valid_ip (ua_ip addr)" "length tid = 12"
  obtains msg where "buildBindingResponse addr tid changed = Some msg"
  using buildXorMappedAddress_eq[OF assms] by (auto simp: buildBindingResponse_def Let_def)

lemma stun_scan_at:
  assumes "attr_ok fam a" "resp = pre @ address_attr ty fam port a @ rest"
    and "n = length resp" "st = length pre"
  shows "stun_scan resp n need cookie tid st =
         (if ty = need then
            (fst (getStunIpPort5 ty (address_attr ty fam port a @ rest) (attr_len fam) cookie tid),
             pre @ snd (getStunIpPort5 ty (address_attr ty fam port a @ rest) (attr_len fam) cookie tid))
          else stun_scan resp n need cookie tid (length (pre @ address_attr ty fam port a)))"
  using stun_scan_at_attr[OF assms(1), of pre ty port rest need cookie tid] assms(2-)
  by (simp only: length_append length_address_attr add.assoc)

text \<open>Parsing the attribute list of a response, one needed type at a time.\<close>

lemma xor_len [simp]: "length (xor_bytes a (take (length a) (c @ t))) = min (length a) (length c + length t)"
  by simp

lemma parse_three:
  fixes p1 p2 p3 :: u16 and fp :: bytes
  assumes m: "attr_ok f1 a1" and x: "attr_ok f2 a2" and c: "attr_ok f3 a3"
    and "length tid = 12"
  defines "attrs \<equiv> address_attr AttrMappedAddress f1 p1 a1 @ address_attr AttrXorMappedAddress f2 p2 a2
    @ address_attr AttrChangedAddress f3 p3 a3 @ fp"
  shows "getStunIpPort4 attrs (int (length attrs)) AttrMappedAddress magicCookieBytes tid =
      (Inr (ip_string a1, int (unat p1)), attrs)"
    and "fst (getStunIpPort4 attrs (int (length attrs)) AttrXorMappedAddress magicCookieBytes tid) =
      Inr (ip_string (xor_bytes a2 (take (length a2) (magicCookieBytes @ tid))),
           int (unat (p2 XOR 0x2112)))"
    and "getStunIpPort4 attrs (int (length attrs)) AttrChangedAddress magicCookieBytes tid =
      (Inr (ip_string a3, int (unat p3)), attrs)"
proof -
  let ?A = "address_attr AttrMappedAddress f1 p1 a1"
  let ?B = "address_attr AttrXorMappedAddress f2 p2 a2"
  let ?C = "address_attr AttrChangedAddress f3 p3 a3"
  define n where "n = length attrs"
  have e1: "attrs = [] @ ?A @ (?B @ ?C @ fp)" and e2: "attrs = ?A @ ?B @ (?C @ fp)"
    and e3: "attrs = (?A @ ?B) @ ?C @ fp"
    by (simp_all add: attrs_def)
  note s1 = stun_scan_at[OF m e1 n_def list.size(3)[symmetric],
      of _ magicCookieBytes tid, unfolded append_Nil, folded attrs_def]
  note s2 = stun_scan_at[OF x e2 n_def refl, of _ magicCookieBytes tid]
  note s3 = stun_scan_at[OF c e3 n_def refl, of _ magicCookieBytes tid]
  have g: "getStunIpPort4 attrs (int (length attrs)) need magicCookieBytes tid =
      stun_scan attrs n need magicCookieBytes tid 0" for need
    by (simp add: getStunIpPort4_def n_def)
  note ne = AttrMappedAddress_def AttrXorMappedAddress_def AttrChangedAddress_def
  have ck: "length magicCookieBytes = 4" by (simp add: magicCookieBytes_def)
  have mne: "AttrMappedAddress \<noteq> AttrXorMappedAddress" "AttrChangedAddress \<noteq> AttrXorMappedAddress"
    "AttrMappedAddress \<noteq> AttrChangedAddress"
    by (simp_all add: ne)
  show "getStunIpPort4 attrs (int (length attrs)) AttrMappedAddress magicCookieBytes tid =
      (Inr (ip_string a1, int (unat p1)), attrs)"
    unfolding g s1 using getStunIpPort5_attr[OF m mne(1), of p1 "?B @ ?C @ fp" magicCookieBytes tid]
    by (simp add: attrs_def)
  show "fst (getStunIpPort4 attrs (int (length attrs)) AttrXorMappedAddress magicCookieBytes tid) =
      Inr (ip_string (xor_bytes a2 (take (length a2) (magicCookieBytes @ tid))),
           int (unat (p2 XOR 0x2112)))"
    unfolding g s1 s2 getStunIpPort5_xor_attr[OF x ck assms(4)] using mne by simp
  show "getStunIpPort4 attrs (int (length attrs)) AttrChangedAddress magicCookieBytes tid =
      (Inr (ip_string a3, int (unat p3)), attrs)"
    unfolding g s1 s2 s3 getStunIpPort5_attr[OF c mne(2)] using mne by (simp add: attrs_def)
qed

lemma port16_unat: "uint (port16 p) = p mod 65536"
  by (simp add: port16_def unsigned_of_int take_bit_eq_mod)


lemma response_parses:
  assumes "valid_ip (ua_ip addr)" "length tid = 12"
    and "split_host_port changed = Some (h, p)" "parse_ip h = Some a" "valid_ip a"
  shows "\<exists>msg. buildBindingResponse addr tid changed = Some msg \<and>
    getStunIpPort4 (drop 20 msg) (int (length (drop 20 msg))) AttrMappedAddress magicCookieBytes tid
      = (Inr (ip_string (ua_ip addr), ua_port addr mod 65536), drop 20 msg) \<and>
    fst (getStunIpPort4 (drop 20 msg) (int (length (drop 20 msg))) AttrXorMappedAddress magicCookieBytes tid)
      = Inr (ip_string (ua_ip addr), ua_port addr mod 65536) \<and>
    getStunIpPort4 (drop 20 msg) (int (length (drop 20 msg))) AttrChangedAddress magicCookieBytes tid
      = (Inr (ip_string a, changed_port p mod 65536), drop 20 msg)"
proof -
  let ?w = "wire_ip (ua_ip addr)" and ?f = "wire_family (ua_ip addr)"
  let ?m = "take (length ?w) (magicCookieBytes @ tid)"
  obtain msg where msg: "buildBindingResponse addr tid changed = Some msg"
    using buildBindingResponse_Some[OF assms(1,2)] .
  obtain fp where d: "drop 20 msg = buildMappedAddress addr
      @ address_attr AttrXorMappedAddress ?f (port16 (ua_port addr) XOR 0x2112) (xor_bytes ?w ?m)
      @ buildChangedAddress changed @ fp"
    using buildBindingResponse_parts[OF buildXorMappedAddress_eq[OF assms(1,2)] msg assms(2)] by blast
  have ok: "attr_ok ?f ?w" using wire_attr_ok[OF assms(1)] .
  have len: "length ?w \<le> 16" using ok by (auto simp: attr_ok_def)
  have xl: "length (xor_bytes ?w ?m) = length ?w" using len assms(2) by (simp add: magicCookieBytes_def)
  have okx: "attr_ok ?f (xor_bytes ?w ?m)" using ok xl by (simp add: attr_ok_def)
  have tw: "xor_bytes (xor_bytes ?w ?m) ?m = ?w"
    using len assms(2) by (intro xor_bytes_twice) (simp add: magicCookieBytes_def)
  show ?thesis
    using parse_three[OF ok okx wire_attr_ok[OF assms(5)] assms(2), of "port16 (ua_port addr)"
        "port16 (ua_port addr) XOR 0x2112" "port16 (changed_port p)" fp]
    unfolding buildMappedAddress_eq[OF assms(1), symmetric]
      buildChangedAddress_eq[OF assms(3-5), symmetric] d[symmetric] xl tw
    by (intro exI[of _ msg]) (simp add: msg ip_string_wire assms port16_unat xor.assoc)
qed

text \<open>C12 What the server builds, the client reads back: for a request from a valid address the
  response exists, and parsing its attribute part yields the sender's address and port both from
  the plain and from the XOR-ed attribute, and the server's other address from CHANGED-ADDRESS.\<close>

theorem response_parses_back:
  assumes "valid_ip (ua_ip addr)" "length tid = 12"
    and "split_host_port changed = Some (h, p)" "parse_ip h = Some a" "valid_ip a"
  shows "\<exists>msg. buildBindingResponse addr tid changed = Some msg \<and>
    getStunIpPort4 (drop 20 msg) (int (length (drop 20 msg))) AttrMappedAddress magicCookieBytes tid
      = (Inr (ip_string (ua_ip addr), ua_port addr mod 65536), drop 20 msg) \<and>
    fst (getStunIpPort4 (drop 20 msg) (int (length (drop 20 msg))) AttrXorMappedAddress magicCookieBytes tid)
      = Inr (ip_string (ua_ip addr), ua_port addr mod 65536) \<and>
    getStunIpPort4 (drop 20 msg) (int (length (drop 20 msg))) AttrChangedAddress magicCookieBytes tid
      = (Inr (ip_string a, changed_port p mod 65536), drop 20 msg)"
  using assms by (rule response_parses)

theorem response_parses_back_witness:
  "\<exists>msg. buildBindingResponse \<lparr> ua_ip = [10, 0, 0, 1], ua_port = 4000 \<rparr> (replicate 12 7)
           ''1.2.3.4:3479'' = Some msg \<and>
     getStunIpPort4 (drop 20 msg) (int (length (drop 20 msg))) AttrChangedAddress
       magicCookieBytes (replicate 12 7) = (Inr (''1.2.3.4'', 3479), drop 20 msg)"
proof -
  have v: "valid_ip (ua_ip \<lparr> ua_ip = [10, 0, 0, 1], ua_port = 4000 \<rparr>)"
    "length (replicate 12 (7 :: u8)) = 12" "split_host_port ''1.2.3.4:3479'' = Some (''1.2.3.4'', ''3479'')"
    "parse_ip ''1.2.3.4'' = Some (v4_prefix @ [1, 2, 3, 4])" "valid_ip (v4_prefix @ [1, 2, 3, 4])"
    by code_simp+
  have r: "ip_string (v4_prefix @ [1, 2, 3, 4]) = ''1.2.3.4''" "changed_port ''3479'' mod 65536 = 3479"
    by code_simp+
  show ?thesis using response_parses_back[OF v] unfolding r by blast
qed

end
