(* ===== verification/Stun_Server.thy ===== *)
theory Stun_Server
  imports Stun_Codec
begin

text \<open>
  The STUN server of \<open>stun2/svr.go\<close>: the transaction table that correlates the requests a
  client sends to the primary and to the secondary port, \<open>handleStunRequest\<close> as one step of that
  table, the NAT verdict it logs, the receive loop's handling of one datagram, and the private
  \<open>itoa\<close>. Times are nanoseconds of the monotonic clock. The table is an association list, a Go
  map whose iteration order the code does not depend on.
\<close>

section \<open>State\<close>

record txn_state =
  tx_primary :: "udp_addr option"
  tx_secondary :: "udp_addr option"
  tx_firstSeen :: int

record stun_server =
  sv_primaryAddr :: string
  sv_secondaryAddr :: string
  sv_txns :: "(bytes \<times> txn_state) list"
  sv_primaryPort :: int
  sv_secondaryPort :: int

definition second :: int where "second = 1000000000"

definition txn_window :: int where "txn_window = 3 * second"

datatype nat_verdict = NAT1_3 | NAT4

text \<open>\<open>itoa\<close>: the negation of the least \<open>int\<close> is itself, so no digit is produced for it.\<close>

function itoa_digits :: "int \<Rightarrow> string \<Rightarrow> string" where
  "itoa_digits n result =
     (if n > 0 then itoa_digits (n div 10) (digit_char (nat (n mod 10)) # result) else result)"
  by pat_completeness auto
termination
  by (relation "measure (\<lambda>(n, r). nat n)") auto

declare itoa_digits.simps [simp del]

definition svr_itoa :: "int \<Rightarrow> string" where
  "svr_itoa n =
     (if n = 0 then ''0''
      else let negative = n < 0;
               m = (if negative then (if n = int_min then int_min else - n) else n);
               result = itoa_digits m []
           in if negative then CHR ''-'' # result else result)"

definition addrEqual :: "udp_addr option \<Rightarrow> udp_addr option \<Rightarrow> bool" where
  "addrEqual a b =
     (case (a, b) of
        (Some x, Some y) \<Rightarrow> ip_equal (ua_ip x) (ua_ip y) \<and> ua_port x = ua_port y
      | _ \<Rightarrow> False)"

definition StartSvr :: "string \<Rightarrow> int \<Rightarrow> stun_server" where
  "StartSvr ip port =
     \<lparr> sv_primaryAddr = join_host_port ip (svr_itoa port),
       sv_secondaryAddr = join_host_port ip (svr_itoa (port + 1)),
       sv_txns = [], sv_primaryPort = port, sv_secondaryPort = port + 1 \<rparr>"

section \<open>The transaction table\<close>

definition expire :: "int \<Rightarrow> (bytes \<times> txn_state) list \<Rightarrow> (bytes \<times> txn_state) list" where
  "expire now txns = filter (\<lambda>(k, v). \<not> now - tx_firstSeen v > txn_window) txns"

definition fresh_txn :: "int \<Rightarrow> txn_state" where
  "fresh_txn now = \<lparr> tx_primary = None, tx_secondary = None, tx_firstSeen = now \<rparr>"

definition record_addr :: "stun_server \<Rightarrow> int \<Rightarrow> udp_addr \<Rightarrow> txn_state \<Rightarrow> txn_state" where
  "record_addr s localPort remote st =
     (if localPort = sv_primaryPort s then st\<lparr> tx_primary := Some remote \<rparr>
      else if localPort = sv_secondaryPort s then st\<lparr> tx_secondary := Some remote \<rparr>
      else st)"

definition verdict :: "txn_state \<Rightarrow> nat_verdict" where
  "verdict st = (if addrEqual (tx_primary st) (tx_secondary st) then NAT1_3 else NAT4)"

text \<open>The locked section: the table after the request, and the verdict when one is logged.\<close>

definition correlate ::
  "stun_server \<Rightarrow> int \<Rightarrow> int \<Rightarrow> udp_addr \<Rightarrow> bytes \<Rightarrow> stun_server \<times> nat_verdict option" where
  "correlate s now localPort remote tid =
     (let txns = expire now (sv_txns s);
          st0 = (case map_of txns tid of
                   Some st \<Rightarrow> if now - tx_firstSeen st > txn_window then fresh_txn now else st
                 | None \<Rightarrow> fresh_txn now);
          st = record_addr s localPort remote st0;
          others = filter (\<lambda>p. fst p \<noteq> tid) txns
      in if tx_primary st \<noteq> None \<and> tx_secondary st \<noteq> None \<and> now - tx_firstSeen st \<le> txn_window
         then (s\<lparr> sv_txns := others \<rparr>, Some (verdict st))
         else (s\<lparr> sv_txns := (tid, st) # others \<rparr>, None))"

datatype stun_reply =
    ReplyPanic
  | NoReply
  | Reply bytes

text \<open>
  \<open>handleStunRequest\<close>: \<open>localAddr\<close> is what \<open>conn.LocalAddr()\<close> returns, \<open>None\<close> when it is not
  a UDP address. The header is cut with checked slices.
\<close>

definition handleStunRequest ::
  "stun_server \<Rightarrow> int \<Rightarrow> int option \<Rightarrow> udp_addr \<Rightarrow> bytes \<Rightarrow> string
     \<Rightarrow> stun_server \<times> nat_verdict option \<times> stun_reply" where
  "handleStunRequest s now localAddr remote data changedAddr =
     (case bind_res (slice data 0 2) uint16_at of
        Inl _ \<Rightarrow> (s, None, ReplyPanic)
      | Inr msgType \<Rightarrow>
          (case slice data 4 8 of
             Inl _ \<Rightarrow> (s, None, ReplyPanic)
           | Inr cookie \<Rightarrow>
               if cookie \<noteq> magicCookieBytes then (s, None, NoReply)
               else case slice data 8 20 of
                 Inl _ \<Rightarrow> (s, None, ReplyPanic)
               | Inr tid \<Rightarrow>
                   (case localAddr of
                      None \<Rightarrow> (s, None, NoReply)
                    | Some localPort \<Rightarrow>
                        (let (s', v) = correlate s now localPort remote tid
                         in if msgType \<noteq> MsgTypeBindingRequest then (s', v, NoReply)
                            else (s', v, case buildBindingResponse remote tid changedAddr of
                                           None \<Rightarrow> ReplyPanic
                                         | Some msg \<Rightarrow> Reply msg)))))"

text \<open>
  One round of \<open>handleConnection\<close>: the 1024-byte buffer holds at most that much of a datagram,
  shorter ones than a header are dropped, the rest is handled.
\<close>

definition handleDatagram ::
  "stun_server \<Rightarrow> int \<Rightarrow> int option \<Rightarrow> udp_addr \<Rightarrow> bytes \<Rightarrow> string
     \<Rightarrow> stun_server \<times> nat_verdict option \<times> stun_reply" where
  "handleDatagram s now localAddr remote datagram changedAddr =
     (let pkt = take 1024 datagram
      in if length pkt < 20 then (s, None, NoReply)
         else handleStunRequest s now localAddr remote pkt changedAddr)"

section \<open>The decimal printer\<close>

lemma itoa_digits_dec: "0 < n \<Longrightarrow> itoa_digits n acc = dec_nat (nat n) @ acc"
proof (induction n acc rule: itoa_digits.induct)
  case (1 n acc)
  show ?case
  proof (cases "n < 10")
    case True
    then have "n div 10 = 0" "nat (n mod 10) = nat n" using "1.prems" by auto
    then show ?thesis using True "1.prems"
      by (simp add: itoa_digits.simps[of n] itoa_digits.simps[of 0] dec_nat_small)
  next
    case False
    then have pos: "0 < n div 10" by (simp add: pos_imp_zdiv_pos_iff)
    have "dec_nat (nat n) = dec_nat (nat n div 10) @ [digit_char (nat n mod 10)]"
      using False by (subst dec_nat.simps) auto
    moreover have "nat (n div 10) = nat n div 10" "nat (n mod 10) = nat n mod 10"
      using "1.prems" by (simp_all add: nat_div_distrib nat_mod_distrib)
    ultimately show ?thesis
      using "1.IH"[OF "1.prems" pos] "1.prems" by (simp add: itoa_digits.simps[of n])
  qed
qed

lemma digit_char_0: "digit_char 0 = CHR ''0''"
  by (simp add: digit_char_def char_of_def bit_Suc bit_0)

lemma svr_itoa_eq: "int_min < n \<Longrightarrow> svr_itoa n = go_itoa n"
  by (auto simp: svr_itoa_def Let_def itoa_digits_dec go_itoa_def dec_nat_small digit_char_0)

lemma changed_port_digits:
  "list_all is_digit s \<Longrightarrow> changed_port s = int (digits_val s)"
proof (induction s rule: rev_induct)
  case (snoc c s)
  then have "48 \<le> code c" by (simp add: is_digit_def)
  with snoc show ?case by (simp add: changed_port_def digits_val_snoc digit_val_def int_ops of_nat_diff)
qed (simp add: changed_port_def digits_val_def)


lemma changed_port_dec [simp]: "changed_port (dec_nat n) = int n"
  by (simp add: changed_port_digits dec_nat_digits)

section \<open>The table's invariant\<close>

definition txns_wf :: "stun_server \<Rightarrow> bool" where
  "txns_wf s \<longleftrightarrow> distinct (map fst (sv_txns s)) \<and>
     (\<forall>(k, v) \<in> set (sv_txns s). length k = 12 \<and> (tx_primary v = None \<or> tx_secondary v = None))"

lemma expire_subset: "set (expire now xs) \<subseteq> set xs"
  by (auto simp: expire_def)

lemma expire_distinct: "distinct (map fst xs) \<Longrightarrow> distinct (map fst (expire now xs))"
  by (simp add: expire_def distinct_map_filter)

lemma map_of_filter_value:
  "distinct (map fst xs) \<Longrightarrow>
   map_of (filter (\<lambda>(k, v). P v) xs) k = (case map_of xs k of Some v \<Rightarrow> if P v then Some v else None | None \<Rightarrow> None)"
  by (induction xs) (auto split: option.splits simp: map_of_eq_None_iff image_iff)

lemma map_of_expire:
  "distinct (map fst xs) \<Longrightarrow> map_of (expire now xs) k =
     (case map_of xs k of Some v \<Rightarrow> if now - tx_firstSeen v \<le> txn_window then Some v else None
      | None \<Rightarrow> None)"
  by (simp add: expire_def map_of_filter_value not_less split: option.splits)

lemma txns_wf_StartSvr: "txns_wf (StartSvr ip port)"
  by (simp add: txns_wf_def StartSvr_def)

text \<open>The entry a request leaves behind, before the verdict is looked at.\<close>

definition txn_entry :: "stun_server \<Rightarrow> int \<Rightarrow> int \<Rightarrow> udp_addr \<Rightarrow> bytes \<Rightarrow> txn_state" where
  "txn_entry s now lp r tid = record_addr s lp r
     (case map_of (expire now (sv_txns s)) tid of Some st \<Rightarrow> st | None \<Rightarrow> fresh_txn now)"

lemma txn_entry_fresh: "now - tx_firstSeen (txn_entry s now lp r tid) \<le> txn_window"
proof (cases "map_of (expire now (sv_txns s)) tid")
  case None
  then show ?thesis
    by (simp add: txn_entry_def record_addr_def fresh_txn_def txn_window_def second_def)
next
  case (Some st)
  then have "now - tx_firstSeen st \<le> txn_window" by (auto simp: expire_def dest: map_of_SomeD)
  with Some show ?thesis by (simp add: txn_entry_def record_addr_def)
qed

lemma correlate_entry:
  "correlate s now lp r tid =
     (if tx_primary (txn_entry s now lp r tid) \<noteq> None \<and> tx_secondary (txn_entry s now lp r tid) \<noteq> None
      then (s\<lparr> sv_txns := filter (\<lambda>p. fst p \<noteq> tid) (expire now (sv_txns s)) \<rparr>,
            Some (verdict (txn_entry s now lp r tid)))
      else (s\<lparr> sv_txns := (tid, txn_entry s now lp r tid)
                            # filter (\<lambda>p. fst p \<noteq> tid) (expire now (sv_txns s)) \<rparr>, None))"
proof -
  have "map_of (expire now (sv_txns s)) tid = Some st \<Longrightarrow> \<not> now - tx_firstSeen st > txn_window" for st
    by (drule map_of_SomeD) (auto simp: expire_def)
  then have "txn_entry s now lp r tid = record_addr s lp r
     (case map_of (expire now (sv_txns s)) tid of
        Some st \<Rightarrow> if now - tx_firstSeen st > txn_window then fresh_txn now else st
      | None \<Rightarrow> fresh_txn now)"
    by (auto simp: txn_entry_def split: option.splits)
  with txn_entry_fresh[of now s lp r tid] show ?thesis
    by (simp add: correlate_def Let_def)
qed

lemma others_wf:
  assumes "txns_wf s"
  shows "distinct (map fst (filter (\<lambda>p. fst p \<noteq> tid) (expire now (sv_txns s))))"
    and "(k, v) \<in> set (expire now (sv_txns s)) \<Longrightarrow>
           length k = 12 \<and> (tx_primary v = None \<or> tx_secondary v = None)"
  using assms expire_subset[of now "sv_txns s"]
  by (auto simp: txns_wf_def intro: distinct_map_filter expire_distinct)

lemma correlate_wf:
  assumes "txns_wf s" "length tid = 12"
  shows "txns_wf (fst (correlate s now lp r tid))"
proof -
  let ?o = "filter (\<lambda>p. fst p \<noteq> tid) (expire now (sv_txns s))"
  have o: "distinct (map fst ?o)" "tid \<notin> fst ` set ?o"
    "\<forall>(k, v) \<in> set ?o. length k = 12 \<and> (tx_primary v = None \<or> tx_secondary v = None)"
    using others_wf(1)[OF assms(1)] by (auto dest: others_wf(2)[OF assms(1)])
  show ?thesis
  proof (cases "tx_primary (txn_entry s now lp r tid) \<noteq> None \<and> tx_secondary (txn_entry s now lp r tid) \<noteq> None")
    case True
    then show ?thesis using o by (auto simp: correlate_entry txns_wf_def)
  next
    case False
    then have "sv_txns (fst (correlate s now lp r tid)) = (tid, txn_entry s now lp r tid) # ?o"
      by (simp add: correlate_entry)
    then show ?thesis using o False assms(2) by (auto simp: txns_wf_def)
  qed
qed

lemma correlate_config [simp]:
  "sv_primaryPort (fst (correlate s now lp r tid)) = sv_primaryPort s"
  "sv_secondaryPort (fst (correlate s now lp r tid)) = sv_secondaryPort s"
  by (simp_all add: correlate_entry)

lemma correlate_fresh:
  assumes "(k, v) \<in> set (sv_txns (fst (correlate s now lp r tid)))"
  shows "now - tx_firstSeen v \<le> txn_window"
  using assms txn_entry_fresh[of now s lp r tid]
  by (auto simp: correlate_entry expire_def split: if_splits)

lemma correlate_other:
  assumes "k \<noteq> tid"
  shows "map_of (sv_txns (fst (correlate s now lp r tid))) k = map_of (expire now (sv_txns s)) k"
  using assms by (auto simp: correlate_entry map_of_filter_key)

section \<open>Sequences of requests\<close>

text \<open>A request as the table sees it: arrival time, local port, sender and transaction id.\<close>

type_synonym request = "int \<times> int \<times> udp_addr \<times> bytes"

definition req_step :: "stun_server \<Rightarrow> request \<Rightarrow> stun_server" where
  "req_step s r = (case r of (now, lp, remote, tid) \<Rightarrow> fst (correlate s now lp remote tid))"

definition serve_requests :: "stun_server \<Rightarrow> request list \<Rightarrow> stun_server" where
  "serve_requests s rs = foldl req_step s rs"

lemma serve_requests_simps [simp]:
  "serve_requests s [] = s"
  "serve_requests s (r # rs) = serve_requests (req_step s r) rs"
  by (simp_all add: serve_requests_def)

lemma serve_requests_wf:
  "txns_wf s \<Longrightarrow> \<forall>(now, lp, r, tid) \<in> set rs. length tid = 12 \<Longrightarrow> txns_wf (serve_requests s rs)"
  by (induction rs arbitrary: s) (auto simp: req_step_def correlate_wf)

lemma serve_requests_config [simp]:
  "sv_primaryPort (serve_requests s rs) = sv_primaryPort s"
  "sv_secondaryPort (serve_requests s rs) = sv_secondaryPort s"
  by (induction rs arbitrary: s) (auto simp: req_step_def split: prod.splits)

lemma serve_requests_keeps:
  assumes "txns_wf s" "map_of (sv_txns s) tid = Some st"
    and "\<forall>(now, lp, r, k) \<in> set rs. length k = 12 \<and> k \<noteq> tid \<and> now - tx_firstSeen st \<le> txn_window"
  shows "map_of (sv_txns (serve_requests s rs)) tid = Some st"
  using assms
proof (induction rs arbitrary: s)
  case (Cons q rs)
  obtain now lp r k where q: "q = (now, lp, r, k)" by (cases q) auto
  with Cons.prems(3) have k: "length k = 12" "k \<noteq> tid" "now - tx_firstSeen st \<le> txn_window" by auto
  have "map_of (sv_txns (req_step s q)) tid = Some st"
    using Cons.prems(1,2) k correlate_other[of tid k s now lp r]
    by (simp add: req_step_def q map_of_expire txns_wf_def)
  moreover have "txns_wf (req_step s q)" using Cons.prems(1) k by (simp add: req_step_def q correlate_wf)
  ultimately show ?case using Cons.IH[of "req_step s q"] Cons.prems(3) by simp
qed simp

text \<open>C3 The NAT verdict is right under interleaving: once a transaction's first request has come in on
  the primary port, any traffic of other transactions in between, the request on the secondary port
  within the three seconds yields NAT4 exactly when the client was seen under two different
  addresses, and the transaction is forgotten.\<close>

theorem nat_verdict_correct:
  assumes "txns_wf s" "sv_primaryPort s \<noteq> sv_secondaryPort s" "length tid = 12"
    and "map_of (sv_txns s) tid = None"
    and "\<forall>(now, lp, r, k) \<in> set others. length k = 12 \<and> k \<noteq> tid \<and> now - t1 \<le> txn_window"
    and "t2 - t1 \<le> txn_window"
    and s2_def: "s2 = serve_requests (fst (correlate s t1 (sv_primaryPort s) a tid)) others"
  shows "snd (correlate s2 t2 (sv_secondaryPort s) b tid) =
           Some (if ip_equal (ua_ip a) (ua_ip b) \<and> ua_port a = ua_port b then NAT1_3 else NAT4) \<and>
         map_of (sv_txns (fst (correlate s2 t2 (sv_secondaryPort s) b tid))) tid = None"
proof -
  define s1 where "s1 = fst (correlate s t1 (sv_primaryPort s) a tid)"
  note s2_def = s2_def[folded s1_def]
  let ?st = "\<lparr> tx_primary = Some a, tx_secondary = None, tx_firstSeen = t1 \<rparr>"
  have d: "distinct (map fst (sv_txns s))" using assms(1) by (simp add: txns_wf_def)
  have e: "txn_entry s t1 (sv_primaryPort s) a tid = ?st"
    by (simp add: txn_entry_def map_of_expire[OF d] assms(4) record_addr_def fresh_txn_def)
  have s1: "map_of (sv_txns s1) tid = Some ?st" "txns_wf s1"
    "sv_primaryPort s1 = sv_primaryPort s" "sv_secondaryPort s1 = sv_secondaryPort s"
    unfolding s1_def by (simp_all add: correlate_wf[OF assms(1,3)]) (simp add: correlate_entry e)
  have s2: "map_of (sv_txns s2) tid = Some ?st" "txns_wf s2"
    unfolding s2_def
    by (rule serve_requests_keeps[OF s1(2,1)], use assms(5) in simp,
        rule serve_requests_wf[OF s1(2)], use assms(5) in fastforce)
  have p2: "sv_primaryPort s2 = sv_primaryPort s" "sv_secondaryPort s2 = sv_secondaryPort s"
    by (simp_all add: s2_def s1)
  have d2: "distinct (map fst (sv_txns s2))" using s2(2) by (simp add: txns_wf_def)
  have e2: "txn_entry s2 t2 (sv_secondaryPort s) b tid = ?st\<lparr> tx_secondary := Some b \<rparr>"
    using assms(2,6) by (simp add: txn_entry_def map_of_expire[OF d2] s2 record_addr_def p2)
  show ?thesis
    by (simp add: correlate_entry e2 verdict_def addrEqual_def map_of_filter_key)
qed

theorem nat_verdict_correct_witness:
  "snd (correlate (serve_requests (fst (correlate (StartSvr ''1.2.3.4'' 3478) 0 3478
           \<lparr> ua_ip = [10, 0, 0, 1], ua_port = 4000 \<rparr> (replicate 12 7)))
         [(second, 3478, \<lparr> ua_ip = [10, 0, 0, 2], ua_port = 5000 \<rparr>, replicate 12 8)])
       (2 * second) 3479 \<lparr> ua_ip = [10, 0, 0, 1], ua_port = 4001 \<rparr> (replicate 12 7)) = Some NAT4"
  using nat_verdict_correct[of "StartSvr ''1.2.3.4'' 3478" "replicate 12 7"
      "[(second, 3478, \<lparr> ua_ip = [10, 0, 0, 2], ua_port = 5000 \<rparr>, replicate 12 8)]" 0 "2 * second"
      _ "\<lparr> ua_ip = [10, 0, 0, 1], ua_port = 4000 \<rparr>" "\<lparr> ua_ip = [10, 0, 0, 1], ua_port = 4001 \<rparr>"]
  by (simp add: txns_wf_StartSvr StartSvr_def[THEN arg_cong[of _ _ sv_primaryPort]]
      StartSvr_def[THEN arg_cong[of _ _ sv_secondaryPort]] StartSvr_def[THEN arg_cong[of _ _ sv_txns]]
      txn_window_def second_def numeral_eq_Suc)

section \<open>Answers\<close>

lemma stun_header:
  fixes ty n :: u16 and rest :: bytes
  assumes "length tid = 12"
  defines "pkt \<equiv> put_u16 ty @ put_u16 n @ magicCookieBytes @ tid @ rest"
  shows "slice pkt 0 2 = Inr (put_u16 ty)" "slice pkt 4 8 = Inr magicCookieBytes"
    "slice pkt 8 20 = Inr tid" "length pkt = 20 + length rest"
  using assms(1) by (auto simp: pkt_def slice_def put_u16_def magicCookieBytes_def)

lemma valid_ip_no_panic:
  "valid_ip (ua_ip r) \<Longrightarrow> length tid = 12 \<Longrightarrow> buildBindingResponse r tid changed \<noteq> None"
  using buildBindingResponse_Some[of r tid changed] by auto

text \<open>The server survives every datagram: for a sender with a real address no packet, however
  short or malformed, panics its handler, the transaction table stays well formed with no entry
  older than the window, and anything but a Binding Request carrying the cookie goes unanswered.\<close>

theorem server_step_safe:
  assumes "txns_wf s" "valid_ip (ua_ip r)"
    and "handleDatagram s now (Some lp) r datagram changed = (s', v, reply)"
  shows "reply \<noteq> ReplyPanic \<and> txns_wf s' \<and>
    (\<forall>msg. reply = Reply msg \<longrightarrow> take 2 datagram = put_u16 MsgTypeBindingRequest
           \<and> take 4 (drop 4 datagram) = magicCookieBytes) \<and>
    (s' \<noteq> s \<longrightarrow> (\<forall>(k, t) \<in> set (sv_txns s'). now - tx_firstSeen t \<le> txn_window))"
proof (cases "length (take 1024 datagram) < 20")
  case True
  then have "(s', v, reply) = (s, None, NoReply)"
    using assms(3) by (simp only: handleDatagram_def Let_def if_True)
  then show ?thesis using assms(1) by simp
next
  case False
  let ?p = "take 1024 datagram"
  obtain a b where ab: "take 2 ?p = [a, b]"
    using False by (cases ?p rule: list.exhaust; cases "tl ?p") auto
  have sl: "slice ?p 0 2 = Inr [a, b]" "slice ?p 4 8 = Inr (take 4 (drop 4 ?p))"
    "slice ?p 8 20 = Inr (take 12 (drop 8 ?p))"
    using False ab by (auto simp: slice_def)
  have t: "take 4 (drop 4 ?p) = take 4 (drop 4 datagram)" "take 2 datagram = [a, b]"
    "length (take 12 (drop 8 ?p)) = 12"
    using False ab by (auto simp: drop_take min_def split: if_splits)
  have u: "uint16_at [a, b] = Inr (get_u16 a b)" by (simp add: uint16_at_def)
  let ?c = "correlate s now lp r (take 12 (drop 8 ?p))"
  have wf: "txns_wf (fst ?c)" using correlate_wf[OF assms(1) t(3)] .
  have fr: "\<forall>(k, t) \<in> set (sv_txns (fst ?c)). now - tx_firstSeen t \<le> txn_window"
    using correlate_fresh by blast
  obtain msg where m: "buildBindingResponse r (take 12 (drop 8 ?p)) changed = Some msg"
    using valid_ip_no_panic[OF assms(2) t(3)] by auto
  have e: "handleDatagram s now (Some lp) r datagram changed =
      handleStunRequest s now (Some lp) r ?p changed"
    using False by (simp only: handleDatagram_def Let_def if_False)
  have g: "get_u16 a b = w \<Longrightarrow> [a, b] = put_u16 w" for w by auto
  from assms(3)[unfolded e handleStunRequest_def sl bind_res_simps u sum.case] show ?thesis
    using wf fr assms(1) m t g[of MsgTypeBindingRequest]
    by (auto simp: case_prod_unfold Let_def simp del: put_get_u16 split: if_splits)
qed

theorem server_step_safe_witness:
  "snd (snd (handleDatagram (StartSvr ''1.2.3.4'' 3478) 0 (Some 3478)
     \<lparr> ua_ip = [10, 0, 0, 1], ua_port = 4000 \<rparr> (replicate 30 255) ''x'')) \<noteq> ReplyPanic"
proof -
  let ?r = "\<lparr> ua_ip = [10, 0, 0, 1], ua_port = 4000 \<rparr>"
  have v: "valid_ip (ua_ip ?r)" by (simp add: valid_ip_def)
  obtain s' v' reply where e: "handleDatagram (StartSvr ''1.2.3.4'' 3478) 0 (Some 3478) ?r
      (replicate 30 255) ''x'' = (s', v', reply)"
    by (rule prod_cases3)
  show ?thesis using server_step_safe[OF txns_wf_StartSvr v e] unfolding e by simp
qed

end
