(* ===== verification/Stun_Client.thy ===== *)
theory Stun_Client
  imports Stun_Server
begin

text \<open>
  The STUN client of \<open>stun2/cli.go\<close>: one exchange (\<open>getStunResponse\<close>), one server address
  (\<open>getStunIpPort2\<close>), one server name with its three ports (\<open>GetStunIpPort2\<close>) and the whole
  server list with its three rounds (\<open>GetStunIpPort\<close>). DNS, the random source, the configured
  server list and the UDP socket are the parameters of \<open>stun_env\<close>: functions that take the state of
  the outside world and return it changed.
\<close>

section \<open>The outside world\<close>

text \<open>
  \<open>en_exchange w addr req\<close> resolves \<open>addr\<close>, sends \<open>req\<close> and waits up to three seconds for one
  datagram; \<open>None\<close> is a failure of any of the three.
\<close>

record 'w stun_env =
  en_exchange :: "'w \<Rightarrow> string \<Rightarrow> bytes \<Rightarrow> bytes option \<times> 'w"
  en_lookup :: "'w \<Rightarrow> string \<Rightarrow> ip list option \<times> 'w"
  en_random :: "'w \<Rightarrow> bytes option \<times> 'w"
  en_servers :: "'w \<Rightarrow> string list \<times> 'w"

datatype client_err =
    LookupFailed
  | NoRandom
  | ExchangeFailed
  | InvalidResponse
  | CookieMismatch
  | TransactionMismatch
  | MappedError stun_err
  | ChangedError stun_err

section \<open>One exchange\<close>

definition request_bytes :: "bytes \<Rightarrow> bytes" where
  "request_bytes tid = [0x00, 0x01, 0x00, 0x00] @ magicCookieBytes @ tid"

definition getStunResponse ::
  "'w stun_env \<Rightarrow> 'w \<Rightarrow> string \<Rightarrow> bytes \<Rightarrow> (client_err + bytes) \<times> 'w" where
  "getStunResponse en w addr buf =
     (let (r, w') = en_exchange en w addr buf in
      (case r of
         None \<Rightarrow> Inl ExchangeFailed
       | Some datagram \<Rightarrow>
           (let response = take 1024 datagram
            in if length response < 32 then Inl InvalidResponse
               else if take 4 (drop 4 response) \<noteq> take 4 (drop 4 buf) then Inl CookieMismatch
               else if take 12 (drop 8 response) \<noteq> take 12 (drop 8 buf) then Inl TransactionMismatch
               else Inr response), w'))"

text \<open>The attributes are one buffer for the parses: what an XOR parse overwrote, the next one sees.\<close>

definition parse_attrs :: "bytes \<Rightarrow> bytes \<Rightarrow> bytes \<Rightarrow> client_err + string \<times> int \<times> string \<times> int" where
  "parse_attrs attrs magicCookie tid =
     (let n = int (length attrs);
          (r1, attrs1) = getStunIpPort4 attrs n AttrMappedAddress magicCookie tid;
          (r2, attrs2) = (case r1 of
                            Inl _ \<Rightarrow> getStunIpPort4 attrs1 n AttrXorMappedAddress magicCookie tid
                          | Inr _ \<Rightarrow> (r1, attrs1))
      in case r2 of
           Inl e \<Rightarrow> Inl (MappedError e)
         | Inr (wan_ip1, wan_port1) \<Rightarrow>
             (case fst (getStunIpPort4 attrs2 n AttrChangedAddress magicCookie tid) of
                Inl e \<Rightarrow> Inl (ChangedError e)
              | Inr (change_ip, change_port) \<Rightarrow> Inr (wan_ip1, wan_port1, change_ip, change_port)))"

definition getStunIpPort2 ::
  "'w stun_env \<Rightarrow> 'w \<Rightarrow> string \<Rightarrow> bytes \<Rightarrow> bytes \<Rightarrow> bytes
     \<Rightarrow> (client_err + string \<times> int \<times> string \<times> int) \<times> 'w" where
  "getStunIpPort2 en w addr buf magicCookie tid =
     (let (r, w') = getStunResponse en w addr buf
      in (bind_res r (\<lambda>response. parse_attrs (drop 20 response) magicCookie tid), w'))"

section \<open>One server name\<close>

text \<open>The four results and the error the last attempt left, which may be \<open>nil\<close> although it failed.\<close>

type_synonym probe = "string \<times> int \<times> int \<times> int"

text \<open>
  The body of the loop over the addresses: \<open>Inl err\<close> is \<open>continue\<close>, with the error as it stands.
\<close>

definition probe_ip ::
  "'w stun_env \<Rightarrow> 'w \<Rightarrow> ip \<Rightarrow> bytes \<Rightarrow> (client_err option + probe) \<times> 'w" where
  "probe_ip en w a tid =
     (let buf = request_bytes tid;
          (r1, w1) = getStunIpPort2 en w (ip_string a @ '':3478'') buf magicCookieBytes tid
      in case r1 of
           Inl e \<Rightarrow> (Inl (Some e), w1)
         | Inr (wan_ip, wan_port1, change_ip, change_port) \<Rightarrow>
             if wan_ip = [] \<or> wan_port1 = 0 \<or> change_ip = [] \<or> change_port = 0 then (Inl None, w1)
             else
               (let (r2, w2) = getStunIpPort2 en w1 (ip_string a @ '':3479'') buf magicCookieBytes tid
                in case r2 of
                     Inl e \<Rightarrow> (Inl (Some e), w2)
                   | Inr (_, wan_port2, _) \<Rightarrow>
                       if wan_port2 = 0 then (Inl None, w2)
                       else
                         (let (r3, w3) = getStunIpPort2 en w2
                                (change_ip @ '':'' @ go_itoa change_port) buf magicCookieBytes tid
                          in case r3 of
                               Inl e \<Rightarrow> (Inl (Some e), w3)
                             | Inr (_, wan_port3, _) \<Rightarrow>
                                 if wan_port3 = 0 then (Inl None, w3)
                                 else (Inr (wan_ip, wan_port1, wan_port2, wan_port3), w3))))"

fun probe_ips ::
  "'w stun_env \<Rightarrow> 'w \<Rightarrow> ip list \<Rightarrow> client_err option \<Rightarrow> bytes \<Rightarrow> (probe \<times> client_err option) \<times> 'w" where
  "probe_ips en w [] err tid = ((([], 0, 0, 0), err), w)"
| "probe_ips en w (a # ips) err tid =
     (case probe_ip en w a tid of
        (Inl e, w') \<Rightarrow> probe_ips en w' ips e tid
      | (Inr r, w') \<Rightarrow> ((r, None), w'))"

definition GetStunIpPort2 ::
  "'w stun_env \<Rightarrow> 'w \<Rightarrow> string \<Rightarrow> (probe \<times> client_err option) \<times> 'w" where
  "GetStunIpPort2 en w stun_svr =
     (let (ips, w1) = en_lookup en w stun_svr in
      case ips of
        None \<Rightarrow> ((([], 0, 0, 0), Some LookupFailed), w1)
      | Some ips \<Rightarrow>
          (let (tid, w2) = en_random en w1 in
           case tid of
             None \<Rightarrow> ((([], 0, 0, 0), Some NoRandom), w2)
           | Some tid \<Rightarrow> probe_ips en w2 ips None tid))"

section \<open>The whole server list\<close>

fun try_servers :: "'w stun_env \<Rightarrow> 'w \<Rightarrow> string list \<Rightarrow> probe option \<times> 'w" where
  "try_servers en w [] = (None, w)"
| "try_servers en w (svr # svrs) =
     (let (((wan_ip, wan_port1, wan_port2, wan_port3), err), w1) = GetStunIpPort2 en w svr
      in if err \<noteq> None then try_servers en w1 svrs
         else if wan_ip = [] \<or> wan_port1 = 0 \<or> wan_port2 = 0 then try_servers en w1 svrs
         else (Some (wan_ip, wan_port1, wan_port2, wan_port3), w1))"

definition maxStunRounds :: nat where "maxStunRounds = 3"

text \<open>The first argument counts the rounds left.\<close>

fun stun_rounds :: "nat \<Rightarrow> 'w stun_env \<Rightarrow> 'w \<Rightarrow> probe \<times> 'w" where
  "stun_rounds 0 en w = (([], 0, 0, 0), w)"
| "stun_rounds (Suc k) en w =
     (let (svrs, w1) = en_servers en w
      in if svrs = [] then (([], 0, 0, 0), w1)
         else case try_servers en w1 svrs of
                (Some r, w2) \<Rightarrow> (r, w2)
              | (None, w2) \<Rightarrow> stun_rounds k en w2)"

definition GetStunIpPort :: "'w stun_env \<Rightarrow> 'w \<Rightarrow> probe \<times> 'w" where
  "GetStunIpPort en w = stun_rounds maxStunRounds en w"

section \<open>Results are complete\<close>

definition probe_complete :: "probe \<Rightarrow> bool" where
  "probe_complete r = (case r of (ip, p1, p2, p3) \<Rightarrow> ip \<noteq> [] \<and> p1 \<noteq> 0 \<and> p2 \<noteq> 0 \<and> p3 \<noteq> 0)"

lemma probe_ip_complete: "probe_ip en w a tid = (Inr r, w') \<Longrightarrow> probe_complete r"
  by (auto simp: probe_ip_def Let_def probe_complete_def split: prod.splits sum.splits if_splits)

lemma probe_ips_complete:
  "probe_ips en w ips err tid = ((r, e), w') \<Longrightarrow> r = ([], 0, 0, 0) \<or> probe_complete r"
proof (induction ips arbitrary: w err)
  case (Cons a ips)
  obtain x w1 where x: "probe_ip en w a tid = (x, w1)" by (cases "probe_ip en w a tid") auto
  show ?case
  proof (cases x)
    case (Inl y)
    then show ?thesis using Cons.IH[of w1 y] Cons.prems x by simp
  next
    case (Inr q)
    then show ?thesis using Cons.prems x probe_ip_complete[of en w a tid q w1] by simp
  qed
qed auto

lemma GetStunIpPort2_complete:
  "GetStunIpPort2 en w svr = ((r, e), w') \<Longrightarrow> r = ([], 0, 0, 0) \<or> probe_complete r"
  by (auto simp: GetStunIpPort2_def Let_def split: prod.splits option.splits
      dest: probe_ips_complete)

lemma try_servers_complete:
  "try_servers en w svrs = (Some r, w') \<Longrightarrow> probe_complete r"
proof (induction svrs arbitrary: w)
  case (Cons svr svrs)
  obtain ip p1 p2 p3 e w1 where g: "GetStunIpPort2 en w svr = (((ip, p1, p2, p3), e), w1)"
    by (metis surj_pair)
  show ?case
    using Cons.prems GetStunIpPort2_complete[OF g] Cons.IH[of w1] g
    by (auto split: if_splits)
qed simp

lemma stun_rounds_complete:
  "stun_rounds k en w = (r, w') \<Longrightarrow> r = ([], 0, 0, 0) \<or> probe_complete r"
  by (induction k en w arbitrary: r w' rule: stun_rounds.induct)
     (auto split: prod.splits if_splits option.splits dest: try_servers_complete)

section \<open>The client against the server\<close>

definition svr_reply ::
  "stun_server \<Rightarrow> int \<Rightarrow> int \<Rightarrow> udp_addr \<Rightarrow> bytes \<Rightarrow> string \<Rightarrow> bytes option" where
  "svr_reply s now lp remote req changedAddr =
     (case snd (snd (handleDatagram s now (Some lp) remote req changedAddr)) of
        Reply m \<Rightarrow> Some m | _ \<Rightarrow> None)"

lemma request_header:
  assumes "length tid = 12"
  shows "slice (request_bytes tid) 0 2 = Inr (put_u16 MsgTypeBindingRequest)"
    "slice (request_bytes tid) 4 8 = Inr magicCookieBytes" "slice (request_bytes tid) 8 20 = Inr tid"
    "length (request_bytes tid) = 20"
  using assms by (auto simp: request_bytes_def slice_def put_u16_def MsgTypeBindingRequest_def magicCookieBytes_def)

lemma svr_reply_request:
  assumes "length tid = 12"
  shows "svr_reply s now lp remote (request_bytes tid) changed = buildBindingResponse remote tid changed"
proof -
  have "handleDatagram s now (Some lp) remote (request_bytes tid) changed =
      handleStunRequest s now (Some lp) remote (request_bytes tid) changed"
    using request_header(4)[OF assms] by (simp add: handleDatagram_def)
  then show ?thesis
    using request_header(1-3)[OF assms]
    by (simp add: svr_reply_def handleStunRequest_def case_prod_unfold Let_def split: option.splits)
qed

text \<open>A server at an IPv4 address, as \<open>StartSvr\<close> announces its other port.\<close>

definition svr_addr :: "bytes \<Rightarrow> int \<Rightarrow> string" where
  "svr_addr c port = join_host_port (ip4_string c) (svr_itoa port)"

lemma svr_addr_split:
  assumes "length c = 4" "0 \<le> port"
  shows "split_host_port (svr_addr c port) = Some (ip4_string c, dec_nat (nat port))"
proof -
  have e: "svr_itoa port = dec_nat (nat port)"
    using assms(2) by (subst svr_itoa_eq) (auto simp: go_itoa_def int_min_def)
  have i: "x \<in> set (ip4_string c) \<Longrightarrow> is_digit x \<or> x = CHR ''.''" for x
    using ip4_string_chars[OF assms(1)] .
  have d: "x \<in> set (dec_nat (nat port)) \<Longrightarrow> is_digit x" for x
    using dec_nat_digits[of "nat port"] by (simp add: list_all_iff)
  show ?thesis unfolding svr_addr_def e
    by (rule split_join_host_port) (auto dest!: i d simp: is_digit_def)
qed

lemma ip_string_v4_prefix: "length c = 4 \<Longrightarrow> ip_string (v4_prefix @ c) = ip4_string c"
  by (simp add: ip_string_def)

lemma getStunIpPort2_server:
  assumes "length tid = 12" "valid_ip (ua_ip seen)" "length c = 4" "0 \<le> cport" "cport < 65536"
    and "fst (en_exchange en w addr (request_bytes tid)) =
           buildBindingResponse seen tid (svr_addr c cport)"
  shows "fst (getStunIpPort2 en w addr (request_bytes tid) magicCookieBytes tid) =
     Inr (ip_string (ua_ip seen), ua_port seen mod 65536, ip4_string c, cport)"
proof -
  let ?x = "address_attr AttrXorMappedAddress (wire_family (ua_ip seen)) (port16 (ua_port seen) XOR 0x2112)
      (xor_bytes (wire_ip (ua_ip seen)) (take (length (wire_ip (ua_ip seen))) (magicCookieBytes @ tid)))"
  note p = response_parses[OF assms(2,1) svr_addr_split[OF assms(3,4)] parse_ip_string4[OF assms(3)]]
  have "valid_ip (v4_prefix @ c)" using assms(3) by (simp add: valid_ip_def)
  from p[OF this] obtain msg where msg: "buildBindingResponse seen tid (svr_addr c cport) = Some msg"
    and m: "getStunIpPort4 (drop 20 msg) (int (length (drop 20 msg))) AttrMappedAddress magicCookieBytes tid
      = (Inr (ip_string (ua_ip seen), ua_port seen mod 65536), drop 20 msg)"
    and c: "getStunIpPort4 (drop 20 msg) (int (length (drop 20 msg))) AttrChangedAddress magicCookieBytes tid
      = (Inr (ip_string (v4_prefix @ c), changed_port (dec_nat (nat cport)) mod 65536), drop 20 msg)"
    by blast
  obtain fp where d: "length fp = 8"
      "drop 20 msg = buildMappedAddress seen @ ?x @ buildChangedAddress (svr_addr c cport) @ fp"
      "take 20 msg = [0x01, 0x01] @ put_u16 (of_nat (length (drop 20 msg))) @ magicCookieBytes @ tid"
    using buildBindingResponse_parts[OF buildXorMappedAddress_eq[OF assms(2,1)] msg assms(1)] by blast
  have w: "length (wire_ip (ua_ip seen)) \<in> {4, 16}" "length (wire_ip (v4_prefix @ c)) = 4"
    using wire_attr_ok[OF assms(2)] assms(3) by (auto simp: attr_ok_def wire_ip_def)
  have lc: "length (buildChangedAddress (svr_addr c cport)) = 12"
    using w(2) buildChangedAddress_eq[OF svr_addr_split[OF assms(3,4)] parse_ip_string4[OF assms(3)]]
      assms(3) by (simp add: valid_ip_def)
  have ld: "20 \<le> length (drop 20 msg)" "length (drop 20 msg) \<le> 68"
    using w lc d(1) by (auto simp: d(2) buildMappedAddress_eq[OF assms(2)] magicCookieBytes_def assms(1))
  then have len: "32 \<le> length msg" "length msg \<le> 1024" by auto
  have t: "msg = take 20 msg @ drop 20 msg" by simp
  have h: "take 4 (drop 4 msg) = magicCookieBytes" "take 12 (drop 8 msg) = tid"
    by (subst t, subst d(3), simp add: put_u16_def magicCookieBytes_def assms(1))+
  have q: "take 4 (drop 4 (request_bytes tid)) = magicCookieBytes"
    "take 12 (drop 8 (request_bytes tid)) = tid"
    by (simp_all add: request_bytes_def magicCookieBytes_def assms(1))
  have "fst (getStunResponse en w addr (request_bytes tid)) = Inr msg"
    using len h q by (simp add: getStunResponse_def case_prod_unfold Let_def assms(6) msg)
  moreover have "parse_attrs (drop 20 msg) magicCookieBytes tid =
      Inr (ip_string (ua_ip seen), ua_port seen mod 65536, ip4_string c, cport)"
    using assms(4,5) by (simp add: parse_attrs_def Let_def m c ip_string_v4_prefix assms(3) del: length_drop)
  ultimately show ?thesis by (simp add: getStunIpPort2_def case_prod_unfold Let_def)
qed

text \<open>A caller of \<open>GetStunIpPort\<close> never sees half a result: whatever the servers, the DNS and the
  network do in the three rounds, the address is non-empty and all three ports are non-zero, or
  everything is empty.\<close>

theorem probe_complete_or_empty:
  "fst (GetStunIpPort en w) = ([], 0, 0, 0) \<or> probe_complete (fst (GetStunIpPort en w))"
  by (metis GetStunIpPort_def prod.collapse stun_rounds_complete)

lemma client_reads:
  fixes en :: "'w stun_env"
  assumes len: "length tid = 12" "length c = 4"
    and port: "0 < cport" "cport < 65536"
    and env: "\<And>w. \<exists>l. fst (en_servers en w) = svr # l" "\<And>w. \<exists>l. fst (en_lookup en w svr) = Some (a # l)"
      "\<And>w. fst (en_random en w) = Some tid"
    and ans: "\<And>w addr. \<exists>s now lp. fst (en_exchange en w addr (request_bytes tid)) =
       svr_reply s now lp (seen addr) (request_bytes tid) (svr_addr c cport)"
    and A: "A1 = ip_string a @ '':3478''" "A2 = ip_string a @ '':3479''"
      "A3 = ip4_string c @ '':'' @ go_itoa cport"
    and ok: "\<And>A. A \<in> {A1, A2, A3} \<Longrightarrow>
       valid_ip (ua_ip (seen A)) \<and> 0 < ua_port (seen A) \<and> ua_port (seen A) < 65536"
  shows "fst (GetStunIpPort en w) =
    (ip_string (ua_ip (seen A1)), ua_port (seen A1), ua_port (seen A2), ua_port (seen A3))"
proof -
  have g: "fst (getStunIpPort2 en w A (request_bytes tid) magicCookieBytes tid) =
      Inr (ip_string (ua_ip (seen A)), ua_port (seen A), ip4_string c, cport)"
    if "A \<in> {A1, A2, A3}" for A w
  proof -
    have "fst (en_exchange en w A (request_bytes tid)) =
        buildBindingResponse (seen A) tid (svr_addr c cport)"
      using ans[of w A] by (auto simp: svr_reply_request[OF len(1)])
    from getStunIpPort2_server[OF len(1) _ len(2) _ port(2) this] ok[OF that] port(1)
    show ?thesis by simp
  qed
  define nx where "nx A w = snd (getStunIpPort2 en w A (request_bytes tid) magicCookieBytes tid)" for A w
  have g': "getStunIpPort2 en w A (request_bytes tid) magicCookieBytes tid =
      (Inr (ip_string (ua_ip (seen A)), ua_port (seen A), ip4_string c, cport), nx A w)"
    if "A \<in> {A1, A2, A3}" for A w
    using g[OF that, of w] by (simp add: nx_def prod_eq_iff)
  note g' = g'[OF insertI1] g'[OF insertI2[OF insertI1]] g'[OF insertI2[OF insertI2[OF insertI1]]]
  have ne: "ip4_string c \<noteq> []" "ip_string (ua_ip (seen A1)) \<noteq> []"
    using len(2) ok[of A1] by (auto simp: ip_string_nonempty valid_ip_def ip4_string_nonempty)
  have p: "ua_port (seen A) \<noteq> 0" if "A \<in> {A1, A2, A3}" for A using ok[OF that] by simp
  have ip: "probe_ip en w a tid =
     (Inr (ip_string (ua_ip (seen A1)), ua_port (seen A1), ua_port (seen A2), ua_port (seen A3)),
      nx A3 (nx A2 (nx A1 w)))" for w
    unfolding probe_ip_def Let_def A(1,2)[symmetric] g' prod.case sum.case A(3)[symmetric]
    using p port(1) ne by simp
  obtain l1 where l1: "fst (en_servers en w) = svr # l1" using env(1) by blast
  have gi: "fst (GetStunIpPort2 en w svr) =
     ((ip_string (ua_ip (seen A1)), ua_port (seen A1), ua_port (seen A2), ua_port (seen A3)), None)" for w
  proof -
    obtain l where "fst (en_lookup en w svr) = Some (a # l)" using env(2) by blast
    then show ?thesis using env(3) by (simp add: GetStunIpPort2_def case_prod_unfold Let_def ip)
  qed
  show ?thesis
    using p ne by (simp add: GetStunIpPort_def maxStunRounds_def numeral_eq_Suc case_prod_unfold Let_def l1 gi)
qed


definition wit_env :: "unit stun_env" where
  "wit_env = \<lparr> en_exchange = (\<lambda>w addr req. (svr_reply (StartSvr ''1.2.3.4'' 3478) 0 3478
        \<lparr> ua_ip = [10, 0, 0, 1], ua_port = 4000 \<rparr> req (svr_addr [1, 2, 3, 5] 3479), ())),
     en_lookup = (\<lambda>w name. (Some [[1, 2, 3, 4]], ())),
     en_random = (\<lambda>w. (Some (replicate 12 7), ())),
     en_servers = (\<lambda>w. ([''stun''], ())) \<rparr>"


end
