(* ===== verification/Config_Ui.thy ===== *)
theory Config_Ui
  imports Go_Net
begin

text \<open>
  The service list of the graphical interface, \<open>config/uiconfig.go\<close>: normalisation and validation
  (\<open>NormalizeAndValidate\<close> and what it calls), the allocation of network segments and names, the
  upgrade of the flat file of earlier versions, saving through a temporary file, and the probes for
  occupied listeners. JSON encoding and decoding, the random service ids, the file operations and the
  listening probe are parameters. Chinese text appears as its UTF-8 bytes.
\<close>

section \<open>Data\<close>

record ui_rule =
  ur_proto :: string
  ur_listen :: string
  ur_remote :: string

record ui_service =
  uv_ID :: string
  uv_Name :: string
  uv_WorkType :: string
  uv_TunKey :: string
  uv_LocalMode :: string
  uv_Transport :: string
  uv_TunIP :: string
  uv_AutoStart :: bool
  uv_ForwardRules :: "ui_rule list"
  uv_AllowLocalProxy :: "bool option"

type_synonym ui_config = "ui_service list"

definition LocalModeTUN :: string where "LocalModeTUN = ''tun''"
definition LocalModeForward :: string where "LocalModeForward = ''forward''"
definition TransportQUIC :: string where "TransportQUIC = ''quic''"
definition TransportKCP :: string where "TransportKCP = ''kcp''"
definition maxServiceNameRunes :: nat where "maxServiceNameRunes = 32"
definition tunIPPrefix :: string where "tunIPPrefix = ''192.17.''"
definition tunSegmentMin :: nat where "tunSegmentMin = 19"
definition tunSegmentMax :: nat where "tunSegmentMax = 254"

lemmas ui_consts = LocalModeTUN_def LocalModeForward_def TransportQUIC_def TransportKCP_def

definition LocalProxyAllowed :: "ui_service \<Rightarrow> bool" where
  "LocalProxyAllowed s = (case uv_AllowLocalProxy s of None \<Rightarrow> True | Some b \<Rightarrow> b)"

datatype cfg_err =
    DuplicateID string
  | NameTooLong string
  | NameControlChar
  | DuplicateName string
  | DuplicateKey string
  | BadMode string
  | BadTransport string
  | BadRuleProto nat
  | BadRuleListen nat
  | BadRuleRemote nat
  | DuplicateRule nat string
  | BadTunIP string
  | DuplicateTunIP string
  | ListenConflict string string

section \<open>Segments\<close>

definition validateTunIP :: "string \<Rightarrow> bool" where
  "validateTunIP s =
     (case parse_ip (trim_space s) of
        None \<Rightarrow> False
      | Some a \<Rightarrow>
          (case to4 a of
             None \<Rightarrow> False
           | Some b \<Rightarrow> \<not> (b ! 0 \<noteq> 192 \<or> b ! 1 \<noteq> 17 \<or> b ! 3 \<noteq> 1 \<or> b ! 2 < 1)))"

definition tunSegmentOf :: "string \<Rightarrow> nat option" where
  "tunSegmentOf s =
     (case parse_ip (trim_space s) of
        None \<Rightarrow> None
      | Some a \<Rightarrow>
          (case to4 a of
             None \<Rightarrow> None
           | Some b \<Rightarrow> if b ! 0 \<noteq> 192 \<or> b ! 1 \<noteq> 17 \<or> b ! 3 \<noteq> 1 then None else Some (unat (b ! 2))))"

definition segment_ip :: "nat \<Rightarrow> string" where
  "segment_ip n = tunIPPrefix @ dec_nat n @ ''.1''"

definition AdapterName :: "ui_service \<Rightarrow> string" where
  "AdapterName s = (case tunSegmentOf (uv_TunIP s) of
      None \<Rightarrow> ''Goodlink'' | Some n \<Rightarrow> ''Goodlink-'' @ dec_nat n)"

definition TunIfaceIP :: "ui_service \<Rightarrow> string" where
  "TunIfaceIP s = (case tunSegmentOf (uv_TunIP s) of
      None \<Rightarrow> [] | Some n \<Rightarrow> tunIPPrefix @ dec_nat n @ ''.2'')"

definition AllocateTunIP :: "ui_config \<Rightarrow> string" where
  "AllocateTunIP cfg =
     (let used = List.map_filter (\<lambda>s. tunSegmentOf (uv_TunIP s)) cfg
      in case filter (\<lambda>n. n \<notin> set used) [tunSegmentMin..<Suc tunSegmentMax] of
           [] \<Rightarrow> []
         | n # _ \<Rightarrow> segment_ip n)"

section \<open>Names\<close>

text \<open>The name the program gives, in UTF-8, followed by a number.\<close>

definition service_word :: string where
  "service_word = map char_of [0xE6, 0x9C, 0x8D, 0xE5, 0x8A, 0xA1 :: nat]"

definition auto_name :: "nat \<Rightarrow> string" where
  "auto_name n = service_word @ dec_nat n"

lemma auto_name_inj [simp]: "auto_name m = auto_name n \<longleftrightarrow> m = n"
  by (simp add: auto_name_def)

function free_name :: "string list \<Rightarrow> nat \<Rightarrow> string" where
  "free_name used n = (if auto_name n \<in> set used then free_name used (Suc n) else auto_name n)"
  by pat_completeness auto
termination
proof (relation "measure (\<lambda>(used, n). card {u \<in> set used. \<exists>m \<ge> n. u = auto_name m})", goal_cases)
  case (2 used n)
  have "{u \<in> set used. \<exists>m \<ge> Suc n. u = auto_name m} \<subset> {u \<in> set used. \<exists>m \<ge> n. u = auto_name m}"
  proof
    show "{u \<in> set used. \<exists>m \<ge> Suc n. u = auto_name m} \<subseteq> {u \<in> set used. \<exists>m \<ge> n. u = auto_name m}"
      using Suc_leD by blast
    have "auto_name n \<notin> {u \<in> set used. \<exists>m \<ge> Suc n. u = auto_name m}" by auto
    moreover have "auto_name n \<in> {u \<in> set used. \<exists>m \<ge> n. u = auto_name m}" using 2 by auto
    ultimately show "{u \<in> set used. \<exists>m \<ge> Suc n. u = auto_name m}
        \<noteq> {u \<in> set used. \<exists>m \<ge> n. u = auto_name m}" by blast
  qed
  then show ?case by (simp add: psubset_card_mono)
qed simp

declare free_name.simps [simp del]

text \<open>\<open>unicode.IsControl\<close> of a rune: C0, DEL, and C1 as two bytes.\<close>

definition is_control :: "string \<Rightarrow> bool" where
  "is_control r =
     (case r of
        [c] \<Rightarrow> code c < 0x20 \<or> code c = 0x7F
      | [c, d] \<Rightarrow> code c = 0xC2 \<and> code d \<le> 0x9F
      | _ \<Rightarrow> False)"

definition normalizeServiceName :: "string \<Rightarrow> string list \<Rightarrow> nat \<Rightarrow> cfg_err + string" where
  "normalizeServiceName nm used index =
     (let name = trim_space nm in
      if name = [] then Inr (free_name used (index + 1))
      else if length (runes name) > maxServiceNameRunes then Inl (NameTooLong name)
      else if \<exists>r \<in> set (runes name). is_control r then Inl NameControlChar
      else if name \<in> set used then Inl (DuplicateName name)
      else Inr name)"

definition AllocateServiceName :: "ui_config \<Rightarrow> string" where
  "AllocateServiceName cfg =
     (let used = map (\<lambda>s. trim_space (uv_Name s)) cfg
      in case filter (\<lambda>n. auto_name n \<notin> set used) [1..<10000] of
           [] \<Rightarrow> service_word
         | n # _ \<Rightarrow> auto_name n)"

section \<open>One service\<close>

definition NormalizeTransport :: "string \<Rightarrow> string" where
  "NormalizeTransport s = (let t = to_lower (trim_space s) in if t = [] then TransportKCP else t)"

definition parseHostPortIPv4 :: "string \<Rightarrow> (string \<times> int) option" where
  "parseHostPortIPv4 addr =
     (case split_host_port (trim_space addr) of
        None \<Rightarrow> None
      | Some (host, portStr) \<Rightarrow>
          (case parse_ip host of
             None \<Rightarrow> None
           | Some a \<Rightarrow>
               (case to4 a of
                  None \<Rightarrow> None
                | Some ip4 \<Rightarrow>
                    (case atoi portStr of
                       None \<Rightarrow> None
                     | Some port \<Rightarrow>
                         if port \<le> 0 \<or> port > 65535 then None else Some (ip_string ip4, port)))))"

definition listenRuleKey :: "ui_rule \<Rightarrow> string" where
  "listenRuleKey r = to_lower (trim_space (ur_proto r)) @ ''|'' @ ur_listen r"

text \<open>The loop over the rules: \<open>seen\<close> are the keys so far, \<open>i\<close> the index from 0.\<close>

fun normalize_rules :: "string list \<Rightarrow> nat \<Rightarrow> ui_rule list \<Rightarrow> cfg_err + ui_rule list" where
  "normalize_rules seen i [] = Inr []"
| "normalize_rules seen i (r # rs) =
     (let proto = to_lower (trim_space (ur_proto r)) in
      if proto \<noteq> ''tcp'' \<and> proto \<noteq> ''udp'' then Inl (BadRuleProto (i + 1))
      else case parseHostPortIPv4 (ur_listen r) of
        None \<Rightarrow> Inl (BadRuleListen (i + 1))
      | Some (listenHost, listenPort) \<Rightarrow>
          (case parseHostPortIPv4 (ur_remote r) of
             None \<Rightarrow> Inl (BadRuleRemote (i + 1))
           | Some (remoteHost, remotePort) \<Rightarrow>
               (let listen = join_host_port listenHost (go_itoa listenPort);
                    key = proto @ ''|'' @ listen in
                if key \<in> set seen then Inl (DuplicateRule (i + 1) listen)
                else bind_res (normalize_rules (key # seen) (i + 1) rs) (\<lambda>out.
                  Inr (\<lparr> ur_proto = proto, ur_listen = listen,
                         ur_remote = join_host_port remoteHost (go_itoa remotePort) \<rparr> # out)))))"

text \<open>
  Services are normalised in place: an error leaves the fields written so far, so every function
  below returns the service next to the error, \<open>None\<close> for success.
\<close>

definition normalizeServiceMode :: "ui_service \<Rightarrow> cfg_err option \<times> ui_service" where
  "normalizeServiceMode svc =
     (let m0 = to_lower (trim_space (uv_LocalMode svc));
          svc1 = svc\<lparr> uv_LocalMode := (if m0 = [] then LocalModeTUN else m0) \<rparr> in
      if uv_LocalMode svc1 \<noteq> LocalModeTUN \<and> uv_LocalMode svc1 \<noteq> LocalModeForward
      then (Some (BadMode (uv_LocalMode svc1)), svc1)
      else let svc2 = svc1\<lparr> uv_Transport := NormalizeTransport (uv_Transport svc1) \<rparr> in
        if uv_Transport svc2 \<noteq> TransportQUIC \<and> uv_Transport svc2 \<noteq> TransportKCP
        then (Some (BadTransport (uv_Transport svc2)), svc2)
        else case normalize_rules [] 0 (uv_ForwardRules svc2) of
               Inl e \<Rightarrow> (Some e, svc2)
             | Inr out \<Rightarrow> (None, svc2\<lparr> uv_ForwardRules := out \<rparr>))"

section \<open>The service list\<close>

text \<open>The sets the loop keeps; \<open>nz_listens\<close> maps a listener to the id of its service.\<close>

record norm_state =
  nz_ids :: "string list"
  nz_names :: "string list"
  nz_keys :: "string list"
  nz_ips :: "string list"
  nz_listens :: "(string \<times> string) list"

definition norm_init :: norm_state where
  "norm_init = \<lparr> nz_ids = [], nz_names = [], nz_keys = [], nz_ips = [], nz_listens = [] \<rparr>"

fun claim_listens ::
  "string \<Rightarrow> (string \<times> string) list \<Rightarrow> ui_rule list \<Rightarrow> cfg_err + (string \<times> string) list" where
  "claim_listens sid ls [] = Inr ls"
| "claim_listens sid ls (r # rs) =
     (case map_of ls (listenRuleKey r) of
        Some other \<Rightarrow>
          if other \<noteq> sid then Inl (ListenConflict other (ur_listen r))
          else claim_listens sid ((listenRuleKey r, sid) # ls) rs
      | None \<Rightarrow> claim_listens sid ((listenRuleKey r, sid) # ls) rs)"

text \<open>
  The body of the loop for the service at index \<open>i\<close>; \<open>prev\<close> and \<open>rest\<close> are the services before
  and after it, \<open>fresh\<close> the random ids. First the identity (id, name, type, key), then the mode, then
  the segment and the listeners.
\<close>

definition norm_identity ::
  "(nat \<Rightarrow> string) \<Rightarrow> norm_state \<Rightarrow> nat \<Rightarrow> ui_service \<Rightarrow> cfg_err option \<times> norm_state \<times> ui_service" where
  "norm_identity fresh st i svc =
     (let id0 = trim_space (uv_ID svc);
          sid = (if id0 = [] then fresh i else id0);
          svc1 = svc\<lparr> uv_ID := sid \<rparr> in
      if sid \<in> set (nz_ids st) then (Some (DuplicateID sid), st, svc1)
      else let st1 = st\<lparr> nz_ids := sid # nz_ids st \<rparr> in
        case normalizeServiceName (uv_Name svc1) (nz_names st1) i of
          Inl e \<Rightarrow> (Some e, st1, svc1)
        | Inr name \<Rightarrow>
            (let st2 = st1\<lparr> nz_names := name # nz_names st1 \<rparr>;
                 key = trim_space (uv_TunKey svc1);
                 svc2 = svc1\<lparr> uv_Name := name, uv_WorkType := trim_space (uv_WorkType svc1),
                              uv_TunKey := key \<rparr> in
             if key = [] then (None, st2, svc2)
             else if key \<in> set (nz_keys st2) then (Some (DuplicateKey key), st2, svc2)
             else (None, st2\<lparr> nz_keys := key # nz_keys st2 \<rparr>, svc2)))"

definition norm_network ::
  "norm_state \<Rightarrow> ui_service list \<Rightarrow> ui_service list \<Rightarrow> ui_service
     \<Rightarrow> cfg_err option \<times> norm_state \<times> ui_service" where
  "norm_network st prev rest svc =
     (let svc1 = (if trim_space (uv_TunIP svc) = []
                  then svc\<lparr> uv_TunIP := AllocateTunIP (prev @ [svc] @ rest) \<rparr> else svc);
          tunIP = uv_TunIP svc1 in
      if \<not> validateTunIP tunIP then (Some (BadTunIP tunIP), st, svc1)
      else if tunIP \<in> set (nz_ips st) then (Some (DuplicateTunIP tunIP), st, svc1)
      else let st1 = st\<lparr> nz_ips := tunIP # nz_ips st \<rparr> in
        if uv_LocalMode svc1 \<noteq> LocalModeForward then (None, st1, svc1)
        else case claim_listens (uv_ID svc1) (nz_listens st1) (uv_ForwardRules svc1) of
               Inl e \<Rightarrow> (Some e, st1, svc1)
             | Inr listens \<Rightarrow> (None, st1\<lparr> nz_listens := listens \<rparr>, svc1))"

definition norm_service ::
  "(nat \<Rightarrow> string) \<Rightarrow> norm_state \<Rightarrow> ui_service list \<Rightarrow> ui_service list \<Rightarrow> nat \<Rightarrow> ui_service
     \<Rightarrow> cfg_err option \<times> norm_state \<times> ui_service" where
  "norm_service fresh st prev rest i svc =
     (case norm_identity fresh st i svc of
        (Some e, r) \<Rightarrow> (Some e, r)
      | (None, st1, svc1) \<Rightarrow>
          (case normalizeServiceMode svc1 of
             (Some e, svc2) \<Rightarrow> (Some e, st1, svc2)
           | (None, svc2) \<Rightarrow> norm_network st1 prev rest svc2))"

fun norm_services ::
  "(nat \<Rightarrow> string) \<Rightarrow> norm_state \<Rightarrow> ui_service list \<Rightarrow> ui_service list
     \<Rightarrow> cfg_err option \<times> ui_service list" where
  "norm_services fresh st prev [] = (None, prev)"
| "norm_services fresh st prev (svc # rest) =
     (case norm_service fresh st prev rest (length prev) svc of
        (Some e, st', svc') \<Rightarrow> (Some e, prev @ svc' # rest)
      | (None, st', svc') \<Rightarrow> norm_services fresh st' (prev @ [svc']) rest)"

text \<open>Only the first service keeps its auto-start mark.\<close>

fun keep_first_auto :: "bool \<Rightarrow> ui_service list \<Rightarrow> ui_service list" where
  "keep_first_auto keep [] = []"
| "keep_first_auto keep (s # ss) =
     (if \<not> uv_AutoStart s then s # keep_first_auto keep ss
      else if keep then s\<lparr> uv_AutoStart := False \<rparr> # keep_first_auto keep ss
      else s # keep_first_auto True ss)"

definition NormalizeAndValidate ::
  "(nat \<Rightarrow> string) \<Rightarrow> ui_config \<Rightarrow> cfg_err option \<times> ui_config" where
  "NormalizeAndValidate fresh cfg =
     (case norm_services fresh norm_init [] cfg of
        (Some e, out) \<Rightarrow> (Some e, out)
      | (None, out) \<Rightarrow> (None, keep_first_auto False out))"

definition FindService :: "ui_config \<Rightarrow> string \<Rightarrow> ui_service option" where
  "FindService cfg sid = find (\<lambda>s. uv_ID s = sid) cfg"

definition serviceNameByID :: "ui_config \<Rightarrow> string \<Rightarrow> string" where
  "serviceNameByID cfg sid = (case FindService cfg sid of Some s \<Rightarrow> uv_Name s | None \<Rightarrow> sid)"

section \<open>Loading and saving\<close>

record legacy_config =
  lg_services :: "ui_service list"
  lg_WorkType :: string
  lg_TunKey :: string
  lg_LocalMode :: string
  lg_Transport :: string
  lg_AutoStart :: bool
  lg_ForwardRules :: "ui_rule list"

definition legacyHasValue :: "legacy_config \<Rightarrow> bool" where
  "legacyHasValue raw \<longleftrightarrow>
     trim_space (lg_WorkType raw) \<noteq> [] \<or> trim_space (lg_TunKey raw) \<noteq> [] \<or>
     trim_space (lg_LocalMode raw) \<noteq> [] \<or> trim_space (lg_Transport raw) \<noteq> [] \<or>
     lg_AutoStart raw \<or> lg_ForwardRules raw \<noteq> []"

datatype load_err = ReadFailed | BadJson

datatype read_file = FileMissing | FileError | FileData string

text \<open>\<open>unmarshal\<close> is \<open>json.Unmarshal\<close> into the legacy structure; \<open>new_id\<close> a random id.\<close>

definition LoadUIConfig ::
  "(string \<Rightarrow> legacy_config option) \<Rightarrow> string \<Rightarrow> read_file \<Rightarrow> load_err option \<times> ui_config" where
  "LoadUIConfig unmarshal new_id file =
     (case file of
        FileMissing \<Rightarrow> (None, [])
      | FileError \<Rightarrow> (Some ReadFailed, [])
      | FileData data \<Rightarrow>
          if trim_space data = [] then (None, [])
          else case unmarshal data of
            None \<Rightarrow> (Some BadJson, [])
          | Some raw \<Rightarrow>
              if lg_services raw \<noteq> [] then (None, lg_services raw)
              else if legacyHasValue raw then
                (None, [\<lparr> uv_ID = new_id, uv_Name = auto_name 1, uv_WorkType = lg_WorkType raw,
                          uv_TunKey = lg_TunKey raw, uv_LocalMode = lg_LocalMode raw,
                          uv_Transport = lg_Transport raw, uv_TunIP = ''192.17.19.1'',
                          uv_AutoStart = lg_AutoStart raw, uv_ForwardRules = lg_ForwardRules raw,
                          uv_AllowLocalProxy = None \<rparr>])
              else (None, []))"

definition GetService ::
  "(nat \<Rightarrow> string) \<Rightarrow> load_err option \<times> ui_config \<Rightarrow> string \<Rightarrow> ui_service option" where
  "GetService fresh loaded sid0 =
     (let sid = trim_space sid0;
          cfg = (case loaded of (None, c) \<Rightarrow> snd (NormalizeAndValidate fresh c) | (Some _, c) \<Rightarrow> c)
      in if sid = [] then None else FindService cfg sid)"

text \<open>
  Saving: \<open>sv_path\<close> and \<open>sv_tmp\<close> are the contents of the file and of its temporary sibling. The
  outcome of each file operation is a parameter: whether the temporary file could be written,
  whether it could be renamed, whether the target could be opened for overwriting, and how many bytes
  of the copy reached it (all of them when it succeeds).
\<close>

record save_files =
  sv_path :: "string option"
  sv_tmp :: "string option"

record save_outcome =
  so_write :: bool
  so_rename :: bool
  so_open :: bool
  so_copied :: "nat option"

datatype save_err = SaveInvalid cfg_err | SaveWrite | SaveRename

definition copyFileOverwrite :: "save_outcome \<Rightarrow> save_files \<Rightarrow> bool \<times> save_files" where
  "copyFileOverwrite oc f =
     (case sv_tmp f of
        None \<Rightarrow> (False, f)
      | Some data \<Rightarrow>
          if \<not> so_open oc then (False, f)
          else case so_copied oc of
                 None \<Rightarrow> (True, f\<lparr> sv_path := Some data \<rparr>)
               | Some n \<Rightarrow> (False, f\<lparr> sv_path := Some (take n data) \<rparr>))"

definition SaveUIConfig ::
  "(nat \<Rightarrow> string) \<Rightarrow> (ui_config \<Rightarrow> string) \<Rightarrow> save_outcome \<Rightarrow> save_files \<Rightarrow> ui_config
     \<Rightarrow> save_err option \<times> save_files \<times> ui_config" where
  "SaveUIConfig fresh marshal oc f cfg =
     (case NormalizeAndValidate fresh cfg of
        (Some e, cfg') \<Rightarrow> (Some (SaveInvalid e), f, cfg')
      | (None, cfg') \<Rightarrow>
          (let data = marshal cfg' @ [char_of (10 :: nat)] in
           if \<not> so_write oc then (Some SaveWrite, f, cfg')
           else let f1 = f\<lparr> sv_tmp := Some data \<rparr> in
             if so_rename oc then (None, \<lparr> sv_path = Some data, sv_tmp = None \<rparr>, cfg')
             else (let (ok, f2) = copyFileOverwrite oc f1; f3 = f2\<lparr> sv_tmp := None \<rparr>
                   in if ok then (None, f3, cfg') else (Some SaveRename, f3, cfg'))))"

section \<open>Occupied listeners\<close>

text \<open>\<open>occupied\<close> tells for a protocol and an address whether listening fails.\<close>

definition listenOccupied :: "(bool \<Rightarrow> string \<Rightarrow> bool) \<Rightarrow> string \<Rightarrow> string \<Rightarrow> bool" where
  "listenOccupied occupied proto addr = occupied (to_lower (trim_space proto) = ''udp'') addr"

fun listen_conflicts ::
  "(bool \<Rightarrow> string \<Rightarrow> bool) \<Rightarrow> string list \<Rightarrow> string list \<Rightarrow> ui_rule list \<Rightarrow> string list" where
  "listen_conflicts occupied owned seen [] = []"
| "listen_conflicts occupied owned seen (r # rs) =
     (let key = listenRuleKey r in
      if key \<in> set owned \<or> key \<in> set seen then listen_conflicts occupied owned seen rs
      else if listenOccupied occupied (ur_proto r) (ur_listen r) then
        (let p = to_upper (trim_space (ur_proto r))
         in (if p = [] then ''TCP'' else p) @ '' '' @ ur_listen r)
        # listen_conflicts occupied owned (key # seen) rs
      else listen_conflicts occupied owned (key # seen) rs)"

definition ListenConflicts ::
  "(bool \<Rightarrow> string \<Rightarrow> bool) \<Rightarrow> ui_rule list \<Rightarrow> ui_rule list \<Rightarrow> string list" where
  "ListenConflicts occupied rules skip = listen_conflicts occupied (map listenRuleKey skip) [] rules"

end
