(* ===== verification/Ui_State.thy ===== *)
theory Ui_State
  imports Config_Ui
begin

text \<open>
  The state behind the graphical interface, \<open>ui2/state.go\<close> and \<open>ui2/log.go\<close>: the services in their
  order and by id, the hints shown beside them, the event hub of the browsers, the log rings, and the
  views computed from them. Services are shared objects in the source, reached from the ordered list
  and from the index; here both hold references into a heap. The version and the administrator test are
  constants of the state, log messages that the program words itself are constructors, and an event
  carries the value that is encoded as JSON.
\<close>

section \<open>Data\<close>

datatype svc_status =
    Detecting | Idle | Starting | Connecting | ConnectingNAT4 | Connected | Running | Stopping
  | ConnectFailed

fun status_code :: "svc_status \<Rightarrow> nat" where
  "status_code Detecting = 0"
| "status_code Idle = 1"
| "status_code Starting = 2"
| "status_code Connecting = 3"
| "status_code ConnectingNAT4 = 4"
| "status_code Connected = 5"
| "status_code Running = 6"
| "status_code Stopping = 7"
| "status_code ConnectFailed = 8"

record nat_info =
  ni_Ready :: bool
  ni_IsNAT4 :: bool

record upgrade_info =
  ug_Need :: bool
  ug_Latest :: string
  ug_Body :: string
  ug_DownloadURL :: string
  ug_Downloading :: bool
  ug_Percent :: int
  ug_Done :: bool
  ug_Error :: string
  ug_CheckError :: string

record proxy_info =
  px_Socks :: string
  px_HTTP :: string
  px_Fallback :: bool
  px_Denied :: bool

text \<open>The lines of the log: the output of a worker, and the messages of the interface by their meaning.\<close>

datatype log_line =
    LogRaw string
  | LogNAT4Stopped string
  | LogConnectFailed string
  | LogVersionMismatch string
  | LogTransportMismatch string
  | LogNeedAdmin string
  | LogStartFailed string
  | LogRestarting string
  | LogRestartFailed string
  | LogAutoStarting string
  | LogAutoStartFailed string
  | LogAutoStartOn string
  | LogRenamed string
  | LogImported
  | LogNATListenFailed
  | LogNATProbeFailed

record service_view =
  vw_ID :: string
  vw_Name :: string
  vw_WorkType :: string
  vw_TunKey :: string
  vw_LocalMode :: string
  vw_Transport :: string
  vw_TunIP :: string
  vw_AutoStart :: bool
  vw_AllowLocalProxy :: bool
  vw_ForwardRules :: "ui_rule list"
  vw_Status :: svc_status
  vw_Proxy :: proxy_info
  vw_Logs :: "log_line list"

record ui_view =
  st_Version :: string
  st_IsAdmin :: bool
  st_NAT :: nat_info
  st_Upgrade :: upgrade_info
  st_Services :: "service_view list"
  st_Logs :: "log_line list"

record service_state =
  ss_cfg :: ui_service
  ss_status :: svc_status
  ss_proxyHost :: string
  ss_proxyPort :: int
  ss_proxyDenied :: bool

datatype sse_msg = SseState ui_view | SseLog string log_line | SseUpgrade upgrade_info

text \<open>The package variables. A client of the hub is a number with the messages waiting in its channel.\<close>

record ui_data =
  um_heap :: "nat \<Rightarrow> service_state"
  um_next :: nat
  um_services :: "nat list"
  um_index :: "string \<Rightarrow> nat option"
  um_nat :: nat_info
  um_upgrade :: upgrade_info
  um_clients :: "(nat \<times> sse_msg list) list"
  um_shared :: "log_line list"
  um_logs :: "string \<Rightarrow> log_line list option"
  um_version :: string
  um_admin :: bool

definition workTypeLocal :: string where "workTypeLocal = ''Local''"
definition workTypeRemote :: string where "workTypeRemote = ''Remote''"
definition ProxyDenyToken :: string where "ProxyDenyToken = ''deny''"
definition ui_proxy_port :: int where "ui_proxy_port = 1080"
definition maxLogEntries :: nat where "maxLogEntries = 500"
definition sse_buffer :: nat where "sse_buffer = 64"

section \<open>The event hub\<close>

definition subscribe :: "ui_data \<Rightarrow> nat \<times> ui_data" where
  "subscribe s =
     (let c = Suc (Max (insert 0 (fst ` set (um_clients s))))
      in (c, s\<lparr> um_clients := um_clients s @ [(c, [])] \<rparr>))"

definition unsubscribe :: "nat \<Rightarrow> ui_data \<Rightarrow> ui_data" where
  "unsubscribe c s = s\<lparr> um_clients := filter (\<lambda>p. fst p \<noteq> c) (um_clients s) \<rparr>"

text \<open>A client whose channel is full misses the message.\<close>

definition broadcast :: "sse_msg \<Rightarrow> ui_data \<Rightarrow> ui_data" where
  "broadcast msg s =
     s\<lparr> um_clients := map (\<lambda>(c, q). (c, if length q < sse_buffer then q @ [msg] else q)) (um_clients s) \<rparr>"

definition sseMessage :: "string \<Rightarrow> string \<Rightarrow> string" where
  "sseMessage event json =
     (let nl = [char_of (10 :: nat)] in ''event: '' @ event @ nl @ ''data: '' @ json @ nl @ nl)"

definition sse_bytes :: "(sse_msg \<Rightarrow> string) \<Rightarrow> sse_msg \<Rightarrow> string" where
  "sse_bytes json msg =
     sseMessage (case msg of SseState _ \<Rightarrow> ''state'' | SseLog _ _ \<Rightarrow> ''log'' | SseUpgrade _ \<Rightarrow> ''upgrade'')
       (json msg)"

section \<open>Log rings\<close>

definition appendRing :: "log_line list \<Rightarrow> log_line \<Rightarrow> log_line list" where
  "appendRing entries content =
     (let es = entries @ [content]
      in if length es > maxLogEntries then drop (length es - maxLogEntries) es else es)"

definition snapshotServiceLogs :: "string \<Rightarrow> ui_data \<Rightarrow> log_line list" where
  "snapshotServiceLogs sid s = (case um_logs s sid of None \<Rightarrow> [] | Some ls \<Rightarrow> ls)"

definition appendLogEntry :: "string \<Rightarrow> log_line \<Rightarrow> ui_data \<Rightarrow> ui_data" where
  "appendLogEntry sid content s =
     broadcast (SseLog sid content)
       (if sid = [] then s\<lparr> um_shared := appendRing (um_shared s) content \<rparr>
        else s\<lparr> um_logs := (um_logs s)(sid \<mapsto> appendRing (snapshotServiceLogs sid s) content) \<rparr>)"

abbreviation UILog :: "log_line \<Rightarrow> ui_data \<Rightarrow> ui_data" where
  "UILog \<equiv> appendLogEntry []"

definition dropServiceLogs :: "string \<Rightarrow> ui_data \<Rightarrow> ui_data" where
  "dropServiceLogs sid s = s\<lparr> um_logs := (um_logs s)(sid := None) \<rparr>"

section \<open>Views\<close>

definition no_proxy :: proxy_info where
  "no_proxy = \<lparr> px_Socks = [], px_HTTP = [], px_Fallback = False, px_Denied = False \<rparr>"

definition makeProxyInfo :: "string \<Rightarrow> int \<Rightarrow> bool \<Rightarrow> proxy_info" where
  "makeProxyInfo host port fallback =
     (let addr = join_host_port host (go_itoa port)
      in \<lparr> px_Socks = ''socks5://'' @ addr, px_HTTP = ''http://'' @ addr, px_Fallback = fallback,
           px_Denied = False \<rparr>)"

definition proxyInfoLocked :: "service_state \<Rightarrow> proxy_info" where
  "proxyInfoLocked svc =
     (if uv_WorkType (ss_cfg svc) \<noteq> workTypeLocal then no_proxy
      else if ss_proxyDenied svc then no_proxy\<lparr> px_Denied := True \<rparr>
      else if ss_proxyHost svc = [] \<or> ss_proxyPort svc \<le> 0 then no_proxy
      else makeProxyInfo (ss_proxyHost svc) (ss_proxyPort svc) (ss_proxyPort svc \<noteq> ui_proxy_port))"

definition serviceViewLocked :: "service_state \<Rightarrow> bool \<Rightarrow> ui_data \<Rightarrow> service_view" where
  "serviceViewLocked svc includeLogs s =
     (let c = ss_cfg svc in
      \<lparr> vw_ID = uv_ID c, vw_Name = uv_Name c, vw_WorkType = uv_WorkType c, vw_TunKey = uv_TunKey c,
        vw_LocalMode = (if uv_LocalMode c = [] then LocalModeTUN else uv_LocalMode c),
        vw_Transport = (if uv_Transport c = [] then TransportKCP else uv_Transport c),
        vw_TunIP = uv_TunIP c, vw_AutoStart = uv_AutoStart c, vw_AllowLocalProxy = LocalProxyAllowed c,
        vw_ForwardRules = uv_ForwardRules c, vw_Status = ss_status svc, vw_Proxy = proxyInfoLocked svc,
        vw_Logs = (if includeLogs then snapshotServiceLogs (uv_ID c) s else []) \<rparr>)"

definition snapshot :: "bool \<Rightarrow> ui_data \<Rightarrow> ui_view" where
  "snapshot includeLogs s =
     \<lparr> st_Version = um_version s, st_IsAdmin = um_admin s, st_NAT = um_nat s, st_Upgrade = um_upgrade s,
       st_Services = map (\<lambda>r. serviceViewLocked (um_heap s r) includeLogs s) (um_services s),
       st_Logs = (if includeLogs then um_shared s else []) \<rparr>"

definition broadcastState :: "ui_data \<Rightarrow> ui_data" where
  "broadcastState s = broadcast (SseState (snapshot False s)) s"

section \<open>Services\<close>

definition upd_svc :: "nat \<Rightarrow> (service_state \<Rightarrow> service_state) \<Rightarrow> ui_data \<Rightarrow> ui_data" where
  "upd_svc r f s = s\<lparr> um_heap := (um_heap s)(r := f (um_heap s r)) \<rparr>"

definition upd_cfg :: "nat \<Rightarrow> (ui_service \<Rightarrow> ui_service) \<Rightarrow> ui_data \<Rightarrow> ui_data" where
  "upd_cfg r f = upd_svc r (\<lambda>v. v\<lparr> ss_cfg := f (ss_cfg v) \<rparr>)"

definition lookupService :: "string \<Rightarrow> ui_data \<Rightarrow> service_state option" where
  "lookupService sid s = map_option (um_heap s) (um_index s sid)"

text \<open>What the setters do with the service, if there is one.\<close>

definition with_service :: "string \<Rightarrow> (service_state \<Rightarrow> service_state) \<Rightarrow> ui_data \<Rightarrow> ui_data" where
  "with_service sid f s = (case um_index s sid of None \<Rightarrow> s | Some r \<Rightarrow> upd_svc r f s)"

definition serviceIdle :: "service_state \<Rightarrow> bool" where
  "serviceIdle svc \<longleftrightarrow> ss_status svc \<in> {Detecting, Idle, ConnectFailed, ConnectingNAT4}"

definition setServiceStatus :: "string \<Rightarrow> svc_status \<Rightarrow> ui_data \<Rightarrow> ui_data" where
  "setServiceStatus sid st s = broadcastState (with_service sid (\<lambda>v. v\<lparr> ss_status := st \<rparr>) s)"

definition getServiceStatus :: "string \<Rightarrow> ui_data \<Rightarrow> svc_status" where
  "getServiceStatus sid s = (case lookupService sid s of Some v \<Rightarrow> ss_status v | None \<Rightarrow> Idle)"

definition set_proxy :: "string \<Rightarrow> int \<Rightarrow> bool \<Rightarrow> service_state \<Rightarrow> service_state" where
  "set_proxy host port denied v =
     v\<lparr> ss_proxyHost := host, ss_proxyPort := port, ss_proxyDenied := denied \<rparr>"

definition setProxyListen :: "string \<Rightarrow> string \<Rightarrow> ui_data \<Rightarrow> ui_data" where
  "setProxyListen sid addr s =
     (if trim_space addr = ProxyDenyToken then broadcastState (with_service sid (set_proxy [] 0 True) s)
      else case split_host_port (trim_space addr) of
        None \<Rightarrow> s
      | Some (host, portStr) \<Rightarrow>
          (case atoi portStr of
             None \<Rightarrow> s
           | Some port \<Rightarrow>
               if port \<le> 0 \<or> port > 65535 then s
               else broadcastState (with_service sid (set_proxy host port False) s)))"

definition resetProxyListen :: "string \<Rightarrow> ui_data \<Rightarrow> ui_data" where
  "resetProxyListen sid s = broadcastState (with_service sid (set_proxy [] 0 False) s)"

definition serviceName :: "string \<Rightarrow> ui_data \<Rightarrow> string" where
  "serviceName sid s =
     (case lookupService sid s of
        Some v \<Rightarrow> if uv_Name (ss_cfg v) \<noteq> [] then uv_Name (ss_cfg v) else sid
      | None \<Rightarrow> sid)"

definition allServicesConfig :: "ui_data \<Rightarrow> ui_config" where
  "allServicesConfig s = map (\<lambda>r. ss_cfg (um_heap s r)) (um_services s)"

definition new_service :: "ui_service \<Rightarrow> svc_status \<Rightarrow> service_state" where
  "new_service c st =
     \<lparr> ss_cfg = c, ss_status = st, ss_proxyHost = [], ss_proxyPort = 0, ss_proxyDenied = False \<rparr>"

text \<open>Appending a new object to the list and entering it in the index.\<close>

definition add_service :: "service_state \<Rightarrow> ui_data \<Rightarrow> ui_data" where
  "add_service v s =
     s\<lparr> um_heap := (um_heap s)(um_next s := v), um_next := Suc (um_next s),
        um_services := um_services s @ [um_next s],
        um_index := (um_index s)(uv_ID (ss_cfg v) \<mapsto> um_next s) \<rparr>"

definition replaceServices :: "ui_service list \<Rightarrow> ui_data \<Rightarrow> ui_data" where
  "replaceServices items s =
     fold (\<lambda>c. add_service (new_service c Detecting)) items (s\<lparr> um_services := [], um_index := Map.empty \<rparr>)"

text \<open>The errors of the handlers; \<open>mutateService\<close> runs a function on the object found.\<close>

datatype ui_err =
    AlreadyStarted
  | UiBusy
  | NoService
  | KeyOf string
  | Conflicts "string list"
  | NeedAdmin
  | InvalidConfig cfg_err
  | SaveFailed save_err
  | StartFailed
  | NoSegment
  | StopFirst string
  | EmptyImport
  | BadWorkType string

definition mutateService ::
  "string \<Rightarrow> (nat \<Rightarrow> ui_data \<Rightarrow> ui_err option \<times> ui_data) \<Rightarrow> ui_data \<Rightarrow> ui_err option \<times> ui_data" where
  "mutateService sid fn s = (case um_index s sid of None \<Rightarrow> (Some NoService, s) | Some r \<Rightarrow> fn r s)"

definition set_all_status :: "(svc_status \<Rightarrow> svc_status) \<Rightarrow> ui_data \<Rightarrow> ui_data" where
  "set_all_status f s =
     fold (\<lambda>r. upd_svc r (\<lambda>v. v\<lparr> ss_status := f (ss_status v) \<rparr>)) (um_services s) s"

section \<open>Hints and upgrade information\<close>

definition SetNATHint :: "bool \<Rightarrow> ui_data \<Rightarrow> ui_data" where
  "SetNATHint isNAT4 s = broadcastState (s\<lparr> um_nat := \<lparr> ni_Ready = True, ni_IsNAT4 = isNAT4 \<rparr> \<rparr>)"

definition broadcastUpgrade :: "upgrade_info \<Rightarrow> ui_data \<Rightarrow> ui_data" where
  "broadcastUpgrade info = broadcast (SseUpgrade info)"

definition setUpgradeInfo :: "bool \<Rightarrow> string \<Rightarrow> string \<Rightarrow> string \<Rightarrow> ui_data \<Rightarrow> ui_data" where
  "setUpgradeInfo need latest body downloadURL s =
     (let u0 = (um_upgrade s)\<lparr> ug_Need := need, ug_Latest := latest, ug_CheckError := [] \<rparr>;
          u1 = (if body \<noteq> [] then u0\<lparr> ug_Body := body \<rparr> else u0);
          u2 = (if downloadURL \<noteq> [] then u1\<lparr> ug_DownloadURL := downloadURL \<rparr> else u1)
      in broadcastUpgrade u2 (broadcastState (s\<lparr> um_upgrade := u2 \<rparr>)))"

definition setUpgradeCheckError :: "string \<Rightarrow> ui_data \<Rightarrow> ui_data" where
  "setUpgradeCheckError msg s =
     (let u = (um_upgrade s)\<lparr> ug_Need := False, ug_CheckError := msg \<rparr>
      in broadcastUpgrade u (broadcastState (s\<lparr> um_upgrade := u \<rparr>)))"

definition setUpgradeProgress :: "bool \<Rightarrow> int \<Rightarrow> bool \<Rightarrow> string \<Rightarrow> ui_data \<Rightarrow> ui_data" where
  "setUpgradeProgress downloading percent0 finished errStr s =
     (let percent = (let p = (if percent0 < 0 then 0 else percent0) in if p > 100 then 100 else p);
          u = (um_upgrade s)\<lparr> ug_Downloading := downloading, ug_Percent := percent, ug_Done := finished,
                              ug_Error := errStr \<rparr>;
          s1 = broadcastUpgrade u (s\<lparr> um_upgrade := u \<rparr>)
      in if \<not> downloading \<or> finished \<or> errStr \<noteq> [] then broadcastState s1 else s1)"

section \<open>Summaries\<close>

fun status_rank :: "svc_status \<Rightarrow> nat" where
  "status_rank Idle = 0"
| "status_rank Detecting = 0"
| "status_rank Starting = 1"
| "status_rank Connecting = 1"
| "status_rank Stopping = 1"
| "status_rank Connected = 2"
| "status_rank Running = 2"
| "status_rank ConnectingNAT4 = 3"
| "status_rank ConnectFailed = 3"

definition aggregateStatus :: "ui_data \<Rightarrow> svc_status" where
  "aggregateStatus s =
     fold (\<lambda>r best. if status_rank (ss_status (um_heap s r)) > status_rank best
                   then ss_status (um_heap s r) else best) (um_services s) Idle"

text \<open>\<open>label\<close> is the Chinese text of a status.\<close>

definition trayTooltip :: "(svc_status \<Rightarrow> string) \<Rightarrow> ui_data \<Rightarrow> string" where
  "trayTooltip label s =
     (if um_services s = [] then ''Goodlink'' @ ''  v'' @ um_version s
      else join_str [char_of (10 :: nat)]
        (map (\<lambda>r. uv_Name (ss_cfg (um_heap s r)) @ '' - '' @ label (ss_status (um_heap s r)))
           (um_services s)))"

definition service_active :: "ui_data \<Rightarrow> bool" where
  "service_active s \<longleftrightarrow> (\<exists>r \<in> set (um_services s). \<not> serviceIdle (um_heap s r))"

end
