(* ===== verification/Config_Args.thy ===== *)
theory Config_Args
  imports Go_Strings "HOL-Library.AList"
begin

text \<open>
  Command-line arguments that bypass the flag package (\<open>config/args.go\<close>) and the version
  (\<open>config/version.go\<close>): parsing it, expanding it into the resource description, and the
  compatibility test of two versions. JSON decoding is a parameter; an encoded document is its value.
\<close>

section \<open>The arguments of the update process\<close>

text \<open>The value \<open>strconv.Atoi\<close> returns beside its error: 0, or the nearest bound when out of range.\<close>

definition atoi_value :: "string \<Rightarrow> int" where
  "atoi_value s =
     (case atoi s of Some n \<Rightarrow> n
      | None \<Rightarrow>
          (let neg = (case s of c # _ \<Rightarrow> c = CHR ''-'' | [] \<Rightarrow> False);
               body = (case s of c # r \<Rightarrow> if c = CHR ''-'' \<or> c = CHR ''+'' then r else s | [] \<Rightarrow> [])
           in if body = [] \<or> \<not> list_all is_digit body then 0 else if neg then int_min else int_max))"

record self_update_args =
  su_zip :: string
  su_pid :: int
  su_target :: string
  su_ok :: bool

definition no_args :: self_update_args where
  "no_args = \<lparr> su_zip = [], su_pid = 0, su_target = [], su_ok = False \<rparr>"

text \<open>The cases of the \<open>switch\<close>; without a value the option takes the next argument.\<close>

datatype self_arg = AOk | AZip "string option" | APid "string option" | ATarget "string option" | AIgnored

definition self_arg_of :: "string \<Rightarrow> self_arg" where
  "self_arg_of a =
     (if a = ''--self-update'' \<or> a = ''-self-update'' then AOk
      else if has_prefix ''--self-update='' a \<or> has_prefix ''-self-update='' a then AOk
      else if a = ''--zip'' \<or> a = ''-zip'' then AZip None
      else if has_prefix ''--zip='' a then AZip (Some (trim_prefix ''--zip='' a))
      else if has_prefix ''-zip='' a then AZip (Some (trim_prefix ''-zip='' a))
      else if a = ''--wait-pid'' \<or> a = ''-wait-pid'' then APid None
      else if has_prefix ''--wait-pid='' a then APid (Some (trim_prefix ''--wait-pid='' a))
      else if has_prefix ''-wait-pid='' a then APid (Some (trim_prefix ''-wait-pid='' a))
      else if a = ''--target'' \<or> a = ''-target'' then ATarget None
      else if has_prefix ''--target='' a then ATarget (Some (trim_prefix ''--target='' a))
      else if has_prefix ''-target='' a then ATarget (Some (trim_prefix ''-target='' a))
      else AIgnored)"

fun self_update_loop :: "self_update_args \<Rightarrow> string list \<Rightarrow> self_update_args" where
  "self_update_loop r [] = r"
| "self_update_loop r (a # rest) =
     (case self_arg_of a of
        AOk \<Rightarrow> self_update_loop (r\<lparr> su_ok := True \<rparr>) rest
      | AZip (Some v) \<Rightarrow> self_update_loop (r\<lparr> su_zip := v \<rparr>) rest
      | AZip None \<Rightarrow> (case rest of [] \<Rightarrow> r | v # rest' \<Rightarrow> self_update_loop (r\<lparr> su_zip := v \<rparr>) rest')
      | APid (Some v) \<Rightarrow> self_update_loop (r\<lparr> su_pid := atoi_value v \<rparr>) rest
      | APid None \<Rightarrow>
          (case rest of [] \<Rightarrow> r | v # rest' \<Rightarrow> self_update_loop (r\<lparr> su_pid := atoi_value v \<rparr>) rest')
      | ATarget (Some v) \<Rightarrow> self_update_loop (r\<lparr> su_target := v \<rparr>) rest
      | ATarget None \<Rightarrow> (case rest of [] \<Rightarrow> r | v # rest' \<Rightarrow> self_update_loop (r\<lparr> su_target := v \<rparr>) rest')
      | AIgnored \<Rightarrow> self_update_loop r rest)"

definition ParseSelfUpdateArgs :: "string list \<Rightarrow> string \<times> int \<times> string \<times> bool" where
  "ParseSelfUpdateArgs args =
     (let r = self_update_loop no_args args in (su_zip r, su_pid r, su_target r, su_ok r))"

section \<open>The arguments of the interface\<close>

definition parse_bool :: "string \<Rightarrow> bool option" where
  "parse_bool s =
     (if s \<in> {''1'', ''t'', ''T'', ''TRUE'', ''true'', ''True''} then Some True
      else if s \<in> {''0'', ''f'', ''F'', ''FALSE'', ''false'', ''False''} then Some False
      else None)"

fun parseBoolFlag_with :: "string list \<Rightarrow> string \<Rightarrow> string \<Rightarrow> bool \<times> bool" where
  "parseBoolFlag_with [] a name = (False, False)"
| "parseBoolFlag_with (p # ps) a name =
     (if a = p @ name then (True, True)
      else if has_prefix (p @ name @ ''='') a then
        (case parse_bool (drop (length (p @ name @ ''='')) a) of
           None \<Rightarrow> (False, False)
         | Some b \<Rightarrow> (b, True))
      else parseBoolFlag_with ps a name)"

definition parseBoolFlag :: "string \<Rightarrow> string \<Rightarrow> bool \<times> bool" where
  "parseBoolFlag a name = parseBoolFlag_with [''--'', ''-''] a name"

fun ui_launch_loop :: "bool \<Rightarrow> string list \<Rightarrow> bool \<times> bool" where
  "ui_launch_loop open [] = (open, True)"
| "ui_launch_loop open (a # as) =
     (let (v, matched) = parseBoolFlag a ''no-browser'' in
      if matched then ui_launch_loop (\<not> v) as else (True, False))"

definition ParseUILaunchArgs :: "string list \<Rightarrow> bool \<times> bool" where
  "ParseUILaunchArgs args = (if args = [] then (True, False) else ui_launch_loop True args)"

text \<open>How the interface starts the update process.\<close>

definition update_command :: "string \<Rightarrow> int \<Rightarrow> string \<Rightarrow> string list" where
  "update_command zipPath pid exe =
     [''--self-update'', ''--zip'', zipPath, ''--wait-pid'', go_itoa pid, ''--target'', exe]"

section \<open>The version\<close>

datatype json = JStr string | JNum int | JObj "(string \<times> json) list" | JOther

text \<open>\<open>decode\<close> gives the \<open>Version\<close> field of the document, or fails.\<close>

fun atoi_all :: "string list \<Rightarrow> int list option" where
  "atoi_all [] = Some []"
| "atoi_all (p # ps) =
     (case atoi p of None \<Rightarrow> None | Some n \<Rightarrow> map_option (\<lambda>ns. n # ns) (atoi_all ps))"

definition parseVersionParts ::
  "(bytes \<Rightarrow> string option) \<Rightarrow> bytes \<Rightarrow> (int \<times> int \<times> int \<times> int) option" where
  "parseVersionParts decode d =
     (case decode d of
        None \<Rightarrow> None
      | Some field \<Rightarrow>
          let v = trim_space field in
          if v = [] then None
          else let parts = split_on (CHR ''.'') v in
            if length parts < 3 then None
            else (case atoi_all (take 4 parts) of
                    None \<Rightarrow> None
                  | Some ns \<Rightarrow> Some (ns ! 0, ns ! 1, ns ! 2, if length ns = 4 then ns ! 3 else 0)))"

definition dotted :: "int list \<Rightarrow> string" where
  "dotted ns = join_str ''.'' (map go_itoa ns)"

text \<open>\<open>None\<close> is the panic at start-up.\<close>

definition parseVersion :: "(bytes \<Rightarrow> string option) \<Rightarrow> bytes \<Rightarrow> string option" where
  "parseVersion decode d =
     map_option (\<lambda>(major, minor, patch, _). dotted [major, minor, patch]) (parseVersionParts decode d)"

definition as_object :: "json option \<Rightarrow> (string \<times> json) list option" where
  "as_object j = (case j of Some (JObj o') \<Rightarrow> Some o' | _ \<Rightarrow> None)"

definition expandedVersionInfoJSON ::
  "(bytes \<Rightarrow> string option) \<Rightarrow> (bytes \<Rightarrow> (string \<times> json) list option) \<Rightarrow> bytes \<Rightarrow> (string \<times> json) list option" where
  "expandedVersionInfoJSON decode decode_map d =
     (case parseVersionParts decode d of
        None \<Rightarrow> None
      | Some (major, minor, patch, build) \<Rightarrow>
          (case decode_map d of
             None \<Rightarrow> None
           | Some info0 \<Rightarrow>
               let info = AList.delete ''Version'' info0;
                   fv = JObj [(''Major'', JNum major), (''Minor'', JNum minor),
                              (''Patch'', JNum patch), (''Build'', JNum build)] in
               (case as_object (map_of info ''FixedFileInfo'') of
                  None \<Rightarrow> None
                | Some ffi \<Rightarrow>
                    let ffi' = AList.update ''ProductVersion'' fv (AList.update ''FileVersion'' fv ffi);
                        info1 = AList.update ''FixedFileInfo'' (JObj ffi') info;
                        ver = JStr (dotted [major, minor, patch, build]) in
                    (case as_object (map_of info1 ''StringFileInfo'') of
                       None \<Rightarrow> None
                     | Some sfi \<Rightarrow>
                         let sfi' = AList.update ''ProductVersion'' ver (AList.update ''FileVersion'' ver sfi)
                         in Some (AList.update ''StringFileInfo'' (JObj sfi') info1)))))"

definition VersionsCompatible :: "string \<Rightarrow> string \<Rightarrow> bool" where
  "VersionsCompatible a b =
     (let pa = split_on (CHR ''.'') a; pb = split_on (CHR ''.'') b in
      if length pa \<ge> 2 \<and> length pb \<ge> 2 then pa ! 0 = pb ! 0 \<and> pa ! 1 = pb ! 1 else a = b)"

section \<open>Facts\<close>

lemma dot_free: "CHR ''.'' \<notin> set (go_itoa n)"
proof -
  have "CHR ''.'' \<notin> set (dec_nat k)" for k
    using dec_nat_digits [of k] by (auto simp: list_all_iff is_digit_def)
  then show ?thesis by (simp add: go_itoa_def)
qed

lemma split_dotted: "ns \<noteq> [] \<Longrightarrow> split_on (CHR ''.'') (dotted ns) = map go_itoa ns"
proof (induction ns)
  case (Cons n ns)
  then show ?case
    by (cases ns) (auto simp: dotted_def split_on_absent split_on_append dot_free)
qed simp

lemma atoi_all_itoa:
  "\<forall>n \<in> set ns. int_min \<le> n \<and> n \<le> int_max \<Longrightarrow> atoi_all (map go_itoa ns) = Some ns"
  by (induction ns) (auto simp: atoi_go_itoa)

lemma go_itoa_inj [simp]: "go_itoa m = go_itoa n \<longleftrightarrow> m = n"
proof -
  have "dec_nat k \<noteq> CHR ''-'' # r" for k r
    using dec_nat_digits [of k] by (auto simp: is_digit_def)
  then show ?thesis by (auto simp: go_itoa_def dest: sym)
qed

lemma go_itoa_ends:
  "go_itoa n \<noteq> [] \<and> 32 < code (hd (go_itoa n)) \<and> code (hd (go_itoa n)) < 127 \<and>
   32 < code (last (go_itoa n)) \<and> code (last (go_itoa n)) < 127"
proof -
  have vis: "32 < code c \<and> code c < 127" if "is_digit c" for c
    using that by (simp add: is_digit_def)
  have "is_digit (hd (dec_nat k)) \<and> is_digit (last (dec_nat k))" for k
    using dec_nat_digits [of k] by (auto simp: list_all_iff)
  with vis show ?thesis by (simp add: go_itoa_def)
qed

lemma trim_dotted:
  assumes "ns \<noteq> []"
  shows "trim_space (dotted ns) = dotted ns \<and> dotted ns \<noteq> []"
proof -
  have hd: "dotted ns \<noteq> [] \<and> hd (dotted ns) = hd (go_itoa (hd ns))"
    using assms go_itoa_ends by (cases ns rule: remdups_adj.cases) (auto simp: dotted_def)
  have last: "last (dotted ns) = last (go_itoa (last ns))"
    using assms
  proof (induction ns)
    case (Cons n ns)
    show ?case
    proof (cases ns)
      case (Cons m ms)
      have "dotted (n # ns) = go_itoa n @ ''.'' @ dotted ns" by (simp add: dotted_def Cons)
      moreover have "dotted ns \<noteq> []"
        using go_itoa_ends [of m] by (cases ms) (auto simp: dotted_def Cons)
      ultimately show ?thesis using Cons.IH Cons by simp
    qed (simp add: dotted_def)
  qed simp
  show ?thesis using hd last go_itoa_ends by (auto intro: trim_space_id)
qed

lemma version_parts_roundtrip:
  assumes "decode d = Some (dotted ns)" "length ns = 3 \<or> length ns = 4"
    and "\<forall>n \<in> set ns. int_min \<le> n \<and> n \<le> int_max"
  shows "parseVersionParts decode d =
    Some (ns ! 0, ns ! 1, ns ! 2, if length ns = 4 then ns ! 3 else 0)"
proof -
  have ne: "ns \<noteq> []" using assms(2) by auto
  have "atoi_all (take 4 (map go_itoa ns)) = Some ns"
    using assms(2) atoi_all_itoa [OF assms(3)] by auto
  then show ?thesis
    using assms(1,2) trim_dotted [OF ne] split_dotted [OF ne] by (auto simp: parseVersionParts_def)
qed

lemma self_arg_of_command [simp]:
  "self_arg_of ''--self-update'' = AOk"
  "self_arg_of ''--zip'' = AZip None"
  "self_arg_of ''--wait-pid'' = APid None"
  "self_arg_of ''--target'' = ATarget None"
  by (simp_all add: self_arg_of_def has_prefix_def)

section \<open>The properties\<close>

text \<open>The update process reads back exactly what the interface put on its command line: the archive,
  the process to wait for and the program to replace, whatever the paths are, even when they look
  like options themselves.\<close>
theorem update_command_parses_back:
  assumes "int_min \<le> pid" "pid \<le> int_max"
  shows "ParseSelfUpdateArgs (update_command zipPath pid exe) = (zipPath, pid, exe, True)"
  using assms
  by (simp add: ParseSelfUpdateArgs_def update_command_def no_args_def atoi_value_def atoi_go_itoa)

theorem update_command_parses_back_witness:
  "ParseSelfUpdateArgs (update_command ''--target'' 4711 ''-zip=x'') = (''--target'', 4711, ''-zip=x'', True)"
  using update_command_parses_back [of 4711 "''--target''" "''-zip=x''"]
  by (simp add: int_min_def int_max_def)

text \<open>Compatibility of versions is an equivalence, and two versions written \<open>major.minor.patch\<close> are
  compatible exactly when their major and minor numbers agree.\<close>
theorem versions_compatible_equivalence:
  "equivp VersionsCompatible \<and>
   (VersionsCompatible (dotted [a, b, c]) (dotted [a', b', c']) = (a = a' \<and> b = b'))"
proof
  show "equivp VersionsCompatible"
    by (rule equivpI; unfold reflp_def symp_def transp_def)
      (auto simp: VersionsCompatible_def Let_def split: if_splits)
  show "VersionsCompatible (dotted [a, b, c]) (dotted [a', b', c']) = (a = a' \<and> b = b')"
    by (simp add: VersionsCompatible_def split_dotted)
qed

end
