(* ===== verification/Ui_Worker.thy ===== *)
theory Ui_Worker
  imports Ui_State Config_Args
begin

text \<open>
  The worker processes of the interface: \<open>ui2/start.go\<close> up to and including the automatic restart, and
  the pid files and process table of \<open>utils/killcmd.go\<close>. A command is a number never used twice, which
  is also the pid of its process; the process table holds every live process with the service it works
  for. Goroutines that are under way are a list of tasks, each standing for one critical section still to
  be run; sleeping only delays a task.
\<close>

section \<open>State\<close>

record svc_proc =
  sp_cmd :: "nat option"
  sp_gen :: nat
  sp_started :: bool
  sp_autoRestart :: bool

definition new_proc :: svc_proc where
  "new_proc = \<lparr> sp_cmd = None, sp_gen = 0, sp_started = False, sp_autoRestart = False \<rparr>"

text \<open>
  \<open>TWait\<close>, \<open>TRestart\<close>, \<open>TExitReset\<close>, \<open>TExitCheck\<close> and \<open>TExitIdle\<close> are the stages of
  \<open>waitForProcessAndHandleExit\<close>, \<open>TReader\<close> is a scanner over the output of a command, \<open>TStopLater\<close> the
  delayed stop after a status message, and the last three the goroutine of \<open>HandleStop\<close>.
\<close>

datatype ui_task =
    TWait string nat nat
  | TRestart string
  | TExitReset string
  | TExitCheck string
  | TExitIdle string
  | TReader string nat
  | TStopLater string
  | TStop string
  | TStopReset string
  | TStopIdle string

text \<open>Pid files by directory (the program's, or the one for application data) and file name.\<close>

type_synonym pid_files = "((bool \<times> string) \<times> string) list"

record ui_sys =
  us_data :: ui_data
  us_procs :: "(string \<times> svc_proc) list"
  us_pids :: pid_files
  us_alive :: "(nat \<times> string option) list"
  us_next :: nat
  us_tasks :: "ui_task list"
  us_files :: save_files
  us_backup :: "string option"

text \<open>
  What a call meets outside: random ids and keys, JSON encoding, the file operations of saving, occupied
  listeners, whether the worker could be started, which of the two pid directories can be written, and
  which processes run the program's own image.
\<close>

datatype backup_outcome = BackupNone | BackupPart nat | BackupAll

record ui_env =
  en_fresh :: "nat \<Rightarrow> string"
  en_key :: "nat \<Rightarrow> string"
  en_marshal :: "ui_config \<Rightarrow> string"
  en_save :: save_outcome
  en_backup :: backup_outcome
  en_occupied :: "bool \<Rightarrow> string \<Rightarrow> bool"
  en_start :: bool
  en_exe :: bool
  en_app :: bool
  en_image :: "nat \<Rightarrow> bool"

definition on_data :: "(ui_data \<Rightarrow> ui_data) \<Rightarrow> ui_sys \<Rightarrow> ui_sys" where
  "on_data f s = s\<lparr> us_data := f (us_data s) \<rparr>"

definition spawn :: "ui_task list \<Rightarrow> ui_sys \<Rightarrow> ui_sys" where
  "spawn ts s = s\<lparr> us_tasks := us_tasks s @ ts \<rparr>"

section \<open>Pid files and processes\<close>

definition workerPidName :: "string \<Rightarrow> string" where
  "workerPidName sid =
     (let i = map (\<lambda>r. if r = CHR ''/'' \<or> r = char_of (92 :: nat) \<or> r = CHR '':'' then CHR ''_'' else r) sid
      in ''goodlink-worker-'' @ (if i = [] then ''default'' else i) @ ''.pid'')"

definition WriteWorkerPid :: "ui_env \<Rightarrow> string \<Rightarrow> nat \<Rightarrow> pid_files \<Rightarrow> pid_files" where
  "WriteWorkerPid env sid pid fs =
     (let name = workerPidName sid; content = dec_nat pid in
      if pid = 0 then fs
      else if en_exe env then AList.update (True, name) content fs
      else if en_app env then AList.update (False, name) content fs
      else fs)"

definition RemoveWorkerPid :: "string \<Rightarrow> pid_files \<Rightarrow> pid_files" where
  "RemoveWorkerPid sid fs =
     (let name = workerPidName sid in filter (\<lambda>f. fst f \<noteq> (True, name) \<and> fst f \<noteq> (False, name)) fs)"

text \<open>The names the glob pattern and the file of earlier versions select.\<close>

definition pid_candidate :: "bool \<times> string \<Rightarrow> bool" where
  "pid_candidate f \<longleftrightarrow>
     has_prefix ''goodlink-worker-'' (snd f) \<and> has_suffix ''.pid'' (snd f) \<and>
       length ''goodlink-worker-.pid'' \<le> length (snd f) \<or>
     snd f = ''goodlink-worker.pid'' \<or> f = (False, ''worker.pid'')"

definition RemoveAllWorkerPids :: "pid_files \<Rightarrow> pid_files" where
  "RemoveAllWorkerPids fs = filter (\<lambda>f. \<not> pid_candidate (fst f)) fs"

definition KillProcess :: "nat \<Rightarrow> ui_sys \<Rightarrow> ui_sys" where
  "KillProcess pid s = (if pid = 0 then s else s\<lparr> us_alive := filter (\<lambda>p. fst p \<noteq> pid) (us_alive s) \<rparr>)"

text \<open>\<open>Sscanf\<close> with one \<open>%d\<close>: a sign and the digits in front.\<close>

definition scan_int :: "string \<Rightarrow> int option" where
  "scan_int s =
     (let sign = (case s of c # _ \<Rightarrow> c = CHR ''-'' \<or> c = CHR ''+'' | [] \<Rightarrow> False);
          body = takeWhile is_digit (if sign then tl s else s)
      in if body = [] then None else atoi ((if sign then [hd s] else []) @ body))"

definition processAlive :: "nat \<Rightarrow> ui_sys \<Rightarrow> bool" where
  "processAlive pid s \<longleftrightarrow> 0 < pid \<and> pid \<in> fst ` set (us_alive s)"

definition cleanup_pid_file :: "ui_env \<Rightarrow> (bool \<times> string) \<times> string \<Rightarrow> ui_sys \<Rightarrow> ui_sys" where
  "cleanup_pid_file env f s =
     (let gone = s\<lparr> us_pids := filter (\<lambda>g. fst g \<noteq> fst f) (us_pids s) \<rparr> in
      case scan_int (trim_space (snd f)) of
        None \<Rightarrow> gone
      | Some pid \<Rightarrow>
          if pid \<le> 0 then gone
          else if \<not> processAlive (nat pid) s then gone
          else if \<not> en_image env (nat pid) then s
          else KillProcess (nat pid) gone)"

definition CleanupOrphanedCmdProcesses :: "ui_env \<Rightarrow> ui_sys \<Rightarrow> ui_sys" where
  "CleanupOrphanedCmdProcesses env s =
     fold (cleanup_pid_file env) (filter (\<lambda>f. pid_candidate (fst f)) (us_pids s)) s"

section \<open>Process records\<close>

definition proc_of :: "string \<Rightarrow> ui_sys \<Rightarrow> svc_proc" where
  "proc_of sid s = (case map_of (us_procs s) sid of None \<Rightarrow> new_proc | Some p \<Rightarrow> p)"

definition set_proc :: "string \<Rightarrow> svc_proc \<Rightarrow> ui_sys \<Rightarrow> ui_sys" where
  "set_proc sid p s = s\<lparr> us_procs := AList.update sid p (us_procs s) \<rparr>"

text \<open>Looking a record up creates it.\<close>

definition procOf :: "string \<Rightarrow> ui_sys \<Rightarrow> svc_proc \<times> ui_sys" where
  "procOf sid s = (proc_of sid s, set_proc sid (proc_of sid s) s)"

definition mod_proc :: "string \<Rightarrow> (svc_proc \<Rightarrow> svc_proc) \<Rightarrow> ui_sys \<Rightarrow> ui_sys" where
  "mod_proc sid f s = (case procOf sid s of (p, s1) \<Rightarrow> set_proc sid (f p) s1)"

definition disableAutoRestart :: "string \<Rightarrow> ui_sys \<Rightarrow> ui_sys" where
  "disableAutoRestart sid = mod_proc sid (\<lambda>p. p\<lparr> sp_autoRestart := False \<rparr>)"

definition stopServiceProcess :: "string \<Rightarrow> ui_sys \<Rightarrow> ui_sys" where
  "stopServiceProcess sid s =
     (case procOf sid s of
        (p, s1) \<Rightarrow>
          (let s2 = set_proc sid (p\<lparr> sp_autoRestart := False, sp_cmd := None, sp_started := False \<rparr>) s1;
               s3 = s2\<lparr> us_pids := RemoveWorkerPid sid (us_pids s2) \<rparr>
           in case sp_cmd p of None \<Rightarrow> s3 | Some cmd \<Rightarrow> KillProcess cmd s3))"

definition StopCmdProcess :: "ui_env \<Rightarrow> ui_sys \<Rightarrow> ui_sys" where
  "StopCmdProcess env s =
     (let ids = map fst (us_procs s);
          s1 = fold (\<lambda>(sid, p). case sp_cmd p of None \<Rightarrow> id | Some cmd \<Rightarrow> KillProcess cmd) (us_procs s) s;
          s2 = s1\<lparr> us_procs := map (\<lambda>(sid, p). (sid, p\<lparr> sp_cmd := None, sp_started := False,
                                                       sp_autoRestart := False \<rparr>)) (us_procs s1) \<rparr>;
          s3 = on_data (fold (\<lambda>sid d. setServiceStatus sid Idle (resetProxyListen sid d)) ids) s2;
          s4 = CleanupOrphanedCmdProcesses env s3
      in s4\<lparr> us_pids := RemoveAllWorkerPids (us_pids s4) \<rparr>)"

section \<open>The output of a worker\<close>

datatype pro_status =
    ProConnecting | ProConnectingNAT4 | ProConnected | ProRunning | ProVersionMismatch
  | ProTransportMismatch | ProNeedAdmin | ProConnectFailed

definition pro_status_of :: "int \<Rightarrow> pro_status option" where
  "pro_status_of n = map_of
     [(1, ProConnecting), (2, ProConnectingNAT4), (3, ProConnected), (4, ProRunning),
      (5, ProVersionMismatch), (6, ProTransportMismatch), (7, ProNeedAdmin), (8, ProConnectFailed)] n"

definition TagStatusPrefix :: string where "TagStatusPrefix = ''[GOODLINK_STATUS]''"
definition TagProxyPrefix :: string where "TagProxyPrefix = ''[GOODLINK_PROXY]''"

definition parseStatusMessage :: "string \<Rightarrow> pro_status option" where
  "parseStatusMessage line =
     (case index_of TagStatusPrefix line of
        None \<Rightarrow> None
      | Some idx \<Rightarrow>
          (case atoi (trim_space (drop (idx + length TagStatusPrefix) line)) of
             None \<Rightarrow> None
           | Some n \<Rightarrow> pro_status_of n))"

definition parseProxyMessage :: "string \<Rightarrow> string option" where
  "parseProxyMessage line =
     (case index_of TagProxyPrefix line of
        None \<Rightarrow> None
      | Some idx \<Rightarrow>
          (let addr = trim_space (drop (idx + length TagProxyPrefix) line)
           in if addr = [] then None else Some addr))"

text \<open>The part several messages share: no restart, a log line, and a stop half a second later.\<close>

definition give_up_later :: "string \<Rightarrow> log_line \<Rightarrow> ui_sys \<Rightarrow> ui_sys" where
  "give_up_later sid msg s =
     spawn [TStopLater sid] (on_data (appendLogEntry sid msg) (disableAutoRestart sid s))"

definition updateConnectionStatus :: "string \<Rightarrow> pro_status \<Rightarrow> ui_sys \<Rightarrow> ui_sys" where
  "updateConnectionStatus sid st s =
     (let name = serviceName sid (us_data s) in
      case st of
        ProConnecting \<Rightarrow> on_data (setServiceStatus sid Connecting) s
      | ProConnected \<Rightarrow> on_data (setServiceStatus sid Connected) s
      | ProConnectingNAT4 \<Rightarrow>
          give_up_later sid (LogNAT4Stopped name) (on_data (setServiceStatus sid ConnectingNAT4) s)
      | ProConnectFailed \<Rightarrow>
          give_up_later sid (LogConnectFailed name) (on_data (setServiceStatus sid ConnectFailed) s)
      | ProRunning \<Rightarrow> on_data (setServiceStatus sid Running) s
      | ProVersionMismatch \<Rightarrow> give_up_later sid (LogVersionMismatch name) s
      | ProTransportMismatch \<Rightarrow> give_up_later sid (LogTransportMismatch name) s
      | ProNeedAdmin \<Rightarrow> give_up_later sid (LogNeedAdmin name) s)"

definition handle_line :: "string \<Rightarrow> string \<Rightarrow> ui_sys \<Rightarrow> ui_sys" where
  "handle_line sid line s =
     (case parseProxyMessage line of
        Some addr \<Rightarrow> on_data (setProxyListen sid addr) s
      | None \<Rightarrow>
          (case parseStatusMessage line of
             Some st \<Rightarrow> updateConnectionStatus sid st s
           | None \<Rightarrow> on_data (appendLogEntry sid (LogRaw line)) s))"

section \<open>Starting and waiting\<close>

definition startCmdProcess :: "ui_env \<Rightarrow> string \<Rightarrow> ui_sys \<Rightarrow> (nat \<times> nat) option \<times> ui_sys" where
  "startCmdProcess env sid s0 =
     (if \<not> en_start env then (None, s0)
      else let cmd = us_next s0;
               s = s0\<lparr> us_next := Suc cmd, us_alive := (cmd, Some sid) # us_alive s0 \<rparr> in
        case procOf sid s of
          (p, s1) \<Rightarrow>
            (let gen = sp_gen p + 1;
                 s2 = set_proc sid (p\<lparr> sp_gen := gen, sp_cmd := Some cmd, sp_started := True \<rparr>) s1;
                 s3 = s2\<lparr> us_pids := WriteWorkerPid env sid cmd (us_pids s2) \<rparr>
             in (Some (cmd, gen), spawn [TReader sid cmd, TReader sid cmd] s3)))"

text \<open>The critical section after \<open>Wait\<close> has returned.\<close>

definition waiter_exit :: "string \<Rightarrow> nat \<Rightarrow> nat \<Rightarrow> ui_sys \<Rightarrow> ui_sys" where
  "waiter_exit sid cmd gen s =
     (case procOf sid s of
        (p, s1) \<Rightarrow>
          (let mine = sp_gen p = gen;
               abnormal = mine \<and> sp_started p \<and> sp_autoRestart p in
           if \<not> mine then s1
           else let s2 = set_proc sid (p\<lparr> sp_started := False,
                            sp_cmd := (if sp_cmd p = Some cmd then None else sp_cmd p) \<rparr>) s1;
                    s3 = s2\<lparr> us_pids := RemoveWorkerPid sid (us_pids s2) \<rparr>
                in spawn [if abnormal then TRestart sid else TExitReset sid] s3))"

definition autoRestartProcess :: "ui_env \<Rightarrow> string \<Rightarrow> ui_sys \<Rightarrow> ui_sys" where
  "autoRestartProcess env sid s0 =
     (case procOf sid s0 of
        (p, s1) \<Rightarrow>
          if \<not> (sp_autoRestart p \<and> \<not> sp_started p) then s1
          else let s2 = on_data (appendLogEntry sid (LogRestarting (serviceName sid (us_data s1)))) s1;
                   s3 = on_data (resetProxyListen sid) s2 in
            case startCmdProcess env sid s3 of
              (None, s4) \<Rightarrow>
                (let s5 = on_data (appendLogEntry sid (LogRestartFailed (serviceName sid (us_data s4)))) s4;
                     s6 = mod_proc sid (\<lambda>p. p\<lparr> sp_started := False, sp_autoRestart := False \<rparr>) s5
                 in on_data (setServiceStatus sid Idle) s6)
            | (Some (cmd, gen), s4) \<Rightarrow> spawn [TWait sid cmd gen] s4)"

definition HandleStop :: "string \<Rightarrow> ui_sys \<Rightarrow> ui_sys" where
  "HandleStop sid s0 =
     (case procOf sid s0 of
        (p, s) \<Rightarrow>
          if \<not> sp_started p then
            (let st = getServiceStatus sid (us_data s) in
             if st = ConnectFailed \<or> st = ConnectingNAT4
             then on_data (setServiceStatus sid Idle \<circ> resetProxyListen sid) s else s)
          else spawn [TStop sid] (disableAutoRestart sid (on_data (setServiceStatus sid Stopping) s)))"

text \<open>
  One step of a task that has been taken from the list; the text is the line a reader scanned. A waiter
  and the end of a reader wait for the process, so they are not run while it lives.
\<close>

definition task_ready :: "ui_task \<Rightarrow> ui_sys \<Rightarrow> bool" where
  "task_ready t s \<longleftrightarrow>
     (case t of TWait sid cmd gen \<Rightarrow> \<not> processAlive cmd s | TReader sid cmd \<Rightarrow> \<not> processAlive cmd s | _ \<Rightarrow> True)"

fun run_task :: "ui_env \<Rightarrow> ui_task \<Rightarrow> ui_sys \<Rightarrow> ui_sys" where
  "run_task env (TWait sid cmd gen) s = waiter_exit sid cmd gen s"
| "run_task env (TRestart sid) s = autoRestartProcess env sid s"
| "run_task env (TExitReset sid) s = spawn [TExitCheck sid] (on_data (resetProxyListen sid) s)"
| "run_task env (TExitCheck sid) s =
     (let st = getServiceStatus sid (us_data s)
      in if st \<noteq> ConnectFailed \<and> st \<noteq> ConnectingNAT4 \<and> st \<noteq> Stopping then spawn [TExitIdle sid] s else s)"
| "run_task env (TExitIdle sid) s = on_data (setServiceStatus sid Idle) s"
| "run_task env (TReader sid cmd) s = s"
| "run_task env (TStopLater sid) s = stopServiceProcess sid s"
| "run_task env (TStop sid) s = spawn [TStopReset sid] (stopServiceProcess sid s)"
| "run_task env (TStopReset sid) s = spawn [TStopIdle sid] (on_data (resetProxyListen sid) s)"
| "run_task env (TStopIdle sid) s = on_data (setServiceStatus sid Idle) s"

end
