(* ===== verification/Ui_Handlers.thy ===== *)
theory Ui_Handlers
  imports Ui_Worker
begin

text \<open>
  The operations the interface offers on services, \<open>ui2/start.go\<close> from \<open>saveAllConfig\<close> on, and
  \<open>ui2/ui.go\<close>: start, stop, automatic start, forwarding rules, rename, create, delete, update and
  import of a configuration, and the initialisation. Every handler returns its error, if any, and the
  state; validation and saving work on a copy of the configuration, exactly as in the source, so what a
  failed handler leaves in memory is visible.
\<close>

section \<open>Saving\<close>

definition save_config :: "ui_env \<Rightarrow> ui_config \<Rightarrow> ui_sys \<Rightarrow> save_err option \<times> ui_config \<times> ui_sys" where
  "save_config env cfg s =
     (case SaveUIConfig (en_fresh env) (en_marshal env) (en_save env) (us_files s) cfg of
        (err, f, cfg') \<Rightarrow> (err, cfg', s\<lparr> us_files := f \<rparr>))"

definition saveAllConfig :: "ui_env \<Rightarrow> ui_sys \<Rightarrow> save_err option \<times> ui_sys" where
  "saveAllConfig env s =
     (case save_config env (allServicesConfig (us_data s)) s of (err, cfg', s') \<Rightarrow> (err, s'))"

text \<open>The handlers' common middle part: validate a copy of the services and save it.\<close>

definition validate_and_save ::
  "ui_env \<Rightarrow> ui_config \<Rightarrow> ui_sys \<Rightarrow> ui_err option \<times> ui_config \<times> ui_sys" where
  "validate_and_save env cfg0 s =
     (case NormalizeAndValidate (en_fresh env) cfg0 of
        (Some e, cfg) \<Rightarrow> (Some (InvalidConfig e), cfg, s)
      | (None, cfg) \<Rightarrow>
          (case save_config env cfg s of (err, cfg', s') \<Rightarrow> (map_option SaveFailed err, cfg', s')))"

definition mutate ::
  "string \<Rightarrow> (nat \<Rightarrow> ui_data \<Rightarrow> ui_err option \<times> ui_data) \<Rightarrow> ui_sys \<Rightarrow> ui_err option \<times> ui_sys" where
  "mutate sid fn s = (case mutateService sid fn (us_data s) of (e, d) \<Rightarrow> (e, s\<lparr> us_data := d \<rparr>))"

text \<open>A mutation that cannot fail, and whose missing service is ignored.\<close>

definition set_cfg :: "string \<Rightarrow> (ui_service \<Rightarrow> ui_service) \<Rightarrow> ui_sys \<Rightarrow> ui_sys" where
  "set_cfg sid f s = snd (mutate sid (\<lambda>r d. (None, upd_cfg r f d)) s)"

section \<open>Start and stop\<close>

definition duplicateKey :: "string \<Rightarrow> string \<Rightarrow> ui_data \<Rightarrow> string" where
  "duplicateKey sid tunKey0 s =
     (let tunKey = trim_space tunKey0 in
      if tunKey = [] then []
      else case find (\<lambda>c. uv_ID c \<noteq> sid \<and> trim_space (uv_TunKey c) = tunKey) (allServicesConfig s) of
             None \<Rightarrow> [] | Some c \<Rightarrow> uv_Name c)"

text \<open>The settings a request carries.\<close>

record svc_request =
  rq_WorkType :: string
  rq_TunKey :: string
  rq_LocalMode :: string
  rq_Transport :: string
  rq_ForwardRules :: "ui_rule list"
  rq_AllowLocalProxy :: "bool option"

definition start_candidate :: "svc_request \<Rightarrow> ui_service \<Rightarrow> ui_service" where
  "start_candidate rq prev =
     (let wt = trim_space (rq_WorkType rq) in
      prev\<lparr> uv_WorkType := (if wt \<noteq> workTypeLocal \<and> wt \<noteq> workTypeRemote then workTypeLocal else wt),
            uv_TunKey := (if trim_space (rq_TunKey rq) \<noteq> [] then trim_space (rq_TunKey rq) else uv_TunKey prev),
            uv_LocalMode := rq_LocalMode rq, uv_Transport := rq_Transport rq,
            uv_ForwardRules := rq_ForwardRules rq,
            uv_AllowLocalProxy := (if rq_AllowLocalProxy rq \<noteq> None then rq_AllowLocalProxy rq
                                   else uv_AllowLocalProxy prev) \<rparr>)"

text \<open>The checks in their order; a duplicate whose service has an empty name is not noticed.\<close>

definition start_checks ::
  "ui_env \<Rightarrow> string \<Rightarrow> svc_request \<Rightarrow> ui_service \<Rightarrow> ui_data \<Rightarrow> ui_err option" where
  "start_checks env sid rq next d =
     (let other = duplicateKey sid (uv_TunKey next) d;
          conflicts = ListenConflicts (en_occupied env) (rq_ForwardRules rq) [] in
      if other \<noteq> [] then Some (KeyOf other)
      else if uv_WorkType next = workTypeLocal \<and> uv_LocalMode next = LocalModeForward \<and> conflicts \<noteq> []
      then Some (Conflicts conflicts)
      else if uv_WorkType next = workTypeLocal \<and> uv_LocalMode next = LocalModeTUN \<and> \<not> um_admin d
      then Some NeedAdmin else None)"

text \<open>Writing the candidate, validating, saving, and rolling back to \<open>prev\<close> when that fails.\<close>

definition start_commit :: "ui_env \<Rightarrow> string \<Rightarrow> ui_service \<Rightarrow> ui_service \<Rightarrow> ui_sys \<Rightarrow> ui_err option \<times> ui_sys" where
  "start_commit env sid prev next s =
     (let s1 = set_cfg sid (\<lambda>c. c\<lparr> uv_WorkType := uv_WorkType next, uv_TunKey := uv_TunKey next,
                 uv_LocalMode := uv_LocalMode next, uv_Transport := uv_Transport next,
                 uv_ForwardRules := uv_ForwardRules next, uv_AllowLocalProxy := uv_AllowLocalProxy next \<rparr>) s
      in case validate_and_save env (allServicesConfig (us_data s1)) s1 of
           (Some e, cfg, s2) \<Rightarrow> (Some e, set_cfg sid (\<lambda>_. prev) s2)
         | (None, cfg, s2) \<Rightarrow>
             (None, (case FindService cfg sid of Some c \<Rightarrow> set_cfg sid (\<lambda>_. c) s2 | None \<Rightarrow> s2)))"

definition start_launch :: "ui_env \<Rightarrow> string \<Rightarrow> string \<Rightarrow> ui_sys \<Rightarrow> ui_err option \<times> ui_sys" where
  "start_launch env sid wt s =
     (let s1 = on_data (setServiceStatus sid (if wt = workTypeLocal then Connecting else Starting)
                        \<circ> resetProxyListen sid) s;
          s2 = mod_proc sid (\<lambda>p. p\<lparr> sp_autoRestart := True \<rparr>) s1
      in case startCmdProcess env sid s2 of
           (None, s3) \<Rightarrow>
             (let s4 = on_data (appendLogEntry sid (LogStartFailed (serviceName sid (us_data s3)))) s3;
                  s5 = mod_proc sid (\<lambda>p. p\<lparr> sp_started := False, sp_autoRestart := False \<rparr>) s4
              in (Some StartFailed, on_data (setServiceStatus sid Idle \<circ> resetProxyListen sid) s5))
         | (Some (cmd, gen), s3) \<Rightarrow> (None, spawn [TWait sid cmd gen] s3))"

definition HandleStart :: "ui_env \<Rightarrow> string \<Rightarrow> svc_request \<Rightarrow> ui_sys \<Rightarrow> ui_err option \<times> ui_sys" where
  "HandleStart env sid rq s0 =
     (case procOf sid s0 of
        (p, s) \<Rightarrow>
          (let st = getServiceStatus sid (us_data s) in
           if sp_started p then (Some AlreadyStarted, s)
           else if st = Detecting \<or> st = Stopping then (Some UiBusy, s)
           else case lookupService sid (us_data s) of
             None \<Rightarrow> (Some NoService, s)
           | Some cur \<Rightarrow>
               (let prev = ss_cfg cur; next = start_candidate rq prev in
                case start_checks env sid rq next (us_data s) of
                  Some e \<Rightarrow> (Some e, s)
                | None \<Rightarrow>
                    (case start_commit env sid prev next s of
                       (Some e, s1) \<Rightarrow> (Some e, s1)
                     | (None, s1) \<Rightarrow> start_launch env sid (uv_WorkType next) s1))))"

definition auto_request :: "ui_service \<Rightarrow> svc_request" where
  "auto_request c =
     \<lparr> rq_WorkType = uv_WorkType c, rq_TunKey = uv_TunKey c, rq_LocalMode = uv_LocalMode c,
       rq_Transport = uv_Transport c, rq_ForwardRules = uv_ForwardRules c,
       rq_AllowLocalProxy = uv_AllowLocalProxy c \<rparr>"

definition empty_request :: svc_request where
  "empty_request = \<lparr> rq_WorkType = [], rq_TunKey = [], rq_LocalMode = [], rq_Transport = [],
     rq_ForwardRules = [], rq_AllowLocalProxy = None \<rparr>"

definition auto_start_one :: "ui_env \<Rightarrow> string \<Rightarrow> ui_sys \<Rightarrow> ui_sys" where
  "auto_start_one env sid s =
     (let name = serviceName sid (us_data s);
          s1 = on_data (appendLogEntry sid (LogAutoStarting name)) s;
          rq = (case lookupService sid (us_data s1) of Some v \<Rightarrow> auto_request (ss_cfg v) | None \<Rightarrow> empty_request)
      in case HandleStart env sid rq s1 of
           (None, s2) \<Rightarrow> s2
         | (Some e, s2) \<Rightarrow> on_data (appendLogEntry sid (LogAutoStartFailed name)) s2)"

definition tryAutoStart :: "(string \<Rightarrow> ui_env) \<Rightarrow> ui_sys \<Rightarrow> ui_sys" where
  "tryAutoStart envs s =
     fold (\<lambda>sid. auto_start_one (envs sid) sid)
       (map uv_ID (filter uv_AutoStart (allServicesConfig (us_data s)))) s"

section \<open>Changing the configuration\<close>

definition HandleForwards ::
  "ui_env \<Rightarrow> string \<Rightarrow> string \<Rightarrow> ui_rule list \<Rightarrow> ui_sys \<Rightarrow> ui_err option \<times> ui_sys" where
  "HandleForwards env sid localMode rules s =
     (case mutate sid (\<lambda>r d.
          let v = um_heap d r in
          if \<not> serviceIdle v \<and> ss_status v \<noteq> Connected \<and> ss_status v \<noteq> Connecting \<and>
             ss_status v \<noteq> Running \<and> ss_status v \<noteq> Starting
          then (Some UiBusy, d)
          else (None, upd_cfg r (\<lambda>c. c\<lparr> uv_LocalMode := localMode, uv_ForwardRules := rules \<rparr>) d)) s of
        (Some e, s1) \<Rightarrow> (Some e, s1)
      | (None, s1) \<Rightarrow> (case validate_and_save env (allServicesConfig (us_data s1)) s1 of (e, cfg, s2) \<Rightarrow> (e, s2)))"

definition clearOtherAutoStart :: "string \<Rightarrow> ui_data \<Rightarrow> ui_data" where
  "clearOtherAutoStart keepID d =
     fold (\<lambda>r. upd_cfg r (\<lambda>c. if uv_ID c \<noteq> keepID then c\<lparr> uv_AutoStart := False \<rparr> else c))
       (um_services d) d"

text \<open>The settings taken over from a request that may only change an idle service.\<close>

definition take_settings :: "svc_request \<Rightarrow> ui_service \<Rightarrow> ui_service" where
  "take_settings rq c =
     c\<lparr> uv_WorkType := (if rq_WorkType rq = workTypeLocal \<or> rq_WorkType rq = workTypeRemote
                        then rq_WorkType rq else uv_WorkType c),
        uv_TunKey := (if trim_space (rq_TunKey rq) \<noteq> [] then trim_space (rq_TunKey rq) else uv_TunKey c),
        uv_LocalMode := rq_LocalMode rq, uv_Transport := rq_Transport rq,
        uv_ForwardRules := rq_ForwardRules rq,
        uv_AllowLocalProxy := (if rq_AllowLocalProxy rq \<noteq> None then rq_AllowLocalProxy rq
                               else uv_AllowLocalProxy c) \<rparr>"

definition HandleSetAutoStart ::
  "ui_env \<Rightarrow> string \<Rightarrow> bool \<Rightarrow> svc_request \<Rightarrow> ui_sys \<Rightarrow> ui_err option \<times> ui_sys" where
  "HandleSetAutoStart env sid autoStart rq s =
     (case mutate sid (\<lambda>r d.
          let d1 = upd_cfg r (\<lambda>c. c\<lparr> uv_AutoStart := autoStart \<rparr>) d;
              d2 = (if autoStart then clearOtherAutoStart sid d1 else d1)
          in (None, if serviceIdle (um_heap d2 r) then upd_cfg r (take_settings rq) d2 else d2)) s of
        (Some e, s1) \<Rightarrow> (Some e, s1)
      | (None, s1) \<Rightarrow>
          (case validate_and_save env (allServicesConfig (us_data s1)) s1 of
             (Some e, cfg, s2) \<Rightarrow> (Some e, s2)
           | (None, cfg, s2) \<Rightarrow>
               (let s3 = on_data broadcastState s2 in
                (None, if autoStart
                       then on_data (appendLogEntry sid (LogAutoStartOn (serviceName sid (us_data s3)))) s3
                       else s3))))"

definition HandleRename :: "ui_env \<Rightarrow> string \<Rightarrow> string \<Rightarrow> ui_sys \<Rightarrow> ui_err option \<times> ui_sys" where
  "HandleRename env sid name s =
     (case mutate sid (\<lambda>r d. (None, upd_cfg r (\<lambda>c. c\<lparr> uv_Name := name \<rparr>) d)) s of
        (Some e, s1) \<Rightarrow> (Some e, s1)
      | (None, s1) \<Rightarrow>
          (case validate_and_save env (allServicesConfig (us_data s1)) s1 of
             (Some e, cfg, s2) \<Rightarrow> (Some e, s2)
           | (None, cfg, s2) \<Rightarrow>
               (let s3 = (case FindService cfg sid of
                            Some c' \<Rightarrow> set_cfg sid (\<lambda>c. c\<lparr> uv_Name := uv_Name c' \<rparr>) s2
                          | None \<Rightarrow> s2);
                    s4 = on_data broadcastState s3
                in (None, on_data (appendLogEntry sid (LogRenamed (serviceName sid (us_data s4)))) s4))))"

definition HandleUpdateConfig ::
  "ui_env \<Rightarrow> string \<Rightarrow> svc_request \<Rightarrow> bool \<Rightarrow> ui_sys \<Rightarrow> ui_err option \<times> ui_sys" where
  "HandleUpdateConfig env sid rq autoStart s =
     (case mutate sid (\<lambda>r d.
          if \<not> serviceIdle (um_heap d r) then (Some UiBusy, d)
          else let d1 = upd_cfg r (\<lambda>c. (take_settings rq c)\<lparr> uv_AutoStart := autoStart \<rparr>) d
               in (None, if autoStart then clearOtherAutoStart sid d1 else d1)) s of
        (Some e, s1) \<Rightarrow> (Some e, s1)
      | (None, s1) \<Rightarrow>
          (case validate_and_save env (allServicesConfig (us_data s1)) s1 of
             (Some e, cfg, s2) \<Rightarrow> (Some e, s2)
           | (None, cfg, s2) \<Rightarrow> (None, on_data broadcastState s2)))"

section \<open>Creating and deleting\<close>

definition HandleCreateService :: "ui_env \<Rightarrow> ui_sys \<Rightarrow> (ui_err + service_view) \<times> ui_sys" where
  "HandleCreateService env s =
     (let cfg = allServicesConfig (us_data s);
          svc = \<lparr> uv_ID = [], uv_Name = AllocateServiceName cfg, uv_WorkType = workTypeLocal,
                  uv_TunKey = [], uv_LocalMode = LocalModeTUN, uv_Transport = TransportKCP,
                  uv_TunIP = AllocateTunIP cfg, uv_AutoStart = False, uv_ForwardRules = [],
                  uv_AllowLocalProxy = None \<rparr>
      in if uv_TunIP svc = [] then (Inl NoSegment, s)
         else case validate_and_save env (cfg @ [svc]) s of
           (Some e, cfg', s1) \<Rightarrow> (Inl e, s1)
         | (None, cfg', s1) \<Rightarrow>
             (let st = new_service (last cfg') Idle;
                  s2 = on_data (add_service st) s1;
                  view = serviceViewLocked st False (us_data s2)
              in (Inr view, on_data broadcastState s2)))"

text \<open>Without the service; the rollback appends it again.\<close>

definition drop_service :: "string \<Rightarrow> ui_data \<Rightarrow> ui_data" where
  "drop_service sid d =
     d\<lparr> um_services := filter (\<lambda>r. uv_ID (ss_cfg (um_heap d r)) \<noteq> sid) (um_services d),
        um_index := (um_index d)(sid := None) \<rparr>"

definition restore_service :: "string \<Rightarrow> nat \<Rightarrow> ui_data \<Rightarrow> ui_data" where
  "restore_service sid removed d =
     d\<lparr> um_services := um_services d @ [removed],
        um_index := (case um_index d sid of None \<Rightarrow> (um_index d)(sid \<mapsto> removed) | Some _ \<Rightarrow> um_index d) \<rparr>"

definition HandleDeleteService :: "ui_env \<Rightarrow> string \<Rightarrow> ui_sys \<Rightarrow> ui_err option \<times> ui_sys" where
  "HandleDeleteService env sid s =
     (let d = us_data s; st = getServiceStatus sid d in
      if sp_started (proc_of sid s) \<or>
         (st \<noteq> Idle \<and> st \<noteq> Detecting \<and> st \<noteq> ConnectFailed \<and> st \<noteq> ConnectingNAT4)
      then (Some (StopFirst (serviceName sid d)), s)
      else case um_index d sid of
        None \<Rightarrow> (Some NoService, s)
      | Some removed \<Rightarrow>
          (case saveAllConfig env (s\<lparr> us_data := drop_service sid d \<rparr>) of
                (Some e, s1) \<Rightarrow> (Some (SaveFailed e), on_data (restore_service sid removed) s1)
              | (None, s1) \<Rightarrow>
                  (let s2 = s1\<lparr> us_procs := AList.delete sid (us_procs s1),
                                us_pids := RemoveWorkerPid sid (us_pids s1) \<rparr>
                   in (None, on_data (broadcastState \<circ> dropServiceLogs sid) s2))))"

section \<open>Import and initialisation\<close>

definition anyServiceActive :: "ui_sys \<Rightarrow> bool" where
  "anyServiceActive s \<longleftrightarrow> (\<exists>p \<in> set (us_procs s). sp_started (snd p)) \<or> service_active (us_data s)"

text \<open>The loop over the imported services: the first bad type stops it, missing keys are made up.\<close>

fun import_types :: "(nat \<Rightarrow> string) \<Rightarrow> nat \<Rightarrow> ui_config \<Rightarrow> ui_err + ui_config" where
  "import_types key i [] = Inr []"
| "import_types key i (c # cs) =
     (let wt0 = trim_space (uv_WorkType c); wt = (if wt0 = [] then workTypeLocal else wt0) in
      if wt \<noteq> workTypeLocal \<and> wt \<noteq> workTypeRemote then Inl (BadWorkType wt)
      else bind_res (import_types key (i + 1) cs) (\<lambda>out.
        Inr (c\<lparr> uv_WorkType := wt, uv_TunKey := (if uv_TunKey c = [] then key i else uv_TunKey c) \<rparr> # out)))"

definition copyFileForBackup :: "ui_env \<Rightarrow> ui_sys \<Rightarrow> ui_sys" where
  "copyFileForBackup env s =
     (case sv_path (us_files s) of
        None \<Rightarrow> s
      | Some data \<Rightarrow>
          (case en_backup env of
             BackupNone \<Rightarrow> s
           | BackupPart n \<Rightarrow> s\<lparr> us_backup := Some (take n data) \<rparr>
           | BackupAll \<Rightarrow> s\<lparr> us_backup := Some data \<rparr>))"

definition HandleImportConfig :: "ui_env \<Rightarrow> ui_config \<Rightarrow> ui_sys \<Rightarrow> ui_err option \<times> ui_sys" where
  "HandleImportConfig env cfg0 s =
     (if anyServiceActive s then (Some UiBusy, s)
      else case NormalizeAndValidate (en_fresh env) cfg0 of
        (Some e, cfg1) \<Rightarrow> (Some (InvalidConfig e), s)
      | (None, cfg1) \<Rightarrow>
          if cfg1 = [] then (Some EmptyImport, s)
          else case import_types (en_key env) 0 cfg1 of
            Inl e \<Rightarrow> (Some e, s)
          | Inr cfg2 \<Rightarrow>
              (case NormalizeAndValidate (en_fresh env) cfg2 of
                 (Some e, cfg3) \<Rightarrow> (Some (InvalidConfig e), s)
               | (None, cfg3) \<Rightarrow>
                   (case save_config env cfg3 (copyFileForBackup env s) of
                      (Some e, cfg4, s1) \<Rightarrow> (Some (SaveFailed e), s1)
                    | (None, cfg4, s1) \<Rightarrow>
                        (None, on_data (UILog LogImported \<circ> broadcastState \<circ>
                                 set_all_status (\<lambda>_. Idle) \<circ> replaceServices cfg4) s1))))"

definition initial_service :: ui_service where
  "initial_service =
     \<lparr> uv_ID = [], uv_Name = auto_name 1, uv_WorkType = workTypeLocal, uv_TunKey = [],
       uv_LocalMode = LocalModeTUN, uv_Transport = TransportKCP, uv_TunIP = ''192.17.19.1'',
       uv_AutoStart = False, uv_ForwardRules = [], uv_AllowLocalProxy = None \<rparr>"

definition fill_missing :: "(nat \<Rightarrow> string) \<Rightarrow> ui_config \<Rightarrow> ui_config" where
  "fill_missing key cs =
     map (\<lambda>(i, c). c\<lparr> uv_TunKey := (if uv_TunKey c = [] then key i else uv_TunKey c),
                      uv_WorkType := (if uv_WorkType c = [] then workTypeLocal else uv_WorkType c) \<rparr>)
       (enumerate 0 cs)"

text \<open>\<open>loaded\<close> is what \<open>LoadUIConfig\<close> returned.\<close>

definition init_services :: "ui_env \<Rightarrow> ui_config \<Rightarrow> ui_sys \<Rightarrow> ui_sys" where
  "init_services env loaded s =
     (let cfg0 = (case NormalizeAndValidate (en_fresh env) loaded of (None, c) \<Rightarrow> c | (Some _, c) \<Rightarrow> []);
          cfg1 = fill_missing (en_key env) (if cfg0 = [] then [initial_service] else cfg0);
          cfg2 = snd (NormalizeAndValidate (en_fresh env) cfg1)
      in case save_config env cfg2 (on_data (\<lambda>d. d\<lparr> um_shared := [] \<rparr>) s) of
           (err, cfg3, s1) \<Rightarrow> on_data (set_all_status (\<lambda>_. Detecting) \<circ> replaceServices cfg3) s1)"

datatype nat_probe = NatListenFailed | NatPorts nat nat

text \<open>The probes of \<open>detectNAT\<close> in turn; when they run out the loop is still trying.\<close>

fun detectNAT :: "(string \<Rightarrow> ui_env) \<Rightarrow> nat_probe list \<Rightarrow> ui_sys \<Rightarrow> ui_sys" where
  "detectNAT envs [] s = s"
| "detectNAT envs (NatListenFailed # ps) s = detectNAT envs ps (on_data (UILog LogNATListenFailed) s)"
| "detectNAT envs (NatPorts p1 p2 # ps) s =
     (if p1 = 0 \<or> p2 = 0 then detectNAT envs ps (on_data (UILog LogNATProbeFailed) s)
      else tryAutoStart envs (on_data (broadcastState \<circ>
             set_all_status (\<lambda>st. if st = Detecting then Idle else st) \<circ> SetNATHint (p1 \<noteq> p2)) s))"

end
