(* ===== verification/Config_Norm.thy ===== *)
theory Config_Norm
  imports Config_Ui
begin

text \<open>
  What \<open>NormalizeAndValidate\<close> promises: \<open>config_ok\<close> states the shape of a valid configuration, the
  lemmas show that everything the code accepts has it and that such a configuration is a fixed
  point, so the normalisation is idempotent. Also the allocation of segments and names, and
  what saving does to the file.
\<close>

section \<open>Addresses\<close>

lemma ip_string4: "length b = 4 \<Longrightarrow> ip_string b = ip4_string b"
  by (simp add: ip_string_def)

lemma parseHostPortIPv4_Some:
  assumes "parseHostPortIPv4 s = Some (h, p)"
  obtains b where "length b = 4" "h = ip4_string b" "0 < p" "p \<le> 65535"
proof -
  from assms obtain host portStr a b where "to4 a = Some b" "h = ip_string b" "0 < p" "p \<le> 65535"
    by (auto simp: parseHostPortIPv4_def split: option.splits if_splits)
  then show ?thesis using that[of b] to4_length[of a b] ip_string4 by simp
qed

lemma list_all_hd: "xs \<noteq> [] \<Longrightarrow> list_all P xs \<Longrightarrow> P (hd xs)"
  and list_all_last: "xs \<noteq> [] \<Longrightarrow> list_all P xs \<Longrightarrow> P (last xs)"
  by (simp_all add: list_all_iff)

lemma parse_canonical:
  assumes "length b = 4" "0 < p" "p \<le> 65535"
  shows "parseHostPortIPv4 (join_host_port (ip4_string b) (go_itoa p)) = Some (ip4_string b, p)"
proof -
  let ?s = "join_host_port (ip4_string b) (go_itoa p)"
  have g: "go_itoa p = dec_nat (nat p)" using assms(2) by (simp add: go_itoa_def)
  have ch: "x \<in> set (ip4_string b) \<Longrightarrow> is_digit x \<or> x = CHR ''.''" for x
    using ip4_string_chars[OF assms(1)] .
  have dg: "x \<in> set (dec_nat (nat p)) \<Longrightarrow> is_digit x" for x
    using dec_nat_digits[of "nat p"] by (simp add: list_all_iff)
  have nc: "CHR '':'' \<notin> set (ip4_string b)" using ch[of "CHR '':''"] by (auto simp: is_digit_def)
  then have s: "?s = ip4_string b @ '':'' @ dec_nat (nat p)" by (simp add: join_host_port_def g)
  have "hd ?s \<in> set (ip4_string b)" using ip4_string_nonempty[OF assms(1)] by (simp add: s)
  moreover have "last ?s \<in> set (dec_nat (nat p))" by (simp add: s)
  ultimately have "trim_space ?s = ?s"
    using ch[of "hd ?s"] dg[of "last ?s"] by (intro trim_space_id) (auto simp: s is_digit_def)
  moreover have "split_host_port ?s = Some (ip4_string b, go_itoa p)"
    unfolding g by (rule split_join_host_port) (auto dest!: ch dg simp: is_digit_def)
  moreover have "atoi (go_itoa p) = Some p"
    using assms by (intro atoi_go_itoa) (auto simp: int_min_def int_max_def)
  ultimately show ?thesis using assms parse_ip_string4[OF assms(1)]
    by (simp add: parseHostPortIPv4_def ip_string4)
qed

section \<open>Rules\<close>

definition canonical_addr :: "string \<Rightarrow> bool" where
  "canonical_addr s \<longleftrightarrow> (\<exists>b p. length b = 4 \<and> 0 < p \<and> p \<le> 65535 \<and>
     s = join_host_port (ip4_string b) (go_itoa p))"

definition canonical_rule :: "ui_rule \<Rightarrow> bool" where
  "canonical_rule r \<longleftrightarrow> (ur_proto r = ''tcp'' \<or> ur_proto r = ''udp'') \<and>
     canonical_addr (ur_listen r) \<and> canonical_addr (ur_remote r)"

definition rules_ok :: "ui_rule list \<Rightarrow> bool" where
  "rules_ok rs \<longleftrightarrow> list_all canonical_rule rs \<and> distinct (map listenRuleKey rs)"

lemma proto_norm:
  "p = ''tcp'' \<or> p = ''udp'' \<Longrightarrow> to_lower (trim_space p) = p"
proof -
  have "trim_space ''tcp'' = ''tcp''" "trim_space ''udp'' = ''udp''" by code_simp+
  moreover have "to_lower ''tcp'' = ''tcp''" "to_lower ''udp'' = ''udp''" by code_simp+
  ultimately show "p = ''tcp'' \<or> p = ''udp'' \<Longrightarrow> to_lower (trim_space p) = p" by auto
qed

lemma canonical_key: "canonical_rule r \<Longrightarrow> listenRuleKey r = ur_proto r @ ''|'' @ ur_listen r"
  by (simp add: canonical_rule_def listenRuleKey_def proto_norm)

lemma canonical_parse:
  "canonical_addr s \<Longrightarrow> \<exists>h p. parseHostPortIPv4 s = Some (h, p) \<and> join_host_port h (go_itoa p) = s"
  using parse_canonical by (auto simp: canonical_addr_def)

lemma parse_canonical_addr:
  "parseHostPortIPv4 s = Some (h, p) \<Longrightarrow> canonical_addr (join_host_port h (go_itoa p))"
  by (auto simp: canonical_addr_def elim!: parseHostPortIPv4_Some)

lemma normalize_rules_sound:
  "normalize_rules seen i rs = Inr out \<Longrightarrow>
   list_all canonical_rule out \<and> distinct (map listenRuleKey out) \<and>
   listenRuleKey ` set out \<inter> set seen = {} \<and> length out = length rs"
proof (induction seen i rs arbitrary: out rule: normalize_rules.induct)
  case (2 seen i r rs)
  let ?p = "to_lower (trim_space (ur_proto r))"
  from "2.prems" obtain lh lp rh rp out' where
    p: "\<not> (?p \<noteq> ''tcp'' \<and> ?p \<noteq> ''udp'')" and l: "parseHostPortIPv4 (ur_listen r) = Some (lh, lp)"
    and r: "parseHostPortIPv4 (ur_remote r) = Some (rh, rp)"
    and k: "?p @ ''|'' @ join_host_port lh (go_itoa lp) \<notin> set seen"
    and n: "normalize_rules ((?p @ ''|'' @ join_host_port lh (go_itoa lp)) # seen) (i + 1) rs = Inr out'"
    and o: "out = \<lparr> ur_proto = ?p, ur_listen = join_host_port lh (go_itoa lp),
                   ur_remote = join_host_port rh (go_itoa rp) \<rparr> # out'"
    by (auto simp: Let_def bind_res_Inr_iff split: option.splits prod.splits if_splits)
  let ?r = "\<lparr> ur_proto = ?p, ur_listen = join_host_port lh (go_itoa lp),
             ur_remote = join_host_port rh (go_itoa rp) \<rparr>"
  have c: "canonical_rule ?r"
    using p parse_canonical_addr[OF l] parse_canonical_addr[OF r] by (simp add: canonical_rule_def)
  have key: "listenRuleKey ?r = ?p @ ''|'' @ join_host_port lh (go_itoa lp)"
    using canonical_key[OF c] by simp
  have IH: "list_all canonical_rule out' \<and> distinct (map listenRuleKey out') \<and>
      listenRuleKey ` set out' \<inter> set ((?p @ ''|'' @ join_host_port lh (go_itoa lp)) # seen) = {} \<and>
      length out' = length rs"
    using "2.IH" p l r k n by simp
  show ?case using IH c k unfolding o key[symmetric] by auto
qed auto

lemma normalize_rules_fixed:
  "list_all canonical_rule rs \<Longrightarrow> distinct (map listenRuleKey rs) \<Longrightarrow>
   listenRuleKey ` set rs \<inter> set seen = {} \<Longrightarrow> normalize_rules seen i rs = Inr rs"
proof (induction rs arbitrary: seen i)
  case (Cons r rs)
  then have c: "canonical_rule r" by simp
  obtain lh lp rh rp where
    p: "parseHostPortIPv4 (ur_listen r) = Some (lh, lp)" "join_host_port lh (go_itoa lp) = ur_listen r"
      "parseHostPortIPv4 (ur_remote r) = Some (rh, rp)" "join_host_port rh (go_itoa rp) = ur_remote r"
    using c canonical_parse unfolding canonical_rule_def by metis
  have pr: "to_lower (trim_space (ur_proto r)) = ur_proto r" "ur_proto r = ''tcp'' \<or> ur_proto r = ''udp''"
    using c proto_norm by (auto simp: canonical_rule_def)
  have k: "ur_proto r @ ''|'' @ ur_listen r = listenRuleKey r" using canonical_key[OF c] by simp
  have rec: "normalize_rules (listenRuleKey r # seen) (i + 1) rs = Inr rs"
    using Cons.prems by (intro Cons.IH) auto
  have ns: "listenRuleKey r \<notin> set seen" using Cons.prems(3) by auto
  show ?case
    using pr(2) ns rec
    by (simp only: normalize_rules.simps Let_def pr(1) p k option.case prod.case bind_res_simps if_False
        simp_thms) auto
qed simp

section \<open>Names and segments\<close>

definition name_ok :: "string \<Rightarrow> bool" where
  "name_ok n \<longleftrightarrow> trim_space n = n \<and> n \<noteq> [] \<and> length (runes n) \<le> maxServiceNameRunes \<and>
     (\<forall>r \<in> set (runes n). \<not> is_control r)"

lemma free_name_spec:
  "\<exists>m \<ge> n. free_name used n = auto_name m \<and> m \<le> n + length used \<and> auto_name m \<notin> set used
     \<and> (\<forall>j. n \<le> j \<and> j < m \<longrightarrow> auto_name j \<in> set used)"
proof -
  have ex: "\<exists>m \<ge> n. auto_name m \<notin> set used"
  proof (rule ccontr)
    assume "\<not> ?thesis"
    then have "auto_name ` {n..} \<subseteq> set used" by auto
    moreover have "inj_on auto_name {n..}" by (auto intro: inj_onI)
    ultimately show False using finite_imageD[of auto_name "{n..}"] infinite_Ici[of n]
      by (meson List.finite_set finite_subset)
  qed
  define m where "m = (LEAST k. k \<ge> n \<and> auto_name k \<notin> set used)"
  have m: "m \<ge> n \<and> auto_name m \<notin> set used" unfolding m_def using LeastI_ex[OF ex[unfolded Bex_def]] by auto
  have lt: "auto_name j \<in> set used" if "n \<le> j" "j < m" for j
    using not_less_Least[of j "\<lambda>k. k \<ge> n \<and> auto_name k \<notin> set used"] that by (auto simp: m_def)
  have "free_name used k = auto_name m" if "n \<le> k" "k \<le> m" for k
    using that
  proof (induction "m - k" arbitrary: k)
    case 0
    then show ?case using m by (simp add: free_name.simps)
  next
    case (Suc d)
    then have "k < m" by simp
    with Suc lt[of k] show ?case by (subst free_name.simps) simp
  qed
  moreover have "m \<le> n + length used"
  proof -
    have "auto_name ` {n..<m} \<subseteq> set used" using lt by auto
    then have "card (auto_name ` {n..<m}) \<le> card (set used)" by (simp add: card_mono)
    moreover have "card (auto_name ` {n..<m}) = m - n" by (subst card_image) (auto intro: inj_onI)
    ultimately show ?thesis using card_length[of used] by simp
  qed
  ultimately show ?thesis using m lt by blast
qed

lemma auto_name_ok:
  assumes "n < 10 ^ 20"
  shows "name_ok (auto_name n)"
proof -
  have h: "auto_name n = char_of (0xE6 :: nat) # tl (auto_name n)"
    by (simp add: auto_name_def service_word_def)
  have l: "auto_name n = butlast (auto_name n) @ [last (dec_nat n)]"
    by (simp add: auto_name_def butlast_append)
  have d: "is_digit (last (dec_nat n))"
    using dec_nat_digits[of n] by (rule list_all_last[OF dec_nat_not_Nil])
  have "trim_left (auto_name n) = auto_name n"
    by (subst (1 2) h, rule trim_left_id) simp_all
  moreover have "trim_right (auto_name n) = auto_name n"
    by (subst (1 2) l, rule trim_right_id) (use d in \<open>auto simp: is_digit_def\<close>)
  ultimately have t: "trim_space (auto_name n) = auto_name n" by (simp add: trim_space_def)
  have r: "runes (auto_name n) =
      [map char_of [0xE6, 0x9C, 0x8D :: nat], map char_of [0xE5, 0x8A, 0xA1 :: nat]]
      @ map (\<lambda>c. [c]) (dec_nat n)"
    by (simp add: auto_name_def service_word_def runes.simps(2) rune_width_def Let_def cont_byte_def
        runes_digits[OF dec_nat_digits])
  have "length (dec_nat n) \<le> 20" using length_dec_nat[of n 19] assms by simp
  moreover have "\<not> is_control r" if "r \<in> set (runes (auto_name n))" for r
    using that dec_nat_digits[of n] by (auto simp: r is_control_def list_all_iff is_digit_def)
  ultimately show ?thesis
    by (auto simp: name_ok_def t r maxServiceNameRunes_def) (simp add: auto_name_def)
qed

lemma normalizeServiceName_sound:
  assumes "normalizeServiceName nm used i = Inr n" "i + 1 + length used < 10 ^ 20"
  shows "name_ok n \<and> n \<notin> set used"
proof (cases "trim_space nm = []")
  case True
  then show ?thesis
    using assms free_name_spec[of "i + 1" used] auto_name_ok
    by (auto simp: normalizeServiceName_def)
next
  case False
  then show ?thesis using assms(1)
    by (auto simp: normalizeServiceName_def name_ok_def Let_def split: if_splits)
qed

lemma normalizeServiceName_fixed:
  "name_ok n \<Longrightarrow> n \<notin> set used \<Longrightarrow> normalizeServiceName n used i = Inr n"
  by (auto simp: normalizeServiceName_def name_ok_def Let_def)

lemma validateTunIP_segment: "validateTunIP s \<longleftrightarrow> (\<exists>n \<ge> 1. tunSegmentOf s = Some n)"
  by (auto simp: validateTunIP_def tunSegmentOf_def word_less_nat_alt Suc_le_eq split: option.splits)

lemma segment_ip_string:
  assumes "n < 256"
  shows "segment_ip n = ip4_string [192, 17, of_nat n, 1]"
proof -
  have "dec_nat 192 = ''192''" "dec_nat 17 = ''17''" "dec_nat 1 = ''1''" by code_simp+
  then show ?thesis using assms
    by (simp add: segment_ip_def tunIPPrefix_def ip4_string_def unat_of_nat)
qed

lemma tunSegmentOf_ip: "n < 256 \<Longrightarrow> tunSegmentOf (segment_ip n) = Some n"
proof -
  assume n: "n < 256"
  let ?b = "[192, 17, of_nat n, 1] :: bytes"
  have ch: "x \<in> set (ip4_string ?b) \<Longrightarrow> is_digit x \<or> x = CHR ''.''" for x
    using ip4_string_chars[of ?b] by simp
  have ne: "ip4_string ?b \<noteq> []" by (rule ip4_string_nonempty) simp
  have "trim_space (ip4_string ?b) = ip4_string ?b"
    using ch[of "hd (ip4_string ?b)"] ch[of "last (ip4_string ?b)"] ne
    by (intro trim_space_id) (auto simp: is_digit_def)
  then show ?thesis using n parse_ip_string4[of ?b]
    by (simp add: tunSegmentOf_def segment_ip_string unat_of_nat)
qed

lemma AllocateTunIP_cases:
  "(AllocateTunIP cfg = [] \<and> (\<forall>n. tunSegmentMin \<le> n \<and> n \<le> tunSegmentMax \<longrightarrow>
       (\<exists>s \<in> set cfg. tunSegmentOf (uv_TunIP s) = Some n))) \<or>
   (\<exists>n. AllocateTunIP cfg = segment_ip n \<and> tunSegmentMin \<le> n \<and> n \<le> tunSegmentMax \<and>
       (\<forall>s \<in> set cfg. tunSegmentOf (uv_TunIP s) \<noteq> Some n) \<and>
       (\<forall>m. tunSegmentMin \<le> m \<and> m < n \<longrightarrow> (\<exists>s \<in> set cfg. tunSegmentOf (uv_TunIP s) = Some m)))"
proof -
  let ?used = "set (List.map_filter (\<lambda>s. tunSegmentOf (uv_TunIP s)) cfg)"
  have u: "n \<in> ?used \<longleftrightarrow> (\<exists>s \<in> set cfg. tunSegmentOf (uv_TunIP s) = Some n)" for n
    by (force simp: List.map_filter_def)
  let ?l = "filter (\<lambda>n. n \<notin> ?used) [tunSegmentMin..<Suc tunSegmentMax]"
  show ?thesis
  proof (cases ?l)
    case Nil
    then have "\<forall>n \<in> set [tunSegmentMin..<Suc tunSegmentMax]. n \<in> ?used"
      by (metis (mono_tags, lifting) filter_empty_conv)
    then show ?thesis using Nil u by (auto simp: AllocateTunIP_def Let_def simp del: upt_Suc)
  next
    case (Cons n ns)
    then have "n \<in> set ?l" by (metis list.set_intros(1))
    then have n: "tunSegmentMin \<le> n" "n \<le> tunSegmentMax" "n \<notin> ?used"
      by (auto simp del: upt_Suc)
    have "m \<in> ?used" if "tunSegmentMin \<le> m" "m < n" for m
    proof (rule ccontr)
      assume "m \<notin> ?used"
      with that n have "m \<in> set ?l" by (auto simp del: upt_Suc)
      then have "m \<in> set (n # ns)" by (simp only: Cons)
      moreover have "sorted ?l" by (rule sorted_wrt_filter) (rule sorted_upt)
      then have "sorted (n # ns)" by (simp only: Cons)
      ultimately show False using that by auto
    qed
    then show ?thesis using Cons n u by (auto simp: AllocateTunIP_def Let_def simp del: upt_Suc)
  qed
qed

section \<open>Valid configurations\<close>

definition forward_mode :: "ui_service \<Rightarrow> bool" where
  "forward_mode s \<longleftrightarrow> uv_LocalMode s = LocalModeForward"

definition listen_keys :: "ui_service \<Rightarrow> string set" where
  "listen_keys s = (if forward_mode s then listenRuleKey ` set (uv_ForwardRules s) else {})"

definition service_ok :: "ui_service \<Rightarrow> bool" where
  "service_ok s \<longleftrightarrow>
     trim_space (uv_ID s) = uv_ID s \<and> uv_ID s \<noteq> [] \<and> name_ok (uv_Name s) \<and>
     trim_space (uv_WorkType s) = uv_WorkType s \<and> trim_space (uv_TunKey s) = uv_TunKey s \<and>
     uv_LocalMode s \<in> {LocalModeTUN, LocalModeForward} \<and>
     uv_Transport s \<in> {TransportQUIC, TransportKCP} \<and>
     rules_ok (uv_ForwardRules s) \<and> validateTunIP (uv_TunIP s)"

definition services_ok :: "ui_service list \<Rightarrow> bool" where
  "services_ok ss \<longleftrightarrow>
     list_all service_ok ss \<and> distinct (map uv_ID ss) \<and> distinct (map uv_Name ss) \<and>
     distinct (filter (\<lambda>k. k \<noteq> []) (map uv_TunKey ss)) \<and> distinct (map uv_TunIP ss) \<and>
     sorted_wrt (\<lambda>s t. listen_keys s \<inter> listen_keys t = {}) ss"

definition config_ok :: "ui_config \<Rightarrow> bool" where
  "config_ok cfg \<longleftrightarrow> services_ok cfg \<and> length (filter uv_AutoStart cfg) \<le> 1"

lemma mode_norm:
  "m \<in> {LocalModeTUN, LocalModeForward} \<Longrightarrow> to_lower (trim_space m) = m \<and> m \<noteq> []"
  "t \<in> {TransportQUIC, TransportKCP} \<Longrightarrow> NormalizeTransport t = t"
proof -
  have "to_lower (trim_space ''tun'') = ''tun''" "to_lower (trim_space ''forward'') = ''forward''"
    "to_lower (trim_space ''quic'') = ''quic''" "to_lower (trim_space ''kcp'') = ''kcp''" by code_simp+
  then show "m \<in> {LocalModeTUN, LocalModeForward} \<Longrightarrow> to_lower (trim_space m) = m \<and> m \<noteq> []"
    "t \<in> {TransportQUIC, TransportKCP} \<Longrightarrow> NormalizeTransport t = t"
    by (auto simp: ui_consts NormalizeTransport_def)
qed

lemma claim_listens_sound:
  "claim_listens sid ls rs = Inr ls' \<Longrightarrow>
   (\<forall>k. map_of ls' k = (if k \<in> listenRuleKey ` set rs then Some sid else map_of ls k)) \<and>
   (\<forall>k \<in> listenRuleKey ` set rs. map_of ls k = None \<or> map_of ls k = Some sid)"
proof (induction sid ls rs rule: claim_listens.induct)
  case (2 sid ls r rs)
  show ?case
  proof (cases "map_of ls (listenRuleKey r)")
    case None
    with 2 show ?thesis by (auto split: if_splits)
  next
    case (Some other)
    with 2 show ?thesis by (auto split: if_splits)
  qed
qed simp

lemma claim_listens_total:
  "\<forall>k \<in> listenRuleKey ` set rs. map_of ls k = None \<or> map_of ls k = Some sid \<Longrightarrow>
   \<exists>ls'. claim_listens sid ls rs = Inr ls'"
proof (induction rs arbitrary: ls)
  case (Cons r rs)
  have "\<exists>ls'. claim_listens sid ((listenRuleKey r, sid) # ls) rs = Inr ls'"
    using Cons.prems by (intro Cons.IH) auto
  moreover have "map_of ls (listenRuleKey r) = None \<or> map_of ls (listenRuleKey r) = Some sid"
    using Cons.prems by auto
  ultimately show ?case by (auto split: option.split)
qed simp

text \<open>What the loop's sets hold after the services \<open>prev\<close>.\<close>

definition norm_rel :: "norm_state \<Rightarrow> ui_service list \<Rightarrow> bool" where
  "norm_rel st prev \<longleftrightarrow>
     set (nz_ids st) = set (map uv_ID prev) \<and> set (nz_names st) = set (map uv_Name prev) \<and>
     set (nz_keys st) = set (filter (\<lambda>k. k \<noteq> []) (map uv_TunKey prev)) \<and>
     set (nz_ips st) = set (map uv_TunIP prev) \<and> length (nz_names st) = length prev \<and>
     (\<forall>k sid. map_of (nz_listens st) k = Some sid \<longleftrightarrow>
        (\<exists>s \<in> set prev. uv_ID s = sid \<and> k \<in> listen_keys s))"

lemma services_ok_snoc:
  "services_ok (prev @ [s]) \<longleftrightarrow>
     services_ok prev \<and> service_ok s \<and> uv_ID s \<notin> set (map uv_ID prev) \<and>
     uv_Name s \<notin> set (map uv_Name prev) \<and>
     (uv_TunKey s \<noteq> [] \<longrightarrow> uv_TunKey s \<notin> set (map uv_TunKey prev)) \<and>
     uv_TunIP s \<notin> set (map uv_TunIP prev) \<and>
     (\<forall>t \<in> set prev. listen_keys t \<inter> listen_keys s = {})"
  unfolding services_ok_def by (auto simp: sorted_wrt_append)

lemma norm_rel_init: "norm_rel norm_init []"
  by (simp add: norm_rel_def norm_init_def)

lemma norm_identity_sound:
  assumes "norm_identity fresh st (length prev) svc = (None, st', svc')" "norm_rel st prev"
    and "\<forall>i. trim_space (fresh i) = fresh i \<and> fresh i \<noteq> []" "length prev < 10 ^ 19"
  shows "trim_space (uv_ID svc') = uv_ID svc' \<and> uv_ID svc' \<noteq> [] \<and> name_ok (uv_Name svc') \<and>
     trim_space (uv_WorkType svc') = uv_WorkType svc' \<and> trim_space (uv_TunKey svc') = uv_TunKey svc' \<and>
     uv_ID svc' \<notin> set (map uv_ID prev) \<and> uv_Name svc' \<notin> set (map uv_Name prev) \<and>
     (uv_TunKey svc' \<noteq> [] \<longrightarrow> uv_TunKey svc' \<notin> set (map uv_TunKey prev)) \<and>
     nz_ids st' = uv_ID svc' # nz_ids st \<and> nz_names st' = uv_Name svc' # nz_names st \<and>
     nz_keys st' = (if uv_TunKey svc' = [] then nz_keys st else uv_TunKey svc' # nz_keys st) \<and>
     nz_ips st' = nz_ips st \<and> nz_listens st' = nz_listens st"
proof -
  let ?sid = "if trim_space (uv_ID svc) = [] then fresh (length prev) else trim_space (uv_ID svc)"
  have sid: "trim_space ?sid = ?sid" "?sid \<noteq> []" using assms(3) by auto
  obtain name where n: "normalizeServiceName (uv_Name svc) (nz_names st) (length prev) = Inr name"
    and i: "?sid \<notin> set (nz_ids st)"
    using assms(1) by (auto simp: norm_identity_def Let_def split: if_splits sum.splits)
  have "name_ok name \<and> name \<notin> set (nz_names st)"
    using normalizeServiceName_sound[OF n] assms(2,4) by (simp add: norm_rel_def)
  then show ?thesis
    using assms(1,2) n i sid
    by (auto simp: norm_identity_def Let_def norm_rel_def split: if_splits)
qed

lemma normalizeServiceMode_sound:
  assumes "normalizeServiceMode svc = (None, svc')"
  shows "uv_LocalMode svc' \<in> {LocalModeTUN, LocalModeForward} \<and>
    uv_Transport svc' \<in> {TransportQUIC, TransportKCP} \<and> rules_ok (uv_ForwardRules svc') \<and>
    uv_ID svc' = uv_ID svc \<and> uv_Name svc' = uv_Name svc \<and> uv_WorkType svc' = uv_WorkType svc \<and>
    uv_TunKey svc' = uv_TunKey svc"
  using assms normalize_rules_sound[of "[]" 0 "uv_ForwardRules svc"]
  by (auto simp: normalizeServiceMode_def Let_def rules_ok_def split: if_splits sum.splits)

lemma norm_network_sound:
  assumes "norm_network st prev rest svc = (None, st', svc')"
    and "\<forall>k sid. map_of (nz_listens st) k = Some sid \<longleftrightarrow> (\<exists>s \<in> set prev. uv_ID s = sid \<and> k \<in> listen_keys s)"
    and "set (nz_ips st) = set (map uv_TunIP prev)" "uv_ID svc \<notin> set (map uv_ID prev)"
  shows "\<exists>ip. svc' = svc\<lparr> uv_TunIP := ip \<rparr> \<and> validateTunIP ip \<and> ip \<notin> set (map uv_TunIP prev) \<and>
    nz_ips st' = ip # nz_ips st \<and> nz_ids st' = nz_ids st \<and> nz_names st' = nz_names st \<and>
    nz_keys st' = nz_keys st \<and>
    (\<forall>t \<in> set prev. listen_keys t \<inter> listen_keys svc' = {}) \<and>
    (\<forall>k. map_of (nz_listens st') k =
       (if k \<in> listen_keys svc' then Some (uv_ID svc') else map_of (nz_listens st) k))"
proof -
  let ?ip = "if trim_space (uv_TunIP svc) = [] then AllocateTunIP (prev @ [svc] @ rest) else uv_TunIP svc"
  let ?s = "svc\<lparr> uv_TunIP := ?ip \<rparr>"
  have e: "(if trim_space (uv_TunIP svc) = [] then svc\<lparr> uv_TunIP := AllocateTunIP (prev @ [svc] @ rest) \<rparr>
      else svc) = ?s" by auto
  have v: "validateTunIP ?ip" "?ip \<notin> set (nz_ips st)" and s': "svc' = ?s"
    and st: "nz_ips st' = ?ip # nz_ips st" "nz_ids st' = nz_ids st" "nz_names st' = nz_names st"
      "nz_keys st' = nz_keys st"
    using assms(1) unfolding norm_network_def e
    by (auto simp: Let_def split: if_splits sum.splits)
  have l: "(\<forall>k \<in> listen_keys ?s. map_of (nz_listens st) k = None \<or> map_of (nz_listens st) k = Some (uv_ID svc)) \<and>
    (\<forall>k. map_of (nz_listens st') k = (if k \<in> listen_keys ?s then Some (uv_ID svc) else map_of (nz_listens st) k))"
  proof (cases "uv_LocalMode svc = LocalModeForward")
    case True
    then obtain ls where ls: "claim_listens (uv_ID svc) (nz_listens st) (uv_ForwardRules svc) = Inr ls"
      and "nz_listens st' = ls"
      using assms(1) v unfolding norm_network_def e by (auto simp: Let_def split: if_splits sum.splits)
    then show ?thesis using claim_listens_sound[OF ls] True
      by (simp add: listen_keys_def forward_mode_def)
  next
    case False
    then have "nz_listens st' = nz_listens st"
      using assms(1) v unfolding norm_network_def e by (auto simp: Let_def split: if_splits)
    then show ?thesis using False by (simp add: listen_keys_def forward_mode_def)
  qed
  have "listen_keys t \<inter> listen_keys ?s = {}" if t: "t \<in> set prev" for t
  proof (rule ccontr)
    assume "\<not> ?thesis"
    then obtain k where k: "k \<in> listen_keys t" "k \<in> listen_keys ?s" by blast
    then have "map_of (nz_listens st) k = Some (uv_ID t)" using assms(2) t by blast
    with l k have "uv_ID t = uv_ID svc" by auto
    moreover have "uv_ID t \<in> set (map uv_ID prev)" using t by simp
    ultimately show False using assms(4) by simp
  qed
  then show ?thesis using v st l assms(3) s' by (intro exI[of _ ?ip]) simp
qed

lemma norm_service_sound:
  assumes "norm_service fresh st prev rest (length prev) svc = (None, st', svc')" "norm_rel st prev"
    and "\<forall>i. trim_space (fresh i) = fresh i \<and> fresh i \<noteq> []" "length prev < 10 ^ 19"
    and "services_ok prev"
  shows "services_ok (prev @ [svc']) \<and> norm_rel st' (prev @ [svc'])"
proof -
  obtain st1 svc1 svc2 where a: "norm_identity fresh st (length prev) svc = (None, st1, svc1)"
    and b: "normalizeServiceMode svc1 = (None, svc2)"
    and c: "norm_network st1 prev rest svc2 = (None, st', svc')"
    using assms(1) by (auto simp: norm_service_def split: prod.splits option.splits)
  note A = norm_identity_sound[OF a assms(2-4)]
  note B = normalizeServiceMode_sound[OF b]
  have li: "\<forall>k sid. map_of (nz_listens st1) k = Some sid \<longleftrightarrow>
      (\<exists>s \<in> set prev. uv_ID s = sid \<and> k \<in> listen_keys s)"
    and ips: "set (nz_ips st1) = set (map uv_TunIP prev)" and idn: "uv_ID svc2 \<notin> set (map uv_ID prev)"
    using A B assms(2) by (simp_all add: norm_rel_def)
  obtain ip where C: "svc' = svc2\<lparr> uv_TunIP := ip \<rparr>" "validateTunIP ip" "ip \<notin> set (map uv_TunIP prev)"
    "nz_ips st' = ip # nz_ips st1" "nz_ids st' = nz_ids st1" "nz_names st' = nz_names st1"
    "nz_keys st' = nz_keys st1" "\<forall>t \<in> set prev. listen_keys t \<inter> listen_keys svc' = {}"
    "\<forall>k. map_of (nz_listens st') k =
       (if k \<in> listen_keys svc' then Some (uv_ID svc') else map_of (nz_listens st1) k)"
    using norm_network_sound[OF c li ips idn] by blast
  have ok: "service_ok svc'" using A B C by (auto simp: service_ok_def)
  have "services_ok (prev @ [svc'])"
    unfolding services_ok_snoc using assms(5) ok A B C by simp
  moreover have "norm_rel st' (prev @ [svc'])"
  proof -
    have "map_of (nz_listens st') k = Some sid \<longleftrightarrow>
        (\<exists>s \<in> set (prev @ [svc']). uv_ID s = sid \<and> k \<in> listen_keys s)" for k sid
      using C(8,9) li by (auto split: if_splits)
    then show ?thesis using A B C assms(2) by (auto simp: norm_rel_def)
  qed
  ultimately show ?thesis ..
qed

lemma norm_services_sound:
  assumes "norm_services fresh st prev rest = (None, out)" "norm_rel st prev" "services_ok prev"
    and "\<forall>i. trim_space (fresh i) = fresh i \<and> fresh i \<noteq> []" "length prev + length rest \<le> 10 ^ 19"
  shows "services_ok out \<and> length out = length prev + length rest"
  using assms
proof (induction rest arbitrary: st prev)
  case (Cons svc rest)
  obtain e st' svc' where n: "norm_service fresh st prev rest (length prev) svc = (e, st', svc')"
    by (metis surj_pair)
  with Cons.prems(1) have e: "e = None" by (auto split: option.splits)
  have "services_ok (prev @ [svc']) \<and> norm_rel st' (prev @ [svc'])"
    using norm_service_sound[OF n[unfolded e] Cons.prems(2,4) _ Cons.prems(3)] Cons.prems(5) by simp
  then show ?case using Cons.IH[of st' "prev @ [svc']"] Cons.prems n e by simp
qed simp

lemma keep_first_auto_spec:
  "length (keep_first_auto k ss) = length ss"
  "length (filter uv_AutoStart (keep_first_auto k ss)) \<le> (if k then 0 else 1)"
  "map (\<lambda>s. s\<lparr> uv_AutoStart := False \<rparr>) (keep_first_auto k ss) = map (\<lambda>s. s\<lparr> uv_AutoStart := False \<rparr>) ss"
  by (induction k ss rule: keep_first_auto.induct) (auto split: if_splits)

lemma keep_first_auto_fixed:
  "length (filter uv_AutoStart ss) \<le> (if k then 0 else 1) \<Longrightarrow> keep_first_auto k ss = ss"
  by (induction k ss rule: keep_first_auto.induct) (auto split: if_splits)

lemma services_ok_auto:
  "map (\<lambda>s. s\<lparr> uv_AutoStart := False \<rparr>) ss = map (\<lambda>s. s\<lparr> uv_AutoStart := False \<rparr>) ts \<Longrightarrow>
   services_ok ss = services_ok ts"
proof -
  have p: "services_ok (map (\<lambda>s. s\<lparr> uv_AutoStart := False \<rparr>) ss) = services_ok ss" for ss
  proof -
    have "service_ok (s\<lparr> uv_AutoStart := False \<rparr>) = service_ok s"
      "listen_keys (s\<lparr> uv_AutoStart := False \<rparr>) = listen_keys s" for s
      by (simp_all add: service_ok_def listen_keys_def forward_mode_def)
    then show ?thesis
      by (simp add: services_ok_def list_all_iff sorted_wrt_map comp_def)
  qed
  assume "map (\<lambda>s. s\<lparr> uv_AutoStart := False \<rparr>) ss = map (\<lambda>s. s\<lparr> uv_AutoStart := False \<rparr>) ts"
  then show ?thesis using p[of ss] p[of ts] by simp
qed

lemma NormalizeAndValidate_sound:
  assumes "NormalizeAndValidate fresh cfg = (None, out)"
    and "\<forall>i. trim_space (fresh i) = fresh i \<and> fresh i \<noteq> []" "length cfg \<le> 10 ^ 19"
  shows "config_ok out \<and> length out = length cfg"
proof -
  obtain o1 where o: "norm_services fresh norm_init [] cfg = (None, o1)" "out = keep_first_auto False o1"
    using assms(1) by (auto simp: NormalizeAndValidate_def split: prod.splits option.splits)
  have "services_ok o1 \<and> length o1 = length [] + length cfg"
    using norm_services_sound[OF o(1) norm_rel_init _ assms(2)] assms(3) by (simp add: services_ok_def)
  then show ?thesis
    using o(2) keep_first_auto_spec[of False o1] services_ok_auto[of out o1]
    by (simp add: config_ok_def)
qed

section \<open>Fixed points\<close>

lemma norm_service_fixed:
  assumes "services_ok (prev @ [s])" "norm_rel st prev"
  shows "\<exists>st'. norm_service fresh st prev rest i s = (None, st', s)"
proof -
  have ok: "service_ok s" and u: "uv_ID s \<notin> set (nz_ids st)" "uv_Name s \<notin> set (nz_names st)"
    "uv_TunKey s \<noteq> [] \<longrightarrow> uv_TunKey s \<notin> set (nz_keys st)" "uv_TunIP s \<notin> set (nz_ips st)"
    and li: "\<forall>t \<in> set prev. listen_keys t \<inter> listen_keys s = {}"
    using assms by (auto simp: services_ok_snoc norm_rel_def)
  note ok' = ok[unfolded service_ok_def]
  have idt: "\<exists>st1. norm_identity fresh st i s = (None, st1, s) \<and> nz_ips st1 = nz_ips st \<and>
      nz_listens st1 = nz_listens st"
    using ok' u normalizeServiceName_fixed[of "uv_Name s" "nz_names st" i]
    by (simp add: norm_identity_def Let_def)
  then obtain st1 where i1: "norm_identity fresh st i s = (None, st1, s)" "nz_ips st1 = nz_ips st"
    "nz_listens st1 = nz_listens st" by blast
  have md: "normalizeServiceMode s = (None, s)"
    using ok' mode_norm(1)[of "uv_LocalMode s"] mode_norm(2)[of "uv_Transport s"]
      normalize_rules_fixed[of "uv_ForwardRules s" "[]" 0]
    by (auto simp: normalizeServiceMode_def Let_def rules_ok_def)
  have tr: "trim_space (uv_TunIP s) \<noteq> []"
  proof
    assume "trim_space (uv_TunIP s) = []"
    moreover have "parse_ip [] = None" by code_simp
    ultimately show False using ok' by (simp add: validateTunIP_def)
  qed
  have "\<exists>st'. norm_network st1 prev rest s = (None, st', s)"
  proof (cases "forward_mode s")
    case False
    then show ?thesis using ok' u(4) i1(2) tr by (simp add: norm_network_def Let_def forward_mode_def)
  next
    case True
    have "map_of (nz_listens st) k = None" if "k \<in> listenRuleKey ` set (uv_ForwardRules s)" for k
    proof (rule ccontr)
      assume "map_of (nz_listens st) k \<noteq> None"
      then obtain sid where "map_of (nz_listens st) k = Some sid" by blast
      then obtain t where "t \<in> set prev" "k \<in> listen_keys t" using assms(2) unfolding norm_rel_def by blast
      with li that True show False by (auto simp: listen_keys_def)
    qed
    then obtain ls where "claim_listens (uv_ID s) (nz_listens st1) (uv_ForwardRules s) = Inr ls"
      using claim_listens_total[of "uv_ForwardRules s" "nz_listens st" "uv_ID s"] i1(3) by auto
    then show ?thesis using True ok' u(4) i1(2) tr by (simp add: norm_network_def Let_def forward_mode_def)
  qed
  then show ?thesis using i1(1) md by (auto simp: norm_service_def)
qed

lemma norm_services_fixed:
  assumes "services_ok (prev @ rest)" "norm_rel st prev"
    and "\<forall>i. trim_space (fresh i) = fresh i \<and> fresh i \<noteq> []" "length prev + length rest \<le> 10 ^ 19"
  shows "norm_services fresh st prev rest = (None, prev @ rest)"
  using assms
proof (induction rest arbitrary: st prev)
  case (Cons s rest)
  have ok: "services_ok (prev @ [s])" "services_ok prev"
    using Cons.prems(1) by (auto simp: services_ok_def sorted_wrt_append)
  obtain st' where n: "norm_service fresh st prev rest (length prev) s = (None, st', s)"
    using norm_service_fixed[OF ok(1) Cons.prems(2)] by blast
  have "norm_rel st' (prev @ [s])"
    using norm_service_sound[OF n Cons.prems(2,3) _ ok(2)] Cons.prems(4) by simp
  then have "norm_services fresh st' (prev @ [s]) rest = (None, (prev @ [s]) @ rest)"
    using Cons.prems by (intro Cons.IH) simp_all
  then show ?case by (simp add: n)
qed simp

lemma NormalizeAndValidate_fixed:
  assumes "config_ok cfg" "\<forall>i. trim_space (fresh i) = fresh i \<and> fresh i \<noteq> []"
    and "length cfg \<le> 10 ^ 19"
  shows "NormalizeAndValidate fresh cfg = (None, cfg)"
  using norm_services_fixed[of "[]" cfg norm_init fresh] assms norm_rel_init
    keep_first_auto_fixed[of cfg False]
  by (simp add: NormalizeAndValidate_def config_ok_def)

section \<open>Properties\<close>

definition ids_fresh :: "(nat \<Rightarrow> string) \<Rightarrow> bool" where
  "ids_fresh fresh \<longleftrightarrow> (\<forall>i. trim_space (fresh i) = fresh i \<and> fresh i \<noteq> [])"

text \<open>C10 Whatever configuration is accepted is valid afterwards: ids, names, non-empty keys and segment
  texts are unique, every name is printable and at most 32 runes, mode and transport are known ones,
  every rule is in canonical form, no two forwarding services listen on the same address, and at most
  one service starts by itself; no service is added or lost.\<close>

theorem accepted_config_valid:
  assumes "NormalizeAndValidate fresh cfg = (None, out)" "ids_fresh fresh" "length cfg \<le> 10 ^ 19"
  shows "length out = length cfg \<and> list_all service_ok out \<and>
    distinct (map uv_ID out) \<and> distinct (map uv_Name out) \<and> distinct (map uv_TunIP out) \<and>
    distinct (filter (\<lambda>k. k \<noteq> []) (map uv_TunKey out)) \<and>
    sorted_wrt (\<lambda>s t. listen_keys s \<inter> listen_keys t = {}) out \<and>
    length (filter uv_AutoStart out) \<le> 1"
  using NormalizeAndValidate_sound[OF assms(1) assms(2)[unfolded ids_fresh_def] assms(3)]
  by (simp add: config_ok_def services_ok_def)

text \<open>Normalisation is idempotent: a configuration that was accepted is accepted again unchanged, so
  saving what was loaded and validated never rewrites it.\<close>

theorem normalize_idempotent:
  assumes "NormalizeAndValidate fresh cfg = (None, out)" "ids_fresh fresh" "length cfg \<le> 10 ^ 19"
  shows "NormalizeAndValidate fresh out = (None, out)"
  using NormalizeAndValidate_sound[OF assms(1) assms(2)[unfolded ids_fresh_def] assms(3)]
    NormalizeAndValidate_fixed[of out fresh] assms(2,3) by (simp add: ids_fresh_def)

definition wit_service :: ui_service where
  "wit_service = \<lparr> uv_ID = ''a1'', uv_Name = '' home '', uv_WorkType = ''Local'', uv_TunKey = ''k'',
     uv_LocalMode = ''Forward'', uv_Transport = [], uv_TunIP = ''192.17.19.1'', uv_AutoStart = True,
     uv_ForwardRules = [\<lparr> ur_proto = ''TCP'', ur_listen = ''127.0.0.1:080'', ur_remote = ''10.0.0.5:80'' \<rparr>],
     uv_AllowLocalProxy = None \<rparr>"

definition wit_out :: ui_service where
  "wit_out = wit_service\<lparr> uv_Name := ''home'', uv_LocalMode := ''forward'', uv_Transport := ''kcp'',
     uv_ForwardRules := [\<lparr> ur_proto = ''tcp'', ur_listen = ''127.0.0.1:80'', ur_remote = ''10.0.0.5:80'' \<rparr>] \<rparr>"

lemma wit_normalize: "NormalizeAndValidate (\<lambda>i. ''f'') [wit_service] = (None, [wit_out])"
  by code_simp

lemma wit_fresh: "ids_fresh (\<lambda>i. ''f'')"
proof -
  have "trim_space ''f'' = ''f''" by code_simp
  then show ?thesis by (simp add: ids_fresh_def)
qed

theorem accepted_config_valid_witness: "service_ok wit_out \<and> distinct (map uv_Name [wit_out])"
  using accepted_config_valid[OF wit_normalize wit_fresh] by simp

theorem normalize_idempotent_witness:
  "NormalizeAndValidate (\<lambda>i. ''f'') [wit_out] = (None, [wit_out])"
  by (rule normalize_idempotent[OF wit_normalize wit_fresh]) simp

text \<open>The uniqueness of the segment is checked on the text, not on the segment: two services whose
  addresses differ only in surrounding white space are accepted together although they get the same
  network segment, adapter name and interface address.\<close>

theorem duplicate_segment_accepted:
  "\<exists>cfg out. NormalizeAndValidate (\<lambda>i. ''f'') cfg = (None, out) \<and> length out = 2 \<and>
     tunSegmentOf (uv_TunIP (out ! 0)) = Some 19 \<and> tunSegmentOf (uv_TunIP (out ! 1)) = Some 19 \<and>
     AdapterName (out ! 0) = AdapterName (out ! 1) \<and> TunIfaceIP (out ! 0) = TunIfaceIP (out ! 1)"
proof -
  let ?s = "wit_service\<lparr> uv_LocalMode := ''tun'' \<rparr>"
  let ?t = "?s\<lparr> uv_ID := ''b2'', uv_Name := ''work'', uv_TunKey := ''l'', uv_TunIP := '' 192.17.19.1'' \<rparr>"
  let ?out = "[wit_out\<lparr> uv_LocalMode := ''tun'' \<rparr>, wit_out\<lparr> uv_LocalMode := ''tun'', uv_ID := ''b2'',
    uv_Name := ''work'', uv_TunKey := ''l'', uv_TunIP := '' 192.17.19.1'', uv_AutoStart := False \<rparr>]"
  have n: "NormalizeAndValidate (\<lambda>i. ''f'') [?s, ?t] = (None, ?out)" by code_simp
  have t: "tunSegmentOf ''192.17.19.1'' = Some 19" "tunSegmentOf '' 192.17.19.1'' = Some 19"
    by code_simp+
  have u: "uv_TunIP (?out ! 0) = ''192.17.19.1''" "uv_TunIP (?out ! 1) = '' 192.17.19.1''"
    by (simp_all add: wit_out_def wit_service_def)
  show ?thesis
    by (intro exI[of _ "[?s, ?t]"] exI[of _ ?out])
       (use n in \<open>simp add: AdapterName_def TunIfaceIP_def wit_out_def wit_service_def t\<close>)
qed

text \<open>The allocated segment is the first free one: it is a valid address of a segment from 19 to 254
  that no service uses, every lower one is used, and only when all are used nothing is returned.\<close>

theorem allocate_segment:
  "(\<exists>n. AllocateTunIP cfg = segment_ip n \<and> validateTunIP (AllocateTunIP cfg) \<and>
      tunSegmentOf (AllocateTunIP cfg) = Some n \<and> 19 \<le> n \<and> n \<le> 254 \<and>
      (\<forall>s \<in> set cfg. tunSegmentOf (uv_TunIP s) \<noteq> Some n) \<and>
      {19..<n} \<subseteq> {m. \<exists>s \<in> set cfg. tunSegmentOf (uv_TunIP s) = Some m}) \<or>
   (AllocateTunIP cfg = [] \<and> {19..254} \<subseteq> {m. \<exists>s \<in> set cfg. tunSegmentOf (uv_TunIP s) = Some m})"
proof -
  have v: "validateTunIP (segment_ip n) \<and> tunSegmentOf (segment_ip n) = Some n" if "19 \<le> n" "n \<le> 254" for n
    using that tunSegmentOf_ip[of n] by (auto simp: validateTunIP_segment)
  show ?thesis
    using AllocateTunIP_cases[of cfg] v unfolding tunSegmentMin_def tunSegmentMax_def by auto
qed

text \<open>Saving replaces the file or leaves it alone, except in one case: when the temporary file can
  neither be renamed nor copied to the end, the old configuration has already been truncated and the
  temporary file is removed, so a prefix of the new text is all that is left.\<close>

theorem save_outcomes:
  assumes "SaveUIConfig fresh marshal oc f cfg = (err, f', cfg')"
  shows "(err = None \<longrightarrow> sv_path f' = Some (marshal cfg' @ [char_of (10 :: nat)]) \<and> sv_tmp f' = None) \<and>
    (err \<noteq> None \<and> err \<noteq> Some SaveRename \<longrightarrow> f' = f) \<and>
    (err = Some SaveRename \<longrightarrow> \<not> so_rename oc \<and> sv_tmp f' = None \<and>
       (if so_open oc
        then \<exists>n. so_copied oc = Some n \<and> sv_path f' = Some (take n (marshal cfg' @ [char_of (10 :: nat)]))
        else sv_path f' = sv_path f))"
  using assms
  by (auto simp: SaveUIConfig_def copyFileOverwrite_def Let_def
      split: prod.splits option.splits if_splits)

theorem save_outcomes_witness:
  "sv_path (fst (snd (SaveUIConfig (\<lambda>i. ''f'') (\<lambda>c. ''{}'')
     \<lparr> so_write = True, so_rename = False, so_open = True, so_copied = Some 1 \<rparr>
     \<lparr> sv_path = Some ''old'', sv_tmp = None \<rparr> []))) = Some ''{''"
proof -
  have e: "SaveUIConfig (\<lambda>i. ''f'') (\<lambda>c. ''{}'')
     \<lparr> so_write = True, so_rename = False, so_open = True, so_copied = Some 1 \<rparr>
     \<lparr> sv_path = Some ''old'', sv_tmp = None \<rparr> [] =
     (Some SaveRename, \<lparr> sv_path = Some ''{'', sv_tmp = None \<rparr>, [])"
    by (simp add: SaveUIConfig_def NormalizeAndValidate_def copyFileOverwrite_def Let_def)
  show ?thesis using save_outcomes[OF e] unfolding e by simp
qed

end
