(* ===== verification/Ui_Invariant.thy ===== *)
theory Ui_Invariant
  imports Ui_Handlers Config_Norm
begin

text \<open>
  The interface as a whole: the interleaving of its handlers with the goroutines they leave behind, and
  what holds in every state that can be reached. Two invariants are shown separately: the list and the
  index of the services agree, and every live worker is the one its service knows and waits for.
\<close>

section \<open>Steps\<close>

text \<open>
  A handler is one step; a goroutine takes one step per critical section. \<open>strict\<close> excludes deleting a
  service while a waiter for one of its workers is still to run: a process record created afterwards
  under the same id would count its generations from the beginning.
\<close>

inductive ui_step :: "bool \<Rightarrow> ui_sys \<Rightarrow> ui_sys \<Rightarrow> bool" for strict where
  do_start: "ids_fresh (en_fresh env) \<Longrightarrow> ui_step strict s (snd (HandleStart env sid rq s))"
| do_stop: "ui_step strict s (HandleStop sid s)"
| do_forwards: "ui_step strict s (snd (HandleForwards env sid mode rules s))"
| do_auto: "ui_step strict s (snd (HandleSetAutoStart env sid auto rq s))"
| do_rename: "ui_step strict s (snd (HandleRename env sid name s))"
| do_update: "ui_step strict s (snd (HandleUpdateConfig env sid rq auto s))"
| do_create: "ids_fresh (en_fresh env) \<Longrightarrow> ui_step strict s (snd (HandleCreateService env s))"
| do_delete: "(strict \<Longrightarrow> \<forall>cmd gen. TWait sid cmd gen \<notin> set (us_tasks s)) \<Longrightarrow>
    ui_step strict s (snd (HandleDeleteService env sid s))"
| do_import: "ids_fresh (en_fresh env) \<Longrightarrow> ui_step strict s (snd (HandleImportConfig env cfg s))"
| do_detect: "\<forall>sid. ids_fresh (en_fresh (envs sid)) \<Longrightarrow> ui_step strict s (detectNAT envs probes s)"
| do_exit: "ui_step strict s (StopCmdProcess env s)"
| do_task: "t \<in> set (us_tasks s) \<Longrightarrow> task_ready t s \<Longrightarrow>
    ui_step strict s (run_task env t (s\<lparr> us_tasks := remove1 t (us_tasks s) \<rparr>))"
| do_line: "TReader sid cmd \<in> set (us_tasks s) \<Longrightarrow> ui_step strict s (handle_line sid line s)"
| do_death: "ui_step strict s (s\<lparr> us_alive := filter (\<lambda>p. fst p \<noteq> pid) (us_alive s) \<rparr>)"
| do_other: "ui_step strict s (s\<lparr> us_alive := (us_next s, None) # us_alive s, us_next := Suc (us_next s) \<rparr>)"

definition ui_initial :: "ui_sys \<Rightarrow> bool" where
  "ui_initial s \<longleftrightarrow> us_procs s = [] \<and> us_tasks s = [] \<and> 0 < us_next s \<and>
     distinct (map fst (us_alive s)) \<and>
     (\<forall>p \<in> set (us_alive s). snd p = None \<and> fst p < us_next s)"

inductive ui_reach :: "bool \<Rightarrow> ui_sys \<Rightarrow> bool" for strict where
  begins: "ui_initial s \<Longrightarrow> ids_fresh (en_fresh env) \<Longrightarrow> ui_reach strict (init_services env loaded s)"
| goes: "ui_reach strict s \<Longrightarrow> ui_step strict s s' \<Longrightarrow> ui_reach strict s'"

section \<open>The shape of the service table\<close>

definition shape :: "ui_data \<Rightarrow> nat list \<times> (string \<Rightarrow> nat option) \<times> nat \<times> (nat \<Rightarrow> string)" where
  "shape d = (um_services d, um_index d, um_next d, \<lambda>r. uv_ID (ss_cfg (um_heap d r)))"

definition id_ok :: "string \<Rightarrow> bool" where
  "id_ok sid \<longleftrightarrow> sid \<noteq> [] \<and> trim_space sid = sid"

definition ui_wf :: "ui_data \<Rightarrow> bool" where
  "ui_wf d \<longleftrightarrow>
     distinct (um_services d) \<and> (\<forall>r \<in> set (um_services d). r < um_next d) \<and>
     (\<forall>sid r. um_index d sid = Some r \<longleftrightarrow> r \<in> set (um_services d) \<and> uv_ID (ss_cfg (um_heap d r)) = sid) \<and>
     list_all id_ok (map uv_ID (allServicesConfig d))"

lemma ui_wf_shape: "shape d = shape d' \<Longrightarrow> ui_wf d = ui_wf d'"
  by (simp add: ui_wf_def shape_def allServicesConfig_def fun_eq_iff list_all_iff)

lemma shape_broadcast [simp]: "shape (broadcast m d) = shape d"
  by (simp add: shape_def broadcast_def)

lemma shape_broadcastState [simp]: "shape (broadcastState d) = shape d"
  by (simp add: broadcastState_def)

lemma shape_broadcastUpgrade [simp]: "shape (broadcastUpgrade u d) = shape d"
  by (simp add: broadcastUpgrade_def)

lemma shape_appendLogEntry [simp]: "shape (appendLogEntry sid l d) = shape d"
proof -
  have "shape (d\<lparr> um_shared := a \<rparr>) = shape d" "shape (d\<lparr> um_logs := b \<rparr>) = shape d" for a b
    by (simp_all add: shape_def)
  then show ?thesis by (simp add: appendLogEntry_def)
qed

lemma shape_dropServiceLogs [simp]: "shape (dropServiceLogs sid d) = shape d"
  by (simp add: dropServiceLogs_def shape_def)

lemma shape_upd_svc:
  "uv_ID (ss_cfg (f (um_heap d r))) = uv_ID (ss_cfg (um_heap d r)) \<Longrightarrow> shape (upd_svc r f d) = shape d"
  by (auto simp: shape_def upd_svc_def)

lemma shape_upd_cfg:
  "uv_ID (f (ss_cfg (um_heap d r))) = uv_ID (ss_cfg (um_heap d r)) \<Longrightarrow> shape (upd_cfg r f d) = shape d"
  by (simp add: upd_cfg_def shape_upd_svc)

lemma shape_with_service: "(\<And>v. uv_ID (ss_cfg (f v)) = uv_ID (ss_cfg v)) \<Longrightarrow> shape (with_service sid f d) = shape d"
  by (simp add: with_service_def shape_upd_svc split: option.splits)

lemma shape_set_proxy [simp]: "shape (with_service sid (set_proxy h p b) d) = shape d"
  by (rule shape_with_service) (simp add: set_proxy_def)

lemma shape_setServiceStatus [simp]: "shape (setServiceStatus sid st d) = shape d"
  by (simp add: setServiceStatus_def shape_with_service)

lemma shape_setProxyListen [simp]: "shape (setProxyListen sid addr d) = shape d"
  by (simp add: setProxyListen_def split: option.splits prod.splits)

lemma shape_resetProxyListen [simp]: "shape (resetProxyListen sid d) = shape d"
  by (simp add: resetProxyListen_def)

lemma shape_fold: "(\<And>x d. shape (g x d) = shape d) \<Longrightarrow> shape (fold g xs d) = shape d"
  by (induction xs arbitrary: d) simp_all

lemma shape_clearOtherAutoStart [simp]: "shape (clearOtherAutoStart sid d) = shape d"
  unfolding clearOtherAutoStart_def by (rule shape_fold) (simp add: shape_upd_cfg)

lemma shape_set_all_status [simp]: "shape (set_all_status f d) = shape d"
  unfolding set_all_status_def by (rule shape_fold) (simp add: shape_upd_svc)

lemma shape_SetNATHint [simp]: "shape (SetNATHint b d) = shape d"
  by (simp add: SetNATHint_def) (simp add: shape_def)

text \<open>Operations that keep the shape keep the table well formed.\<close>

lemma wf_keep [simp]:
  "ui_wf (broadcastState d) = ui_wf d" "ui_wf (appendLogEntry sid l d) = ui_wf d"
  "ui_wf (dropServiceLogs sid d) = ui_wf d" "ui_wf (set_all_status f d) = ui_wf d"
  "ui_wf (setServiceStatus sid st d) = ui_wf d" "ui_wf (setProxyListen sid addr d) = ui_wf d"
  "ui_wf (resetProxyListen sid d) = ui_wf d" "ui_wf (SetNATHint b d) = ui_wf d"
  by (rule ui_wf_shape; simp)+

lemma take_settings_ID [simp]: "uv_ID (take_settings rq c) = uv_ID c"
  by (simp add: take_settings_def)

section \<open>Frames\<close>

lemma on_data_simps [simp]:
  "us_data (on_data f s) = f (us_data s)" "us_procs (on_data f s) = us_procs s"
  "us_alive (on_data f s) = us_alive s" "us_next (on_data f s) = us_next s"
  "us_tasks (on_data f s) = us_tasks s" "us_pids (on_data f s) = us_pids s"
  by (simp_all add: on_data_def)

lemma spawn_simps [simp]:
  "us_data (spawn ts s) = us_data s" "us_procs (spawn ts s) = us_procs s"
  "us_alive (spawn ts s) = us_alive s" "us_next (spawn ts s) = us_next s"
  "us_tasks (spawn ts s) = us_tasks s @ ts" "us_pids (spawn ts s) = us_pids s"
  by (simp_all add: spawn_def)

lemma set_proc_simps [simp]:
  "us_data (set_proc sid p s) = us_data s" "us_alive (set_proc sid p s) = us_alive s"
  "us_next (set_proc sid p s) = us_next s" "us_tasks (set_proc sid p s) = us_tasks s"
  "us_pids (set_proc sid p s) = us_pids s"
  "proc_of sid' (set_proc sid p s) = (if sid' = sid then p else proc_of sid' s)"
  by (simp_all add: set_proc_def proc_of_def update_conv)

lemma procOf_eq: "procOf sid s = (proc_of sid s, set_proc sid (proc_of sid s) s)"
  by (simp add: procOf_def)

lemma mod_proc_simps [simp]:
  "us_data (mod_proc sid f s) = us_data s" "us_alive (mod_proc sid f s) = us_alive s"
  "us_next (mod_proc sid f s) = us_next s" "us_tasks (mod_proc sid f s) = us_tasks s"
  "us_pids (mod_proc sid f s) = us_pids s"
  "proc_of sid' (mod_proc sid f s) = (if sid' = sid then f (proc_of sid s) else proc_of sid' s)"
  by (simp_all add: mod_proc_def procOf_eq)

lemma proc_of_frame [simp]:
  "proc_of sid (on_data f s) = proc_of sid s" "proc_of sid (spawn ts s) = proc_of sid s"
  "proc_of sid (s\<lparr> us_pids := fs \<rparr>) = proc_of sid s" "proc_of sid (s\<lparr> us_alive := al \<rparr>) = proc_of sid s"
  "proc_of sid (s\<lparr> us_tasks := ts \<rparr>) = proc_of sid s" "proc_of sid (s\<lparr> us_data := d \<rparr>) = proc_of sid s"
  "proc_of sid (s\<lparr> us_files := f' \<rparr>) = proc_of sid s" "proc_of sid (s\<lparr> us_next := n \<rparr>) = proc_of sid s"
  "proc_of sid (s\<lparr> us_backup := b \<rparr>) = proc_of sid s"
  by (simp_all add: proc_of_def on_data_def spawn_def)

text \<open>What a handler that only touches the data leaves alone.\<close>

definition same_procs :: "ui_sys \<Rightarrow> ui_sys \<Rightarrow> bool" where
  "same_procs s s' \<longleftrightarrow> us_alive s' = us_alive s \<and> us_next s' = us_next s \<and> us_tasks s' = us_tasks s \<and>
     us_procs s' = us_procs s"

lemma same_procs_refl [simp]: "same_procs s s" by (simp add: same_procs_def)

lemma same_procs_on_data [simp]: "same_procs s (on_data f t) = same_procs s t"
  by (simp add: same_procs_def)

lemma same_procs_data [simp]: "same_procs s (t\<lparr> us_data := d \<rparr>) = same_procs s t"
  by (simp add: same_procs_def)

lemma save_config_frame:
  "save_config env cfg s = (e, cfg', s') \<Longrightarrow> us_data s' = us_data s \<and> same_procs s s'"
  by (auto simp: save_config_def same_procs_def split: prod.splits)

lemma validate_and_save_frame:
  "validate_and_save env cfg s = (e, cfg', s') \<Longrightarrow> us_data s' = us_data s \<and> same_procs s s'"
  by (auto simp: validate_and_save_def dest: save_config_frame split: prod.splits option.splits)

lemma same_procs_trans: "same_procs s t \<Longrightarrow> same_procs t u \<Longrightarrow> same_procs s u"
  by (simp add: same_procs_def)

lemma set_cfg_frame [simp]: "same_procs s (set_cfg sid f t) = same_procs s t"
  by (simp add: set_cfg_def mutate_def split: prod.splits)

section \<open>Ids\<close>

lemma norm_service_ids:
  assumes "norm_service fresh st prev rest i svc = (None, st', svc')" "ids_fresh fresh"
    and "set (nz_ids st) = set (map uv_ID prev)"
  shows "uv_ID svc' = (if trim_space (uv_ID svc) = [] then fresh i else trim_space (uv_ID svc)) \<and>
    uv_ID svc' \<notin> set (map uv_ID prev) \<and> set (nz_ids st') = set (map uv_ID (prev @ [svc']))"
proof -
  obtain st1 svc1 where n: "norm_identity fresh st i svc = (None, st1, svc1)"
    and m: "normalizeServiceMode svc1 = (None, svc2) \<Longrightarrow> True" for svc2
    using assms(1) by (auto simp: norm_service_def split: prod.splits option.splits)
  have a: "uv_ID svc1 = (if trim_space (uv_ID svc) = [] then fresh i else trim_space (uv_ID svc))"
    "uv_ID svc1 \<notin> set (nz_ids st)" "nz_ids st1 = uv_ID svc1 # nz_ids st"
    using n by (auto simp: norm_identity_def Let_def split: if_splits sum.splits)
  obtain svc2 where mo: "normalizeServiceMode svc1 = (None, svc2)"
    and nw: "norm_network st1 prev rest svc2 = (None, st', svc')"
    using assms(1) n by (auto simp: norm_service_def split: prod.splits option.splits)
  have b: "uv_ID svc2 = uv_ID svc1"
    using mo by (auto simp: normalizeServiceMode_def Let_def split: if_splits sum.splits)
  have c: "uv_ID svc' = uv_ID svc2" "nz_ids st' = nz_ids st1"
    using nw by (auto simp: norm_network_def Let_def split: if_splits sum.splits)
  show ?thesis using a b c assms(3) by auto
qed

fun normal_ids :: "(nat \<Rightarrow> string) \<Rightarrow> nat \<Rightarrow> ui_service list \<Rightarrow> string list" where
  "normal_ids fresh i [] = []"
| "normal_ids fresh i (c # cs) =
     (if trim_space (uv_ID c) = [] then fresh i else trim_space (uv_ID c)) # normal_ids fresh (i + 1) cs"

lemma norm_services_ids:
  "norm_services fresh st prev rest = (None, out) \<Longrightarrow> ids_fresh fresh \<Longrightarrow>
   set (nz_ids st) = set (map uv_ID prev) \<Longrightarrow> distinct (map uv_ID prev) \<Longrightarrow>
   distinct (map uv_ID out) \<and> map uv_ID out = map uv_ID prev @ normal_ids fresh (length prev) rest"
proof (induction rest arbitrary: st prev)
  case (Cons svc rest)
  obtain e st' svc' where n: "norm_service fresh st prev rest (length prev) svc = (e, st', svc')"
    by (metis surj_pair)
  with Cons.prems(1) have e: "e = None" by (auto split: option.splits)
  note k = norm_service_ids[OF n[unfolded e] Cons.prems(2,3)]
  have nn: "norm_services fresh st' (prev @ [svc']) rest = (None, out)" using Cons.prems(1) n e by simp
  have u: "uv_ID svc' \<notin> set (map uv_ID prev)" "set (nz_ids st') = set (map uv_ID (prev @ [svc']))"
    using k by blast+
  have "distinct (map uv_ID (prev @ [svc']))" using u(1) Cons.prems(4) by simp
  note ih = Cons.IH[OF nn Cons.prems(2) u(2) this]
  have "normal_ids fresh (length prev) (svc # rest) = uv_ID svc' # normal_ids fresh (length (prev @ [svc'])) rest"
    using k by simp
  then have "map uv_ID out = map uv_ID prev @ normal_ids fresh (length prev) (svc # rest)"
    using ih[THEN conjunct2] by (simp del: normal_ids.simps)
  with ih[THEN conjunct1] show ?case ..
qed simp

lemma keep_first_auto_ids [simp]: "map uv_ID (keep_first_auto k ss) = map uv_ID ss"
  by (induction k ss rule: keep_first_auto.induct) auto

lemma NormalizeAndValidate_ids:
  assumes "NormalizeAndValidate fresh cfg = (None, out)" "ids_fresh fresh"
  shows "distinct (map uv_ID out)" "map uv_ID out = normal_ids fresh 0 cfg"
  using assms norm_services_ids[of fresh norm_init "[]" cfg]
  by (auto simp: NormalizeAndValidate_def norm_init_def split: prod.splits option.splits)

lemma normal_ids_ok: "ids_fresh fresh \<Longrightarrow> list_all id_ok (normal_ids fresh i cs)"
  by (induction cs arbitrary: i) (auto simp: id_ok_def ids_fresh_def)

lemma normal_ids_append: "normal_ids fresh i (cs @ ds) = normal_ids fresh i cs @ normal_ids fresh (i + length cs) ds"
  by (induction cs arbitrary: i) simp_all

lemma normal_ids_id: "list_all id_ok (map uv_ID cs) \<Longrightarrow> normal_ids fresh i cs = map uv_ID cs"
  by (induction cs arbitrary: i) (auto simp: id_ok_def)

lemma NormalizeAndValidate_ok_ids:
  assumes "NormalizeAndValidate fresh cfg = (None, out)" "ids_fresh fresh"
  shows "list_all id_ok (map uv_ID out)"
  using NormalizeAndValidate_ids(2)[OF assms] normal_ids_ok[OF assms(2)] by simp

lemma save_config_ids:
  assumes "save_config env cfg s = (None, cfg', s')" "ids_fresh (en_fresh env)"
  shows "distinct (map uv_ID cfg')" "map uv_ID cfg' = normal_ids (en_fresh env) 0 cfg"
proof -
  have "NormalizeAndValidate (en_fresh env) cfg = (None, cfg')"
    using assms(1)
    by (auto simp: save_config_def SaveUIConfig_def Let_def split: prod.splits option.splits if_splits)
  from NormalizeAndValidate_ids[OF this assms(2)]
  show "distinct (map uv_ID cfg')" "map uv_ID cfg' = normal_ids (en_fresh env) 0 cfg" .
qed

lemma validate_and_save_ids:
  assumes "validate_and_save env cfg s = (None, cfg', s')" "ids_fresh (en_fresh env)"
  shows "distinct (map uv_ID cfg')" "map uv_ID cfg' = normal_ids (en_fresh env) 0 cfg"
proof -
  obtain c1 where c1: "NormalizeAndValidate (en_fresh env) cfg = (None, c1)"
    and sv: "save_config env c1 s = (None, cfg', s')"
    using assms(1) by (auto simp: validate_and_save_def split: prod.splits option.splits)
  note k = save_config_ids[OF sv assms(2)]
  have "normal_ids (en_fresh env) 0 c1 = map uv_ID c1"
    by (rule normal_ids_id[OF NormalizeAndValidate_ok_ids[OF c1 assms(2)]])
  with k NormalizeAndValidate_ids[OF c1 assms(2)]
  show "distinct (map uv_ID cfg')" "map uv_ID cfg' = normal_ids (en_fresh env) 0 cfg" by simp_all
qed

section \<open>List and index agree\<close>

lemma FindService_ID: "FindService cfg sid = Some c \<Longrightarrow> uv_ID c = sid"
  by (auto simp: FindService_def find_Some_iff)

lemma index_ID: "ui_wf d \<Longrightarrow> um_index d sid = Some r \<Longrightarrow> uv_ID (ss_cfg (um_heap d r)) = sid"
  by (simp add: ui_wf_def)

lemma shape_set_cfg:
  assumes "\<And>r. um_index (us_data s) sid = Some r \<Longrightarrow>
    uv_ID (f (ss_cfg (um_heap (us_data s) r))) = uv_ID (ss_cfg (um_heap (us_data s) r))"
  shows "shape (us_data (set_cfg sid f s)) = shape (us_data s)"
  using assms by (auto simp: set_cfg_def mutate_def mutateService_def shape_upd_cfg split: option.splits)

lemma shape_set_cfg_const:
  "ui_wf (us_data s) \<Longrightarrow> uv_ID c = sid \<Longrightarrow> shape (us_data (set_cfg sid (\<lambda>_. c) s)) = shape (us_data s)"
  by (rule shape_set_cfg) (simp add: index_ID)

lemma mutate_shape:
  assumes "mutate sid fn s = (e, s')" "\<And>r d e' d'. fn r d = (e', d') \<Longrightarrow> shape d' = shape d"
  shows "shape (us_data s') = shape (us_data s) \<and> same_procs s s'"
  using assms by (auto simp: mutate_def mutateService_def split: option.splits prod.splits)

text \<open>Adding a service under a new id.\<close>

lemma add_service_wf:
  assumes "ui_wf d" "uv_ID (ss_cfg v) \<notin> set (map uv_ID (allServicesConfig d))" "id_ok (uv_ID (ss_cfg v))"
  shows "ui_wf (add_service v d)" "map uv_ID (allServicesConfig (add_service v d)) =
    map uv_ID (allServicesConfig d) @ [uv_ID (ss_cfg v)]"
proof -
  have n: "um_next d \<notin> set (um_services d)" using assms(1) by (auto simp: ui_wf_def)
  have h: "map (\<lambda>r. uv_ID (ss_cfg (((um_heap d)(um_next d := v)) r))) (um_services d) =
      map (\<lambda>r. uv_ID (ss_cfg (um_heap d r))) (um_services d)"
    using n by (intro map_cong) auto
  show m: "map uv_ID (allServicesConfig (add_service v d)) =
    map uv_ID (allServicesConfig d) @ [uv_ID (ss_cfg v)]"
    using h by (simp add: allServicesConfig_def add_service_def comp_def)
  show "ui_wf (add_service v d)"
    unfolding ui_wf_def m using assms n
    by (auto simp: ui_wf_def add_service_def allServicesConfig_def less_Suc_eq) (metis image_eqI)
qed

lemma add_services_wf:
  "ui_wf d \<Longrightarrow> distinct (map uv_ID (allServicesConfig d) @ map uv_ID cs) \<Longrightarrow>
   list_all id_ok (map uv_ID cs) \<Longrightarrow> ui_wf (fold (\<lambda>c. add_service (new_service c st)) cs d)"
proof (induction cs arbitrary: d)
  case (Cons c cs)
  note a = add_service_wf[of d "new_service c st"]
  have "ui_wf (add_service (new_service c st) d)"
    "map uv_ID (allServicesConfig (add_service (new_service c st) d)) = map uv_ID (allServicesConfig d) @ [uv_ID c]"
    using a Cons.prems by (auto simp: new_service_def)
  then show ?case using Cons.IH[of "add_service (new_service c st) d"] Cons.prems by simp
qed simp

lemma replaceServices_wf:
  "distinct (map uv_ID cs) \<Longrightarrow> list_all id_ok (map uv_ID cs) \<Longrightarrow> ui_wf (replaceServices cs d)"
  unfolding replaceServices_def
  by (rule add_services_wf) (simp_all add: ui_wf_def allServicesConfig_def)

lemma replaced_idle_wf:
  assumes "save_config env cfg s = (None, cfg', s')" "ids_fresh (en_fresh env)"
  shows "ui_wf (replaceServices cfg' d)"
  using replaceServices_wf[OF save_config_ids(1)[OF assms]] save_config_ids(2)[OF assms]
    normal_ids_ok[OF assms(2)] by simp

lemma stopServiceProcess_data [simp]: "us_data (stopServiceProcess sid s) = us_data s"
  by (simp add: stopServiceProcess_def procOf_eq KillProcess_def Let_def split: option.splits)

lemma startCmdProcess_data: "startCmdProcess env sid s = (r, s') \<Longrightarrow> us_data s' = us_data s"
  by (auto simp: startCmdProcess_def procOf_eq Let_def spawn_def set_proc_def split: if_splits)

lemma start_commit_wf:
  assumes "start_commit env sid prev next s = (e, s')" "ui_wf (us_data s)" "uv_ID prev = sid"
  shows "shape (us_data s') = shape (us_data s) \<and> same_procs s s'"
proof -
  define s1 where "s1 = set_cfg sid (\<lambda>c. c\<lparr> uv_WorkType := uv_WorkType next, uv_TunKey := uv_TunKey next,
                 uv_LocalMode := uv_LocalMode next, uv_Transport := uv_Transport next,
                 uv_ForwardRules := uv_ForwardRules next, uv_AllowLocalProxy := uv_AllowLocalProxy next \<rparr>) s"
  have a: "shape (us_data s1) = shape (us_data s)" "same_procs s s1"
    unfolding s1_def by (simp_all add: shape_set_cfg)
  obtain ve cfg s2 where v: "validate_and_save env (allServicesConfig (us_data s1)) s1 = (ve, cfg, s2)"
    by (metis surj_pair)
  note b = validate_and_save_frame[OF v]
  have w: "ui_wf (us_data s2)" using a b assms(2) ui_wf_shape[OF a(1)] by simp
  have "s' = set_cfg sid (\<lambda>_. prev) s2 \<or> s' = s2 \<or> (\<exists>c. uv_ID c = sid \<and> s' = set_cfg sid (\<lambda>_. c) s2)"
    using assms(1) v unfolding start_commit_def s1_def[symmetric]
    by (auto dest: FindService_ID split: option.splits)
  moreover have "shape (us_data (set_cfg sid (\<lambda>_. c) s2)) = shape (us_data s2)" if "uv_ID c = sid" for c
    by (rule shape_set_cfg_const[OF w that])
  ultimately show ?thesis using a b same_procs_trans[OF a(2)] assms(3)
    by (elim disjE exE conjE) simp_all
qed

lemma start_launch_shape:
  "start_launch env sid wt s = (e, s') \<Longrightarrow> shape (us_data s') = shape (us_data s)"
  by (auto simp: start_launch_def Let_def dest!: startCmdProcess_data split: prod.splits option.splits)

lemma HandleStart_shape:
  assumes "HandleStart env sid rq s = (e, s')" "ui_wf (us_data s)"
  shows "shape (us_data s') = shape (us_data s)"
proof (cases "\<exists>cur next s1. lookupService sid (us_data s) = Some cur \<and>
    start_commit env sid (ss_cfg cur) next (set_proc sid (proc_of sid s) s) = (None, s1) \<and>
    start_launch env sid (uv_WorkType next) s1 = (e, s')")
  case True
  then obtain cur "next" s1 where k: "lookupService sid (us_data s) = Some cur"
    "start_commit env sid (ss_cfg cur) next (set_proc sid (proc_of sid s) s) = (None, s1)"
    "start_launch env sid (uv_WorkType next) s1 = (e, s')" by blast
  have "uv_ID (ss_cfg cur) = sid" using k(1) index_ID[OF assms(2)] by (auto simp: lookupService_def)
  then show ?thesis using start_commit_wf[OF k(2)] start_launch_shape[OF k(3)] assms(2) by simp
next
  case False
  consider "us_data s' = us_data s" |
    cur "next" where "lookupService sid (us_data s) = Some cur"
      "start_commit env sid (ss_cfg cur) next (set_proc sid (proc_of sid s) s) = (e, s')"
    using assms(1) False
    by (auto simp: HandleStart_def procOf_eq Let_def split: if_splits option.splits prod.splits)
  then show ?thesis
  proof cases
    case 2
    have "uv_ID (ss_cfg cur) = sid" using 2(1) index_ID[OF assms(2)] by (auto simp: lookupService_def)
    then show ?thesis using start_commit_wf[OF 2(2)] assms(2) by simp
  qed simp
qed

lemma auto_start_one_shape: "ui_wf (us_data s) \<Longrightarrow> shape (us_data (auto_start_one env sid s)) = shape (us_data s)"
proof -
  assume w: "ui_wf (us_data s)"
  define s1 where "s1 = on_data (appendLogEntry sid (LogAutoStarting (serviceName sid (us_data s)))) s"
  obtain e s2 where h: "HandleStart env sid (case lookupService sid (us_data s1) of
      Some v \<Rightarrow> auto_request (ss_cfg v) | None \<Rightarrow> empty_request) s1 = (e, s2)" by (metis surj_pair)
  have "shape (us_data s1) = shape (us_data s)" by (simp add: s1_def)
  moreover from this have "ui_wf (us_data s1)" using w ui_wf_shape by blast
  ultimately show ?thesis using HandleStart_shape[OF h] h
    by (auto simp: auto_start_one_def Let_def s1_def split: option.splits)
qed

lemma tryAutoStart_shape: "ui_wf (us_data s) \<Longrightarrow> shape (us_data (tryAutoStart envs s)) = shape (us_data s)"
proof -
  have "ui_wf (us_data s) \<Longrightarrow> shape (us_data (fold (\<lambda>sid. auto_start_one (envs sid) sid) sids s)) = shape (us_data s)"
    for sids
  proof (induction sids arbitrary: s)
    case (Cons sid sids)
    have a: "shape (us_data (auto_start_one (envs sid) sid s)) = shape (us_data s)"
      by (rule auto_start_one_shape[OF Cons.prems])
    then have "ui_wf (us_data (auto_start_one (envs sid) sid s))" using Cons.prems ui_wf_shape by blast
    with Cons.IH a show ?case by simp
  qed simp
  then show "ui_wf (us_data s) \<Longrightarrow> ?thesis" by (simp add: tryAutoStart_def)
qed

lemma detectNAT_shape:
  "ui_wf (us_data s) \<Longrightarrow> shape (us_data (detectNAT envs ps s)) = shape (us_data s)"
proof (induction envs ps s rule: detectNAT.induct)
  case (2 envs ps s)
  have "ui_wf (us_data (on_data (UILog LogNATListenFailed) s))"
    using 2(2) ui_wf_shape[of "UILog LogNATListenFailed (us_data s)" "us_data s"] by simp
  from 2(1)[OF this] show ?case by simp
next
  case (3 envs p1 p2 ps s)
  show ?case
  proof (cases "p1 = 0 \<or> p2 = 0")
    case True
    have "ui_wf (us_data (on_data (UILog LogNATProbeFailed) s))"
      using 3(2) ui_wf_shape[of "UILog LogNATProbeFailed (us_data s)" "us_data s"] by simp
    from 3(1)[OF True this] True show ?thesis by simp
  next
    case False
    let ?t = "on_data (broadcastState \<circ> set_all_status (\<lambda>st. if st = Detecting then Idle else st)
      \<circ> SetNATHint (p1 \<noteq> p2)) s"
    have a: "shape (us_data ?t) = shape (us_data s)" by simp
    then have "ui_wf (us_data ?t)" using 3(2) ui_wf_shape by blast
    from tryAutoStart_shape[OF this] a False show ?thesis by simp
  qed
qed simp

text \<open>Handlers that only change settings: neither the shape nor anything about processes changes.\<close>

definition keeps :: "ui_sys \<Rightarrow> ui_sys \<Rightarrow> bool" where
  "keeps s s' \<longleftrightarrow> shape (us_data s') = shape (us_data s) \<and> same_procs s s'"

lemma keeps_refl [simp]: "keeps s s" by (simp add: keeps_def)

lemma keeps_wf: "keeps s s' \<Longrightarrow> ui_wf (us_data s') = ui_wf (us_data s)"
  by (rule ui_wf_shape) (simp add: keeps_def)

lemma keeps_trans: "keeps s t \<Longrightarrow> keeps t u \<Longrightarrow> keeps s u"
  by (auto simp: keeps_def intro: same_procs_trans)

lemma keeps_on_data: "(\<And>d. shape (f d) = shape d) \<Longrightarrow> keeps s (on_data f t) = keeps s t"
  by (simp add: keeps_def)

lemma keeps_set_cfg:
  "(\<And>c. uv_ID (f c) = uv_ID c) \<Longrightarrow> keeps s (set_cfg sid f t) = keeps s t"
  by (simp add: keeps_def shape_set_cfg)

lemma mutate_keeps:
  assumes "\<And>r d. shape (snd (fn r d)) = shape d" "\<And>s1. keeps s1 (snd (k s1))"
  shows "keeps s (snd (case mutate sid fn s of (Some e, s1) \<Rightarrow> (Some e, s1) | (None, s1) \<Rightarrow> k s1))"
proof -
  obtain e s1 where m: "mutate sid fn s = (e, s1)" by (metis surj_pair)
  have "keeps s s1" unfolding keeps_def
    by (rule mutate_shape[OF m]) (metis assms(1) snd_conv)
  then show ?thesis using m keeps_trans[OF _ assms(2)] by (simp split: option.splits)
qed

lemma save_keeps:
  assumes "\<And>cfg s2. keeps s2 (snd (k cfg s2))"
  shows "keeps s (snd (case validate_and_save env c s of (Some e, cfg, s2) \<Rightarrow> (Some e, s2)
     | (None, cfg, s2) \<Rightarrow> k cfg s2))"
proof -
  obtain e cfg s2 where v: "validate_and_save env c s = (e, cfg, s2)" by (metis surj_pair)
  have "keeps s s2" using validate_and_save_frame[OF v] by (simp add: keeps_def)
  then show ?thesis using v keeps_trans[OF _ assms] by (simp split: option.splits)
qed

lemma HandleForwards_keeps: "keeps s (snd (HandleForwards env sid m rs s))"
  unfolding HandleForwards_def
proof (rule mutate_keeps)
  show "keeps s1 (snd (case validate_and_save env (allServicesConfig (us_data s1)) s1 of (e, cfg, s2) \<Rightarrow> (e, s2)))"
    for s1
    by (auto simp: keeps_def dest!: validate_and_save_frame split: prod.split)
qed (simp add: Let_def shape_upd_cfg)

lemma HandleSetAutoStart_keeps: "keeps s (snd (HandleSetAutoStart env sid au rq s))"
  unfolding HandleSetAutoStart_def
proof (rule mutate_keeps, goal_cases)
  case (2 s1)
  show ?case by (rule save_keeps) (simp add: Let_def keeps_on_data)
qed (simp add: Let_def shape_upd_cfg)

lemma HandleRename_keeps: "keeps s (snd (HandleRename env sid name s))"
  unfolding HandleRename_def
proof (rule mutate_keeps, goal_cases)
  case (2 s1)
  show ?case by (rule save_keeps) (simp add: Let_def keeps_on_data keeps_set_cfg split: option.split)
qed (simp add: shape_upd_cfg)

lemma HandleUpdateConfig_keeps: "keeps s (snd (HandleUpdateConfig env sid rq au s))"
  unfolding HandleUpdateConfig_def
proof (rule mutate_keeps, goal_cases)
  case (2 s1)
  show ?case by (rule save_keeps) (simp add: keeps_on_data)
qed (simp add: Let_def shape_upd_cfg)

lemma HandleCreateService_wf:
  assumes "ui_wf (us_data s)" "ids_fresh (en_fresh env)"
  shows "ui_wf (us_data (snd (HandleCreateService env s)))"
proof -
  let ?cfg = "allServicesConfig (us_data s)"
  have new: "ui_wf (add_service (new_service (last cfg') Idle) (us_data s1))"
    if v: "validate_and_save env (?cfg @ [svc]) s = (None, cfg', s1)" and e: "uv_ID svc = []" for svc cfg' s1
  proof -
    note k = validate_and_save_ids[OF v assms(2)]
    have i: "map uv_ID cfg' = map uv_ID ?cfg @ [en_fresh env (length ?cfg)]"
      using k(2) assms(1) e by (simp add: normal_ids_append normal_ids_id ui_wf_def)
    have "cfg' \<noteq> []" using i by auto
    then have l: "uv_ID (last cfg') = en_fresh env (length ?cfg)" using i last_map[of cfg' uv_ID] by simp
    have "id_ok (en_fresh env (length ?cfg))" using assms(2) by (simp add: id_ok_def ids_fresh_def)
    moreover have "en_fresh env (length ?cfg) \<notin> set (map uv_ID ?cfg)" using k(1) i by simp
    moreover have "us_data s1 = us_data s" using validate_and_save_frame[OF v] by simp
    ultimately show ?thesis
      using add_service_wf(1)[of "us_data s" "new_service (last cfg') Idle"] assms(1) l
      by (simp add: new_service_def)
  qed
  show ?thesis
    using assms(1) new
    by (auto simp: HandleCreateService_def Let_def dest: validate_and_save_frame
        split: option.split prod.split)
qed

text \<open>Taking a service out of the table, and putting it back at the end.\<close>

lemma drop_service_wf: "ui_wf d \<Longrightarrow> ui_wf (drop_service sid d)"
  by (auto simp: ui_wf_def allServicesConfig_def list_all_iff drop_service_def)

lemma restore_service_wf:
  assumes "ui_wf d" "um_index d sid = Some r"
  shows "ui_wf (restore_service sid r (drop_service sid d))"
proof -
  note w = assms(1)[unfolded ui_wf_def allServicesConfig_def list_all_iff]
  have "r \<in> set (um_services d)" "uv_ID (ss_cfg (um_heap d r)) = sid" using w assms(2) by blast+
  moreover have "um_index d x = Some q \<longleftrightarrow> q \<in> set (um_services d) \<and> uv_ID (ss_cfg (um_heap d q)) = x" for x q
    using w by blast
  ultimately show ?thesis
    using w by (auto simp: ui_wf_def allServicesConfig_def list_all_iff drop_service_def restore_service_def)
qed

lemma HandleDeleteService_cases:
  obtains "snd (HandleDeleteService env sid s) = s" |
  r e s1 where "\<not> sp_started (proc_of sid s)" "um_index (us_data s) sid = Some r"
    "saveAllConfig env (s\<lparr> us_data := drop_service sid (us_data s) \<rparr>) = (Some e, s1)"
    "snd (HandleDeleteService env sid s) = on_data (restore_service sid r) s1" |
  r s1 where "\<not> sp_started (proc_of sid s)" "um_index (us_data s) sid = Some r"
    "saveAllConfig env (s\<lparr> us_data := drop_service sid (us_data s) \<rparr>) = (None, s1)"
    "snd (HandleDeleteService env sid s) = on_data (broadcastState \<circ> dropServiceLogs sid)
       (s1\<lparr> us_procs := AList.delete sid (us_procs s1), us_pids := RemoveWorkerPid sid (us_pids s1) \<rparr>)"
proof -
  let ?d = "us_data s" and ?st = "getServiceStatus sid (us_data s)"
  let ?busy = "sp_started (proc_of sid s) \<or>
         (?st \<noteq> Idle \<and> ?st \<noteq> Detecting \<and> ?st \<noteq> ConnectFailed \<and> ?st \<noteq> ConnectingNAT4)"
  show ?thesis
  proof (cases "?busy \<or> um_index ?d sid = None")
    case True
    then have "snd (HandleDeleteService env sid s) = s" by (auto simp: HandleDeleteService_def Let_def)
    then show ?thesis by (rule that(1))
  next
    case False
    then obtain r where r: "um_index ?d sid = Some r" and b: "\<not> ?busy" by auto
    then have st: "\<not> sp_started (proc_of sid s)" by simp
    obtain e s1 where sv: "saveAllConfig env (s\<lparr> us_data := drop_service sid ?d \<rparr>) = (e, s1)"
      by (metis surj_pair)
    note h = HandleDeleteService_def[of env sid s, unfolded Let_def, unfolded if_not_P[OF b] r option.case]
    show ?thesis
    proof (cases e)
      case None
      show ?thesis
        by (rule that(3)[OF st r]) (use None sv in \<open>simp_all add: h\<close>)
    next
      case (Some x)
      show ?thesis
        by (rule that(2)[OF st r]) (use Some sv in \<open>simp_all add: h\<close>)
    qed
  qed
qed

lemma saveAllConfig_frame: "saveAllConfig env s = (e, s') \<Longrightarrow> us_data s' = us_data s \<and> same_procs s s'"
  by (auto simp: saveAllConfig_def dest!: save_config_frame split: prod.splits)

lemma HandleDeleteService_wf:
  assumes "ui_wf (us_data s)"
  shows "ui_wf (us_data (snd (HandleDeleteService env sid s)))"
proof (cases rule: HandleDeleteService_cases[of env sid s])
  case (2 r e s1)
  then show ?thesis using saveAllConfig_frame[OF 2(3)] restore_service_wf[OF assms 2(2)] by simp
next
  case (3 r s1)
  then show ?thesis using saveAllConfig_frame[OF 3(3)] drop_service_wf[OF assms, of sid] by simp
qed (use assms in simp)

lemma copyFileForBackup_data [simp]:
  "us_data (copyFileForBackup env s) = us_data s" "same_procs s (copyFileForBackup env s)"
  by (auto simp: copyFileForBackup_def same_procs_def split: option.splits backup_outcome.splits)

lemma HandleImportConfig_wf:
  assumes "ui_wf (us_data s)" "ids_fresh (en_fresh env)"
  shows "ui_wf (us_data (snd (HandleImportConfig env cfg s)))"
  using assms replaced_idle_wf[OF _ assms(2)]
  by (auto simp: HandleImportConfig_def dest: save_config_frame
      split: option.split prod.split sum.split)

lemma HandleStop_wf [simp]: "ui_wf (us_data (HandleStop sid s)) = ui_wf (us_data s)"
  by (simp add: HandleStop_def procOf_eq disableAutoRestart_def Let_def)

lemma autoRestart_wf: "ui_wf (us_data s) \<Longrightarrow> ui_wf (us_data (autoRestartProcess env sid s))"
  by (auto simp: autoRestartProcess_def procOf_eq Let_def dest!: startCmdProcess_data
      split: option.splits prod.splits)

lemma waiter_exit_data [simp]: "us_data (waiter_exit sid cmd gen s) = us_data s"
  by (simp add: waiter_exit_def procOf_eq Let_def)

lemma run_task_wf: "ui_wf (us_data s) \<Longrightarrow> ui_wf (us_data (run_task env t s))"
  by (cases t) (simp_all add: autoRestart_wf Let_def)

lemma handle_line_wf [simp]: "ui_wf (us_data (handle_line sid line s)) = ui_wf (us_data s)"
  by (simp add: handle_line_def updateConnectionStatus_def give_up_later_def disableAutoRestart_def Let_def
      split: option.split pro_status.split)

lemma cleanup_data [simp]: "us_data (CleanupOrphanedCmdProcesses env s) = us_data s"
proof -
  have "us_data (fold (cleanup_pid_file env) fs s) = us_data s" for fs
    by (induction fs arbitrary: s)
       (simp_all add: cleanup_pid_file_def KillProcess_def Let_def split: option.split)
  then show ?thesis by (simp add: CleanupOrphanedCmdProcesses_def)
qed

lemma kill_fold_data [simp]:
  "us_data (fold (\<lambda>(sid, p). case sp_cmd p of None \<Rightarrow> id | Some cmd \<Rightarrow> KillProcess cmd) ps s) = us_data s"
  by (induction ps arbitrary: s) (auto simp: KillProcess_def split: option.split)

lemma StopCmdProcess_wf [simp]: "ui_wf (us_data (StopCmdProcess env s)) = ui_wf (us_data s)"
proof -
  have "shape (fold (\<lambda>sid d. setServiceStatus sid Idle (resetProxyListen sid d)) ids d) = shape d" for ids d
    by (rule shape_fold) simp
  from ui_wf_shape[OF this] show ?thesis by (simp add: StopCmdProcess_def Let_def)
qed

text \<open>Whatever the outcome of the normalisation, a service keeps an id that is already in order.\<close>

lemma norm_service_any_id:
  assumes "norm_service fresh st prev rest i svc = (e, st', svc')"
  shows "uv_ID svc' = (if trim_space (uv_ID svc) = [] then fresh i else trim_space (uv_ID svc))"
proof -
  obtain e1 st1 svc1 where n: "norm_identity fresh st i svc = (e1, st1, svc1)" by (metis surj_pair)
  have a: "uv_ID svc1 = (if trim_space (uv_ID svc) = [] then fresh i else trim_space (uv_ID svc))"
    using n by (auto simp: norm_identity_def Let_def split: if_splits sum.splits)
  obtain e2 svc2 where m: "normalizeServiceMode svc1 = (e2, svc2)" by (metis surj_pair)
  have b: "uv_ID svc2 = uv_ID svc1"
    using m by (auto simp: normalizeServiceMode_def Let_def split: if_splits sum.splits)
  have c: "uv_ID x = uv_ID svc2" if "norm_network st1 prev rest svc2 = (e3, st3, x)" for e3 st3 x
    using that by (auto simp: norm_network_def Let_def split: if_splits sum.splits)
  show ?thesis
  proof (cases e1)
    case (Some x)
    then have "svc' = svc1" using assms n by (simp add: norm_service_def)
    with a show ?thesis by simp
  next
    case None
    show ?thesis
    proof (cases e2)
      case (Some y)
      then have "svc' = svc2" using assms n m None by (simp add: norm_service_def)
      with a b show ?thesis by simp
    next
      case none2: None
      have "norm_network st1 prev rest svc2 = (e, st', svc')"
        using assms n m None none2 by (simp add: norm_service_def)
      from c[OF this] a b show ?thesis by simp
    qed
  qed
qed

lemma norm_services_keep_ids:
  "list_all id_ok (map uv_ID rest) \<Longrightarrow>
   map uv_ID (snd (norm_services fresh st prev rest)) = map uv_ID (prev @ rest)"
proof (induction rest arbitrary: st prev)
  case (Cons svc rest)
  obtain e st' svc' where n: "norm_service fresh st prev rest (length prev) svc = (e, st', svc')"
    by (metis surj_pair)
  have "uv_ID svc' = uv_ID svc"
    using norm_service_any_id[OF n] Cons.prems by (simp add: id_ok_def)
  then show ?case using Cons.IH[of st' "prev @ [svc']"] Cons.prems n by (simp split: option.split)
qed simp

lemma NormalizeAndValidate_keep_ids:
  "list_all id_ok (map uv_ID cfg) \<Longrightarrow> map uv_ID (snd (NormalizeAndValidate fresh cfg)) = map uv_ID cfg"
  using norm_services_keep_ids[of cfg fresh norm_init "[]"]
  by (auto simp: NormalizeAndValidate_def split: prod.split option.split)

lemma NormalizeAndValidate_first_id:
  assumes "ids_fresh fresh" "uv_ID c = []"
  shows "map uv_ID (snd (NormalizeAndValidate fresh [c])) = [fresh 0]"
proof -
  obtain e st' c' where n: "norm_service fresh norm_init [] [] 0 c = (e, st', c')" by (metis surj_pair)
  have "uv_ID c' = fresh 0" using norm_service_any_id[OF n] assms(2) by simp
  then show ?thesis
    using n keep_first_auto_ids[of False "[c']"]
    by (simp add: NormalizeAndValidate_def split: prod.split option.split)
qed

lemma save_config_keep_ids:
  assumes "save_config env cfg s = (e, cfg', s')" "list_all id_ok (map uv_ID cfg)"
  shows "map uv_ID cfg' = map uv_ID cfg"
proof -
  have "cfg' = snd (NormalizeAndValidate (en_fresh env) cfg)"
    using assms(1)
    by (auto simp: save_config_def SaveUIConfig_def Let_def split: prod.splits option.splits if_splits)
  then show ?thesis using NormalizeAndValidate_keep_ids[OF assms(2)] by simp
qed

lemma fill_missing_ids [simp]: "map uv_ID (fill_missing key cs) = map uv_ID cs"
proof -
  have "map uv_ID (map (\<lambda>(i, c). c\<lparr> uv_TunKey := k i c, uv_WorkType := w i c \<rparr>) (enumerate n cs)) = map uv_ID cs"
    for k w n by (induction cs arbitrary: n) auto
  then show ?thesis unfolding fill_missing_def .
qed

lemma init_services_wf:
  assumes "ids_fresh (en_fresh env)"
  shows "ui_wf (us_data (init_services env loaded s))"
proof -
  define cfg0 where
    "cfg0 = (case NormalizeAndValidate (en_fresh env) loaded of (None, c) \<Rightarrow> c | (Some _, c) \<Rightarrow> [])"
  define cfg1 where "cfg1 = fill_missing (en_key env) (if cfg0 = [] then [initial_service] else cfg0)"
  define cfg2 where "cfg2 = snd (NormalizeAndValidate (en_fresh env) cfg1)"
  obtain e cfg3 s1 where sv: "save_config env cfg2 (on_data (\<lambda>d. d\<lparr> um_shared := [] \<rparr>) s) = (e, cfg3, s1)"
    by (metis surj_pair)
  have i0: "distinct (map uv_ID cfg0) \<and> list_all id_ok (map uv_ID cfg0)"
    using NormalizeAndValidate_ids(1)[OF _ assms] NormalizeAndValidate_ok_ids[OF _ assms]
    by (auto simp: cfg0_def split: prod.split option.split)
  have i2: "distinct (map uv_ID cfg2) \<and> list_all id_ok (map uv_ID cfg2)"
  proof (cases "cfg0 = []")
    case True
    obtain c where c: "cfg1 = [c]" "uv_ID c = []"
      using True by (auto simp: cfg1_def fill_missing_def initial_service_def)
    have "id_ok (en_fresh env 0)" using assms by (simp add: ids_fresh_def id_ok_def)
    then show ?thesis using NormalizeAndValidate_first_id[OF assms c(2)] by (simp add: cfg2_def c(1))
  next
    case False
    then have "map uv_ID cfg1 = map uv_ID cfg0" by (simp add: cfg1_def)
    then show ?thesis using i0 NormalizeAndValidate_keep_ids[of cfg1] by (simp add: cfg2_def)
  qed
  have "map uv_ID cfg3 = map uv_ID cfg2" using save_config_keep_ids[OF sv] i2 by blast
  then have "ui_wf (replaceServices cfg3 (us_data s1))" using replaceServices_wf[of cfg3] i2 by simp
  then show ?thesis
    using sv by (simp add: init_services_def Let_def cfg0_def[symmetric] cfg1_def[symmetric] cfg2_def[symmetric])
qed

section \<open>Every reachable table is well formed\<close>

lemma ui_step_wf: "ui_step strict s s' \<Longrightarrow> ui_wf (us_data s) \<Longrightarrow> ui_wf (us_data s')"
proof (induction rule: ui_step.cases)
  case (do_start env s sid rq)
  then show ?case using HandleStart_shape[of env sid rq s] ui_wf_shape by (metis prod.collapse)
next
  case (do_detect envs s probes)
  then show ?case using detectNAT_shape ui_wf_shape by blast
qed (simp_all add: HandleForwards_keeps[THEN keeps_wf] HandleSetAutoStart_keeps[THEN keeps_wf]
      HandleRename_keeps[THEN keeps_wf] HandleUpdateConfig_keeps[THEN keeps_wf]
      HandleCreateService_wf HandleDeleteService_wf HandleImportConfig_wf run_task_wf)

lemma ui_reach_wf: "ui_reach strict s \<Longrightarrow> ui_wf (us_data s)"
  by (induction rule: ui_reach.induct) (simp_all add: init_services_wf ui_step_wf)

end
