(* ===== verification/Ui_Lifecycle.thy ===== *)
theory Ui_Lifecycle
  imports Ui_Invariant
begin

text \<open>
  What the interface promises about its workers: the process record, the live processes and the waiters
  of a service agree in every reachable state. Then what the handlers leave behind when something fails:
  a start is rolled back, and a rejected name stays in memory and blocks the operations that follow.
\<close>

section \<open>The process invariant\<close>

definition worker_ok :: "svc_proc \<Rightarrow> string \<Rightarrow> ui_sys \<Rightarrow> bool" where
  "worker_ok p sid s \<longleftrightarrow>
     (\<forall>pid. (pid, Some sid) \<in> set (us_alive s) \<longrightarrow> sp_started p \<and> sp_cmd p = Some pid) \<and>
     (\<forall>cmd gen. TWait sid cmd gen \<in> set (us_tasks s) \<longrightarrow>
        0 < gen \<and> gen \<le> sp_gen p \<and> (gen = sp_gen p \<longrightarrow> sp_cmd p = None \<or> sp_cmd p = Some cmd)) \<and>
     (sp_started p \<longrightarrow> (\<exists>cmd. sp_cmd p = Some cmd \<and> TWait sid cmd (sp_gen p) \<in> set (us_tasks s)))"

definition proc_inv :: "ui_sys \<Rightarrow> bool" where
  "proc_inv s \<longleftrightarrow> 0 < us_next s \<and> (\<forall>p \<in> set (us_alive s). fst p < us_next s) \<and>
     (\<forall>sid cmd gen. TWait sid cmd gen \<in> set (us_tasks s) \<longrightarrow> 0 < cmd) \<and>
     distinct (map fst (us_alive s)) \<and> (\<forall>sid. worker_ok (proc_of sid s) sid s)"

lemma proc_invD: "proc_inv s \<Longrightarrow> worker_ok (proc_of sid s) sid s"
  by (simp add: proc_inv_def)

lemma worker_okI:
  assumes "\<And>pid. (pid, Some sid) \<in> set (us_alive s) \<Longrightarrow> sp_started p \<and> sp_cmd p = Some pid"
    and "\<And>cmd gen. TWait sid cmd gen \<in> set (us_tasks s) \<Longrightarrow>
      0 < gen \<and> gen \<le> sp_gen p \<and> (gen = sp_gen p \<longrightarrow> sp_cmd p = None \<or> sp_cmd p = Some cmd)"
    and "sp_started p \<Longrightarrow> \<exists>cmd. sp_cmd p = Some cmd \<and> TWait sid cmd (sp_gen p) \<in> set (us_tasks s)"
  shows "worker_ok p sid s"
  using assms unfolding worker_ok_def by blast

lemma alive_worker:
  "proc_inv s \<Longrightarrow> (pid, Some sid) \<in> set (us_alive s) \<Longrightarrow>
   sp_started (proc_of sid s) \<and> sp_cmd (proc_of sid s) = Some pid"
  using proc_invD[of s sid] unfolding worker_ok_def by blast

lemma waiter_known:
  "proc_inv s \<Longrightarrow> TWait sid cmd gen \<in> set (us_tasks s) \<Longrightarrow>
   0 < gen \<and> gen \<le> sp_gen (proc_of sid s) \<and>
   (gen = sp_gen (proc_of sid s) \<longrightarrow> sp_cmd (proc_of sid s) = None \<or> sp_cmd (proc_of sid s) = Some cmd)"
  using proc_invD[of s sid] unfolding worker_ok_def by blast

lemma started_waited:
  "proc_inv s \<Longrightarrow> sp_started (proc_of sid s) \<Longrightarrow>
   \<exists>cmd. sp_cmd (proc_of sid s) = Some cmd \<and> TWait sid cmd (sp_gen (proc_of sid s)) \<in> set (us_tasks s)"
  using proc_invD[of s sid] unfolding worker_ok_def by blast

lemma proc_inv_base:
  "proc_inv s \<Longrightarrow> 0 < us_next s \<and> (\<forall>p \<in> set (us_alive s). fst p < us_next s) \<and>
     distinct (map fst (us_alive s)) \<and> (\<forall>sid cmd gen. TWait sid cmd gen \<in> set (us_tasks s) \<longrightarrow> 0 < cmd)"
  by (simp add: proc_inv_def)

lemma proc_inv_frame:
  assumes "proc_inv s" "us_alive s' = us_alive s" "us_next s' = us_next s"
    and "\<And>sid. proc_of sid s' = proc_of sid s"
    and "\<And>sid cmd gen. TWait sid cmd gen \<in> set (us_tasks s') \<longleftrightarrow> TWait sid cmd gen \<in> set (us_tasks s)"
  shows "proc_inv s'"
  using assms unfolding proc_inv_def worker_ok_def by simp

lemma same_procs_inv: "same_procs s s' \<Longrightarrow> proc_inv s \<Longrightarrow> proc_inv s'"
  by (erule proc_inv_frame) (simp_all add: same_procs_def proc_of_def)

lemma proc_inv_set_same: "proc_inv (set_proc sid (proc_of sid s) s) = proc_inv s"
  by (rule iffI; erule proc_inv_frame) simp_all

lemma proc_inv_on_data [simp]: "proc_inv (on_data f s) = proc_inv s"
  by (rule iffI; erule proc_inv_frame) simp_all

lemma proc_inv_pids [simp]: "proc_inv (s\<lparr> us_pids := fs \<rparr>) = proc_inv s"
  by (rule iffI; erule proc_inv_frame) simp_all

definition no_wait :: "ui_task list \<Rightarrow> bool" where
  "no_wait ts \<longleftrightarrow> list_all (\<lambda>t. case t of TWait _ _ _ \<Rightarrow> False | _ \<Rightarrow> True) ts"

lemma no_wait_simps [simp]: "no_wait [] = True"
  "no_wait (t # ts) = ((\<forall>a b c. t \<noteq> TWait a b c) \<and> no_wait ts)"
  by (auto simp: no_wait_def split: ui_task.splits)

lemma no_wait_set: "no_wait ts \<Longrightarrow> TWait a b c \<notin> set ts"
  by (induction ts) auto

lemma proc_inv_spawn: "no_wait ts \<Longrightarrow> proc_inv (spawn ts s) = proc_inv s"
  by (rule iffI; erule proc_inv_frame) (simp_all add: no_wait_set)

text \<open>Only the restart mark changes.\<close>

lemma proc_inv_auto:
  assumes "proc_inv s" "\<And>p. sp_started (f p) = sp_started p \<and> sp_cmd (f p) = sp_cmd p \<and> sp_gen (f p) = sp_gen p"
  shows "proc_inv (mod_proc sid f s)"
  using assms unfolding proc_inv_def worker_ok_def by simp

text \<open>A service that is not started has no live worker, and a record that is not started may lose its command.\<close>

lemma proc_inv_stopped:
  assumes "proc_inv s" "\<forall>pid. (pid, Some sid) \<notin> set (us_alive s)"
    and "\<not> sp_started p" "sp_gen p = sp_gen (proc_of sid s)"
    and "sp_cmd p = None \<or> sp_cmd p = sp_cmd (proc_of sid s)"
  shows "proc_inv (set_proc sid p s)"
proof -
  have "worker_ok p sid s"
    by (rule worker_okI) (use assms(2-5) waiter_known[OF assms(1)] in fastforce)+
  then show ?thesis using assms(1) unfolding proc_inv_def worker_ok_def by simp
qed

lemma not_started_no_worker: "proc_inv s \<Longrightarrow> \<not> sp_started (proc_of sid s) \<Longrightarrow> (pid, Some sid) \<notin> set (us_alive s)"
  by (auto simp: proc_inv_def worker_ok_def)

lemma proc_inv_kill: "proc_inv s \<Longrightarrow> proc_inv (s\<lparr> us_alive := filter (\<lambda>p. fst p \<noteq> pid) (us_alive s) \<rparr>)"
  unfolding proc_inv_def worker_ok_def by (auto simp: distinct_map_filter)

lemma proc_inv_KillProcess [intro]: "proc_inv s \<Longrightarrow> proc_inv (KillProcess pid s)"
  by (simp add: KillProcess_def proc_inv_kill)

section \<open>Stopping and starting\<close>

lemma KillProcess_simps [simp]:
  "us_data (KillProcess pid s) = us_data s" "us_next (KillProcess pid s) = us_next s"
  "us_tasks (KillProcess pid s) = us_tasks s" "proc_of sid (KillProcess pid s) = proc_of sid s"
  "us_pids (KillProcess pid s) = us_pids s" "us_procs (KillProcess pid s) = us_procs s"
  by (simp_all add: KillProcess_def)

text \<open>Killing first and clearing the record afterwards gives the same state.\<close>

lemma stopServiceProcess_eq:
  "stopServiceProcess sid s =
     (let p = proc_of sid s;
          s1 = (case sp_cmd p of None \<Rightarrow> s | Some cmd \<Rightarrow> KillProcess cmd s)
      in (set_proc sid (p\<lparr> sp_autoRestart := False, sp_cmd := None, sp_started := False \<rparr>) s1)
           \<lparr> us_pids := RemoveWorkerPid sid (us_pids s) \<rparr>)"
  by (simp add: stopServiceProcess_def procOf_eq Let_def KillProcess_def set_proc_def update_conv'
      split: option.split)

lemma cmd_pos: "proc_inv s \<Longrightarrow> (pid, Some sid) \<in> set (us_alive s) \<Longrightarrow> 0 < pid"
  unfolding proc_inv_def worker_ok_def by (metis option.inject)

lemma stop_no_worker:
  assumes "proc_inv s"
  shows "(pid, Some sid) \<notin> set (us_alive (case sp_cmd (proc_of sid s) of None \<Rightarrow> s | Some c \<Rightarrow> KillProcess c s))"
  using assms cmd_pos[OF assms, of pid sid]
  by (auto simp: KillProcess_def proc_inv_def worker_ok_def split: option.split)

lemma stopServiceProcess_inv: "proc_inv s \<Longrightarrow> proc_inv (stopServiceProcess sid s)"
proof -
  assume i: "proc_inv s"
  let ?s1 = "case sp_cmd (proc_of sid s) of None \<Rightarrow> s | Some c \<Rightarrow> KillProcess c s"
  have "proc_inv ?s1" using i by (auto split: option.split)
  moreover have "proc_of sid ?s1 = proc_of sid s" by (simp split: option.split)
  ultimately show ?thesis
    unfolding stopServiceProcess_eq Let_def using stop_no_worker[OF i]
    by (simp del: set_proc_simps add: proc_inv_stopped)
qed

text \<open>Starting a worker for a service that is not started, together with the waiter its caller spawns.\<close>

lemma startCmdProcess_inv:
  assumes "startCmdProcess env sid s = (Some (cmd, gen), s')" "proc_inv s" "\<not> sp_started (proc_of sid s)"
  shows "proc_inv (spawn [TWait sid cmd gen] s')"
proof -
  note nw = not_started_no_worker[OF assms(2,3)]
  have s': "us_alive s' = (us_next s, Some sid) # us_alive s" "us_next s' = Suc (us_next s)"
    "cmd = us_next s" "gen = Suc (sp_gen (proc_of sid s))"
    "us_tasks s' = us_tasks s @ [TReader sid cmd, TReader sid cmd]"
    "\<And>x. proc_of x s' = (if x = sid then (proc_of sid s)\<lparr> sp_gen := gen, sp_cmd := Some cmd, sp_started := True \<rparr>
       else proc_of x s)"
    using assms(1) by (auto simp: startCmdProcess_def procOf_eq Let_def split: if_splits)
  have d: "us_next s \<notin> fst ` set (us_alive s)" using assms(2) unfolding proc_inv_def by fastforce
  have "worker_ok (proc_of x s') x (spawn [TWait sid cmd gen] s')" for x
  proof (cases "x = sid")
    case True
    show ?thesis
      by (rule worker_okI) (use True nw in \<open>auto simp: s' dest: waiter_known[OF assms(2)]\<close>)
  next
    case False
    show ?thesis
      by (rule worker_okI) (use False alive_worker[OF assms(2)] waiter_known[OF assms(2)] started_waited[OF assms(2)]
        in \<open>auto simp: s'\<close>)
  qed
  then show ?thesis
    using d proc_inv_base[OF assms(2)] unfolding proc_inv_def by (auto simp: s'(1,2,3,5) less_Suc_eq)
qed

lemma startCmdProcess_fails: "startCmdProcess env sid s = (None, s') \<Longrightarrow> s' = s"
  by (auto simp: startCmdProcess_def procOf_eq Let_def split: if_splits)

text \<open>A task may be dropped unless it is the waiter of the running generation.\<close>

lemma proc_inv_drop_task:
  assumes "proc_inv s" "\<And>sid cmd. t = TWait sid cmd (sp_gen (proc_of sid s)) \<Longrightarrow> \<not> sp_started (proc_of sid s)"
  shows "proc_inv (s\<lparr> us_tasks := remove1 t (us_tasks s) \<rparr>)"
proof -
  have "worker_ok (proc_of x s) x (s\<lparr> us_tasks := remove1 t (us_tasks s) \<rparr>)" for x
  proof (rule worker_okI)
    show "sp_started (proc_of x s) \<and> sp_cmd (proc_of x s) = Some pid"
      if "(pid, Some x) \<in> set (us_alive (s\<lparr> us_tasks := remove1 t (us_tasks s) \<rparr>))" for pid
      using that alive_worker[OF assms(1)] by simp
    show "0 < gen \<and> gen \<le> sp_gen (proc_of x s) \<and>
        (gen = sp_gen (proc_of x s) \<longrightarrow> sp_cmd (proc_of x s) = None \<or> sp_cmd (proc_of x s) = Some cmd)"
      if "TWait x cmd gen \<in> set (us_tasks (s\<lparr> us_tasks := remove1 t (us_tasks s) \<rparr>))" for cmd gen
      using that by (intro waiter_known[OF assms(1)]) (auto dest: set_remove1_subset[THEN subsetD])
    assume st: "sp_started (proc_of x s)"
    then obtain c where c: "sp_cmd (proc_of x s) = Some c" "TWait x c (sp_gen (proc_of x s)) \<in> set (us_tasks s)"
      using started_waited[OF assms(1)] by blast
    then have "t \<noteq> TWait x c (sp_gen (proc_of x s))" using assms(2) st by blast
    with c show "\<exists>cmd. sp_cmd (proc_of x s) = Some cmd \<and> TWait x cmd (sp_gen (proc_of x s)) \<in>
        set (us_tasks (s\<lparr> us_tasks := remove1 t (us_tasks s) \<rparr>))"
      by (simp add: in_set_remove1)
  qed
  then show ?thesis
    using proc_inv_base[OF assms(1)] set_remove1_subset[of t "us_tasks s"] unfolding proc_inv_def
    by simp blast
qed

lemma waiter_exit_inv:
  assumes "proc_inv s" "TWait sid cmd gen \<in> set (us_tasks s)" "\<not> processAlive cmd s"
  shows "proc_inv (waiter_exit sid cmd gen (s\<lparr> us_tasks := remove1 (TWait sid cmd gen) (us_tasks s) \<rparr>))"
    (is "proc_inv (waiter_exit sid cmd gen ?t)")
proof (cases "sp_gen (proc_of sid s) = gen")
  case False
  then have "proc_inv ?t" by (intro proc_inv_drop_task[OF assms(1)]) auto
  then show ?thesis using False proc_inv_set_same[of sid ?t] by (simp add: waiter_exit_def procOf_eq)
next
  case True
  let ?p = "proc_of sid s"
  let ?q = "?p\<lparr> sp_started := False, sp_cmd := (if sp_cmd ?p = Some cmd then None else sp_cmd ?p) \<rparr>"
  have w: "sp_cmd ?p = None \<or> sp_cmd ?p = Some cmd"
    using waiter_known[OF assms(1,2)] True by simp
  have "0 < cmd" using proc_inv_base[OF assms(1)] assms(2) by blast
  then have "cmd \<notin> fst ` set (us_alive s)" using assms(3) by (simp add: processAlive_def)
  then have nw: "\<forall>pid. (pid, Some sid) \<notin> set (us_alive s)"
    using alive_worker[OF assms(1), of _ sid] w by force
  have "proc_inv (set_proc sid ?q s)"
    by (rule proc_inv_stopped[OF assms(1) nw]) auto
  then have "proc_inv ((set_proc sid ?q s)\<lparr> us_tasks := remove1 (TWait sid cmd gen) (us_tasks (set_proc sid ?q s)) \<rparr>)"
    by (rule proc_inv_drop_task) auto
  then show ?thesis
    by (rule proc_inv_frame) (use True in \<open>auto simp: waiter_exit_def procOf_eq Let_def\<close>)
qed

lemma proc_inv_mod_stopped:
  assumes "proc_inv s" "\<not> sp_started (proc_of sid s)"
    and "\<And>p. \<not> sp_started (f p) \<and> sp_gen (f p) = sp_gen p \<and> sp_cmd (f p) = sp_cmd p"
  shows "proc_inv (mod_proc sid f s)"
proof -
  have "proc_inv (set_proc sid (f (proc_of sid s)) s)"
    by (rule proc_inv_stopped[OF assms(1)]) (use assms not_started_no_worker[OF assms(1,2)] in auto)
  then show ?thesis by (rule proc_inv_frame) simp_all
qed

section \<open>The handlers keep the invariant\<close>

lemma start_launch_inv:
  assumes "proc_inv s" "\<not> sp_started (proc_of sid s)"
  shows "proc_inv (snd (start_launch env sid wt s))"
proof -
  define s2 where "s2 = mod_proc sid (\<lambda>p. p\<lparr> sp_autoRestart := True \<rparr>)
    (on_data (setServiceStatus sid (if wt = workTypeLocal then Connecting else Starting) \<circ> resetProxyListen sid) s)"
  have i: "proc_inv s2" unfolding s2_def by (rule proc_inv_auto) (simp_all add: assms(1))
  have n: "\<not> sp_started (proc_of sid s2)" using assms(2) by (simp add: s2_def)
  obtain r s3 where st: "startCmdProcess env sid s2 = (r, s3)" by (metis surj_pair)
  show ?thesis
  proof (cases r)
    case None
    then have "s3 = s2" using st startCmdProcess_fails by blast
    then show ?thesis using st None i n
      by (simp add: start_launch_def Let_def s2_def[symmetric] proc_inv_mod_stopped)
  next
    case (Some cg)
    then show ?thesis using st startCmdProcess_inv[OF _ i n]
      by (cases cg) (simp add: start_launch_def Let_def s2_def[symmetric])
  qed
qed

lemma validate_and_save_procs: "validate_and_save env c s = (e, cfg, s') \<Longrightarrow> same_procs s s'"
  using validate_and_save_frame by blast

lemma start_commit_procs: "start_commit env sid prev next s = (e, s') \<Longrightarrow> same_procs s s'"
proof -
  define f where "f = (\<lambda>c::ui_service. c\<lparr> uv_WorkType := uv_WorkType next, uv_TunKey := uv_TunKey next,
                 uv_LocalMode := uv_LocalMode next, uv_Transport := uv_Transport next,
                 uv_ForwardRules := uv_ForwardRules next, uv_AllowLocalProxy := uv_AllowLocalProxy next \<rparr>)"
  obtain ve cfg s2 where v: "validate_and_save env (allServicesConfig (us_data (set_cfg sid f s))) (set_cfg sid f s)
      = (ve, cfg, s2)" by (metis surj_pair)
  have "same_procs s s2" using same_procs_trans[OF _ validate_and_save_procs[OF v], of s] by simp
  then show "start_commit env sid prev next s = (e, s') \<Longrightarrow> ?thesis"
    using v unfolding start_commit_def f_def[symmetric] Let_def
    by (cases ve) (auto split: option.splits)
qed

lemma same_procs_proc_of: "same_procs s s' \<Longrightarrow> proc_of sid s' = proc_of sid s"
  by (simp add: same_procs_def proc_of_def)

lemma HandleStart_cases:
  obtains e where "HandleStart env sid rq s = (Some e, set_proc sid (proc_of sid s) s)" |
  cur e s1 where "lookupService sid (us_data s) = Some cur" "\<not> sp_started (proc_of sid s)"
    "start_commit env sid (ss_cfg cur) (start_candidate rq (ss_cfg cur)) (set_proc sid (proc_of sid s) s) = (Some e, s1)"
    "HandleStart env sid rq s = (Some e, s1)" |
  cur s1 where "lookupService sid (us_data s) = Some cur" "\<not> sp_started (proc_of sid s)"
    "start_commit env sid (ss_cfg cur) (start_candidate rq (ss_cfg cur)) (set_proc sid (proc_of sid s) s) = (None, s1)"
    "HandleStart env sid rq s = start_launch env sid (uv_WorkType (start_candidate rq (ss_cfg cur))) s1"
proof -
  let ?s = "set_proc sid (proc_of sid s) s" and ?st = "getServiceStatus sid (us_data s)"
  show ?thesis
  proof (cases "sp_started (proc_of sid s) \<or> ?st = Detecting \<or> ?st = Stopping \<or> lookupService sid (us_data s) = None")
    case True
    then have "\<exists>e. HandleStart env sid rq s = (Some e, ?s)" by (auto simp: HandleStart_def procOf_eq Let_def)
    then show ?thesis using that(1) by blast
  next
    case False
    then obtain cur where c: "lookupService sid (us_data s) = Some cur" and n: "\<not> sp_started (proc_of sid s)" by auto
    let ?n = "start_candidate rq (ss_cfg cur)"
    obtain e s1 where sc: "start_commit env sid (ss_cfg cur) ?n ?s = (e, s1)" by (metis surj_pair)
    show ?thesis
    proof (cases "start_checks env sid rq ?n (us_data s)")
      case (Some x)
      show ?thesis
        by (rule that(1)[of x]) (use False c Some in \<open>simp add: HandleStart_def procOf_eq Let_def\<close>)
    next
      case None
      show ?thesis
      proof (cases e)
        case e: None
        show ?thesis
          by (rule that(3)[OF c n]) (use False c None sc e in \<open>simp_all add: HandleStart_def procOf_eq Let_def\<close>)
      next
        case e: (Some y)
        show ?thesis
          by (rule that(2)[OF c n]) (use False c None sc e in \<open>simp_all add: HandleStart_def procOf_eq Let_def\<close>)
      qed
    qed
  qed
qed

lemma HandleStart_inv: "proc_inv s \<Longrightarrow> proc_inv (snd (HandleStart env sid rq s))"
proof (cases rule: HandleStart_cases[of env sid rq s])
  case (2 cur e s1)
  then show "proc_inv s \<Longrightarrow> ?thesis"
    using same_procs_inv[OF start_commit_procs[OF 2(3)]] proc_inv_set_same by simp
next
  case (3 cur s1)
  have "same_procs (set_proc sid (proc_of sid s) s) s1" by (rule start_commit_procs[OF 3(3)])
  then show "proc_inv s \<Longrightarrow> ?thesis"
    using same_procs_inv same_procs_proc_of[of "set_proc sid (proc_of sid s) s" s1 sid] proc_inv_set_same[of sid s] 3
    by (metis start_launch_inv set_proc_simps(6))
qed (simp add: proc_inv_set_same)

lemma autoRestart_inv: "proc_inv s \<Longrightarrow> proc_inv (autoRestartProcess env sid s)"
proof (cases "sp_autoRestart (proc_of sid s) \<and> \<not> sp_started (proc_of sid s)")
  case False
  then show "proc_inv s \<Longrightarrow> ?thesis" by (auto simp: autoRestartProcess_def procOf_eq proc_inv_set_same)
next
  case True
  assume i: "proc_inv s"
  define s3 where "s3 = on_data (resetProxyListen sid) (on_data (appendLogEntry sid
    (LogRestarting (serviceName sid (us_data s)))) (set_proc sid (proc_of sid s) s))"
  have i3: "proc_inv s3" "\<not> sp_started (proc_of sid s3)" using i True by (simp_all add: s3_def proc_inv_set_same)
  obtain r s4 where st: "startCmdProcess env sid s3 = (r, s4)" by (metis surj_pair)
  show ?thesis
  proof (cases r)
    case None
    then have "s4 = s3" using st startCmdProcess_fails by blast
    then show ?thesis using st None i3 True
      by (simp add: autoRestartProcess_def procOf_eq Let_def s3_def[symmetric] proc_inv_mod_stopped)
  next
    case (Some cg)
    then show ?thesis using st startCmdProcess_inv[OF _ i3] True
      by (cases cg) (simp add: autoRestartProcess_def procOf_eq Let_def s3_def[symmetric])
  qed
qed

lemma disableAutoRestart_inv: "proc_inv s \<Longrightarrow> proc_inv (disableAutoRestart sid s)"
  unfolding disableAutoRestart_def by (rule proc_inv_auto) simp_all

lemma HandleStop_inv: "proc_inv s \<Longrightarrow> proc_inv (HandleStop sid s)"
  by (simp add: HandleStop_def procOf_eq Let_def proc_inv_set_same proc_inv_spawn disableAutoRestart_inv)

lemma handle_line_inv: "proc_inv s \<Longrightarrow> proc_inv (handle_line sid line s)"
  by (simp add: handle_line_def updateConnectionStatus_def give_up_later_def Let_def proc_inv_spawn
      disableAutoRestart_inv split: option.split pro_status.split)

lemma kill_fold_inv:
  "proc_inv s \<Longrightarrow> proc_inv (fold (\<lambda>(sid, p). case sp_cmd p of None \<Rightarrow> id | Some cmd \<Rightarrow> KillProcess cmd) ps s)"
proof (induction ps arbitrary: s)
  case (Cons a ps)
  obtain sid p where a: "a = (sid, p)" by (cases a)
  have "proc_inv ((case sp_cmd p of None \<Rightarrow> id | Some cmd \<Rightarrow> KillProcess cmd) s)"
    using Cons.prems by (auto split: option.split)
  then show ?case using Cons.IH a by simp
qed simp

lemma kill_fold_alive:
  "q \<in> set (us_alive (fold (\<lambda>(sid, p). case sp_cmd p of None \<Rightarrow> id | Some cmd \<Rightarrow> KillProcess cmd) ps s)) \<Longrightarrow>
   q \<in> set (us_alive s) \<and> (\<forall>sid p. (sid, p) \<in> set ps \<longrightarrow> sp_cmd p = Some (fst q) \<longrightarrow> fst q = 0)"
proof (induction ps arbitrary: s)
  case (Cons a ps)
  obtain sid p where a: "a = (sid, p)" by (cases a)
  let ?t = "(case sp_cmd p of None \<Rightarrow> id | Some cmd \<Rightarrow> KillProcess cmd) s"
  have "q \<in> set (us_alive ?t)" "\<forall>sid p. (sid, p) \<in> set ps \<longrightarrow> sp_cmd p = Some (fst q) \<longrightarrow> fst q = 0"
    using Cons.IH[of ?t] Cons.prems a by auto
  then show ?case using a by (auto simp: KillProcess_def split: option.splits if_splits)
qed simp

lemma kill_fold_procs [simp]:
  "us_procs (fold (\<lambda>(sid, p). case sp_cmd p of None \<Rightarrow> id | Some cmd \<Rightarrow> KillProcess cmd) ps s) = us_procs s"
  by (induction ps arbitrary: s) (auto split: option.split)

lemma map_of_cleared: "map_of (map (\<lambda>(sid, p). (sid, f p)) ps) sid = map_option f (map_of ps sid)"
  by (induction ps) auto

lemma cleanup_inv: "proc_inv s \<Longrightarrow> proc_inv (CleanupOrphanedCmdProcesses env s)"
proof -
  have "proc_inv s \<Longrightarrow> proc_inv (cleanup_pid_file env f s)" for f s
    by (auto simp: cleanup_pid_file_def Let_def split: option.split)
  then have "proc_inv s \<Longrightarrow> proc_inv (fold (cleanup_pid_file env) fs s)" for fs
    by (induction fs arbitrary: s) simp_all
  then show "proc_inv s \<Longrightarrow> ?thesis" by (simp add: CleanupOrphanedCmdProcesses_def)
qed

lemma StopCmdProcess_inv:
  assumes "proc_inv s"
  shows "proc_inv (StopCmdProcess env s)"
proof -
  let ?c = "\<lambda>p. p\<lparr> sp_cmd := None, sp_started := False, sp_autoRestart := False \<rparr>"
  define s1 where "s1 = fold (\<lambda>(sid, p). case sp_cmd p of None \<Rightarrow> id | Some cmd \<Rightarrow> KillProcess cmd) (us_procs s) s"
  define s2 where "s2 = s1\<lparr> us_procs := map (\<lambda>(sid, p). (sid, ?c p)) (us_procs s1) \<rparr>"
  have i1: "proc_inv s1" unfolding s1_def by (rule kill_fold_inv[OF assms])
  have po: "proc_of sid s2 = (if proc_of sid s1 = new_proc then new_proc else ?c (proc_of sid s1))" for sid
    by (auto simp: s2_def proc_of_def map_of_cleared new_proc_def split: option.splits)
  have p1: "proc_of sid s1 = proc_of sid s" for sid by (simp add: s1_def proc_of_def)
  have nw: "(pid, Some sid) \<notin> set (us_alive s1)" for pid sid
  proof
    assume a: "(pid, Some sid) \<in> set (us_alive s1)"
    then have w: "sp_started (proc_of sid s) \<and> sp_cmd (proc_of sid s) = Some pid"
      using alive_worker[OF i1 a] p1 by simp
    then have "proc_of sid s \<noteq> new_proc" by (auto simp: new_proc_def)
    then have "(sid, proc_of sid s) \<in> set (us_procs s)"
      by (auto simp: proc_of_def map_of_SomeD split: option.splits)
    then show False using kill_fold_alive[OF a[unfolded s1_def]] w cmd_pos[OF i1 a] by auto
  qed
  have q: "\<not> sp_started (proc_of sid s2)" "sp_cmd (proc_of sid s2) = None"
    "sp_gen (proc_of sid s2) = sp_gen (proc_of sid s1)" for sid
    using po[of sid] by (simp_all add: new_proc_def split: if_splits)
  have f: "us_alive s2 = us_alive s1" "us_tasks s2 = us_tasks s1" "us_next s2 = us_next s1"
    by (simp_all add: s2_def)
  have "worker_ok (proc_of sid s2) sid s2" for sid
    by (rule worker_okI) (simp_all add: f q nw waiter_known[OF i1])
  then have "proc_inv s2" using proc_inv_base[OF i1] unfolding proc_inv_def by (simp add: f)
  then show ?thesis
    unfolding StopCmdProcess_def Let_def s1_def[symmetric] s2_def[symmetric] by (simp add: cleanup_inv)
qed

lemma HandleDeleteService_inv:
  assumes "proc_inv s" "\<forall>cmd gen. TWait sid cmd gen \<notin> set (us_tasks s)"
  shows "proc_inv (snd (HandleDeleteService env sid s))"
proof (cases rule: HandleDeleteService_cases[of env sid s])
  case (2 r e s1)
  have "same_procs s s1" using saveAllConfig_frame[OF 2(3)] by (simp add: same_procs_def)
  then show ?thesis using 2(4) same_procs_inv[OF _ assms(1)] by simp
next
  case (3 r s1)
  have "same_procs s s1" using saveAllConfig_frame[OF 3(3)] by (simp add: same_procs_def)
  then have f: "us_alive s1 = us_alive s" "us_next s1 = us_next s" "us_tasks s1 = us_tasks s"
    and po: "\<And>x. proc_of x s1 = proc_of x s" by (auto simp: same_procs_def proc_of_def)
  let ?t = "s1\<lparr> us_procs := AList.delete sid (us_procs s1) \<rparr>"
  have pt: "proc_of x ?t = (if x = sid then new_proc else proc_of x s)" for x
    using po[of x] by (simp add: proc_of_def delete_conv)
  have "worker_ok (proc_of x ?t) x ?t" for x
    by (rule worker_okI)
       (use assms(2) not_started_no_worker[OF assms(1) 3(1)] alive_worker[OF assms(1)]
          waiter_known[OF assms(1)] started_waited[OF assms(1)]
        in \<open>auto simp: pt f new_proc_def split: if_splits\<close>)
  then have "proc_inv ?t" using proc_inv_base[OF assms(1)] unfolding proc_inv_def by (simp add: f)
  then have "proc_inv (?t\<lparr> us_pids := RemoveWorkerPid sid (us_pids s1) \<rparr>)" by simp
  then show ?thesis using 3(4) by simp
qed (use assms in simp)

lemma HandleCreateService_procs: "same_procs s (snd (HandleCreateService env s))"
  by (auto simp: HandleCreateService_def Let_def dest: validate_and_save_procs split: option.split prod.split)

lemma save_after_backup: "save_config env c (copyFileForBackup env s) = (e, c', s') \<Longrightarrow> same_procs s s'"
  using same_procs_trans[OF copyFileForBackup_data(2)] save_config_frame by blast

lemma HandleImportConfig_procs: "same_procs s (snd (HandleImportConfig env cfg s))"
  by (auto simp: HandleImportConfig_def dest: save_after_backup split: option.split prod.split sum.split)

lemma keeps_inv: "keeps s s' \<Longrightarrow> proc_inv s \<Longrightarrow> proc_inv s'"
  by (auto simp: keeps_def intro: same_procs_inv)

lemma auto_start_one_inv: "proc_inv s \<Longrightarrow> proc_inv (auto_start_one env sid s)"
proof -
  assume i: "proc_inv s"
  define s1 where "s1 = on_data (appendLogEntry sid (LogAutoStarting (serviceName sid (us_data s)))) s"
  have k: "proc_inv s2" if "HandleStart env sid rq s1 = (e, s2)" for rq e s2
    using HandleStart_inv[of s1 env sid rq] i that by (simp add: s1_def)
  show ?thesis
    unfolding auto_start_one_def Let_def s1_def[symmetric]
    by (auto dest: k split: option.split prod.split)
qed

lemma tryAutoStart_inv: "proc_inv s \<Longrightarrow> proc_inv (tryAutoStart envs s)"
proof -
  have "proc_inv s \<Longrightarrow> proc_inv (fold (\<lambda>sid. auto_start_one (envs sid) sid) sids s)" for sids
    by (induction sids arbitrary: s) (simp_all add: auto_start_one_inv)
  then show "proc_inv s \<Longrightarrow> ?thesis" by (simp add: tryAutoStart_def)
qed

lemma detectNAT_inv: "proc_inv s \<Longrightarrow> proc_inv (detectNAT envs ps s)"
  by (induction envs ps s rule: detectNAT.induct) (simp_all add: tryAutoStart_inv)

lemma run_task_inv:
  assumes "proc_inv s" "t \<in> set (us_tasks s)" "task_ready t s"
  shows "proc_inv (run_task env t (s\<lparr> us_tasks := remove1 t (us_tasks s) \<rparr>))"
proof (cases "\<exists>sid cmd gen. t = TWait sid cmd gen")
  case True
  then show ?thesis using waiter_exit_inv[OF assms(1)] assms(2,3) by (auto simp: task_ready_def)
next
  case False
  then have "proc_inv (s\<lparr> us_tasks := remove1 t (us_tasks s) \<rparr>)"
    by (intro proc_inv_drop_task[OF assms(1)]) auto
  then show ?thesis using False
    by (cases t) (simp_all add: autoRestart_inv stopServiceProcess_inv proc_inv_spawn Let_def)
qed

lemma ui_step_inv: "ui_step True s s' \<Longrightarrow> proc_inv s \<Longrightarrow> proc_inv s'"
proof (induction rule: ui_step.cases)
  case (do_other s)
  have "worker_ok (proc_of x s) x (s\<lparr> us_alive := (us_next s, None) # us_alive s, us_next := Suc (us_next s) \<rparr>)" for x
    by (rule worker_okI) (use alive_worker[OF do_other(3)] waiter_known[OF do_other(3)] started_waited[OF do_other(3)]
      do_other in auto)
  then show ?case using proc_inv_base do_other unfolding proc_inv_def by fastforce
qed (simp_all add: HandleStart_inv HandleStop_inv keeps_inv[OF HandleForwards_keeps]
   keeps_inv[OF HandleSetAutoStart_keeps] keeps_inv[OF HandleRename_keeps] keeps_inv[OF HandleUpdateConfig_keeps]
   same_procs_inv[OF HandleCreateService_procs] same_procs_inv[OF HandleImportConfig_procs]
   HandleDeleteService_inv detectNAT_inv StopCmdProcess_inv run_task_inv handle_line_inv proc_inv_kill)

lemma init_services_inv: "ui_initial s \<Longrightarrow> proc_inv (init_services env loaded s)"
proof -
  assume i: "ui_initial s"
  have "worker_ok (proc_of x s) x s" for x
    by (rule worker_okI) (use i in \<open>auto simp: ui_initial_def proc_of_def new_proc_def\<close>)
  then have s: "proc_inv s" using i unfolding proc_inv_def ui_initial_def by simp
  show ?thesis
    using same_procs_inv[OF _ s] unfolding init_services_def Let_def
    by (auto dest!: save_config_frame simp: same_procs_def on_data_def split: prod.split)
qed

lemma ui_reach_inv: "ui_reach True s \<Longrightarrow> proc_inv s"
  by (induction rule: ui_reach.induct) (simp_all add: init_services_inv ui_step_inv)

section \<open>Starting is all or nothing\<close>

lemma set_cfg_data:
  "us_data (set_cfg sid f s) =
     (case um_index (us_data s) sid of None \<Rightarrow> us_data s | Some r \<Rightarrow> upd_cfg r f (us_data s))"
  by (simp add: set_cfg_def mutate_def mutateService_def split: option.split)

lemma upd_cfg_back: "upd_cfg r (\<lambda>_. ss_cfg (um_heap d r)) (upd_cfg r f d) = d"
  by (simp add: upd_cfg_def upd_svc_def)

lemma start_commit_rolls_back:
  assumes "start_commit env sid (ss_cfg cur) next s = (Some e, s')" "lookupService sid (us_data s) = Some cur"
  shows "us_data s' = us_data s"
proof -
  obtain r where r: "um_index (us_data s) sid = Some r" "cur = um_heap (us_data s) r"
    using assms(2) by (auto simp: lookupService_def)
  define f where "f = (\<lambda>c::ui_service. c\<lparr> uv_WorkType := uv_WorkType next, uv_TunKey := uv_TunKey next,
                 uv_LocalMode := uv_LocalMode next, uv_Transport := uv_Transport next,
                 uv_ForwardRules := uv_ForwardRules next, uv_AllowLocalProxy := uv_AllowLocalProxy next \<rparr>)"
  obtain ve cfg s2 where v: "validate_and_save env (allServicesConfig (us_data (set_cfg sid f s))) (set_cfg sid f s)
      = (ve, cfg, s2)" by (metis surj_pair)
  have d2: "us_data s2 = upd_cfg r f (us_data s)"
    using validate_and_save_frame[OF v] r(1) by (simp add: set_cfg_data)
  have "s' = set_cfg sid (\<lambda>_. ss_cfg cur) s2"
    using assms(1) v unfolding start_commit_def f_def[symmetric] Let_def by (cases ve) auto
  then show ?thesis using d2 r upd_cfg_back[of r "us_data s" f]
    by (simp add: set_cfg_data upd_cfg_def upd_svc_def)
qed

lemma startCmdProcess_result:
  assumes "startCmdProcess env sid s = (Some (cmd, gen), s')"
  shows "cmd = us_next s" "us_alive s' = (us_next s, Some sid) # us_alive s"
    "gen = Suc (sp_gen (proc_of sid s))" "proc_of sid s' = (proc_of sid s)\<lparr> sp_gen := gen, sp_cmd := Some cmd, sp_started := True \<rparr>"
  using assms by (auto simp: startCmdProcess_def procOf_eq Let_def split: if_splits)

lemma start_launch_result:
  assumes "start_launch env sid wt s = (err, s')"
  shows "case err of
      None \<Rightarrow> us_alive s' = (us_next s, Some sid) # us_alive s \<and>
        proc_of sid s' = \<lparr> sp_cmd = Some (us_next s), sp_gen = Suc (sp_gen (proc_of sid s)),
                           sp_started = True, sp_autoRestart = True \<rparr> \<and>
        TWait sid (us_next s) (Suc (sp_gen (proc_of sid s))) \<in> set (us_tasks s')
    | Some e \<Rightarrow> e = StartFailed \<and> us_alive s' = us_alive s \<and> \<not> sp_started (proc_of sid s')"
proof -
  define s2 where "s2 = mod_proc sid (\<lambda>p. p\<lparr> sp_autoRestart := True \<rparr>)
    (on_data (setServiceStatus sid (if wt = workTypeLocal then Connecting else Starting) \<circ> resetProxyListen sid) s)"
  have p2: "us_next s2 = us_next s" "us_alive s2 = us_alive s"
    "proc_of sid s2 = (proc_of sid s)\<lparr> sp_autoRestart := True \<rparr>" by (simp_all add: s2_def)
  obtain r s3 where st: "startCmdProcess env sid s2 = (r, s3)" by (metis surj_pair)
  show ?thesis
  proof (cases r)
    case None
    then have "s3 = s2" using st startCmdProcess_fails by blast
    then show ?thesis using st None assms p2 by (auto simp: start_launch_def Let_def s2_def[symmetric])
  next
    case (Some cg)
    obtain cmd gen where cg: "cg = (cmd, gen)" by (cases cg)
    have l: "err = None" "s' = spawn [TWait sid cmd gen] s3"
      using assms st Some cg by (simp_all add: start_launch_def Let_def s2_def[symmetric])
    note k = startCmdProcess_result[OF st[unfolded Some cg]]
    show ?thesis using l k p2 by simp
  qed
qed

section \<open>A rejected change\<close>

text \<open>A first service whose name is too long makes every validation fail.\<close>

definition long_name :: "ui_config \<Rightarrow> bool" where
  "long_name cfg \<longleftrightarrow> (case cfg of [] \<Rightarrow> False
     | c # _ \<Rightarrow> length (runes (trim_space (uv_Name c))) > maxServiceNameRunes)"

lemma long_name_rejected: "long_name cfg \<Longrightarrow> \<exists>e out. NormalizeAndValidate fresh cfg = (Some e, out)"
proof (cases cfg)
  case (Cons c cs)
  assume l: "long_name cfg"
  then have "trim_space (uv_Name c) \<noteq> []" using Cons by (auto simp: long_name_def)
  then have "\<exists>st c'. norm_identity fresh norm_init 0 c = (Some (NameTooLong (trim_space (uv_Name c))), st, c')"
    using l Cons by (simp add: norm_identity_def norm_init_def normalizeServiceName_def Let_def long_name_def)
  then show ?thesis using Cons by (auto simp: NormalizeAndValidate_def norm_service_def)
qed (simp add: long_name_def)

lemma long_name_fails: "long_name cfg \<Longrightarrow> \<exists>e out. validate_and_save env cfg s = (Some (InvalidConfig e), out, s)"
  using long_name_rejected[of cfg "en_fresh env"] by (auto simp: validate_and_save_def)

definition names :: "ui_data \<Rightarrow> string list" where
  "names d = map uv_Name (allServicesConfig d)"

lemma long_name_names: "names d = names d' \<Longrightarrow> long_name (allServicesConfig d) = long_name (allServicesConfig d')"
  by (cases "allServicesConfig d"; cases "allServicesConfig d'") (simp_all add: names_def long_name_def)

lemma long_name_append: "long_name cfg \<Longrightarrow> long_name (cfg @ cs)"
  by (cases cfg) (simp_all add: long_name_def)

lemma names_upd_cfg: "(\<And>c. uv_Name (f c) = uv_Name c) \<Longrightarrow> names (upd_cfg r f d) = names d"
  by (simp add: names_def allServicesConfig_def upd_cfg_def upd_svc_def)

lemma names_set_cfg: "(\<And>c. uv_Name (f c) = uv_Name c) \<Longrightarrow> names (us_data (set_cfg sid f s)) = names (us_data s)"
  by (simp add: set_cfg_data names_upd_cfg split: option.split)

lemma names_clear [simp]: "names (clearOtherAutoStart sid d) = names d"
proof -
  have "names (fold (\<lambda>r. upd_cfg r (\<lambda>c. if uv_ID c \<noteq> sid then c\<lparr> uv_AutoStart := False \<rparr> else c)) rs d) = names d"
    for rs by (induction rs arbitrary: d) (simp_all add: names_upd_cfg)
  then show ?thesis by (simp add: clearOtherAutoStart_def)
qed

lemma mutate_blocked:
  assumes "long_name (allServicesConfig (us_data s))" "\<And>r d. names (snd (fn r d)) = names d"
    and "\<And>s1. long_name (allServicesConfig (us_data s1)) \<Longrightarrow> fst (k s1) \<noteq> None"
  shows "fst (case mutate sid fn s of (Some e, s1) \<Rightarrow> (Some e, s1) | (None, s1) \<Rightarrow> k s1) \<noteq> None"
proof -
  obtain e s1 where m: "mutate sid fn s = (e, s1)" by (metis surj_pair)
  have "names (us_data s1) = names (us_data s)"
    using m assms(2) by (auto simp: mutate_def mutateService_def split: option.splits prod.splits) (metis snd_conv)
  then have "long_name (allServicesConfig (us_data s1))" using long_name_names assms(1) by blast
  then show ?thesis using m assms(3) by (simp split: option.split)
qed

lemma take_settings_Name [simp]: "uv_Name (take_settings rq c) = uv_Name c"
  by (simp add: take_settings_def)

lemma all_blocked:
  assumes "long_name (allServicesConfig (us_data s))"
  shows "fst (HandleStart env sid rq s) \<noteq> None" "\<exists>e. fst (HandleCreateService env s) = Inl e"
    "fst (HandleForwards env sid m rs s) \<noteq> None" "fst (HandleSetAutoStart env sid au rq s) \<noteq> None"
    "fst (HandleUpdateConfig env sid rq au s) \<noteq> None"
proof -
  show "fst (HandleStart env sid rq s) \<noteq> None"
  proof (cases rule: HandleStart_cases[of env sid rq s])
    case (3 cur s1)
    define f where "f = (\<lambda>c::ui_service. let next = start_candidate rq (ss_cfg cur) in
                 c\<lparr> uv_WorkType := uv_WorkType next, uv_TunKey := uv_TunKey next,
                 uv_LocalMode := uv_LocalMode next, uv_Transport := uv_Transport next,
                 uv_ForwardRules := uv_ForwardRules next, uv_AllowLocalProxy := uv_AllowLocalProxy next \<rparr>)"
    let ?t = "set_cfg sid f (set_proc sid (proc_of sid s) s)"
    have "names (us_data ?t) = names (us_data s)"
      using names_set_cfg[of f sid "set_proc sid (proc_of sid s) s"] by (simp add: f_def Let_def)
    then have "long_name (allServicesConfig (us_data ?t))" using long_name_names assms by blast
    from long_name_fails[OF this, of env ?t] 3(3) show ?thesis
      by (auto simp: start_commit_def f_def Let_def)
  qed simp_all
  show "\<exists>e. fst (HandleCreateService env s) = Inl e"
  proof -
    have "\<exists>e out. validate_and_save env (allServicesConfig (us_data s) @ [c]) s = (Some (InvalidConfig e), out, s)" for c
      using long_name_fails[OF long_name_append[OF assms]] by blast
    then show ?thesis
      by (auto simp: HandleCreateService_def Let_def split: option.split prod.split)
         (metis fst_conv option.distinct(1))
  qed
  have v: "fst (validate_and_save env (allServicesConfig (us_data s1)) s1) \<noteq> None"
    if "long_name (allServicesConfig (us_data s1))" for s1
    using long_name_fails[OF that, of env s1] by auto
  have fw: "fst (case validate_and_save env (allServicesConfig (us_data s1)) s1 of (e, cfg, s2) \<Rightarrow> (e, s2)) \<noteq> None"
    if "long_name (allServicesConfig (us_data s1))" for s1
    using long_name_fails[OF that, of env s1] by auto
  have after: "fst (case validate_and_save env (allServicesConfig (us_data s1)) s1 of
      (Some e, cfg, s2) \<Rightarrow> (Some e, s2) | (None, cfg, s2) \<Rightarrow> (None, k s2)) \<noteq> None"
    if "long_name (allServicesConfig (us_data s1))" for s1 and k :: "ui_sys \<Rightarrow> ui_sys"
    using long_name_fails[OF that, of env s1] by auto
  show "fst (HandleForwards env sid m rs s) \<noteq> None"
    unfolding HandleForwards_def
    by (rule mutate_blocked[OF assms]) (use fw in \<open>simp_all add: Let_def names_upd_cfg\<close>)
  show "fst (HandleSetAutoStart env sid au rq s) \<noteq> None"
    unfolding HandleSetAutoStart_def Let_def[of "on_data _ _"]
    by (rule mutate_blocked[OF assms]) (use after in \<open>simp_all add: Let_def names_upd_cfg\<close>)
  show "fst (HandleUpdateConfig env sid rq au s) \<noteq> None"
    unfolding HandleUpdateConfig_def
    by (rule mutate_blocked[OF assms]) (use after in \<open>simp_all add: Let_def names_upd_cfg\<close>)
qed

end
