(* ===== verification/Ui_Run.thy ===== *)
theory Ui_Run
  imports Ui_Lifecycle
begin

text \<open>
  A concrete run of the interface with one service, and the properties: a service never has two workers,
  the table of services is consistent, a start takes place completely or not at all, and two defects: a
  stop scheduled by one worker ends its successor, and a rejected name blocks every later change.
\<close>

section \<open>A run\<close>

definition demo_service :: ui_service where
  "demo_service = \<lparr> uv_ID = ''a1'', uv_Name = ''home'', uv_WorkType = ''Remote'', uv_TunKey = ''k'',
     uv_LocalMode = ''tun'', uv_Transport = ''kcp'', uv_TunIP = ''192.17.19.1'', uv_AutoStart = False,
     uv_ForwardRules = [], uv_AllowLocalProxy = None \<rparr>"

definition demo_env :: ui_env where
  "demo_env = \<lparr> en_fresh = (\<lambda>i. ''f''), en_key = (\<lambda>i. ''q''), en_marshal = (\<lambda>c. ''{}''),
     en_save = \<lparr> so_write = True, so_rename = True, so_open = True, so_copied = None \<rparr>,
     en_backup = BackupNone, en_occupied = (\<lambda>u a. False), en_start = True, en_exe = True, en_app = True,
     en_image = (\<lambda>p. True) \<rparr>"

definition demo_data :: ui_data where
  "demo_data = \<lparr> um_heap = (\<lambda>r. new_service demo_service Detecting), um_next = 0, um_services = [],
     um_index = Map.empty, um_nat = \<lparr> ni_Ready = True, ni_IsNAT4 = False \<rparr>,
     um_upgrade = \<lparr> ug_Need = False, ug_Latest = [], ug_Body = [], ug_DownloadURL = [], ug_Downloading = False,
       ug_Percent = 0, ug_Done = False, ug_Error = [], ug_CheckError = [] \<rparr>,
     um_clients = [], um_shared = [], um_logs = Map.empty, um_version = ''3.4.1'', um_admin = False \<rparr>"

definition demo_at :: "svc_status \<Rightarrow> (string \<Rightarrow> log_line list option) \<Rightarrow> ui_data" where
  "demo_at st lg = demo_data\<lparr> um_heap := (um_heap demo_data)(0 := new_service demo_service st),
     um_next := 1, um_services := [0], um_index := [''a1'' \<mapsto> 0], um_logs := lg \<rparr>"

definition demo_file :: save_files where
  "demo_file = \<lparr> sv_path = Some (''{}'' @ [char_of (10::nat)]), sv_tmp = None \<rparr>"

lemma demo_id: "uv_ID demo_service = ''a1''" by (simp add: demo_service_def)

text \<open>The states of the run: a status and the logs, the record of the service, the processes and tasks.\<close>

definition demo_sys :: "svc_status \<Rightarrow> (string \<Rightarrow> log_line list option) \<Rightarrow> (string \<times> svc_proc) list \<Rightarrow> pid_files
    \<Rightarrow> (nat \<times> string option) list \<Rightarrow> nat \<Rightarrow> ui_task list \<Rightarrow> ui_sys" where
  "demo_sys st lg ps fs al n ts = \<lparr> us_data = demo_at st lg, us_procs = ps, us_pids = fs, us_alive = al,
     us_next = n, us_tasks = ts, us_files = demo_file, us_backup = None \<rparr>"

lemma demo_norm: "NormalizeAndValidate f [demo_service] = (None, [demo_service])"
  by code_simp

lemma demo_save: "save_config demo_env [demo_service] s = (None, [demo_service], s\<lparr> us_files := demo_file \<rparr>)"
  by (simp add: save_config_def SaveUIConfig_def demo_norm demo_env_def demo_file_def Let_def)

lemma broadcast_nobody: "um_clients d = [] \<Longrightarrow> broadcast m d = d"
  by (simp add: broadcast_def)

lemma demo_quiet [simp]: "broadcastState (demo_at st lg) = demo_at st lg"
  by (simp add: broadcastState_def broadcast_nobody demo_at_def demo_data_def)

lemma demo_at_simps [simp]:
  "um_index (demo_at st lg) = [''a1'' \<mapsto> 0]" "um_services (demo_at st lg) = [0]"
  "um_heap (demo_at st lg) 0 = new_service demo_service st" "um_admin (demo_at st lg) = False"
  "allServicesConfig (demo_at st lg) = [demo_service]"
  by (simp_all add: demo_at_def demo_data_def allServicesConfig_def new_service_def)

lemma demo_at_ops [simp]:
  "getServiceStatus ''a1'' (demo_at st lg) = st"
  "lookupService ''a1'' (demo_at st lg) = Some (new_service demo_service st)"
  "setServiceStatus ''a1'' st' (demo_at st lg) = demo_at st' lg"
  "resetProxyListen ''a1'' (demo_at st lg) = demo_at st lg"
  "serviceName ''a1'' (demo_at st lg) = ''home''"
proof -
  show l: "lookupService ''a1'' (demo_at st lg) = Some (new_service demo_service st)"
    by (simp add: lookupService_def)
  show "getServiceStatus ''a1'' (demo_at st lg) = st" by (simp add: getServiceStatus_def l new_service_def)
  show "serviceName ''a1'' (demo_at st lg) = ''home''"
    by (simp add: serviceName_def l new_service_def demo_service_def)
  have "with_service ''a1'' (\<lambda>v. v\<lparr> ss_status := st' \<rparr>) (demo_at st lg) = demo_at st' lg"
    "with_service ''a1'' (set_proxy [] 0 False) (demo_at st lg) = demo_at st lg"
    by (simp_all add: with_service_def upd_svc_def set_proxy_def demo_at_def new_service_def)
  then show "setServiceStatus ''a1'' st' (demo_at st lg) = demo_at st' lg"
    "resetProxyListen ''a1'' (demo_at st lg) = demo_at st lg"
    by (simp_all add: setServiceStatus_def resetProxyListen_def)
qed

lemma demo_log: "appendLogEntry ''a1'' l (demo_at st Map.empty) = demo_at st [''a1'' \<mapsto> [l]]"
  by (simp add: appendLogEntry_def broadcast_nobody snapshotServiceLogs_def appendRing_def maxLogEntries_def
      demo_at_def demo_data_def)

definition demo_boot :: ui_sys where
  "demo_boot = (demo_sys Detecting Map.empty [] [] [] 1 [])\<lparr> us_data := demo_data \<rparr>"

lemma demo_env_fresh: "ids_fresh (en_fresh demo_env)"
  using wit_fresh by (simp add: demo_env_def)

lemma demo_init: "init_services demo_env [demo_service] demo_boot = demo_sys Detecting Map.empty [] [] [] 1 []"
proof -
  have f: "fill_missing (en_key demo_env) [demo_service] = [demo_service]"
    by (simp add: fill_missing_def demo_service_def enumerate_eq_zip)
  show ?thesis
    by (simp add: init_services_def demo_norm demo_save f on_data_def replaceServices_def set_all_status_def
        add_service_def new_service_def upd_svc_def demo_data_def demo_boot_def demo_at_def demo_sys_def demo_id)
qed

lemma demo_detect:
  "detectNAT (\<lambda>_. demo_env) [NatPorts 5 5] (demo_sys Detecting Map.empty [] [] [] 1 [])
   = demo_sys Idle Map.empty [] [] [] 1 []"
proof -
  have "SetNATHint False (demo_at Detecting Map.empty) = demo_at Detecting Map.empty"
    "set_all_status (\<lambda>st. if st = Detecting then Idle else st) (demo_at Detecting Map.empty) = demo_at Idle Map.empty"
    by (simp_all add: SetNATHint_def broadcastState_def broadcast_nobody set_all_status_def upd_svc_def
        demo_at_def demo_data_def new_service_def)
  then show ?thesis
    by (simp add: on_data_def demo_sys_def tryAutoStart_def demo_service_def)
qed

text \<open>Starting the service when it is not started and not busy.\<close>

definition demo_request :: svc_request where
  "demo_request = auto_request demo_service"

lemma demo_candidate: "start_candidate demo_request demo_service = demo_service"
proof -
  have "trim_space ''Remote'' = ''Remote''" "trim_space ''k'' = ''k''" by code_simp+
  then show ?thesis
    by (simp add: start_candidate_def demo_request_def auto_request_def demo_service_def Let_def
        workTypeLocal_def workTypeRemote_def)
qed

lemma demo_sys_sel [simp]:
  "us_data (demo_sys st lg ps fs al n ts) = demo_at st lg" "us_procs (demo_sys st lg ps fs al n ts) = ps"
  "us_pids (demo_sys st lg ps fs al n ts) = fs" "us_alive (demo_sys st lg ps fs al n ts) = al"
  "us_next (demo_sys st lg ps fs al n ts) = n" "us_tasks (demo_sys st lg ps fs al n ts) = ts"
  "us_files (demo_sys st lg ps fs al n ts) = demo_file"
  by (simp_all add: demo_sys_def)

lemma demo_sys_upd [simp]:
  "(demo_sys st lg ps fs al n ts)\<lparr> us_data := demo_at st' lg' \<rparr> = demo_sys st' lg' ps fs al n ts"
  "(demo_sys st lg ps fs al n ts)\<lparr> us_procs := ps' \<rparr> = demo_sys st lg ps' fs al n ts"
  "(demo_sys st lg ps fs al n ts)\<lparr> us_pids := fs' \<rparr> = demo_sys st lg ps fs' al n ts"
  "(demo_sys st lg ps fs al n ts)\<lparr> us_alive := al' \<rparr> = demo_sys st lg ps fs al' n ts"
  "(demo_sys st lg ps fs al n ts)\<lparr> us_next := n' \<rparr> = demo_sys st lg ps fs al n' ts"
  "(demo_sys st lg ps fs al n ts)\<lparr> us_tasks := ts' \<rparr> = demo_sys st lg ps fs al n ts'"
  "(demo_sys st lg ps fs al n ts)\<lparr> us_files := demo_file \<rparr> = demo_sys st lg ps fs al n ts"
  by (simp_all add: demo_sys_def)

lemma demo_proc: "proc_of sid (demo_sys st lg ps fs al n ts) = (case map_of ps sid of None \<Rightarrow> new_proc | Some p \<Rightarrow> p)"
  by (simp add: proc_of_def)

lemma demo_set_cfg [simp]:
  "f demo_service = demo_service \<Longrightarrow> set_cfg ''a1'' f (demo_sys st lg ps fs al n ts) = demo_sys st lg ps fs al n ts"
proof -
  assume "f demo_service = demo_service"
  then have "upd_cfg 0 f (demo_at st lg) = demo_at st lg"
    by (simp add: upd_cfg_def upd_svc_def demo_at_def new_service_def)
  then show ?thesis by (simp add: set_cfg_def mutate_def mutateService_def)
qed

lemma demo_checks: "start_checks demo_env ''a1'' demo_request demo_service (demo_at st lg) = None"
  by (simp add: start_checks_def duplicateKey_def Let_def ListenConflicts_def demo_request_def auto_request_def)
     (simp add: demo_service_def workTypeLocal_def)

lemma demo_commit:
  "start_commit demo_env ''a1'' demo_service demo_service (demo_sys st lg ps fs al n ts) =
   (None, demo_sys st lg ps fs al n ts)"
proof -
  have "validate_and_save demo_env [demo_service] (demo_sys st lg ps fs al n ts) =
      (None, [demo_service], demo_sys st lg ps fs al n ts)"
    by (simp add: validate_and_save_def demo_norm demo_save)
  then show ?thesis by (simp add: start_commit_def FindService_def demo_id)
qed

lemma demo_start:
  fixes st lg ps fs al n ts
  defines "s \<equiv> demo_sys st lg ps fs al n ts"
  defines "p \<equiv> proc_of ''a1'' s"
  assumes "st \<noteq> Detecting" "st \<noteq> Stopping" "\<not> sp_started p" "0 < n"
  shows "HandleStart demo_env ''a1'' demo_request s =
    (None, demo_sys Starting lg
       (AList.update ''a1'' \<lparr> sp_cmd = Some n, sp_gen = Suc (sp_gen p), sp_started = True, sp_autoRestart = True \<rparr> ps)
       (AList.update (True, ''goodlink-worker-a1.pid'') (dec_nat n) fs) ((n, Some ''a1'') # al) (Suc n)
       (ts @ [TReader ''a1'' n, TReader ''a1'' n, TWait ''a1'' n (Suc (sp_gen p))]))"
proof -
  have w: "workerPidName ''a1'' = ''goodlink-worker-a1.pid''" by code_simp
  have r: "uv_WorkType demo_service \<noteq> workTypeLocal" by (simp add: demo_service_def workTypeLocal_def)
  have q: "p\<lparr> sp_autoRestart := True, sp_gen := g, sp_cmd := Some n, sp_started := True \<rparr> =
    \<lparr> sp_cmd = Some n, sp_gen = g, sp_started = True, sp_autoRestart = True \<rparr>" for g by simp
  have c: "ss_cfg (new_service demo_service st) = demo_service" by (simp add: new_service_def)
  have l: "start_launch demo_env ''a1'' (uv_WorkType demo_service) (set_proc ''a1'' p s) =
    (None, demo_sys Starting lg
       (AList.update ''a1'' \<lparr> sp_cmd = Some n, sp_gen = Suc (sp_gen p), sp_started = True, sp_autoRestart = True \<rparr> ps)
       (AList.update (True, ''goodlink-worker-a1.pid'') (dec_nat n) fs) ((n, Some ''a1'') # al) (Suc n)
       (ts @ [TReader ''a1'' n, TReader ''a1'' n, TWait ''a1'' n (Suc (sp_gen p))]))"
    unfolding s_def using r \<open>0 < n\<close>
    by (simp add: start_launch_def startCmdProcess_def WriteWorkerPid_def set_proc_def mod_proc_def procOf_def
        on_data_def spawn_def demo_proc update_conv' w demo_env_def Let_def q)
  show ?thesis
    unfolding HandleStart_def procOf_eq p_def[symmetric] using assms(3-5) l
    by (simp add: s_def set_proc_def c demo_candidate demo_checks demo_commit Let_def)
qed

text \<open>
  The first worker reports that both networks are behind symmetric NAT and exits; before the delayed stop
  has run, the user starts the service again.
\<close>

definition proc1 :: "nat \<Rightarrow> nat \<Rightarrow> svc_proc" where
  "proc1 cmd gen = \<lparr> sp_cmd = Some cmd, sp_gen = gen, sp_started = True, sp_autoRestart = True \<rparr>"

definition nat4_logs :: "string \<Rightarrow> log_line list option" where
  "nat4_logs = [''a1'' \<mapsto> [LogNAT4Stopped ''home'']]"

definition demo_up :: ui_sys where
  "demo_up = demo_sys Starting Map.empty [(''a1'', proc1 1 1)] [((True, ''goodlink-worker-a1.pid''), ''1'')]
     [(1, Some ''a1'')] 2 [TReader ''a1'' 1, TReader ''a1'' 1, TWait ''a1'' 1 1]"

definition demo_nat4 :: "(nat \<times> string option) list \<Rightarrow> ui_sys" where
  "demo_nat4 al = demo_sys ConnectingNAT4 nat4_logs [(''a1'', (proc1 1 1)\<lparr> sp_autoRestart := False \<rparr>)]
     [((True, ''goodlink-worker-a1.pid''), ''1'')] al 2
     [TReader ''a1'' 1, TReader ''a1'' 1, TWait ''a1'' 1 1, TStopLater ''a1'']"

definition demo_gone :: ui_sys where
  "demo_gone = demo_sys ConnectingNAT4 nat4_logs
     [(''a1'', \<lparr> sp_cmd = None, sp_gen = 1, sp_started = False, sp_autoRestart = False \<rparr>)] [] [] 2
     [TReader ''a1'' 1, TReader ''a1'' 1, TStopLater ''a1'', TExitReset ''a1'']"

definition demo_again :: ui_sys where
  "demo_again = demo_sys Starting nat4_logs [(''a1'', proc1 2 2)] [((True, ''goodlink-worker-a1.pid''), ''2'')]
     [(2, Some ''a1'')] 3
     [TReader ''a1'' 1, TReader ''a1'' 1, TStopLater ''a1'', TExitReset ''a1'',
      TReader ''a1'' 2, TReader ''a1'' 2, TWait ''a1'' 2 2]"

lemma demo_dec: "dec_nat (Suc 0) = ''1''" "dec_nat (Suc (Suc 0)) = ''2''" by code_simp+

lemma demo_to_up:
  "HandleStart demo_env ''a1'' demo_request (demo_sys Idle Map.empty [] [] [] 1 []) = (None, demo_up)"
  using demo_start[of Idle Map.empty "[]" "[]" "[]" 1 "[]"]
  by (simp add: demo_up_def proc1_def demo_proc new_proc_def demo_dec numeral_2_eq_2)

lemma demo_to_nat4: "handle_line ''a1'' ''[GOODLINK_STATUS]2'' demo_up = demo_nat4 [(1, Some ''a1'')]"
proof -
  have "parseProxyMessage ''[GOODLINK_STATUS]2'' = None"
    "parseStatusMessage ''[GOODLINK_STATUS]2'' = Some ProConnectingNAT4" by code_simp+
  then show ?thesis
    by (simp add: handle_line_def updateConnectionStatus_def give_up_later_def disableAutoRestart_def mod_proc_def
        procOf_def set_proc_def on_data_def spawn_def demo_up_def demo_nat4_def demo_proc demo_log nat4_logs_def)
qed

lemma demo_to_gone:
  "run_task demo_env (TWait ''a1'' 1 1) ((demo_nat4 [])\<lparr> us_tasks := remove1 (TWait ''a1'' 1 1) (us_tasks (demo_nat4 [])) \<rparr>)
   = demo_gone"
proof -
  have "workerPidName ''a1'' = ''goodlink-worker-a1.pid''" by code_simp
  then show ?thesis
    by (simp add: waiter_exit_def procOf_def set_proc_def spawn_def demo_nat4_def demo_gone_def demo_proc
        RemoveWorkerPid_def proc1_def)
qed

lemma demo_to_again: "HandleStart demo_env ''a1'' demo_request demo_gone = (None, demo_again)"
  unfolding demo_gone_def
  by (subst demo_start) (simp_all add: demo_again_def proc1_def demo_proc demo_dec numeral_2_eq_2 numeral_3_eq_3)

lemma demo_stopped:
  "us_alive (run_task demo_env (TStopLater ''a1'') (demo_again\<lparr> us_tasks := remove1 (TStopLater ''a1'') (us_tasks demo_again) \<rparr>)) = []"
  "\<not> sp_started (proc_of ''a1'' (run_task demo_env (TStopLater ''a1'')
     (demo_again\<lparr> us_tasks := remove1 (TStopLater ''a1'') (us_tasks demo_again) \<rparr>)))"
  by (simp_all add: demo_again_def stopServiceProcess_def procOf_def set_proc_def KillProcess_def demo_proc proc1_def)

section \<open>The run is possible\<close>

lemma demo_idle_reach: "ui_reach strict (demo_sys Idle Map.empty [] [] [] 1 [])"
proof -
  have "ui_initial demo_boot" by (simp add: ui_initial_def demo_boot_def demo_sys_def)
  from ui_reach.begins[OF this demo_env_fresh, of strict "[demo_service]"]
  have "ui_reach strict (demo_sys Detecting Map.empty [] [] [] 1 [])" by (simp add: demo_init)
  from ui_reach.goes[OF this ui_step.do_detect[of "\<lambda>_. demo_env" strict _ "[NatPorts 5 5]"]] demo_env_fresh
  show ?thesis unfolding demo_detect by blast
qed

lemma demo_up_reach: "ui_reach strict demo_up"
  using ui_reach.goes[OF demo_idle_reach ui_step.do_start[OF demo_env_fresh, of strict _ "''a1''" demo_request]]
  unfolding demo_to_up snd_conv .

lemma demo_gone_reach: "ui_reach strict demo_gone"
proof -
  have "TReader ''a1'' 1 \<in> set (us_tasks demo_up)" by (simp add: demo_up_def)
  from ui_reach.goes[OF demo_up_reach ui_step.do_line[OF this, of strict "''[GOODLINK_STATUS]2''"]]
  have a: "ui_reach strict (demo_nat4 [(1, Some ''a1'')])" by (simp add: demo_to_nat4)
  have "(demo_nat4 [(1, Some ''a1'')])\<lparr> us_alive := filter (\<lambda>p. fst p \<noteq> 1) (us_alive (demo_nat4 [(1, Some ''a1'')])) \<rparr>
      = demo_nat4 []" by (simp add: demo_nat4_def)
  with ui_reach.goes[OF a ui_step.do_death[of strict _ 1]]
  have b: "ui_reach strict (demo_nat4 [])" by argo
  have "TWait ''a1'' 1 1 \<in> set (us_tasks (demo_nat4 []))" "task_ready (TWait ''a1'' 1 1) (demo_nat4 [])"
    by (simp_all add: demo_nat4_def task_ready_def processAlive_def)
  from ui_reach.goes[OF b ui_step.do_task[OF this, of strict demo_env]] show ?thesis
    unfolding demo_to_gone .
qed

lemma demo_again_reach: "ui_reach strict demo_again"
  using ui_reach.goes[OF demo_gone_reach ui_step.do_start[OF demo_env_fresh, of strict _ "''a1''" demo_request]]
  unfolding demo_to_again snd_conv .

section \<open>Properties\<close>





text \<open>C6 Starting a service is all or nothing. When \<open>HandleStart\<close> returns without error the service was
  not started before, exactly one new worker lives, and it is recorded with the next generation, a
  waiter and automatic restart. When it returns any error no worker is started, and unless it was the
  process itself that could not be started, every service, log and hint is as before.\<close>

theorem start_all_or_nothing:
  assumes "HandleStart env sid rq s = (err, s')"
  shows "case err of
      None \<Rightarrow> \<not> sp_started (proc_of sid s) \<and> us_alive s' = (us_next s, Some sid) # us_alive s \<and>
        proc_of sid s' = \<lparr> sp_cmd = Some (us_next s), sp_gen = Suc (sp_gen (proc_of sid s)),
                           sp_started = True, sp_autoRestart = True \<rparr> \<and>
        TWait sid (us_next s) (Suc (sp_gen (proc_of sid s))) \<in> set (us_tasks s')
    | Some e \<Rightarrow> us_alive s' = us_alive s \<and> (e = StartFailed \<or> us_data s' = us_data s)"
proof (cases rule: HandleStart_cases[of env sid rq s])
  case (1 e)
  then show ?thesis using assms by auto
next
  case (2 cur e s1)
  have "us_data s1 = us_data s" using start_commit_rolls_back[OF 2(3)] 2(1) by simp
  moreover have "us_alive s1 = us_alive s" using start_commit_procs[OF 2(3)] by (simp add: same_procs_def)
  ultimately show ?thesis using assms 2(4) by auto
next
  case (3 cur s1)
  have "same_procs (set_proc sid (proc_of sid s) s) s1" by (rule start_commit_procs[OF 3(3)])
  then have f: "us_alive s1 = us_alive s" "us_next s1 = us_next s" "proc_of sid s1 = proc_of sid s"
    using same_procs_proc_of[of "set_proc sid (proc_of sid s) s" s1 sid] by (auto simp: same_procs_def)
  show ?thesis using start_launch_result[of env sid "uv_WorkType (start_candidate rq (ss_cfg cur))" s1 err s'] assms 3(2,4) f
    by (cases err) auto
qed

theorem start_all_or_nothing_witness: "us_alive demo_again = [(us_next demo_gone, Some ''a1'')]"
  using start_all_or_nothing[OF demo_to_again] by (simp add: demo_gone_def)

text \<open>C29 A delayed stop is not tied to the worker that caused it. In a state that can be reached, with the
  first worker gone after its report and the stop it caused still pending, the service is started again
  without error; the pending stop then ends the second worker.\<close>

theorem delayed_stop_ends_successor:
  "\<exists>s0 s. ui_reach True s0 \<and> TStopLater ''a1'' \<in> set (us_tasks s0) \<and> us_alive s0 = [] \<and>
     HandleStart demo_env ''a1'' demo_request s0 = (None, s) \<and> us_alive s = [(2, Some ''a1'')] \<and>
     sp_gen (proc_of ''a1'' s) = 2 \<and>
     (let s' = run_task demo_env (TStopLater ''a1'') (s\<lparr> us_tasks := remove1 (TStopLater ''a1'') (us_tasks s) \<rparr>)
      in ui_step True s s' \<and> us_alive s' = [] \<and> \<not> sp_started (proc_of ''a1'' s'))"
proof -
  have t: "TStopLater ''a1'' \<in> set (us_tasks demo_again)" "task_ready (TStopLater ''a1'') demo_again"
    by (simp_all add: demo_again_def task_ready_def)
  have "TStopLater ''a1'' \<in> set (us_tasks demo_gone)" "us_alive demo_gone = []"
    "us_alive demo_again = [(2, Some ''a1'')]" "sp_gen (proc_of ''a1'' demo_again) = 2"
    by (simp_all add: demo_gone_def demo_again_def demo_proc proc1_def)
  then show ?thesis
    using demo_gone_reach demo_to_again demo_stopped ui_step.do_task[OF t, of True demo_env]
    unfolding Let_def by blast
qed

text \<open>C30 A rejected name stays. Renaming the first service to a name of more than 32 runes is refused and
  not saved, yet the name remains in memory; from then on starting any service, creating one, and changing
  rules, settings or automatic start of any service are refused too.\<close>

theorem rejected_rename_blocks_everything:
  assumes "ui_reach strict s" "um_services (us_data s) = r # rs" "uv_ID (ss_cfg (um_heap (us_data s) r)) = sid"
    and "length (runes (trim_space name)) > 32" "HandleRename env sid name s = (err, s')"
  shows "(\<exists>e. err = Some (InvalidConfig e)) \<and> us_files s' = us_files s \<and>
    uv_Name (ss_cfg (um_heap (us_data s') r)) = name \<and>
    (\<forall>env2 sid2 rq mode rules auto. fst (HandleStart env2 sid2 rq s') \<noteq> None \<and>
       (\<exists>e. fst (HandleCreateService env2 s') = Inl e) \<and> fst (HandleForwards env2 sid2 mode rules s') \<noteq> None \<and>
       fst (HandleSetAutoStart env2 sid2 auto rq s') \<noteq> None \<and> fst (HandleUpdateConfig env2 sid2 rq auto s') \<noteq> None)"
proof -
  have ix: "um_index (us_data s) sid = Some r"
    using ui_reach_wf[OF assms(1)] assms(2,3) by (simp add: ui_wf_def)
  define s1 where "s1 = s\<lparr> us_data := upd_cfg r (\<lambda>c. c\<lparr> uv_Name := name \<rparr>) (us_data s) \<rparr>"
  have m: "mutate sid (\<lambda>r d. (None, upd_cfg r (\<lambda>c. c\<lparr> uv_Name := name \<rparr>) d)) s = (None, s1)"
    by (simp add: mutate_def mutateService_def ix s1_def)
  have l: "long_name (allServicesConfig (us_data s1))"
    using assms(2,4) by (simp add: s1_def allServicesConfig_def upd_cfg_def upd_svc_def long_name_def maxServiceNameRunes_def)
  obtain e out where "validate_and_save env (allServicesConfig (us_data s1)) s1 = (Some (InvalidConfig e), out, s1)"
    using long_name_fails[OF l] by blast
  then have "err = Some (InvalidConfig e)" "s' = s1" using assms(5) m by (auto simp: HandleRename_def)
  moreover have "uv_Name (ss_cfg (um_heap (us_data s1) r)) = name" "us_files s1 = us_files s"
    by (simp_all add: s1_def upd_cfg_def upd_svc_def)
  ultimately show ?thesis using all_blocked[OF l] by blast
qed

theorem rejected_rename_witness:
  "\<exists>e. fst (HandleRename demo_env ''a1'' (replicate 33 CHR ''x'') demo_again) = Some (InvalidConfig e)"
proof -
  have "length (runes (trim_space (replicate 33 CHR ''x''))) > 32" by code_simp
  from rejected_rename_blocks_everything[OF demo_again_reach _ _ this] show ?thesis
    by (metis demo_again_def demo_sys_sel(1) demo_at_simps(2,3) demo_id fst_conv new_service_def
        service_state.select_convs(1) surj_pair)
qed

end
