(* ===== verification/Ui_Http.thy ===== *)
theory Ui_Http
  imports Ui_Handlers
begin

text \<open>
  The web server in front of the handlers, \<open>ui2/server.go\<close>: who may use it, the listening address, the
  routes with their decoding, error codes and answers, and the update check of \<open>ui2/footer.go\<close> that a
  connecting browser triggers. A request carries the decoded body, \<open>None\<close> when it is not valid JSON;
  the multiplexer and the encoding of answers are the library's.
\<close>

section \<open>Access\<close>

record http_req =
  hr_remote :: string
  hr_host :: string
  hr_token :: string

text \<open>\<open>net.IP.IsLoopback\<close> of a parsed address.\<close>

definition isLocalHostHeader :: "string \<Rightarrow> bool" where
  "isLocalHostHeader host =
     (let h0 = (case split_host_port host of Some (hh, _) \<Rightarrow> hh | None \<Rightarrow> host);
          h = to_lower (trim_space h0)
      in h = ''localhost'' \<or> (case parse_ip h of Some ip \<Rightarrow> is_loopback ip | None \<Rightarrow> False))"

definition authorize :: "string \<Rightarrow> http_req \<Rightarrow> bool" where
  "authorize uiToken r =
     (let host = (case split_host_port (hr_remote r) of Some (h, _) \<Rightarrow> h | None \<Rightarrow> hr_remote r)
      in case parse_ip host of
           Some ip \<Rightarrow>
             if is_loopback ip then isLocalHostHeader (hr_host r)
             else if uiToken = [] then False
             else hr_token r = uiToken
         | None \<Rightarrow> if uiToken = [] then False else hr_token r = uiToken)"

section \<open>The listener\<close>

definition defaultUIAddr :: string where "defaultUIAddr = ''0.0.0.0:16780''"
definition uiAddrRetries :: nat where "uiAddrRetries = 10"

definition uiListenAddr :: "string \<Rightarrow> string" where
  "uiListenAddr env = (let v = trim_space env in if v \<noteq> [] then v else defaultUIAddr)"

text \<open>\<open>busy i\<close>: the i-th attempt fails; the result is the address listened on, \<open>net.Listen\<close> itself outside.\<close>

fun listen_tries :: "(nat \<Rightarrow> bool) \<Rightarrow> string \<Rightarrow> nat \<Rightarrow> nat \<Rightarrow> string option" where
  "listen_tries busy addr i 0 = None"
| "listen_tries busy addr i (Suc k) = (if busy i then listen_tries busy addr (Suc i) k else Some addr)"

definition listenUI :: "string \<Rightarrow> (nat \<Rightarrow> bool) \<Rightarrow> string" where
  "listenUI env busy =
     (let addr0 = uiListenAddr env;
          (listenHost, addr) = (case split_host_port addr0 of
             Some (h, _) \<Rightarrow> (h, addr0) | None \<Rightarrow> (defaultUIAddr, defaultUIAddr))
      in case listen_tries busy addr 0 uiAddrRetries of
           Some a \<Rightarrow> a
         | None \<Rightarrow> join_host_port listenHost ''0'')"

section \<open>Routes\<close>

record service_body =
  sb_Name :: string
  sb_request :: svc_request
  sb_AutoStart :: bool

datatype ui_route =
    StateRoute string
  | CreateService
  | DeleteService string
  | RenameService string "string option"
  | StartService string "service_body option"
  | StopService string
  | ForwardsService string "service_body option"
  | AutoStartService string "service_body option"
  | ConfigService string "service_body option"
  | KeyRoute string
  | ConfigRoute string "ui_config option"

datatype http_answer =
    AView ui_view
  | AService service_view
  | AKey string
  | AConfig ui_config
  | AErr ui_err
  | ABadFormat
  | ABadMethod
  | AForbidden

definition service_err_code :: "ui_err \<Rightarrow> nat" where
  "service_err_code e = (if e = AlreadyStarted \<or> e = UiBusy then 409 else 400)"

definition answer_state :: "ui_err option \<times> ui_sys \<Rightarrow> (nat \<times> http_answer) \<times> ui_sys" where
  "answer_state r =
     (case r of
        (Some e, s) \<Rightarrow> ((service_err_code e, AErr e), s)
      | (None, s) \<Rightarrow> ((200, AView (snapshot False (us_data s))), s))"

definition bad_format :: "ui_sys \<Rightarrow> (nat \<times> http_answer) \<times> ui_sys" where
  "bad_format s = ((400, ABadFormat), s)"

definition empty_body :: service_body where
  "empty_body = \<lparr> sb_Name = [], sb_request = empty_request, sb_AutoStart = False \<rparr>"

definition bad_method :: "ui_sys \<Rightarrow> (nat \<times> http_answer) \<times> ui_sys" where
  "bad_method s = ((405, ABadMethod), s)"

text \<open>Three routes look at the method themselves. Only starting ignores a body that cannot be decoded.\<close>

fun serve_route :: "ui_env \<Rightarrow> ui_route \<Rightarrow> ui_sys \<Rightarrow> (nat \<times> http_answer) \<times> ui_sys" where
  "serve_route env (StateRoute method) s =
     (if method \<noteq> ''GET'' then bad_method s else ((200, AView (snapshot True (us_data s))), s))"
| "serve_route env CreateService s =
     (case HandleCreateService env s of
        (Inl e, s') \<Rightarrow> ((service_err_code e, AErr e), s')
      | (Inr view, s') \<Rightarrow> ((200, AService view), s'))"
| "serve_route env (DeleteService sid) s = answer_state (HandleDeleteService env sid s)"
| "serve_route env (RenameService sid body) s =
     (case body of None \<Rightarrow> bad_format s | Some name \<Rightarrow> answer_state (HandleRename env sid name s))"
| "serve_route env (StartService sid body) s =
     (let b = (case body of Some b \<Rightarrow> b | None \<Rightarrow> empty_body)
      in answer_state (HandleStart env sid (sb_request b) s))"
| "serve_route env (StopService sid) s = answer_state (None, HandleStop sid s)"
| "serve_route env (ForwardsService sid body) s =
     (case body of None \<Rightarrow> bad_format s
      | Some b \<Rightarrow> answer_state (HandleForwards env sid (rq_LocalMode (sb_request b)) (rq_ForwardRules (sb_request b)) s))"
| "serve_route env (AutoStartService sid body) s =
     (case body of None \<Rightarrow> bad_format s
      | Some b \<Rightarrow> answer_state (HandleSetAutoStart env sid (sb_AutoStart b) (sb_request b) s))"
| "serve_route env (ConfigService sid body) s =
     (case body of None \<Rightarrow> bad_format s
      | Some b \<Rightarrow> answer_state (HandleUpdateConfig env sid (sb_request b) (sb_AutoStart b) s))"
| "serve_route env (KeyRoute method) s =
     (if method \<noteq> ''POST'' then bad_method s else ((200, AKey (en_key env 0)), s))"
| "serve_route env (ConfigRoute method body) s =
     (if method = ''GET'' then ((200, AConfig (allServicesConfig (us_data s))), s)
      else if method = ''POST'' then
        (case body of None \<Rightarrow> bad_format s
         | Some cfg \<Rightarrow>
             (case HandleImportConfig env cfg s of
                (Some e, s') \<Rightarrow> ((if e = UiBusy then 409 else 400, AErr e), s')
              | (None, s') \<Rightarrow> ((200, AView (snapshot False (us_data s'))), s')))
      else bad_method s)"

text \<open>What \<open>StartServer\<close> puts in front of the routes.\<close>

definition serve_http :: "string \<Rightarrow> ui_env \<Rightarrow> http_req \<Rightarrow> ui_route \<Rightarrow> ui_sys \<Rightarrow> (nat \<times> http_answer) \<times> ui_sys" where
  "serve_http uiToken env r route s =
     (if authorize uiToken r then serve_route env route s else ((403, AForbidden), s))"

section \<open>The update check\<close>

record release =
  rl_TagName :: string
  rl_Body :: string
  rl_Assets :: "(string \<times> string) list"

record upgrade_cache =
  uc_Latest :: string
  uc_Body :: string
  uc_DownloadURL :: string

definition findAssetURL :: "release \<Rightarrow> string \<Rightarrow> string" where
  "findAssetURL rel zipName =
     (case find (\<lambda>a. equal_fold (fst a) zipName \<and> snd a \<noteq> []) (rl_Assets rel) of
        Some a \<Rightarrow> snd a
      | None \<Rightarrow>
          if rl_TagName rel = [] then []
          else ''https://gitee.com/konyshe/goodlink/releases/download/'' @ rl_TagName rel @ ''/'' @ zipName)"

definition storeUpgradeCache :: "string \<Rightarrow> release \<Rightarrow> upgrade_cache" where
  "storeUpgradeCache zipName rel =
     \<lparr> uc_Latest = trim_prefix ''v'' (rl_TagName rel), uc_Body = trim_space (rl_Body rel),
       uc_DownloadURL = findAssetURL rel zipName \<rparr>"

text \<open>The check: \<open>uk_checkedAt\<close> is \<open>None\<close> for the zero time; times are in seconds.\<close>

record upgrade_check =
  uk_checking :: bool
  uk_checkedAt :: "nat option"
  uk_cache :: upgrade_cache

definition GetUpgradeInfo ::
  "string \<Rightarrow> release option \<Rightarrow> upgrade_check \<Rightarrow> upgrade_cache option \<times> upgrade_check" where
  "GetUpgradeInfo zipName fetched k =
     (case fetched of
        None \<Rightarrow> (if uc_Latest (uk_cache k) \<noteq> [] then Some (uk_cache k) else None, k)
      | Some rel \<Rightarrow> (let info = storeUpgradeCache zipName rel in (Some info, k\<lparr> uk_cache := info \<rparr>)))"

definition checkLatestVersion ::
  "string \<Rightarrow> string \<Rightarrow> release option \<Rightarrow> upgrade_check \<Rightarrow> (bool \<times> string) option \<times> upgrade_check" where
  "checkLatestVersion zipName currentVersion fetched k =
     (case fetched of
        None \<Rightarrow> (None, k)
      | Some rel \<Rightarrow>
          (let info = storeUpgradeCache zipName rel
           in (Some (uc_Latest info \<noteq> [] \<and> uc_Latest info \<noteq> currentVersion, uc_Latest info),
               k\<lparr> uk_cache := info \<rparr>)))"

text \<open>The locked beginning; the result tells whether the goroutine is started.\<close>

definition runUpgradeCheck :: "nat \<Rightarrow> nat \<Rightarrow> upgrade_check \<Rightarrow> bool \<times> upgrade_check" where
  "runUpgradeCheck minInterval now k =
     (if uk_checking k then (False, k)
      else if minInterval > 0 \<and> (case uk_checkedAt k of None \<Rightarrow> False | Some t \<Rightarrow> now - t < minInterval)
      then (False, k)
      else (True, k\<lparr> uk_checking := True \<rparr>))"

definition check_failed_msg :: string where
  "check_failed_msg = map char_of [0xE6, 0xA3, 0x80, 0xE6, 0xB5, 0x8B, 0xE6, 0x9B, 0xB4, 0xE6, 0x96, 0xB0,
     0xE5, 0xA4, 0xB1, 0xE8, 0xB4, 0xA5 :: nat]"

text \<open>The goroutine with its deferred end.\<close>

definition upgrade_check_end ::
  "string \<Rightarrow> release option \<Rightarrow> nat \<Rightarrow> upgrade_check \<Rightarrow> ui_data \<Rightarrow> upgrade_check \<times> ui_data" where
  "upgrade_check_end zipName fetched now k d =
     (case checkLatestVersion zipName (um_version d) fetched k of
        (r, k1) \<Rightarrow>
          (let k2 = k1\<lparr> uk_checking := False, uk_checkedAt := Some now \<rparr>
           in case r of
                None \<Rightarrow> (k2, setUpgradeCheckError check_failed_msg d)
              | Some (need, latest) \<Rightarrow>
                  (k2, setUpgradeInfo need latest (uc_Body (uk_cache k1)) (uc_DownloadURL (uk_cache k1)) d)))"

section \<open>Properties\<close>

text \<open>The address a request is judged by.\<close>

definition peer_loopback :: "http_req \<Rightarrow> bool" where
  "peer_loopback r \<longleftrightarrow>
     (case parse_ip (case split_host_port (hr_remote r) of Some (h, _) \<Rightarrow> h | None \<Rightarrow> hr_remote r) of
        Some ip \<Rightarrow> is_loopback ip | None \<Rightarrow> False)"

lemma authorize_iff:
  "authorize uiToken r \<longleftrightarrow>
     (if peer_loopback r then isLocalHostHeader (hr_host r) else uiToken \<noteq> [] \<and> hr_token r = uiToken)"
  by (auto simp: authorize_def peer_loopback_def Let_def split: option.splits)

text \<open>
  From outside the machine only the configured token opens the interface; from the machine itself only a
  \<open>Host\<close> header that names the machine, so a web page that rebinds its own name to the loopback address
  is refused. A refused request changes nothing.
\<close>

lemma refused_changes_nothing:
  "\<not> authorize uiToken r \<Longrightarrow> serve_http uiToken env r route s = ((403, AForbidden), s)"
  by (simp add: serve_http_def)

lemma rebound_name_refused:
  assumes "peer_loopback r" "split_host_port (hr_host r) = Some (name, port)"
    and "to_lower (trim_space name) \<noteq> ''localhost''" "parse_ip (to_lower (trim_space name)) = None"
  shows "\<not> authorize uiToken r"
  using assms by (simp add: authorize_iff isLocalHostHeader_def)

text \<open>
  An address without a port in the environment is replaced by the default one, but the host kept for the
  last resort is then the whole default address, so the random port is asked for on a host that does not
  exist.
\<close>

lemma fallback_address_malformed: "listenUI ''192.168.1.5'' (\<lambda>_. True) = ''[0.0.0.0:16780]:0''"
  by code_simp

text \<open>Two checks never run at once, and within the interval of the last one none is started.\<close>

lemma upgrade_check_once:
  assumes "runUpgradeCheck minInterval now k = (True, k')"
  shows "\<not> uk_checking k \<and> uk_checking k' \<and> fst (runUpgradeCheck m now' k') = False \<and>
    (\<forall>t. uk_checkedAt k = Some t \<longrightarrow> minInterval = 0 \<or> minInterval \<le> now - t)"
  using assms by (auto simp: runUpgradeCheck_def split: if_splits option.splits)

end
