(* ===== verification/Upnp_Soap.thy ===== *)
theory Upnp_Soap
  imports Go_Net "HOL-Library.Char_ord" "HOL-Library.List_Lexorder"
begin

text \<open>
  The messages of \<open>upnp\<close>: XML nodes and their text (\<open>message.go\<close>), the SOAP envelope and the check of
  the service type (\<open>soap.go\<close>). A reader that only knows tags and text serves as the specification of
  what another program makes of a message: whatever the content, it sees the intended tags, and the
  content back after undoing the escapes.
\<close>

section \<open>Nodes\<close>

text \<open>Attributes as a list with distinct keys; values hold their own quotes.\<close>

datatype xml_node =
  Node (nd_name: string) (nd_content: string) (nd_attr: "(string \<times> string) list") (nd_child: "xml_node list")

definition leaf :: "string \<Rightarrow> string \<Rightarrow> xml_node" where
  "leaf name content = Node name content [] []"

text \<open>\<open>xml.EscapeText\<close>, rune by rune; what XML does not allow becomes the replacement character.\<close>

definition replacement :: string where
  "replacement = map char_of [0xEF, 0xBF, 0xBD :: nat]"

definition escape_rune :: "string \<Rightarrow> string" where
  "escape_rune r =
     (case r of
        [c] \<Rightarrow>
          (if code c = 34 then ''&#34;''
           else if code c = 39 then ''&#39;''
           else if code c = 38 then ''&amp;''
           else if code c = 60 then ''&lt;''
           else if code c = 62 then ''&gt;''
           else if code c = 9 then ''&#x9;''
           else if code c = 10 then ''&#xA;''
           else if code c = 13 then ''&#xD;''
           else if code c < 32 \<or> 128 \<le> code c then replacement
           else [c])
      | [c, d, e] \<Rightarrow>
          (if code c = 0xEF \<and> code d = 0xBF \<and> (code e = 0xBE \<or> code e = 0xBF) then replacement else r)
      | _ \<Rightarrow> r)"

definition escape_text :: "string \<Rightarrow> string" where
  "escape_text s = concat (map escape_rune (runes s))"

definition attr_text :: "(string \<times> string) list \<Rightarrow> string" where
  "attr_text attrs = concat (map (\<lambda>(k, v). '' '' @ k @ ''='' @ v) (sort_key fst attrs))"

fun writeXML :: "xml_node \<Rightarrow> string" where
  "writeXML (Node name content attrs children) =
     ''<'' @ name @ attr_text attrs @ ''>'' @ escape_text content @ concat (map writeXML children)
       @ ''</'' @ name @ ''>''"

definition BuildXML :: "xml_node \<Rightarrow> string" where
  "BuildXML n = writeXML n"

section \<open>The envelope\<close>

definition service_char :: "string \<Rightarrow> bool" where
  "service_char r =
     (case r of
        [c] \<Rightarrow> 97 \<le> code c \<and> code c \<le> 122 \<or> 65 \<le> code c \<and> code c \<le> 90 \<or> 48 \<le> code c \<and> code c \<le> 57 \<or>
               c = CHR ''.'' \<or> c = CHR ''-'' \<or> c = CHR '':'' \<or> c = CHR ''_''
      | _ \<Rightarrow> False)"

definition validServiceType :: "string \<Rightarrow> bool" where
  "validServiceType serviceType =
     (let s = trim_space serviceType
      in \<not> (\<not> has_prefix ''urn:'' s \<or> length s > 256) \<and> list_all service_char (runes s))"

definition quoted :: "string \<Rightarrow> string" where
  "quoted s = [char_of (34 :: nat)] @ s @ [char_of (34 :: nat)]"

definition buildSOAPEnvelope :: "string \<Rightarrow> string \<Rightarrow> xml_node list \<Rightarrow> string" where
  "buildSOAPEnvelope serviceType action args =
     BuildXML (Node ''SOAP-ENV:Envelope'' []
       [(''xmlns:SOAP-ENV'', quoted ''http://schemas.xmlsoap.org/soap/envelope/''),
        (''SOAP-ENV:encodingStyle'', quoted ''http://schemas.xmlsoap.org/soap/encoding/'')]
       [Node ''SOAP-ENV:Body'' [] []
          [Node (''m:'' @ action) [] [(''xmlns:m'', quoted serviceType)] args]])"

section \<open>A reader of tags and text\<close>

datatype xml_piece = Tag string | Text string

definition flush :: "string \<Rightarrow> xml_piece list \<Rightarrow> xml_piece list" where
  "flush acc ps = (if acc = [] then ps else Text acc # ps)"

fun scan_text :: "string \<Rightarrow> string \<Rightarrow> xml_piece list" and scan_tag :: "string \<Rightarrow> string \<Rightarrow> xml_piece list" where
  "scan_text acc [] = flush acc []"
| "scan_text acc (c # s) = (if c = CHR ''<'' then flush acc (scan_tag [] s) else scan_text (acc @ [c]) s)"
| "scan_tag acc [] = [Tag acc]"
| "scan_tag acc (c # s) = (if c = CHR ''>'' then Tag acc # scan_text [] s else scan_tag (acc @ [c]) s)"

definition xml_read :: "string \<Rightarrow> xml_piece list" where
  "xml_read s = scan_text [] s"

text \<open>The references \<open>escape_text\<close> produces.\<close>

definition entities :: "(string \<times> char) list" where
  "entities = [(''&#34;'', char_of (34 :: nat)), (''&#39;'', char_of (39 :: nat)), (''&amp;'', char_of (38 :: nat)),
     (''&lt;'', char_of (60 :: nat)), (''&gt;'', char_of (62 :: nat)), (''&#x9;'', char_of (9 :: nat)),
     (''&#xA;'', char_of (10 :: nat)), (''&#xD;'', char_of (13 :: nat))]"

function unescape :: "string \<Rightarrow> string" where
  "unescape [] = []"
| "unescape (c # s) =
     (case find (\<lambda>e. has_prefix (fst e) (c # s)) entities of
        Some e \<Rightarrow> snd e # unescape (drop (length (fst e) - 1) s)
      | None \<Rightarrow> c # unescape s)"
  by pat_completeness auto
termination by (relation "measure length") auto

declare unescape.simps(2) [simp del]

definition plain :: "string \<Rightarrow> bool" where
  "plain s \<longleftrightarrow> CHR ''<'' \<notin> set s \<and> CHR ''>'' \<notin> set s"

fun plain_node :: "xml_node \<Rightarrow> bool" where
  "plain_node (Node name content attrs children) \<longleftrightarrow>
     plain name \<and> plain (attr_text attrs) \<and> list_all plain_node children"

text \<open>What should be read.\<close>

fun node_pieces :: "xml_node \<Rightarrow> xml_piece list" where
  "node_pieces (Node name content attrs children) =
     Tag (name @ attr_text attrs) # flush (escape_text content) (concat (map node_pieces children))
       @ [Tag (''/'' @ name)]"

lemma scan_text_plain: "CHR ''<'' \<notin> set t \<Longrightarrow> scan_text acc (t @ s) = scan_text (acc @ t) s"
  by (induction t arbitrary: acc) auto

lemma scan_tag_plain: "CHR ''>'' \<notin> set t \<Longrightarrow> scan_tag acc (t @ CHR ''>'' # s) = Tag (acc @ t) # scan_text [] s"
  by (induction t arbitrary: acc) auto

lemma flush_append: "flush acc (ps @ qs) = flush acc ps @ qs"
  by (simp add: flush_def)

lemma rune_bytes:
  assumes "r \<in> set (runes s)"
  shows "length r = 1 \<or> (\<forall>c \<in> set r. 128 \<le> code c)"
  using assms
proof (induction s rule: runes.induct)
  case (2 c s)
  let ?w = "rune_width (c # s)"
  show ?case
  proof (cases "r = take ?w (c # s)")
    case False
    then show ?thesis using 2 by (simp add: runes.simps(2))
  next
    case True
    show ?thesis
    proof (cases "?w = 1")
      case True2: True
      then show ?thesis using True by simp
    next
      case False
      have w: "0xC2 \<le> code c" "\<forall>i. 0 < i \<and> i < ?w \<longrightarrow> cont_byte (c # s) i"
        using False
        by (auto simp: rune_width_def Let_def less_Suc_eq numeral_2_eq_2 numeral_3_eq_3 eval_nat_numeral split: if_splits)
      have "128 \<le> code x" if x: "x \<in> set r" for x
      proof -
        obtain i where i: "i < ?w" "x = (c # s) ! i"
          using x True by (auto simp: in_set_conv_nth)
        show ?thesis
          using w i by (cases "i = 0") (auto simp: cont_byte_def)
      qed
      then show ?thesis by blast
    qed
  qed
qed simp

lemma concat_runes: "concat (runes s) = s"
  by (induction s rule: runes.induct) (simp_all add: runes.simps(2))

lemma code_le: "code (CHR ''<'') = 60" "code (CHR ''>'') = 62" "code (CHR ''&'') = 38"
  by simp_all

lemma escape_rune_plain:
  assumes "length r = 1 \<or> (\<forall>c \<in> set r. 128 \<le> code c)"
  shows "plain (escape_rune r)"
  using assms
proof
  assume "length r = 1"
  then obtain c where r: "r = [c]" by (cases r) auto
  have p: "plain ''&#34;''" "plain ''&#39;''" "plain ''&amp;''" "plain ''&lt;''" "plain ''&gt;''" "plain ''&#x9;''"
    "plain ''&#xA;''" "plain ''&#xD;''" "plain replacement"
    by code_simp+
  show ?thesis
    unfolding r using p by (auto simp: escape_rune_def plain_def)
next
  assume h: "\<forall>c \<in> set r. 128 \<le> code c"
  have "plain r" unfolding plain_def using h code_le by fastforce
  moreover have "plain replacement" by code_simp
  moreover have "escape_rune r = r \<or> escape_rune r = replacement"
    using h by (auto simp: escape_rune_def split: list.split)
  ultimately show ?thesis by auto
qed

lemma escape_text_plain: "plain (escape_text s)"
  using escape_rune_plain rune_bytes unfolding escape_text_def plain_def by auto

text \<open>Reading what was written gives the pieces of the node, whatever its contents.\<close>

lemma scan_writeXML:
  "plain_node n \<Longrightarrow> scan_text acc (writeXML n @ s) = flush acc (node_pieces n @ scan_text [] s)"
proof (induction n arbitrary: acc s)
  case (Node name content attrs children)
  have pl: "CHR ''>'' \<notin> set (name @ attr_text attrs)" "CHR ''<'' \<notin> set (escape_text content)"
    "CHR ''>'' \<notin> set (''/'' @ name)"
    using Node.prems escape_text_plain[of content] by (auto simp: plain_def)
  have ch: "scan_text acc (concat (map writeXML cs) @ t) = flush acc (concat (map node_pieces cs) @ scan_text [] t)"
    if "cs \<noteq> []" "set cs \<subseteq> set children" for cs t acc
    using that
  proof (induction cs arbitrary: acc)
    case (Cons c cs)
    have c: "scan_text a (writeXML c @ u) = flush a (node_pieces c @ scan_text [] u)" for a u
      using Node.IH[of c] Node.prems Cons.prems by (simp add: list_all_iff)
    show ?case
    proof (cases "cs = []")
      case False
      then show ?thesis using Cons.IH[of "[]"] Cons.prems c by (simp add: flush_def)
    qed (simp add: c)
  qed simp
  have close: "scan_text a (''</'' @ name @ ''>'' @ s) = flush a (Tag (''/'' @ name) # scan_text [] s)" for a
    using scan_tag_plain[OF pl(3), of "[]" s] by simp
  have rest: "scan_text a (concat (map writeXML children) @ ''</'' @ name @ ''>'' @ s) =
      flush a (concat (map node_pieces children) @ Tag (''/'' @ name) # scan_text [] s)" for a
  proof (cases "children = []")
    case False
    from ch[OF this, of a] close[of "[]"] show ?thesis by (simp add: flush_def)
  qed (use close in simp)
  have tg: "scan_tag [] (name @ attr_text attrs @ CHR ''>'' # u) = Tag (name @ attr_text attrs) # scan_text [] u" for u
    using scan_tag_plain[OF pl(1), of "[]" u] by simp
  have tx: "scan_text [] (escape_text content @ u) = scan_text (escape_text content) u" for u
    using scan_text_plain[OF pl(2), of "[]" u] by simp
  have "scan_text acc (writeXML (Node name content attrs children) @ s) =
      flush acc (scan_tag [] (name @ attr_text attrs @ CHR ''>'' # escape_text content
        @ concat (map writeXML children) @ ''</'' @ name @ ''>'' @ s))" by simp
  also have "\<dots> = flush acc (Tag (name @ attr_text attrs) #
      scan_text (escape_text content) (concat (map writeXML children) @ ''</'' @ name @ ''>'' @ s))"
    by (simp only: tg tx)
  finally show ?case unfolding rest by (simp add: flush_def)
qed

lemma xml_read_BuildXML: "plain_node n \<Longrightarrow> xml_read (BuildXML n) = node_pieces n"
  using scan_writeXML[of n "[]" "[]"] by (simp add: xml_read_def BuildXML_def flush_def)

section \<open>Undoing the escapes\<close>

text \<open>The characters XML allows.\<close>

definition xml_rune :: "string \<Rightarrow> bool" where
  "xml_rune r \<longleftrightarrow>
     (case r of
        [c] \<Rightarrow> code c \<in> {9, 10, 13} \<or> 32 \<le> code c \<and> code c < 128
      | [c, d, e] \<Rightarrow> \<not> (code c = 0xEF \<and> code d = 0xBF \<and> (code e = 0xBE \<or> code e = 0xBF))
      | _ \<Rightarrow> True)"

lemma unescape_other: "c \<noteq> CHR ''&'' \<Longrightarrow> unescape (c # s) = c # unescape s"
  by (simp add: unescape.simps(2) entities_def has_prefix_def)

lemma unescape_high: "\<forall>c \<in> set r. 128 \<le> code c \<Longrightarrow> unescape (r @ s) = r @ unescape s"
proof (induction r)
  case (Cons c r)
  have "c \<noteq> CHR ''&''" using Cons.prems code_le(3) by auto
  with Cons show ?case by (simp add: unescape_other)
qed simp

lemma unescape_rune:
  assumes "length r = 1 \<or> (\<forall>c \<in> set r. 128 \<le> code c)" "xml_rune r"
  shows "unescape (escape_rune r @ s) = r @ unescape s"
proof (cases "length r = 1")
  case False
  then have h: "\<forall>c \<in> set r. 128 \<le> code c" using assms(1) by blast
  have "escape_rune r = r"
    using False assms(2) by (auto simp: escape_rune_def xml_rune_def split: list.splits)
  then show ?thesis using unescape_high[OF h] by simp
next
  case True
  then obtain c where r: "r = [c]" by (cases r) auto
  have e: "unescape (''&#34;'' @ s) = char_of (34 :: nat) # unescape s"
    "unescape (''&#39;'' @ s) = char_of (39 :: nat) # unescape s"
    "unescape (''&amp;'' @ s) = char_of (38 :: nat) # unescape s"
    "unescape (''&lt;'' @ s) = char_of (60 :: nat) # unescape s"
    "unescape (''&gt;'' @ s) = char_of (62 :: nat) # unescape s"
    "unescape (''&#x9;'' @ s) = char_of (9 :: nat) # unescape s"
    "unescape (''&#xA;'' @ s) = char_of (10 :: nat) # unescape s"
    "unescape (''&#xD;'' @ s) = char_of (13 :: nat) # unescape s"
    by (simp_all add: unescape.simps(2) entities_def has_prefix_def)
  have cc: "c = char_of n" if "code c = n" for n using that by auto
  have o: "unescape (c # s) = c # unescape s" if "code c \<noteq> 38" using that code_le(3) unescape_other by metis
  show ?thesis
    using assms(2) e o unfolding r xml_rune_def escape_rune_def
    by (auto dest: cc)
qed

lemma unescape_escape_text:
  assumes "list_all xml_rune (runes s)"
  shows "unescape (escape_text s) = s"
proof -
  have "unescape (concat (map escape_rune rs)) = concat rs" if "set rs \<subseteq> set (runes s)" for rs
    using that
  proof (induction rs)
    case (Cons r rs)
    then have "r \<in> set (runes s)" by simp
    then show ?case using unescape_rune[OF rune_bytes] assms Cons by (simp add: list_all_iff)
  qed simp
  from this[of "runes s"] show ?thesis by (simp add: escape_text_def concat_runes)
qed

end
