(* ===== verification/Upnp_Client.thy ===== *)
theory Upnp_Client
  imports Upnp_Soap
begin

text \<open>
  The UPnP client of \<open>upnp\<close>: discovery of the gateway (\<open>SearchGatewayMsg.go\<close>), the device description
  (\<open>DeviceDesc.go\<close>), the requests for mappings and the external address, and the life cycle of a client
  with the removal of old mappings (\<open>upnp.go\<close>). The HTTP exchange, the XML token stream and the URL
  functions of the library are parameters; the world they act on is of any type.
\<close>

section \<open>Data\<close>

record gateway =
  gw_GatewayName :: string
  gw_Host :: string
  gw_DeviceDescUrl :: string
  gw_Cache :: string
  gw_ST :: string
  gw_USN :: string
  gw_ServiceType :: string

record upnp =
  up_Active :: bool
  up_LocalHost :: string
  up_GatewayOutsideIP :: string
  up_Gateway :: "gateway option"
  up_CtrlUrl :: string
  up_KeepPorts :: "int list"
  up_Description :: string

datatype xml_token = XStart string | XEnd string | XChars string

record http_call =
  hc_method :: string
  hc_url :: string
  hc_action :: string
  hc_body :: string

text \<open>
  \<open>ul_xml\<close> gives the tokens up to the first error, \<open>ul_url\<close> host and request URI of a parsed URL, and
  \<open>ul_resolve\<close> host, escaped path and query of a reference resolved against a base.
\<close>

record 'w upnp_lib =
  ul_http :: "http_call \<Rightarrow> 'w \<Rightarrow> (nat \<times> string) option \<times> 'w"
  ul_xml :: "string \<Rightarrow> xml_token list"
  ul_url :: "string \<Rightarrow> (string \<times> string) option"
  ul_resolve :: "string \<Rightarrow> string \<Rightarrow> (string \<times> string \<times> string) option"

definition maxPortMappingIndex :: nat where "maxPortMappingIndex = 256"

definition mappingDescription :: "upnp \<Rightarrow> string" where
  "mappingDescription u = (if up_Description u \<noteq> [] then up_Description u else ''goodlink'')"

definition normalizeProtocol :: "string \<Rightarrow> string" where
  "normalizeProtocol protocol =
     (let p = to_upper (trim_space protocol)
      in if p = ''TCP'' then ''TCP'' else if p = ''UDP'' then ''UDP'' else [])"

definition validPort :: "int \<Rightarrow> bool" where
  "validPort port \<longleftrightarrow> port > 0 \<and> port \<le> 65535"

definition IsValid :: "upnp \<Rightarrow> bool" where
  "IsValid u \<longleftrightarrow>
     (case up_Gateway u of
        None \<Rightarrow> False
      | Some g \<Rightarrow> gw_ServiceType g \<noteq> [] \<and> up_GatewayOutsideIP u \<noteq> [] \<and> up_CtrlUrl u \<noteq> [] \<and> up_LocalHost u \<noteq> [])"

section \<open>Discovery\<close>

definition search_request :: "string \<Rightarrow> string" where
  "search_request serviceType =
     (let crlf = [char_of (13 :: nat), char_of (10 :: nat)]
      in ''M-SEARCH * HTTP/1.1'' @ crlf @ ''HOST: 239.255.255.250:1900'' @ crlf
         @ ''MAN: '' @ quoted ''ssdp:discover'' @ crlf @ ''MX: '' @ go_itoa 2 @ crlf
         @ ''ST: urn:schemas-upnp-org:service:'' @ serviceType @ '':1'' @ crlf @ crlf)"

definition isLanGatewayAddr :: "ip option \<Rightarrow> string \<Rightarrow> bool" where
  "isLanGatewayAddr addr localHost =
     (case addr of
        None \<Rightarrow> False
      | Some a \<Rightarrow>
          (case to4 a of
             None \<Rightarrow> False
           | Some ip4 \<Rightarrow>
               if \<not> is_private4 ip4 \<and> \<not> is_link_local4 ip4 then False
               else \<not> (localHost \<noteq> [] \<and> ip_string ip4 = localHost)))"

definition ssdp_buffer :: nat where "ssdp_buffer = 4096"

text \<open>The receive loop of one socket over the datagrams that arrive before the deadline.\<close>

fun ssdp_receive :: "string \<Rightarrow> (ip option \<times> string) list \<Rightarrow> string option" where
  "ssdp_receive localHost [] = None"
| "ssdp_receive localHost ((src, data) # ps) =
     (let result = take ssdp_buffer data in
      if length result = ssdp_buffer then ssdp_receive localHost ps
      else if \<not> isLanGatewayAddr src localHost then ssdp_receive localHost ps
      else if \<not> contains_str ''LOCATION:'' (to_upper result) then ssdp_receive localHost ps
      else Some result)"

fun crlf_to_lf :: "string \<Rightarrow> string" where
  "crlf_to_lf (c # d # s) =
     (if code c = 13 \<and> code d = 10 then d # crlf_to_lf s else c # crlf_to_lf (d # s))"
| "crlf_to_lf s = s"

definition empty_gateway :: gateway where
  "empty_gateway = \<lparr> gw_GatewayName = [], gw_Host = [], gw_DeviceDescUrl = [], gw_Cache = [], gw_ST = [],
     gw_USN = [], gw_ServiceType = [] \<rparr>"

definition ssdp_line :: "'w upnp_lib \<Rightarrow> string \<Rightarrow> gateway \<Rightarrow> gateway" where
  "ssdp_line lib line gw =
     (case cut_at CHR '':'' line of
        None \<Rightarrow> gw
      | Some (name0, value0) \<Rightarrow>
          (let name = to_upper (trim_space name0); value = trim_space value0 in
           if name = ''ST'' then gw\<lparr> gw_ST := value \<rparr>
           else if name = ''CACHE-CONTROL'' then gw\<lparr> gw_Cache := value \<rparr>
           else if name = ''LOCATION'' then
             (case ul_url lib value of
                None \<Rightarrow> gw
              | Some (host, uri) \<Rightarrow>
                  if host = [] then gw
                  else gw\<lparr> gw_Host := host, gw_DeviceDescUrl := (if uri = [] then ''/'' else uri) \<rparr>)
           else if name = ''SERVER'' then gw\<lparr> gw_GatewayName := value \<rparr>
           else if name = ''USN'' then gw\<lparr> gw_USN := value \<rparr>
           else gw))"

definition parseGatewayFromSSDP :: "'w upnp_lib \<Rightarrow> string \<Rightarrow> gateway" where
  "parseGatewayFromSSDP lib result =
     fold (ssdp_line lib) (split_on (char_of (10 :: nat)) (crlf_to_lf result)) empty_gateway"

text \<open>\<open>sockets\<close>: what the two sockets received, the one that ends first in front.\<close>

definition SearchGateway_Send ::
  "'w upnp_lib \<Rightarrow> (ip option \<times> string) list list \<Rightarrow> upnp \<Rightarrow> bool \<times> upnp" where
  "SearchGateway_Send lib sockets u =
     (case List.map_filter (ssdp_receive (up_LocalHost u)) sockets of
        [] \<Rightarrow> (False, u\<lparr> up_Active := False \<rparr>)
      | result # _ \<Rightarrow>
          if result = [] then (False, u\<lparr> up_Active := False \<rparr>)
          else let g = parseGatewayFromSSDP lib result in
            if gw_Host g = [] \<or> gw_ST g = []
            then (False, u\<lparr> up_Gateway := Some g, up_Active := False \<rparr>)
            else (True, u\<lparr> up_Gateway := Some (g\<lparr> gw_ServiceType := gw_ST g \<rparr>), up_Active := True \<rparr>))"

section \<open>Device description\<close>

text \<open>The token loop: \<open>lastLabel\<close> and \<open>isUpnpServer\<close> are its variables.\<close>

fun control_url :: "string \<Rightarrow> string \<Rightarrow> bool \<Rightarrow> xml_token list \<Rightarrow> string" where
  "control_url st lastLabel isUpnpServer [] = []"
| "control_url st lastLabel isUpnpServer (XStart n # ts) =
     control_url st (if isUpnpServer then n else lastLabel) isUpnpServer ts"
| "control_url st lastLabel isUpnpServer (XEnd n # ts) = control_url st lastLabel isUpnpServer ts"
| "control_url st lastLabel isUpnpServer (XChars s # ts) =
     (let content = trim_space s in
      if content = [] then control_url st lastLabel isUpnpServer ts
      else if content = st then control_url st lastLabel True ts
      else if isUpnpServer \<and> lastLabel = ''controlURL'' then content
      else control_url st lastLabel isUpnpServer ts)"

definition parseControlURLFromDesc :: "'w upnp_lib \<Rightarrow> string \<Rightarrow> string \<Rightarrow> string" where
  "parseControlURLFromDesc lib resultStr serviceType = control_url serviceType [] False (ul_xml lib resultStr)"

definition resolveControlURL :: "'w upnp_lib \<Rightarrow> string \<Rightarrow> string \<Rightarrow> string \<times> string" where
  "resolveControlURL lib base controlURL =
     (case ul_resolve lib base (trim_space controlURL) of
        None \<Rightarrow> ([], [])
      | Some (host, path, query) \<Rightarrow>
          (host, (if path = [] then ''/'' else path) @ (if query \<noteq> [] then ''?'' @ query else [])))"

definition DeviceDesc_resolve :: "'w upnp_lib \<Rightarrow> string \<Rightarrow> upnp \<Rightarrow> upnp" where
  "DeviceDesc_resolve lib resultStr u =
     (case up_Gateway u of
        None \<Rightarrow> u
      | Some g \<Rightarrow>
          (let base = ''http://'' @ gw_Host g @ gw_DeviceDescUrl g;
               controlURL = parseControlURLFromDesc lib resultStr (gw_ServiceType g) in
           if ul_url lib base = None then u
           else if controlURL = [] then u
           else case resolveControlURL lib base controlURL of
             (host, path) \<Rightarrow>
               if path = [] then u
               else if host \<noteq> [] \<and> host \<noteq> gw_Host g then u
               else u\<lparr> up_CtrlUrl := path \<rparr>))"

definition DeviceDesc_Send :: "'w upnp_lib \<Rightarrow> upnp \<Rightarrow> 'w \<Rightarrow> bool \<times> upnp \<times> 'w" where
  "DeviceDesc_Send lib u w =
     (case up_Gateway u of
        None \<Rightarrow> (False, u, w)
      | Some g \<Rightarrow>
          if gw_Host g = [] then (False, u, w)
          else let p = gw_DeviceDescUrl g;
                   descPath = (if p = [] then ''/'' else if \<not> has_prefix ''/'' p then ''/'' @ p else p) in
            case ul_http lib \<lparr> hc_method = ''GET'', hc_url = ''http://'' @ gw_Host g @ descPath,
                               hc_action = [], hc_body = [] \<rparr> w of
              (None, w') \<Rightarrow> (False, u, w')
            | (Some (status, body), w') \<Rightarrow>
                if status \<noteq> 200 then (False, u, w')
                else let u' = DeviceDesc_resolve lib body u in (up_CtrlUrl u' \<noteq> [], u', w'))"

section \<open>Requests\<close>

definition soap_call :: "upnp \<Rightarrow> gateway \<Rightarrow> string \<Rightarrow> xml_node list \<Rightarrow> http_call" where
  "soap_call u g action args =
     \<lparr> hc_method = ''POST'', hc_url = ''http://'' @ gw_Host g @ up_CtrlUrl u,
       hc_action = quoted (gw_ServiceType g @ ''#'' @ action),
       hc_body = buildSOAPEnvelope (gw_ServiceType g) action args \<rparr>"

text \<open>\<open>None\<close> for an error, before or during the exchange.\<close>

definition soapPost ::
  "'w upnp_lib \<Rightarrow> upnp \<Rightarrow> string \<Rightarrow> xml_node list \<Rightarrow> 'w \<Rightarrow> (nat \<times> string) option \<times> 'w" where
  "soapPost lib u action args w =
     (case up_Gateway u of
        None \<Rightarrow> (None, w)
      | Some g \<Rightarrow>
          if gw_ServiceType g = [] \<or> up_CtrlUrl u = [] then (None, w)
          else if \<not> validServiceType (gw_ServiceType g) then (None, w)
          else ul_http lib (soap_call u g action args) w)"

record mapping_entry =
  me_ExternalPort :: int
  me_Protocol :: string
  me_InternalPort :: int
  me_InternalClient :: string
  me_Description :: string
  me_Enabled :: bool

definition empty_entry :: mapping_entry where
  "empty_entry = \<lparr> me_ExternalPort = 0, me_Protocol = [], me_InternalPort = 0, me_InternalClient = [],
     me_Description = [], me_Enabled = False \<rparr>"

definition set_entry :: "string \<Rightarrow> string \<Rightarrow> mapping_entry \<Rightarrow> mapping_entry" where
  "set_entry element content e =
     (if element = ''NewExternalPort'' then
        (case atoi content of Some v \<Rightarrow> e\<lparr> me_ExternalPort := v \<rparr> | None \<Rightarrow> e)
      else if element = ''NewProtocol'' then e\<lparr> me_Protocol := content \<rparr>
      else if element = ''NewInternalPort'' then
        (case atoi content of Some v \<Rightarrow> e\<lparr> me_InternalPort := v \<rparr> | None \<Rightarrow> e)
      else if element = ''NewInternalClient'' then e\<lparr> me_InternalClient := content \<rparr>
      else if element = ''NewPortMappingDescription'' then e\<lparr> me_Description := content \<rparr>
      else if element = ''NewEnabled'' then e\<lparr> me_Enabled := content = ''1'' \<or> equal_fold content ''true'' \<rparr>
      else e)"

fun mapping_tokens :: "string \<Rightarrow> mapping_entry \<Rightarrow> xml_token list \<Rightarrow> mapping_entry" where
  "mapping_tokens element e [] = e"
| "mapping_tokens element e (XStart n # ts) = mapping_tokens n e ts"
| "mapping_tokens element e (XEnd n # ts) = mapping_tokens [] e ts"
| "mapping_tokens element e (XChars s # ts) =
     (let content = trim_space s in
      mapping_tokens element (if content = [] then e else set_entry element content e) ts)"

definition parsePortMappingEntry :: "'w upnp_lib \<Rightarrow> string \<Rightarrow> mapping_entry" where
  "parsePortMappingEntry lib resultStr = mapping_tokens [] empty_entry (ul_xml lib resultStr)"

definition GetPortMappingEntry_Send :: "'w upnp_lib \<Rightarrow> upnp \<Rightarrow> nat \<Rightarrow> 'w \<Rightarrow> mapping_entry option \<times> 'w" where
  "GetPortMappingEntry_Send lib u index w =
     (case soapPost lib u ''GetGenericPortMappingEntry'' [leaf ''NewPortMappingIndex'' (go_itoa (int index))] w of
        (None, w') \<Rightarrow> (None, w')
      | (Some (status, body), w') \<Rightarrow>
          if status \<noteq> 200 then (None, w')
          else let e = parsePortMappingEntry lib body in
            if me_ExternalPort e < 1 \<or> me_ExternalPort e > 65535 then (None, w') else (Some e, w'))"

definition sent_ok :: "(nat \<times> string) option \<times> 'w \<Rightarrow> bool \<times> 'w" where
  "sent_ok r = (case r of (None, w) \<Rightarrow> (False, w) | (Some (status, _), w) \<Rightarrow> (status = 200, w))"

definition AddPortMapping_Send :: "'w upnp_lib \<Rightarrow> upnp \<Rightarrow> int \<Rightarrow> int \<Rightarrow> string \<Rightarrow> 'w \<Rightarrow> bool \<times> 'w" where
  "AddPortMapping_Send lib u localPort remotePort protocol w =
     (let proto = normalizeProtocol protocol in
      if \<not> validPort localPort \<or> \<not> validPort remotePort \<or> proto = [] then (False, w)
      else sent_ok (soapPost lib u ''AddPortMapping''
        [leaf ''NewExternalPort'' (go_itoa remotePort), leaf ''NewInternalPort'' (go_itoa localPort),
         leaf ''NewProtocol'' proto, leaf ''NewEnabled'' ''1'', leaf ''NewInternalClient'' (up_LocalHost u),
         leaf ''NewLeaseDuration'' ''0'', leaf ''NewPortMappingDescription'' (mappingDescription u),
         leaf ''NewRemoteHost'' []] w))"

definition del_args :: "int \<Rightarrow> string \<Rightarrow> xml_node list" where
  "del_args port proto =
     [leaf ''NewExternalPort'' (go_itoa port), leaf ''NewProtocol'' proto, leaf ''NewRemoteHost'' []]"

definition DelPortMapping_Send :: "'w upnp_lib \<Rightarrow> upnp \<Rightarrow> int \<Rightarrow> string \<Rightarrow> 'w \<Rightarrow> bool \<times> 'w" where
  "DelPortMapping_Send lib u remotePort protocol w =
     (let proto = normalizeProtocol protocol in
      if \<not> validPort remotePort \<or> proto = [] then (False, w)
      else sent_ok (soapPost lib u ''DeletePortMapping'' (del_args remotePort proto) w))"

fun external_ip :: "bool \<Rightarrow> xml_token list \<Rightarrow> string" where
  "external_ip found [] = []"
| "external_ip found (XStart n # ts) = external_ip (if n = ''NewExternalIPAddress'' then True else found) ts"
| "external_ip found (XEnd n # ts) = external_ip (if n = ''NewExternalIPAddress'' then False else found) ts"
| "external_ip found (XChars s # ts) =
     (if found \<and> trim_space s \<noteq> [] then trim_space s else external_ip found ts)"

definition ExternalIPAddress_Send :: "'w upnp_lib \<Rightarrow> upnp \<Rightarrow> 'w \<Rightarrow> bool \<times> upnp \<times> 'w" where
  "ExternalIPAddress_Send lib u w =
     (case soapPost lib u ''GetExternalIPAddress'' [] w of
        (None, w') \<Rightarrow> (False, u, w')
      | (Some (status, body), w') \<Rightarrow>
          if status \<noteq> 200 then (False, u, w')
          else let ip = external_ip False (ul_xml lib body) in
            if ip = [] then (False, u, w') else (True, u\<lparr> up_GatewayOutsideIP := ip \<rparr>, w'))"

section \<open>The client\<close>

datatype upnp_err = NoLocalIP | NoGateway | NoDescription | NoControlURL | NoOutsideIP | NotValid | AddFailed | DelFailed

definition deviceDesc :: "'w upnp_lib \<Rightarrow> upnp \<Rightarrow> 'w \<Rightarrow> upnp_err option \<times> upnp \<times> 'w" where
  "deviceDesc lib u w =
     (case DeviceDesc_Send lib u w of
        (False, u', w') \<Rightarrow> (Some NoDescription, u'\<lparr> up_Active := False \<rparr>, w')
      | (True, u', w') \<Rightarrow>
          if up_CtrlUrl u' = [] then (Some NoControlURL, u'\<lparr> up_Active := False \<rparr>, w')
          else (None, u'\<lparr> up_Active := True \<rparr>, w'))"

text \<open>The steps of \<open>Init\<close>, each skipped when its result is already known; \<open>localIP\<close> is the probe's result.\<close>

definition init_local :: "string option \<Rightarrow> upnp \<Rightarrow> upnp_err option \<times> upnp" where
  "init_local localIP u =
     (if up_LocalHost u \<noteq> [] then (None, u)
      else case localIP of
        None \<Rightarrow> (Some NoLocalIP, u\<lparr> up_Active := False \<rparr>)
      | Some h \<Rightarrow> (None, u\<lparr> up_LocalHost := h \<rparr>))"

definition init_gateway ::
  "'w upnp_lib \<Rightarrow> (ip option \<times> string) list list \<Rightarrow> upnp \<Rightarrow> 'w \<Rightarrow> upnp_err option \<times> upnp \<times> 'w" where
  "init_gateway lib sockets u w =
     (if up_CtrlUrl u \<noteq> [] then (None, u, w)
      else case SearchGateway_Send lib sockets u of
        (False, u1) \<Rightarrow> (Some NoGateway, u1\<lparr> up_Active := False \<rparr>, w)
      | (True, u1) \<Rightarrow> deviceDesc lib u1 w)"

definition init_outside :: "'w upnp_lib \<Rightarrow> upnp \<Rightarrow> 'w \<Rightarrow> upnp_err option \<times> upnp \<times> 'w" where
  "init_outside lib u w =
     (if up_GatewayOutsideIP u \<noteq> [] then (None, u, w)
      else case ExternalIPAddress_Send lib u w of
        (False, u1, w1) \<Rightarrow> (Some NoOutsideIP, u1\<lparr> up_Active := False \<rparr>, w1)
      | (True, u1, w1) \<Rightarrow> (None, u1, w1))"

definition upnp_Init ::
  "'w upnp_lib \<Rightarrow> string option \<Rightarrow> (ip option \<times> string) list list \<Rightarrow> upnp \<Rightarrow> 'w
     \<Rightarrow> upnp_err option \<times> upnp \<times> 'w" where
  "upnp_Init lib localIP sockets u w =
     (if IsValid u then (None, u, w)
      else case init_local localIP u of
        (Some e, u1) \<Rightarrow> (Some e, u1, w)
      | (None, u1) \<Rightarrow>
          (case init_gateway lib sockets u1 w of
             (Some e, u2, w2) \<Rightarrow> (Some e, u2, w2)
           | (None, u2, w2) \<Rightarrow> init_outside lib u2 w2))"

definition AddPortMapping :: "'w upnp_lib \<Rightarrow> int \<Rightarrow> int \<Rightarrow> string \<Rightarrow> upnp \<Rightarrow> 'w \<Rightarrow> upnp_err option \<times> upnp \<times> 'w" where
  "AddPortMapping lib localPort remotePort protocol u w =
     (if \<not> IsValid u then (Some NotValid, u, w)
      else case AddPortMapping_Send lib u localPort remotePort protocol w of
        (True, w') \<Rightarrow> (None, u, w')
      | (False, w') \<Rightarrow> (Some AddFailed, u\<lparr> up_Active := False \<rparr>, w'))"

definition DelPortMapping :: "'w upnp_lib \<Rightarrow> int \<Rightarrow> string \<Rightarrow> upnp \<Rightarrow> 'w \<Rightarrow> upnp_err option \<times> 'w" where
  "DelPortMapping lib remotePort protocol u w =
     (if \<not> IsValid u then (Some NotValid, w)
      else case DelPortMapping_Send lib u remotePort protocol w of
        (True, w') \<Rightarrow> (None, w')
      | (False, w') \<Rightarrow> (Some DelFailed, w'))"

definition AddKeepPort :: "int \<Rightarrow> upnp \<Rightarrow> upnp" where
  "AddKeepPort port u = u\<lparr> up_KeepPorts := List.insert port (up_KeepPorts u) \<rparr>"

definition RemoveKeepPort :: "int \<Rightarrow> upnp \<Rightarrow> upnp" where
  "RemoveKeepPort port u = u\<lparr> up_KeepPorts := filter (\<lambda>p. p \<noteq> port) (up_KeepPorts u) \<rparr>"

text \<open>
  Removing old mappings: the list of those to delete is made first. \<open>late\<close> tells for an index whether
  the time allowed was over when the loop came to it.
\<close>

definition own_unkept :: "upnp \<Rightarrow> mapping_entry \<Rightarrow> bool" where
  "own_unkept u e \<longleftrightarrow> me_Description e = mappingDescription u \<and> me_ExternalPort e \<notin> set (up_KeepPorts u)"

function enum_entries ::
  "'w upnp_lib \<Rightarrow> (nat \<Rightarrow> bool) \<Rightarrow> upnp \<Rightarrow> nat \<Rightarrow> 'w \<Rightarrow> mapping_entry list \<times> 'w" where
  "enum_entries lib late u i w =
     (if i \<ge> maxPortMappingIndex \<or> late i then ([], w)
      else case GetPortMappingEntry_Send lib u i w of
        (None, w') \<Rightarrow> ([], w')
      | (Some e, w') \<Rightarrow> (case enum_entries lib late u (Suc i) w' of (es, w2) \<Rightarrow> (e # es, w2)))"
  by pat_completeness auto
termination
  by (relation "measure (\<lambda>(lib, late, u, i, w). maxPortMappingIndex - i)") auto

declare enum_entries.simps [simp del]

fun delete_entries ::
  "'w upnp_lib \<Rightarrow> (nat \<Rightarrow> bool) \<Rightarrow> upnp \<Rightarrow> nat \<Rightarrow> mapping_entry list \<Rightarrow> 'w \<Rightarrow> nat \<times> 'w" where
  "delete_entries lib late u i [] w = (0, w)"
| "delete_entries lib late u i (e # es) w =
     (if late i then (Suc (length es), w)
      else let proto = normalizeProtocol (me_Protocol e) in
        if proto = [] \<or> \<not> validPort (me_ExternalPort e)
        then (case delete_entries lib late u (Suc i) es w of (n, w') \<Rightarrow> (Suc n, w'))
        else case DelPortMapping lib (me_ExternalPort e) proto u w of
          (err, w1) \<Rightarrow>
            (case delete_entries lib late u (Suc i) es w1 of
               (n, w2) \<Rightarrow> (if err = None then n else Suc n, w2)))"

text \<open>The number of mappings that could not be deleted is only logged; here it is the result.\<close>

definition CleanMappings ::
  "'w upnp_lib \<Rightarrow> (nat \<Rightarrow> bool) \<Rightarrow> (nat \<Rightarrow> bool) \<Rightarrow> upnp \<Rightarrow> 'w \<Rightarrow> nat \<times> 'w" where
  "CleanMappings lib late_get late_del u w =
     (if \<not> IsValid u then (0, w)
      else case enum_entries lib late_get u 0 w of
        (es, w1) \<Rightarrow> delete_entries lib late_del u 0 (filter (own_unkept u) es) w1)"

section \<open>Recorded exchanges\<close>

text \<open>
  A world that is the list of requests sent so far; \<open>srv\<close> is an arbitrary router whose answer may depend
  on everything it was asked before.
\<close>

definition recorded ::
  "(http_call list \<Rightarrow> http_call \<Rightarrow> (nat \<times> string) option) \<Rightarrow> http_call \<Rightarrow> http_call list
     \<Rightarrow> (nat \<times> string) option \<times> http_call list" where
  "recorded srv c log = (srv log c, log @ [c])"

definition get_call :: "upnp \<Rightarrow> gateway \<Rightarrow> nat \<Rightarrow> http_call" where
  "get_call u g k = soap_call u g ''GetGenericPortMappingEntry'' [leaf ''NewPortMappingIndex'' (go_itoa (int k))]"

definition del_call :: "upnp \<Rightarrow> gateway \<Rightarrow> mapping_entry \<Rightarrow> http_call" where
  "del_call u g e = soap_call u g ''DeletePortMapping'' (del_args (me_ExternalPort e) (normalizeProtocol (me_Protocol e)))"

definition deletable :: "mapping_entry \<Rightarrow> bool" where
  "deletable e \<longleftrightarrow> normalizeProtocol (me_Protocol e) \<noteq> [] \<and> validPort (me_ExternalPort e)"

lemma normalizeProtocol_cases: "normalizeProtocol p = ''TCP'' \<or> normalizeProtocol p = ''UDP'' \<or> normalizeProtocol p = []"
  by (simp add: normalizeProtocol_def Let_def)

lemma normalizeProtocol_idem: "normalizeProtocol (normalizeProtocol p) = normalizeProtocol p"
proof -
  have "normalizeProtocol ''TCP'' = ''TCP''" "normalizeProtocol ''UDP'' = ''UDP''" "normalizeProtocol [] = []"
    by code_simp+
  then show ?thesis using normalizeProtocol_cases[of p] by auto
qed

lemma soapPost_recorded:
  assumes "up_Gateway u = Some g" "IsValid u" "ul_http lib = recorded srv"
  shows "soapPost lib u action args log =
    (if validServiceType (gw_ServiceType g)
     then (srv log (soap_call u g action args), log @ [soap_call u g action args]) else (None, log))"
  using assms by (auto simp: soapPost_def IsValid_def recorded_def)

text \<open>What the entries read have to do with the answers.\<close>

definition answered ::
  "'w upnp_lib \<Rightarrow> (http_call list \<Rightarrow> http_call \<Rightarrow> (nat \<times> string) option) \<Rightarrow> http_call list
     \<Rightarrow> http_call list \<Rightarrow> mapping_entry list \<Rightarrow> bool" where
  "answered lib srv log gets es \<longleftrightarrow>
     length es \<le> length gets \<and>
     (\<forall>k. k < length es \<longrightarrow>
        (\<exists>body. srv (log @ take k gets) (gets ! k) = Some (200, body) \<and> es ! k = parsePortMappingEntry lib body))"

lemma answered_Nil: "answered lib srv log gets []"
  by (simp add: answered_def)

lemma answered_Cons:
  assumes "srv log c = Some (200, body)" "e = parsePortMappingEntry lib body"
    and "answered lib srv (log @ [c]) gets es"
  shows "answered lib srv log (c # gets) (e # es)"
  unfolding answered_def
proof (intro conjI allI impI)
  show "length (e # es) \<le> length (c # gets)" using assms(3) by (simp add: answered_def)
  fix k assume "k < length (e # es)"
  then show "\<exists>body. srv (log @ take k (c # gets)) ((c # gets) ! k) = Some (200, body) \<and>
      (e # es) ! k = parsePortMappingEntry lib body"
    using assms by (cases k) (auto simp: answered_def)
qed

lemma GetPortMappingEntry_recorded:
  assumes "up_Gateway u = Some g" "IsValid u" "ul_http lib = recorded srv"
    and "GetPortMappingEntry_Send lib u i log = (r, log')"
  shows "case r of
      Some e \<Rightarrow> log' = log @ [get_call u g i] \<and>
        (\<exists>body. srv log (get_call u g i) = Some (200, body) \<and> e = parsePortMappingEntry lib body)
    | None \<Rightarrow> log' = log \<or> log' = log @ [get_call u g i]"
proof -
  let ?a = "srv log (get_call u g i)"
  note sp = soapPost_recorded[OF assms(1-3), of "''GetGenericPortMappingEntry''"
      "[leaf ''NewPortMappingIndex'' (go_itoa (int i))]" log, folded get_call_def]
  show ?thesis
  proof (cases "validServiceType (gw_ServiceType g)")
    case False
    then show ?thesis using assms(4) sp by (auto simp: GetPortMappingEntry_Send_def)
  next
    case True
    then show ?thesis using assms(4) sp
      by (cases ?a) (auto simp: GetPortMappingEntry_Send_def Let_def split: if_splits)
  qed
qed

lemma enum_entries_recorded:
  assumes "up_Gateway u = Some g" "IsValid u" "ul_http lib = recorded srv"
    and "enum_entries lib late u i log = (es, log')"
  shows "\<exists>gets. log' = log @ gets \<and> gets = map (get_call u g) [i..<i + length gets] \<and>
    length gets \<le> maxPortMappingIndex - i \<and> answered lib srv log gets es"
  using assms
proof (induction lib late u i log arbitrary: es log' rule: enum_entries.induct)
  case (1 lib late u i log)
  show ?case
  proof (cases "i \<ge> maxPortMappingIndex \<or> late i")
    case True
    then show ?thesis using 1(5) by (auto simp: enum_entries.simps[of lib late u i log] answered_Nil)
  next
    case False
    obtain r log1 where r: "GetPortMappingEntry_Send lib u i log = (r, log1)" by (metis surj_pair)
    note k = GetPortMappingEntry_recorded[OF 1(2-4) r]
    have ub: "[i..<i + Suc n] = i # [Suc i..<Suc i + n]" for n by (simp add: upt_rec)
    show ?thesis
    proof (cases r)
      case None
      have e: "es = []" "log' = log1" using 1(5) r None False by (simp_all add: enum_entries.simps[of lib late u i log])
      from k None e False show ?thesis
        by (auto intro: exI[of _ "[]"] exI[of _ "[get_call u g i]"] simp: answered_Nil)
    next
      case (Some e)
      obtain es2 log2 where t: "enum_entries lib late u (Suc i) log1 = (es2, log2)" by (metis surj_pair)
      have eq: "es = e # es2" "log' = log2"
        using 1(5) r Some t False by (simp_all add: enum_entries.simps[of lib late u i log])
      have l1: "log1 = log @ [get_call u g i]" using k Some by simp
      obtain body where b: "srv log (get_call u g i) = Some (200, body)" "e = parsePortMappingEntry lib body"
        using k Some by auto
      from 1(1)[OF _ r[symmetric] Some 1(2-4) t] False
      obtain gets where g: "log2 = log1 @ gets" "gets = map (get_call u g) [Suc i..<Suc i + length gets]"
        "length gets \<le> maxPortMappingIndex - Suc i" "answered lib srv log1 gets es2" by blast
      show ?thesis
        by (rule exI[of _ "get_call u g i # gets"])
           (use g False l1 eq ub[of "length gets"] answered_Cons[of srv log "get_call u g i" body e lib gets es2] b in \<open>auto simp del: upt_Suc\<close>)
    qed
  qed
qed

lemma DelPortMapping_recorded:
  assumes "up_Gateway u = Some g" "IsValid u" "ul_http lib = recorded srv" "deletable e"
    and "DelPortMapping lib (me_ExternalPort e) (normalizeProtocol (me_Protocol e)) u log = (err, log')"
  shows "log' = (if validServiceType (gw_ServiceType g) then log @ [del_call u g e] else log)"
  using assms soapPost_recorded[OF assms(1-3), of "''DeletePortMapping''"]
  by (auto simp: DelPortMapping_def DelPortMapping_Send_def normalizeProtocol_idem deletable_def del_call_def
      sent_ok_def Let_def split: option.splits prod.splits if_splits bool.splits)

lemma delete_entries_recorded:
  assumes "up_Gateway u = Some g" "IsValid u" "ul_http lib = recorded srv"
    and "delete_entries lib late u i es log = (n, log')"
  shows "\<exists>dels. log' = log @ dels \<and> prefix dels (map (del_call u g) (filter deletable es)) \<and>
    (validServiceType (gw_ServiceType g) \<and> (\<forall>k. \<not> late k) \<longrightarrow> dels = map (del_call u g) (filter deletable es))"
  using assms(4)
proof (induction es arbitrary: i log n log')
  case (Cons e es)
  show ?case
  proof (cases "late i")
    case True
    then show ?thesis using Cons.prems by auto
  next
    case False
    show ?thesis
    proof (cases "deletable e")
      case d: False
      obtain m l where m: "delete_entries lib late u (Suc i) es log = (m, l)" by (metis surj_pair)
      have "log' = l" using Cons.prems False d m by (auto simp: deletable_def Let_def)
      then show ?thesis using Cons.IH[OF m] d by simp
    next
      case d: True
      obtain err l1 where dl: "DelPortMapping lib (me_ExternalPort e) (normalizeProtocol (me_Protocol e)) u log = (err, l1)"
        by (metis surj_pair)
      obtain m l where m: "delete_entries lib late u (Suc i) es l1 = (m, l)" by (metis surj_pair)
      have l: "log' = l" using Cons.prems False d dl m by (auto simp: deletable_def Let_def)
      note l1 = DelPortMapping_recorded[OF assms(1-3) d dl]
      obtain dels where dels: "l = l1 @ dels" "prefix dels (map (del_call u g) (filter deletable es))"
        "validServiceType (gw_ServiceType g) \<and> (\<forall>k. \<not> late k) \<longrightarrow> dels = map (del_call u g) (filter deletable es)"
        using Cons.IH[OF m] by blast
      show ?thesis
      proof (cases "validServiceType (gw_ServiceType g)")
        case True
        then show ?thesis using l l1 dels d by (intro exI[of _ "del_call u g e # dels"]) auto
      next
        case f: False
        have "delete_entries lib late u k fs w = (q, w2) \<Longrightarrow> w2 = w" for k fs w q w2
        proof (induction fs arbitrary: k w q w2)
          case (Cons x fs)
          then show ?case
            using f soapPost_recorded[OF assms(1-3)]
            by (auto simp: DelPortMapping_def DelPortMapping_Send_def sent_ok_def Let_def
                split: if_splits prod.splits option.splits)
        qed simp
        from this[OF Cons.prems] f show ?thesis by auto
      qed
    qed
  qed
qed simp

section \<open>Properties\<close>

definition envelope_text :: string where
  "envelope_text = '' SOAP-ENV:encodingStyle='' @ quoted ''http://schemas.xmlsoap.org/soap/encoding/''
     @ '' xmlns:SOAP-ENV='' @ quoted ''http://schemas.xmlsoap.org/soap/envelope/''"

definition arg_pieces :: "string \<times> string \<Rightarrow> xml_piece list" where
  "arg_pieces a = Tag (fst a) # flush (escape_text (snd a)) [Tag (''/'' @ fst a)]"

lemma attr_text_simps [simp]: "attr_text [] = []" "attr_text [(k, v)] = '' '' @ k @ ''='' @ v"
  by (simp_all add: attr_text_def)

lemma plain_append [simp]: "plain (a @ b) = (plain a \<and> plain b)"
  by (auto simp: plain_def)

lemma node_pieces_leaf: "node_pieces (leaf n c) = arg_pieces (n, c)"
  by (simp add: leaf_def arg_pieces_def flush_def)

lemma envelope_attrs:
  "attr_text [(''xmlns:SOAP-ENV'', quoted ''http://schemas.xmlsoap.org/soap/envelope/''),
     (''SOAP-ENV:encodingStyle'', quoted ''http://schemas.xmlsoap.org/soap/encoding/'')] = envelope_text"
  by code_simp

lemma envelope_pieces:
  assumes "plain st" "plain action" "list_all plain_node ns"
  shows "xml_read (buildSOAPEnvelope st action ns) =
    [Tag (''SOAP-ENV:Envelope'' @ envelope_text), Tag ''SOAP-ENV:Body'', Tag (''m:'' @ action @ '' xmlns:m='' @ quoted st)]
      @ concat (map node_pieces ns)
      @ [Tag (''/m:'' @ action), Tag ''/SOAP-ENV:Body'', Tag ''/SOAP-ENV:Envelope'']"
proof -
  have pt: "plain envelope_text" "plain ''SOAP-ENV:Envelope''" "plain ''SOAP-ENV:Body''" "plain (quoted [])"
    by code_simp+
  have q: "plain (quoted st)" using assms(1) pt(4) by (auto simp: quoted_def plain_def)
  have m: "plain_node (Node (''m:'' @ action) [] [(''xmlns:m'', quoted st)] ns)"
    using assms(2,3) q by (simp add: plain_def)
  have e0: "escape_text [] = []" "plain []" by (simp_all add: escape_text_def plain_def)
  show ?thesis
    unfolding buildSOAPEnvelope_def
    by (subst xml_read_BuildXML) (use pt m in \<open>simp_all add: envelope_attrs e0 flush_def\<close>)
qed

text \<open>C27 Whatever the content, a request says what was meant. A reader that knows only tags and text finds in
  a SOAP envelope exactly the envelope, the body, the action with its namespace, and one element per
  argument, in order: a description or address that contains angle brackets, quotes or ampersands never
  adds, closes or changes an element, and undoing the escapes gives the content back, provided it
  consists of characters that XML has.\<close>

theorem soap_content_cannot_escape:
  assumes "plain serviceType" "plain action" "list_all (\<lambda>a. plain (fst a)) args"
  shows "xml_read (buildSOAPEnvelope serviceType action (map (\<lambda>a. leaf (fst a) (snd a)) args)) =
      [Tag (''SOAP-ENV:Envelope'' @ envelope_text), Tag ''SOAP-ENV:Body'',
       Tag (''m:'' @ action @ '' xmlns:m='' @ quoted serviceType)]
      @ concat (map arg_pieces args)
      @ [Tag (''/m:'' @ action), Tag ''/SOAP-ENV:Body'', Tag ''/SOAP-ENV:Envelope''] \<and>
    (list_all (\<lambda>a. list_all xml_rune (runes (snd a))) args \<longrightarrow>
       map (\<lambda>a. unescape (escape_text (snd a))) args = map snd args)"
proof
  have "list_all plain_node (map (\<lambda>a. leaf (fst a) (snd a)) args)"
    using assms(3) by (simp add: list_all_iff leaf_def plain_def)
  from envelope_pieces[OF assms(1,2) this]
  show "xml_read (buildSOAPEnvelope serviceType action (map (\<lambda>a. leaf (fst a) (snd a)) args)) =
      [Tag (''SOAP-ENV:Envelope'' @ envelope_text), Tag ''SOAP-ENV:Body'',
       Tag (''m:'' @ action @ '' xmlns:m='' @ quoted serviceType)]
      @ concat (map arg_pieces args)
      @ [Tag (''/m:'' @ action), Tag ''/SOAP-ENV:Body'', Tag ''/SOAP-ENV:Envelope'']"
    by (simp add: node_pieces_leaf comp_def)
qed (simp add: list_all_iff unescape_escape_text)

theorem soap_content_witness:
  "xml_read (buildSOAPEnvelope ''urn:s'' ''Add'' [leaf ''D'' ''</D><x>'']) =
     [Tag (''SOAP-ENV:Envelope'' @ envelope_text), Tag ''SOAP-ENV:Body'', Tag (''m:Add xmlns:m='' @ quoted ''urn:s''),
      Tag ''D'', Text ''&lt;/D&gt;&lt;x&gt;'', Tag ''/D'',
      Tag ''/m:Add'', Tag ''/SOAP-ENV:Body'', Tag ''/SOAP-ENV:Envelope'']"
proof -
  have p: "plain ''urn:s''" "plain ''Add''" "plain ''D''" by (simp_all add: plain_def)
  have e: "escape_text ''</D><x>'' = ''&lt;/D&gt;&lt;x&gt;''" by code_simp
  show ?thesis
    using soap_content_cannot_escape[of "''urn:s''" "''Add''" "[(''D'', ''</D><x>'')]"] p
    by (simp add: arg_pieces_def e flush_def)
qed

lemma clean_requests:
  assumes "up_Gateway u = Some g" "IsValid u" "ul_http lib = recorded srv"
    and "CleanMappings lib late_get late_del u log = (n, log')"
  shows "\<exists>gets dels es. log' = log @ gets @ dels \<and>
    length gets \<le> 256 \<and> gets = map (get_call u g) [0..<length gets] \<and> answered lib srv log gets es \<and>
    prefix dels (map (del_call u g) (filter (\<lambda>e. own_unkept u e \<and> deletable e) es)) \<and>
    ((\<forall>k. \<not> late_del k) \<and> validServiceType (gw_ServiceType g) \<longrightarrow>
       dels = map (del_call u g) (filter (\<lambda>e. own_unkept u e \<and> deletable e) es))"
proof -
  obtain es log1 where en: "enum_entries lib late_get u 0 log = (es, log1)" by (metis surj_pair)
  have de: "delete_entries lib late_del u 0 (filter (own_unkept u) es) log1 = (n, log')"
    using assms(2,4) en by (simp add: CleanMappings_def)
  obtain gets where g: "log1 = log @ gets" "gets = map (get_call u g) [0..<0 + length gets]"
    "length gets \<le> maxPortMappingIndex - 0" "answered lib srv log gets es"
    using enum_entries_recorded[OF assms(1,2,3) en] by auto
  obtain dels where d: "log' = log1 @ dels"
    "prefix dels (map (del_call u g) (filter deletable (filter (own_unkept u) es)))"
    "validServiceType (gw_ServiceType g) \<and> (\<forall>k. \<not> late_del k) \<longrightarrow>
       dels = map (del_call u g) (filter deletable (filter (own_unkept u) es))"
    using delete_entries_recorded[OF assms(1,2,3) de] by auto
  have "filter deletable (filter (own_unkept u) es) = filter (\<lambda>e. own_unkept u e \<and> deletable e) es"
    by simp
  then show ?thesis
    using g d by (intro exI[of _ gets] exI[of _ dels] exI[of _ es]) (auto simp: maxPortMappingIndex_def)
qed

text \<open>C22 Removing old mappings touches nothing else, whatever the router answers. The requests sent are first
  at most 256 readings of the mapping table, in order from index 0, and then deletions only of entries
  that the router announced in answer to one of them with the client's own description and with an
  external port that is not to be kept; when the time is not used up every such entry with a usable port
  and protocol is asked to be deleted, once.\<close>

theorem clean_deletes_only_own:
  assumes "up_Gateway u = Some g" "IsValid u"
    and "CleanMappings (lib\<lparr> ul_http := recorded srv \<rparr>) late_get late_del u log = (n, log')"
  shows "\<exists>gets dels es. log' = log @ gets @ dels \<and>
    length gets \<le> 256 \<and> gets = map (get_call u g) [0..<length gets] \<and> answered lib srv log gets es \<and>
    prefix dels (map (del_call u g) (filter (\<lambda>e. own_unkept u e \<and> deletable e) es)) \<and>
    ((\<forall>k. \<not> late_del k) \<and> validServiceType (gw_ServiceType g) \<longrightarrow>
       dels = map (del_call u g) (filter (\<lambda>e. own_unkept u e \<and> deletable e) es))"
  using clean_requests[OF assms(1,2) _ assms(3), of srv] by (simp add: answered_def parsePortMappingEntry_def)

definition wit_upnp :: upnp where
  "wit_upnp = \<lparr> up_Active = True, up_LocalHost = ''192.168.1.2'', up_GatewayOutsideIP = ''203.0.113.9'',
     up_Gateway = Some (empty_gateway\<lparr> gw_Host := ''192.168.1.1'', gw_ServiceType := ''urn:s'' \<rparr>),
     up_CtrlUrl = ''/c'', up_KeepPorts = [], up_Description = [] \<rparr>"

definition wit_lib :: "http_call list upnp_lib" where
  "wit_lib = \<lparr> ul_http = (\<lambda>c w. (None, w)), ul_xml = (\<lambda>s. []), ul_url = (\<lambda>s. None), ul_resolve = (\<lambda>a b. None) \<rparr>"

theorem clean_deletes_only_own_witness:
  "length (snd (CleanMappings (wit_lib\<lparr> ul_http := recorded (\<lambda>log c. None) \<rparr>) (\<lambda>k. False) (\<lambda>k. False) wit_upnp [])) \<le> 512"
proof -
  have v: "IsValid wit_upnp" by (simp add: IsValid_def wit_upnp_def)
  obtain n log' where c: "CleanMappings (wit_lib\<lparr> ul_http := recorded (\<lambda>log c. None) \<rparr>) (\<lambda>k. False) (\<lambda>k. False)
      wit_upnp [] = (n, log')" by (metis surj_pair)
  have g: "up_Gateway wit_upnp = Some (empty_gateway\<lparr> gw_Host := ''192.168.1.1'', gw_ServiceType := ''urn:s'' \<rparr>)"
    by (simp add: wit_upnp_def)
  obtain gets dels es where h: "log' = [] @ gets @ dels" "length gets \<le> 256"
    "answered wit_lib (\<lambda>log c. None) [] gets es"
    "prefix dels (map (del_call wit_upnp (empty_gateway\<lparr> gw_Host := ''192.168.1.1'', gw_ServiceType := ''urn:s'' \<rparr>))
       (filter (\<lambda>e. own_unkept wit_upnp e \<and> deletable e) es))"
    using clean_deletes_only_own[OF g v c] by blast
  have "length dels \<le> length es"
    using prefix_length_le[OF h(4)] length_filter_le[of "\<lambda>e. own_unkept wit_upnp e \<and> deletable e" es]
    unfolding length_map by (rule order_trans)
  moreover have "length es \<le> length gets" using h(3) by (simp add: answered_def)
  ultimately show ?thesis using c h(1,2) by simp
qed

section \<open>The host the client talks to\<close>

text \<open>
  The sender of a search answer is checked to be in the local network and the control address must be on
  the gateway's host, but the gateway's host itself is whatever the answer names.
\<close>

lemma location_host_unchecked:
  assumes "ul_url lib ''http://203.0.113.9/d'' = Some (''203.0.113.9'', ''/d'')"
  shows "\<exists>answer g. isLanGatewayAddr (Some [192, 168, 1, 77]) ''192.168.1.2'' \<and>
    ssdp_receive ''192.168.1.2'' [(Some [192, 168, 1, 77], answer)] = Some answer \<and>
    g = parseGatewayFromSSDP lib answer \<and> gw_Host g = ''203.0.113.9'' \<and> gw_ST g = ''urn:s''"
proof -
  let ?a = "''LOCATION: http://203.0.113.9/d'' @ [char_of (10 :: nat)] @ ''ST: urn:s''"
  have l: "isLanGatewayAddr (Some [192, 168, 1, 77]) ''192.168.1.2''" by code_simp
  have r: "ssdp_receive ''192.168.1.2'' [(Some [192, 168, 1, 77], ?a)] = Some ?a" by code_simp
  have s: "split_on (char_of (10 :: nat)) (crlf_to_lf ?a) = [''LOCATION: http://203.0.113.9/d'', ''ST: urn:s'']"
    by code_simp
  have c: "cut_at CHR '':'' ''LOCATION: http://203.0.113.9/d'' = Some (''LOCATION'', '' http://203.0.113.9/d'')"
    "cut_at CHR '':'' ''ST: urn:s'' = Some (''ST'', '' urn:s'')" by code_simp+
  have n: "to_upper (trim_space ''LOCATION'') = ''LOCATION''" "to_upper (trim_space ''ST'') = ''ST''"
    "trim_space '' http://203.0.113.9/d'' = ''http://203.0.113.9/d''" "trim_space '' urn:s'' = ''urn:s''" by code_simp+
  have ls: "ssdp_line lib ''LOCATION: http://203.0.113.9/d'' gw =
      gw\<lparr> gw_Host := ''203.0.113.9'', gw_DeviceDescUrl := ''/d'' \<rparr>" "ssdp_line lib ''ST: urn:s'' gw = gw\<lparr> gw_ST := ''urn:s'' \<rparr>" for gw
    unfolding ssdp_line_def c option.case prod.case Let_def n assms by simp_all
  have "parseGatewayFromSSDP lib ?a =
      empty_gateway\<lparr> gw_Host := ''203.0.113.9'', gw_DeviceDescUrl := ''/d'', gw_ST := ''urn:s'' \<rparr>"
    unfolding parseGatewayFromSSDP_def s by (simp add: ls)
  then show ?thesis using l r by (intro exI[of _ ?a] exI[of _ "parseGatewayFromSSDP lib ?a"]) auto
qed

end
