(* ===== verification/Tunnel_Frame.thy ===== *)
theory Tunnel_Frame
  imports Go_Prelude
begin

text \<open>
  The byte-stream side of the tunnel, \<open>proxy/proxy_io.go\<close>: readers as the chunks successive
  \<open>Read\<close> calls deliver before a final error, \<open>io.ReadFull\<close>, the length-prefixed datagram frames
  (\<open>writeFrame\<close>, \<open>readFrame\<close>), the copy loops of \<open>copyBuf\<close> and \<open>RelayUDPIdle\<close>, and the order in
  which \<open>relay\<close> shuts the two sides down. The idle timer only makes reads and writes fail, so it
  shows as the reader's final error or the writer's refusal. The locale \<open>frame_codec\<close> states what
  the datagram relay needs of a frame format.
\<close>

section \<open>Readers\<close>

datatype io_err = EOF | UnexpectedEOF | Timeout | IOErr | TooLarge nat | BadFrameLength nat

text \<open>The chunks still to come and the error every later read returns.\<close>

type_synonym reader = "bytes list \<times> io_err"

definition content :: "reader \<Rightarrow> bytes" where
  "content r = concat (fst r)"

definition read_some :: "nat \<Rightarrow> reader \<Rightarrow> (bytes \<times> io_err option) \<times> reader" where
  "read_some n r =
     (case r of
        ([], e) \<Rightarrow> (([], Some e), r)
      | (c # cs, e) \<Rightarrow>
          if length c \<le> n then ((c, None), (cs, e))
          else ((take n c, None), (drop n c # cs, e)))"

text \<open>\<open>io.ReadFull\<close>: reads on until \<open>n\<close> bytes are there; a shortage is \<open>UnexpectedEOF\<close> when
  something had come.\<close>

fun read_full :: "nat \<Rightarrow> bytes \<Rightarrow> bytes list \<Rightarrow> io_err \<Rightarrow> (io_err + bytes) \<times> reader" where
  "read_full n got [] e =
     ((if n \<le> length got then Inr got
       else Inl (if got \<noteq> [] \<and> e = EOF then UnexpectedEOF else e)), ([], e))"
| "read_full n got (c # cs) e =
     (if n \<le> length got then (Inr got, (c # cs, e))
      else if length got + length c \<le> n then read_full n (got @ c) cs e
      else (Inr (got @ take (n - length got) c), (drop (n - length got) c # cs, e)))"

definition ReadFull :: "nat \<Rightarrow> reader \<Rightarrow> (io_err + bytes) \<times> reader" where
  "ReadFull n r = read_full n [] (fst r) (snd r)"

lemma read_full_ok:
  "length got \<le> n \<Longrightarrow> n \<le> length got + length (concat cs) \<Longrightarrow>
   \<exists>r'. read_full n got cs e = (Inr (take n (got @ concat cs)), r') \<and>
        content r' = drop n (got @ concat cs) \<and> snd r' = e"
proof (induction cs arbitrary: got)
  case (Cons c cs)
  show ?case
  proof (cases "n \<le> length got")
    case True
    then show ?thesis using Cons.prems by (simp add: content_def)
  next
    case False
    show ?thesis
    proof (cases "length got + length c \<le> n")
      case True
      with False Cons.IH[of "got @ c"] Cons.prems show ?thesis by auto
    next
      case False2: False
      with False show ?thesis by (simp add: content_def)
    qed
  qed
qed (auto simp: content_def)

lemma read_full_short:
  "length got + length (concat cs) < n \<Longrightarrow>
   read_full n got cs e =
     (Inl (if got @ concat cs \<noteq> [] \<and> e = EOF then UnexpectedEOF else e), ([], e))"
  by (induction cs arbitrary: got) auto

lemma ReadFull_ok:
  assumes "n \<le> length (content r)"
  obtains r' where "ReadFull n r = (Inr (take n (content r)), r')"
    "content r' = drop n (content r)" "snd r' = snd r"
  using read_full_ok[of "[]" n "fst r" "snd r"] assms by (auto simp: ReadFull_def content_def)

lemma ReadFull_short:
  "length (content r) < n \<Longrightarrow>
   ReadFull n r = (Inl (if content r \<noteq> [] \<and> snd r = EOF then UnexpectedEOF else snd r), ([], snd r))"
  by (simp add: ReadFull_def content_def read_full_short)

section \<open>Datagram frames\<close>

definition maxUDPFramePayload :: nat where "maxUDPFramePayload = 65535"

definition copyBufSize :: nat where "copyBufSize = 64 * 1024"

text \<open>
  A writer is a function of its state: whether \<open>Write\<close> succeeded, and the state after it.
\<close>

type_synonym 'w writer = "'w \<Rightarrow> bytes \<Rightarrow> io_err option \<times> 'w"

definition frame_bytes :: "bytes \<Rightarrow> bytes" where
  "frame_bytes payload = put_u16 (of_nat (length payload)) @ payload"

definition writeFrame :: "'w writer \<Rightarrow> 'w \<Rightarrow> bytes \<Rightarrow> io_err option \<times> 'w" where
  "writeFrame write w payload =
     (if length payload > maxUDPFramePayload then (Some (TooLarge (length payload)), w)
      else write w (frame_bytes payload))"

definition readFrame :: "nat \<Rightarrow> reader \<Rightarrow> (io_err + bytes) \<times> reader" where
  "readFrame bufLen r =
     (case ReadFull 2 r of
        (Inl e, r1) \<Rightarrow> (Inl e, r1)
      | (Inr hdr, r1) \<Rightarrow>
          (let n = unat (get_u16 (hdr ! 0) (hdr ! 1))
           in if n > bufLen then (Inl (BadFrameLength n), r1) else ReadFull n r1))"

lemma readFrame_frame:
  assumes "content r = frame_bytes p @ rest" "length p \<le> maxUDPFramePayload" "length p \<le> bufLen"
  obtains r' where "readFrame bufLen r = (Inr p, r')" "content r' = rest" "snd r' = snd r"
proof -
  let ?w = "of_nat (length p) :: u16"
  have n: "unat ?w = length p"
    using assms(2) by (simp add: maxUDPFramePayload_def unat_of_nat)
  have c: "content r = put_u16 ?w @ p @ rest" using assms(1) by (simp add: frame_bytes_def)
  have "2 \<le> length (content r)" by (simp add: c)
  then obtain r1 where r1: "ReadFull 2 r = (Inr (take 2 (content r)), r1)"
    "content r1 = drop 2 (content r)" "snd r1 = snd r" by (rule ReadFull_ok)
  have h: "take 2 (content r) = put_u16 ?w" and d: "content r1 = p @ rest"
    using r1(2) by (simp_all add: c)
  have "length p \<le> length (content r1)" by (simp add: d)
  then obtain r2 where r2: "ReadFull (length p) r1 = (Inr (take (length p) (content r1)), r2)"
    "content r2 = drop (length p) (content r1)" "snd r2 = snd r1" by (rule ReadFull_ok)
  have g: "unat (get_u16 (put_u16 ?w ! 0) (put_u16 ?w ! 1)) = length p"
    by (simp only: put_u16_def nth_Cons_0 One_nat_def nth_Cons_Suc get_put_u16 n)
  show ?thesis
  proof (rule that[of r2])
    show "readFrame bufLen r = (Inr p, r2)"
      using assms(3) r1(1) r2(1) d unfolding readFrame_def h
      by (simp only: g Let_def prod.case sum.case) simp
    show "content r2 = rest" using r2(2) d by simp
    show "snd r2 = snd r" using r2(3) r1(3) by simp
  qed
qed

lemma readFrame_consumes:
  assumes "readFrame bufLen r = (Inr p, r')"
  shows "content r = frame_bytes p @ content r' \<and> snd r' = snd r \<and> length p \<le> bufLen"
proof -
  have l2: "2 \<le> length (content r)"
  proof (rule ccontr)
    assume "\<not> 2 \<le> length (content r)"
    then show False using assms ReadFull_short[of r 2] by (simp add: readFrame_def)
  qed
  then obtain r1 where r1: "ReadFull 2 r = (Inr (take 2 (content r)), r1)"
    "content r1 = drop 2 (content r)" "snd r1 = snd r" by (rule ReadFull_ok)
  from l2 obtain a b rest where ab: "content r = a # b # rest"
    by (cases "content r"; cases "tl (content r)") auto
  let ?n = "unat (get_u16 a b)"
  have le: "?n \<le> bufLen" and f: "ReadFull ?n r1 = (Inr p, r')"
    using assms r1 ab by (auto simp: readFrame_def Let_def split: if_splits)
  have "?n \<le> length (content r1)"
    using f ReadFull_short[of r1 ?n] by (cases "?n \<le> length (content r1)") auto
  then obtain r2 where r2: "ReadFull ?n r1 = (Inr (take ?n (content r1)), r2)"
    "content r2 = drop ?n (content r1)" "snd r2 = snd r1" by (rule ReadFull_ok)
  have p: "p = take ?n rest" "content r' = drop ?n rest" "snd r' = snd r" "?n \<le> length rest"
    using f r2 r1 ab \<open>?n \<le> length (content r1)\<close> by auto
  then have "put_u16 (of_nat (length p)) = [a, b]" by (simp add: min_def)
  then show ?thesis using p ab le by (simp add: frame_bytes_def)
qed

lemma readFrame_bound:
  assumes "readFrame bufLen r = (Inr p, r')"
  shows "length p \<le> maxUDPFramePayload"
proof -
  obtain hdr r1 where h: "ReadFull 2 r = (Inr hdr, r1)"
    and f: "ReadFull (unat (get_u16 (hdr ! 0) (hdr ! 1))) r1 = (Inr p, r')"
    using assms by (auto simp: readFrame_def Let_def split: prod.splits sum.splits if_splits)
  let ?n = "unat (get_u16 (hdr ! 0) (hdr ! 1))"
  have "?n \<le> length (content r1)"
    using f ReadFull_short[of r1 ?n] by (cases "?n \<le> length (content r1)") auto
  then obtain r2 where "ReadFull ?n r1 = (Inr (take ?n (content r1)), r2)" by (rule ReadFull_ok)
  with f \<open>?n \<le> length (content r1)\<close> have "length p = ?n" by auto
  moreover have "?n < 2 ^ 16" using unsigned_less[of "get_u16 (hdr ! 0) (hdr ! 1)"] by simp
  ultimately show ?thesis by (simp add: maxUDPFramePayload_def)
qed

section \<open>The interface of a frame format\<close>

text \<open>
  What a relay over a byte stream needs: encoding a valid message and decoding a reader that
  starts with it gives the message back and leaves the rest, however the stream was cut into
  chunks.
\<close>

locale frame_codec =
  fixes enc :: "'m \<Rightarrow> bytes"
    and dec :: "reader \<Rightarrow> (io_err + 'm) \<times> reader"
    and valid :: "'m \<Rightarrow> bool"
  assumes dec_enc: "valid m \<Longrightarrow> content r = enc m @ rest \<Longrightarrow>
      \<exists>r'. dec r = (Inr m, r') \<and> content r' = rest \<and> snd r' = snd r"
    and dec_empty: "content r = [] \<Longrightarrow> dec r = (Inl (snd r), ([], snd r))"
begin

primrec dec_n :: "nat \<Rightarrow> reader \<Rightarrow> 'm list \<times> (io_err option \<times> reader)" where
  "dec_n 0 r = ([], None, r)"
| "dec_n (Suc k) r =
     (case dec r of
        (Inl e, r') \<Rightarrow> ([], Some e, r')
      | (Inr m, r') \<Rightarrow> (let (ms, x) = dec_n k r' in (m # ms, x)))"

lemma dec_n_all:
  "\<forall>m \<in> set ms. valid m \<Longrightarrow> content r = concat (map enc ms) @ rest \<Longrightarrow>
   \<exists>r'. dec_n (length ms) r = (ms, None, r') \<and> content r' = rest \<and> snd r' = snd r"
proof (induction ms arbitrary: r)
  case (Cons m ms)
  then have "content r = enc m @ concat (map enc ms) @ rest" "valid m" by simp_all
  then obtain r1 where r1: "dec r = (Inr m, r1)" "content r1 = concat (map enc ms) @ rest" "snd r1 = snd r"
    using dec_enc by blast
  from Cons.IH[OF _ r1(2)] Cons.prems r1 show ?case by auto
qed simp

lemma dec_n_end:
  assumes "\<forall>m \<in> set ms. valid m" "content r = concat (map enc ms)"
  shows "fst (dec_n (Suc (length ms)) r) = ms \<and> fst (snd (dec_n (Suc (length ms)) r)) = Some (snd r)"
  using assms
proof (induction ms arbitrary: r)
  case Nil
  then show ?case using dec_empty[of r] by simp
next
  case (Cons m ms)
  then have "content r = enc m @ concat (map enc ms)" "valid m" by simp_all
  then obtain r1 where r1: "dec r = (Inr m, r1)" "content r1 = concat (map enc ms)" "snd r1 = snd r"
    using dec_enc by blast
  from Cons.IH[OF _ r1(2)] Cons.prems(1) r1 show ?case by (simp add: case_prod_unfold)
qed

end

definition frame_valid :: "bytes \<Rightarrow> bool" where
  "frame_valid p \<longleftrightarrow> length p \<le> maxUDPFramePayload"

interpretation udp_frame: frame_codec frame_bytes "readFrame copyBufSize" frame_valid
proof unfold_locales
  fix m r rest
  assume "frame_valid m" "content r = frame_bytes m @ rest"
  then show "\<exists>r'. readFrame copyBufSize r = (Inr m, r') \<and> content r' = rest \<and> snd r' = snd r"
    by (elim readFrame_frame[of r m rest copyBufSize])
       (auto simp: frame_valid_def maxUDPFramePayload_def copyBufSize_def)
next
  fix r :: reader
  assume "content r = []"
  then show "readFrame copyBufSize r = (Inl (snd r), ([], snd r))"
    using ReadFull_short[of r 2] by (simp add: readFrame_def)
qed

section \<open>Copy loops\<close>

definition reader_size :: "reader \<Rightarrow> nat" where
  "reader_size r = length (fst r) + length (content r)"

lemma read_some_decreases:
  "read_some n r = ((c, None), r') \<Longrightarrow> 0 < n \<Longrightarrow> reader_size r' < reader_size r"
  by (auto simp: read_some_def reader_size_def content_def split: prod.splits list.splits if_splits)

lemma read_some_content:
  "read_some n r = ((c, err), r') \<Longrightarrow> content r = c @ content r' \<and> snd r' = snd r \<and> length c \<le> n
     \<and> (err \<noteq> None \<longrightarrow> content r = [])"
  by (auto simp: read_some_def content_def split: prod.splits list.splits if_splits)

text \<open>\<open>copyBuf\<close>: what is read is written before the error that came with it is looked at.\<close>

function copyBuf :: "'w writer \<Rightarrow> 'w \<Rightarrow> reader \<Rightarrow> 'w" where
  "copyBuf write w r =
     (case read_some copyBufSize r of
        ((c, err), r') \<Rightarrow>
          (case (if c \<noteq> [] then write w c else (None, w)) of
             (Some _, w') \<Rightarrow> w'
           | (None, w') \<Rightarrow> if err \<noteq> None then w' else copyBuf write w' r'))"
  by pat_completeness auto
termination
  by (relation "measure (\<lambda>(write, w, r). reader_size r)")
     (auto dest!: read_some_decreases[OF sym] simp: copyBufSize_def)

declare copyBuf.simps [simp del]

text \<open>Tunnel to UDP: every non-empty frame is one datagram.\<close>

function tunnel_to_udp :: "'w writer \<Rightarrow> 'w \<Rightarrow> reader \<Rightarrow> 'w" where
  "tunnel_to_udp write w r =
     (case readFrame copyBufSize r of
        (Inl e, r') \<Rightarrow> w
      | (Inr p, r') \<Rightarrow>
          (case (if p \<noteq> [] then write w p else (None, w)) of
             (Some _, w') \<Rightarrow> w'
           | (None, w') \<Rightarrow> tunnel_to_udp write w' r'))"
  by pat_completeness auto
termination
  by (relation "measure (\<lambda>(write, w, r). length (content r))")
     (auto dest!: readFrame_consumes[OF sym] simp: frame_bytes_def)

declare tunnel_to_udp.simps [simp del]

text \<open>UDP to tunnel: the datagrams successive reads deliver, each cut to the buffer, until the socket
  fails.\<close>

fun udp_to_tunnel :: "'w writer \<Rightarrow> 'w \<Rightarrow> bytes list \<Rightarrow> 'w" where
  "udp_to_tunnel write w [] = w"
| "udp_to_tunnel write w (d # ds) =
     (let c = take copyBufSize d in
      case (if c \<noteq> [] then writeFrame write w c else (None, w)) of
        (Some _, w') \<Rightarrow> w'
      | (None, w') \<Rightarrow> udp_to_tunnel write w' ds)"

text \<open>A writer that records what it accepts, up to a number of writes.\<close>

definition log_writer :: "nat \<Rightarrow> bytes list writer" where
  "log_writer k w b = (if length w < k then (None, w @ [b]) else (Some IOErr, w))"

lemma copyBuf_log:
  assumes "length w + reader_size r \<le> k"
  shows "\<exists>cs. copyBuf (log_writer k) w r = w @ cs \<and> concat cs = content r
    \<and> (\<forall>c \<in> set cs. c \<noteq> [] \<and> length c \<le> copyBufSize)"
  using assms
proof (induction "reader_size r" arbitrary: w r rule: less_induct)
  case less
  obtain c err r' where rs: "read_some copyBufSize r = ((c, err), r')" by (metis surj_pair)
  note rc = read_some_content[OF rs]
  show ?case
  proof (cases err)
    case (Some e)
    then have "c = []" "content r = []" using rc by auto
    then show ?thesis by (intro exI[of _ "[]"]) (simp add: copyBuf.simps[of _ w r] rs Some)
  next
    case None
    with rs have dec: "reader_size r' < reader_size r"
      by (intro read_some_decreases) (auto simp: copyBufSize_def)
    let ?w = "if c \<noteq> [] then w @ [c] else w"
    have eq: "copyBuf (log_writer k) w r = copyBuf (log_writer k) ?w r'"
      using less.prems dec by (simp add: copyBuf.simps[of _ w r] rs None log_writer_def)
    have "length ?w + reader_size r' \<le> k" using less.prems dec by simp
    from less.hyps[OF dec this] obtain cs where cs: "copyBuf (log_writer k) ?w r' = ?w @ cs"
      "concat cs = content r'" "\<forall>c \<in> set cs. c \<noteq> [] \<and> length c \<le> copyBufSize" by blast
    show ?thesis
      by (rule exI[of _ "(if c \<noteq> [] then [c] else []) @ cs"]) (use eq cs rc in auto)
  qed
qed

lemma udp_to_tunnel_log:
  "\<forall>d \<in> set ds. length d \<le> maxUDPFramePayload \<Longrightarrow> length w + length ds \<le> k \<Longrightarrow>
   udp_to_tunnel (log_writer k) w ds = w @ map frame_bytes (filter (\<lambda>d. d \<noteq> []) ds)"
proof (induction ds arbitrary: w)
  case (Cons d ds)
  then have "take copyBufSize d = d" by (simp add: copyBufSize_def maxUDPFramePayload_def)
  then show ?case using Cons by (auto simp: writeFrame_def log_writer_def)
qed simp

lemma tunnel_to_udp_log:
  "\<forall>m \<in> set ms. m \<noteq> [] \<and> frame_valid m \<Longrightarrow> length w + length ms \<le> k \<Longrightarrow>
   content r = concat (map frame_bytes ms) \<Longrightarrow> tunnel_to_udp (log_writer k) w r = w @ ms"
proof (induction ms arbitrary: w r)
  case Nil
  then show ?case using udp_frame.dec_empty[of r] by (simp add: tunnel_to_udp.simps[of _ w r])
next
  case (Cons m ms)
  then have "content r = frame_bytes m @ concat (map frame_bytes ms)" "frame_valid m" by simp_all
  then obtain r1 where r1: "readFrame copyBufSize r = (Inr m, r1)"
    "content r1 = concat (map frame_bytes ms)"
    using udp_frame.dec_enc by blast
  then show ?case
    using Cons.IH[of "w @ [m]" r1] Cons.prems
    by (simp add: tunnel_to_udp.simps[of _ w r] log_writer_def)
qed

section \<open>Shutting a relay down\<close>

datatype side = ConnSide | StreamSide

datatype relay_op = HalfClose side | FullClose side | CancelRead | StopTimer

definition closeWrite :: "bool \<Rightarrow> side \<Rightarrow> relay_op" where
  "closeWrite hasCloseWrite s = (if hasCloseWrite then HalfClose s else FullClose s)"

text \<open>
  \<open>relay\<close> joins two copies that share nothing but the timer; \<open>connFirst\<close> says which of them ended
  first, the flags which side offers \<open>CloseWrite\<close>.
\<close>

definition relay ::
  "'s writer \<Rightarrow> 's \<Rightarrow> 'c writer \<Rightarrow> 'c \<Rightarrow> reader \<Rightarrow> reader \<Rightarrow> bool \<Rightarrow> bool \<Rightarrow> bool
     \<Rightarrow> 's \<times> 'c \<times> relay_op list" where
  "relay wstream s wconn c fromConn fromStream streamCW connCW connFirst =
     (copyBuf wstream s fromConn, copyBuf wconn c fromStream,
      (if connFirst then [closeWrite streamCW StreamSide, closeWrite connCW ConnSide]
       else [closeWrite connCW ConnSide, closeWrite streamCW StreamSide])
      @ [StopTimer, CancelRead, FullClose StreamSide, FullClose ConnSide])"

definition RelayUDPIdle ::
  "'s writer \<Rightarrow> 's \<Rightarrow> 'c writer \<Rightarrow> 'c \<Rightarrow> bytes list \<Rightarrow> reader \<Rightarrow> 's \<times> 'c \<times> relay_op list" where
  "RelayUDPIdle wstream s wconn c fromConn fromStream =
     (udp_to_tunnel wstream s fromConn, tunnel_to_udp wconn c fromStream,
      [CancelRead, FullClose StreamSide, FullClose ConnSide, StopTimer])"

section \<open>Properties\<close>

text \<open>C2 Datagram boundaries survive the byte stream: what one end frames from its UDP socket, the other
  end writes to its own as exactly the same non-empty datagrams in the same order, however the
  transport cut the stream into reads.\<close>

theorem datagram_relay_roundtrip:
  assumes "\<forall>d \<in> set ds. length d \<le> maxUDPFramePayload" "length ds \<le> k"
    and "content r = concat (udp_to_tunnel (log_writer k) [] ds)"
  shows "tunnel_to_udp (log_writer k) [] r = filter (\<lambda>d. d \<noteq> []) ds"
proof -
  have "content r = concat (map frame_bytes (filter (\<lambda>d. d \<noteq> []) ds))"
    using assms udp_to_tunnel_log[of ds "[]" k] by simp
  moreover have "length (filter (\<lambda>d. d \<noteq> []) ds) \<le> k"
    using assms(2) length_filter_le[of _ ds] le_trans by blast
  ultimately show ?thesis
    using tunnel_to_udp_log[of "filter (\<lambda>d. d \<noteq> []) ds" "[]" k r] assms(1)
    by (simp add: frame_valid_def)
qed

theorem datagram_relay_roundtrip_witness:
  "tunnel_to_udp (log_writer 9) []
     ([[0], [2, 7, 7, 0], [], [1, 8]], EOF) = [[7, 7], [8]]"
proof -
  have "udp_to_tunnel (log_writer 9) [] [[7, 7], [], [8]] = [[0, 2, 7, 7], [0, 1, 8]]"
    by (simp add: copyBufSize_def writeFrame_def maxUDPFramePayload_def log_writer_def
        frame_bytes_def put_u16_def)
  then show ?thesis
    using datagram_relay_roundtrip[of "[[7, 7], [], [8]]" 9 "([[0], [2, 7, 7, 0], [], [1, 8]], EOF)"]
    by (simp add: maxUDPFramePayload_def content_def)
qed

text \<open>A frame is accepted exactly when it is all there: \<open>readFrame\<close> returns a payload if and only if
  the stream starts with that payload's complete frame and it fits the buffer; a truncated or
  oversized frame is an error, never a wrong datagram.\<close>

theorem readFrame_exact:
  "(\<exists>r'. readFrame bufLen r = (Inr p, r')) \<longleftrightarrow>
   (length p \<le> bufLen \<and> length p \<le> maxUDPFramePayload \<and> (\<exists>rest. content r = frame_bytes p @ rest))"
  (is "?L \<longleftrightarrow> ?R")
proof
  assume ?L
  then obtain r' where e: "readFrame bufLen r = (Inr p, r')" by blast
  note c = readFrame_consumes[OF e]
  have "length p \<le> maxUDPFramePayload" using e by (rule readFrame_bound)
  with c show ?R by blast
next
  assume ?R
  then show ?L using readFrame_frame[of r p _ bufLen] by blast
qed

text \<open>A TCP relay is transparent and always cleans up: with writers that accept everything, each
  side receives exactly the bytes the other sent, in pieces of at most 64 KiB, whichever direction
  ends first; and the stream's reading half, the stream and the connection are closed at the end.\<close>

theorem relay_transparent:
  assumes "reader_size fromConn \<le> k" "reader_size fromStream \<le> k"
  shows "\<exists>cs ss ops. relay (log_writer k) [] (log_writer k) [] fromConn fromStream cw1 cw2 first =
           (cs, ss, ops @ [StopTimer, CancelRead, FullClose StreamSide, FullClose ConnSide])
     \<and> concat cs = content fromConn \<and> concat ss = content fromStream
     \<and> (\<forall>c \<in> set (cs @ ss). c \<noteq> [] \<and> length c \<le> copyBufSize)
     \<and> set ops = {closeWrite cw1 StreamSide, closeWrite cw2 ConnSide}"
proof -
  obtain cs where cs: "copyBuf (log_writer k) [] fromConn = cs" "concat cs = content fromConn"
    "\<forall>c \<in> set cs. c \<noteq> [] \<and> length c \<le> copyBufSize"
    using copyBuf_log[of "[]" fromConn k] assms by auto
  obtain ss where ss: "copyBuf (log_writer k) [] fromStream = ss" "concat ss = content fromStream"
    "\<forall>c \<in> set ss. c \<noteq> [] \<and> length c \<le> copyBufSize"
    using copyBuf_log[of "[]" fromStream k] assms by auto
  define ops where "ops = (if first then [closeWrite cw1 StreamSide, closeWrite cw2 ConnSide]
                  else [closeWrite cw2 ConnSide, closeWrite cw1 StreamSide])"
  have "relay (log_writer k) [] (log_writer k) [] fromConn fromStream cw1 cw2 first =
      (cs, ss, ops @ [StopTimer, CancelRead, FullClose StreamSide, FullClose ConnSide])"
    unfolding relay_def ops_def cs(1) ss(1) ..
  moreover have "set ops = {closeWrite cw1 StreamSide, closeWrite cw2 ConnSide}"
    by (auto simp: ops_def)
  moreover have "\<forall>c \<in> set (cs @ ss). c \<noteq> [] \<and> length c \<le> copyBufSize"
    using cs(3) ss(3) by auto
  ultimately show ?thesis using cs(2) ss(2) by blast
qed

theorem relay_transparent_witness:
  "\<exists>cs ss ops. relay (log_writer 9) [] (log_writer 9) [] ([[1, 2], [3]], EOF) ([[4]], Timeout) False True True
      = (cs, ss, ops @ [StopTimer, CancelRead, FullClose StreamSide, FullClose ConnSide])
     \<and> concat cs = [1, 2, 3] \<and> concat ss = [4]"
  using relay_transparent[of "([[1, 2], [3]], EOF)" 9 "([[4]], Timeout)" False True True]
  by (auto simp: reader_size_def content_def)

end
