(* ===== verification/Tunnel_Remote.thy ===== *)
theory Tunnel_Remote
  imports Tunnel_Frame Go_Net
begin

text \<open>
  The Remote side of a tunnel stream, \<open>proxy/proxy_r.go\<close>: the seven-byte head (protocol, IPv4
  address, port), where \<open>process_stream\<close> routes the stream, and the trace of what it does to the
  stream on every branch. Dialling, the built-in proxy and the relays are calls whose outcome is a
  parameter.
\<close>

section \<open>The head\<close>

definition HEAD_LEN :: nat where "HEAD_LEN = 7"
definition PROXY_PORT :: u16 where "PROXY_PORT = 1080"

definition head_bytes :: "u8 \<Rightarrow> bytes \<Rightarrow> u16 \<Rightarrow> bytes" where
  "head_bytes proto ip4 port = proto # ip4 @ put_u16 port"

datatype route =
    BuiltinProxy
  | RouteTCP ip u16
  | RouteUDP ip u16
  | UnknownProtocol u8

text \<open>The head as the code reads it: bytes 0, 1 to 4, and 5 and 6.\<close>

definition route_head :: "bytes \<Rightarrow> bool \<Rightarrow> route" where
  "route_head headerBuf allowProxy =
     (let protocolType = headerBuf ! 0;
          remotePort = get_u16 (headerBuf ! 5) (headerBuf ! 6);
          a = take 4 (drop 1 headerBuf)
      in if protocolType = 0x00 then
           (if remotePort = PROXY_PORT \<and> allowProxy then BuiltinProxy
            else RouteTCP a (if remotePort = 13389 then 3389 else remotePort))
         else if protocolType = 0x01 then RouteUDP a remotePort
         else UnknownProtocol protocolType)"

lemma head_bytes_fields:
  assumes "length ip4 = 4"
  shows "length (head_bytes proto ip4 port) = HEAD_LEN" "head_bytes proto ip4 port ! 0 = proto"
    "take 4 (drop 1 (head_bytes proto ip4 port)) = ip4"
    "get_u16 (head_bytes proto ip4 port ! 5) (head_bytes proto ip4 port ! 6) = port"
proof -
  obtain a b c d where "ip4 = [a, b, c, d]"
    using assms by (auto simp: numeral_eq_Suc length_Suc_conv)
  then show "length (head_bytes proto ip4 port) = HEAD_LEN" "head_bytes proto ip4 port ! 0 = proto"
    "take 4 (drop 1 (head_bytes proto ip4 port)) = ip4"
    "get_u16 (head_bytes proto ip4 port ! 5) (head_bytes proto ip4 port ! 6) = port"
    by (simp_all add: head_bytes_def HEAD_LEN_def put_u16_def)
qed

lemma route_head_bytes:
  "length ip4 = 4 \<Longrightarrow> route_head (head_bytes proto ip4 port) allowProxy =
     (if proto = 0 then
        (if port = PROXY_PORT \<and> allowProxy then BuiltinProxy
         else RouteTCP ip4 (if port = 13389 then 3389 else port))
      else if proto = 1 then RouteUDP ip4 port else UnknownProtocol proto)"
  by (simp only: route_head_def head_bytes_fields Let_def)

section \<open>One stream\<close>

datatype stream_ev =
    HeadDeadline
  | ClearDeadline
  | ServeProxy string
  | DialTCP string
  | DialUDP ip int
  | RelayTCP
  | RelayUDP
  | StreamCancelRead
  | StreamClose

definition close_stream :: "stream_ev list" where
  "close_stream = [StreamCancelRead, StreamClose]"

text \<open>What the outside does: whether the dials succeed.\<close>

record remote_env =
  re_dialTCP :: "string \<Rightarrow> bool"
  re_dialUDP :: "ip \<Rightarrow> int \<Rightarrow> bool"

text \<open>
  \<open>Relay\<close> and \<open>RelayUDPIdle\<close> end by cancelling and closing the stream themselves (\<open>relay\<close>); if the
  built-in proxy panics the deferred handler does the same. The reader left for the relay is returned.
\<close>

definition process_stream ::
  "remote_env \<Rightarrow> reader \<Rightarrow> string \<Rightarrow> bool \<Rightarrow> stream_ev list \<times> reader" where
  "process_stream en r remoteAddr allowProxy =
     (case ReadFull HEAD_LEN r of
        (Inl e, r') \<Rightarrow> (HeadDeadline # close_stream, r')
      | (Inr headerBuf, r') \<Rightarrow>
          ([HeadDeadline, ClearDeadline] @
           (case route_head headerBuf allowProxy of
              BuiltinProxy \<Rightarrow> ServeProxy remoteAddr # close_stream
            | RouteTCP a p \<Rightarrow>
                (let dst = join_host_port (ip_string a) (go_itoa (int (unat p)))
                 in DialTCP dst # (if re_dialTCP en dst then [RelayTCP] @ close_stream else close_stream))
            | RouteUDP a p \<Rightarrow>
                DialUDP a (int (unat p)) #
                  (if re_dialUDP en a (int (unat p)) then [RelayUDP] @ close_stream else close_stream)
            | UnknownProtocol t \<Rightarrow> close_stream), r'))"

text \<open>
  The accept loop: what each stream goes through, for the streams accepted before the first error (\<open>None\<close>); each runs in
  a goroutine of its own.
\<close>

fun ProcessProxyServer :: "(remote_env \<times> reader) option list \<Rightarrow> string \<Rightarrow> bool \<Rightarrow> stream_ev list list" where
  "ProcessProxyServer [] remoteAddr allowProxy = []"
| "ProcessProxyServer (None # accepts) remoteAddr allowProxy = []"
| "ProcessProxyServer (Some (en, r) # accepts) remoteAddr allowProxy =
     fst (process_stream en r remoteAddr allowProxy) # ProcessProxyServer accepts remoteAddr allowProxy"

section \<open>Properties\<close>

text \<open>No stream is left hanging: on every branch, a head that never comes, an unknown protocol, a
  failed dial, the built-in proxy or a relay, the stream is cancelled and closed exactly once, as the
  last thing that happens to it.\<close>

theorem process_stream_closes:
  "\<exists>pre. fst (process_stream en r remoteAddr allowProxy) = pre @ [StreamCancelRead, StreamClose]
     \<and> StreamClose \<notin> set pre \<and> StreamCancelRead \<notin> set pre \<and> HeadDeadline \<in> set pre"
  by (rule exI[of _ "butlast (butlast (fst (process_stream en r remoteAddr allowProxy)))"])
     (auto simp: process_stream_def close_stream_def Let_def split: prod.split sum.split route.split)

text \<open>The head the Local writes is the one the Remote reads: a stream that starts with the head for a
  protocol, an IPv4 target and a port is dialled to that target (13389 being rewritten to 3389), and
  the bytes behind the head are left for the relay; only a TCP stream to port 1080 of a Remote that
  allows it reaches the built-in proxy.\<close>

theorem head_routes_stream:
  assumes "length a = 4" "content r = head_bytes proto a port @ rest"
    and "process_stream en r remoteAddr allowProxy = (evs, r')"
  shows "content r' = rest \<and>
    (ServeProxy remoteAddr \<in> set evs \<longleftrightarrow> proto = 0 \<and> port = PROXY_PORT \<and> allowProxy) \<and>
    (proto = 0 \<and> \<not> (port = PROXY_PORT \<and> allowProxy) \<longrightarrow>
       DialTCP (join_host_port (ip_string a) (go_itoa (int (unat (if port = 13389 then 3389 else port)))))
         \<in> set evs) \<and>
    (proto = 1 \<longrightarrow> DialUDP a (int (unat port)) \<in> set evs) \<and>
    (proto \<notin> {0, 1} \<longrightarrow> evs = [HeadDeadline, ClearDeadline, StreamCancelRead, StreamClose])"
proof -
  have l: "length (head_bytes proto a port) = HEAD_LEN" using head_bytes_fields[OF assms(1)] by blast
  then have "HEAD_LEN \<le> length (content r)" by (simp add: assms(2))
  then obtain r1 where r1: "ReadFull HEAD_LEN r = (Inr (take HEAD_LEN (content r)), r1)"
    "content r1 = drop HEAD_LEN (content r)" by (rule ReadFull_ok)
  have h: "ReadFull HEAD_LEN r = (Inr (head_bytes proto a port), r1)" "content r1 = rest"
    using r1 l by (simp_all add: assms(2))
  have e: "r' = r1"
    "evs = [HeadDeadline, ClearDeadline] @
       (case route_head (head_bytes proto a port) allowProxy of
          BuiltinProxy \<Rightarrow> ServeProxy remoteAddr # close_stream
        | RouteTCP a p \<Rightarrow>
            (let dst = join_host_port (ip_string a) (go_itoa (int (unat p)))
             in DialTCP dst # (if re_dialTCP en dst then [RelayTCP] @ close_stream else close_stream))
        | RouteUDP a p \<Rightarrow>
            DialUDP a (int (unat p)) #
              (if re_dialUDP en a (int (unat p)) then [RelayUDP] @ close_stream else close_stream)
        | UnknownProtocol t \<Rightarrow> close_stream)"
    using assms(3) unfolding process_stream_def h(1) prod.case sum.case by simp_all
  consider (builtin) "proto = 0" "port = PROXY_PORT" "allowProxy"
    | (tcp) "proto = 0" "\<not> (port = PROXY_PORT \<and> allowProxy)"
    | (udp) "proto = 1" | (unknown) "proto \<noteq> 0" "proto \<noteq> 1" by auto
  then show ?thesis
    by cases (auto simp: e h(2) route_head_bytes[OF assms(1)] close_stream_def Let_def)
qed

theorem head_routes_stream_witness:
  "DialTCP (join_host_port (ip_string [10, 0, 0, 5]) (go_itoa 3389)) \<in> set (fst (process_stream
     \<lparr> re_dialTCP = (\<lambda>_. True), re_dialUDP = (\<lambda>_ _. True) \<rparr>
     ([[0, 10, 0], [0, 5, 0x34, 0x4D, 99]], EOF) ''peer'' False))"
proof -
  let ?en = "\<lparr> re_dialTCP = (\<lambda>_. True), re_dialUDP = (\<lambda>_ _. True) \<rparr> :: remote_env"
  let ?r = "([[0, 10, 0], [0, 5, 0x34, 0x4D, 99]], EOF) :: reader"
  have c: "content ?r = head_bytes 0 [10, 0, 0, 5] 13389 @ [99]"
    by (simp add: content_def head_bytes_def put_u16_def)
  obtain evs r' where e: "process_stream ?en ?r ''peer'' False = (evs, r')" by (metis surj_pair)
  show ?thesis using head_routes_stream[OF _ c e] unfolding e by simp
qed

text \<open>A tunnel that may not use the proxy never reaches it, on any of its streams.\<close>

lemma denied_proxy_unreachable:
  "evs \<in> set (ProcessProxyServer accepts remoteAddr False) \<Longrightarrow> ServeProxy addr \<notin> set evs"
proof (induction accepts)
  case (Cons a accepts)
  have "ServeProxy addr \<notin> set (fst (process_stream en r remoteAddr False))" for en r
    by (auto simp: process_stream_def close_stream_def route_head_def Let_def split: prod.split sum.split route.split if_splits)
  then show ?case using Cons by (cases a) auto
qed simp

end
