(* ===== verification/Forward_Base.thy ===== *)
theory Forward_Base
  imports Tunnel_Remote
begin

text \<open>
  What the two local listeners of \<open>proxy/proxy_l.go\<close> share: the forwarding rule, the retry and
  back-off policy of a failing listener, and the interface \<open>ForwardRunner\<close> as the locale \<open>runner\<close>,
  whose laws every implementation has to satisfy and on which \<open>ForwardManager\<close> relies.
\<close>

section \<open>Rules\<close>

record forward_rule =
  fr_listenAddr :: string
  fr_remoteIP :: ip
  fr_remotePort :: u16
  fr_proto :: u8

text \<open>A tunnel connection is only ever compared with \<open>nil\<close>; it is named by a number.\<close>

type_synonym conn = nat

section \<open>Retrying a failing listener\<close>

text \<open>An error that implements \<open>net.Error\<close>, with its two answers, or any other one.\<close>

datatype listen_err = NetError bool bool | OtherError

definition retryServeError :: "listen_err \<Rightarrow> bool" where
  "retryServeError err =
     (case err of NetError temporary timeout \<Rightarrow> temporary \<or> timeout | OtherError \<Rightarrow> False)"

definition millisecond :: int where "millisecond = 1000000"

definition serveRetryBase :: int where "serveRetryBase = 50 * millisecond"
definition serveRetryMax :: int where "serveRetryMax = 1000 * millisecond"
definition maxServeFailures :: nat where "maxServeFailures = 10"

text \<open>\<open>time.Duration\<close> is a 64-bit integer: the product wraps, which the second guard catches.\<close>

definition serveBackoff :: "int \<Rightarrow> int" where
  "serveBackoff failures =
     (let d = sint (word_of_int serveRetryBase * word_of_int failures :: 64 word)
      in if d > serveRetryMax \<or> d \<le> 0 then serveRetryMax else d)"

lemma serveBackoff_bounds: "0 < serveBackoff n \<and> serveBackoff n \<le> serveRetryMax"
  by (auto simp: serveBackoff_def Let_def serveRetryMax_def millisecond_def)

lemma serveBackoff_small:
  assumes "1 \<le> n" "n \<le> 20"
  shows "serveBackoff n = serveRetryBase * n"
proof -
  have w: "word_of_int serveRetryBase * word_of_int n = (word_of_int (serveRetryBase * n) :: 64 word)"
    by simp
  have "sint (word_of_int (serveRetryBase * n) :: 64 word) = serveRetryBase * n"
    using assms unfolding serveRetryBase_def millisecond_def signed_of_int
    by (subst signed_take_bit_int_eq_self) auto
  then show ?thesis using assms unfolding serveBackoff_def w Let_def
    by (auto simp: serveRetryMax_def serveRetryBase_def millisecond_def)
qed

text \<open>
  The failure counter of \<open>Serve\<close>: \<open>None\<close> when it gives up, otherwise the new count and how long it
  sleeps.
\<close>

definition on_listen_error :: "nat \<Rightarrow> listen_err \<Rightarrow> (nat \<times> int) option" where
  "on_listen_error failures err =
     (if \<not> retryServeError err then None
      else if Suc failures > maxServeFailures then None
      else Some (Suc failures, serveBackoff (int (Suc failures))))"

lemma on_listen_error_Some:
  "on_listen_error n err = Some (m, d) \<Longrightarrow>
     m = Suc n \<and> m \<le> maxServeFailures \<and> d = serveRetryBase * int m"
  using serveBackoff_small[of "int (Suc n)"]
  by (auto simp: on_listen_error_def maxServeFailures_def split: if_splits)

text \<open>
  The listen loop reduced to its policy: \<open>None\<close> in the list is an \<open>Accept\<close> or \<open>ReadFrom\<close> that
  succeeded; the result is the failure count, \<open>None\<close> once the loop has returned.
\<close>

fun serve_policy :: "nat \<Rightarrow> listen_err option list \<Rightarrow> nat option" where
  "serve_policy n [] = Some n"
| "serve_policy n (None # es) = serve_policy 0 es"
| "serve_policy n (Some e # es) =
     (case on_listen_error n e of None \<Rightarrow> None | Some (m, d) \<Rightarrow> serve_policy m es)"

lemma serve_policy_append:
  "serve_policy n (xs @ ys) = (case serve_policy n xs of None \<Rightarrow> None | Some m \<Rightarrow> serve_policy m ys)"
  by (induction n xs rule: serve_policy.induct) (auto split: option.split)

text \<open>Errors in a row: counted from the start after \<open>n\<close> earlier ones, and anywhere.\<close>

definition burst_free :: "nat \<Rightarrow> listen_err option list \<Rightarrow> bool" where
  "burst_free n es \<longleftrightarrow>
     (\<forall>seg. prefix seg es \<and> None \<notin> set seg \<longrightarrow> n + length seg \<le> maxServeFailures)"

definition no_burst :: "listen_err option list \<Rightarrow> bool" where
  "no_burst es \<longleftrightarrow> (\<forall>seg. sublist seg es \<and> None \<notin> set seg \<longrightarrow> length seg \<le> maxServeFailures)"

lemma burst_free_le: "burst_free n es \<Longrightarrow> n \<le> maxServeFailures"
  unfolding burst_free_def by (erule allE[of _ "[]"]) simp

lemma burst_free_Nil [simp]: "burst_free n [] \<longleftrightarrow> n \<le> maxServeFailures"
  by (simp add: burst_free_def)

lemma burst_free_None [simp]: "burst_free n (None # es) \<longleftrightarrow> n \<le> maxServeFailures"
  using burst_free_le by (auto simp: burst_free_def prefix_Cons)

lemma burst_free_Some [simp]: "burst_free n (Some e # es) \<longleftrightarrow> burst_free (Suc n) es"
proof
  assume l: "burst_free n (Some e # es)"
  show "burst_free (Suc n) es"
    unfolding burst_free_def
  proof (intro allI impI)
    fix seg assume "prefix seg es \<and> None \<notin> set seg"
    with l show "Suc n + length seg \<le> maxServeFailures"
      unfolding burst_free_def by (auto dest!: spec[of _ "Some e # seg"])
  qed
next
  assume r: "burst_free (Suc n) es"
  with burst_free_le[OF r] show "burst_free n (Some e # es)"
    unfolding burst_free_def by (auto simp: prefix_Cons)
qed

lemma no_burst_Nil [simp]: "no_burst []"
  by (simp add: no_burst_def)

lemma no_burst_free: "no_burst es \<Longrightarrow> burst_free 0 es"
  by (auto simp: no_burst_def burst_free_def)

lemma no_burst_Cons: "no_burst (x # es) \<longleftrightarrow> burst_free 0 (x # es) \<and> no_burst es"
  by (auto simp: no_burst_def burst_free_def sublist_Cons_right)

lemma burst_free_mono: "burst_free n es \<Longrightarrow> m \<le> n \<Longrightarrow> burst_free m es"
  unfolding burst_free_def by (meson add_le_mono1 le_trans)

lemma serve_policy_iff:
  "n \<le> maxServeFailures \<Longrightarrow>
   serve_policy n es \<noteq> None \<longleftrightarrow>
     (\<forall>e. Some e \<in> set es \<longrightarrow> retryServeError e) \<and> burst_free n es \<and> no_burst es"
proof (induction n es rule: serve_policy.induct)
  case (2 n es)
  then show ?case using no_burst_free[of es] by (simp add: no_burst_Cons) blast
next
  case (3 n e es)
  show ?case
  proof (cases "retryServeError e \<and> Suc n \<le> maxServeFailures")
    case True
    then have m: "on_listen_error n e = Some (Suc n, serveBackoff (int (Suc n)))"
      by (simp add: on_listen_error_def)
    have "burst_free (Suc n) es \<Longrightarrow> burst_free (Suc 0) es" by (erule burst_free_mono) simp
    then show ?thesis using 3(1)[OF m refl] True by (simp add: m no_burst_Cons) blast
  next
    case False
    then have "on_listen_error n e = None" by (auto simp: on_listen_error_def)
    then show ?thesis using False burst_free_le[of "Suc n" es] by auto
  qed
qed simp

text \<open>When a listener gives up: after any history of accepts and errors the loop is still serving if
  and only if every error was temporary or a timeout and no run of consecutive errors was longer
  than ten; one success forgives the errors before it.\<close>

theorem serve_gives_up_iff:
  "serve_policy 0 es = None \<longleftrightarrow>
     (\<exists>e. Some e \<in> set es \<and> \<not> retryServeError e) \<or>
     (\<exists>seg. sublist seg es \<and> None \<notin> set seg \<and> length seg > maxServeFailures)"
proof -
  have "serve_policy 0 es = None \<longleftrightarrow>
      \<not> ((\<forall>e. Some e \<in> set es \<longrightarrow> retryServeError e) \<and> no_burst es)"
    using serve_policy_iff[of 0 es, OF le0] no_burst_free[of es] by blast
  then show ?thesis
    by (simp only: no_burst_def de_Morgan_conj not_all not_imp not_le conj_assoc)
qed

section \<open>The runner interface\<close>

text \<open>
  \<open>ForwardRunner\<close>: the calls \<open>ForwardManager\<close> makes, and what it counts on. \<open>alive\<close> is the
  well-formedness an implementation keeps.
\<close>

locale runner =
  fixes set_quic :: "conn \<Rightarrow> 'r \<Rightarrow> 'r"
    and clear_quic :: "'r \<Rightarrow> 'r"
    and set_target :: "ip \<Rightarrow> u16 \<Rightarrow> 'r \<Rightarrow> 'r"
    and close_runner :: "'r \<Rightarrow> 'r"
    and quic :: "'r \<Rightarrow> conn option"
    and target :: "'r \<Rightarrow> ip \<times> u16"
    and failed :: "'r \<Rightarrow> bool"
    and addr :: "'r \<Rightarrow> string"
    and wf :: "'r \<Rightarrow> bool"
  assumes quic_set [simp]: "quic (set_quic c r) = Some c"
    and quic_clear [simp]: "quic (clear_quic r) = None"
    and quic_target [simp]: "quic (set_target a p r) = quic r"
    and target_set [simp]: "target (set_target a p r) = (a, p)"
    and target_quic [simp]: "target (set_quic c r) = target r" "target (clear_quic r) = target r"
      "target (close_runner r) = target r"
    and failed_close [simp]: "failed (close_runner r)"
    and failed_keep [simp]: "failed (set_quic c r) = failed r" "failed (clear_quic r) = failed r"
      "failed (set_target a p r) = failed r"
    and addr_keep [simp]: "addr (set_quic c r) = addr r" "addr (clear_quic r) = addr r"
      "addr (set_target a p r) = addr r" "addr (close_runner r) = addr r"
    and wf_keep: "wf r \<Longrightarrow> wf (set_quic c r)" "wf r \<Longrightarrow> wf (clear_quic r)"
      "wf r \<Longrightarrow> wf (set_target a p r)" "wf r \<Longrightarrow> wf (close_runner r)"
begin

text \<open>\<open>setRunnerQuic\<close> for a connection that may be \<open>nil\<close>.\<close>

definition set_conn :: "conn option \<Rightarrow> 'r \<Rightarrow> 'r" where
  "set_conn q r = (case q of None \<Rightarrow> clear_quic r | Some c \<Rightarrow> set_quic c r)"

lemma set_conn_simps [simp]:
  "quic (set_conn q r) = q" "target (set_conn q r) = target r"
  "failed (set_conn q r) = failed r" "addr (set_conn q r) = addr r"
  by (simp_all add: set_conn_def split: option.split)

lemma set_conn_wf: "wf r \<Longrightarrow> wf (set_conn q r)"
  by (simp add: set_conn_def wf_keep split: option.split)

lemma shutdown: "failed (close_runner (clear_quic r)) \<and> addr (close_runner (clear_quic r)) = addr r"
  by simp

end

end
