(* ===== verification/Forward_Tcp.thy ===== *)
theory Forward_Tcp
  imports Forward_Base
begin

text \<open>
  The TCP listener \<open>ForwardClient\<close> of \<open>proxy/proxy_l.go\<close>: its setters, the \<open>Serve\<close> loop one
  \<open>Accept\<close> at a time and \<open>handleConn\<close> for one accepted connection, as traces of what happens to
  the connection and to the tunnel stream. \<open>ForwardClient\<close> is an interpretation of \<open>runner\<close>.
\<close>

section \<open>State\<close>

text \<open>\<open>ft_failures\<close> is the loop's local counter, \<open>ft_serving\<close> whether the loop still runs.\<close>

record fwd_tcp =
  ft_listener :: "string option"
  ft_open :: bool
  ft_quic :: "conn option"
  ft_remoteIP :: ip
  ft_remotePort :: u16
  ft_failed :: bool
  ft_serving :: bool
  ft_failures :: nat

definition tcp_new :: "string \<Rightarrow> ip \<Rightarrow> u16 \<Rightarrow> fwd_tcp" where
  "tcp_new listen a p =
     \<lparr> ft_listener = Some listen, ft_open = True, ft_quic = None, ft_remoteIP = a, ft_remotePort = p,
       ft_failed = False, ft_serving = True, ft_failures = 0 \<rparr>"

definition tcp_SetQuicConn :: "conn \<Rightarrow> fwd_tcp \<Rightarrow> fwd_tcp" where
  "tcp_SetQuicConn c p = p\<lparr> ft_quic := Some c \<rparr>"

definition tcp_ClearQuicConn :: "fwd_tcp \<Rightarrow> fwd_tcp" where
  "tcp_ClearQuicConn p = p\<lparr> ft_quic := None \<rparr>"

definition tcp_SetTarget :: "ip \<Rightarrow> u16 \<Rightarrow> fwd_tcp \<Rightarrow> fwd_tcp" where
  "tcp_SetTarget a port p = p\<lparr> ft_remoteIP := a, ft_remotePort := port \<rparr>"

definition tcp_target :: "fwd_tcp \<Rightarrow> ip \<times> u16" where
  "tcp_target p = (ft_remoteIP p, ft_remotePort p)"

definition tcp_ListenAddr :: "fwd_tcp \<Rightarrow> string" where
  "tcp_ListenAddr p = (case ft_listener p of Some a \<Rightarrow> a | None \<Rightarrow> [])"

definition tcp_Close :: "fwd_tcp \<Rightarrow> fwd_tcp" where
  "tcp_Close p = (let p = p\<lparr> ft_failed := True \<rparr>
                  in if ft_listener p \<noteq> None then p\<lparr> ft_open := False \<rparr> else p)"

section \<open>Serve\<close>

datatype accept_res = Accepted nat | AcceptError listen_err

datatype tcp_out = CloseTcp nat | HandleConn nat conn | Sleep int | ServeReturned

text \<open>One turn of the loop; the deferred \<open>failed.Store(true)\<close> runs when it returns.\<close>

definition tcp_serve_step :: "accept_res \<Rightarrow> fwd_tcp \<Rightarrow> fwd_tcp \<times> tcp_out list" where
  "tcp_serve_step r p =
     (case r of
        AcceptError err \<Rightarrow>
          (case on_listen_error (ft_failures p) err of
             None \<Rightarrow> (p\<lparr> ft_serving := False, ft_failed := True \<rparr>, [ServeReturned])
           | Some (failures, d) \<Rightarrow> (p\<lparr> ft_failures := failures \<rparr>, [Sleep d]))
      | Accepted c \<Rightarrow>
          (let p = p\<lparr> ft_failures := 0 \<rparr>
           in case ft_quic p of
                None \<Rightarrow> (p, [CloseTcp c])
              | Some q \<Rightarrow> (p, [HandleConn c q])))"

fun tcp_Serve :: "accept_res list \<Rightarrow> fwd_tcp \<Rightarrow> fwd_tcp \<times> tcp_out list" where
  "tcp_Serve [] p = (p, [])"
| "tcp_Serve (r # rs) p =
     (if \<not> ft_serving p then (p, [])
      else let (p1, o1) = tcp_serve_step r p; (p2, o2) = tcp_Serve rs p1 in (p2, o1 @ o2))"

definition err_of :: "accept_res \<Rightarrow> listen_err option" where
  "err_of r = (case r of Accepted _ \<Rightarrow> None | AcceptError e \<Rightarrow> Some e)"

lemma err_of_simps [simp]: "err_of (Accepted c) = None" "err_of (AcceptError e) = Some e"
  by (simp_all add: err_of_def)

lemma tcp_Serve_policy:
  "ft_serving p \<Longrightarrow>
   (case serve_policy (ft_failures p) (map err_of rs) of
      None \<Rightarrow> \<not> ft_serving (fst (tcp_Serve rs p)) \<and> ft_failed (fst (tcp_Serve rs p))
    | Some n \<Rightarrow> ft_serving (fst (tcp_Serve rs p)) \<and> ft_failures (fst (tcp_Serve rs p)) = n
                \<and> ft_failed (fst (tcp_Serve rs p)) = ft_failed p)"
proof (induction rs arbitrary: p)
  case (Cons r rs)
  show ?case
  proof (cases r)
    case (Accepted c)
    let ?p = "p\<lparr> ft_failures := 0 \<rparr>"
    have "fst (tcp_serve_step r p) = ?p" by (simp add: Accepted tcp_serve_step_def Let_def split: option.split)
    then show ?thesis using Cons.IH[of ?p] Cons.prems Accepted
      by (simp add: case_prod_unfold Let_def split: option.splits)
  next
    case (AcceptError e)
    show ?thesis
    proof (cases "on_listen_error (ft_failures p) e")
      case None
      then have "tcp_Serve rs (p\<lparr> ft_serving := False, ft_failed := True \<rparr>) =
          (p\<lparr> ft_serving := False, ft_failed := True \<rparr>, [])" by (cases rs) auto
      then show ?thesis using None AcceptError Cons.prems
        by (simp add: tcp_serve_step_def)
    next
      case (Some md)
      obtain m d where md: "md = (m, d)" by (cases md)
      from Some md Cons.IH[of "p\<lparr> ft_failures := m \<rparr>"] Cons.prems AcceptError show ?thesis
        by (simp add: tcp_serve_step_def case_prod_unfold Let_def split: option.splits)
    qed
  qed
qed simp

section \<open>One connection\<close>

datatype conn_ev =
    OpenStream conn
  | TcpClosed
  | HeadWritten bytes
  | RelayStarted
  | StreamCancelled
  | StreamClosed

text \<open>
  \<open>handleConn\<close>: \<open>openOk\<close> and \<open>writeOk\<close> tell whether opening the stream and writing the head
  succeed; \<open>relay\<close> ends by closing both sides.
\<close>

definition handleConn :: "fwd_tcp \<Rightarrow> conn \<Rightarrow> bool \<Rightarrow> bool \<Rightarrow> conn_ev list" where
  "handleConn p quicConn openOk writeOk =
     OpenStream quicConn #
     (if \<not> openOk then [TcpClosed]
      else let (remoteIP, remotePort) = tcp_target p in
           case to4 remoteIP of
             None \<Rightarrow> [TcpClosed, StreamCancelled, StreamClosed]
           | Some ip4 \<Rightarrow>
               HeadWritten (head_bytes 0x00 ip4 remotePort) #
               (if \<not> writeOk then [TcpClosed, StreamCancelled, StreamClosed]
                else [RelayStarted, StreamCancelled, StreamClosed, TcpClosed]))"

interpretation tcp_runner: runner tcp_SetQuicConn tcp_ClearQuicConn tcp_SetTarget tcp_Close
  ft_quic tcp_target ft_failed tcp_ListenAddr "\<lambda>p. ft_listener p \<noteq> None"
  by unfold_locales
     (auto simp: tcp_SetQuicConn_def tcp_ClearQuicConn_def tcp_SetTarget_def tcp_Close_def
        tcp_target_def tcp_ListenAddr_def Let_def)

text \<open>The TCP listener keeps to the retry policy: it serves on exactly as long as the policy says,
  and once it stops it reports itself failed, so that the manager can rebuild it.\<close>

theorem tcp_listener_policy:
  assumes "p = tcp_new listen a port" "(p', out) = tcp_Serve rs p"
  shows "(ft_serving p' \<longleftrightarrow> serve_policy 0 (map err_of rs) \<noteq> None) \<and> (ft_failed p' \<longleftrightarrow> \<not> ft_serving p')"
proof -
  have p: "ft_serving p" "ft_failures p = 0" "\<not> ft_failed p" by (simp_all add: assms(1) tcp_new_def)
  have "p' = fst (tcp_Serve rs p)" using assms(2) by (metis fst_conv)
  with p tcp_Serve_policy[OF p(1), of rs] show ?thesis by (auto split: option.splits)
qed

theorem tcp_listener_policy_witness:
  "\<not> ft_serving (fst (tcp_Serve [AcceptError OtherError] (tcp_new ''127.0.0.1:80'' [10, 0, 0, 5] 80)))"
proof -
  obtain p' out where e: "(p', out) = tcp_Serve [AcceptError OtherError]
      (tcp_new ''127.0.0.1:80'' [10, 0, 0, 5] 80)" by (metis surj_pair)
  have "serve_policy 0 (map err_of [AcceptError OtherError]) = None"
    by (simp add: err_of_def on_listen_error_def retryServeError_def)
  with tcp_listener_policy[OF refl e] show ?thesis unfolding e[symmetric] fst_conv by (simp only: simp_thms)
qed

text \<open>A forwarded TCP connection never leaks and never goes to a stale address: on every outcome the
  client's connection is closed, an opened stream is cancelled and closed, and a head is only ever
  written for a valid IPv4 target, in which case the Remote routes it to exactly that target.\<close>

theorem handleConn_closes:
  "TcpClosed \<in> set (handleConn p q openOk writeOk) \<and>
   (openOk \<longrightarrow> StreamCancelled \<in> set (handleConn p q openOk writeOk)
             \<and> StreamClosed \<in> set (handleConn p q openOk writeOk)) \<and>
   (\<forall>h. HeadWritten h \<in> set (handleConn p q openOk writeOk) \<longrightarrow>
      (\<exists>ip4. to4 (ft_remoteIP p) = Some ip4 \<and>
         route_head h False = RouteTCP ip4 (if ft_remotePort p = 13389 then 3389 else ft_remotePort p)))"
  by (auto simp: handleConn_def tcp_target_def route_head_bytes to4_length split: option.splits)

end
