(* ===== verification/Forward_Udp.thy ===== *)
theory Forward_Udp
  imports Forward_Base
begin

text \<open>
  The UDP listener \<open>ForwardUDPClient\<close> of \<open>proxy/proxy_l.go\<close>. Sessions are shared objects: the
  map \<open>fu_sessions\<close> and the read-back goroutines \<open>fu_readers\<close> both refer to an entry of the store
  \<open>fu_heap\<close>. Every operation is one locked step; \<open>udp_step\<close> is their interleaving. When a session
  is evicted the lock is released while the victim is closed; only \<open>Serve\<close> adds sessions, so the
  map can only shrink in between, and the eviction is kept as one step. \<open>ForwardUDPClient\<close> is an
  interpretation of \<open>runner\<close> whose well-formedness is the invariant \<open>udp_inv\<close>.
\<close>

section \<open>State\<close>

record udp_sess =
  us_head :: bytes
  us_closed :: bool
  us_createdAt :: int
  us_lastUsed :: int

record fwd_udp =
  fu_addr :: "string option"
  fu_open :: bool
  fu_quic :: "conn option"
  fu_remoteIP :: ip
  fu_remotePort :: u16
  fu_sessions :: "(string \<times> nat) list"
  fu_heap :: "nat \<Rightarrow> udp_sess option"
  fu_next :: nat
  fu_readers :: "(string \<times> nat) list"
  fu_sweeping :: bool
  fu_failed :: bool
  fu_serving :: bool
  fu_failures :: nat

definition maxUDPSessions :: nat where "maxUDPSessions = 1024"
definition UDPIdleTimeout :: int where "UDPIdleTimeout = 60 * 1000 * millisecond"

definition udp_new :: "string \<Rightarrow> ip \<Rightarrow> u16 \<Rightarrow> fwd_udp" where
  "udp_new listen a p =
     \<lparr> fu_addr = Some listen, fu_open = True, fu_quic = None, fu_remoteIP = a, fu_remotePort = p,
       fu_sessions = [], fu_heap = (\<lambda>_. None), fu_next = 0, fu_readers = [], fu_sweeping = False,
       fu_failed = False, fu_serving = True, fu_failures = 0 \<rparr>"

section \<open>Sessions\<close>

definition sess_close :: "nat \<Rightarrow> (nat \<Rightarrow> udp_sess option) \<Rightarrow> nat \<Rightarrow> udp_sess option" where
  "sess_close i h =
     (case h i of None \<Rightarrow> h
      | Some s \<Rightarrow> if us_closed s then h else h(i \<mapsto> s\<lparr> us_closed := True \<rparr>))"

text \<open>\<open>write\<close>: \<open>wrote\<close> is whether the stream takes the frame before the write deadline; the time of
  use is noted in either case.\<close>

definition sess_write ::
  "nat \<Rightarrow> int \<Rightarrow> bytes \<Rightarrow> bool \<Rightarrow> fwd_udp \<Rightarrow> io_err option \<times> bytes option \<times> fwd_udp" where
  "sess_write i now b wrote p =
     (case fu_heap p i of
        None \<Rightarrow> (Some EOF, None, p)
      | Some s \<Rightarrow>
          if us_closed s then (Some EOF, None, p)
          else (let (err, out) = writeFrame (\<lambda>w frame. (if wrote then None else Some Timeout, Some frame)) None b
                in (err, out, p\<lparr> fu_heap := (fu_heap p)(i \<mapsto> s\<lparr> us_lastUsed := now \<rparr>) \<rparr>)))"

definition closeAllSessions :: "fwd_udp \<Rightarrow> fwd_udp" where
  "closeAllSessions p =
     p\<lparr> fu_sessions := [], fu_heap := fold sess_close (map snd (fu_sessions p)) (fu_heap p) \<rparr>"

definition getSession :: "string \<Rightarrow> fwd_udp \<Rightarrow> nat option" where
  "getSession key p = map_of (fu_sessions p) key"

definition dropSession :: "string \<Rightarrow> fwd_udp \<Rightarrow> fwd_udp" where
  "dropSession key p =
     (let s = getSession key p;
          p' = p\<lparr> fu_sessions := filter (\<lambda>e. fst e \<noteq> key) (fu_sessions p) \<rparr>
      in case s of None \<Rightarrow> p' | Some i \<Rightarrow> p'\<lparr> fu_heap := sess_close i (fu_heap p') \<rparr>)"

definition created :: "fwd_udp \<Rightarrow> nat \<Rightarrow> int" where
  "created p i = (case fu_heap p i of Some s \<Rightarrow> us_createdAt s | None \<Rightarrow> 0)"

text \<open>The scan of \<open>evictOldestLocked\<close>: a later entry replaces the victim only when strictly older.\<close>

fun oldest :: "fwd_udp \<Rightarrow> (string \<times> nat) option \<Rightarrow> (string \<times> nat) list \<Rightarrow> (string \<times> nat) option" where
  "oldest p victim [] = victim"
| "oldest p victim ((k, i) # es) =
     oldest p (case victim of
                 None \<Rightarrow> Some (k, i)
               | Some (vk, vi) \<Rightarrow> if created p i < created p vi then Some (k, i) else victim) es"

definition evictOldest :: "fwd_udp \<Rightarrow> fwd_udp" where
  "evictOldest p =
     (case oldest p None (fu_sessions p) of
        None \<Rightarrow> p
      | Some (vk, vi) \<Rightarrow>
          p\<lparr> fu_sessions := (if vk \<noteq> [] then filter (\<lambda>e. fst e \<noteq> vk) (fu_sessions p) else fu_sessions p),
             fu_heap := sess_close vi (fu_heap p) \<rparr>)"

datatype new_err = ErrClosedPipe | OpenFailed | BadTarget | HeadFailed

text \<open>
  The part of \<open>newSession\<close> up to the head: nothing is shared yet, the stream is closed again on
  every failure, and the result is the head that was written.
\<close>

definition open_session :: "bool \<Rightarrow> bool \<Rightarrow> fwd_udp \<Rightarrow> new_err + bytes" where
  "open_session openOk headOk p =
     (case fu_quic p of
        None \<Rightarrow> Inl ErrClosedPipe
      | Some q \<Rightarrow>
          if \<not> openOk then Inl OpenFailed
          else case to4 (fu_remoteIP p) of
            None \<Rightarrow> Inl BadTarget
          | Some ip4 \<Rightarrow>
              if \<not> headOk then Inl HeadFailed
              else Inr (head_bytes 0x01 ip4 (fu_remotePort p)))"

definition commit_session :: "string \<Rightarrow> int \<Rightarrow> bytes \<Rightarrow> fwd_udp \<Rightarrow> nat \<times> fwd_udp" where
  "commit_session key now head p =
     (let i = fu_next p;
          sess = \<lparr> us_head = head, us_closed = False, us_createdAt = now, us_lastUsed = now \<rparr>;
          p1 = p\<lparr> fu_heap := (fu_heap p)(i \<mapsto> sess), fu_next := Suc i \<rparr>
      in case getSession key p1 of
           Some existing \<Rightarrow> (existing, p1\<lparr> fu_heap := sess_close i (fu_heap p1) \<rparr>)
         | None \<Rightarrow>
             (let p2 = (if length (fu_sessions p1) \<ge> maxUDPSessions then evictOldest p1 else p1)
              in (i, p2\<lparr> fu_sessions := (key, i) # fu_sessions p2, fu_sweeping := True,
                         fu_readers := (key, i) # fu_readers p2 \<rparr>)))"

definition newSession :: "string \<Rightarrow> int \<Rightarrow> bool \<Rightarrow> bool \<Rightarrow> fwd_udp \<Rightarrow> (new_err + nat) \<times> fwd_udp" where
  "newSession key now openOk headOk p =
     (case open_session openOk headOk p of
        Inl e \<Rightarrow> (Inl e, p)
      | Inr head \<Rightarrow> (let (i, p') = commit_session key now head p in (Inr i, p')))"

text \<open>One tick of \<open>sweepIdle\<close>; with nothing left the sweeper ends.\<close>

definition idle_since :: "fwd_udp \<Rightarrow> nat \<Rightarrow> int" where
  "idle_since p i = (case fu_heap p i of Some s \<Rightarrow> us_lastUsed s | None \<Rightarrow> 0)"

definition sweepIdle :: "int \<Rightarrow> fwd_udp \<Rightarrow> fwd_udp" where
  "sweepIdle now p =
     (if fu_sessions p = [] then p\<lparr> fu_sweeping := False \<rparr>
      else let idle = (\<lambda>e. now - idle_since p (snd e) > UDPIdleTimeout);
               victims = filter idle (fu_sessions p)
           in p\<lparr> fu_sessions := filter (\<lambda>e. \<not> idle e) (fu_sessions p),
                 fu_heap := fold sess_close (map snd victims) (fu_heap p) \<rparr>)"

text \<open>
  \<open>readBack\<close> forwards frames as datagrams until the stream or the socket fails; the deferred
  \<open>dropSession\<close> goes by the key the session was created under.
\<close>

definition readBack_end :: "string \<Rightarrow> nat \<Rightarrow> fwd_udp \<Rightarrow> fwd_udp" where
  "readBack_end key i p =
     dropSession key (p\<lparr> fu_readers := filter (\<lambda>e. e \<noteq> (key, i)) (fu_readers p) \<rparr>)"

definition readBack :: "'w writer \<Rightarrow> 'w \<Rightarrow> reader \<Rightarrow> string \<Rightarrow> nat \<Rightarrow> fwd_udp \<Rightarrow> 'w \<times> fwd_udp" where
  "readBack writeTo w fromStream key i p =
     (tunnel_to_udp writeTo w fromStream, readBack_end key i p)"

section \<open>The runner operations and Serve\<close>

definition udp_SetQuicConn :: "conn \<Rightarrow> fwd_udp \<Rightarrow> fwd_udp" where
  "udp_SetQuicConn c p = (closeAllSessions p)\<lparr> fu_quic := Some c \<rparr>"

definition udp_ClearQuicConn :: "fwd_udp \<Rightarrow> fwd_udp" where
  "udp_ClearQuicConn p = closeAllSessions (p\<lparr> fu_quic := None \<rparr>)"

definition udp_SetTarget :: "ip \<Rightarrow> u16 \<Rightarrow> fwd_udp \<Rightarrow> fwd_udp" where
  "udp_SetTarget a port p = p\<lparr> fu_remoteIP := a, fu_remotePort := port \<rparr>"

definition udp_target :: "fwd_udp \<Rightarrow> ip \<times> u16" where
  "udp_target p = (fu_remoteIP p, fu_remotePort p)"

definition udp_ListenAddr :: "fwd_udp \<Rightarrow> string" where
  "udp_ListenAddr p = (case fu_addr p of Some a \<Rightarrow> a | None \<Rightarrow> [])"

definition udp_Close :: "fwd_udp \<Rightarrow> fwd_udp" where
  "udp_Close p =
     (let p1 = closeAllSessions (p\<lparr> fu_failed := True \<rparr>)
      in if fu_addr p1 \<noteq> None then p1\<lparr> fu_open := False \<rparr> else p1)"

datatype read_res = Datagram bytes string | ReadError listen_err

text \<open>One turn of \<open>Serve\<close>; the flags say whether opening a stream, writing its head and writing the
  frame succeed.\<close>

definition udp_serve_step ::
  "read_res \<Rightarrow> int \<Rightarrow> bool \<Rightarrow> bool \<Rightarrow> bool \<Rightarrow> fwd_udp \<Rightarrow> fwd_udp" where
  "udp_serve_step r now openOk headOk wrote p =
     (case r of
        ReadError err \<Rightarrow>
          (case on_listen_error (fu_failures p) err of
             None \<Rightarrow> p\<lparr> fu_serving := False, fu_failed := True \<rparr>
           | Some (failures, d) \<Rightarrow> p\<lparr> fu_failures := failures \<rparr>)
      | Datagram b key \<Rightarrow>
          (let p = p\<lparr> fu_failures := 0 \<rparr>; b = take 65535 b in
           if b = [] then p
           else if fu_quic p = None then p
           else case (case getSession key p of
                        Some i \<Rightarrow> (Inr i, p)
                      | None \<Rightarrow> newSession key now openOk headOk p) of
                  (Inl e, p') \<Rightarrow> p'
                | (Inr i, p') \<Rightarrow>
                    (let (err, out, p'') = sess_write i now b wrote p'
                     in if err \<noteq> None then dropSession key p'' else p'')))"

section \<open>Interleaving\<close>

inductive udp_step :: "fwd_udp \<Rightarrow> fwd_udp \<Rightarrow> bool" where
  set_quic_close: "udp_step p (closeAllSessions p)"
| set_quic_store: "udp_step p (p\<lparr> fu_quic := q \<rparr>)"
| set_target: "udp_step p (udp_SetTarget a port p)"
| serve: "fu_serving p \<Longrightarrow> (\<And>b key. r = Datagram b key \<Longrightarrow> key \<noteq> []) \<Longrightarrow>
    udp_step p (udp_serve_step r now openOk headOk wrote p)"
| sweep: "fu_sweeping p \<Longrightarrow> udp_step p (sweepIdle now p)"
| read_back: "(key, i) \<in> set (fu_readers p) \<Longrightarrow> udp_step p (readBack_end key i p)"
| close: "udp_step p (udp_Close p)"

inductive_cases udp_stepE: "udp_step p p'"

inductive udp_reachable :: "fwd_udp \<Rightarrow> bool" where
  init: "udp_reachable (udp_new listen a port)"
| step: "udp_reachable p \<Longrightarrow> udp_step p p' \<Longrightarrow> udp_reachable p'"

section \<open>The invariant\<close>

definition open_at :: "(nat \<Rightarrow> udp_sess option) \<Rightarrow> nat \<Rightarrow> bool" where
  "open_at h i = (case h i of None \<Rightarrow> False | Some s \<Rightarrow> \<not> us_closed s)"

text \<open>
  The map holds at most 1024 distinct clients, each with its own session; exactly the sessions in
  the map are open; every one has its read-back goroutine; and the sweeper runs while there is any.
\<close>

definition udp_inv :: "fwd_udp \<Rightarrow> bool" where
  "udp_inv p \<longleftrightarrow>
     distinct (map fst (fu_sessions p)) \<and> distinct (map snd (fu_sessions p)) \<and>
     [] \<notin> fst ` set (fu_sessions p) \<and>
     length (fu_sessions p) \<le> maxUDPSessions \<and>
     (\<forall>i. open_at (fu_heap p) i \<longleftrightarrow> i \<in> snd ` set (fu_sessions p)) \<and>
     (\<forall>i. fu_heap p i \<noteq> None \<longrightarrow> i < fu_next p) \<and>
     (fu_sessions p \<noteq> [] \<longrightarrow> fu_sweeping p)"

lemma open_at_close: "open_at (sess_close i h) j \<longleftrightarrow> open_at h j \<and> j \<noteq> i"
  by (auto simp: open_at_def sess_close_def split: option.splits)

lemma open_at_fold: "open_at (fold sess_close is h) j \<longleftrightarrow> open_at h j \<and> j \<notin> set is"
  by (induction "is" arbitrary: h) (auto simp: open_at_close)

lemma sess_close_None: "sess_close i h j = None \<longleftrightarrow> h j = None"
  by (auto simp: sess_close_def split: option.splits)

lemma fold_close_None: "fold sess_close is h j = None \<longleftrightarrow> h j = None"
  by (induction "is" arbitrary: h) (auto simp: sess_close_None)

lemma udp_inv_remove:
  assumes "udp_inv p" "\<forall>i. open_at h i \<longleftrightarrow> open_at (fu_heap p) i \<and> i \<notin> snd ` {e \<in> set (fu_sessions p). \<not> P e}"
    and "\<forall>i. h i = None \<longleftrightarrow> fu_heap p i = None"
    and "fu_sessions q = filter P (fu_sessions p)" "fu_heap q = h" "fu_next q = fu_next p"
      "fu_sweeping q = fu_sweeping p"
  shows "udp_inv q"
proof -
  have d: "distinct (map snd (fu_sessions p))" using assms(1) by (simp add: udp_inv_def)
  have "snd e \<notin> snd ` {e \<in> set (fu_sessions p). \<not> P e}" if "e \<in> set (fu_sessions p)" "P e" for e
    using that d by (auto simp: distinct_map inj_on_def)
  then have "(\<forall>i. open_at (fu_heap q) i \<longleftrightarrow> i \<in> snd ` set (fu_sessions q))"
    using assms by (auto simp: udp_inv_def)
  moreover have "length (filter P (fu_sessions p)) \<le> maxUDPSessions"
    using assms(1) unfolding udp_inv_def by (meson length_filter_le le_trans)
  ultimately show ?thesis using assms
    by (auto simp: udp_inv_def distinct_map_filter)
qed

lemma closeAllSessions_inv: "udp_inv p \<Longrightarrow> udp_inv (closeAllSessions p)"
  by (rule udp_inv_remove[of p _ "\<lambda>_. False"])
     (auto simp: closeAllSessions_def open_at_fold fold_close_None)

lemma dropSession_inv:
  assumes "udp_inv p"
  shows "udp_inv (dropSession key p)"
proof -
  have d: "distinct (map fst (fu_sessions p))" using assms by (simp add: udp_inv_def)
  have i: "{e \<in> set (fu_sessions p). fst e = key} = (case map_of (fu_sessions p) key of
      None \<Rightarrow> {} | Some i \<Rightarrow> {(key, i)})"
    using d by (auto simp: map_of_eq_None_iff image_iff split: option.splits)
      (metis map_of_eq_Some_iff option.inject)+
  show ?thesis
    by (rule udp_inv_remove[OF assms, of _ "\<lambda>e. fst e \<noteq> key"])
       (auto simp: dropSession_def getSession_def Let_def i open_at_close sess_close_None split: option.splits)
qed

lemma sweepIdle_inv:
  assumes "udp_inv p"
  shows "udp_inv (sweepIdle now p)"
proof (cases "fu_sessions p = []")
  case True
  then show ?thesis using assms by (simp add: sweepIdle_def udp_inv_def)
next
  case False
  then show ?thesis
    by (intro udp_inv_remove[OF assms, of _ "\<lambda>e. \<not> now - idle_since p (snd e) > UDPIdleTimeout"])
       (auto simp: sweepIdle_def Let_def open_at_fold fold_close_None)
qed

lemma oldest_spec:
  assumes "oldest p v es = Some (k, i)"
  shows "((k, i) \<in> set es \<or> v = Some (k, i)) \<and> (\<forall>(k', j) \<in> set es. created p i \<le> created p j)
    \<and> (\<forall>(k', j) \<in> set_option v. created p i \<le> created p j)"
  using assms
proof (induction p v es rule: oldest.induct)
  case (2 p victim k' j es)
  then show ?case by (auto split: option.splits if_splits prod.splits)
qed auto

lemma oldest_None: "oldest p v es = None \<longleftrightarrow> v = None \<and> es = []"
  by (induction p v es rule: oldest.induct) (auto split: option.splits prod.splits)

lemma evictOldest_drop:
  assumes "distinct (map fst (fu_sessions p))" "[] \<notin> fst ` set (fu_sessions p)" "fu_sessions p \<noteq> []"
  obtains vk vi where "(vk, vi) \<in> set (fu_sessions p)" "evictOldest p = dropSession vk p"
    "\<forall>(k, j) \<in> set (fu_sessions p). created p vi \<le> created p j"
proof -
  obtain vk vi where o: "oldest p None (fu_sessions p) = Some (vk, vi)"
    using assms(3) by (metis oldest_None not_Some_eq surj_pair)
  note s = oldest_spec[OF o]
  then have m: "(vk, vi) \<in> set (fu_sessions p)" by simp
  then have "vk \<noteq> []" "map_of (fu_sessions p) vk = Some vi"
    using assms(1,2) by (auto simp: image_iff)
  then have "evictOldest p = dropSession vk p"
    by (simp add: evictOldest_def o dropSession_def getSession_def Let_def)
  with m s that show thesis by simp
qed

lemma udp_inv_fresh:
  assumes "udp_inv p"
  shows "fu_heap p (fu_next p) = None" "fu_next p \<notin> snd ` set (fu_sessions p)"
proof -
  show n: "fu_heap p (fu_next p) = None" using assms by (force simp: udp_inv_def)
  have "\<not> open_at (fu_heap p) (fu_next p)" by (simp add: open_at_def n)
  then show "fu_next p \<notin> snd ` set (fu_sessions p)" using assms unfolding udp_inv_def by blast
qed

lemma insert_inv:
  assumes "udp_inv q" "key \<noteq> []" "map_of (fu_sessions q) key = None"
    "length (fu_sessions q) < maxUDPSessions"
  shows "udp_inv (q\<lparr> fu_heap := (fu_heap q)(fu_next q \<mapsto> \<lparr> us_head = hd', us_closed = False,
           us_createdAt = now, us_lastUsed = now \<rparr>), fu_next := Suc (fu_next q),
         fu_sessions := (key, fu_next q) # fu_sessions q, fu_sweeping := True, fu_readers := rs \<rparr>)"
proof -
  note f = udp_inv_fresh(2)[OF assms(1)]
  have "key \<notin> fst ` set (fu_sessions q)" using assms(3) by (simp add: map_of_eq_None_iff)
  moreover have "open_at ((fu_heap q)(fu_next q \<mapsto> \<lparr> us_head = hd', us_closed = False,
      us_createdAt = now, us_lastUsed = now \<rparr>)) j \<longleftrightarrow> open_at (fu_heap q) j \<or> j = fu_next q" for j
    by (auto simp: open_at_def)
  ultimately show ?thesis using assms f by (auto simp: udp_inv_def less_Suc_eq)
qed

lemma dropSession_fresh:
  assumes "fu_next p \<notin> snd ` set (fu_sessions p)"
  shows "dropSession k (p\<lparr> fu_heap := (fu_heap p)(fu_next p \<mapsto> s), fu_next := Suc (fu_next p) \<rparr>) =
    (dropSession k p)\<lparr> fu_heap := (fu_heap (dropSession k p))(fu_next p \<mapsto> s), fu_next := Suc (fu_next p) \<rparr>"
proof (cases "map_of (fu_sessions p) k")
  case None
  then show ?thesis by (simp add: dropSession_def getSession_def)
next
  case (Some i)
  then have "i \<noteq> fu_next p" using assms map_of_SomeD[OF Some] by (auto simp: image_iff)
  with Some show ?thesis
    by (auto simp: dropSession_def getSession_def Let_def sess_close_def fun_upd_twist split: option.split)
qed

lemma dropSession_keeps [simp]:
  "fu_next (dropSession k p) = fu_next p" "fu_quic (dropSession k p) = fu_quic p"
  "fu_sessions (dropSession k p) = filter (\<lambda>e. fst e \<noteq> k) (fu_sessions p)"
  "fu_readers (dropSession k p) = fu_readers p" "fu_failed (dropSession k p) = fu_failed p"
  "fu_addr (dropSession k p) = fu_addr p" "udp_target (dropSession k p) = udp_target p"
  "fu_sweeping (dropSession k p) = fu_sweeping p"
  by (auto simp: dropSession_def Let_def udp_target_def split: option.split)

lemma commit_session_inv:
  assumes "udp_inv p" "key \<noteq> []"
  shows "udp_inv (snd (commit_session key now head p))"
proof -
  let ?i = "fu_next p"
  let ?s = "\<lparr> us_head = head, us_closed = False, us_createdAt = now, us_lastUsed = now \<rparr>"
  let ?p1 = "p\<lparr> fu_heap := (fu_heap p)(?i \<mapsto> ?s), fu_next := Suc ?i \<rparr>"
  note n = udp_inv_fresh(1)[OF assms(1)] and f = udp_inv_fresh(2)[OF assms(1)]
  have no: "\<not> open_at (fu_heap p) ?i" using n by (simp add: open_at_def)
  show ?thesis
  proof (cases "map_of (fu_sessions p) key")
    case (Some existing)
    have "open_at (sess_close ?i ((fu_heap p)(?i \<mapsto> ?s))) j \<longleftrightarrow> open_at (fu_heap p) j" for j
      using no by (auto simp: open_at_close) (auto simp: open_at_def)
    moreover have "sess_close ?i ((fu_heap p)(?i \<mapsto> ?s)) j \<noteq> None \<longrightarrow> j < Suc ?i" for j
      using assms(1) by (auto simp: sess_close_def udp_inv_def less_Suc_eq)
    ultimately show ?thesis using assms(1) Some
      by (simp add: commit_session_def getSession_def Let_def udp_inv_def)
  next
    case None
    show ?thesis
    proof (cases "length (fu_sessions p) \<ge> maxUDPSessions")
      case False
      then show ?thesis using insert_inv[OF assms None, where hd' = head and now = now and rs = "(key, ?i) # fu_readers p"] None
        by (simp add: commit_session_def getSession_def Let_def)
    next
      case True
      then have ne: "fu_sessions p \<noteq> []" by (auto simp: maxUDPSessions_def)
      obtain vk vi where v: "(vk, vi) \<in> set (fu_sessions p)" "evictOldest ?p1 = dropSession vk ?p1"
      proof (rule evictOldest_drop[of ?p1])
        fix vk vi
        assume "(vk, vi) \<in> set (fu_sessions ?p1)" "evictOldest ?p1 = dropSession vk ?p1"
        with that show thesis by simp
      qed (use assms(1) ne in \<open>simp_all add: udp_inv_def\<close>)
      let ?q = "dropSession vk p"
      have q: "udp_inv ?q" using assms(1) by (rule dropSession_inv)
      have "map_of (fu_sessions ?q) key = None"
        using None by (auto simp: map_of_eq_None_iff)
      moreover have "length (fu_sessions ?q) < maxUDPSessions"
      proof -
        have "length (filter (\<lambda>e. fst e \<noteq> vk) (fu_sessions p)) < length (fu_sessions p)"
          by (rule length_filter_less[OF v(1)]) simp
        then show ?thesis using assms(1) by (simp add: udp_inv_def)
      qed
      ultimately have "udp_inv (?q\<lparr> fu_heap := (fu_heap ?q)(?i \<mapsto> ?s), fu_next := Suc ?i,
          fu_sessions := (key, ?i) # fu_sessions ?q, fu_sweeping := True,
          fu_readers := (key, ?i) # fu_readers ?q \<rparr>)"
        using insert_inv[OF q assms(2), where hd' = head and now = now and rs = "(key, ?i) # fu_readers ?q"] by simp
      then show ?thesis using True None v(2) dropSession_fresh[OF f, of vk ?s]
        by (simp add: commit_session_def getSession_def Let_def)
    qed
  qed
qed

lemma newSession_inv:
  "udp_inv p \<Longrightarrow> key \<noteq> [] \<Longrightarrow> udp_inv (snd (newSession key now openOk headOk p))"
  using commit_session_inv[of p key now]
  by (auto simp: newSession_def case_prod_unfold Let_def split: sum.splits)

lemma sess_write_inv:
  assumes "udp_inv p"
  shows "udp_inv (snd (snd (sess_write i now b wrote p)))"
proof (cases "\<exists>s. fu_heap p i = Some s \<and> \<not> us_closed s")
  case True
  then obtain s where s: "fu_heap p i = Some s" "\<not> us_closed s" by blast
  then have "open_at ((fu_heap p)(i \<mapsto> s\<lparr> us_lastUsed := now \<rparr>)) = open_at (fu_heap p)"
    by (intro ext) (auto simp: open_at_def)
  with s assms show ?thesis by (auto simp: sess_write_def case_prod_unfold Let_def udp_inv_def)
next
  case False
  then show ?thesis using assms by (auto simp: sess_write_def split: option.splits)
qed

lemma udp_inv_irrelevant:
  "fu_sessions q = fu_sessions p \<Longrightarrow> fu_heap q = fu_heap p \<Longrightarrow> fu_next q = fu_next p \<Longrightarrow>
   fu_sweeping q = fu_sweeping p \<Longrightarrow> udp_inv q = udp_inv p"
  by (simp add: udp_inv_def)

text \<open>The session a datagram is written to.\<close>

definition pick_session ::
  "string \<Rightarrow> int \<Rightarrow> bool \<Rightarrow> bool \<Rightarrow> fwd_udp \<Rightarrow> (new_err + nat) \<times> fwd_udp" where
  "pick_session key now openOk headOk p =
     (case getSession key p of Some i \<Rightarrow> (Inr i, p) | None \<Rightarrow> newSession key now openOk headOk p)"

lemma udp_serve_step_inv:
  assumes "udp_inv p" "\<And>b key. r = Datagram b key \<Longrightarrow> key \<noteq> []"
  shows "udp_inv (udp_serve_step r now openOk headOk wrote p)"
proof (cases r)
  case (ReadError err)
  then show ?thesis using assms(1) by (auto simp: udp_serve_step_def udp_inv_def split: option.split)
next
  case (Datagram b key)
  let ?p = "p\<lparr> fu_failures := 0 \<rparr>"
  have p: "udp_inv ?p" using assms(1) by (simp add: udp_inv_def)
  have k: "udp_inv (snd (pick_session key now openOk headOk ?p))"
    using p newSession_inv[OF p assms(2)[OF Datagram]] by (auto simp: pick_session_def split: option.split)
  show ?thesis
    using p k sess_write_inv[OF k] dropSession_inv
    by (auto simp: Datagram udp_serve_step_def pick_session_def[symmetric] case_prod_unfold Let_def
        split: sum.split)
qed

lemma udp_step_inv: "udp_step p p' \<Longrightarrow> udp_inv p \<Longrightarrow> udp_inv p'"
proof (erule udp_stepE, goal_cases)
  case (6 key i)
  have "udp_inv (p\<lparr> fu_readers := filter (\<lambda>e. e \<noteq> (key, i)) (fu_readers p) \<rparr>)"
    using 6(1) by (simp add: udp_inv_def)
  then show ?case unfolding 6 readBack_end_def by (rule dropSession_inv)
next
  case 7
  have "udp_inv (closeAllSessions (p\<lparr> fu_failed := True \<rparr>))"
    using 7(1) by (intro closeAllSessions_inv) (simp add: udp_inv_def)
  then show ?case using 7 by (simp add: udp_Close_def Let_def udp_inv_def)
qed (simp_all add: closeAllSessions_inv sweepIdle_inv udp_serve_step_inv,
     simp_all add: udp_inv_def udp_SetTarget_def)

lemma udp_reachable_inv: "udp_reachable p \<Longrightarrow> udp_inv p"
  by (induction rule: udp_reachable.induct)
     (simp_all add: udp_step_inv, simp add: udp_inv_def udp_new_def open_at_def)

lemma closeAllSessions_keeps [simp]:
  "fu_quic (closeAllSessions p) = fu_quic p" "fu_failed (closeAllSessions p) = fu_failed p"
  "fu_addr (closeAllSessions p) = fu_addr p" "udp_target (closeAllSessions p) = udp_target p"
  by (simp_all add: closeAllSessions_def udp_target_def)

lemma udp_inv_flags:
  "udp_inv (p\<lparr> fu_quic := q \<rparr>) = udp_inv p" "udp_inv (p\<lparr> fu_failed := f \<rparr>) = udp_inv p"
  "udp_inv (p\<lparr> fu_open := b \<rparr>) = udp_inv p" "udp_inv (udp_SetTarget a port p) = udp_inv p"
  by (simp_all add: udp_inv_def udp_SetTarget_def)

interpretation udp_runner: runner udp_SetQuicConn udp_ClearQuicConn udp_SetTarget udp_Close
  fu_quic udp_target fu_failed udp_ListenAddr udp_inv
  by unfold_locales
     (simp_all add: udp_SetQuicConn_def udp_ClearQuicConn_def udp_Close_def udp_ListenAddr_def Let_def
        udp_inv_flags closeAllSessions_inv, simp_all add: udp_target_def udp_SetTarget_def udp_ListenAddr_def
        closeAllSessions_def)

section \<open>Properties\<close>


definition wit_udp :: fwd_udp where
  "wit_udp = udp_serve_step (Datagram [1] ''c'') 5 True True True
     ((udp_new ''127.0.0.1:53'' [10, 0, 0, 5] 53)\<lparr> fu_quic := Some 0 \<rparr>)"

lemma wit_udp_reachable: "udp_reachable wit_udp"
proof -
  let ?p = "(udp_new ''127.0.0.1:53'' [10, 0, 0, 5] 53)\<lparr> fu_quic := Some 0 \<rparr>"
  have "udp_reachable ?p"
    using udp_reachable.init udp_step.set_quic_store by (rule udp_reachable.step)
  moreover have "udp_step ?p (udp_serve_step (Datagram [1] ''c'') 5 True True True ?p)"
    by (rule udp_step.serve) (simp_all add: udp_new_def)
  ultimately show ?thesis unfolding wit_udp_def by (rule udp_reachable.step)
qed

lemmas udp_eval = udp_serve_step_def newSession_def open_session_def commit_session_def
  getSession_def sess_write_def writeFrame_def maxUDPFramePayload_def maxUDPSessions_def
  dropSession_def sess_close_def closeAllSessions_def readBack_end_def udp_new_def Let_def


text \<open>A goroutine that reads back for a session already replaced closes its successor: there is a
  reachable state in which client \<open>c\<close> has an open session 1, and the end of the read-back goroutine of
  its long closed session 0 closes session 1 and removes it from the table.\<close>

theorem stale_readBack_closes_successor:
  "\<exists>p. udp_reachable p \<and> \<not> open_at (fu_heap p) 0 \<and> getSession ''c'' p = Some 1 \<and> open_at (fu_heap p) 1
     \<and> (''c'', 0) \<in> set (fu_readers p)
     \<and> udp_step p (readBack_end ''c'' 0 p)
     \<and> \<not> open_at (fu_heap (readBack_end ''c'' 0 p)) 1
     \<and> getSession ''c'' (readBack_end ''c'' 0 p) = None"
proof -
  let ?p1 = "closeAllSessions wit_udp"
  let ?p2 = "udp_serve_step (Datagram [2] ''c'') 6 True True True ?p1"
  have s: "fu_serving ?p1" by (simp add: wit_udp_def udp_eval)
  have "udp_reachable ?p1"
    using wit_udp_reachable udp_step.set_quic_close by (rule udp_reachable.step)
  moreover have "udp_step ?p1 ?p2" using s by (rule udp_step.serve) simp
  ultimately have r: "udp_reachable ?p2" by (rule udp_reachable.step)
  have v: "\<not> open_at (fu_heap ?p2) 0" "getSession ''c'' ?p2 = Some 1" "open_at (fu_heap ?p2) 1"
    "(''c'', 0) \<in> set (fu_readers ?p2)" "\<not> open_at (fu_heap (readBack_end ''c'' 0 ?p2)) 1"
    "getSession ''c'' (readBack_end ''c'' 0 ?p2) = None"
    by (simp_all add: wit_udp_def udp_eval open_at_def)
  show ?thesis using r v udp_step.read_back[OF v(4)] by blast
qed

lemma commit_full:
  assumes "udp_inv p" "maxUDPSessions \<le> length (fu_sessions p)" "map_of (fu_sessions p) key = None"
  shows "\<exists>vk vi. (vk, vi) \<in> set (fu_sessions p) \<and>
      (\<forall>(k, j) \<in> set (fu_sessions p). created p vi \<le> created p j) \<and>
      fu_sessions (snd (commit_session key now head p)) =
        (key, fu_next p) # filter (\<lambda>e. fst e \<noteq> vk) (fu_sessions p) \<and>
      \<not> open_at (fu_heap (snd (commit_session key now head p))) vi"
proof -
  let ?i = "fu_next p"
  let ?s = "\<lparr> us_head = head, us_closed = False, us_createdAt = now, us_lastUsed = now \<rparr>"
  let ?p1 = "p\<lparr> fu_heap := (fu_heap p)(?i \<mapsto> ?s), fu_next := Suc ?i \<rparr>"
  have ne: "fu_sessions p \<noteq> []" using assms(2) by (auto simp: maxUDPSessions_def)
  obtain vk vi where v: "(vk, vi) \<in> set (fu_sessions p)" "evictOldest ?p1 = dropSession vk ?p1"
    "\<forall>(k, j) \<in> set (fu_sessions p). created ?p1 vi \<le> created ?p1 j"
  proof (rule evictOldest_drop[of ?p1])
    fix vk vi
    assume "(vk, vi) \<in> set (fu_sessions ?p1)" "evictOldest ?p1 = dropSession vk ?p1"
      "\<forall>(k, j) \<in> set (fu_sessions ?p1). created ?p1 vi \<le> created ?p1 j"
    with that show thesis by simp
  qed (use assms(1) ne in \<open>simp_all add: udp_inv_def\<close>)
  have c: "created ?p1 j = created p j" if "(k, j) \<in> set (fu_sessions p)" for k j
    using that udp_inv_fresh(2)[OF assms(1)] by (force simp: created_def)
  have m: "map_of (fu_sessions p) vk = Some vi"
    using v(1) assms(1) by (simp add: udp_inv_def)
  have e: "snd (commit_session key now head p) = (dropSession vk ?p1)\<lparr>
      fu_sessions := (key, ?i) # filter (\<lambda>e. fst e \<noteq> vk) (fu_sessions p), fu_sweeping := True,
      fu_readers := (key, ?i) # fu_readers p \<rparr>"
    using assms(2,3) v(2) by (simp add: commit_session_def getSession_def Let_def)
  have "\<not> open_at (fu_heap (dropSession vk ?p1)) vi"
    using m by (simp add: dropSession_def getSession_def Let_def open_at_close)
  then show ?thesis using v(1,3) c by (intro exI[of _ vk] exI[of _ vi]) (fastforce simp: e)
qed

text \<open>A full table makes room by age: when 1024 clients have a session and a new one comes, the session
  created first is closed and removed, every other one stays, and the new client's is added.\<close>

theorem full_table_evicts_oldest:
  assumes "udp_inv p" "length (fu_sessions p) = 1024" "map_of (fu_sessions p) key = None"
  shows "\<exists>vk vi. (vk, vi) \<in> set (fu_sessions p) \<and>
      (\<forall>(k, j) \<in> set (fu_sessions p). created p vi \<le> created p j) \<and>
      fu_sessions (snd (commit_session key now head p)) =
        (key, fu_next p) # filter (\<lambda>e. fst e \<noteq> vk) (fu_sessions p) \<and>
      \<not> open_at (fu_heap (snd (commit_session key now head p))) vi"
  using commit_full[OF assms(1) _ assms(3)] assms(2) by (simp add: maxUDPSessions_def)

definition wit_full :: fwd_udp where
  "wit_full = (udp_new ''127.0.0.1:53'' [10, 0, 0, 5] 53)\<lparr>
     fu_sessions := map (\<lambda>n. (replicate (Suc n) (CHR ''a''), n)) [0..<1024],
     fu_heap := (\<lambda>i. if i < 1024 then Some \<lparr> us_head = [], us_closed = False, us_createdAt = int i,
                                              us_lastUsed = int i \<rparr> else None),
     fu_next := 1024, fu_sweeping := True \<rparr>"

theorem full_table_evicts_oldest_witness:
  "\<exists>vk vi. (vk, vi) \<in> set (fu_sessions wit_full) \<and>
     fu_sessions (snd (commit_session ''b'' 5 [] wit_full)) =
        (''b'', 1024) # filter (\<lambda>e. fst e \<noteq> vk) (fu_sessions wit_full)"
proof -
  have "udp_inv wit_full"
    by (auto simp: udp_inv_def wit_full_def udp_new_def maxUDPSessions_def open_at_def distinct_map
        inj_on_def comp_def image_iff)
  moreover have "length (fu_sessions wit_full) = 1024" "fu_next wit_full = 1024"
    by (simp_all add: wit_full_def)
  moreover have "map_of (fu_sessions wit_full) ''b'' = None"
    by (auto simp: wit_full_def map_of_eq_None_iff image_iff)
  ultimately show ?thesis using full_table_evicts_oldest[of wit_full "''b''" 5 "[]"] by auto
qed

end
