(* ===== verification/Forward_Mgr.thy ===== *)
theory Forward_Mgr
  imports Forward_Tcp Forward_Udp Config_Ui
begin

text \<open>
  \<open>ForwardManager\<close> of \<open>proxy/forward_mgr.go\<close>: the listeners of the forwarding rules and the built-in
  proxy entry, kept in step with the configuration without dropping the tunnel. A runner is either
  of the two listeners; the sum is again an interpretation of \<open>runner\<close>, and the manager only uses
  that interface. Whether a listener can be opened is the parameter \<open>listen\<close>. The manager iterates over
  a Go map of the wanted rules, so its order is an argument: any enumeration \<open>ws\<close> of the map.
\<close>

section \<open>Runners\<close>

datatype fwd_runner = TcpRunner fwd_tcp | UdpRunner fwd_udp

definition run_SetQuicConn :: "conn \<Rightarrow> fwd_runner \<Rightarrow> fwd_runner" where
  "run_SetQuicConn c r = (case r of TcpRunner p \<Rightarrow> TcpRunner (tcp_SetQuicConn c p)
                                  | UdpRunner p \<Rightarrow> UdpRunner (udp_SetQuicConn c p))"

definition run_ClearQuicConn :: "fwd_runner \<Rightarrow> fwd_runner" where
  "run_ClearQuicConn r = (case r of TcpRunner p \<Rightarrow> TcpRunner (tcp_ClearQuicConn p)
                                  | UdpRunner p \<Rightarrow> UdpRunner (udp_ClearQuicConn p))"

definition run_SetTarget :: "ip \<Rightarrow> u16 \<Rightarrow> fwd_runner \<Rightarrow> fwd_runner" where
  "run_SetTarget a port r = (case r of TcpRunner p \<Rightarrow> TcpRunner (tcp_SetTarget a port p)
                                     | UdpRunner p \<Rightarrow> UdpRunner (udp_SetTarget a port p))"

definition run_Close :: "fwd_runner \<Rightarrow> fwd_runner" where
  "run_Close r = (case r of TcpRunner p \<Rightarrow> TcpRunner (tcp_Close p) | UdpRunner p \<Rightarrow> UdpRunner (udp_Close p))"

definition run_quic :: "fwd_runner \<Rightarrow> conn option" where
  "run_quic r = (case r of TcpRunner p \<Rightarrow> ft_quic p | UdpRunner p \<Rightarrow> fu_quic p)"

definition run_target :: "fwd_runner \<Rightarrow> ip \<times> u16" where
  "run_target r = (case r of TcpRunner p \<Rightarrow> tcp_target p | UdpRunner p \<Rightarrow> udp_target p)"

definition run_Failed :: "fwd_runner \<Rightarrow> bool" where
  "run_Failed r = (case r of TcpRunner p \<Rightarrow> ft_failed p | UdpRunner p \<Rightarrow> fu_failed p)"

definition run_ListenAddr :: "fwd_runner \<Rightarrow> string" where
  "run_ListenAddr r = (case r of TcpRunner p \<Rightarrow> tcp_ListenAddr p | UdpRunner p \<Rightarrow> udp_ListenAddr p)"

definition run_wf :: "fwd_runner \<Rightarrow> bool" where
  "run_wf r = (case r of TcpRunner p \<Rightarrow> ft_listener p \<noteq> None | UdpRunner p \<Rightarrow> udp_inv p)"

lemmas run_defs = run_SetQuicConn_def run_ClearQuicConn_def run_SetTarget_def run_Close_def
  run_quic_def run_target_def run_Failed_def run_ListenAddr_def run_wf_def

interpretation fr: runner run_SetQuicConn run_ClearQuicConn run_SetTarget run_Close
  run_quic run_target run_Failed run_ListenAddr run_wf
  by unfold_locales
     (auto simp: run_defs udp_runner.wf_keep tcp_SetQuicConn_def tcp_ClearQuicConn_def tcp_SetTarget_def
        tcp_Close_def tcp_ListenAddr_def tcp_target_def Let_def split: fwd_runner.splits)

section \<open>Rules\<close>

definition listenKey :: "forward_rule \<Rightarrow> string" where
  "listenKey r = dec_nat (unat (fr_proto r)) @ ''|'' @ fr_listenAddr r"

datatype rule_err = RuleProto nat | RuleListen nat | RuleRemote nat | RuleRemoteIP nat | RuleRemotePort nat

definition rule_from_ui :: "nat \<Rightarrow> ui_rule \<Rightarrow> rule_err + forward_rule" where
  "rule_from_ui i r =
     (let p = to_lower (trim_space (ur_proto r)) in
      if p \<noteq> ''udp'' \<and> p \<noteq> ''tcp'' \<and> p \<noteq> [] then Inl (RuleProto (i + 1))
      else case split_host_port (ur_listen r) of
        None \<Rightarrow> Inl (RuleListen (i + 1))
      | Some (listenHost, listenPort) \<Rightarrow>
          (case split_host_port (ur_remote r) of
             None \<Rightarrow> Inl (RuleRemote (i + 1))
           | Some (remoteHost, remotePortStr) \<Rightarrow>
               (case parse_ip remoteHost of
                  None \<Rightarrow> Inl (RuleRemoteIP (i + 1))
                | Some a \<Rightarrow>
                    (case to4 a of
                       None \<Rightarrow> Inl (RuleRemoteIP (i + 1))
                     | Some ip4 \<Rightarrow>
                         (case atoi remotePortStr of
                            None \<Rightarrow> Inl (RuleRemotePort (i + 1))
                          | Some remotePort \<Rightarrow>
                              if remotePort \<le> 0 \<or> remotePort > 65535 then Inl (RuleRemotePort (i + 1))
                              else Inr \<lparr> fr_listenAddr = join_host_port listenHost listenPort,
                                         fr_remoteIP = ip4, fr_remotePort = word_of_int remotePort,
                                         fr_proto = (if p = ''udp'' then 1 else 0) \<rparr>)))))"

fun rules_from :: "nat \<Rightarrow> ui_rule list \<Rightarrow> rule_err + forward_rule list" where
  "rules_from i [] = Inr []"
| "rules_from i (r # rs) =
     bind_res (rule_from_ui i r) (\<lambda>x. bind_res (rules_from (i + 1) rs) (\<lambda>xs. Inr (x # xs)))"

definition RulesFromUI :: "ui_rule list \<Rightarrow> rule_err + forward_rule list" where
  "RulesFromUI rules = rules_from 0 rules"

definition newForwardRunner :: "(forward_rule \<Rightarrow> bool) \<Rightarrow> forward_rule \<Rightarrow> fwd_runner option" where
  "newForwardRunner listen rule =
     (if \<not> listen rule then None
      else Some (if fr_proto rule = 0x01
                 then UdpRunner (udp_new (fr_listenAddr rule) (fr_remoteIP rule) (fr_remotePort rule))
                 else TcpRunner (tcp_new (fr_listenAddr rule) (fr_remoteIP rule) (fr_remotePort rule))))"

section \<open>The manager\<close>

record fwd_entry =
  fe_key :: string
  fe_rule :: forward_rule
  fe_runner :: fwd_runner

record fwd_mgr =
  fm_entries :: "fwd_entry list"
  fm_builtin :: "fwd_runner option"
  fm_quic :: "conn option"
  fm_closed :: bool

definition NewForwardManager :: fwd_mgr where
  "NewForwardManager = \<lparr> fm_entries = [], fm_builtin = None, fm_quic = None, fm_closed = False \<rparr>"

text \<open>The map of the wanted rules: of two rules for one listener the later wins.\<close>

definition wanted_map :: "forward_rule list \<Rightarrow> string \<Rightarrow> forward_rule option" where
  "wanted_map rules = map_of (rev (map (\<lambda>r. (listenKey r, r)) rules))"

text \<open>A runner for a rule, given the tunnel there is and set serving.\<close>

definition start_runner :: "(forward_rule \<Rightarrow> bool) \<Rightarrow> conn option \<Rightarrow> forward_rule \<Rightarrow> fwd_runner option" where
  "start_runner listen q rule =
     map_option (\<lambda>r. case q of None \<Rightarrow> r | Some c \<Rightarrow> run_SetQuicConn c r) (newForwardRunner listen rule)"

text \<open>What happened to runners that are no longer in the table: they were closed.\<close>

type_synonym closed_runner = "string \<times> fwd_runner"

definition keep_entry ::
  "(forward_rule \<Rightarrow> bool) \<Rightarrow> conn option \<Rightarrow> forward_rule \<Rightarrow> fwd_entry \<Rightarrow> fwd_entry option" where
  "keep_entry listen q rule e =
     (if run_Failed (fe_runner e) then
        (case start_runner listen q rule of
           None \<Rightarrow> None
         | Some r \<Rightarrow> Some \<lparr> fe_key = fe_key e, fe_rule = rule, fe_runner = r \<rparr>)
      else if fr_remotePort (fe_rule e) \<noteq> fr_remotePort rule
          \<or> \<not> ip_equal (fr_remoteIP (fe_rule e)) (fr_remoteIP rule) then
        Some (e\<lparr> fe_runner := run_SetTarget (fr_remoteIP rule) (fr_remotePort rule) (fe_runner e),
                 fe_rule := rule \<rparr>)
      else Some e)"

fun keep_entries ::
  "(forward_rule \<Rightarrow> bool) \<Rightarrow> conn option \<Rightarrow> (string \<times> forward_rule) list \<Rightarrow> fwd_entry list
     \<Rightarrow> fwd_entry list" where
  "keep_entries listen q ws [] = []"
| "keep_entries listen q ws (e # es) =
     (case map_of ws (fe_key e) of
        None \<Rightarrow> keep_entries listen q ws es
      | Some rule \<Rightarrow>
          (case keep_entry listen q rule e of
             None \<Rightarrow> keep_entries listen q ws es
           | Some e' \<Rightarrow> e' # keep_entries listen q ws es))"

text \<open>The new listeners in the order of the iteration, up to the first that cannot be opened.\<close>

fun create_entries ::
  "(forward_rule \<Rightarrow> bool) \<Rightarrow> conn option \<Rightarrow> string list \<Rightarrow> (string \<times> forward_rule) list
     \<Rightarrow> bool \<times> fwd_entry list" where
  "create_entries listen q existing [] = (True, [])"
| "create_entries listen q existing ((key, rule) # ws) =
     (if key \<in> set existing then create_entries listen q existing ws
      else case start_runner listen q rule of
        None \<Rightarrow> (False, [])
      | Some r \<Rightarrow>
          (let (ok, es) = create_entries listen q existing ws
           in (ok, \<lparr> fe_key = key, fe_rule = rule, fe_runner = r \<rparr> # es)))"

text \<open>
  \<open>Apply\<close>: success, the runners that were closed, and the manager. A failed runner that is
  rebuilt, or not rebuilt, is closed as well.
\<close>

definition closed_of :: "fwd_entry list \<Rightarrow> closed_runner list" where
  "closed_of es = map (\<lambda>e. (fe_key e, run_Close (fe_runner e))) es"

definition Apply ::
  "(forward_rule \<Rightarrow> bool) \<Rightarrow> (string \<times> forward_rule) list \<Rightarrow> fwd_mgr
     \<Rightarrow> bool \<times> closed_runner list \<times> fwd_mgr" where
  "Apply listen ws m =
     (if fm_closed m then (True, [], m)
      else
        let unwanted = filter (\<lambda>e. map_of ws (fe_key e) = None) (fm_entries m);
            dead = filter (\<lambda>e. map_of ws (fe_key e) \<noteq> None \<and> run_Failed (fe_runner e)) (fm_entries m);
            kept = keep_entries listen (fm_quic m) ws (fm_entries m);
            (ok, created) = create_entries listen (fm_quic m) (map fe_key (fm_entries m)) ws
        in if ok then (True, closed_of (unwanted @ dead), m\<lparr> fm_entries := kept @ created \<rparr>)
           else (False, closed_of (unwanted @ dead @ created), m\<lparr> fm_entries := kept \<rparr>))"

text \<open>The built-in proxy entry: \<open>preferred\<close> says whether 127.0.0.1:1080 is free, \<open>random\<close> the port the
  system gives otherwise.\<close>

definition BuiltinProxyHost :: string where "BuiltinProxyHost = ''127.0.0.1''"

definition StartBuiltinProxy ::
  "bool \<Rightarrow> int option \<Rightarrow> fwd_mgr \<Rightarrow> (string \<times> bool) option \<times> fwd_mgr" where
  "StartBuiltinProxy preferred random m =
     (if fm_closed m then (None, m)
      else case (case fm_builtin m of
                   Some r \<Rightarrow> if run_ListenAddr r \<noteq> [] then Some (run_ListenAddr r) else None
                 | None \<Rightarrow> None) of
        Some addr \<Rightarrow>
          (let fallback = (case split_host_port addr of
                 Some (host, portStr) \<Rightarrow>
                   host = BuiltinProxyHost \<and> portStr \<noteq> go_itoa (int (unat PROXY_PORT))
               | None \<Rightarrow> False)
           in (Some (addr, fallback), m))
      | None \<Rightarrow>
          (case (if preferred then Some (int (unat PROXY_PORT), False)
                 else map_option (\<lambda>p. (p, True)) random) of
             None \<Rightarrow> (None, m)
           | Some (port, fallback) \<Rightarrow>
               (let addr = join_host_port BuiltinProxyHost (go_itoa port);
                    r = TcpRunner (tcp_new addr [127, 0, 0, 1] PROXY_PORT);
                    r' = (case fm_quic m of None \<Rightarrow> r | Some c \<Rightarrow> run_SetQuicConn c r)
                in (Some (addr, fallback), m\<lparr> fm_builtin := Some r' \<rparr>))))"

definition StopBuiltinProxy :: "fwd_mgr \<Rightarrow> closed_runner list \<times> fwd_mgr" where
  "StopBuiltinProxy m =
     (case fm_builtin m of
        None \<Rightarrow> ([], m)
      | Some r \<Rightarrow> ([([], run_Close (run_ClearQuicConn r))], m\<lparr> fm_builtin := None \<rparr>))"

definition setRunnerQuic :: "fwd_runner option \<Rightarrow> conn option \<Rightarrow> fwd_runner option" where
  "setRunnerQuic r q =
     (case r of
        None \<Rightarrow> None
      | Some x \<Rightarrow> Some (case q of None \<Rightarrow> run_ClearQuicConn x | Some c \<Rightarrow> run_SetQuicConn c x))"

definition SetQuic :: "conn option \<Rightarrow> fwd_mgr \<Rightarrow> fwd_mgr" where
  "SetQuic q m =
     (if fm_closed m then m
      else m\<lparr> fm_quic := q, fm_builtin := setRunnerQuic (fm_builtin m) q,
              fm_entries := map (\<lambda>e. e\<lparr> fe_runner := the (setRunnerQuic (Some (fe_runner e)) q) \<rparr>)
                                (fm_entries m) \<rparr>)"

definition mgr_Close :: "fwd_mgr \<Rightarrow> closed_runner list \<times> fwd_mgr" where
  "mgr_Close m =
     ((case fm_builtin m of None \<Rightarrow> [] | Some r \<Rightarrow> [([], run_Close (run_ClearQuicConn r))]) @
      map (\<lambda>e. (fe_key e, run_Close (run_ClearQuicConn (fe_runner e)))) (fm_entries m),
      m\<lparr> fm_closed := True, fm_quic := None, fm_builtin := None, fm_entries := [] \<rparr>)"

section \<open>The invariant\<close>

definition entry_ok :: "conn option \<Rightarrow> fwd_entry \<Rightarrow> bool" where
  "entry_ok q e \<longleftrightarrow>
     fe_key e = listenKey (fe_rule e) \<and> run_wf (fe_runner e) \<and> run_quic (fe_runner e) = q \<and>
     snd (run_target (fe_runner e)) = fr_remotePort (fe_rule e) \<and>
     fst (run_target (fe_runner e)) = fr_remoteIP (fe_rule e)"

definition mgr_inv :: "fwd_mgr \<Rightarrow> bool" where
  "mgr_inv m \<longleftrightarrow>
     distinct (map fe_key (fm_entries m)) \<and> list_all (entry_ok (fm_quic m)) (fm_entries m) \<and>
     (\<forall>r. fm_builtin m = Some r \<longrightarrow> run_wf r \<and> run_quic r = fm_quic m) \<and>
     (fm_closed m \<longrightarrow> fm_entries m = [] \<and> fm_builtin m = None \<and> fm_quic m = None)"

text \<open>\<open>ws\<close> enumerates the map of the wanted rules.\<close>

definition enumerates :: "(string \<times> forward_rule) list \<Rightarrow> forward_rule list \<Rightarrow> bool" where
  "enumerates ws rules \<longleftrightarrow> distinct (map fst ws) \<and> map_of ws = wanted_map rules"

lemma enumerates_key: "enumerates ws rules \<Longrightarrow> map_of ws k = Some rule \<Longrightarrow> listenKey rule = k"
proof -
  assume "enumerates ws rules" "map_of ws k = Some rule"
  then have "(k, rule) \<in> set (rev (map (\<lambda>r. (listenKey r, r)) rules))"
    using map_of_SomeD by (fastforce simp: enumerates_def wanted_map_def)
  then show ?thesis by auto
qed

lemma start_runner_ok:
  assumes "start_runner listen q rule = Some r"
  shows "listen rule \<and> run_wf r \<and> run_quic r = q \<and> run_target r = (fr_remoteIP rule, fr_remotePort rule)
    \<and> \<not> run_Failed r"
proof -
  obtain r0 where r0: "newForwardRunner listen rule = Some r0"
    "r = (case q of None \<Rightarrow> r0 | Some c \<Rightarrow> run_SetQuicConn c r0)"
    using assms by (auto simp: start_runner_def)
  have n: "listen rule" "run_wf r0" "run_quic r0 = None"
    "run_target r0 = (fr_remoteIP rule, fr_remotePort rule)" "\<not> run_Failed r0"
    using r0(1) by (auto simp: newForwardRunner_def run_defs tcp_new_def udp_new_def tcp_target_def
        udp_target_def udp_inv_def open_at_def split: if_splits)
  show ?thesis using n r0(2) fr.wf_keep(1)[OF n(2)]
    by (cases q) simp_all
qed

lemma keep_entry_ok:
  assumes "entry_ok q e" "listenKey rule = fe_key e" "keep_entry listen q rule e = Some e'"
  shows "entry_ok q e' \<and> fe_key e' = fe_key e \<and> \<not> run_Failed (fe_runner e') \<and>
    snd (run_target (fe_runner e')) = fr_remotePort rule \<and>
    ip_equal (fst (run_target (fe_runner e'))) (fr_remoteIP rule)"
proof (cases "run_Failed (fe_runner e)")
  case True
  then obtain r where r: "start_runner listen q rule = Some r"
    "e' = \<lparr> fe_key = fe_key e, fe_rule = rule, fe_runner = r \<rparr>"
    using assms(3) by (auto simp: keep_entry_def split: option.splits)
  show ?thesis using start_runner_ok[OF r(1)] assms(2) by (simp add: r(2) entry_ok_def)
next
  case False
  show ?thesis using False assms fr.wf_keep(3)[of "fe_runner e"]
    by (auto simp: keep_entry_def entry_ok_def split: if_splits)
qed

lemma keep_entry_None: "keep_entry listen q rule e = None \<Longrightarrow> run_Failed (fe_runner e) \<and> \<not> listen rule"
  by (auto simp: keep_entry_def start_runner_def newForwardRunner_def split: if_splits option.splits)

lemma keep_entry_same:
  "\<not> run_Failed (fe_runner e) \<Longrightarrow> \<exists>e'. keep_entry listen q rule e = Some e' \<and>
     (fe_runner e' = fe_runner e \<or> (\<exists>a p. fe_runner e' = run_SetTarget a p (fe_runner e)))"
  by (auto simp: keep_entry_def)

lemma set_keep_entries:
  "e' \<in> set (keep_entries listen q ws es) \<longleftrightarrow>
     (\<exists>e \<in> set es. \<exists>rule. map_of ws (fe_key e) = Some rule \<and> keep_entry listen q rule e = Some e')"
  by (induction es) (auto split: option.splits)

lemma keep_entries_keys:
  assumes "list_all (entry_ok q) es" "\<And>k rule. map_of ws k = Some rule \<Longrightarrow> listenKey rule = k"
  shows "map fe_key (keep_entries listen q ws es) =
    map fe_key (filter (\<lambda>e. \<exists>rule. map_of ws (fe_key e) = Some rule \<and> keep_entry listen q rule e \<noteq> None) es)"
  using assms(1)
proof (induction es)
  case (Cons e es)
  then have IH: "map fe_key (keep_entries listen q ws es) =
    map fe_key (filter (\<lambda>e. \<exists>rule. map_of ws (fe_key e) = Some rule \<and> keep_entry listen q rule e \<noteq> None) es)"
    by simp
  show ?case
  proof (cases "map_of ws (fe_key e)")
    case None
    then show ?thesis using IH by simp
  next
    case (Some rule)
    show ?thesis
    proof (cases "keep_entry listen q rule e")
      case None
      then show ?thesis using IH Some by simp
    next
      case e': (Some e')
      have "fe_key e' = fe_key e"
        using keep_entry_ok[OF _ assms(2)[OF Some] e'] Cons.prems by simp
      then show ?thesis using IH Some e' by simp
    qed
  qed
qed simp

lemma create_entries_spec:
  assumes "create_entries listen q existing ws = (ok, es)" "distinct (map fst ws)"
    and "\<And>k rule. (k, rule) \<in> set ws \<Longrightarrow> listenKey rule = k"
  shows "distinct (map fe_key es) \<and> fe_key ` set es \<inter> set existing = {} \<and> fe_key ` set es \<subseteq> fst ` set ws \<and>
    (\<forall>e \<in> set es. entry_ok q e \<and> (fe_key e, fe_rule e) \<in> set ws \<and> \<not> run_Failed (fe_runner e)
       \<and> run_target (fe_runner e) = (fr_remoteIP (fe_rule e), fr_remotePort (fe_rule e))) \<and>
    (ok \<longrightarrow> (\<forall>k \<in> fst ` set ws. k \<notin> set existing \<longrightarrow> k \<in> fe_key ` set es))"
  using assms
proof (induction ws arbitrary: ok es)
  case (Cons w ws)
  obtain key rule where w: "w = (key, rule)" by (cases w)
  have prem: "distinct (map fst ws)" "\<And>k rule. (k, rule) \<in> set ws \<Longrightarrow> listenKey rule = k"
    "key \<notin> fst ` set ws" "listenKey rule = key"
    using Cons.prems w by auto
  show ?case
  proof (cases "key \<in> set existing")
    case True
    with Cons.prems(1) have "create_entries listen q existing ws = (ok, es)" by (simp add: w)
    from Cons.IH[OF this prem(1,2)] True show ?thesis by (auto simp: w)
  next
    case False
    show ?thesis
    proof (cases "start_runner listen q rule")
      case None
      then show ?thesis using False Cons.prems(1) by (auto simp: w)
    next
      case (Some r)
      obtain es' where es': "create_entries listen q existing ws = (ok, es')"
        "es = \<lparr> fe_key = key, fe_rule = rule, fe_runner = r \<rparr> # es'"
        using Cons.prems(1) False Some by (auto simp: w split: prod.splits)
      let ?e = "\<lparr> fe_key = key, fe_rule = rule, fe_runner = r \<rparr>"
      note IH = Cons.IH[OF es'(1) prem(1,2)]
      note IH1 = IH[THEN conjunct1] and IH2 = IH[THEN conjunct2, THEN conjunct1]
        and IH3 = IH[THEN conjunct2, THEN conjunct2, THEN conjunct1]
        and IH4 = IH[THEN conjunct2, THEN conjunct2, THEN conjunct2, THEN conjunct1]
        and IH5 = IH[THEN conjunct2, THEN conjunct2, THEN conjunct2, THEN conjunct2]
      have e: "entry_ok q ?e" "\<not> run_Failed r" "run_target r = (fr_remoteIP rule, fr_remotePort rule)"
        using start_runner_ok[OF Some] prem(4) by (simp_all add: entry_ok_def)
      have k: "key \<notin> fe_key ` set es'" using IH3 prem(3) by blast
      have c: "\<forall>x \<in> set es. entry_ok q x \<and> (fe_key x, fe_rule x) \<in> set (w # ws) \<and> \<not> run_Failed (fe_runner x)
          \<and> run_target (fe_runner x) = (fr_remoteIP (fe_rule x), fr_remotePort (fe_rule x))"
        using IH4 e by (simp add: es'(2) w)
      have o: "ok \<longrightarrow> (\<forall>k \<in> fst ` set (w # ws). k \<notin> set existing \<longrightarrow> k \<in> fe_key ` set es)"
        using IH5 by (simp add: es'(2) w)
      have "distinct (map fe_key es)" "fe_key ` set es \<inter> set existing = {}"
        "fe_key ` set es \<subseteq> fst ` set (w # ws)"
        using IH1 IH2 IH3 k False by (auto simp: es'(2) w)
      with c o show ?thesis by blast
    qed
  qed
qed auto

lemma Apply_spec:
  assumes "mgr_inv m" "\<not> fm_closed m" "enumerates ws rules" "Apply listen ws m = (ok, closed, m')"
  shows "mgr_inv m' \<and> fm_quic m' = fm_quic m \<and> fm_builtin m' = fm_builtin m \<and>
    (\<forall>e \<in> set (fm_entries m'). \<exists>rule. wanted_map rules (fe_key e) = Some rule \<and> \<not> run_Failed (fe_runner e) \<and>
       snd (run_target (fe_runner e)) = fr_remotePort rule \<and>
       ip_equal (fst (run_target (fe_runner e))) (fr_remoteIP rule)) \<and>
    (ok \<longrightarrow> (\<forall>k rule. wanted_map rules k = Some rule \<and> listen rule \<longrightarrow> k \<in> fe_key ` set (fm_entries m'))) \<and>
    (\<not> ok \<longrightarrow> fe_key ` set (fm_entries m') \<subseteq> fe_key ` set (fm_entries m)) \<and>
    (\<forall>e \<in> set (fm_entries m). \<not> run_Failed (fe_runner e) \<and> wanted_map rules (fe_key e) \<noteq> None \<longrightarrow>
       (\<exists>e' \<in> set (fm_entries m'). fe_key e' = fe_key e \<and>
          (fe_runner e' = fe_runner e \<or> (\<exists>a p. fe_runner e' = run_SetTarget a p (fe_runner e)))))"
proof -
  let ?es = "fm_entries m" and ?q = "fm_quic m"
  have lk: "listenKey rule = k" if "map_of ws k = Some rule" for k rule
    using enumerates_key[OF assms(3) that] .
  have dw: "distinct (map fst ws)" and mw: "map_of ws = wanted_map rules"
    using assms(3) by (simp_all add: enumerates_def)
  have lk': "listenKey rule = k" if "(k, rule) \<in> set ws" for k rule
    using lk dw that by simp
  obtain ok' created where cr': "create_entries listen ?q (map fe_key ?es) ws = (ok', created)"
    by (metis surj_pair)
  have ok': "ok' = ok"
    and m': "m' = m\<lparr> fm_entries := keep_entries listen ?q ws ?es @ (if ok then created else []) \<rparr>"
    using assms(2,4) by (simp_all add: Apply_def Let_def cr' split: if_splits)
  note cr = cr'[unfolded ok']
  let ?kept = "keep_entries listen ?q ws ?es"
  note C = create_entries_spec[OF cr dw lk']
  have d: "distinct (map fe_key ?es)" and ok: "list_all (entry_ok ?q) ?es"
    using assms(1) by (simp_all add: mgr_inv_def)
  have kk: "map fe_key ?kept = map fe_key (filter (\<lambda>e. \<exists>rule. map_of ws (fe_key e) = Some rule \<and>
      keep_entry listen ?q rule e \<noteq> None) ?es)"
    using keep_entries_keys[OF ok lk] .
  have dk: "distinct (map fe_key ?kept)" unfolding kk using d by (rule distinct_map_filter)
  have "set (map fe_key ?kept) \<subseteq> set (map fe_key ?es)" unfolding kk by auto
  then have sub: "fe_key ` set ?kept \<subseteq> fe_key ` set ?es" by simp
  have kok: "entry_ok ?q e' \<and> (\<exists>rule. map_of ws (fe_key e') = Some rule \<and> \<not> run_Failed (fe_runner e') \<and>
      snd (run_target (fe_runner e')) = fr_remotePort rule \<and>
      ip_equal (fst (run_target (fe_runner e'))) (fr_remoteIP rule))" if e': "e' \<in> set ?kept" for e'
  proof -
    obtain e rule where e: "e \<in> set ?es" "map_of ws (fe_key e) = Some rule" "keep_entry listen ?q rule e = Some e'"
      using e' by (auto simp: set_keep_entries)
    have "entry_ok ?q e" using ok e(1) by (simp add: list_all_iff)
    from keep_entry_ok[OF this lk[OF e(2)] e(3)] e(2) show ?thesis by auto
  qed
  have cok: "entry_ok ?q e \<and> (\<exists>rule. map_of ws (fe_key e) = Some rule \<and> \<not> run_Failed (fe_runner e) \<and>
      snd (run_target (fe_runner e)) = fr_remotePort rule \<and>
      ip_equal (fst (run_target (fe_runner e))) (fr_remoteIP rule))" if "e \<in> set created" for e
    using C that dw by auto
  have all: "entry_ok ?q e \<and> (\<exists>rule. wanted_map rules (fe_key e) = Some rule \<and> \<not> run_Failed (fe_runner e) \<and>
      snd (run_target (fe_runner e)) = fr_remotePort rule \<and>
      ip_equal (fst (run_target (fe_runner e))) (fr_remoteIP rule))" if "e \<in> set (fm_entries m')" for e
    using that kok[of e] cok[of e] by (auto simp: m' mw split: if_splits)
  have inv: "mgr_inv m'"
    using assms(1,2) all dk sub C by (auto simp: mgr_inv_def m' list_all_iff) blast
  have complete: "k \<in> fe_key ` set (fm_entries m')"
    if a: "ok" "wanted_map rules k = Some rule" "listen rule" for k rule
  proof (cases "k \<in> fe_key ` set ?es")
    case True
    then obtain e where e: "e \<in> set ?es" "fe_key e = k" by auto
    have w: "map_of ws (fe_key e) = Some rule" using a(2) e(2) mw by simp
    obtain e' where e': "keep_entry listen ?q rule e = Some e'"
      using keep_entry_None[of listen ?q rule e] a(3) by fastforce
    have "entry_ok ?q e" using ok e(1) by (simp add: list_all_iff)
    then have "fe_key e' = k" using keep_entry_ok[OF _ lk[OF w] e'] e(2) by simp
    moreover have "e' \<in> set ?kept" using e(1) w e' by (auto simp: set_keep_entries)
    ultimately show ?thesis by (auto simp: m')
  next
    case False
    then have "k \<in> fe_key ` set created" using C a(1,2) mw map_of_SomeD[of ws k rule] by force
    then show ?thesis using a(1) by (auto simp: m')
  qed
  have survive: "\<exists>e' \<in> set (fm_entries m'). fe_key e' = fe_key e \<and>
      (fe_runner e' = fe_runner e \<or> (\<exists>a p. fe_runner e' = run_SetTarget a p (fe_runner e)))"
    if e: "e \<in> set ?es" "\<not> run_Failed (fe_runner e)" "wanted_map rules (fe_key e) \<noteq> None" for e
  proof -
    obtain rule where w: "map_of ws (fe_key e) = Some rule" using e(3) mw by auto
    obtain e' where e': "keep_entry listen ?q rule e = Some e'"
      "fe_runner e' = fe_runner e \<or> (\<exists>a p. fe_runner e' = run_SetTarget a p (fe_runner e))"
      using keep_entry_same[OF e(2)] by blast
    have "entry_ok ?q e" using ok e(1) by (simp add: list_all_iff)
    then have "fe_key e' = fe_key e" using keep_entry_ok[OF _ lk[OF w] e'(1)] by simp
    moreover have "e' \<in> set ?kept" using e(1) w e'(1) by (auto simp: set_keep_entries)
    ultimately show ?thesis using e'(2) by (auto simp: m')
  qed
  have "fe_key ` set (fm_entries m') \<subseteq> fe_key ` set ?es" if "\<not> ok" using that sub by (auto simp: m')
  then show ?thesis using inv all complete survive by (auto simp: m')
qed

section \<open>All histories\<close>

text \<open>
  A step of the manager, or of one of its runners on its own, which may move, fail or stop but
  never changes its tunnel or target.
\<close>

inductive mgr_step :: "fwd_mgr \<Rightarrow> fwd_mgr \<Rightarrow> bool" where
  do_apply: "enumerates ws rules \<Longrightarrow> Apply listen ws m = (ok, closed, m') \<Longrightarrow> mgr_step m m'"
| start_builtin: "StartBuiltinProxy preferred random m = (r, m') \<Longrightarrow> mgr_step m m'"
| stop_builtin: "mgr_step m (snd (StopBuiltinProxy m))"
| set_quic: "mgr_step m (SetQuic q m)"
| close: "mgr_step m (snd (mgr_Close m))"
| progress: "fm_entries m = xs @ e # ys \<Longrightarrow> run_quic r' = run_quic (fe_runner e) \<Longrightarrow>
    run_target r' = run_target (fe_runner e) \<Longrightarrow> run_wf r' \<Longrightarrow>
    mgr_step m (m\<lparr> fm_entries := xs @ e\<lparr> fe_runner := r' \<rparr> # ys \<rparr>)"

inductive_cases mgr_stepE: "mgr_step m m'"

inductive mgr_reachable :: "fwd_mgr \<Rightarrow> bool" where
  new: "mgr_reachable NewForwardManager"
| step: "mgr_reachable m \<Longrightarrow> mgr_step m m' \<Longrightarrow> mgr_reachable m'"

lemma Apply_inv:
  assumes "mgr_inv m" "enumerates ws rules" "Apply listen ws m = (ok, closed, m')"
  shows "mgr_inv m'"
proof (cases "fm_closed m")
  case True
  then show ?thesis using assms by (simp add: Apply_def)
next
  case False
  then show ?thesis using Apply_spec[OF assms(1) False assms(2,3)] by blast
qed

lemma StartBuiltinProxy_inv:
  assumes "mgr_inv m"
  shows "mgr_inv (snd (StartBuiltinProxy preferred random m))"
proof -
  have w: "run_wf (TcpRunner (tcp_new a i p))" "run_quic (TcpRunner (tcp_new a i p)) = None" for a i p
    by (simp_all add: run_defs tcp_new_def)
  have q: "run_wf (case q of None \<Rightarrow> TcpRunner (tcp_new a i p) | Some c \<Rightarrow> run_SetQuicConn c (TcpRunner (tcp_new a i p)))
      \<and> run_quic (case q of None \<Rightarrow> TcpRunner (tcp_new a i p) | Some c \<Rightarrow> run_SetQuicConn c (TcpRunner (tcp_new a i p))) = q"
    for q a i p
    using w fr.wf_keep(1)[OF w(1)] by (simp split: option.split)
  show ?thesis
  proof (cases "snd (StartBuiltinProxy preferred random m) = m")
    case True
    then show ?thesis using assms by (simp only:)
  next
    case False
    then have nc: "\<not> fm_closed m" by (auto simp: StartBuiltinProxy_def)
    from False obtain addr where "snd (StartBuiltinProxy preferred random m) = m\<lparr> fm_builtin := Some
        (case fm_quic m of None \<Rightarrow> TcpRunner (tcp_new addr [127, 0, 0, 1] PROXY_PORT)
         | Some c \<Rightarrow> run_SetQuicConn c (TcpRunner (tcp_new addr [127, 0, 0, 1] PROXY_PORT))) \<rparr>"
      by (auto simp: StartBuiltinProxy_def Let_def case_prod_unfold split: option.splits if_splits)
    then show ?thesis using assms nc q[where q = "fm_quic m" and a = addr and i = "[127, 0, 0, 1]" and p = PROXY_PORT]
      by (simp add: mgr_inv_def)
  qed
qed

lemma SetQuic_inv: "mgr_inv m \<Longrightarrow> mgr_inv (SetQuic q m)"
proof -
  assume m: "mgr_inv m"
  have s: "(case q of None \<Rightarrow> run_ClearQuicConn x | Some c \<Rightarrow> run_SetQuicConn c x) = fr.set_conn q x" for x
    by (simp add: fr.set_conn_def)
  have e: "entry_ok q (e\<lparr> fe_runner := fr.set_conn q (fe_runner e) \<rparr>)" if "entry_ok q' e" for e q'
    using that by (auto simp: entry_ok_def fr.set_conn_wf)
  show ?thesis using m
    by (auto simp: mgr_inv_def SetQuic_def setRunnerQuic_def s e list_all_iff comp_def fr.set_conn_wf
        split: option.splits)
qed

lemma mgr_step_inv: "mgr_step m m' \<Longrightarrow> mgr_inv m \<Longrightarrow> mgr_inv m'"
proof (induction rule: mgr_step.induct)
  case (start_builtin preferred random m r m')
  then show ?case using StartBuiltinProxy_inv[of m preferred random] by simp
next
  case (progress m xs e ys r')
  then show ?case by (auto simp: mgr_inv_def entry_ok_def)
qed (auto simp: Apply_inv SetQuic_inv, auto simp: mgr_inv_def StopBuiltinProxy_def mgr_Close_def split: option.splits)

lemma mgr_reachable_inv: "mgr_reachable m \<Longrightarrow> mgr_inv m"
  by (induction rule: mgr_reachable.induct)
     (auto simp: mgr_step_inv, simp add: mgr_inv_def NewForwardManager_def)

section \<open>Properties\<close>

text \<open>C9 A successful hot update makes the listeners follow the rules: afterwards every listener is alive
  and belongs to a wanted rule with that rule's target, every wanted rule whose address can be opened
  has one, and a listener that was alive and still wanted is the same one as before, at most with a
  new target, so its connections are not cut.\<close>

theorem apply_follows_rules:
  assumes "mgr_reachable m" "\<not> fm_closed m" "enumerates ws rules" "Apply listen ws m = (True, closed, m')"
  shows "mgr_inv m' \<and>
    (\<forall>e \<in> set (fm_entries m'). \<exists>rule. wanted_map rules (fe_key e) = Some rule \<and> \<not> run_Failed (fe_runner e) \<and>
       snd (run_target (fe_runner e)) = fr_remotePort rule \<and>
       ip_equal (fst (run_target (fe_runner e))) (fr_remoteIP rule)) \<and>
    (\<forall>k rule. wanted_map rules k = Some rule \<and> listen rule \<longrightarrow> k \<in> fe_key ` set (fm_entries m')) \<and>
    (\<forall>e \<in> set (fm_entries m). \<not> run_Failed (fe_runner e) \<and> wanted_map rules (fe_key e) \<noteq> None \<longrightarrow>
       (\<exists>e' \<in> set (fm_entries m'). fe_key e' = fe_key e \<and>
          (fe_runner e' = fe_runner e \<or> (\<exists>a p. fe_runner e' = run_SetTarget a p (fe_runner e)))))"
  using Apply_spec[OF mgr_reachable_inv[OF assms(1)] assms(2-4)] by simp

definition wit_rule :: forward_rule where
  "wit_rule = \<lparr> fr_listenAddr = ''127.0.0.1:80'', fr_remoteIP = [10, 0, 0, 5], fr_remotePort = 80, fr_proto = 0 \<rparr>"

lemma wit_enumerates: "enumerates [(listenKey wit_rule, wit_rule)] [wit_rule]"
  by (simp add: enumerates_def wanted_map_def)

theorem apply_follows_rules_witness:
  "listenKey wit_rule \<in> fe_key ` set (fm_entries (snd (snd
     (Apply (\<lambda>_. True) [(listenKey wit_rule, wit_rule)] NewForwardManager))))"
proof -
  obtain closed m' where a: "Apply (\<lambda>_. True) [(listenKey wit_rule, wit_rule)] NewForwardManager
      = (True, closed, m')"
    by (simp add: Apply_def NewForwardManager_def start_runner_def newForwardRunner_def)
  have "\<not> fm_closed NewForwardManager" by (simp add: NewForwardManager_def)
  from apply_follows_rules[OF mgr_reachable.new this wit_enumerates a]
  show ?thesis unfolding a by (simp add: wanted_map_def)
qed



text \<open>C4 In every history every listener and the built-in entry use exactly the current tunnel, listeners
  are distinct, and a closed manager holds none: no later call revives it.\<close>

theorem manager_invariant:
  assumes "mgr_reachable m"
  shows "distinct (map fe_key (fm_entries m)) \<and>
    (\<forall>e \<in> set (fm_entries m). run_quic (fe_runner e) = fm_quic m \<and> fe_key e = listenKey (fe_rule e)) \<and>
    (\<forall>r. fm_builtin m = Some r \<longrightarrow> run_quic r = fm_quic m) \<and>
    (fm_closed m \<longrightarrow> fm_entries m = [] \<and> fm_builtin m = None \<and> fm_quic m = None \<and>
       (\<forall>listen ws. Apply listen ws m = (True, [], m)) \<and> (\<forall>q. SetQuic q m = m) \<and>
       (\<forall>a b. StartBuiltinProxy a b m = (None, m)))"
  using mgr_reachable_inv[OF assms]
  by (auto simp: mgr_inv_def list_all_iff entry_ok_def Apply_def SetQuic_def StartBuiltinProxy_def)

theorem manager_invariant_witness:
  "fm_entries (snd (mgr_Close NewForwardManager)) = [] \<and> fm_quic (snd (mgr_Close NewForwardManager)) = None"
proof -
  have "mgr_reachable (snd (mgr_Close NewForwardManager))"
    using mgr_reachable.new mgr_step.close by (rule mgr_reachable.step)
  moreover have "fm_closed (snd (mgr_Close NewForwardManager))" by (simp add: mgr_Close_def)
  ultimately show ?thesis using manager_invariant by blast
qed

end
