(* ===== verification/Udp_Batch.thy ===== *)
theory Udp_Batch
  imports Go_Prelude
begin

text \<open>
  Batched sending of UDP datagrams, \<open>udpbatch\<close>: the three implementations of \<open>Writer\<close> (one call per
  message, \<open>sendmmsg\<close> on Linux, UDP segmentation offload on Windows) with the grouping that
  offload needs. The socket is a script of outcomes and a log of the datagrams that went out: a
  datagram write is all or nothing, a \<open>sendmmsg\<close> sends a prefix of its messages, an offloaded
  write sends the first bytes cut into segments. The locale \<open>batch_writer\<close> is the contract of
  \<open>Writer\<close>; all three are interpretations.
\<close>

section \<open>Messages and the socket\<close>

text \<open>\<open>netip.AddrPort\<close>: an IPv4, an IPv4-mapped or another IPv6 address (these with a zone), and a port.\<close>

datatype net_addr = V4 bytes u16 | V4In6 bytes string u16 | V6 bytes string u16

record message =
  mg_buf :: bytes
  mg_addr :: net_addr

datatype write_err = ErrShortWrite | ErrClosed | ErrNetDown | ErrNoUSO | ErrOther nat

record net =
  nt_script :: "(nat \<times> write_err option) list"
  nt_log :: "message list"

text \<open>The outcome of the next call: how much was taken, and the error; with an empty script everything is.\<close>

definition next_outcome :: "nat \<Rightarrow> net \<Rightarrow> (nat \<times> write_err option) \<times> net" where
  "next_outcome all w =
     (case nt_script w of
        [] \<Rightarrow> ((all, None), w)
      | (k, e) # s \<Rightarrow> ((min k all, e), w\<lparr> nt_script := s \<rparr>))"

definition writeMsg :: "net \<Rightarrow> message \<Rightarrow> write_err option \<times> net" where
  "writeMsg w m =
     (let ((n, err), w') = next_outcome (length (mg_buf m)) w in
      if err \<noteq> None then (err, w')
      else if n \<noteq> length (mg_buf m) then (Some ErrShortWrite, w')
      else (None, w'\<lparr> nt_log := nt_log w' @ [m] \<rparr>))"

fun writeEach :: "net \<Rightarrow> message list \<Rightarrow> (nat \<times> write_err option) \<times> net" where
  "writeEach w [] = ((0, None), w)"
| "writeEach w (m # ms) =
     (case writeMsg w m of
        (Some e, w') \<Rightarrow> ((0, Some e), w')
      | (None, w') \<Rightarrow> (let ((n, err), w'') = writeEach w' ms in ((Suc n, err), w'')))"

definition generic_WriteBatch :: "net \<Rightarrow> message list \<Rightarrow> (nat \<times> write_err option) \<times> net" where
  "generic_WriteBatch w msgs = writeEach w msgs"

section \<open>Linux\<close>

definition sendmmsg :: "net \<Rightarrow> message list \<Rightarrow> (nat \<times> write_err option) \<times> net" where
  "sendmmsg w msgs =
     (let ((n, err), w') = next_outcome (length msgs) w
      in ((n, err), w'\<lparr> nt_log := nt_log w' @ take n msgs \<rparr>))"

function writeSameFamily :: "net \<Rightarrow> message list \<Rightarrow> (nat \<times> write_err option) \<times> net" where
  "writeSameFamily w msgs =
     (if msgs = [] then ((0, None), w)
      else let ((n, err), w') = sendmmsg w msgs in
        if err \<noteq> None then ((n, err), w')
        else if n = 0 then ((0, Some ErrShortWrite), w')
        else let ((k, err'), w'') = writeSameFamily w' (drop n msgs) in ((n + k, err'), w''))"
  by pat_completeness auto
termination
  by (relation "measure (\<lambda>(w, msgs). length msgs)") auto

declare writeSameFamily.simps [simp del]

text \<open>Whether an address can go to the \<open>sendmmsg\<close> path of a socket of this family.\<close>

definition socketFamilyOK :: "bool \<Rightarrow> net_addr \<Rightarrow> bool" where
  "socketFamilyOK ipv4Socket a =
     (case a of V4 _ _ \<Rightarrow> ipv4Socket | V4In6 _ _ _ \<Rightarrow> False | V6 _ _ _ \<Rightarrow> \<not> ipv4Socket)"

function linux_WriteBatch :: "bool \<Rightarrow> net \<Rightarrow> message list \<Rightarrow> (nat \<times> write_err option) \<times> net" where
  "linux_WriteBatch v4 w [] = ((0, None), w)"
| "linux_WriteBatch v4 w (m # ms) =
     (if \<not> socketFamilyOK v4 (mg_addr m) then
        (case writeMsg w m of
           (Some e, w') \<Rightarrow> ((0, Some e), w')
         | (None, w') \<Rightarrow> (let ((k, err), w'') = linux_WriteBatch v4 w' ms in ((Suc k, err), w'')))
      else
        let run = m # takeWhile (\<lambda>x. socketFamilyOK v4 (mg_addr x)) ms;
            ((n, err), w') = writeSameFamily w run in
        if err \<noteq> None then ((n, err), w')
        else if n = 0 then ((0, Some ErrShortWrite), w')
        else let ((k, err'), w'') = linux_WriteBatch v4 w' (drop n (m # ms)) in ((n + k, err'), w''))"
  by pat_completeness auto
termination
  by (relation "measure (\<lambda>(v4, w, msgs). length msgs)") auto

declare linux_WriteBatch.simps(2) [simp del]

section \<open>Windows\<close>

definition maxCoalescedPayload :: nat where "maxCoalescedPayload = 65000"

text \<open>The loop of \<open>groupRun\<close> over the messages after the first.\<close>

fun group_more :: "nat \<Rightarrow> net_addr \<Rightarrow> nat \<Rightarrow> nat \<Rightarrow> nat \<Rightarrow> message list \<Rightarrow> nat \<times> nat" where
  "group_more seg addr maxPayload count tot [] = (count, tot)"
| "group_more seg addr maxPayload count tot (m # ms) =
     (let n = length (mg_buf m) in
      if mg_addr m \<noteq> addr \<or> n = 0 \<or> n > seg \<or> tot + n > maxPayload then (count, tot)
      else if n < seg then (Suc count, tot + n)
      else group_more seg addr maxPayload (Suc count) (tot + n) ms)"

definition groupRun :: "message list \<Rightarrow> nat \<Rightarrow> nat \<times> nat" where
  "groupRun msgs maxPayload =
     (case msgs of
        [] \<Rightarrow> (0, 0)
      | m # ms \<Rightarrow>
          (let seg = length (mg_buf m) in
           if seg = 0 \<or> seg > maxPayload then (1, seg)
           else group_more seg (mg_addr m) maxPayload 1 seg ms))"

definition usoGroupOK :: "message list \<Rightarrow> bool" where
  "usoGroupOK msgs =
     (if length msgs < 2 then False
      else let seg = length (mg_buf (hd msgs)) in
        seg > 0 \<and> list_all (\<lambda>m. length (mg_buf m) = seg) (butlast msgs) \<and>
        length (mg_buf (last msgs)) > 0 \<and> length (mg_buf (last msgs)) \<le> seg)"

definition coveredCount :: "int \<Rightarrow> int \<Rightarrow> int \<Rightarrow> int" where
  "coveredCount n seg count =
     (if seg \<le> 0 \<or> n \<le> 0 then 0
      else let done = n div seg; done' = (if n mod seg \<noteq> 0 then done + 1 else done)
           in if done' > count then count else done')"

text \<open>What the network sees of an offloaded write: segments of \<open>seg\<close> bytes, the last one shorter.\<close>

function segments :: "nat \<Rightarrow> bytes \<Rightarrow> bytes list" where
  "segments seg bs = (if bs = [] \<or> seg = 0 then [] else take seg bs # segments seg (drop seg bs))"
  by pat_completeness auto
termination
  by (relation "measure (\<lambda>(seg, bs). length bs)") auto

declare segments.simps [simp del]

text \<open>\<open>writeUSO\<close>; the first component is whether offload stays in use.\<close>

definition writeUSO ::
  "bool \<Rightarrow> net \<Rightarrow> message list \<Rightarrow> nat \<Rightarrow> bool \<times> (nat \<times> write_err option) \<times> net" where
  "writeUSO uso w msgs tot =
     (if \<not> usoGroupOK msgs then (uso, writeEach w msgs)
      else
        let seg = length (mg_buf (hd msgs));
            buf = concat (map mg_buf msgs);
            ((n, err), w0) = next_outcome tot w;
            w1 = w0\<lparr> nt_log := nt_log w0 @
                   map (\<lambda>b. \<lparr> mg_buf = b, mg_addr = mg_addr (hd msgs) \<rparr>) (segments seg (take n buf)) \<rparr>;
            uso' = (uso \<and> err \<noteq> Some ErrNoUSO) in
        if n = 0 then (uso', writeEach w1 msgs)
        else if n \<ge> tot then (uso', (length msgs, None), w1)
        else
          let done = nat (coveredCount (int n) (int seg) (int (length msgs))) in
          if done \<ge> length msgs then (uso', (length msgs, None), w1)
          else let ((tail, werr), w2) = writeEach w1 (drop done msgs)
               in (uso', (done + tail, werr), w2))"

text \<open>The writer's state is whether it offloads, and the socket.\<close>

function windows_WriteBatch ::
  "bool \<times> net \<Rightarrow> message list \<Rightarrow> (nat \<times> write_err option) \<times> (bool \<times> net)" where
  "windows_WriteBatch (uso, w) msgs =
     (if msgs = [] then ((0, None), (uso, w))
      else
        let (count, tot) = groupRun msgs maxCoalescedPayload;
            (uso', (n, err), w') =
              (if count < 2 \<or> \<not> uso then (uso, writeEach w (take 1 msgs))
               else writeUSO uso w (take count msgs) tot) in
        if err \<noteq> None then ((n, err), (uso', w'))
        else if n = 0 then ((0, Some ErrShortWrite), (uso', w'))
        else let ((k, err'), s) = windows_WriteBatch (uso', w') (drop n msgs) in ((n + k, err'), s))"
  by pat_completeness auto
termination
  by (relation "measure (\<lambda>(s, msgs). length msgs)") auto

declare windows_WriteBatch.simps [simp del]

section \<open>The contract\<close>

text \<open>A datagram that went out for a message: the same address, and the message's bytes or a prefix
  of them.\<close>

definition cut_of :: "message \<Rightarrow> message \<Rightarrow> bool" where
  "cut_of d m \<longleftrightarrow> mg_addr d = mg_addr m \<and> prefix (mg_buf d) (mg_buf m)"

lemma cut_of_refl [simp]: "cut_of m m"
  by (simp add: cut_of_def)

lemma list_all2_cut_refl [simp]: "list_all2 cut_of ms ms"
  by (simp add: list_all2_refl)

text \<open>
  \<open>Writer\<close>: the count never exceeds the batch, no error means all of it, and exactly the counted
  messages went out, once each and in order.
\<close>

definition batch_ok ::
  "('w \<Rightarrow> message list) \<Rightarrow> 'w \<Rightarrow> message list \<Rightarrow> (nat \<times> write_err option) \<times> 'w \<Rightarrow> bool" where
  "batch_ok lg w ms r \<longleftrightarrow>
     (let ((n, err), w') = r in
      n \<le> length ms \<and> (err = None \<longrightarrow> n = length ms) \<and>
      (\<exists>ds. lg w' = lg w @ ds \<and> list_all2 cut_of ds (take n ms)))"

lemma batch_okI [intro?]:
  assumes "n \<le> length ms" and "err = None \<Longrightarrow> n = length ms"
    and "lg w' = lg w @ ds" and "list_all2 cut_of ds (take n ms)"
  shows "batch_ok lg w ms ((n, err), w')"
  using assms by (auto simp: batch_ok_def)

lemma batch_okE:
  assumes "batch_ok lg w ms ((n, err), w')"
  obtains ds where "n \<le> length ms" and "err = None \<longrightarrow> n = length ms"
    and "lg w' = lg w @ ds" and "list_all2 cut_of ds (take n ms)"
  using assms by (auto simp: batch_ok_def)

lemma batch_ok_empty [simp]: "batch_ok lg w [] ((0, None), w)"
  by (simp add: batch_ok_def)

lemma batch_ok_none [simp]: "batch_ok lg w ms ((0, Some e), w') \<longleftrightarrow> lg w' = lg w"
  by (simp add: batch_ok_def)

text \<open>What went out for the first messages, then the contract for the rest.\<close>

lemma batch_ok_append:
  assumes "n \<le> length ms" and "lg w1 = lg w @ ds" and "list_all2 cut_of ds (take n ms)"
    and "batch_ok lg w1 (drop n ms) ((k, err), w2)"
  shows "batch_ok lg w ms ((n + k, err), w2)"
proof -
  obtain ds' where k: "k \<le> length (drop n ms)" "err = None \<longrightarrow> k = length (drop n ms)"
    and w2: "lg w2 = lg w1 @ ds'" "list_all2 cut_of ds' (take k (drop n ms))"
    by (rule batch_okE [OF assms(4)])
  have "list_all2 cut_of (ds @ ds') (take (n + k) ms)"
    using list_all2_appendI [OF assms(3) w2(2)] by (simp add: take_add)
  then show ?thesis
    using assms(1,2) k w2(1) by (intro batch_okI [where ds = "ds @ ds'"]) auto
qed

locale batch_writer =
  fixes wb :: "'w \<Rightarrow> message list \<Rightarrow> (nat \<times> write_err option) \<times> 'w"
    and lg :: "'w \<Rightarrow> message list"
  assumes contract: "batch_ok lg w ms (wb w ms)"

section \<open>One call per message\<close>

lemma next_outcome_bounds:
  "next_outcome a w = ((n, err), w') \<Longrightarrow> n \<le> a \<and> nt_log w' = nt_log w"
  by (auto simp: next_outcome_def split: list.splits prod.splits)

lemma writeMsg_None:
  "writeMsg w m = (None, w') \<Longrightarrow> nt_log w' = nt_log w @ [m]"
  by (auto simp: writeMsg_def dest: next_outcome_bounds split: prod.splits if_splits)

lemma writeMsg_Some:
  "writeMsg w m = (Some e, w') \<Longrightarrow> nt_log w' = nt_log w"
  by (auto simp: writeMsg_def dest: next_outcome_bounds split: prod.splits if_splits)

lemma writeEach_ok: "batch_ok nt_log w ms (writeEach w ms)"
proof (induction w ms rule: writeEach.induct)
  case (2 w m ms)
  show ?case
  proof (cases "writeMsg w m")
    case (Pair e w1)
    show ?thesis
    proof (cases e)
      case None
      obtain k err w2 where r: "writeEach w1 ms = ((k, err), w2)"
        by (metis prod.exhaust)
      have "batch_ok nt_log w (m # ms) ((1 + k, err), w2)"
        by (rule batch_ok_append [where ds = "[m]" and ?w1.0 = w1])
          (use 2 Pair None r writeMsg_None in auto)
      with Pair None r show ?thesis by simp
    qed (use Pair writeMsg_Some in auto)
  qed
qed simp

interpretation generic_writer: batch_writer generic_WriteBatch nt_log
  by unfold_locales (simp add: generic_WriteBatch_def writeEach_ok)

section \<open>Linux: the contract\<close>

lemma sendmmsg_sent:
  assumes "sendmmsg w ms = ((n, err), w')"
  shows "n \<le> length ms \<and> nt_log w' = nt_log w @ take n ms"
  using assms next_outcome_bounds by (fastforce simp: sendmmsg_def split: prod.splits)

lemma writeSameFamily_ok: "batch_ok nt_log w ms (writeSameFamily w ms)"
proof (induction w ms rule: writeSameFamily.induct)
  case (1 w ms)
  show ?case
  proof (cases "ms = []")
    case False
    obtain n err w1 where s: "sendmmsg w ms = ((n, err), w1)" by (metis prod.exhaust)
    note b = sendmmsg_sent [OF s]
    consider (err) "err \<noteq> None" | (zero) "err = None" "n = 0" | (more) "err = None" "n \<noteq> 0" by blast
    then show ?thesis
    proof cases
      case err
      then show ?thesis
        using False s b by (subst writeSameFamily.simps) (auto intro!: batch_okI [where ds = "take n ms"])
    next
      case zero
      then show ?thesis
        using False s b by (subst writeSameFamily.simps) auto
    next
      case more
      obtain k e w2 where r: "writeSameFamily w1 (drop n ms) = ((k, e), w2)" by (metis prod.exhaust)
      have "batch_ok nt_log w1 (drop n ms) (writeSameFamily w1 (drop n ms))"
        using 1 [OF False s [symmetric] refl] more by auto
      with r have "batch_ok nt_log w1 (drop n ms) ((k, e), w2)" by simp
      then have "batch_ok nt_log w ms ((n + k, e), w2)"
        using b by (intro batch_ok_append [where ds = "take n ms"]) auto
      with False s more r show ?thesis
        by (subst writeSameFamily.simps) simp
    qed
  qed (subst writeSameFamily.simps, simp)
qed

lemma linux_WriteBatch_ok: "batch_ok nt_log w ms (linux_WriteBatch v4 w ms)"
proof (induction v4 w ms rule: linux_WriteBatch.induct)
  case (2 v4 w m ms)
  let ?ok = "\<lambda>x. socketFamilyOK v4 (mg_addr x)"
  show ?case
  proof (cases "?ok m")
    case False
    obtain e w1 where m: "writeMsg w m = (e, w1)" by fastforce
    show ?thesis
    proof (cases e)
      case None
      obtain k err w2 where r: "linux_WriteBatch v4 w1 ms = ((k, err), w2)" by (metis prod.exhaust)
      have "batch_ok nt_log (w1) ms ((k, err), w2)"
        using 2(1) [OF False m [symmetric] None] r by simp
      then have "batch_ok nt_log w (m # ms) ((1 + k, err), w2)"
        using m None writeMsg_None by (intro batch_ok_append [where ds = "[m]" and ?w1.0 = w1]) auto
      with False m None r show ?thesis by (simp add: linux_WriteBatch.simps(2))
    qed (use False m writeMsg_Some in \<open>auto simp: linux_WriteBatch.simps(2)\<close>)
  next
    case True
    define run where "run = m # takeWhile ?ok ms"
    have split: "m # ms = run @ dropWhile ?ok ms"
      by (simp add: run_def)
    have pre: "take n run = take n (m # ms)" if "n \<le> length run" for n
      using that by (simp only: split) simp
    have len: "length run \<le> length (m # ms)"
      by (simp add: run_def length_takeWhile_le)
    obtain n err w1 where s: "writeSameFamily w run = ((n, err), w1)" by (metis prod.exhaust)
    obtain ds where ds: "n \<le> length run" "nt_log w1 = nt_log w @ ds" "list_all2 cut_of ds (take n run)"
      using writeSameFamily_ok [of w run] unfolding s by (rule batch_okE)
    consider (err) "err \<noteq> None" | (zero) "err = None" "n = 0" | (more) "err = None" "n \<noteq> 0" by blast
    then show ?thesis
    proof cases
      case err
      then show ?thesis
        using True s ds len pre [OF ds(1)]
        by (subst linux_WriteBatch.simps(2)) (auto simp: run_def [symmetric] intro!: batch_okI [where ds = ds])
    next
      case zero
      then show ?thesis
        using True s ds by (subst linux_WriteBatch.simps(2)) (auto simp: run_def [symmetric])
    next
      case more
      obtain k e w2 where r: "linux_WriteBatch v4 w1 (drop n (m # ms)) = ((k, e), w2)"
        by (metis prod.exhaust)
      have "batch_ok nt_log w1 (drop n (m # ms)) (linux_WriteBatch v4 w1 (drop n (m # ms)))"
        using 2(2) [of run] True s more by (auto simp: run_def [symmetric])
      with r have "batch_ok nt_log w (m # ms) ((n + k, e), w2)"
        using ds len pre [OF ds(1)] by (intro batch_ok_append [where ds = ds]) auto
      with True s more r show ?thesis
        by (subst linux_WriteBatch.simps(2)) (simp add: run_def [symmetric] del: drop_Cons')
    qed
  qed
qed simp

interpretation linux_writer: batch_writer "linux_WriteBatch v4" nt_log for v4
  by unfold_locales (rule linux_WriteBatch_ok)

section \<open>Windows: grouping\<close>

lemma coveredCount_segments:
  assumes "0 < seg"
  shows "nat (coveredCount (int (length bs)) (int seg) (int c)) = min c (length (segments seg bs))"
proof -
  have len: "length (segments seg bs) =
      (if length bs mod seg = 0 then length bs div seg else Suc (length bs div seg))"
    using assms
  proof (induction seg bs rule: segments.induct)
    case (1 seg bs)
    show ?case
    proof (cases "bs = []")
      case False
      show ?thesis
      proof (cases "length bs \<le> seg")
        case True
        with False 1 show ?thesis
          by (subst segments.simps) (auto simp: segments.simps [of seg "[]"] le_less)
      next
        case big: False
        then show ?thesis
          using 1 False by (subst segments.simps) (auto simp: le_mod_geq le_div_geq not_le)
      qed
    qed (simp add: segments.simps)
  qed
  show ?thesis
    using assms
    by (simp add: coveredCount_def len Let_def zdiv_int [symmetric] zmod_int [symmetric] min_def) linarith?
qed

text \<open>The shape of an offloaded group, recursively: full segments, and a last one that may be shorter.\<close>

fun uso_shape :: "nat \<Rightarrow> message list \<Rightarrow> bool" where
  "uso_shape seg [] = True"
| "uso_shape seg (m # ms) =
     (if ms = [] then 0 < length (mg_buf m) \<and> length (mg_buf m) \<le> seg
      else length (mg_buf m) = seg \<and> uso_shape seg ms)"

lemma uso_shape_iff:
  "ms \<noteq> [] \<Longrightarrow> uso_shape seg ms \<longleftrightarrow>
     list_all (\<lambda>m. length (mg_buf m) = seg) (butlast ms) \<and>
     length (mg_buf (last ms)) > 0 \<and> length (mg_buf (last ms)) \<le> seg"
  by (induction ms) auto

lemma usoGroupOK_shape:
  "usoGroupOK ms \<longleftrightarrow> 2 \<le> length ms \<and> uso_shape (length (mg_buf (hd ms))) ms"
proof -
  have "ms \<noteq> []" if "2 \<le> length ms" using that by auto
  moreover have "0 < length (mg_buf (hd ms))"
    if "uso_shape (length (mg_buf (hd ms))) ms" "2 \<le> length ms"
    using that by (cases ms) (auto split: if_splits simp: uso_shape_iff)
  ultimately show ?thesis
    by (auto simp: usoGroupOK_def Let_def not_less uso_shape_iff)
qed

abbreviation payload :: "message list \<Rightarrow> nat" where
  "payload ms \<equiv> sum_list (map (\<lambda>m. length (mg_buf m)) ms)"

abbreviation one_addr :: "net_addr \<Rightarrow> message list \<Rightarrow> bool" where
  "one_addr a ms \<equiv> list_all (\<lambda>m. mg_addr m = a) ms"

lemma group_more_spec:
  assumes "group_more seg a mx c t ms = (c', t')" "t \<le> mx"
  shows "\<exists>k \<le> length ms. c' = c + k \<and> t' = t + payload (take k ms) \<and> t' \<le> mx \<and>
    one_addr a (take k ms) \<and> uso_shape seg (take k ms) \<and>
    (k < length ms \<longrightarrow> \<not> (one_addr a (take (Suc k) ms) \<and> uso_shape seg (take (Suc k) ms) \<and>
       t + payload (take (Suc k) ms) \<le> mx))"
  using assms
proof (induction ms arbitrary: c t)
  case (Cons m ms)
  let ?n = "length (mg_buf m)"
  consider (stop) "mg_addr m \<noteq> a \<or> ?n = 0 \<or> ?n > seg \<or> t + ?n > mx"
    | (tail) "mg_addr m = a" "0 < ?n" "?n < seg" "t + ?n \<le> mx"
    | (more) "mg_addr m = a" "0 < ?n" "?n = seg" "t + ?n \<le> mx" by linarith
  then show ?case
  proof cases
    case stop
    then show ?thesis using Cons.prems by (intro exI [of _ 0]) auto
  next
    case tail
    then show ?thesis using Cons.prems by (intro exI [of _ 1]) (auto simp: take_Suc split: list.splits)
  next
    case more
    then have "group_more seg a mx (Suc c) (t + ?n) ms = (c', t')" using Cons.prems by simp
    from Cons.IH [OF this] more obtain k where k: "k \<le> length ms" "c' = Suc c + k"
      "t' = t + ?n + payload (take k ms)" "t' \<le> mx" "one_addr a (take k ms)"
      "uso_shape seg (take k ms)"
      and nx: "k < length ms \<longrightarrow> \<not> (one_addr a (take (Suc k) ms) \<and> uso_shape seg (take (Suc k) ms) \<and>
       t + ?n + payload (take (Suc k) ms) \<le> mx)" by auto
    have "take (Suc k) ms \<noteq> []" if "k < length ms" using that by (cases ms) auto
    then show ?thesis
      using k nx more by (intro exI [of _ "Suc k"]) (auto simp: add.assoc)
  qed
qed auto

lemma groupRun_spec:
  assumes "groupRun msgs mx = (c, t)" "msgs \<noteq> []"
  shows "1 \<le> c \<and> c \<le> length msgs \<and> t = payload (take c msgs)"
    and "2 \<le> c \<Longrightarrow> usoGroupOK (take c msgs) \<and> one_addr (mg_addr (hd msgs)) (take c msgs) \<and> t \<le> mx"
    and "c < length msgs \<Longrightarrow> \<not> (usoGroupOK (take (Suc c) msgs) \<and>
      one_addr (mg_addr (hd msgs)) (take (Suc c) msgs) \<and> payload (take (Suc c) msgs) \<le> mx)"
proof -
  obtain m ms where msgs: "msgs = m # ms" using assms(2) by (cases msgs) auto
  let ?seg = "length (mg_buf m)"
  have "(1 \<le> c \<and> c \<le> length msgs \<and> t = payload (take c msgs)) \<and>
    (2 \<le> c \<longrightarrow> usoGroupOK (take c msgs) \<and> one_addr (mg_addr (hd msgs)) (take c msgs) \<and> t \<le> mx) \<and>
    (c < length msgs \<longrightarrow> \<not> (usoGroupOK (take (Suc c) msgs) \<and>
      one_addr (mg_addr (hd msgs)) (take (Suc c) msgs) \<and> payload (take (Suc c) msgs) \<le> mx))"
  proof (cases "?seg = 0 \<or> ?seg > mx")
    case True
    then show ?thesis
      using assms(1) msgs by (auto simp: groupRun_def usoGroupOK_def)
  next
    case False
    then have "group_more ?seg (mg_addr m) mx 1 ?seg ms = (c, t)" "?seg \<le> mx"
      using assms(1) msgs by (auto simp: groupRun_def Let_def)
    from group_more_spec [OF this] obtain k where k: "k \<le> length ms" "c = Suc k"
      "t = ?seg + payload (take k ms)" "t \<le> mx" "one_addr (mg_addr m) (take k ms)"
      "uso_shape ?seg (take k ms)"
      "k < length ms \<longrightarrow> \<not> (one_addr (mg_addr m) (take (Suc k) ms) \<and>
         uso_shape ?seg (take (Suc k) ms) \<and> ?seg + payload (take (Suc k) ms) \<le> mx)" by auto
    have "take (Suc k) ms \<noteq> []" if "k < length ms" using that by (cases ms) auto
    with k msgs False show ?thesis
      by (auto simp: usoGroupOK_shape)
  qed
  then show "1 \<le> c \<and> c \<le> length msgs \<and> t = payload (take c msgs)"
    and "2 \<le> c \<Longrightarrow> usoGroupOK (take c msgs) \<and> one_addr (mg_addr (hd msgs)) (take c msgs) \<and> t \<le> mx"
    and "c < length msgs \<Longrightarrow> \<not> (usoGroupOK (take (Suc c) msgs) \<and>
      one_addr (mg_addr (hd msgs)) (take (Suc c) msgs) \<and> payload (take (Suc c) msgs) \<le> mx)"
    by auto
qed

section \<open>Windows: the contract\<close>

lemma segments_prefix:
  assumes "uso_shape seg ms" "0 < seg"
  shows "list_all2 prefix (segments seg (take n (concat (map mg_buf ms))))
    (take (length (segments seg (take n (concat (map mg_buf ms))))) (map mg_buf ms))"
  using assms
proof (induction ms arbitrary: n)
  case (Cons m ms)
  show ?case
  proof (cases "n \<le> length (mg_buf m)")
    case True
    then have "length (take n (mg_buf m)) \<le> seg"
      using Cons.prems by (auto split: if_splits)
    then show ?thesis
      using True by (subst (1 2) segments.simps) (auto simp: segments.simps [of seg "[]"] take_is_prefix)
  next
    case big: False
    show ?thesis
    proof (cases "ms = []")
      case True
      with Cons.prems show ?thesis
        by (subst (1 2) segments.simps) (auto simp: segments.simps [of seg "[]"] take_is_prefix)
    next
      case False
      then have len: "length (mg_buf m) = seg" and ne: "mg_buf m \<noteq> []" and sh: "uso_shape seg ms"
        using Cons.prems by auto
      have eq: "segments seg (take n (concat (map mg_buf (m # ms)))) =
          mg_buf m # segments seg (take (n - seg) (concat (map mg_buf ms)))"
        using big len ne \<open>0 < seg\<close> by (subst segments.simps) simp
      show ?thesis
        unfolding eq using Cons.IH [OF sh] \<open>0 < seg\<close> by simp
    qed
  qed
qed (simp add: segments.simps)

lemma segments_concat:
  assumes "uso_shape seg ms" "0 < seg"
  shows "segments seg (concat (map mg_buf ms)) = map mg_buf ms"
  using assms
proof (induction ms)
  case (Cons m ms)
  show ?case
  proof (cases "ms = []")
    case True
    with Cons.prems show ?thesis
      by (subst segments.simps) (auto simp: segments.simps [of seg "[]"])
  next
    case False
    with Cons show ?thesis
      by (subst segments.simps) auto
  qed
qed (simp add: segments.simps)

lemma writeUSO_ok:
  assumes "one_addr (mg_addr (hd msgs)) msgs" "tot = payload msgs"
  shows "batch_ok nt_log w msgs (snd (writeUSO uso w msgs tot))"
proof (cases "usoGroupOK msgs")
  case False
  then show ?thesis by (simp add: writeUSO_def writeEach_ok)
next
  case True
  define seg where "seg = length (mg_buf (hd msgs))"
  define buf where "buf = concat (map mg_buf msgs)"
  have shape: "uso_shape seg msgs" and pos: "0 < seg"
    using True usoGroupOK_shape [of msgs] by (auto simp: seg_def usoGroupOK_def Let_def)
  obtain n err w0 where o: "next_outcome tot w = ((n, err), w0)" by (metis prod.exhaust)
  have n: "n \<le> tot" "nt_log w0 = nt_log w" using next_outcome_bounds [OF o] by auto
  have tot: "length buf = tot"
    using assms(2) by (simp add: buf_def length_concat comp_def)
  define sg where "sg = segments seg (take n buf)"
  define ds where "ds = map (\<lambda>b. \<lparr> mg_buf = b, mg_addr = mg_addr (hd msgs) \<rparr>) sg"
  define w1 where "w1 = w0\<lparr> nt_log := nt_log w0 @ ds \<rparr>"
  have pre: "list_all2 prefix sg (take (length sg) (map mg_buf msgs))"
    unfolding sg_def buf_def by (rule segments_prefix [OF shape pos])
  then have len: "length sg \<le> length msgs"
    by (auto dest: list_all2_lengthD)
  have cut: "list_all2 cut_of ds (take (length sg) msgs)"
    using pre assms(1) len
    by (auto simp: ds_def list_all2_conv_all_nth cut_of_def list_all_length)
  have lg: "nt_log w1 = nt_log w @ ds" by (simp add: w1_def n)
  have cov: "n \<noteq> 0 \<Longrightarrow> nat (coveredCount (int n) (int seg) (int (length msgs))) = length sg"
    using coveredCount_segments [OF pos, of "take n buf" "length msgs"] n(1) tot len
    by (simp add: sg_def min_def split: if_splits)
  have all: "length sg = length msgs" if "n \<ge> tot"
    using that tot segments_concat [OF shape pos] by (simp add: sg_def buf_def)
  have unf: "snd (writeUSO uso w msgs tot) =
      (if n = 0 then writeEach w1 msgs
       else if n \<ge> tot then ((length msgs, None), w1)
       else if nat (coveredCount (int n) (int seg) (int (length msgs))) \<ge> length msgs
         then ((length msgs, None), w1)
       else let done = nat (coveredCount (int n) (int seg) (int (length msgs)));
                ((tail, werr), w2) = writeEach w1 (drop done msgs) in ((done + tail, werr), w2))"
    using True o
    by (simp add: writeUSO_def Let_def seg_def buf_def sg_def ds_def w1_def split: prod.split)
  consider (none) "n = 0" | (full) "n \<noteq> 0" "n \<ge> tot \<or> length sg \<ge> length msgs"
    | (rest) "n \<noteq> 0" "n < tot" "length sg < length msgs" by linarith
  then show ?thesis
  proof cases
    case none
    then have "sg = []" by (simp add: sg_def segments.simps)
    then have "nt_log w1 = nt_log w" using lg ds_def by simp
    then show ?thesis
      using none writeEach_ok [of w1 msgs] unfolding unf by (auto simp: batch_ok_def)
  next
    case full
    then have "length sg = length msgs" using all len by auto
    then show ?thesis
      using full cov cut lg unfolding unf by (auto simp: batch_ok_def)
  next
    case rest
    obtain k e w2 where r: "writeEach w1 (drop (length sg) msgs) = ((k, e), w2)" by (metis prod.exhaust)
    have "batch_ok nt_log w msgs ((length sg + k, e), w2)"
      using len lg cut writeEach_ok [of w1 "drop (length sg) msgs"] r
      by (intro batch_ok_append [where ds = ds and ?w1.0 = w1]) auto
    then show ?thesis
      using rest cov r unfolding unf by simp
  qed
qed

lemma windows_WriteBatch_ok: "batch_ok (nt_log \<circ> snd) s msgs (windows_WriteBatch s msgs)"
proof (induction s msgs rule: windows_WriteBatch.induct)
  case (1 uso w msgs)
  show ?case
  proof (cases "msgs = []")
    case True
    then show ?thesis by (subst windows_WriteBatch.simps) simp
  next
    case False
    obtain c t where g: "groupRun msgs maxCoalescedPayload = (c, t)" by fastforce
    note spec = groupRun_spec [OF g False]
    define step where "step = (if c < 2 \<or> \<not> uso then (uso, writeEach w (take 1 msgs))
               else writeUSO uso w (take c msgs) t)"
    obtain uso' n err w1 where st: "step = (uso', (n, err), w1)" by (metis prod.exhaust)
    have "\<exists>c'. batch_ok nt_log w (take c' msgs) ((n, err), w1)"
    proof (cases "c < 2 \<or> \<not> uso")
      case True
      then show ?thesis using st writeEach_ok [of w "take 1 msgs"] by (auto simp: step_def)
    next
      case grp: False
      then have "hd (take c msgs) = hd msgs" using False by (cases msgs; cases c) auto
      with grp writeUSO_ok [of "take c msgs" t w uso] spec st
      show ?thesis by (auto simp: step_def)
    qed
    then obtain c' where ok: "batch_ok nt_log w (take c' msgs) ((n, err), w1)" by blast
    obtain ds where ds: "n \<le> length (take c' msgs)" "nt_log w1 = nt_log w @ ds"
        "list_all2 cut_of ds (take n (take c' msgs))"
      using ok by (rule batch_okE)
    then have tk: "take n (take c' msgs) = take n msgs" by (auto simp: min_def split: if_splits)
    have unf: "windows_WriteBatch (uso, w) msgs =
        (if err \<noteq> None then ((n, err), (uso', w1))
         else if n = 0 then ((0, Some ErrShortWrite), (uso', w1))
         else let ((k, err'), s) = windows_WriteBatch (uso', w1) (drop n msgs) in ((n + k, err'), s))"
      using False g st by (subst windows_WriteBatch.simps) (simp add: step_def)
    consider (err) "err \<noteq> None" | (zero) "err = None" "n = 0" | (more) "err = None" "n \<noteq> 0" by blast
    then show ?thesis
    proof cases
      case err
      then show ?thesis
        using ds tk unfolding unf by (auto intro!: batch_okI [where ds = ds])
    next
      case zero
      then show ?thesis using ds unfolding unf by auto
    next
      case more
      obtain k e w2 where r: "windows_WriteBatch (uso', w1) (drop n msgs) = ((k, e), w2)"
        by (metis prod.exhaust)
      have "batch_ok (nt_log \<circ> snd) (uso', w1) (drop n msgs) (windows_WriteBatch (uso', w1) (drop n msgs))"
        using 1 [OF False g [symmetric] refl] st more by (auto simp: step_def comp_def)
      with r have "batch_ok (nt_log \<circ> snd) (uso, w) msgs ((n + k, e), w2)"
        using ds tk by (intro batch_ok_append [where ds = ds]) auto
      with more r show ?thesis unfolding unf by (simp add: comp_def)
    qed
  qed
qed

interpretation windows_writer: batch_writer windows_WriteBatch "nt_log \<circ> snd"
  by unfold_locales (rule windows_WriteBatch_ok)

section \<open>The properties\<close>

text \<open>\<open>groupRun\<close> picks exactly the longest head of the batch that can be offloaded: at least one
  message; if more than one, they go to the same address, all full segments but a last one that
  may be shorter, and together within the payload limit; and the next message could not join. The
  total is the sum of their lengths.\<close>
theorem groupRun_longest_group:
  assumes "groupRun msgs mx = (c, t)" "msgs \<noteq> []"
  shows "1 \<le> c \<and> c \<le> length msgs \<and> t = payload (take c msgs) \<and>
    (2 \<le> c \<longrightarrow> usoGroupOK (take c msgs) \<and> one_addr (mg_addr (hd msgs)) (take c msgs) \<and> t \<le> mx) \<and>
    (c < length msgs \<longrightarrow> \<not> (usoGroupOK (take (Suc c) msgs) \<and>
      one_addr (mg_addr (hd msgs)) (take (Suc c) msgs) \<and> payload (take (Suc c) msgs) \<le> mx))"
  using groupRun_spec [OF assms] by blast

definition sample_msg :: "nat \<Rightarrow> message" where
  "sample_msg n = \<lparr> mg_buf = replicate n 7, mg_addr = V4 [10, 0, 0, 1] 9000 \<rparr>"

theorem groupRun_longest_group_witness:
  "groupRun [sample_msg 4, sample_msg 4, sample_msg 2, sample_msg 4] 65000 = (3, 10) \<and>
   \<not> usoGroupOK [sample_msg 4, sample_msg 4, sample_msg 2, sample_msg 4]"
proof -
  let ?ms = "[sample_msg 4, sample_msg 4, sample_msg 2, sample_msg 4]"
  have g: "groupRun ?ms 65000 = (3, 10)"
    by (simp add: groupRun_def sample_msg_def)
  with groupRun_longest_group [OF g] show ?thesis
    by (auto simp: sample_msg_def)
qed

text \<open>C11 On Linux and on Windows, however the socket's calls turn out, \<open>WriteBatch\<close> meets the
  contract of \<open>Writer\<close>: the count is at most the batch, no error means the whole batch, and the
  datagrams that went out are those of the counted messages, once each, in order, to their own
  addresses, each with the message's bytes or (after a partial offloaded write) a prefix of them.\<close>
theorem batch_writers_send_once:
  "batch_ok nt_log w msgs (linux_WriteBatch v4 w msgs) \<and>
   batch_ok (nt_log \<circ> snd) (uso, w) msgs (windows_WriteBatch (uso, w) msgs)"
  using linux_writer.contract windows_writer.contract by blast

end
