(* ===== verification/Udp_Coalesce.thy ===== *)
theory Udp_Coalesce
  imports Udp_Batch
begin

text \<open>
  The coalescing connection of \<open>udpbatch/batch_windows.go\<close>: callers queue datagrams and return, one
  sending goroutine takes them in batches and writes them with the Windows writer, retrying and
  noting a dead socket. Each section of code under the connection's mutex is one operation; the
  relation \<open>coal_step\<close> interleaves them. \<open>co_taken\<close> and \<open>co_accepted\<close> are the history of what
  the sender took and of what \<open>WriteTo\<close> accepted; no code reads them.
\<close>

section \<open>Control data\<close>

text \<open>Sizes in bytes; \<open>p\<close> is the pointer width. A \<open>WSACMSGHDR\<close> is a pointer and two 32-bit fields.\<close>

definition alignUp :: "int \<Rightarrow> int \<Rightarrow> int" where
  "alignUp n a = and (n + a - 1) (not (a - 1))"

definition cmsgHdrSize :: "int \<Rightarrow> int" where "cmsgHdrSize p = p + 8"

definition cmsgHdrAlign :: "int \<Rightarrow> int \<Rightarrow> int" where "cmsgHdrAlign p n = alignUp n p"

definition cmsgDataAlign :: "int \<Rightarrow> int \<Rightarrow> int" where "cmsgDataAlign p n = alignUp n p"

definition cmsgDataOff :: "int \<Rightarrow> int" where "cmsgDataOff p = cmsgDataAlign p (cmsgHdrSize p)"

definition cmsgLen :: "int \<Rightarrow> int \<Rightarrow> int" where "cmsgLen p len = cmsgDataOff p + len"

definition cmsgSpace :: "int \<Rightarrow> int \<Rightarrow> int" where
  "cmsgSpace p len = cmsgDataAlign p (cmsgHdrSize p + cmsgHdrAlign p len)"

text \<open>A little-endian field written at an offset of the control buffer.\<close>

fun le_bytes :: "nat \<Rightarrow> int \<Rightarrow> bytes" where
  "le_bytes 0 v = []"
| "le_bytes (Suc k) v = word_of_int (v mod 256) # le_bytes k (v div 256)"

definition put_at :: "nat \<Rightarrow> bytes \<Rightarrow> bytes \<Rightarrow> bytes" where
  "put_at off xs raw = take off raw @ xs @ drop (off + length xs) raw"

definition control :: "int \<Rightarrow> u32 \<Rightarrow> bytes" where
  "control p seg =
     (let raw = replicate (nat (cmsgSpace p 4)) 0;
          raw1 = put_at 0 (le_bytes (nat p) (cmsgLen p 4)) raw;
          raw2 = put_at (nat p) (le_bytes 4 17) raw1;
          raw3 = put_at (nat p + 4) (le_bytes 4 2) raw2
      in put_at (nat (cmsgDataOff p)) (le_bytes 4 (uint seg)) raw3)"

text \<open>On either pointer width the fields lie inside the 32-byte buffer, one after another, and do not
  overlap; the declared length covers header and data.\<close>

lemma length_le_bytes [simp]: "length (le_bytes k v) = k"
  by (induction k arbitrary: v) auto

lemma length_put_at [simp]: "off + length xs \<le> length raw \<Longrightarrow> length (put_at off xs raw) = length raw"
  by (simp add: put_at_def)

lemma cmsg_sizes:
  "cmsgDataOff 8 = 16" "cmsgLen 8 4 = 20" "cmsgSpace 8 4 = 24"
  "cmsgDataOff 4 = 12" "cmsgLen 4 4 = 16" "cmsgSpace 4 4 = 16"
  by (simp_all add: cmsgDataOff_def cmsgLen_def cmsgSpace_def cmsgDataAlign_def cmsgHdrAlign_def
    cmsgHdrSize_def alignUp_def)

lemma control_layout:
  assumes "p = 4 \<or> p = 8"
  shows "int (length (control p seg)) = cmsgSpace p 4 \<and> cmsgSpace p 4 \<le> 32 \<and>
    take 4 (drop (nat (cmsgDataOff p)) (control p seg)) = le_bytes 4 (uint seg) \<and>
    cmsgLen p 4 \<le> cmsgSpace p 4"
  using assms by (auto simp: control_def cmsg_sizes put_at_def Let_def numeral_eq_Suc)

section \<open>Addresses\<close>

text \<open>\<open>net.Addr\<close>: a \<open>*net.UDPAddr\<close> with its IP bytes, port and zone, or something else (nil included).\<close>

datatype go_addr = UDPAddr bytes int string | OtherAddr

definition addrPortFrom :: "go_addr \<Rightarrow> net_addr option" where
  "addrPortFrom a =
     (case a of
        OtherAddr \<Rightarrow> None
      | UDPAddr ip port zone \<Rightarrow>
          if length ip = 4 then Some (V4 ip (word_of_int port))
          else if length ip = 16 then
            Some (if take 12 ip = [0, 0, 0, 0, 0, 0, 0, 0, 0, 0, 0xFF, 0xFF]
                  then V4In6 (drop 12 ip) zone (word_of_int port) else V6 ip zone (word_of_int port))
          else None)"

section \<open>Retrying\<close>

definition isFatalWriteErr :: "write_err \<Rightarrow> bool" where
  "isFatalWriteErr e \<longleftrightarrow> e = ErrClosed \<or> e = ErrNetDown"

text \<open>\<open>writeAll\<close> with \<open>a\<close> attempts left: the fatal error to note, the messages given up, the writer.\<close>

fun writeAll ::
  "('w \<Rightarrow> message list \<Rightarrow> (nat \<times> write_err option) \<times> 'w) \<Rightarrow> nat \<Rightarrow> 'w \<Rightarrow> message list
   \<Rightarrow> write_err option \<times> message list \<times> 'w" where
  "writeAll wb 0 w rest = (None, rest, w)"
| "writeAll wb (Suc a) w rest =
     (if rest = [] then (None, [], w)
      else let ((n, err), w') = wb w rest; rest' = drop n rest in
        case err of
          None \<Rightarrow> (None, rest', w')
        | Some e \<Rightarrow>
            if rest' = [] then (None, [], w')
            else if isFatalWriteErr e then (Some e, rest', w')
            else writeAll wb a w' rest')"

definition writeAttempts :: nat where "writeAttempts = 3"

context batch_writer
begin

text \<open>Retrying keeps the contract: what went out is the batch without its given-up tail, once and in order.\<close>

lemma writeAll_sends:
  assumes "writeAll wb a w ms = (f, rest, w')"
  shows "\<exists>ds k. lg w' = lg w @ ds \<and> rest = drop k ms \<and> list_all2 cut_of ds (take k ms) \<and> k \<le> length ms \<and>
    (\<forall>e. f = Some e \<longrightarrow> isFatalWriteErr e)"
  using assms
proof (induction a arbitrary: w ms)
  case 0
  then show ?case by (intro exI [of _ "[]"] exI [of _ 0]) auto
next
  case (Suc a)
  show ?case
  proof (cases "ms = []")
    case True
    with Suc.prems show ?thesis by (intro exI [of _ "[]"] exI [of _ 0]) auto
  next
    case False
    obtain n err w1 where wb: "wb w ms = ((n, err), w1)" by (metis prod.exhaust)
    obtain ds where ds: "n \<le> length ms" "lg w1 = lg w @ ds" "list_all2 cut_of ds (take n ms)"
      using contract [of w ms] unfolding wb by (rule batch_okE)
    show ?thesis
    proof (cases "\<exists>e. err = Some e \<and> drop n ms \<noteq> [] \<and> \<not> isFatalWriteErr e")
      case True
      then have "writeAll wb a w1 (drop n ms) = (f, rest, w')"
        using Suc.prems False wb by auto
      from Suc.IH [OF this] obtain ds' k where k: "lg w' = lg w1 @ ds'" "rest = drop k (drop n ms)"
        "list_all2 cut_of ds' (take k (drop n ms))" "k \<le> length (drop n ms)"
        "\<forall>e. f = Some e \<longrightarrow> isFatalWriteErr e" by blast
      have "list_all2 cut_of (ds @ ds') (take (n + k) ms)"
        using list_all2_appendI [OF ds(3) k(3)] by (simp add: take_add)
      then show ?thesis
        using ds k by (intro exI [of _ "ds @ ds'"] exI [of _ "n + k"]) (auto simp: add.commute)
    next
      case stop: False
      then show ?thesis
        using Suc.prems False wb ds
        by (intro exI [of _ ds] exI [of _ n]) (auto simp: Let_def split: option.splits if_splits)
    qed
  qed
qed

lemma writeAll_accepted:
  assumes "wb w ms = ((n, None), w1)"
  shows "writeAll wb (Suc a) w ms = (None, [], if ms = [] then w else w1)"
  using contract [of w ms] assms by (auto simp: batch_ok_def)

end

section \<open>The connection\<close>

definition queueCap :: nat where "queueCap = 256"
definition maxBatch :: nat where "maxBatch = 64"

text \<open>Where the sending goroutine is: not running; in its \<open>select\<close>; about to \<open>pop\<close>; writing a batch.\<close>

datatype sender_phase = NoSender | Waiting | Popping | Writing "message list"

record coal =
  co_queue :: "message list"
  co_kick :: bool
  co_closed :: bool
  co_fatal :: "write_err option"
  co_sender :: sender_phase
  co_w :: "bool \<times> net"
  co_accepted :: "message list"
  co_taken :: "message list"

definition newCoalesceConn :: "bool \<times> net \<Rightarrow> coal" where
  "newCoalesceConn w = \<lparr> co_queue = [], co_kick = False, co_closed = False, co_fatal = None,
     co_sender = NoSender, co_w = w, co_accepted = [], co_taken = [] \<rparr>"

definition wake :: "coal \<Rightarrow> coal" where
  "wake c = c\<lparr> co_kick := True \<rparr>"

text \<open>\<open>Blocked\<close>: the caller waits on the condition; \<open>Direct\<close>: the datagram bypasses the queue.\<close>

datatype write_result = Blocked | Direct | Failed write_err | Accepted nat

definition WriteTo :: "coal \<Rightarrow> bytes \<Rightarrow> go_addr \<Rightarrow> write_result \<times> coal" where
  "WriteTo c b addr =
     (case addrPortFrom addr of
        None \<Rightarrow> (Direct, c)
      | Some ap \<Rightarrow>
          if length (co_queue c) \<ge> queueCap \<and> \<not> co_closed c \<and> co_fatal c = None then (Blocked, c)
          else case co_fatal c of
            Some e \<Rightarrow> (Failed e, c)
          | None \<Rightarrow>
              if co_closed c then (Failed ErrClosed, c)
              else
                let m = \<lparr> mg_buf = b, mg_addr = ap \<rparr>;
                    c1 = c\<lparr> co_queue := co_queue c @ [m], co_accepted := co_accepted c @ [m] \<rparr>;
                    c2 = (if co_sender c1 = NoSender then c1\<lparr> co_sender := Waiting \<rparr> else c1)
                in (Accepted (length b), wake c2))"

text \<open>The first half of \<open>Close\<close>; it then closes the socket and waits for the sender to leave.\<close>

definition Close_conn :: "coal \<Rightarrow> coal" where
  "Close_conn c = (if co_closed c then c else wake (c\<lparr> co_closed := True \<rparr>))"

definition Close_returns :: "coal \<Rightarrow> bool" where
  "Close_returns c \<longleftrightarrow> co_sender c = NoSender"

definition tryIdleExit :: "coal \<Rightarrow> bool \<times> coal" where
  "tryIdleExit c =
     (if co_closed c \<or> co_queue c \<noteq> [] then (False, c) else (True, c\<lparr> co_sender := NoSender \<rparr>))"

text \<open>\<open>pop\<close>: the batch taken, the fatal error seen, and whether the sender leaves.\<close>

definition pop :: "coal \<Rightarrow> (message list \<times> write_err option \<times> bool) \<times> coal" where
  "pop c =
     (if co_queue c = [] then
        (if co_closed c then (([], None, True), c\<lparr> co_sender := NoSender \<rparr>) else (([], None, False), c))
      else let n = min (length (co_queue c)) maxBatch in
        ((take n (co_queue c), co_fatal c, False),
         c\<lparr> co_queue := drop n (co_queue c), co_taken := co_taken c @ take n (co_queue c) \<rparr>))"

definition noteFatal :: "coal \<Rightarrow> write_err \<Rightarrow> coal" where
  "noteFatal c e = (if co_fatal c = None then c\<lparr> co_fatal := Some e \<rparr> else c)"

text \<open>One iteration of \<open>sendLoop\<close> in its three atomic parts: the \<open>select\<close>, the \<open>pop\<close>, the write.\<close>

definition select_timer :: "coal \<Rightarrow> coal" where
  "select_timer c =
     (let (leave, c') = tryIdleExit c in if leave then c' else c'\<lparr> co_sender := Popping \<rparr>)"

definition select_kick :: "coal \<Rightarrow> coal" where
  "select_kick c = c\<lparr> co_kick := False, co_sender := Popping \<rparr>"

definition sender_pop :: "coal \<Rightarrow> coal" where
  "sender_pop c =
     (let ((batch, fatal, leave), c') = pop c in
      if leave then c'
      else if batch = [] \<or> fatal \<noteq> None then c'\<lparr> co_sender := Waiting \<rparr>
      else c'\<lparr> co_sender := Writing batch \<rparr>)"

definition sender_write :: "coal \<Rightarrow> message list \<Rightarrow> coal" where
  "sender_write c batch =
     (let (fatal, rest, w') = writeAll windows_WriteBatch writeAttempts (co_w c) batch;
          c1 = c\<lparr> co_w := w' \<rparr>;
          c2 = (case fatal of None \<Rightarrow> c1 | Some e \<Rightarrow> noteFatal c1 e)
      in c2\<lparr> co_sender := Waiting \<rparr>)"

inductive coal_step :: "coal \<Rightarrow> coal \<Rightarrow> bool" where
  write_to: "coal_step c (snd (WriteTo c b addr))"
| close: "coal_step c (Close_conn c)"
| timer: "co_sender c = Waiting \<Longrightarrow> coal_step c (select_timer c)"
| kick: "co_sender c = Waiting \<Longrightarrow> co_kick c \<Longrightarrow> coal_step c (select_kick c)"
| pop: "co_sender c = Popping \<Longrightarrow> coal_step c (sender_pop c)"
| send: "co_sender c = Writing batch \<Longrightarrow> coal_step c (sender_write c batch)"

inductive coal_reachable :: "bool \<times> net \<Rightarrow> coal \<Rightarrow> bool" for w0 where
  start: "coal_reachable w0 (newCoalesceConn w0)"
| step: "coal_reachable w0 c \<Longrightarrow> coal_step c c' \<Longrightarrow> coal_reachable w0 c'"

lemma co_accepted_select_kick [simp]: "co_accepted (select_kick c) = co_accepted c"
  by (simp add: select_kick_def)

lemma co_accepted_sender_pop [simp]: "co_accepted (sender_pop c) = co_accepted c"
  by (simp add: sender_pop_def pop_def Let_def)

lemma co_accepted_sender_write [simp]: "co_accepted (sender_write c b) = co_accepted c"
  by (simp add: sender_write_def noteFatal_def Let_def split: prod.split option.split)

section \<open>The invariant\<close>

definition in_flight :: "coal \<Rightarrow> message list" where
  "in_flight c = (case co_sender c of Writing batch \<Rightarrow> batch | _ \<Rightarrow> [])"

definition net_log :: "bool \<times> net \<Rightarrow> message list" where
  "net_log = nt_log \<circ> snd"

text \<open>What is queued was accepted after what was taken; what went out is a selection, in order, of
  what was taken and written.\<close>

definition coal_ok :: "bool \<times> net \<Rightarrow> coal \<Rightarrow> bool" where
  "coal_ok w0 c \<longleftrightarrow>
     length (co_queue c) \<le> queueCap \<and>
     length (in_flight c) \<le> maxBatch \<and>
     (co_queue c \<noteq> [] \<longrightarrow> co_sender c \<noteq> NoSender) \<and>
     co_accepted c = co_taken c @ co_queue c \<and>
     (\<exists>ds sent gone. net_log (co_w c) = net_log w0 @ ds \<and> list_all2 cut_of ds sent \<and>
        subseq sent gone \<and> co_taken c = gone @ in_flight c)"

lemma WriteTo_ok:
  assumes "coal_ok w0 c"
  shows "coal_ok w0 (snd (WriteTo c b addr))"
  using assms
  by (auto simp: coal_ok_def WriteTo_def Let_def wake_def in_flight_def not_le
      split: option.splits sender_phase.splits if_splits)

lemma Close_conn_ok:
  assumes "coal_ok w0 c"
  shows "coal_ok w0 (Close_conn c)"
  using assms by (auto simp: coal_ok_def Close_conn_def wake_def in_flight_def)

lemma select_timer_ok:
  assumes "coal_ok w0 c" "co_sender c = Waiting"
  shows "coal_ok w0 (select_timer c)"
  using assms by (auto simp: coal_ok_def select_timer_def tryIdleExit_def in_flight_def)

lemma select_kick_ok:
  assumes "coal_ok w0 c" "co_sender c = Waiting"
  shows "coal_ok w0 (select_kick c)"
  using assms by (auto simp: coal_ok_def select_kick_def in_flight_def)

lemma sender_pop_ok:
  assumes "coal_ok w0 c" "co_sender c = Popping"
  shows "coal_ok w0 (sender_pop c)"
proof (cases "co_queue c = [] \<or> co_fatal c = None")
  case True
  then show ?thesis
    using assms by (auto simp: coal_ok_def sender_pop_def pop_def in_flight_def Let_def)
next
  case False
  from assms obtain ds sent gone where inv: "net_log (co_w c) = net_log w0 @ ds"
    "list_all2 cut_of ds sent" "subseq sent gone" "co_taken c = gone"
    by (auto simp: coal_ok_def in_flight_def)
  let ?b = "take (min (length (co_queue c)) maxBatch) (co_queue c)"
  have "subseq sent (gone @ ?b)" using list_emb_append_mono [OF inv(3) list_emb_Nil [of _ ?b]] by simp
  with False assms inv show ?thesis
    by (auto simp: coal_ok_def sender_pop_def pop_def in_flight_def Let_def)
qed

lemma sender_write_ok:
  assumes "coal_ok w0 c" "co_sender c = Writing batch"
  shows "coal_ok w0 (sender_write c batch)"
proof -
  obtain f rest w' where wa: "writeAll windows_WriteBatch writeAttempts (co_w c) batch = (f, rest, w')"
    by (metis prod.exhaust)
  from windows_writer.writeAll_sends [OF wa] obtain ds' k where
    k: "net_log w' = net_log (co_w c) @ ds'" "list_all2 cut_of ds' (take k batch)"
    by (auto simp: net_log_def)
  from assms obtain ds sent gone where inv: "net_log (co_w c) = net_log w0 @ ds"
    "list_all2 cut_of ds sent" "subseq sent gone" "co_taken c = gone @ batch"
    by (auto simp: coal_ok_def in_flight_def)
  have "list_all2 cut_of (ds @ ds') (sent @ take k batch)"
    using inv(2) k(2) by (rule list_all2_appendI)
  moreover have "subseq (sent @ take k batch) (gone @ batch)"
    by (rule list_emb_append_mono [OF inv(3) prefix_imp_subseq [OF take_is_prefix]])
  ultimately have "\<exists>ds sent gone. net_log w' = net_log w0 @ ds \<and> list_all2 cut_of ds sent \<and>
        subseq sent gone \<and> co_taken c = gone @ []"
    using inv k by (intro exI [of _ "ds @ ds'"] exI [of _ "sent @ take k batch"] exI [of _ "gone @ batch"]) auto
  with assms wa show ?thesis
    by (auto simp: coal_ok_def sender_write_def in_flight_def noteFatal_def Let_def split: option.splits)
qed

lemma coal_step_ok:
  assumes "coal_step c c'" "coal_ok w0 c"
  shows "coal_ok w0 c'"
  using assms
  by (cases rule: coal_step.cases)
    (auto intro: WriteTo_ok Close_conn_ok select_timer_ok select_kick_ok sender_pop_ok sender_write_ok)

lemma coal_reachable_ok: "coal_reachable w0 c \<Longrightarrow> coal_ok w0 c"
proof (induction rule: coal_reachable.induct)
  case start
  show ?case
    by (auto simp: coal_ok_def newCoalesceConn_def in_flight_def intro!: exI [of _ "[]"])
qed (rule coal_step_ok)

section \<open>A healthy socket\<close>

text \<open>With no failure left in the script every call takes everything.\<close>

abbreviation sends_all :: "(nat \<times> write_err option) \<times> net \<Rightarrow> message list \<Rightarrow> bool" where
  "sends_all r ms \<equiv> fst r = (length ms, None) \<and> nt_script (snd r) = []"

lemma writeEach_healthy: "nt_script w = [] \<Longrightarrow> sends_all (writeEach w ms) ms"
  by (induction w ms rule: writeEach.induct)
    (auto simp: writeMsg_def next_outcome_def split: prod.splits option.splits)

lemma writeUSO_healthy:
  assumes "nt_script w = []"
  shows "sends_all (snd (writeUSO uso w msgs tot)) msgs"
  using assms by (auto simp: writeUSO_def next_outcome_def Let_def intro!: writeEach_healthy)

lemma windows_healthy:
  assumes "nt_script w = []"
  shows "\<exists>s'. windows_WriteBatch (uso, w) msgs = ((length msgs, None), s') \<and> nt_script (snd s') = []"
  using assms
proof (induction "length msgs" arbitrary: uso w msgs rule: less_induct)
  case less
  show ?case
  proof (cases "msgs = []")
    case True
    with less.prems show ?thesis by (subst windows_WriteBatch.simps) simp
  next
    case False
    obtain c t where g: "groupRun msgs maxCoalescedPayload = (c, t)" by fastforce
    obtain uso' n err w1 where st:
      "(if c < 2 \<or> \<not> uso then (uso, writeEach w (take 1 msgs)) else writeUSO uso w (take c msgs) t) =
        (uso', (n, err), w1)" by (metis prod.exhaust)
    have c: "1 \<le> c" "c \<le> length msgs" using groupRun_spec(1) [OF g False] by auto
    have "sends_all ((n, err), w1) (take (if c < 2 \<or> \<not> uso then 1 else c) msgs)"
      using st writeEach_healthy [OF less.prems, of "take 1 msgs"]
        writeUSO_healthy [OF less.prems, of uso "take c msgs" t]
      by (auto split: if_splits)
    then have r: "err = None" "nt_script w1 = []" "0 < n" "n \<le> length msgs"
      using c False by (auto split: if_splits simp: min_def)
    have "length (drop n msgs) < length msgs" using r False by simp
    from less.hyps [OF this r(2)] obtain s' where
      "windows_WriteBatch (uso', w1) (drop n msgs) = ((length msgs - n, None), s')" "nt_script (snd s') = []"
      by fastforce
    then show ?thesis
      using False g st r by (subst windows_WriteBatch.simps) simp
  qed
qed

section \<open>The properties\<close>

text \<open>C7 However callers, \<open>Close\<close>, the timer and the sender interleave: at most 256 datagrams wait and
  at most 64 are in a batch; while any waits the sender runs, so \<open>Close\<close> returns only when none
  waits; those waiting are exactly the last ones accepted; and what went out on the network is, in
  the order of acceptance, a selection of the datagrams the sender took, none twice, each with its
  bytes or a prefix of them. Nothing is sent that was not accepted.\<close>
theorem coalesced_in_order:
  assumes "coal_reachable w0 c"
  shows "length (co_queue c) \<le> 256 \<and> length (in_flight c) \<le> 64 \<and>
    (Close_returns c \<longrightarrow> co_queue c = []) \<and>
    co_accepted c = co_taken c @ co_queue c \<and>
    (\<exists>ds sent. net_log (co_w c) = net_log w0 @ ds \<and> list_all2 cut_of ds sent \<and> subseq sent (co_taken c))"
proof -
  from coal_reachable_ok [OF assms] have ok: "coal_ok w0 c" .
  then obtain ds sent gone where "net_log (co_w c) = net_log w0 @ ds" "list_all2 cut_of ds sent"
    "subseq sent gone" "co_taken c = gone @ in_flight c" by (auto simp: coal_ok_def)
  then show ?thesis
    using ok list_emb_append_mono [OF _ list_emb_Nil [of "(=)" "in_flight c"], of sent gone]
    by (auto simp: coal_ok_def queueCap_def maxBatch_def Close_returns_def)
qed

definition sample_addr :: go_addr where
  "sample_addr = UDPAddr [10, 0, 0, 1] 9000 []"

definition healthy :: "bool \<times> net" where
  "healthy = (True, \<lparr> nt_script = [], nt_log = [] \<rparr>)"

theorem coalesced_in_order_witness:
  "\<exists>c. coal_reachable healthy c \<and> co_queue c \<noteq> [] \<and> \<not> Close_returns c"
proof -
  let ?c = "snd (WriteTo (newCoalesceConn healthy) [1] sample_addr)"
  have r: "coal_reachable healthy ?c"
    by (rule coal_reachable.step [OF coal_reachable.start coal_step.write_to])
  have q: "co_queue ?c \<noteq> []"
    by (simp add: WriteTo_def newCoalesceConn_def sample_addr_def addrPortFrom_def Let_def wake_def queueCap_def)
  from coalesced_in_order [OF r] q have "\<not> Close_returns ?c" by blast
  with r q show ?thesis by blast
qed

text \<open>Callers that write before the sender wakes: the queue grows, the one kick is pending.\<close>

definition queued :: "nat \<Rightarrow> coal" where
  "queued n = ((\<lambda>c. snd (WriteTo c [1] sample_addr)) ^^ n) (newCoalesceConn healthy)"

lemma queued_reachable: "coal_reachable healthy (queued n)"
  by (induction n)
    (auto simp: queued_def intro: coal_reachable.start coal_reachable.step coal_step.write_to)

lemma queued_state:
  "Suc n \<le> 256 \<Longrightarrow> length (co_queue (queued (Suc n))) = Suc n \<and> co_kick (queued (Suc n)) \<and>
    co_sender (queued (Suc n)) = Waiting \<and> \<not> co_closed (queued (Suc n)) \<and>
    co_fatal (queued (Suc n)) = None \<and> co_w (queued (Suc n)) = healthy \<and>
    length (co_accepted (queued (Suc n))) = Suc n"
  by (induction n)
    (auto simp: queued_def WriteTo_def newCoalesceConn_def sample_addr_def addrPortFrom_def Let_def
      wake_def queueCap_def split: if_splits)

text \<open>C40 The wake-up channel holds one token, and a round of the sender takes at most 64 datagrams
  for it. After more than 64 (and up to 256) were queued before the sender ran, one round on a
  healthy, open socket leaves the rest in the queue with the sender back in its \<open>select\<close> and no
  wake-up pending: these accepted datagrams move only when another \<open>WriteTo\<close> or \<open>Close\<close> comes, or
  when the idle timer (100 ms) fires.\<close>
theorem sender_leaves_tail_without_wakeup:
  assumes "64 < n" "n \<le> 256"
  shows "\<exists>c. coal_reachable healthy c \<and> length (co_accepted c) = n \<and> length (co_queue c) = n - 64 \<and>
    co_sender c = Waiting \<and> \<not> co_kick c \<and> \<not> co_closed c \<and> co_fatal c = None"
proof -
  let ?c0 = "queued n"
  define c1 where "c1 = select_kick ?c0"
  define b where "b = take 64 (co_queue ?c0)"
  define c2 where "c2 = sender_pop c1"
  define c3 where "c3 = sender_write c2 b"
  obtain k where n: "n = Suc k" using assms(1) by (cases n) auto
  have c0: "length (co_queue ?c0) = n" "co_kick ?c0" "co_sender ?c0 = Waiting" "\<not> co_closed ?c0"
    "co_fatal ?c0 = None" "co_w ?c0 = healthy" "length (co_accepted ?c0) = n"
    using queued_state [of k] assms(2) by (auto simp: n)
  have r1: "coal_reachable healthy c1"
    unfolding c1_def using c0 by (intro coal_reachable.step [OF queued_reachable [of n] coal_step.kick]) auto
  have s1: "co_sender c1 = Popping" "\<not> co_kick c1" "co_queue c1 = co_queue ?c0" "\<not> co_closed c1"
    "co_fatal c1 = None" "co_w c1 = healthy"
    using c0 by (auto simp: c1_def select_kick_def)
  have r2: "coal_reachable healthy c2"
    unfolding c2_def using s1 by (intro coal_reachable.step [OF r1 coal_step.pop]) auto
  have s2: "co_sender c2 = Writing b" "\<not> co_kick c2" "co_queue c2 = drop 64 (co_queue ?c0)"
    "\<not> co_closed c2" "co_fatal c2 = None" "co_w c2 = healthy"
    using s1 c0(1) assms(1) by (auto simp: c2_def sender_pop_def pop_def Let_def b_def maxBatch_def min_def)
  have r3: "coal_reachable healthy c3"
    unfolding c3_def using s2 by (intro coal_reachable.step [OF r2 coal_step.send]) auto
  obtain s' where "windows_WriteBatch healthy b = ((length b, None), s')"
    using windows_healthy [of "snd healthy" "fst healthy" b] by (auto simp: healthy_def)
  from windows_writer.writeAll_accepted [OF this]
  have "\<exists>w'. writeAll windows_WriteBatch writeAttempts healthy b = (None, [], w')"
    by (simp add: writeAttempts_def numeral_eq_Suc)
  then have s3: "co_sender c3 = Waiting" "\<not> co_kick c3" "co_queue c3 = drop 64 (co_queue ?c0)"
    "\<not> co_closed c3" "co_fatal c3 = None"
    using s2 by (auto simp: c3_def sender_write_def)
  have "co_accepted c3 = co_accepted ?c0"
    by (simp add: c3_def c2_def c1_def)
  then show ?thesis using r3 s3 c0 by (intro exI [of _ c3]) auto
qed

theorem sender_leaves_tail_witness:
  "\<exists>c. coal_reachable healthy c \<and> length (co_queue c) = 36 \<and> co_sender c = Waiting \<and> \<not> co_kick c"
  using sender_leaves_tail_without_wakeup [of 100] by auto

end
