(* ===== verification/Upgrade_Zip.thy ===== *)
theory Upgrade_Zip
  imports Go_Strings
begin

text \<open>
  The self-update of \<open>ui2/upgrade.go\<close>: the archive's entry names and checksum list, extraction with
  verification, replacement of the program and of \<open>wintun.dll\<close> with \<open>.old\<close> rollback points, and the
  update process around them; it runs on Windows only. The file system is a map from paths to
  contents with a script that lets any operation fail (a copy may stop after some bytes). The two
  hash functions, the path of \<open>wintun.dll\<close> beside the program and the comparison of paths are
  parameters.
\<close>

section \<open>The file system\<close>

datatype io_fault = Fine | Fault | Partial nat

record ufs =
  uf_files :: "string \<Rightarrow> bytes option"
  uf_script :: "io_fault list"
  uf_started :: "string list"

definition next_fault :: "ufs \<Rightarrow> io_fault \<times> ufs" where
  "next_fault s = (case uf_script s of [] \<Rightarrow> (Fine, s) | f # fs \<Rightarrow> (f, s\<lparr> uf_script := fs \<rparr>))"

definition exists_file :: "ufs \<Rightarrow> string \<Rightarrow> bool" where
  "exists_file s p \<longleftrightarrow> uf_files s p \<noteq> None"

definition os_Remove :: "string \<Rightarrow> ufs \<Rightarrow> ufs" where
  "os_Remove p s =
     (let (f, s') = next_fault s in
      if f = Fine then s'\<lparr> uf_files := (uf_files s')(p := None) \<rparr> else s')"

text \<open>The first component is whether it succeeded.\<close>

definition os_Rename :: "string \<Rightarrow> string \<Rightarrow> ufs \<Rightarrow> bool \<times> ufs" where
  "os_Rename a b s =
     (let (f, s') = next_fault s in
      if f = Fine \<and> exists_file s' a then (True, s'\<lparr> uf_files := (uf_files s')(a := None, b := uf_files s' a) \<rparr>)
      else (False, s'))"

text \<open>Opening with \<open>O_TRUNC\<close> and copying: it may fail to open, or after some bytes.\<close>

definition write_file :: "string \<Rightarrow> bytes \<Rightarrow> ufs \<Rightarrow> bool \<times> ufs" where
  "write_file p b s =
     (let (f, s') = next_fault s in
      case f of
        Fine \<Rightarrow> (True, s'\<lparr> uf_files := (uf_files s')(p := Some b) \<rparr>)
      | Fault \<Rightarrow> (False, s')
      | Partial n \<Rightarrow> (False, s'\<lparr> uf_files := (uf_files s')(p := Some (take n b)) \<rparr>))"

fun retry_rename :: "nat \<Rightarrow> string \<Rightarrow> string \<Rightarrow> ufs \<Rightarrow> bool \<times> ufs" where
  "retry_rename 0 a b s = (False, s)"
| "retry_rename (Suc n) a b s =
     (let (ok, s') = os_Rename a b s in if ok then (True, s') else retry_rename n a b s')"

definition retryRename :: "string \<Rightarrow> string \<Rightarrow> ufs \<Rightarrow> bool \<times> ufs" where
  "retryRename a b s = retry_rename 25 a b s"

definition copyFileOverwrite_upd :: "string \<Rightarrow> string \<Rightarrow> ufs \<Rightarrow> bool \<times> ufs" where
  "copyFileOverwrite_upd src dest s =
     (case uf_files s src of None \<Rightarrow> (False, s) | Some b \<Rightarrow> write_file dest b s)"

definition old_of :: "string \<Rightarrow> string" where "old_of p = p @ ''.old''"
definition new_of :: "string \<Rightarrow> string" where "new_of p = p @ ''.new''"

datatype upd_err =
    OpenZip | BadPath string | NoExe | BadHashFile | NoHashes
  | MissingHash string | ReadFailed string | WriteFailed string | HashMismatch string
  | ReplaceFailed string | ReplaceAndRollbackFailed string

definition replaceFile :: "string \<Rightarrow> string \<Rightarrow> ufs \<Rightarrow> upd_err option \<times> ufs" where
  "replaceFile src dest s =
     (let old = old_of dest;
          s1 = os_Remove old s;
          (moved, s2) = (if exists_file s1 dest then retryRename dest old s1 else (True, s1)) in
      if \<not> moved then (Some (ReplaceFailed dest), s2)
      else let (ok, s3) = os_Rename src dest s2 in
        if ok then (None, s3)
        else let (ok', s4) = copyFileOverwrite_upd src dest s3 in
          if ok' then (None, os_Remove src s4)
          else if exists_file s4 old then
            (let (back, s5) = retryRename old dest s4
             in (Some (if back then ReplaceFailed dest else ReplaceAndRollbackFailed dest), s5))
          else (Some (ReplaceFailed dest), s4))"

section \<open>The archive\<close>

text \<open>\<open>ze_data\<close> is what reading yields, \<open>ze_read_ok\<close> whether it then ends without an error.\<close>

record zip_entry =
  ze_name :: string
  ze_dir :: bool
  ze_open_ok :: bool
  ze_data :: bytes
  ze_read_ok :: bool

definition drop_trailing :: "(char \<Rightarrow> bool) \<Rightarrow> string \<Rightarrow> string" where
  "drop_trailing P s = rev (dropWhile P (rev s))"

definition after_last :: "(char \<Rightarrow> bool) \<Rightarrow> string \<Rightarrow> string" where
  "after_last P s = rev (takeWhile (\<lambda>c. \<not> P c) (rev s))"

text \<open>\<open>filepath.Base\<close> on Windows, without the names of network shares.\<close>

definition is_sep :: "char \<Rightarrow> bool" where
  "is_sep c \<longleftrightarrow> c = CHR ''/'' \<or> c = CHR 0x5C"

definition strip_drive :: "string \<Rightarrow> string" where
  "strip_drive s = (case s of c # d # r \<Rightarrow> if d = CHR '':'' then r else s | _ \<Rightarrow> s)"

definition filepath_Base :: "string \<Rightarrow> string" where
  "filepath_Base p =
     (if p = [] then ''.''
      else let r = after_last is_sep (strip_drive (drop_trailing is_sep p))
           in if r = [] then [CHR 0x5C] else r)"

definition zipEntryBase :: "string \<Rightarrow> upd_err + string" where
  "zipEntryBase name =
     (let n = replace_char (CHR 0x5C) (CHR ''/'') name in
      if n = [] \<or> has_prefix ''/'' n \<or> contains_str '':'' n then Inl (BadPath name)
      else if ''..'' \<in> set (split_on (CHR ''/'') n) then Inl (BadPath name)
      else let base = filepath_Base n in
        if base = ''.'' \<or> base = [CHR 0x5C] \<or> base = [] then Inl (BadPath name) else Inr base)"

text \<open>\<open>strings.Fields\<close>.\<close>

definition space_at :: "string \<Rightarrow> bool" where
  "space_at s =
     (case s of
        [] \<Rightarrow> False
      | [a] \<Rightarrow> ascii_space a
      | [a, b] \<Rightarrow> ascii_space a \<or> space2 a b
      | a # b # c # _ \<Rightarrow> ascii_space a \<or> space2 a b \<or> space3 a b c)"

fun word_at :: "string \<Rightarrow> string" where
  "word_at [] = []"
| "word_at (c # s) = (if space_at (c # s) then [] else c # word_at s)"

lemma length_word_at: "length (word_at s) \<le> length s"
  by (induction s) auto

lemma length_trim_left: "length (trim_left s) \<le> length s"
  by (simp add: trim_left_def suffix_length_le trim_with_suffix)

function go_fields :: "string \<Rightarrow> string list" where
  "go_fields s =
     (let t = trim_left s; w = word_at t in
      if w = [] then [] else w # go_fields (drop (length w) t))"
  by pat_completeness auto
termination
proof (relation "measure length", goal_cases)
  case (2 s t w)
  then show ?case
    using length_word_at [of t] length_trim_left [of s] by (cases "trim_left s") (auto intro: diff_less_mono2)
qed simp

declare go_fields.simps [simp del]

definition md5_line :: "string \<Rightarrow> (string \<times> string) option" where
  "md5_line l =
     (let line = trim_space (trim_suffix [CHR 0x0D] l) in
      if line = [] \<or> has_prefix ''#'' line then None
      else let fields = go_fields line in
        if length fields < 2 then None
        else Some (trim_prefix ''*'' (to_lower (filepath_Base (last fields))), hd fields))"

definition parseMd5sumFile :: "string \<Rightarrow> string \<rightharpoonup> string" where
  "parseMd5sumFile s =
     foldl (\<lambda>m l. case md5_line l of None \<Rightarrow> m | Some (name, h) \<Rightarrow> m(name \<mapsto> h)) Map.empty
       (split_on (CHR 0x0A) s)"

definition no_hashes :: "string \<Rightarrow> bool" where
  "no_hashes s \<longleftrightarrow> list_all (\<lambda>l. md5_line l = None) (split_on (CHR 0x0A) s)"

definition bytes_str :: "bytes \<Rightarrow> string" where
  "bytes_str b = map (\<lambda>x. char_of (unat x)) b"

definition hex_digit :: "nat \<Rightarrow> char" where
  "hex_digit n = (if n < 10 then char_of (48 + n) else char_of (87 + n))"

definition hex_encode :: "bytes \<Rightarrow> string" where
  "hex_encode b = concat (map (\<lambda>x. [hex_digit (unat x div 16), hex_digit (unat x mod 16)]) b)"

text \<open>What to check: nothing without a list, \<open>''-''\<close> for a file the list lacks, else its hash.\<close>

definition hashFor :: "(string \<rightharpoonup> string) option \<Rightarrow> string \<Rightarrow> string" where
  "hashFor hashes base =
     (case hashes of
        None \<Rightarrow> []
      | Some m \<Rightarrow> (case m (to_lower base) of None \<Rightarrow> ''-'' | Some h \<Rightarrow> h))"

definition extractTo ::
  "(bytes \<Rightarrow> bytes) \<Rightarrow> zip_entry \<Rightarrow> string \<Rightarrow> string \<Rightarrow> ufs \<Rightarrow> upd_err option \<times> ufs" where
  "extractTo hash f dest want s =
     (if want = ''-'' then (Some (MissingHash dest), s)
      else if \<not> ze_open_ok f then (Some (ReadFailed dest), s)
      else let (ok, s') = write_file dest (ze_data f) s in
        if \<not> ok then (Some (WriteFailed dest), s')
        else if \<not> ze_read_ok f then (Some (ReadFailed dest), s')
        else if want \<noteq> [] \<and> \<not> equal_fold (hex_encode (hash (ze_data f))) want
          then (Some (HashMismatch dest), s')
        else (None, s'))"

record zip_parts =
  zp_exe :: "zip_entry option"
  zp_dll :: "zip_entry option"
  zp_sha :: "zip_entry option"
  zp_md5 :: "zip_entry option"

definition no_parts :: zip_parts where
  "no_parts = \<lparr> zp_exe = None, zp_dll = None, zp_sha = None, zp_md5 = None \<rparr>"

fun find_parts :: "zip_parts \<Rightarrow> zip_entry list \<Rightarrow> upd_err + zip_parts" where
  "find_parts p [] = Inr p"
| "find_parts p (f # fs) =
     (if ze_dir f then find_parts p fs
      else case zipEntryBase (ze_name f) of
        Inl e \<Rightarrow> Inl e
      | Inr base \<Rightarrow>
          (let b = to_lower base in
           find_parts
             (if b = ''sha256sum.txt'' then p\<lparr> zp_sha := Some f \<rparr>
              else if b = ''md5sum.txt'' then p\<lparr> zp_md5 := Some f \<rparr>
              else if b = ''wintun.dll'' then p\<lparr> zp_dll := Some f \<rparr>
              else if has_suffix ''.exe'' b then p\<lparr> zp_exe := Some f \<rparr>
              else p) fs))"

definition readHashFile :: "zip_entry \<Rightarrow> (upd_err + string)" where
  "readHashFile f =
     (if ze_open_ok f \<and> ze_read_ok f then Inr (bytes_str (ze_data f)) else Inl BadHashFile)"

text \<open>The list to check against, and whether it is the SHA-256 one.\<close>

definition hash_list :: "zip_parts \<Rightarrow> upd_err + (bool \<times> (string \<rightharpoonup> string) option)" where
  "hash_list p =
     (let pick = (\<lambda>sha f. case readHashFile f of
            Inl e \<Rightarrow> Inl e
          | Inr t \<Rightarrow> if no_hashes t then Inl NoHashes else Inr (sha, Some (parseMd5sumFile t)))
      in case zp_sha p of
           Some f \<Rightarrow> pick True f
         | None \<Rightarrow> (case zp_md5 p of Some f \<Rightarrow> pick False f | None \<Rightarrow> Inr (False, None)))"

section \<open>Applying an archive\<close>

text \<open>\<open>archive\<close> is the opened archive, or \<open>None\<close> when it cannot be opened; \<open>dll\<close> is the path of
  \<open>wintun.dll\<close> in the program's directory.\<close>

definition applyZip ::
  "(bytes \<Rightarrow> bytes) \<Rightarrow> (bytes \<Rightarrow> bytes) \<Rightarrow> zip_entry list option \<Rightarrow> string \<Rightarrow> string \<Rightarrow> ufs
   \<Rightarrow> upd_err option \<times> ufs" where
  "applyZip sha256 md5 archive target dll s =
     (case archive of
        None \<Rightarrow> (Some OpenZip, s)
      | Some files \<Rightarrow>
        (case find_parts no_parts files of
           Inl e \<Rightarrow> (Some e, s)
         | Inr p \<Rightarrow>
           (case zp_exe p of
              None \<Rightarrow> (Some NoExe, s)
            | Some exeSrc \<Rightarrow>
              (case hash_list p of
                 Inl e \<Rightarrow> (Some e, s)
               | Inr (sha, hashes) \<Rightarrow>
                 (let hash = (if sha then sha256 else md5);
                      exeBase = to_lower (filepath_Base (ze_name exeSrc));
                      exeTmp = new_of target;
                      (e1, s1) = extractTo hash exeSrc exeTmp (hashFor hashes exeBase) s in
                  if e1 \<noteq> None then (e1, os_Remove exeTmp s1)
                  else
                  let (e2, s2) =
                    (case zp_dll p of
                       None \<Rightarrow> (None, s1)
                     | Some dllSrc \<Rightarrow> extractTo hash dllSrc (new_of dll) (hashFor hashes ''wintun.dll'') s1) in
                  if e2 \<noteq> None then (e2, os_Remove (new_of dll) (os_Remove exeTmp s2))
                  else
                  let (e3, s3) = replaceFile exeTmp target s2 in
                  if e3 \<noteq> None then
                    (e3, (case zp_dll p of
                            None \<Rightarrow> os_Remove exeTmp s3
                          | Some _ \<Rightarrow> os_Remove (new_of dll) (os_Remove exeTmp s3)))
                  else if zp_dll p = None then (None, s3)
                  else
                  let (e4, s4) = replaceFile (new_of dll) dll s3 in
                  if e4 = None then (None, s4)
                  else if exists_file s4 (old_of target) then
                    (let (back, s5) = retryRename (old_of target) target s4
                     in (if back then e4 else Some (ReplaceAndRollbackFailed target), s5))
                  else (e4, s4))))))"

section \<open>The update process\<close>

text \<open>Starting a program may fail; the ones started are recorded.\<close>

definition start_program :: "string \<Rightarrow> ufs \<Rightarrow> bool \<times> ufs" where
  "start_program exe s =
     (let (f, s') = next_fault s in
      if f = Fine then (True, s'\<lparr> uf_started := uf_started s' @ [exe] \<rparr>) else (False, s'))"

definition restoreAndRestart :: "string \<Rightarrow> ufs \<Rightarrow> ufs" where
  "restoreAndRestart target s =
     (if \<not> exists_file s (old_of target) then s
      else let (ok, s') = retryRename (old_of target) target s in
        if \<not> ok then s' else snd (start_program target s'))"

text \<open>The exit status and what is left. \<open>same\<close> is \<open>sameFilePath\<close> and \<open>self\<close> the running program.\<close>

definition RunSelfUpdate ::
  "(bytes \<Rightarrow> bytes) \<Rightarrow> (bytes \<Rightarrow> bytes) \<Rightarrow> (string \<Rightarrow> string \<Rightarrow> bool) \<Rightarrow> (string \<Rightarrow> zip_entry list option)
   \<Rightarrow> (string \<Rightarrow> string) \<Rightarrow> string \<Rightarrow> string \<Rightarrow> string \<Rightarrow> ufs \<Rightarrow> nat \<times> ufs" where
  "RunSelfUpdate sha256 md5 same open_zip dll_of self zipPath target0 s =
     (let target = (if target0 = [] then self else target0) in
      if \<not> same target self then (1, s)
      else if zipPath = [] then (1, s)
      else let (err, s1) = applyZip sha256 md5 (open_zip zipPath) target (dll_of target) s in
        if err \<noteq> None then (1, restoreAndRestart target s1)
        else let (ok, s2) = start_program target s1 in
          if \<not> ok then (1, restoreAndRestart target s2)
          else (0, os_Remove zipPath s2))"

section \<open>What each operation changes\<close>

lemma next_fault_files:
  "next_fault s = (f, s') \<Longrightarrow> uf_files s' = uf_files s \<and> uf_started s' = uf_started s"
  by (auto simp: next_fault_def split: list.splits)

lemma os_Remove_other: "q \<noteq> p \<Longrightarrow> uf_files (os_Remove p s) q = uf_files s q"
  by (auto simp: os_Remove_def dest!: next_fault_files split: prod.splits)

lemma os_Rename_True:
  "os_Rename a b s = (True, s') \<Longrightarrow>
     uf_files s' = (uf_files s)(a := None, b := uf_files s a) \<and> uf_files s a \<noteq> None"
  by (auto simp: os_Rename_def exists_file_def dest!: next_fault_files split: prod.splits if_splits)

lemma os_Rename_False: "os_Rename a b s = (False, s') \<Longrightarrow> uf_files s' = uf_files s"
  by (auto simp: os_Rename_def dest!: next_fault_files split: prod.splits if_splits)

lemma retry_rename_True:
  "retry_rename n a b s = (True, s') \<Longrightarrow>
     uf_files s' = (uf_files s)(a := None, b := uf_files s a) \<and> uf_files s a \<noteq> None"
proof (induction n arbitrary: s)
  case (Suc n)
  obtain ok s1 where r: "os_Rename a b s = (ok, s1)" by fastforce
  then show ?case
    using Suc.IH [of s1] Suc.prems os_Rename_True [of a b s s'] os_Rename_False [of a b s s1] by (cases ok) auto
qed simp

lemma retry_rename_False: "retry_rename n a b s = (False, s') \<Longrightarrow> uf_files s' = uf_files s"
  by (induction n arbitrary: s) (auto dest: os_Rename_False split: prod.splits if_splits)

lemmas retryRename_True = retry_rename_True [of 25, folded retryRename_def]
lemmas retryRename_False = retry_rename_False [of 25, folded retryRename_def]

lemma write_file_other: "write_file p b s = (ok, s') \<Longrightarrow> q \<noteq> p \<Longrightarrow> uf_files s' q = uf_files s q"
  by (auto simp: write_file_def dest!: next_fault_files split: prod.splits io_fault.splits)

lemma write_file_True: "write_file p b s = (True, s') \<Longrightarrow> uf_files s' p = Some b"
  by (auto simp: write_file_def split: prod.splits io_fault.splits)

lemma copy_other:
  "copyFileOverwrite_upd src dest s = (ok, s') \<Longrightarrow> q \<noteq> dest \<Longrightarrow> uf_files s' q = uf_files s q"
  by (auto simp: copyFileOverwrite_upd_def dest: write_file_other split: option.splits)

lemma copy_True:
  "copyFileOverwrite_upd src dest s = (True, s') \<Longrightarrow> uf_files s' dest = uf_files s src \<and> uf_files s src \<noteq> None"
  by (auto simp: copyFileOverwrite_upd_def dest: write_file_True split: option.splits)

lemma old_of_neq [simp]: "old_of p \<noteq> p" "p \<noteq> old_of p"
  by (auto simp: old_of_def)

lemma new_of_neq [simp]: "new_of p \<noteq> p" "p \<noteq> new_of p" "new_of p \<noteq> old_of p" "old_of p \<noteq> new_of p"
  by (auto simp: new_of_def old_of_def)

section \<open>Replacing a file\<close>

definition rollback_failed :: "upd_err \<Rightarrow> bool" where
  "rollback_failed e \<longleftrightarrow> (\<exists>p. e = ReplaceAndRollbackFailed p)"

text \<open>The part of \<open>replaceFile\<close> before the new file is moved in.\<close>

lemma moved_away:
  assumes "(if exists_file (os_Remove (old_of dest) s) dest
            then retryRename dest (old_of dest) (os_Remove (old_of dest) s)
            else (True, os_Remove (old_of dest) s)) = (moved, s2)"
  shows "\<And>q. q \<noteq> dest \<Longrightarrow> q \<noteq> old_of dest \<Longrightarrow> uf_files s2 q = uf_files s q"
    and "\<not> moved \<Longrightarrow> uf_files s2 dest = uf_files s dest"
    and "moved \<Longrightarrow> uf_files s dest = Some c \<Longrightarrow> uf_files s2 (old_of dest) = Some c"
    and "moved \<Longrightarrow> uf_files s2 dest = None"
  using assms os_Remove_other [of _ "old_of dest" s]
  by (cases moved; auto simp: exists_file_def split: if_splits dest!: retryRename_True retryRename_False)+

lemma replaceFile_other:
  assumes "replaceFile src dest s = (e, s')" "q \<noteq> src" "q \<noteq> dest" "q \<noteq> old_of dest"
  shows "uf_files s' q = uf_files s q"
proof -
  obtain moved s2 where m: "(if exists_file (os_Remove (old_of dest) s) dest
            then retryRename dest (old_of dest) (os_Remove (old_of dest) s)
            else (True, os_Remove (old_of dest) s)) = (moved, s2)" by fastforce
  note mv = moved_away(1) [OF m assms(3,4)]
  show ?thesis
    using assms(1) m mv assms(2-)
    by (auto simp: replaceFile_def Let_def os_Remove_other
      dest!: os_Rename_True os_Rename_False retryRename_True retryRename_False
      dest: copy_other split: if_splits prod.splits)
qed

lemma replaceFile_None:
  assumes "replaceFile src dest s = (None, s')" "src \<noteq> dest" "src \<noteq> old_of dest"
  shows "uf_files s' dest = uf_files s src \<and> uf_files s src \<noteq> None \<and>
    (\<forall>c. uf_files s dest = Some c \<longrightarrow> uf_files s' (old_of dest) = Some c)"
proof -
  obtain moved s2 where m: "(if exists_file (os_Remove (old_of dest) s) dest
            then retryRename dest (old_of dest) (os_Remove (old_of dest) s)
            else (True, os_Remove (old_of dest) s)) = (moved, s2)" by fastforce
  have mv: moved using assms(1) m by (auto simp: replaceFile_def Let_def split: if_splits)
  obtain ok s3 where r: "os_Rename src dest s2 = (ok, s3)" by fastforce
  show ?thesis
  proof (cases ok)
    case True
    then show ?thesis
      using assms m mv r moved_away [OF m] by (auto simp: replaceFile_def Let_def dest!: os_Rename_True)
  next
    case False
    obtain ok' s4 where c: "copyFileOverwrite_upd src dest s3 = (ok', s4)" by fastforce
    have ok' using assms(1) m mv r False c by (auto simp: replaceFile_def Let_def split: if_splits prod.splits)
    then show ?thesis
      using assms m mv r False c moved_away [OF m] os_Rename_False [of src dest s2 s3]
        copy_True [of src dest s3 s4] copy_other [OF c, of "old_of dest"]
      by (auto simp: replaceFile_def Let_def os_Remove_other)
  qed
qed

text \<open>Unless it says that the rollback failed too, a failed replacement leaves the file as it was.\<close>

lemma replaceFile_Some:
  assumes "replaceFile src dest s = (Some e, s')" "src \<noteq> dest" "src \<noteq> old_of dest"
    and "\<not> rollback_failed e" "uf_files s dest = Some c"
  shows "uf_files s' dest = Some c"
proof -
  obtain moved s2 where m: "(if exists_file (os_Remove (old_of dest) s) dest
            then retryRename dest (old_of dest) (os_Remove (old_of dest) s)
            else (True, os_Remove (old_of dest) s)) = (moved, s2)" by fastforce
  show ?thesis
  proof (cases moved)
    case False
    then show ?thesis
      using assms m moved_away [OF m] by (auto simp: replaceFile_def Let_def)
  next
    case True
    obtain ok s3 where r: "os_Rename src dest s2 = (ok, s3)" by fastforce
    have "\<not> ok" using assms(1) m True r by (auto simp: replaceFile_def Let_def split: prod.splits)
    moreover obtain ok' s4 where c: "copyFileOverwrite_upd src dest s3 = (ok', s4)" by fastforce
    ultimately have bad: "\<not> ok" "\<not> ok'"
      using assms(1) m True r by (auto simp: replaceFile_def Let_def split: prod.splits)
    have "uf_files s4 (old_of dest) = Some c"
      using moved_away(3) [OF m True assms(5)] r bad copy_other [OF c, of "old_of dest"] os_Rename_False
      by auto
    moreover obtain ok2 s5 where "retryRename (old_of dest) dest s4 = (ok2, s5)" by fastforce
    ultimately show ?thesis
      using assms(1,4) m True r c bad
      by (auto simp: replaceFile_def Let_def exists_file_def rollback_failed_def
        dest!: retryRename_True split: if_splits)
  qed
qed

section \<open>Applying an archive\<close>

lemma extractTo_other:
  "extractTo hash f dest want s = (e, s') \<Longrightarrow> q \<noteq> dest \<Longrightarrow> uf_files s' q = uf_files s q"
  by (auto simp: extractTo_def split: if_splits prod.splits dest: write_file_other)

lemma extractTo_None:
  "extractTo hash f dest want s = (None, s') \<Longrightarrow>
     uf_files s' dest = Some (ze_data f) \<and> want \<noteq> ''-'' \<and>
     (want \<noteq> [] \<longrightarrow> equal_fold (hex_encode (hash (ze_data f))) want)"
  by (auto simp: extractTo_def split: if_splits prod.splits dest: write_file_True)

text \<open>The files an update touches are different ones.\<close>

definition upd_paths :: "string \<Rightarrow> string \<Rightarrow> bool" where
  "upd_paths target dll \<longleftrightarrow>
     distinct [target, old_of target, new_of target, dll, old_of dll, new_of dll]"

text \<open>How far an archive gets: what is to be installed and checked, or the error before anything is
  replaced.\<close>

lemma applyZip_stages:
  assumes "applyZip sha256 md5 archive target dll s = (e, s')"
  obtains (rejected) "e \<noteq> None"
      "\<And>q. q \<noteq> new_of target \<Longrightarrow> q \<noteq> new_of dll \<Longrightarrow> uf_files s' q = uf_files s q"
  | (replace) files p exe sha hashes s1 s2 where
      "archive = Some files" "find_parts no_parts files = Inr p" "zp_exe p = Some exe"
      "hash_list p = Inr (sha, hashes)"
      "extractTo (if sha then sha256 else md5) exe (new_of target)
         (hashFor hashes (to_lower (filepath_Base (ze_name exe)))) s = (None, s1)"
      "(case zp_dll p of None \<Rightarrow> (None, s1)
        | Some d \<Rightarrow> extractTo (if sha then sha256 else md5) d (new_of dll) (hashFor hashes ''wintun.dll'') s1)
       = (None, s2)"
proof -
  note * = that
  show thesis
  proof (cases "\<exists>files p exe sha hashes s1 s2. archive = Some files \<and> find_parts no_parts files = Inr p \<and>
      zp_exe p = Some exe \<and> hash_list p = Inr (sha, hashes) \<and>
      extractTo (if sha then sha256 else md5) exe (new_of target)
         (hashFor hashes (to_lower (filepath_Base (ze_name exe)))) s = (None, s1) \<and>
      (case zp_dll p of None \<Rightarrow> (None, s1)
        | Some d \<Rightarrow> extractTo (if sha then sha256 else md5) d (new_of dll) (hashFor hashes ''wintun.dll'') s1)
       = (None, s2)")
    case True
    then show thesis using *(2) by blast
  next
    case False
    show thesis
    proof (rule *(1))
      show "e \<noteq> None"
        using assms False
        by (auto simp: applyZip_def Let_def split: option.splits sum.splits prod.splits if_splits)
      show "uf_files s' q = uf_files s q" if "q \<noteq> new_of target" "q \<noteq> new_of dll" for q
        using assms False that
        by (auto simp: applyZip_def Let_def os_Remove_other extractTo_other
          split: option.splits sum.splits prod.splits if_splits)
    qed
  qed
qed

text \<open>The second half: both replacements.\<close>

lemma applyZip_replace:
  assumes "applyZip sha256 md5 (Some files) target dll s = (e, s')"
    and "find_parts no_parts files = Inr p" "zp_exe p = Some exe" "hash_list p = Inr (sha, hashes)"
    and "extractTo (if sha then sha256 else md5) exe (new_of target)
         (hashFor hashes (to_lower (filepath_Base (ze_name exe)))) s = (None, s1)"
    and "(case zp_dll p of None \<Rightarrow> (None, s1)
        | Some d \<Rightarrow> extractTo (if sha then sha256 else md5) d (new_of dll) (hashFor hashes ''wintun.dll'') s1)
       = (None, s2)"
  obtains (exe_failed) e3 s3 where "replaceFile (new_of target) target s2 = (Some e3, s3)" "e = Some e3"
      "\<And>q. q \<noteq> new_of target \<Longrightarrow> q \<noteq> new_of dll \<Longrightarrow> uf_files s' q = uf_files s3 q"
  | (exe_only) "replaceFile (new_of target) target s2 = (None, s')" "e = None" "zp_dll p = None"
  | (both) s3 where "replaceFile (new_of target) target s2 = (None, s3)" "zp_dll p \<noteq> None"
      "replaceFile (new_of dll) dll s3 = (None, s')" "e = None"
  | (dll_failed) s3 e4 s4 where "replaceFile (new_of target) target s2 = (None, s3)" "zp_dll p \<noteq> None"
      "replaceFile (new_of dll) dll s3 = (Some e4, s4)"
      "(if exists_file s4 (old_of target) then
          (let (ok, s5) = retryRename (old_of target) target s4
           in (if ok then Some e4 else Some (ReplaceAndRollbackFailed target), s5))
        else (Some e4, s4)) = (e, s')"
proof -
  obtain e3 s3 where r3: "replaceFile (new_of target) target s2 = (e3, s3)" by fastforce
  obtain e4 s4 where r4: "replaceFile (new_of dll) dll s3 = (e4, s4)" by fastforce
  have unf: "applyZip sha256 md5 (Some files) target dll s =
      (if e3 \<noteq> None then
         (e3, (case zp_dll p of None \<Rightarrow> os_Remove (new_of target) s3
               | Some _ \<Rightarrow> os_Remove (new_of dll) (os_Remove (new_of target) s3)))
       else if zp_dll p = None then (None, s3)
       else if e4 = None then (None, s4)
       else if exists_file s4 (old_of target) then
         (let (ok, s5) = retryRename (old_of target) target s4
          in (if ok then e4 else Some (ReplaceAndRollbackFailed target), s5))
       else (e4, s4))"
    using assms(2-6) r3 r4 by (simp add: applyZip_def Let_def)
  note * = that
  show thesis
  proof (cases e3)
    case (Some x)
    then show thesis using assms(1) r3 unfolding unf
      by (intro *(1) [of x s3]) (auto simp: os_Remove_other split: option.splits)
  next
    case None
    then show thesis
    proof (cases "zp_dll p = None")
      case True
      then show thesis using assms(1) r3 None unfolding unf by (intro *(2)) auto
    next
      case False
      show thesis
      proof (cases e4)
        case None': None
        then show thesis using assms(1) r3 r4 None False unfolding unf by (intro *(3)) auto
      next
        case Some': (Some x)
        then show thesis using assms(1) r3 r4 None False unfolding unf by (intro *(4)) auto
      qed
    qed
  qed
qed

text \<open>What extraction leaves in place before anything is replaced.\<close>

lemma extracted:
  assumes "upd_paths target dll"
    and "extractTo h exe (new_of target) w s = (None, s1)"
    and "(case od of None \<Rightarrow> (None, s1) | Some d \<Rightarrow> extractTo h d (new_of dll) w' s1) = (None, s2)"
  shows "uf_files s2 (new_of target) = Some (ze_data exe)"
    and "\<And>q. q \<noteq> new_of target \<Longrightarrow> q \<noteq> new_of dll \<Longrightarrow> uf_files s2 q = uf_files s q"
    and "\<And>d. od = Some d \<Longrightarrow> uf_files s2 (new_of dll) = Some (ze_data d)"
proof -
  have "uf_files s2 q = uf_files s1 q" if "q \<noteq> new_of dll" for q
    using assms(3) that extractTo_other by (auto split: option.splits)
  then show "uf_files s2 (new_of target) = Some (ze_data exe)"
    and "\<And>q. q \<noteq> new_of target \<Longrightarrow> q \<noteq> new_of dll \<Longrightarrow> uf_files s2 q = uf_files s q"
    using assms(1,2) extractTo_None extractTo_other by (auto simp: upd_paths_def)
  show "\<And>d. od = Some d \<Longrightarrow> uf_files s2 (new_of dll) = Some (ze_data d)"
    using assms(3) extractTo_None by auto
qed

lemma upd_pathsD:
  assumes "upd_paths target dll"
  shows "new_of target \<noteq> target" "new_of target \<noteq> old_of target" "new_of dll \<noteq> dll" "new_of dll \<noteq> old_of dll"
    "dll \<noteq> target" "dll \<noteq> old_of target" "dll \<noteq> new_of target"
    "new_of dll \<noteq> new_of target" "new_of dll \<noteq> target" "new_of dll \<noteq> old_of target"
    "target \<noteq> old_of dll" "old_of target \<noteq> old_of dll" "old_of target \<noteq> dll" "old_of dll \<noteq> new_of target"
    "target \<noteq> new_of dll" "target \<noteq> dll" "old_of target \<noteq> new_of dll"
  using assms by (auto simp: upd_paths_def)

section \<open>Entry names\<close>

lemma index_of_None: "index_of [c] s = None \<longleftrightarrow> c \<notin> set s"
  by (induction s) (auto simp: has_prefix_def)

lemma contains_char: "contains_str [c] s \<longleftrightarrow> c \<in> set s"
  by (simp add: contains_str_def index_of_None)

lemma after_last_free: "x \<in> set (after_last P s) \<Longrightarrow> \<not> P x"
  by (auto simp: after_last_def dest: set_takeWhileD)

text \<open>The last part of a path is one of its parts.\<close>

lemma split_on_sep: "split_on d (s @ d # r) = split_on d s @ split_on d r"
proof (induction s)
  case (Cons a s)
  then show ?case by (cases "split_on d s") auto
qed simp

lemma after_last_part: "after_last (\<lambda>c. c = d) s \<in> set (split_on d s)"
proof (cases "d \<in> set s")
  case True
  then obtain u v where s: "s = u @ d # v" "d \<notin> set v"
    by (meson split_list_last)
  then have "takeWhile (\<lambda>c. c \<noteq> d) (rev v @ d # rev u) = rev v"
    by (subst takeWhile_append2) auto
  then have "after_last (\<lambda>c. c = d) s = v"
    by (simp add: after_last_def s)
  with s show ?thesis by (simp add: split_on_sep split_on_absent)
next
  case False
  then have "takeWhile (\<lambda>c. c \<noteq> d) (rev s) = rev s"
    unfolding takeWhile_eq_all_conv by auto
  then have "after_last (\<lambda>c. c = d) s = s"
    unfolding after_last_def by (simp only: rev_rev_ident)
  with False show ?thesis by (simp add: split_on_absent)
qed

lemma drop_trailing_split: "s = drop_trailing P s \<or> (\<exists>c r. P c \<and> s = drop_trailing P s @ c # r)"
proof -
  define tl where "tl = rev (takeWhile P (rev s))"
  have s: "s = drop_trailing P s @ tl"
    unfolding tl_def by (metis drop_trailing_def rev_append rev_rev_ident takeWhile_dropWhile_id)
  show ?thesis
  proof (cases tl)
    case Nil
    with s show ?thesis by simp
  next
    case (Cons c r)
    then have "c \<in> set (takeWhile P (rev s))" unfolding tl_def by (metis list.set_intros(1) set_rev)
    with s Cons show ?thesis by (metis set_takeWhileD)
  qed
qed

section \<open>The properties\<close>

text \<open>An archive entry that is accepted goes by a plain file name: not empty, not the current or the
  parent directory, without a path separator of either kind and without a drive.\<close>
theorem entry_name_is_plain:
  assumes "zipEntryBase name = Inr base"
  shows "base \<notin> {[], ''.'', ''..''} \<and> CHR ''/'' \<notin> set base \<and> CHR 0x5C \<notin> set base \<and> CHR '':'' \<notin> set base"
proof -
  define n where "n = replace_char (CHR 0x5C) (CHR ''/'') name"
  have n: "n \<noteq> []" "CHR '':'' \<notin> set n" "''..'' \<notin> set (split_on (CHR ''/'') n)" "base = filepath_Base n"
    and base: "base \<noteq> ''.''" "base \<noteq> [CHR 0x5C]" "base \<noteq> []"
    using assms by (auto simp: zipEntryBase_def Let_def n_def contains_char split: if_splits)
  have nb: "CHR 0x5C \<notin> set n" by (auto simp: n_def replace_char_def)
  define t where "t = drop_trailing is_sep n"
  have sub: "set t \<subseteq> set n" by (auto simp: t_def drop_trailing_def dest: set_dropWhileD)
  then have "strip_drive t = t"
    using n(2) by (auto simp: strip_drive_def split: list.splits)
  then have b: "base = after_last is_sep t"
    using n base by (auto simp: filepath_Base_def Let_def t_def split: if_splits)
  have chars: "set base \<subseteq> set n"
    using sub unfolding b after_last_def by (auto dest!: set_takeWhileD)
  moreover have "CHR ''/'' \<notin> set base"
    using after_last_free [of _ is_sep t] b by (auto simp: is_sep_def)
  moreover have "base \<noteq> ''..''"
  proof -
    have "is_sep c \<longleftrightarrow> c = CHR ''/''" if "c \<in> set n" for c
      using that nb by (auto simp: is_sep_def)
    then have *: "\<And>c. c \<in> set (rev t) \<Longrightarrow> (\<not> is_sep c) = (c \<noteq> CHR ''/'')"
      using sub by auto
    have "after_last is_sep t = after_last (\<lambda>c. c = CHR ''/'') t"
      unfolding after_last_def by (rule arg_cong [where f = rev], rule takeWhile_cong [OF refl *])
    then have "base \<in> set (split_on (CHR ''/'') t)"
      using b after_last_part by simp
    moreover have "set (split_on (CHR ''/'') t) \<subseteq> set (split_on (CHR ''/'') n)"
    proof (rule disjE [OF drop_trailing_split [of n is_sep]])
      assume "\<exists>c r. is_sep c \<and> n = drop_trailing is_sep n @ c # r"
      then obtain c r where c: "is_sep c" "n = t @ c # r" by (auto simp: t_def)
      then have "c = CHR ''/''" using nb by (auto simp: is_sep_def)
      with c show ?thesis by (simp add: split_on_sep)
    qed (simp add: t_def)
    ultimately show ?thesis using n(3) by auto
  qed
  ultimately show ?thesis using base nb n(2) by blast
qed

theorem entry_name_is_plain_witness:
  "zipEntryBase ''sub/dir/goodlink.exe'' = Inr ''goodlink.exe'' \<and> ''goodlink.exe'' \<noteq> ''..''"
proof -
  have z: "zipEntryBase ''sub/dir/goodlink.exe'' = Inr ''goodlink.exe''"
    by code_simp
  with entry_name_is_plain [OF z] show ?thesis by auto
qed

text \<open>What an accepted archive promises: its program entry, and the hash it has to have.\<close>

definition checked_entry :: "(bytes \<Rightarrow> bytes) \<Rightarrow> (string \<rightharpoonup> string) option \<Rightarrow> string \<Rightarrow> zip_entry \<Rightarrow> bool" where
  "checked_entry hash hashes base f \<longleftrightarrow>
     (case hashes of None \<Rightarrow> True
      | Some m \<Rightarrow> (\<exists>h. m (to_lower base) = Some h \<and> (h = [] \<or> equal_fold (hex_encode (hash (ze_data f))) h)))"

lemma extractTo_checked:
  assumes "extractTo hash f dest (hashFor hashes base) s = (None, s')"
  shows "checked_entry hash hashes base f"
  using extractTo_None [OF assms] by (auto simp: checked_entry_def hashFor_def split: option.splits)

definition sample_zip :: "zip_entry list" where
  "sample_zip =
     [\<lparr> ze_name = ''goodlink.exe'', ze_dir = False, ze_open_ok = True, ze_data = [1, 2, 3], ze_read_ok = True \<rparr>,
      \<lparr> ze_name = ''wintun.dll'', ze_dir = False, ze_open_ok = True, ze_data = [4, 5], ze_read_ok = True \<rparr>]"

definition sample_fs :: "io_fault list \<Rightarrow> ufs" where
  "sample_fs faults = \<lparr> uf_files = [''p/g.exe'' \<mapsto> [9], ''p/wintun.dll'' \<mapsto> [8]], uf_script = faults, uf_started = [] \<rparr>"

definition dll_fault :: "io_fault list" where
  "dll_fault = [Fine, Fine, Fine, Fine, Fine, Fine, Fine, Fault, Partial 1]"

lemma sample_paths: "upd_paths ''p/g.exe'' ''p/wintun.dll''"
  by (simp add: upd_paths_def old_of_def new_of_def)

lemma sample_runs:
  "fst (applyZip id id (Some sample_zip) ''p/g.exe'' ''p/wintun.dll'' (sample_fs [])) = None"
  "fst (applyZip id id (Some sample_zip) ''p/g.exe'' ''p/wintun.dll'' (sample_fs dll_fault)) =
     Some (ReplaceFailed ''p/wintun.dll'')"
  by code_simp+

text \<open>C24 An update that reports success has installed the archive: the program is the archive's program
  entry and, if the archive has a \<open>wintun.dll\<close>, so is that file; both passed the checksum list when
  the archive has one (SHA-256 before MD5); and the program that was there is kept as the
  rollback point.\<close>
theorem update_installs_checked_files:
  assumes "applyZip sha256 md5 (Some files) target dll s = (None, s')" "upd_paths target dll"
  shows "\<exists>p exe sha hashes.
    find_parts no_parts files = Inr p \<and> zp_exe p = Some exe \<and> hash_list p = Inr (sha, hashes) \<and>
    uf_files s' target = Some (ze_data exe) \<and>
    checked_entry (if sha then sha256 else md5) hashes (to_lower (filepath_Base (ze_name exe))) exe \<and>
    (\<forall>d. zp_dll p = Some d \<longrightarrow> uf_files s' dll = Some (ze_data d) \<and>
       checked_entry (if sha then sha256 else md5) hashes ''wintun.dll'' d) \<and>
    (\<forall>c. uf_files s target = Some c \<longrightarrow> uf_files s' (old_of target) = Some c)"
  using assms(1)
proof (cases rule: applyZip_stages)
  case rejected
  then show ?thesis by simp
next
  case (replace files' p exe sha hashes s1 s2)
  note paths = upd_pathsD [OF assms(2)]
  note ex = extracted [OF assms(2) replace(5,6)]
  have files': "files' = files" using replace(1) by simp
  have chk: "checked_entry (if sha then sha256 else md5) hashes (to_lower (filepath_Base (ze_name exe))) exe"
    using extractTo_checked [OF replace(5)] .
  have chk2: "checked_entry (if sha then sha256 else md5) hashes ''wintun.dll'' d" if "zp_dll p = Some d" for d
    using replace(6) that extractTo_checked by auto
  have kept: "uf_files s2 target = uf_files s target"
    using ex(2) paths by auto
  have "uf_files s' target = Some (ze_data exe) \<and>
    (\<forall>d. zp_dll p = Some d \<longrightarrow> uf_files s' dll = Some (ze_data d)) \<and>
    (\<forall>c. uf_files s target = Some c \<longrightarrow> uf_files s' (old_of target) = Some c)"
    using assms(1) replace(2) [unfolded files'] replace(3-6)
  proof (cases rule: applyZip_replace)
    case exe_only
    then show ?thesis
      using replaceFile_None [OF exe_only(1)] paths ex kept by auto
  next
    case (both s3)
    then obtain d where d: "zp_dll p = Some d" by auto
    note r1 = replaceFile_None [OF both(1)] and o1 = replaceFile_other [OF both(1)]
      and r2 = replaceFile_None [OF both(3)] and o2 = replaceFile_other [OF both(3)]
    have "uf_files s3 (new_of dll) = Some (ze_data d)"
      using o1 [of "new_of dll"] paths ex(3) [OF d] by auto
    then show ?thesis
      using r1 r2 o2 [of target] o2 [of "old_of target"] paths ex(1) kept d by auto
  qed (auto split: if_splits prod.splits)
  with replace(2-4) chk chk2 files' show ?thesis by blast
qed

theorem update_installs_checked_files_witness:
  "\<exists>s'. applyZip id id (Some sample_zip) ''p/g.exe'' ''p/wintun.dll'' (sample_fs []) = (None, s') \<and>
     uf_files s' (old_of ''p/g.exe'') = Some [9]"
proof -
  obtain s' where s': "applyZip id id (Some sample_zip) ''p/g.exe'' ''p/wintun.dll'' (sample_fs []) = (None, s')"
    using sample_runs(1) by (metis prod.collapse)
  from update_installs_checked_files [OF s' sample_paths] have
    "\<forall>c. uf_files (sample_fs []) ''p/g.exe'' = Some c \<longrightarrow> uf_files s' (old_of ''p/g.exe'') = Some c"
    by blast
  with s' show ?thesis by (simp add: sample_fs_def)
qed



text \<open>An error from before anything was replaced: the archive or its check failed.\<close>

definition before_replacing :: "upd_err \<Rightarrow> bool" where
  "before_replacing e \<longleftrightarrow> \<not> (\<exists>p. e = ReplaceFailed p \<or> e = ReplaceAndRollbackFailed p)"

lemma replaceFile_error: "replaceFile src dest s = (Some e, s') \<Longrightarrow> \<not> before_replacing e"
  by (auto simp: replaceFile_def Let_def before_replacing_def split: if_splits prod.splits)

lemma rejected_keeps_all:
  assumes "applyZip sha256 md5 archive target dll s = (Some e, s')" "before_replacing e"
    and "q \<noteq> new_of target" "q \<noteq> new_of dll"
  shows "uf_files s' q = uf_files s q"
  using assms(1)
proof (cases rule: applyZip_stages)
  case rejected
  then show ?thesis using assms(3,4) by auto
next
  case (replace files p exe sha hashes s1 s2)
  show ?thesis
    using assms(1) [unfolded replace(1)] replace(2-6)
  proof (cases rule: applyZip_replace)
    case (exe_failed e3 s3)
    then show ?thesis using replaceFile_error assms(2) by auto
  next
    case (dll_failed s3 e4 s4)
    then show ?thesis
      using replaceFile_error [OF dll_failed(3)] assms(2)
      by (auto simp: before_replacing_def split: if_splits prod.splits)
  qed auto
qed

lemma next_fault_script: "next_fault s = (f, s') \<Longrightarrow> uf_script s = [] \<Longrightarrow> f = Fine \<and> uf_script s' = [] \<and> s' = s"
  by (auto simp: next_fault_def)

lemma next_fault_done [simp]: "uf_script s = [] \<Longrightarrow> next_fault s = (Fine, s)"
  by (simp add: next_fault_def)

text \<open>C36 When an archive is rejected before anything was replaced (it cannot be opened, has no program,
  or fails its checksums), the running program is intact; yet the update process then ``restores''
  it from whatever rollback point lies beside it. If an earlier update left one, the
  program is put back to the version before that update and started; if there is none, nothing is
  started, although the interface has already quit to make way for the update.\<close>
theorem rejected_archive_downgrades_or_stops:
  assumes "applyZip sha256 md5 (open_zip zipPath) self (dll_of self) s = (Some e, s1)" "before_replacing e"
    and "uf_script s1 = []" "same self self" "zipPath \<noteq> []" "self \<noteq> []"
    and "upd_paths self (dll_of self)" "uf_files s self = Some current"
  shows "case RunSelfUpdate sha256 md5 same open_zip dll_of self zipPath self s of (status, s') \<Rightarrow>
    status = 1 \<and>
    (case uf_files s (old_of self) of
       Some older \<Rightarrow> uf_files s' self = Some older \<and> uf_started s' = uf_started s1 @ [self]
     | None \<Rightarrow> s' = s1 \<and> uf_files s' self = Some current)"
proof -
  note paths = upd_pathsD [OF assms(7)]
  have old: "uf_files s1 (old_of self) = uf_files s (old_of self)"
    and cur: "uf_files s1 self = Some current"
    using rejected_keeps_all [OF assms(1,2), of "old_of self"] rejected_keeps_all [OF assms(1,2), of self]
      paths assms(8) by auto
  have run: "RunSelfUpdate sha256 md5 same open_zip dll_of self zipPath self s = (1, restoreAndRestart self s1)"
    using assms by (simp add: RunSelfUpdate_def)
  show ?thesis
  proof (cases "uf_files s (old_of self)")
    case None
    then show ?thesis using run old cur by (simp add: restoreAndRestart_def exists_file_def)
  next
    case (Some older)
    define s2 where "s2 = s1\<lparr> uf_files := (uf_files s1)(old_of self := None, self := Some older) \<rparr>"
    have "os_Rename (old_of self) self s1 = (True, s2)"
      using old Some assms(3) by (simp add: os_Rename_def exists_file_def s2_def)
    then have "retryRename (old_of self) self s1 = (True, s2)"
      by (simp add: retryRename_def numeral_eq_Suc)
    then have "restoreAndRestart self s1 = s2\<lparr> uf_started := uf_started s2 @ [self] \<rparr>"
      using old Some assms(3) by (simp add: restoreAndRestart_def exists_file_def start_program_def s2_def)
    then show ?thesis using run Some by (simp add: s2_def)
  qed
qed

theorem rejected_archive_witness:
  "let s = (sample_fs [])\<lparr> uf_files := [''p/g.exe'' \<mapsto> [9], ''p/g.exe.old'' \<mapsto> [7]] \<rparr>;
       (status, s') = RunSelfUpdate id id (=) (\<lambda>_. None) (\<lambda>_. ''p/wintun.dll'') ''p/g.exe'' ''u.zip'' ''p/g.exe'' s
   in uf_files s ''p/g.exe'' = Some [9] \<and> uf_files s' ''p/g.exe'' = Some [7]"
proof -
  define s where "s = (sample_fs [])\<lparr> uf_files := [''p/g.exe'' \<mapsto> [9], ''p/g.exe.old'' \<mapsto> [7]] \<rparr>"
  have a: "applyZip id id ((\<lambda>_. None) ''u.zip'') ''p/g.exe'' ((\<lambda>_. ''p/wintun.dll'') ''p/g.exe'') s = (Some OpenZip, s)"
    by (simp add: applyZip_def)
  have f: "uf_files s ''p/g.exe'' = Some [9]" "uf_files s (old_of ''p/g.exe'') = Some [7]" "uf_script s = []"
    by (simp_all add: s_def sample_fs_def old_of_def)
  from rejected_archive_downgrades_or_stops [of id id "\<lambda>_. None" "''u.zip''" "''p/g.exe''"
      "\<lambda>_. ''p/wintun.dll''" s OpenZip s "(=)" "[9]"] a f sample_paths
  show ?thesis
    by (simp add: s_def [symmetric] before_replacing_def split: prod.splits)
qed

end
