(* ===== verification/Session_Proto.thy ===== *)
theory Session_Proto
  imports Config_Args Config_Ui
begin

text \<open>
  The handshake of the two ends over Redis, \<open>pro/comm.go\<close>, \<open>pro/local.go\<close> and \<open>pro/remote.go\<close>:
  obtaining a UDP address, registering and claiming a session, and the states both ends write to the
  session's key until they hold a tunnel or give up. Redis is a map from keys to values that may
  lose a key at any time (they expire) and may be unreachable in any call; a value is read back as it
  was written (each is encrypted and encoded under the string its key is derived from), except that
  a field left out of the text keeps its old value. Creating a tunnel, which is code outside the
  repository, only records its role and transport here; whether it comes up is the environment's choice.
  One end of either kind is a record, one iteration of its code a function, and \<open>sess_step\<close>
  interleaves any number of both.
\<close>

section \<open>Data\<close>

record addr_type =
  at_LocalIPv4 :: string
  at_IPv6 :: string
  at_LocalPort :: int
  at_WanIPv4 :: string
  at_WanPort1 :: int
  at_WanPort2 :: int
  at_WanPort3 :: int

definition no_addr :: addr_type where
  "no_addr = \<lparr> at_LocalIPv4 = [], at_IPv6 = [], at_LocalPort = 0, at_WanIPv4 = [],
     at_WanPort1 = 0, at_WanPort2 = 0, at_WanPort3 = 0 \<rparr>"

record redis_json =
  rj_LocalVersion :: string
  rj_RemoteVersion :: string
  rj_SessionID :: string
  rj_State :: int
  rj_Transport :: string
  rj_SocketTimeOut :: int
  rj_RedisTimeOut :: int
  rj_SendPortCount :: int
  rj_ConnectCount :: int
  rj_RemoteAddr :: addr_type
  rj_LocalAddr :: addr_type
  rj_AllowLocalProxy :: "bool option"

definition LocalProxyAllowed_rj :: "redis_json \<Rightarrow> bool" where
  "LocalProxyAllowed_rj r = (case rj_AllowLocalProxy r of None \<Rightarrow> True | Some b \<Rightarrow> b)"

definition sessionTransport :: "string \<Rightarrow> string" where
  "sessionTransport s =
     (let t = NormalizeTransport s in
      if t \<noteq> TransportQUIC \<and> t \<noteq> TransportKCP then TransportKCP else t)"

text \<open>Decoding into a value that is already there: \<open>allow_local_proxy\<close> may be missing in the text.\<close>

definition unmarshal_into :: "redis_json \<Rightarrow> redis_json \<Rightarrow> redis_json" where
  "unmarshal_into old m =
     m\<lparr> rj_AllowLocalProxy :=
          (case rj_AllowLocalProxy m of None \<Rightarrow> rj_AllowLocalProxy old | Some b \<Rightarrow> Some b) \<rparr>"

section \<open>Redis\<close>

datatype rkey = Registered | Session string

type_synonym rstore = "rkey \<rightharpoonup> redis_json"

text \<open>\<open>up\<close>: Redis answers this call.\<close>

definition RedisSessionRegister :: "bool \<Rightarrow> redis_json \<Rightarrow> rstore \<Rightarrow> bool \<times> rstore" where
  "RedisSessionRegister up m st = (if up then (True, st(Registered \<mapsto> m)) else (False, st))"

definition claim_read :: "bool \<Rightarrow> rstore \<Rightarrow> redis_json option" where
  "claim_read up st = (if up then st Registered else None)"

definition claim_delete :: "bool \<Rightarrow> rstore \<Rightarrow> rstore" where
  "claim_delete up st = (if up then st(Registered := None) else st)"

definition RedisSessionSet :: "bool \<Rightarrow> string \<Rightarrow> redis_json \<Rightarrow> rstore \<Rightarrow> rstore" where
  "RedisSessionSet up sid m st = (if up then st(Session sid \<mapsto> m) else st)"

definition RedisSessionGet :: "bool \<Rightarrow> string \<Rightarrow> redis_json \<Rightarrow> rstore \<Rightarrow> redis_json option" where
  "RedisSessionGet up sid old st =
     (if up then map_option (unmarshal_into old) (st (Session sid)) else None)"

definition RedisSessionDel :: "bool \<Rightarrow> string \<Rightarrow> rstore \<Rightarrow> rstore" where
  "RedisSessionDel up sid st = (if up then st(Session sid := None) else st)"

definition RedisSessionUnregister :: "bool \<Rightarrow> rstore \<Rightarrow> rstore" where
  "RedisSessionUnregister up st = (if up then st(Registered := None) else st)"

section \<open>The UDP address\<close>

text \<open>One attempt: the first \<open>ListenUDP\<close> fails; or a port, what STUN found, and whether the
  second \<open>ListenUDP\<close> on that port works.\<close>

datatype udp_attempt = ListenFails | Probed int string int int int bool

definition maxGetUDPAddrAttempts :: nat where "maxGetUDPAddrAttempts = 5"

text \<open>The address with its socket, or \<open>None\<close>; and how many sockets stay open.\<close>

fun get_udp_addr :: "nat \<Rightarrow> addr_type \<Rightarrow> udp_attempt list \<Rightarrow> addr_type option \<times> nat" where
  "get_udp_addr 0 addr outs = (None, 0)"
| "get_udp_addr (Suc n) addr [] = get_udp_addr n addr []"
| "get_udp_addr (Suc n) addr (ListenFails # outs) = get_udp_addr n addr outs"
| "get_udp_addr (Suc n) addr (Probed port wan p1 p2 p3 relisten # outs) =
     (let a = addr\<lparr> at_LocalPort := port, at_WanIPv4 := wan, at_WanPort1 := p1, at_WanPort2 := p2,
                   at_WanPort3 := p3 \<rparr> in
      if wan = [] \<or> p1 = 0 \<or> p2 = 0 then get_udp_addr n (a\<lparr> at_LocalPort := 0 \<rparr>) outs
      else if \<not> relisten then get_udp_addr n a outs
      else (Some a, 1))"

definition GetUDPAddr :: "string \<Rightarrow> string \<Rightarrow> udp_attempt list \<Rightarrow> addr_type option \<times> nat" where
  "GetUDPAddr local4 local6 outs =
     get_udp_addr maxGetUDPAddrAttempts (no_addr\<lparr> at_LocalIPv4 := local4, at_IPv6 := local6 \<rparr>) outs"

lemma get_udp_addr_cases:
  "get_udp_addr n addr outs = (r, k) \<Longrightarrow>
     (r = None \<and> k = 0) \<or>
     (\<exists>a. r = Some a \<and> k = 1 \<and> at_WanIPv4 a \<noteq> [] \<and> at_WanPort1 a \<noteq> 0 \<and> at_WanPort2 a \<noteq> 0)"
  by (induction n addr outs rule: get_udp_addr.induct) (auto simp: Let_def split: if_splits)

section \<open>The local end\<close>

datatype tun_role = Active | Passive

record tunnel =
  tn_role :: tun_role
  tn_transport :: string
  tn_conn :: bool

datatype l_result = LNothing | LError | LConnected tun_role string bool

text \<open>Polling until nothing is registered; about to register; waiting for the claim, so many polls done;
  giving up on it; in the loop over the session's state; returned.\<close>

datatype l_phase = LExists | LSet | LWait nat | LUnregister | LLoop | LDone l_result

record local_end =
  lc_addr :: addr_type
  lc_json :: redis_json
  lc_conn_type :: nat
  lc_phase :: l_phase
  lc_active :: "tunnel option"
  lc_passive :: "tunnel option"
  lc_running :: bool
  lc_status :: "nat list"

definition StatusConnecting :: nat where "StatusConnecting = 1"
definition StatusConnectingNAT4 :: nat where "StatusConnectingNAT4 = 2"
definition StatusConnected :: nat where "StatusConnected = 3"
definition StatusVersionMismatch :: nat where "StatusVersionMismatch = 5"
definition StatusTransportMismatch :: nat where "StatusTransportMismatch = 6"

definition report_status :: "nat \<Rightarrow> local_end \<Rightarrow> local_end" where
  "report_status n l = l\<lparr> lc_status := lc_status l @ [n] \<rparr>"

text \<open>\<open>GetLocalQuicConn\<close> up to the registration: the connection type (0 is passive) and the first message.\<close>

definition new_local :: "string \<Rightarrow> string \<Rightarrow> addr_type \<Rightarrow> int \<Rightarrow> local_end" where
  "new_local ver sid addr cnt =
     (let ct = (if at_WanPort1 addr = at_WanPort2 addr then 1 else 0);
          j = \<lparr> rj_LocalVersion = ver, rj_RemoteVersion = [], rj_SessionID = sid, rj_State = 0,
                rj_Transport = [], rj_SocketTimeOut = 0, rj_RedisTimeOut = 0, rj_SendPortCount = 0,
                rj_ConnectCount = cnt, rj_RemoteAddr = no_addr,
                rj_LocalAddr = (if ct = 0 then no_addr else addr), rj_AllowLocalProxy = None \<rparr>
      in \<lparr> lc_addr = addr, lc_json = j, lc_conn_type = ct, lc_phase = LExists, lc_active = None,
           lc_passive = None, lc_running = True, lc_status = [] \<rparr>)"

definition local_set :: "bool \<Rightarrow> local_end \<times> rstore \<Rightarrow> local_end \<times> rstore" where
  "local_set up = (\<lambda>(l, st).
     let (ok, st') = RedisSessionRegister up (lc_json l) st
     in (l\<lparr> lc_phase := if ok then LWait 0 else LDone LError \<rparr>, st'))"

text \<open>One turn of the loop that waits for the claim.\<close>

definition local_wait :: "bool \<Rightarrow> string \<Rightarrow> nat \<Rightarrow> local_end \<times> rstore \<Rightarrow> local_end \<times> rstore" where
  "local_wait up sid i = (\<lambda>(l, st).
     if \<not> (i < 30 \<and> lc_running l) then (l\<lparr> lc_phase := LUnregister \<rparr>, st)
     else case RedisSessionGet up sid (lc_json l) st of
       Some j \<Rightarrow> (l\<lparr> lc_json := j, lc_phase := LLoop \<rparr>, st)
     | None \<Rightarrow> (l\<lparr> lc_phase := LWait (Suc i) \<rparr>, st))"

definition local_unregister :: "bool \<Rightarrow> local_end \<times> rstore \<Rightarrow> local_end \<times> rstore" where
  "local_unregister up = (\<lambda>(l, st). (l\<lparr> lc_phase := LDone LNothing \<rparr>, RedisSessionUnregister up st))"

definition handleState1_ProcessRemoteAddr ::
  "string \<Rightarrow> bool \<Rightarrow> string \<Rightarrow> local_end \<times> rstore \<Rightarrow> local_end \<times> rstore" where
  "handleState1_ProcessRemoteAddr ver up sid = (\<lambda>(l, st).
     let j = lc_json l; addr = lc_addr l in
     if \<not> VersionsCompatible ver (rj_RemoteVersion j) then
       ((report_status StatusVersionMismatch l)\<lparr> lc_phase := LDone LError \<rparr>, RedisSessionDel up sid st)
     else if at_WanPort1 addr \<noteq> at_WanPort2 addr \<and>
             at_WanPort1 (rj_RemoteAddr j) \<noteq> at_WanPort2 (rj_RemoteAddr j) then
       ((report_status StatusConnectingNAT4 l)\<lparr> lc_phase := LDone LError \<rparr>, RedisSessionDel up sid st)
     else
       let transport = sessionTransport (rj_Transport j) in
       if lc_conn_type l = 0 then
         let j' = j\<lparr> rj_LocalAddr := addr, rj_State := 2 \<rparr> in
         (l\<lparr> lc_active := None, lc_json := j',
             lc_passive := Some \<lparr> tn_role = Passive, tn_transport = transport, tn_conn = False \<rparr> \<rparr>,
          RedisSessionSet up sid j' st)
       else
         let j' = j\<lparr> rj_State := 2 \<rparr> in
         (l\<lparr> lc_passive := None, lc_json := j',
             lc_active := Some \<lparr> tn_role = Active, tn_transport = transport, tn_conn = False \<rparr> \<rparr>,
          RedisSessionSet up sid j' st))"

definition handleLocalState3_ConnectionSuccess :: "local_end \<Rightarrow> local_end" where
  "handleLocalState3_ConnectionSuccess l =
     (let finish = (\<lambda>t. (report_status StatusConnected l)
            \<lparr> lc_phase := LDone (LConnected (tn_role t) (tn_transport t) (LocalProxyAllowed_rj (lc_json l))) \<rparr>);
          nothing = l\<lparr> lc_phase := LDone LNothing \<rparr>;
          try_active = (case lc_active l of
              Some t \<Rightarrow> if tn_conn t then finish t else nothing | None \<Rightarrow> nothing)
      in case lc_passive l of
           Some t \<Rightarrow> if tn_conn t then finish t else try_active
         | None \<Rightarrow> try_active)"

text \<open>One turn of the loop of \<open>GetLocalQuicConn\<close>.\<close>

definition local_loop ::
  "string \<Rightarrow> bool \<Rightarrow> bool \<Rightarrow> string \<Rightarrow> local_end \<times> rstore \<Rightarrow> local_end \<times> rstore" where
  "local_loop ver up up' sid = (\<lambda>(l, st).
     if \<not> lc_running l then (l\<lparr> lc_phase := LDone LNothing \<rparr>, st)
     else case RedisSessionGet up sid (lc_json l) st of
       None \<Rightarrow> (l\<lparr> lc_phase := LDone LError \<rparr>, st)
     | Some j \<Rightarrow>
         let l1 = l\<lparr> lc_json := j \<rparr> in
         if rj_State j = -1 then
           ((report_status StatusVersionMismatch l1)\<lparr> lc_phase := LDone LError \<rparr>, RedisSessionDel up' sid st)
         else if rj_State j = -2 then
           ((report_status StatusTransportMismatch l1)\<lparr> lc_phase := LDone LError \<rparr>, RedisSessionDel up' sid st)
         else if rj_State j = 1 then handleState1_ProcessRemoteAddr ver up' sid (l1, st)
         else if rj_State j = 2 then (l1, st)
         else if rj_State j = 3 then (handleLocalState3_ConnectionSuccess l1, st)
         else if rj_State j = 4 then (l1\<lparr> lc_phase := LDone LNothing \<rparr>, st)
         else (l1, st))"

section \<open>The remote end\<close>

record remote_cfg =
  rc_version :: string
  rc_transport :: string
  rc_allow :: bool
  rc_timeout :: int

datatype r_phase = RScan | RRead redis_json | RState1 | RLoop | RWait

record remote_end =
  rm_phase :: r_phase
  rm_json :: redis_json
  rm_conn_type :: nat
  rm_active :: "tunnel option"
  rm_passive :: "tunnel option"
  rm_running :: bool
  rm_serving :: "(string \<times> tunnel) list"

text \<open>The end of \<open>processSession\<close> that releases its resources.\<close>

definition release_session :: "remote_end \<Rightarrow> remote_end" where
  "release_session r = r\<lparr> rm_phase := RScan, rm_active := None, rm_passive := None \<rparr>"

definition start_session :: "redis_json \<Rightarrow> remote_end \<Rightarrow> remote_end" where
  "start_session j r =
     r\<lparr> rm_phase := RState1, rm_json := j, rm_conn_type := 0, rm_active := None, rm_passive := None \<rparr>"

text \<open>\<open>addr\<close> is what \<open>GetUDPAddr\<close> returned.\<close>

definition handleState1_SendRemoteAddr ::
  "remote_cfg \<Rightarrow> bool \<Rightarrow> addr_type option \<Rightarrow> remote_end \<times> rstore \<Rightarrow> remote_end \<times> rstore" where
  "handleState1_SendRemoteAddr cfg up addr = (\<lambda>(r, st).
     let j0 = rm_json r;
         sid = rj_SessionID j0;
         j1 = j0\<lparr> rj_RemoteVersion := rc_version cfg, rj_State := 1, rj_SocketTimeOut := rc_timeout cfg,
                 rj_RedisTimeOut := rc_timeout cfg * 3 \<rparr> in
     if \<not> VersionsCompatible (rc_version cfg) (rj_LocalVersion j1) then
       (release_session r, RedisSessionSet up sid (j1\<lparr> rj_State := -1 \<rparr>) st)
     else
       let j2 = j1\<lparr> rj_Transport := rc_transport cfg, rj_AllowLocalProxy := Some (rc_allow cfg) \<rparr> in
       case addr of
         None \<Rightarrow> (release_session r, st)
       | Some a \<Rightarrow>
           let j3 = j2\<lparr> rj_RemoteAddr := a \<rparr> in
           if at_WanPort1 (rj_LocalAddr j3) = 0 then
             let j4 = j3\<lparr> rj_SendPortCount := 256 \<rparr> in
             (r\<lparr> rm_phase := RLoop, rm_json := j4, rm_conn_type := 0,
                 rm_active := Some \<lparr> tn_role = Active, tn_transport = rc_transport cfg, tn_conn = False \<rparr> \<rparr>,
              RedisSessionSet up sid j4 st)
           else
             (r\<lparr> rm_phase := RLoop, rm_json := j3, rm_conn_type := 1,
                 rm_passive := Some \<lparr> tn_role = Passive, tn_transport = rc_transport cfg, tn_conn = False \<rparr> \<rparr>,
              RedisSessionSet up sid j3 st))"

text \<open>Handing the session to its own goroutine, if there is a tunnel with a connection.\<close>

definition handleRemoteState3_ConnectionSuccess :: "remote_end \<Rightarrow> remote_end" where
  "handleRemoteState3_ConnectionSuccess r =
     (let serve = (\<lambda>t. (release_session r)\<lparr> rm_serving := rm_serving r @ [(rj_SessionID (rm_json r), t)] \<rparr>);
          try_passive = (case rm_passive r of
              Some t \<Rightarrow> if tn_conn t then serve t else release_session r | None \<Rightarrow> release_session r)
      in case rm_active r of Some t \<Rightarrow> if tn_conn t then serve t else try_passive | None \<Rightarrow> try_passive)"

text \<open>What the \<open>select\<close> of \<open>handleState2_WaitConnection\<close> receives.\<close>

datatype wait_event = ActiveUp | PassiveUp | WaitTimeout

definition has_conn :: "tunnel option \<Rightarrow> bool" where
  "has_conn t = (case t of None \<Rightarrow> False | Some x \<Rightarrow> tn_conn x)"

definition handleState2_WaitConnection ::
  "bool \<Rightarrow> wait_event \<Rightarrow> remote_end \<times> rstore \<Rightarrow> remote_end \<times> rstore" where
  "handleState2_WaitConnection up ev = (\<lambda>(r, st).
     let sid = rj_SessionID (rm_json r);
         write = (\<lambda>n. (rm_json r)\<lparr> rj_State := n \<rparr>) in
     case ev of
       ActiveUp \<Rightarrow>
         (let r1 = r\<lparr> rm_json := write 3 \<rparr> in
          (if has_conn (rm_active r) then handleRemoteState3_ConnectionSuccess r1
           else r1\<lparr> rm_phase := RLoop \<rparr>, RedisSessionSet up sid (write 3) st))
     | PassiveUp \<Rightarrow>
         (let r1 = r\<lparr> rm_json := write 3 \<rparr> in
          (if has_conn (rm_passive r) then handleRemoteState3_ConnectionSuccess r1
           else r1\<lparr> rm_phase := RLoop \<rparr>, RedisSessionSet up sid (write 3) st))
     | WaitTimeout \<Rightarrow> (release_session (r\<lparr> rm_json := write 4 \<rparr>), RedisSessionSet up sid (write 4) st))"

text \<open>One turn of the loop of \<open>processSession\<close>.\<close>

definition remote_loop :: "remote_cfg \<Rightarrow> bool \<Rightarrow> remote_end \<times> rstore \<Rightarrow> remote_end \<times> rstore" where
  "remote_loop cfg up = (\<lambda>(r, st).
     if \<not> rm_running r then (release_session r, st)
     else case RedisSessionGet up (rj_SessionID (rm_json r)) (rm_json r) st of
       None \<Rightarrow> (release_session r, st)
     | Some j \<Rightarrow>
         let j' = j\<lparr> rj_RemoteVersion := rc_version cfg, rj_SocketTimeOut := rc_timeout cfg,
                    rj_RedisTimeOut := rc_timeout cfg * 3 \<rparr>;
             r1 = r\<lparr> rm_json := j' \<rparr> in
         if rj_State j' = 1 then (r1, st)
         else if rj_State j' = 2 then (r1\<lparr> rm_phase := RWait \<rparr>, st)
         else if rj_State j' = 3 then (handleRemoteState3_ConnectionSuccess r1, st)
         else if rj_State j' = 4 then (release_session r1, st)
         else (r1, st))"

section \<open>Both ends\<close>

record sess_sys =
  sy_store :: rstore
  sy_locals :: "string \<Rightarrow> local_end option"
  sy_remotes :: "nat \<Rightarrow> remote_end"

definition put_local :: "sess_sys \<Rightarrow> string \<Rightarrow> local_end \<times> rstore \<Rightarrow> sess_sys" where
  "put_local s sid = (\<lambda>(l, st). s\<lparr> sy_locals := (sy_locals s)(sid \<mapsto> l), sy_store := st \<rparr>)"

definition put_remote :: "sess_sys \<Rightarrow> nat \<Rightarrow> remote_end \<times> rstore \<Rightarrow> sess_sys" where
  "put_remote s k = (\<lambda>(r, st). s\<lparr> sy_remotes := (sy_remotes s)(k := r), sy_store := st \<rparr>)"

definition conn_up :: "tunnel option \<Rightarrow> tunnel option" where
  "conn_up = map_option (\<lambda>t. t\<lparr> tn_conn := True \<rparr>)"

inductive sess_step :: "string \<Rightarrow> remote_cfg \<Rightarrow> sess_sys \<Rightarrow> sess_sys \<Rightarrow> bool" for ver cfg where
  expire: "sess_step ver cfg s (s\<lparr> sy_store := (sy_store s)(k := None) \<rparr>)"
| start: "sy_locals s sid = None \<Longrightarrow> GetUDPAddr a4 a6 outs = (Some addr, n) \<Longrightarrow>
    sess_step ver cfg s (put_local s sid (new_local ver sid addr cnt, sy_store s))"
| l_stop: "sy_locals s sid = Some l \<Longrightarrow>
    sess_step ver cfg s (put_local s sid (l\<lparr> lc_running := False \<rparr>, sy_store s))"
| l_free: "sy_locals s sid = Some l \<Longrightarrow> lc_phase l = LExists \<Longrightarrow> sy_store s Registered = None \<Longrightarrow>
    sess_step ver cfg s (put_local s sid (l\<lparr> lc_phase := LSet \<rparr>, sy_store s))"
| l_exists_error: "sy_locals s sid = Some l \<Longrightarrow> lc_phase l = LExists \<Longrightarrow>
    sess_step ver cfg s (put_local s sid (l\<lparr> lc_phase := LSet \<rparr>, sy_store s))"
| l_set: "sy_locals s sid = Some l \<Longrightarrow> lc_phase l = LSet \<Longrightarrow>
    sess_step ver cfg s (put_local s sid (local_set up (l, sy_store s)))"
| l_wait: "sy_locals s sid = Some l \<Longrightarrow> lc_phase l = LWait i \<Longrightarrow>
    sess_step ver cfg s (put_local s sid (local_wait up sid i (l, sy_store s)))"
| l_unregister: "sy_locals s sid = Some l \<Longrightarrow> lc_phase l = LUnregister \<Longrightarrow>
    sess_step ver cfg s (put_local s sid (local_unregister up (l, sy_store s)))"
| l_loop: "sy_locals s sid = Some l \<Longrightarrow> lc_phase l = LLoop \<Longrightarrow>
    sess_step ver cfg s (put_local s sid (local_loop ver up up' sid (l, sy_store s)))"
| l_tunnel: "sy_locals s sid = Some l \<Longrightarrow>
    sess_step ver cfg s (put_local s sid
      (l\<lparr> lc_active := conn_up (lc_active l), lc_passive := conn_up (lc_passive l) \<rparr>, sy_store s))"
| r_stop: "sess_step ver cfg s (put_remote s k ((sy_remotes s k)\<lparr> rm_running := False \<rparr>, sy_store s))"
| r_read: "rm_phase (sy_remotes s k) = RScan \<Longrightarrow> rm_running (sy_remotes s k) \<Longrightarrow>
    claim_read up (sy_store s) = Some m \<Longrightarrow>
    sess_step ver cfg s (put_remote s k ((sy_remotes s k)\<lparr> rm_phase := RRead m \<rparr>, sy_store s))"
| r_claim: "rm_phase (sy_remotes s k) = RRead m \<Longrightarrow>
    sess_step ver cfg s (put_remote s k (start_session m (sy_remotes s k), claim_delete up (sy_store s)))"
| r_state1: "rm_phase (sy_remotes s k) = RState1 \<Longrightarrow> GetUDPAddr a4 a6 outs = (addr, n) \<Longrightarrow>
    sess_step ver cfg s (put_remote s k (handleState1_SendRemoteAddr cfg up addr (sy_remotes s k, sy_store s)))"
| r_loop: "rm_phase (sy_remotes s k) = RLoop \<Longrightarrow>
    sess_step ver cfg s (put_remote s k (remote_loop cfg up (sy_remotes s k, sy_store s)))"
| r_wait: "rm_phase (sy_remotes s k) = RWait \<Longrightarrow>
    (ev = ActiveUp \<Longrightarrow> rm_active (sy_remotes s k) \<noteq> None) \<Longrightarrow>
    (ev = PassiveUp \<Longrightarrow> rm_passive (sy_remotes s k) \<noteq> None) \<Longrightarrow>
    sess_step ver cfg s (put_remote s k (handleState2_WaitConnection up ev (sy_remotes s k, sy_store s)))"
| r_tunnel: "sess_step ver cfg s (put_remote s k ((sy_remotes s k)
      \<lparr> rm_active := conn_up (rm_active (sy_remotes s k)), rm_passive := conn_up (rm_passive (sy_remotes s k)) \<rparr>,
      sy_store s))"

definition idle_remote :: remote_end where
  "idle_remote = \<lparr> rm_phase = RScan, rm_json = lc_json (new_local [] [] no_addr 0), rm_conn_type = 0,
     rm_active = None, rm_passive = None, rm_running = True, rm_serving = [] \<rparr>"

definition sess_init :: sess_sys where
  "sess_init = \<lparr> sy_store = Map.empty, sy_locals = (\<lambda>_. None), sy_remotes = (\<lambda>_. idle_remote) \<rparr>"

inductive sess_reachable :: "string \<Rightarrow> remote_cfg \<Rightarrow> sess_sys \<Rightarrow> bool" for ver cfg where
  init: "sess_reachable ver cfg sess_init"
| step: "sess_reachable ver cfg s \<Longrightarrow> sess_step ver cfg s s' \<Longrightarrow> sess_reachable ver cfg s'"

section \<open>The invariant\<close>

text \<open>\<open>cts\<close> is the connection type of each session, which never changes.\<close>

definition conn_types :: "sess_sys \<Rightarrow> string \<Rightarrow> nat option" where
  "conn_types s sid = map_option lc_conn_type (sy_locals s sid)"

definition claim_ok :: "(string \<Rightarrow> nat option) \<Rightarrow> redis_json \<Rightarrow> bool" where
  "claim_ok cts m \<longleftrightarrow>
     (\<exists>c. cts (rj_SessionID m) = Some c \<and> (at_WanPort1 (rj_LocalAddr m) = 0 \<longleftrightarrow> c = 0))"

definition sess_msg_ok :: "remote_cfg \<Rightarrow> string \<Rightarrow> redis_json \<Rightarrow> bool" where
  "sess_msg_ok cfg sid m \<longleftrightarrow>
     rj_SessionID m = sid \<and>
     (rj_State m \<noteq> -1 \<longrightarrow>
        rj_Transport m = rc_transport cfg \<and> rj_AllowLocalProxy m = Some (rc_allow cfg) \<and>
        rj_RemoteVersion m = rc_version cfg)"

definition store_ok :: "remote_cfg \<Rightarrow> (string \<Rightarrow> nat option) \<Rightarrow> rstore \<Rightarrow> bool" where
  "store_ok cfg cts st \<longleftrightarrow>
     (\<forall>m. st Registered = Some m \<longrightarrow> claim_ok cts m) \<and>
     (\<forall>sid m. st (Session sid) = Some m \<longrightarrow> sess_msg_ok cfg sid m)"

definition local_role :: "nat \<Rightarrow> tun_role" where
  "local_role c = (if c = 0 then Passive else Active)"

definition remote_role :: "nat \<Rightarrow> tun_role" where
  "remote_role c = (if c = 0 then Active else Passive)"

definition local_tunnel_ok :: "string \<Rightarrow> remote_cfg \<Rightarrow> nat \<Rightarrow> tunnel \<Rightarrow> bool" where
  "local_tunnel_ok ver cfg c t \<longleftrightarrow>
     tn_role t = local_role c \<and> tn_transport t = sessionTransport (rc_transport cfg) \<and>
     VersionsCompatible ver (rc_version cfg)"

definition local_ok :: "string \<Rightarrow> remote_cfg \<Rightarrow> (string \<Rightarrow> nat option) \<Rightarrow> string \<Rightarrow> local_end \<Rightarrow> bool" where
  "local_ok ver cfg cts sid l \<longleftrightarrow>
     cts sid = Some (lc_conn_type l) \<and> rj_SessionID (lc_json l) = sid \<and>
     (lc_phase l = LExists \<or> lc_phase l = LSet \<longrightarrow> claim_ok cts (lc_json l)) \<and>
     (\<forall>t. lc_active l = Some t \<or> lc_passive l = Some t \<longrightarrow> local_tunnel_ok ver cfg (lc_conn_type l) t) \<and>
     (\<forall>role tp allow. lc_phase l = LDone (LConnected role tp allow) \<longrightarrow>
        role = local_role (lc_conn_type l) \<and> tp = sessionTransport (rc_transport cfg) \<and>
        allow = rc_allow cfg \<and> VersionsCompatible ver (rc_version cfg))"

definition remote_tunnel_ok :: "remote_cfg \<Rightarrow> (string \<Rightarrow> nat option) \<Rightarrow> string \<Rightarrow> tunnel \<Rightarrow> bool" where
  "remote_tunnel_ok cfg cts sid t \<longleftrightarrow>
     (\<exists>c. cts sid = Some c \<and> tn_role t = remote_role c \<and> tn_transport t = rc_transport cfg)"

definition remote_ok :: "remote_cfg \<Rightarrow> (string \<Rightarrow> nat option) \<Rightarrow> remote_end \<Rightarrow> bool" where
  "remote_ok cfg cts r \<longleftrightarrow>
     (\<forall>m. rm_phase r = RRead m \<longrightarrow> claim_ok cts m) \<and>
     (rm_phase r = RState1 \<longrightarrow> claim_ok cts (rm_json r) \<and> rm_active r = None \<and> rm_passive r = None) \<and>
     (rm_phase r = RLoop \<or> rm_phase r = RWait \<longrightarrow>
        (\<forall>t. rm_active r = Some t \<or> rm_passive r = Some t \<longrightarrow>
           remote_tunnel_ok cfg cts (rj_SessionID (rm_json r)) t)) \<and>
     (rm_phase r = RWait \<longrightarrow>
        sess_msg_ok cfg (rj_SessionID (rm_json r)) (rm_json r) \<and> rj_State (rm_json r) \<noteq> -1) \<and>
     (\<forall>(sid, t) \<in> set (rm_serving r). remote_tunnel_ok cfg cts sid t)"

definition sess_ok :: "string \<Rightarrow> remote_cfg \<Rightarrow> sess_sys \<Rightarrow> bool" where
  "sess_ok ver cfg s \<longleftrightarrow>
     store_ok cfg (conn_types s) (sy_store s) \<and>
     (\<forall>sid l. sy_locals s sid = Some l \<longrightarrow> local_ok ver cfg (conn_types s) sid l) \<and>
     (\<forall>k. remote_ok cfg (conn_types s) (sy_remotes s k))"

text \<open>A local end with its store, and a remote end with its store.\<close>

definition local_pair_ok where
  "local_pair_ok ver cfg cts sid = (\<lambda>(l, st). local_ok ver cfg cts sid l \<and> store_ok cfg cts st)"

definition remote_pair_ok where
  "remote_pair_ok cfg cts = (\<lambda>(r, st). remote_ok cfg cts r \<and> store_ok cfg cts st)"

lemma get_ok:
  assumes "store_ok cfg cts st" "RedisSessionGet up sid old st = Some j"
  shows "sess_msg_ok cfg sid j"
  using assms
  by (auto simp: store_ok_def RedisSessionGet_def sess_msg_ok_def unmarshal_into_def split: if_splits)

lemma set_ok: "store_ok cfg cts st \<Longrightarrow> sess_msg_ok cfg sid m \<Longrightarrow> store_ok cfg cts (RedisSessionSet up sid m st)"
  by (auto simp: store_ok_def RedisSessionSet_def)

lemma del_ok:
  "store_ok cfg cts st \<Longrightarrow> store_ok cfg cts (RedisSessionDel up sid st)"
  "store_ok cfg cts st \<Longrightarrow> store_ok cfg cts (RedisSessionUnregister up st)"
  "store_ok cfg cts st \<Longrightarrow> store_ok cfg cts (claim_delete up st)"
  by (auto simp: store_ok_def RedisSessionDel_def RedisSessionUnregister_def claim_delete_def)

lemma local_set_ok:
  assumes "local_pair_ok ver cfg cts sid (l, st)" "lc_phase l = LSet"
  shows "local_pair_ok ver cfg cts sid (local_set up (l, st))"
  using assms
  by (auto simp: local_pair_ok_def local_set_def RedisSessionRegister_def local_ok_def store_ok_def)

lemma local_wait_ok:
  assumes "local_pair_ok ver cfg cts sid (l, st)"
  shows "local_pair_ok ver cfg cts sid (local_wait up sid i (l, st))"
  using assms get_ok [of cfg cts st up sid "lc_json l"]
  by (auto simp: local_pair_ok_def local_wait_def local_ok_def sess_msg_ok_def split: option.splits)

lemma local_unregister_ok:
  assumes "local_pair_ok ver cfg cts sid (l, st)"
  shows "local_pair_ok ver cfg cts sid (local_unregister up (l, st))"
  using assms by (auto simp: local_pair_ok_def local_unregister_def local_ok_def del_ok)

lemma handleState1_Process_ok:
  assumes "local_pair_ok ver cfg cts sid (l, st)" "sess_msg_ok cfg sid (lc_json l)"
    and "rj_State (lc_json l) = 1" "lc_phase l = LLoop"
  shows "local_pair_ok ver cfg cts sid (handleState1_ProcessRemoteAddr ver up sid (l, st))"
  using assms
  by (auto simp: local_pair_ok_def handleState1_ProcessRemoteAddr_def Let_def local_ok_def sess_msg_ok_def
      local_tunnel_ok_def local_role_def report_status_def del_ok intro!: set_ok)

lemma handleLocalState3_cases:
  "handleLocalState3_ConnectionSuccess l = l\<lparr> lc_phase := LDone LNothing \<rparr> \<or>
   (\<exists>t. (lc_active l = Some t \<or> lc_passive l = Some t) \<and>
      handleLocalState3_ConnectionSuccess l = (report_status StatusConnected l)
        \<lparr> lc_phase := LDone (LConnected (tn_role t) (tn_transport t) (LocalProxyAllowed_rj (lc_json l))) \<rparr>)"
  unfolding handleLocalState3_ConnectionSuccess_def Let_def
  by (cases "lc_passive l"; cases "lc_active l"; simp split del: if_split; cases "tn_conn (the (lc_passive l))";
    cases "tn_conn (the (lc_active l))"; simp; blast)

lemma handleLocalState3_ok:
  assumes "local_ok ver cfg cts sid l" "sess_msg_ok cfg sid (lc_json l)" "rj_State (lc_json l) = 3"
  shows "local_ok ver cfg cts sid (handleLocalState3_ConnectionSuccess l)"
proof (rule disjE [OF handleLocalState3_cases [of l]])
  assume "handleLocalState3_ConnectionSuccess l = l\<lparr> lc_phase := LDone LNothing \<rparr>"
  then show ?thesis using assms(1) by (simp add: local_ok_def)
next
  assume "\<exists>t. (lc_active l = Some t \<or> lc_passive l = Some t) \<and>
      handleLocalState3_ConnectionSuccess l = (report_status StatusConnected l)
        \<lparr> lc_phase := LDone (LConnected (tn_role t) (tn_transport t) (LocalProxyAllowed_rj (lc_json l))) \<rparr>"
  then obtain t where 2: "lc_active l = Some t \<or> lc_passive l = Some t"
    "handleLocalState3_ConnectionSuccess l = (report_status StatusConnected l)
        \<lparr> lc_phase := LDone (LConnected (tn_role t) (tn_transport t) (LocalProxyAllowed_rj (lc_json l))) \<rparr>"
    by blast
  then have "local_tunnel_ok ver cfg (lc_conn_type l) t" using assms(1) by (auto simp: local_ok_def)
  moreover have "LocalProxyAllowed_rj (lc_json l) = rc_allow cfg"
    using assms(2,3) by (simp add: sess_msg_ok_def LocalProxyAllowed_rj_def)
  ultimately show ?thesis
    using assms(1) 2(2) by (simp add: local_ok_def local_tunnel_ok_def report_status_def)
qed

lemma local_json_ok:
  assumes "local_ok ver cfg cts sid l" "lc_phase l = LLoop" "rj_SessionID j = sid"
  shows "local_ok ver cfg cts sid (l\<lparr> lc_json := j \<rparr>)"
  using assms by (auto simp: local_ok_def)

lemma local_loop_ok:
  assumes "local_pair_ok ver cfg cts sid (l, st)" "lc_phase l = LLoop"
  shows "local_pair_ok ver cfg cts sid (local_loop ver up up' sid (l, st))"
proof (cases "lc_running l")
  case False
  then show ?thesis using assms by (auto simp: local_pair_ok_def local_loop_def local_ok_def)
next
  case True
  show ?thesis
  proof (cases "RedisSessionGet up sid (lc_json l) st")
    case None
    then show ?thesis using assms True by (auto simp: local_pair_ok_def local_loop_def local_ok_def)
  next
    case (Some j)
    then have j: "sess_msg_ok cfg sid j" using assms(1) get_ok by (auto simp: local_pair_ok_def)
    then have l1: "local_pair_ok ver cfg cts sid (l\<lparr> lc_json := j \<rparr>, st)"
      using assms local_json_ok by (auto simp: local_pair_ok_def sess_msg_ok_def)
    note h1 = handleState1_Process_ok [OF l1, of up']
    have h3: "rj_State j = 3 \<Longrightarrow>
        local_pair_ok ver cfg cts sid (handleLocalState3_ConnectionSuccess (l\<lparr> lc_json := j \<rparr>), st)"
      using l1 j by (auto simp: local_pair_ok_def intro: handleLocalState3_ok)
    have fin: "local_pair_ok ver cfg cts sid
        ((report_status n (l\<lparr> lc_json := j \<rparr>))\<lparr> lc_phase := LDone LError \<rparr>, RedisSessionDel up' sid st)"
      "local_pair_ok ver cfg cts sid (l\<lparr> lc_json := j, lc_phase := LDone LNothing \<rparr>, st)" for n
      using l1 by (auto simp: local_pair_ok_def local_ok_def report_status_def del_ok)
    show ?thesis
      using True Some j assms(2) l1 h1 h3 fin by (simp add: local_loop_def Let_def)
  qed
qed

lemma release_ok [simp]: "remote_ok cfg cts r \<Longrightarrow> remote_ok cfg cts (release_session r)"
  by (auto simp: remote_ok_def release_session_def)

lemma remote_serving_ok:
  assumes "\<forall>(sid, t) \<in> set (rm_serving r). remote_tunnel_ok cfg cts sid t"
    and "\<And>t. rm_active r = Some t \<or> rm_passive r = Some t \<Longrightarrow>
           remote_tunnel_ok cfg cts (rj_SessionID (rm_json r)) t"
  shows "remote_ok cfg cts (handleRemoteState3_ConnectionSuccess r)"
proof -
  have rel: "remote_ok cfg cts (release_session r)"
    using assms(1) by (simp add: remote_ok_def release_session_def)
  have srv: "remote_ok cfg cts ((release_session r)\<lparr> rm_serving := rm_serving r @ [(rj_SessionID (rm_json r), t)] \<rparr>)"
    if "rm_active r = Some t \<or> rm_passive r = Some t" for t
    using assms(1) assms(2) [OF that] by (simp add: remote_ok_def release_session_def)
  show ?thesis
    using rel srv by (simp add: handleRemoteState3_ConnectionSuccess_def Let_def split: option.split)
qed

lemma start_session_ok:
  assumes "remote_pair_ok cfg cts (r, st)" "rm_phase r = RRead m"
  shows "remote_pair_ok cfg cts (start_session m r, claim_delete up st)"
  using assms by (auto simp: remote_pair_ok_def remote_ok_def start_session_def del_ok)

text \<open>What \<open>handleState1_SendRemoteAddr\<close> writes, and the tunnels it makes.\<close>

lemma handleState1_Send_ok:
  assumes "remote_pair_ok cfg cts (r, st)" "rm_phase r = RState1"
  shows "remote_pair_ok cfg cts (handleState1_SendRemoteAddr cfg up addr (r, st))"
proof -
  have "claim_ok cts (rm_json r)" and r: "remote_ok cfg cts r" and none: "rm_active r = None" "rm_passive r = None"
    and st: "store_ok cfg cts st" and srv: "\<forall>(sid, t) \<in> set (rm_serving r). remote_tunnel_ok cfg cts sid t"
    using assms by (auto simp: remote_pair_ok_def remote_ok_def)
  then obtain c where c: "cts (rj_SessionID (rm_json r)) = Some c"
    "at_WanPort1 (rj_LocalAddr (rm_json r)) = 0 \<longleftrightarrow> c = 0"
    by (auto simp: claim_ok_def)
  have sent: "store_ok cfg cts (RedisSessionSet up (rj_SessionID (rm_json r)) j st)"
    if "sess_msg_ok cfg (rj_SessionID (rm_json r)) j" for j
    using set_ok [OF st that] .
  have act: "remote_ok cfg cts (r\<lparr> rm_phase := RLoop, rm_json := j, rm_conn_type := 0,
      rm_active := Some \<lparr> tn_role = Active, tn_transport = rc_transport cfg, tn_conn = False \<rparr> \<rparr>)"
    if "rj_SessionID j = rj_SessionID (rm_json r)" "at_WanPort1 (rj_LocalAddr (rm_json r)) = 0" for j
    using that c none srv by (simp add: remote_ok_def remote_tunnel_ok_def remote_role_def)
  have pas: "remote_ok cfg cts (r\<lparr> rm_phase := RLoop, rm_json := j, rm_conn_type := Suc 0,
      rm_passive := Some \<lparr> tn_role = Passive, tn_transport = rc_transport cfg, tn_conn = False \<rparr> \<rparr>)"
    if "rj_SessionID j = rj_SessionID (rm_json r)" "at_WanPort1 (rj_LocalAddr (rm_json r)) \<noteq> 0" for j
    using that c none srv by (simp add: remote_ok_def remote_tunnel_ok_def remote_role_def)
  show ?thesis
  proof (cases "VersionsCompatible (rc_version cfg) (rj_LocalVersion (rm_json r)) \<and> addr \<noteq> None")
    case False
    then show ?thesis
      using r st sent by (auto simp: remote_pair_ok_def handleState1_SendRemoteAddr_def Let_def sess_msg_ok_def)
  next
    case True
    then obtain a where "addr = Some a" by auto
    with True show ?thesis
      by (simp add: remote_pair_ok_def handleState1_SendRemoteAddr_def Let_def act pas sent sess_msg_ok_def)
  qed
qed

lemma remote_loop_ok:
  assumes "remote_pair_ok cfg cts (r, st)" "rm_phase r = RLoop"
  shows "remote_pair_ok cfg cts (remote_loop cfg up (r, st))"
proof -
  have r: "remote_ok cfg cts r" and st: "store_ok cfg cts st"
    and tun: "\<And>t. rm_active r = Some t \<or> rm_passive r = Some t \<Longrightarrow>
           remote_tunnel_ok cfg cts (rj_SessionID (rm_json r)) t"
    and srv: "\<forall>(sid, t) \<in> set (rm_serving r). remote_tunnel_ok cfg cts sid t"
    using assms by (auto simp: remote_pair_ok_def remote_ok_def)
  show ?thesis
  proof (cases "rm_running r \<and> RedisSessionGet up (rj_SessionID (rm_json r)) (rm_json r) st \<noteq> None")
    case False
    then show ?thesis using r st by (auto simp: remote_pair_ok_def remote_loop_def)
  next
    case True
    then obtain j where j: "RedisSessionGet up (rj_SessionID (rm_json r)) (rm_json r) st = Some j" by blast
    note m = get_ok [OF st j]
    let ?j = "j\<lparr> rj_RemoteVersion := rc_version cfg, rj_SocketTimeOut := rc_timeout cfg,
                    rj_RedisTimeOut := rc_timeout cfg * 3 \<rparr>"
    have r1: "remote_ok cfg cts (r\<lparr> rm_json := ?j \<rparr>)"
      using assms(2) tun srv m by (auto simp: remote_ok_def sess_msg_ok_def)
    have wait: "remote_ok cfg cts (r\<lparr> rm_json := ?j, rm_phase := RWait \<rparr>)" if "rj_State j = 2"
      using tun srv m that by (auto simp: remote_ok_def sess_msg_ok_def)
    have serve: "remote_ok cfg cts (handleRemoteState3_ConnectionSuccess (r\<lparr> rm_json := ?j \<rparr>))"
      using tun srv m by (intro remote_serving_ok) (auto simp: sess_msg_ok_def)
    show ?thesis
      using True j st r1 wait serve release_ok [OF r1] by (simp add: remote_pair_ok_def remote_loop_def Let_def)
  qed
qed

lemma handleState2_ok:
  assumes "remote_pair_ok cfg cts (r, st)" "rm_phase r = RWait"
  shows "remote_pair_ok cfg cts (handleState2_WaitConnection up ev (r, st))"
proof -
  have st: "store_ok cfg cts st"
    and tun: "\<And>t. rm_active r = Some t \<or> rm_passive r = Some t \<Longrightarrow>
           remote_tunnel_ok cfg cts (rj_SessionID (rm_json r)) t"
    and srv: "\<forall>(sid, t) \<in> set (rm_serving r). remote_tunnel_ok cfg cts sid t"
    and m: "sess_msg_ok cfg (rj_SessionID (rm_json r)) (rm_json r)" "rj_State (rm_json r) \<noteq> -1"
    using assms by (auto simp: remote_pair_ok_def remote_ok_def)
  have set: "store_ok cfg cts (RedisSessionSet up (rj_SessionID (rm_json r)) ((rm_json r)\<lparr> rj_State := n \<rparr>) st)" for n
    using st m by (intro set_ok) (auto simp: sess_msg_ok_def)
  have serve: "remote_ok cfg cts (handleRemoteState3_ConnectionSuccess (r\<lparr> rm_json := (rm_json r)\<lparr> rj_State := n \<rparr> \<rparr>))"
for n
    using tun srv by (intro remote_serving_ok) auto
  have loop: "remote_ok cfg cts (r\<lparr> rm_json := (rm_json r)\<lparr> rj_State := n \<rparr>, rm_phase := RLoop \<rparr>)"
    and rel: "remote_ok cfg cts (release_session (r\<lparr> rm_json := (rm_json r)\<lparr> rj_State := n \<rparr> \<rparr>))" for n
    using tun srv by (auto simp: remote_ok_def release_session_def)
  show ?thesis
    using set serve loop rel
    by (cases ev) (simp_all add: remote_pair_ok_def handleState2_WaitConnection_def Let_def)
qed

section \<open>Every step keeps the invariant\<close>

lemma put_local_ok:
  assumes "sess_ok ver cfg s" "local_pair_ok ver cfg (conn_types s) sid p"
  shows "sess_ok ver cfg (put_local s sid p)"
proof -
  obtain l st where p: "p = (l, st)" by fastforce
  then have "conn_types (put_local s sid p) = conn_types s"
    using assms(2) by (auto simp: local_pair_ok_def local_ok_def put_local_def conn_types_def)
  then show ?thesis
    using assms p by (auto simp: sess_ok_def local_pair_ok_def put_local_def)
qed

lemma put_remote_ok:
  assumes "sess_ok ver cfg s" "remote_pair_ok cfg (conn_types s) p"
  shows "sess_ok ver cfg (put_remote s k p)"
proof -
  obtain r st where p: "p = (r, st)" by fastforce
  then have "conn_types (put_remote s k p) = conn_types s"
    by (auto simp: put_remote_def conn_types_def)
  then show ?thesis
    using assms p by (auto simp: sess_ok_def remote_pair_ok_def put_remote_def)
qed

lemma claim_ok_mono: "claim_ok cts m \<Longrightarrow> cts \<subseteq>\<^sub>m cts' \<Longrightarrow> claim_ok cts' m"
  by (auto simp: claim_ok_def map_le_def dom_def)

lemma tunnel_ok_mono: "remote_tunnel_ok cfg cts sid t \<Longrightarrow> cts \<subseteq>\<^sub>m cts' \<Longrightarrow> remote_tunnel_ok cfg cts' sid t"
  by (auto simp: remote_tunnel_ok_def map_le_def dom_def)

lemma local_ok_mono: "local_ok ver cfg cts sid l \<Longrightarrow> cts \<subseteq>\<^sub>m cts' \<Longrightarrow> local_ok ver cfg cts' sid l"
  using claim_ok_mono [of cts "lc_json l" cts'] by (auto simp: local_ok_def map_le_def dom_def)

lemma remote_ok_mono: "remote_ok cfg cts r \<Longrightarrow> cts \<subseteq>\<^sub>m cts' \<Longrightarrow> remote_ok cfg cts' r"
  using claim_ok_mono [of cts _ cts'] tunnel_ok_mono [of cfg cts _ _ cts']
  unfolding remote_ok_def by (blast dest: tunnel_ok_mono)

lemma store_ok_mono: "store_ok cfg cts st \<Longrightarrow> cts \<subseteq>\<^sub>m cts' \<Longrightarrow> store_ok cfg cts' st"
  by (auto simp: store_ok_def intro: claim_ok_mono)

lemma start_ok:
  assumes "sess_ok ver cfg s" "sy_locals s sid = None" "GetUDPAddr a4 a6 outs = (Some addr, n)"
  shows "sess_ok ver cfg (put_local s sid (new_local ver sid addr cnt, sy_store s))"
proof -
  let ?l = "new_local ver sid addr cnt" and ?s = "put_local s sid (new_local ver sid addr cnt, sy_store s)"
  have addr: "at_WanPort1 addr \<noteq> 0"
    using get_udp_addr_cases assms(3) by (fastforce simp: GetUDPAddr_def)
  have cts: "conn_types ?s = (conn_types s)(sid \<mapsto> lc_conn_type ?l)"
    by (auto simp: conn_types_def put_local_def)
  then have le: "conn_types s \<subseteq>\<^sub>m conn_types ?s"
    using assms(2) by (auto simp: map_le_def conn_types_def)
  have "local_ok ver cfg (conn_types ?s) sid ?l"
    using addr unfolding cts by (auto simp: local_ok_def claim_ok_def new_local_def Let_def no_addr_def)
  moreover have "local_ok ver cfg (conn_types ?s) x l" if "sy_locals s x = Some l" for x l
    using assms(1) that le by (auto simp: sess_ok_def intro: local_ok_mono)
  moreover have "remote_ok cfg (conn_types ?s) (sy_remotes s k)" for k
    using assms(1) le by (auto simp: sess_ok_def intro: remote_ok_mono)
  moreover have "store_ok cfg (conn_types ?s) (sy_store s)"
    using assms(1) le by (auto simp: sess_ok_def intro: store_ok_mono)
  moreover have "sy_locals ?s = (sy_locals s)(sid \<mapsto> ?l)" "sy_remotes ?s = sy_remotes s" "sy_store ?s = sy_store s"
    by (simp_all add: put_local_def)
  ultimately show ?thesis
    unfolding sess_ok_def by (simp only: fun_upd_apply) (metis option.inject)
qed

lemma sess_step_ok:
  assumes "sess_step ver cfg s s'" "sess_ok ver cfg s"
  shows "sess_ok ver cfg s'"
proof -
  have loc: "local_pair_ok ver cfg (conn_types s) sid (l, sy_store s)" if "sy_locals s sid = Some l" for sid l
    using assms(2) that by (simp add: sess_ok_def local_pair_ok_def)
  have rem: "remote_pair_ok cfg (conn_types s) (sy_remotes s k, sy_store s)" for k
    using assms(2) by (simp add: sess_ok_def remote_pair_ok_def)
  show ?thesis
    using assms(1)
  proof (cases rule: sess_step.cases)
    case (expire k)
    have "conn_types s' = conn_types s" using expire by (auto simp: conn_types_def)
    then show ?thesis using assms(2) expire by (auto simp: sess_ok_def store_ok_def)
  next
    case (start sid a4 a6 outs addr n cnt)
    then show ?thesis using start_ok assms(2) by auto
  next
    case (l_stop sid l)
    then show ?thesis using loc by (auto intro!: put_local_ok assms(2) simp: local_pair_ok_def local_ok_def)
  next
    case (l_free sid l)
    then show ?thesis using loc by (auto intro!: put_local_ok assms(2) simp: local_pair_ok_def local_ok_def)
  next
    case (l_exists_error sid l)
    then show ?thesis using loc by (auto intro!: put_local_ok assms(2) simp: local_pair_ok_def local_ok_def)
  next
    case (l_tunnel sid l)
    have "local_tunnel_ok ver cfg c (t\<lparr> tn_conn := True \<rparr>) = local_tunnel_ok ver cfg c t" for c t
      by (simp add: local_tunnel_ok_def)
    with l_tunnel loc [of sid l] show ?thesis
      by (auto intro!: put_local_ok assms(2) simp: local_pair_ok_def local_ok_def conn_up_def)
  next
    case (r_stop k)
    then show ?thesis using rem [of k] by (auto intro!: put_remote_ok assms(2) simp: remote_pair_ok_def remote_ok_def)
  next
    case (r_read k up m)
    have "claim_ok (conn_types s) m"
      using assms(2) r_read(4) by (auto simp: sess_ok_def store_ok_def claim_read_def split: if_splits)
    then show ?thesis
      using r_read(1) rem [of k] by (auto intro!: put_remote_ok assms(2) simp: remote_pair_ok_def remote_ok_def)
  next
    case (r_tunnel k)
    have "remote_tunnel_ok cfg c x (t\<lparr> tn_conn := True \<rparr>) = remote_tunnel_ok cfg c x t" for c x t
      by (simp add: remote_tunnel_ok_def)
    with r_tunnel rem [of k] show ?thesis
      by (auto intro!: put_remote_ok assms(2) simp: remote_pair_ok_def remote_ok_def conn_up_def)
  qed (auto intro!: put_local_ok put_remote_ok assms(2) local_set_ok local_wait_ok local_unregister_ok local_loop_ok
      start_session_ok handleState1_Send_ok remote_loop_ok handleState2_ok loc rem)
qed

lemma sess_reachable_ok: "sess_reachable ver cfg s \<Longrightarrow> sess_ok ver cfg s"
proof (induction rule: sess_reachable.induct)
  case init
  show ?case
    by (simp add: sess_ok_def sess_init_def store_ok_def idle_remote_def remote_ok_def)
qed (rule sess_step_ok)

section \<open>A run\<close>

text \<open>One local end behind a cone NAT and one remote end, from the registration to the tunnel.\<close>

definition demo_cfg :: remote_cfg where
  "demo_cfg = \<lparr> rc_version = ''3.4.3'', rc_transport = ''quic'', rc_allow = False, rc_timeout = 20 \<rparr>"

definition demo_probe :: "udp_attempt list" where
  "demo_probe = [ListenFails, Probed 5000 ''1.2.3.4'' 6000 6000 6000 True]"

definition demo_addr :: addr_type where
  "demo_addr = the (fst (GetUDPAddr [] [] demo_probe))"

definition demo_local :: "(local_end \<times> rstore \<Rightarrow> local_end \<times> rstore) \<Rightarrow> sess_sys \<Rightarrow> sess_sys" where
  "demo_local f s = put_local s ''x'' (f (the (sy_locals s ''x''), sy_store s))"

definition demo_remote :: "(remote_end \<times> rstore \<Rightarrow> remote_end \<times> rstore) \<Rightarrow> sess_sys \<Rightarrow> sess_sys" where
  "demo_remote f s = put_remote s 0 (f (sy_remotes s 0, sy_store s))"

definition demo1 where "demo1 = put_local sess_init ''x'' (new_local ''3.4.1'' ''x'' demo_addr 1, Map.empty)"
definition demo2 where "demo2 = demo_local (\<lambda>(l, st). (l\<lparr> lc_phase := LSet \<rparr>, st)) demo1"
definition demo3 where "demo3 = demo_local (local_set True) demo2"
definition demo4 where
  "demo4 = demo_remote (\<lambda>(r, st). (r\<lparr> rm_phase := RRead (the (st Registered)) \<rparr>, st)) demo3"
definition demo5 where
  "demo5 = demo_remote (\<lambda>(r, st). (start_session (the (sy_store demo3 Registered)) r, claim_delete True st)) demo4"
definition demo6 where "demo6 = demo_remote (handleState1_SendRemoteAddr demo_cfg True (Some demo_addr)) demo5"
definition demo7 where "demo7 = demo_local (local_wait True ''x'' 0) demo6"
definition demo8 where "demo8 = demo_local (local_loop ''3.4.1'' True True ''x'') demo7"
definition demo9 where "demo9 = demo_remote (remote_loop demo_cfg True) demo8"
definition demo10 where
  "demo10 = demo_remote (\<lambda>(r, st). (r\<lparr> rm_active := conn_up (rm_active r), rm_passive := conn_up (rm_passive r) \<rparr>, st)) demo9"
definition demo11 where
  "demo11 = demo_local (\<lambda>(l, st). (l\<lparr> lc_active := conn_up (lc_active l), lc_passive := conn_up (lc_passive l) \<rparr>, st)) demo10"
definition demo12 where "demo12 = demo_remote (handleState2_WaitConnection True PassiveUp) demo11"
definition demo13 where "demo13 = demo_local (local_loop ''3.4.1'' True True ''x'') demo12"

lemma demo_exists:
  "sy_locals demo1 ''x'' \<noteq> None" "sy_locals demo2 ''x'' \<noteq> None" "sy_locals demo6 ''x'' \<noteq> None"
  "sy_locals demo7 ''x'' \<noteq> None" "sy_locals demo10 ''x'' \<noteq> None" "sy_locals demo12 ''x'' \<noteq> None"
  by code_simp+

lemma demo_phases:
  "lc_phase (the (sy_locals demo1 ''x'')) = LExists" "lc_phase (the (sy_locals demo2 ''x'')) = LSet"
  "lc_phase (the (sy_locals demo6 ''x'')) = LWait 0" "lc_phase (the (sy_locals demo7 ''x'')) = LLoop"
  "lc_phase (the (sy_locals demo12 ''x'')) = LLoop"
  "rm_phase (sy_remotes demo3 0) = RScan" "rm_running (sy_remotes demo3 0)"
  "rm_phase (sy_remotes demo4 0) = RRead (the (sy_store demo3 Registered))"
  "rm_phase (sy_remotes demo5 0) = RState1" "rm_phase (sy_remotes demo8 0) = RLoop"
  "rm_phase (sy_remotes demo11 0) = RWait"
  by code_simp+

lemma demo_guards:
  "GetUDPAddr [] [] demo_probe = (Some demo_addr, 1)" "sy_store demo1 Registered = None"
  "sy_store demo3 Registered \<noteq> None" "rm_passive (sy_remotes demo11 0) \<noteq> None"
  by code_simp+

text \<open>A step of either end whose guard holds.\<close>

lemma demo_local_step:
  assumes "sess_reachable ver cfg s" "sy_locals s ''x'' \<noteq> None"
    and "\<And>l. sy_locals s ''x'' = Some l \<Longrightarrow> sess_step ver cfg s (put_local s ''x'' (f (l, sy_store s)))"
  shows "sess_reachable ver cfg (demo_local f s)"
proof -
  obtain l where l: "sy_locals s ''x'' = Some l" using assms(2) by auto
  with assms(3) [OF l] show ?thesis
    by (auto simp: demo_local_def intro: sess_reachable.step [OF assms(1)])
qed

lemma demo_remote_step:
  assumes "sess_reachable ver cfg s" "sess_step ver cfg s (put_remote s 0 (f (sy_remotes s 0, sy_store s)))"
  shows "sess_reachable ver cfg (demo_remote f s)"
  using assms by (auto simp: demo_remote_def intro: sess_reachable.step)

lemma demo_reachable: "sess_reachable ''3.4.1'' demo_cfg demo13"
proof -
  let ?R = "sess_reachable ''3.4.1'' demo_cfg"
  have "?R demo1"
    unfolding demo1_def
    using sess_reachable.step [OF sess_reachable.init sess_step.start [OF _ demo_guards(1), of sess_init "''x''" "''3.4.1''" demo_cfg 1]]
    by (simp add: sess_init_def)
  then have "?R demo2"
    unfolding demo2_def using demo_exists(1) demo_phases(1) demo_guards(2)
    by (auto intro!: demo_local_step sess_step.l_free)
  then have "?R demo3"
    unfolding demo3_def using demo_exists(2) demo_phases(2) by (auto intro!: demo_local_step sess_step.l_set)
  then have "?R demo4"
    unfolding demo4_def using demo_phases(6,7) demo_guards(3)
    by (auto simp: claim_read_def intro!: demo_remote_step sess_step.r_read [where up = True])
  then have "?R demo5"
    unfolding demo5_def using demo_phases(8) by (auto intro!: demo_remote_step sess_step.r_claim)
  then have "?R demo6"
    unfolding demo6_def using demo_phases(9) demo_guards(1) by (auto intro!: demo_remote_step sess_step.r_state1)
  then have "?R demo7"
    unfolding demo7_def using demo_exists(3) demo_phases(3) by (auto intro!: demo_local_step sess_step.l_wait)
  then have "?R demo8"
    unfolding demo8_def using demo_exists(4) demo_phases(4) by (auto intro!: demo_local_step sess_step.l_loop)
  then have "?R demo9"
    unfolding demo9_def using demo_phases(10) by (auto intro!: demo_remote_step sess_step.r_loop)
  then have "?R demo10"
    unfolding demo10_def by (auto intro!: demo_remote_step sess_step.r_tunnel)
  then have "?R demo11"
    unfolding demo11_def using demo_exists(5) by (auto intro!: demo_local_step sess_step.l_tunnel)
  then have "?R demo12"
    unfolding demo12_def using demo_phases(11) demo_guards(4)
    by (auto intro!: demo_remote_step sess_step.r_wait)
  then show "?R demo13"
    unfolding demo13_def using demo_exists(6) demo_phases(5) by (auto intro!: demo_local_step sess_step.l_loop)
qed

section \<open>The properties\<close>



text \<open>Obtaining the UDP address ends after at most five attempts and leaks no socket: it returns either
  nothing with every socket closed, or exactly one open socket with an address that STUN
  determined, public address and both ports known.\<close>
theorem GetUDPAddr_bounded_and_clean:
  "GetUDPAddr local4 local6 outs = GetUDPAddr local4 local6 (take 5 outs) \<and>
   (case GetUDPAddr local4 local6 outs of
      (None, n) \<Rightarrow> n = 0
    | (Some a, n) \<Rightarrow> n = 1 \<and> at_WanIPv4 a \<noteq> [] \<and> at_WanPort1 a \<noteq> 0 \<and> at_WanPort2 a \<noteq> 0)"
proof
  have "get_udp_addr n addr (take n outs) = get_udp_addr n addr outs" for n addr
    by (induction n addr outs rule: get_udp_addr.induct) (auto simp: Let_def)
  then show "GetUDPAddr local4 local6 outs = GetUDPAddr local4 local6 (take 5 outs)"
    unfolding GetUDPAddr_def maxGetUDPAddrAttempts_def by (rule sym)
  obtain r n where r: "GetUDPAddr local4 local6 outs = (r, n)" by fastforce
  note get_udp_addr_cases [OF r [unfolded GetUDPAddr_def]]
  with r show "case GetUDPAddr local4 local6 outs of
      (None, n) \<Rightarrow> n = 0
    | (Some a, n) \<Rightarrow> n = 1 \<and> at_WanIPv4 a \<noteq> [] \<and> at_WanPort1 a \<noteq> 0 \<and> at_WanPort2 a \<noteq> 0"
    by auto
qed

text \<open>A local end that waits in vain goes through all its polls.\<close>

lemma waits_out:
  assumes "sess_reachable ver cfg s" "sy_locals s sid = Some l" "lc_phase l = LWait 0" "lc_running l"
    and "sy_store s (Session sid) = None" "i \<le> 30"
  shows "sess_reachable ver cfg (put_local s sid (l\<lparr> lc_phase := LWait i \<rparr>, sy_store s))"
  using assms(6)
proof (induction i)
  case 0
  have "put_local s sid (l\<lparr> lc_phase := LWait 0 \<rparr>, sy_store s) = s"
    using assms(2,3) by (simp add: put_local_def fun_upd_idem)
  then show ?case using assms(1) by simp
next
  case (Suc i)
  let ?s = "put_local s sid (l\<lparr> lc_phase := LWait i \<rparr>, sy_store s)"
  have "sess_step ver cfg ?s (put_local ?s sid (local_wait True sid i (l\<lparr> lc_phase := LWait i \<rparr>, sy_store ?s)))"
    by (rule sess_step.l_wait) (simp_all add: put_local_def)
  moreover have "put_local ?s sid (local_wait True sid i (l\<lparr> lc_phase := LWait i \<rparr>, sy_store ?s)) =
      put_local s sid (l\<lparr> lc_phase := LWait (Suc i) \<rparr>, sy_store s)"
    using assms(4,5) Suc.prems by (simp add: put_local_def local_wait_def RedisSessionGet_def)
  ultimately show ?case
    using Suc by (metis Suc_leD sess_reachable.step)
qed

definition waiting_local :: "string \<Rightarrow> local_end" where
  "waiting_local sid = (new_local ''3.4.1'' sid demo_addr 1)\<lparr> lc_phase := LWait 0 \<rparr>"

text \<open>A local end registers while the key is free.\<close>

lemma registers:
  assumes "sess_reachable ''3.4.1'' cfg s" "sy_locals s sid = None" "sy_store s Registered = None"
  shows "sess_reachable ''3.4.1'' cfg
    (put_local s sid (waiting_local sid, (sy_store s)(Registered \<mapsto> lc_json (waiting_local sid))))"
proof -
  let ?l = "new_local ''3.4.1'' sid demo_addr 1"
  define s1 where "s1 = put_local s sid (?l, sy_store s)"
  define s2 where "s2 = put_local s1 sid (?l\<lparr> lc_phase := LSet \<rparr>, sy_store s1)"
  have 1: "sess_reachable ''3.4.1'' cfg s1"
    unfolding s1_def by (rule sess_reachable.step [OF assms(1) sess_step.start [OF assms(2) demo_guards(1)]])
  have "sess_step ''3.4.1'' cfg s1 s2"
    unfolding s2_def by (rule sess_step.l_free) (simp_all add: s1_def put_local_def new_local_def Let_def assms(3))
  with 1 have 2: "sess_reachable ''3.4.1'' cfg s2" by (rule sess_reachable.step)
  have "sess_step ''3.4.1'' cfg s2 (put_local s2 sid (local_set True (?l\<lparr> lc_phase := LSet \<rparr>, sy_store s2)))"
    by (rule sess_step.l_set) (simp_all add: s2_def s1_def put_local_def)
  moreover have "put_local s2 sid (local_set True (?l\<lparr> lc_phase := LSet \<rparr>, sy_store s2)) =
      put_local s sid (waiting_local sid, (sy_store s)(Registered \<mapsto> lc_json (waiting_local sid)))"
    by (simp add: s2_def s1_def put_local_def local_set_def RedisSessionRegister_def waiting_local_def)
  ultimately show ?thesis using 2 by (metis sess_reachable.step)
qed

text \<open>C37 The registration key is shared by all local ends of a service, and giving up deletes it whoever
  wrote it. Session A registers, its key expires after the 30 seconds it also waits for, session B
  finds the key free and registers, and A's clean-up then deletes B's registration: B is still
  waiting to be claimed, and no remote end can claim it.\<close>
theorem giving_up_deletes_other_registration:
  "\<exists>s la lb. sess_reachable ''3.4.1'' demo_cfg s \<and>
     sy_locals s ''A'' = Some la \<and> lc_phase la = LUnregister \<and>
     sy_locals s ''B'' = Some lb \<and> lc_phase lb = LWait 0 \<and> sy_store s Registered = Some (lc_json lb) \<and>
     (let s' = put_local s ''A'' (local_unregister True (la, sy_store s)) in
      sess_step ''3.4.1'' demo_cfg s s' \<and> sy_locals s' ''B'' = Some lb \<and>
      (\<forall>up. claim_read up (sy_store s') = None))"
proof -
  let ?R = "sess_reachable ''3.4.1'' demo_cfg"
  define wa where "wa = waiting_local ''A''"
  define wb where "wb = waiting_local ''B''"
  define s1 where "s1 = put_local sess_init ''A'' (wa, [Registered \<mapsto> lc_json wa])"
  have "?R s1"
    unfolding s1_def wa_def
    using registers [OF sess_reachable.init, of "''A''" demo_cfg] by (simp add: sess_init_def)
  define s2 where "s2 = s1\<lparr> sy_store := (sy_store s1)(Registered := None) \<rparr>"
  have s2: "?R s2" unfolding s2_def by (rule sess_reachable.step [OF \<open>?R s1\<close> sess_step.expire])
  define s3 where "s3 = put_local s2 ''B'' (wb, (sy_store s2)(Registered \<mapsto> lc_json wb))"
  have s3: "?R s3"
    unfolding s3_def wb_def
    by (rule registers [OF s2]) (simp_all add: s2_def s1_def put_local_def sess_init_def)
  have a3: "sy_locals s3 ''A'' = Some wa" "sy_store s3 (Session ''A'') = None"
    by (simp_all add: s3_def s2_def s1_def put_local_def sess_init_def)
  have wa: "lc_phase wa = LWait 0" "lc_running wa"
    by (simp_all add: wa_def waiting_local_def new_local_def Let_def)
  define s4 where "s4 = put_local s3 ''A'' (wa\<lparr> lc_phase := LWait 30 \<rparr>, sy_store s3)"
  have s4: "?R s4" unfolding s4_def by (rule waits_out [OF s3 a3(1) wa a3(2)]) simp
  define la where "la = wa\<lparr> lc_phase := LUnregister \<rparr>"
  define s5 where "s5 = put_local s4 ''A'' (local_wait True ''A'' 30 (wa\<lparr> lc_phase := LWait 30 \<rparr>, sy_store s4))"
  have "sess_step ''3.4.1'' demo_cfg s4 s5"
    unfolding s5_def by (rule sess_step.l_wait) (simp_all add: s4_def put_local_def)
  with s4 have s5: "?R s5" by (rule sess_reachable.step)
  have st5: "sy_store s5 = [Registered \<mapsto> lc_json wb]" "sy_locals s5 ''A'' = Some la" "sy_locals s5 ''B'' = Some wb"
    by (simp_all add: s5_def s4_def s3_def s2_def s1_def put_local_def local_wait_def la_def sess_init_def)
  moreover have "lc_phase wb = LWait 0" "lc_phase la = LUnregister"
    by (simp_all add: wb_def la_def waiting_local_def)
  moreover have "sess_step ''3.4.1'' demo_cfg s5 (put_local s5 ''A'' (local_unregister True (la, sy_store s5)))"
    using st5 by (intro sess_step.l_unregister) (simp_all add: la_def)
  ultimately show ?thesis
    using s5
    by (intro exI [of _ s5] exI [of _ la] exI [of _ wb])
      (simp add: put_local_def local_unregister_def RedisSessionUnregister_def claim_read_def Let_def)
qed

end
