(* ===== verification/Netstack_Link.thy ===== *)
theory Netstack_Link
  imports Go_Net "HOL-Library.Sublist"
begin

text \<open>
  The link between the network adapter and the packet stack, \<open>netstack/endpoint_tun.go\<close>: the loop
  that reads packets from the adapter and hands them to the stack, and the loop that takes the stack's
  packets and writes them to the adapter, both in their batched and their single form. The adapter is
  a script of what its calls return; the stack is what it was handed, and a queue of packets it
  wants to send. Each turn of a loop is one function, the loops are recursive on the scripts.
\<close>

section \<open>The end point\<close>

definition tunBatchSize :: nat where "tunBatchSize = 32"
definition dispatchRetryDelay :: nat where "dispatchRetryDelay = 100"
definition dispatchMaxRetryDelay :: nat where "dispatchMaxRetryDelay = 5000"

lemmas link_consts = tunBatchSize_def dispatchRetryDelay_def dispatchMaxRetryDelay_def

record endpoint =
  ep_batch :: bool
  ep_mtu :: nat
  ep_offset :: nat

datatype ep_err = MtuZero | RwNil | NegativeOffset

text \<open>\<open>rw\<close> is the adapter, if there is one: whether it has the batched calls.\<close>

definition NewEndpoint :: "bool option \<Rightarrow> nat \<Rightarrow> int \<Rightarrow> ep_err + endpoint" where
  "NewEndpoint rw mtu offset =
     (if mtu = 0 then Inl MtuZero
      else case rw of
        None \<Rightarrow> Inl RwNil
      | Some b \<Rightarrow>
          if offset < 0 then Inl NegativeOffset
          else Inr \<lparr> ep_batch = b, ep_mtu = mtu, ep_offset = nat offset \<rparr>)"

text \<open>
  An error is what the tests on it find: \<open>io.EOF\<close> or \<open>os.ErrClosed\<close>; as a \<open>net.Error\<close>, whether it
  is a timeout; as a number of the system, which one.
\<close>

datatype errno = EAGAIN | EINTR | EWOULDBLOCK | OtherErrno

record dev_err =
  de_EOF :: bool
  de_Closed :: bool
  de_Net :: "bool option"
  de_Errno :: "errno option"

definition isTemporaryError :: "dev_err option \<Rightarrow> bool" where
  "isTemporaryError err =
     (case err of
        None \<Rightarrow> False
      | Some e \<Rightarrow>
          if de_EOF e \<or> de_Closed e then False
          else if de_Net e = Some True then True
          else case de_Errno e of
            Some n \<Rightarrow> n = EAGAIN \<or> n = EINTR \<or> n = EWOULDBLOCK
          | None \<Rightarrow> False)"

section \<open>From the adapter to the stack\<close>

text \<open>The packets handed to the stack by one call.\<close>

definition injectIPv4 :: "bool \<Rightarrow> bytes \<Rightarrow> bytes list" where
  "injectIPv4 attached payload =
     (if payload = [] \<or> \<not> attached then []
      else if unat (drop_bit 4 (hd payload)) \<noteq> 4 then []
      else [payload])"

text \<open>
  What one call of \<open>Read\<close> or \<open>ReadBatch\<close> did: the error it returned, the buffers it filled with the
  size it reports for each, and whether a stack is attached while they are handed on.
\<close>

record dev_read =
  dr_err :: "dev_err option"
  dr_bufs :: "(bytes \<times> nat) list"
  dr_attached :: bool

datatype dispatch_turn = Quit | RetryAfter nat | Injected "bytes list"

definition inject_buf :: "endpoint \<Rightarrow> bool \<Rightarrow> bytes \<times> nat \<Rightarrow> bytes list" where
  "inject_buf e attached = (\<lambda>(buf, pktLen).
     if pktLen = 0 \<or> pktLen > ep_mtu e then []
     else injectIPv4 attached (take pktLen (drop (ep_offset e) buf)))"

definition batch_turn :: "endpoint \<Rightarrow> nat \<Rightarrow> dev_read \<Rightarrow> dispatch_turn" where
  "batch_turn e retryDelay r =
     (if dr_err r \<noteq> None \<and> dr_bufs r = [] then
        (if \<not> isTemporaryError (dr_err r) then Quit else RetryAfter retryDelay)
      else Injected (concat (map (inject_buf e (dr_attached r)) (dr_bufs r))))"

text \<open>The single form reads one packet, of length 0 when nothing was read.\<close>

definition single_turn :: "endpoint \<Rightarrow> nat \<Rightarrow> dev_read \<Rightarrow> dispatch_turn" where
  "single_turn e retryDelay r =
     (if dr_err r \<noteq> None then
        (if \<not> isTemporaryError (dr_err r) then Quit else RetryAfter retryDelay)
      else Injected (case dr_bufs r of [] \<Rightarrow> [] | b # _ \<Rightarrow> inject_buf e (dr_attached r) b))"

text \<open>The loop over all reads there are: whether it ended, what it injected and how long it slept.\<close>

fun dispatch_loop ::
  "(nat \<Rightarrow> dev_read \<Rightarrow> dispatch_turn) \<Rightarrow> nat \<Rightarrow> dev_read list \<Rightarrow> bool \<times> bytes list \<times> nat list" where
  "dispatch_loop turn retryDelay [] = (False, [], [])"
| "dispatch_loop turn retryDelay (r # rs) =
     (case turn retryDelay r of
        Quit \<Rightarrow> (True, [], [])
      | RetryAfter d \<Rightarrow>
          (case dispatch_loop turn (min (retryDelay * 2) dispatchMaxRetryDelay) rs of
             (q, out, slept) \<Rightarrow> (q, out, d # slept))
      | Injected ps \<Rightarrow>
          (case dispatch_loop turn dispatchRetryDelay rs of
             (q, out, slept) \<Rightarrow> (q, ps @ out, slept)))"

definition dispatchLoop :: "endpoint \<Rightarrow> dev_read list \<Rightarrow> bool \<times> bytes list \<times> nat list" where
  "dispatchLoop e rs =
     dispatch_loop (if ep_batch e then batch_turn e else single_turn e) dispatchRetryDelay rs"

section \<open>From the stack to the adapter\<close>

text \<open>A packet of the stack: its pieces, and how many bytes at their front do not belong to it. Its size is
  what remains.\<close>

record packet =
  pk_views :: "bytes list"
  pk_hdrOff :: nat

definition pkt_bytes :: "packet \<Rightarrow> bytes" where
  "pkt_bytes p = drop (pk_hdrOff p) (concat (pk_views p))"

definition pkt_Size :: "packet \<Rightarrow> nat" where
  "pkt_Size p = length (concat (pk_views p)) - pk_hdrOff p"

text \<open>\<open>copyPktTo\<close>: the loop over the pieces with its two counters.\<close>

fun copy_views :: "nat \<Rightarrow> nat \<Rightarrow> nat \<Rightarrow> bytes \<Rightarrow> bytes list \<Rightarrow> nat \<times> bytes" where
  "copy_views hdrOff skipped n dst [] = (n, dst)"
| "copy_views hdrOff skipped n dst (s # vs) =
     (if skipped < hdrOff \<and> skipped + length s \<le> hdrOff
      then copy_views hdrOff (skipped + length s) n dst vs
      else let (s', skipped') = (if skipped < hdrOff then (drop (hdrOff - skipped) s, hdrOff) else (s, skipped))
           in if n \<ge> length dst then (n, dst)
              else copy_views hdrOff skipped' (n + min (length dst - n) (length s'))
                     (take n dst @ go_copy (drop n dst) s') vs)"

definition copyPktTo :: "bytes \<Rightarrow> packet \<Rightarrow> nat \<times> bytes" where
  "copyPktTo dst p = copy_views (pk_hdrOff p) 0 0 dst (pk_views p)"

text \<open>\<open>packPacket\<close> fills the scratch buffer, or a new one when that is too small, and returns the slice it
  filled; a slice shares the scratch buffer's memory, so the buffer afterwards is returned too.\<close>

definition packPacket :: "endpoint \<Rightarrow> packet \<Rightarrow> bytes \<Rightarrow> bytes \<times> bytes" where
  "packPacket e p dest =
     (let need = ep_offset e + pkt_Size p;
          fresh = length dest < need;
          d = (if fresh then replicate need 0 else take need dest);
          d' = take (ep_offset e) d @ snd (copyPktTo (drop (ep_offset e) d) p)
      in (d', if fresh then dest else d' @ drop need dest))"

text \<open>One packet after the other into the scratch buffers, at most as many as there are.\<close>

fun pack_round :: "endpoint \<Rightarrow> packet list \<Rightarrow> bytes list \<Rightarrow> bytes list \<times> bytes list" where
  "pack_round e (p # ps) (s # ss) =
     (let (b, s') = packPacket e p s; (bs, ss') = pack_round e ps ss in (b # bs, s' # ss'))"
| "pack_round e [] ss = ([], ss)"
| "pack_round e ps [] = ([], [])"

text \<open>
  Writing a round. The batched call reports how many packets reached the adapter; otherwise packets
  are written one by one up to the first that fails (\<open>True\<close> is a call that works).
\<close>

record dev_write =
  dw_batch :: nat
  dw_single :: "bool list"

fun write_singles :: "bytes list \<Rightarrow> bool list \<Rightarrow> bytes list" where
  "write_singles [] outs = []"
| "write_singles (b # bs) [] = []"
| "write_singles (b # bs) (ok # outs) = (if ok then b # write_singles bs outs else [])"

definition write_round :: "endpoint \<Rightarrow> dev_write \<Rightarrow> bytes list \<Rightarrow> bytes list" where
  "write_round e w bufs = (if ep_batch e then take (dw_batch w) bufs else write_singles bufs (dw_single w))"

text \<open>The state of the loop: the stack's queue, the scratch buffers, what the adapter got, and the packets
  given back to the stack.\<close>

record link_out =
  lo_queue :: "packet list"
  lo_scratch :: "bytes list"
  lo_written :: "bytes list"
  lo_released :: "packet list"

definition link_start :: "endpoint \<Rightarrow> link_out" where
  "link_start e = \<lparr> lo_queue = [], lo_scratch = replicate tunBatchSize (replicate (ep_offset e + ep_mtu e) 0),
     lo_written = [], lo_released = [] \<rparr>"

text \<open>One turn: it waits while the queue is empty, then takes what is there, up to the batch size.\<close>

definition outbound_turn :: "endpoint \<Rightarrow> dev_write \<Rightarrow> link_out \<Rightarrow> link_out" where
  "outbound_turn e w s =
     (if lo_queue s = [] then s
      else let pkts = take tunBatchSize (lo_queue s);
               (bufs, scratch) = pack_round e pkts (lo_scratch s)
           in s\<lparr> lo_queue := drop tunBatchSize (lo_queue s), lo_scratch := scratch,
                 lo_written := lo_written s @ write_round e w bufs,
                 lo_released := lo_released s @ pkts \<rparr>)"

text \<open>Between two turns the stack queues some more.\<close>

fun outboundLoop :: "endpoint \<Rightarrow> (packet list \<times> dev_write) list \<Rightarrow> link_out \<Rightarrow> link_out" where
  "outboundLoop e [] s = s"
| "outboundLoop e ((arrivals, w) # rest) s =
     outboundLoop e rest (outbound_turn e w (s\<lparr> lo_queue := lo_queue s @ arrivals \<rparr>))"

section \<open>Reading\<close>

text \<open>The reference: which packets of one call of the adapter are good.\<close>

definition good_packet :: "endpoint \<Rightarrow> bytes \<times> nat \<Rightarrow> bool" where
  "good_packet e = (\<lambda>(buf, n).
     0 < n \<and> n \<le> ep_mtu e \<and> take n (drop (ep_offset e) buf) \<noteq> [] \<and>
     unat (drop_bit 4 (hd (take n (drop (ep_offset e) buf)))) = 4)"

definition packet_of :: "endpoint \<Rightarrow> bytes \<times> nat \<Rightarrow> bytes" where
  "packet_of e = (\<lambda>(buf, n). take n (drop (ep_offset e) buf))"

definition good_packets :: "endpoint \<Rightarrow> dev_read \<Rightarrow> bytes list" where
  "good_packets e r =
     (if dr_attached r then map (packet_of e) (filter (good_packet e) (dr_bufs r)) else [])"

definition fatal_read :: "dev_read \<Rightarrow> bool" where
  "fatal_read r \<longleftrightarrow> dr_err r \<noteq> None \<and> dr_bufs r = [] \<and> \<not> isTemporaryError (dr_err r)"

definition failed_read :: "dev_read \<Rightarrow> bool" where
  "failed_read r \<longleftrightarrow> dr_err r \<noteq> None \<and> dr_bufs r = []"

lemma inject_buf_eq: "inject_buf e att b = (if att \<and> good_packet e b then [packet_of e b] else [])"
  by (cases b) (auto simp: inject_buf_def injectIPv4_def good_packet_def packet_of_def)

lemma inject_bufs:
  "concat (map (inject_buf e att) bufs) = (if att then map (packet_of e) (filter (good_packet e) bufs) else [])"
  by (induction bufs) (auto simp: inject_buf_eq)

lemma batch_turn_eq:
  "batch_turn e d r = (if fatal_read r then Quit else if failed_read r then RetryAfter d
     else Injected (good_packets e r))"
  by (auto simp: batch_turn_def fatal_read_def failed_read_def good_packets_def inject_bufs)

text \<open>The pause after the \<open>k\<close>-th failure in a row.\<close>

definition retry_pause :: "nat \<Rightarrow> nat" where
  "retry_pause k = min (dispatchRetryDelay * 2 ^ k) dispatchMaxRetryDelay"

fun pauses :: "nat \<Rightarrow> dev_read list \<Rightarrow> nat list" where
  "pauses k [] = []"
| "pauses k (r # rs) = (if failed_read r then retry_pause k # pauses (Suc k) rs else pauses 0 rs)"

lemma retry_pause_Suc: "min (retry_pause k * 2) dispatchMaxRetryDelay = retry_pause (Suc k)"
  by (auto simp: retry_pause_def link_consts min_def)

lemma dispatch_loop_spec:
  "dispatch_loop (batch_turn e) (retry_pause k) rs =
     (let alive = takeWhile (\<lambda>r. \<not> fatal_read r) rs
      in (alive \<noteq> rs, concat (map (good_packets e) alive), pauses k alive))"
proof (induction rs arbitrary: k)
  case (Cons r rs)
  have "good_packets e r = []" if "failed_read r"
    using that by (simp add: good_packets_def failed_read_def)
  moreover have "dispatchRetryDelay = retry_pause 0" by (simp add: retry_pause_def link_consts)
  ultimately show ?case
    using Cons.IH[of "Suc k"] Cons.IH[of 0] by (auto simp: batch_turn_eq retry_pause_Suc Let_def)
qed simp

section \<open>Writing\<close>

lemma copy_views_spec:
  assumes "skipped \<le> hdrOff" "n \<le> length dst" "skipped = hdrOff \<or> n = 0"
  shows "copy_views hdrOff skipped n dst vs =
    (let src = drop (hdrOff - skipped) (concat vs)
     in (n + min (length dst - n) (length src), take n dst @ go_copy (drop n dst) src))"
  using assms
proof (induction vs arbitrary: skipped n dst)
  case Nil
  then show ?case by (simp add: go_copy_def)
next
  case (Cons s vs)
  show ?case
  proof (cases "skipped < hdrOff \<and> skipped + length s \<le> hdrOff")
    case True
    then have "length s \<le> hdrOff - skipped" by linarith
    then have "drop (hdrOff - skipped) (concat (s # vs)) = drop (hdrOff - (skipped + length s)) (concat vs)"
      by (simp add: drop_append)
    with True show ?thesis using Cons.IH[of "skipped + length s" n dst] Cons.prems by simp
  next
    case False
    define s' where "s' = drop (hdrOff - skipped) s"
    have src: "drop (hdrOff - skipped) (concat (s # vs)) = s' @ concat vs"
      using False Cons.prems(1) by (auto simp: s'_def drop_append)
    let ?dst = "take n dst @ go_copy (drop n dst) s'"
    let ?n = "n + min (length dst - n) (length s')"
    have l: "length ?dst = length dst" using Cons.prems(2) by simp
    show ?thesis
    proof (cases "n \<ge> length dst")
      case True
      then show ?thesis using False Cons.prems by (auto simp: Let_def src go_copy_def)
    next
      case nd: False
      have step: "copy_views hdrOff skipped n dst (s # vs) = copy_views hdrOff hdrOff ?n ?dst vs"
        using False nd Cons.prems(1) by (auto simp: s'_def Let_def)
      have rest: "take ?n ?dst @ go_copy (drop ?n ?dst) (concat vs) = take n dst @ go_copy (drop n dst) (s' @ concat vs)"
        using Cons.prems(2) by (auto simp: go_copy_def min_def ac_simps)
      show ?thesis
        using Cons.IH[of hdrOff ?n ?dst] l rest Cons.prems(2) unfolding step src
        by (auto simp: Let_def)
    qed
  qed
qed

lemma copyPktTo_spec:
  "copyPktTo dst p = (min (length dst) (length (pkt_bytes p)), go_copy dst (pkt_bytes p))"
  by (simp add: copyPktTo_def copy_views_spec pkt_bytes_def)

lemma pkt_Size_bytes: "pkt_Size p = length (pkt_bytes p)"
  by (simp add: pkt_Size_def pkt_bytes_def)

lemma packPacket_spec:
  "packPacket e p dest = (b, dest') \<Longrightarrow>
     drop (ep_offset e) b = pkt_bytes p \<and> length b = ep_offset e + pkt_Size p \<and> length dest' = length dest"
  by (auto simp: packPacket_def Let_def copyPktTo_spec pkt_Size_bytes go_copy_def split: if_splits)

lemma pack_round_spec:
  assumes "length ps \<le> length ss" "pack_round e ps ss = (bs, ss')"
  shows "map (drop (ep_offset e)) bs = map pkt_bytes ps \<and> length ss' = length ss"
  using assms
proof (induction e ps ss arbitrary: bs ss' rule: pack_round.induct)
  case (1 e p ps s ss)
  obtain b s' where b: "packPacket e p s = (b, s')" by fastforce
  obtain bs2 ss2 where r: "pack_round e ps ss = (bs2, ss2)" by fastforce
  show ?case using 1 b r packPacket_spec[OF b] by auto
qed auto

lemma prefix_write_singles: "prefix (write_singles bs outs) bs"
  by (induction bs outs rule: write_singles.induct) auto

lemma prefix_write_round: "prefix (write_round e w bufs) bufs"
  by (simp add: write_round_def prefix_write_singles take_is_prefix)

text \<open>All writes of a round work.\<close>

definition all_ok :: "endpoint \<Rightarrow> dev_write \<Rightarrow> bool" where
  "all_ok e w \<longleftrightarrow> (if ep_batch e then tunBatchSize \<le> dw_batch w
     else tunBatchSize \<le> length (dw_single w) \<and> list_all id (dw_single w))"

lemma write_singles_ok: "length bs \<le> length outs \<Longrightarrow> list_all id outs \<Longrightarrow> write_singles bs outs = bs"
  by (induction bs outs rule: write_singles.induct) auto

lemma write_round_ok: "all_ok e w \<Longrightarrow> length bufs \<le> tunBatchSize \<Longrightarrow> write_round e w bufs = bufs"
  by (auto simp: all_ok_def write_round_def write_singles_ok split: if_splits)

definition on_wire :: "endpoint \<Rightarrow> link_out \<Rightarrow> bytes list" where
  "on_wire e s = map (drop (ep_offset e)) (lo_written s)"

lemma outbound_turn_spec:
  assumes "length (lo_scratch s) = tunBatchSize" "outbound_turn e w s = s'"
  shows "length (lo_scratch s') = tunBatchSize \<and> lo_released s' @ lo_queue s' = lo_released s @ lo_queue s \<and>
    (\<exists>xs. on_wire e s' = on_wire e s @ xs \<and> subseq xs (map pkt_bytes (take tunBatchSize (lo_queue s))) \<and>
      lo_released s' = lo_released s @ take tunBatchSize (lo_queue s) \<and>
      (all_ok e w \<longrightarrow> xs = map pkt_bytes (take tunBatchSize (lo_queue s))))"
proof (cases "lo_queue s = []")
  case True
  then show ?thesis using assms by (auto simp: outbound_turn_def)
next
  case False
  let ?pkts = "take tunBatchSize (lo_queue s)"
  obtain bufs scratch where p: "pack_round e ?pkts (lo_scratch s) = (bufs, scratch)" by fastforce
  have b: "map (drop (ep_offset e)) bufs = map pkt_bytes ?pkts" "length scratch = tunBatchSize"
    using pack_round_spec[OF _ p] assms(1) by auto
  have s': "s' = s\<lparr> lo_queue := drop tunBatchSize (lo_queue s), lo_scratch := scratch,
      lo_written := lo_written s @ write_round e w bufs, lo_released := lo_released s @ ?pkts \<rparr>"
    using assms(2) False p by (simp add: outbound_turn_def Let_def)
  have "length bufs \<le> tunBatchSize" using arg_cong[OF b(1), of length] by simp
  then have "all_ok e w \<longrightarrow> map (drop (ep_offset e)) (write_round e w bufs) = map pkt_bytes ?pkts"
    using b(1) write_round_ok[of e w bufs] by auto
  moreover have "subseq (map (drop (ep_offset e)) (write_round e w bufs)) (map pkt_bytes ?pkts)"
    unfolding b(1)[symmetric] by (intro subseq_map prefix_imp_subseq prefix_write_round)
  ultimately show ?thesis by (auto simp: s' b(2) on_wire_def)
qed

lemma outboundLoop_spec:
  assumes "length (lo_scratch s) = tunBatchSize" "subseq (on_wire e s) (map pkt_bytes (lo_released s))"
    and "outboundLoop e script s = s'"
  shows "length (lo_scratch s') = tunBatchSize \<and>
    lo_released s' @ lo_queue s' = lo_released s @ lo_queue s @ concat (map fst script) \<and>
    subseq (on_wire e s') (map pkt_bytes (lo_released s')) \<and>
    (list_all (\<lambda>(a, w). all_ok e w) script \<and> on_wire e s = map pkt_bytes (lo_released s) \<longrightarrow>
       on_wire e s' = map pkt_bytes (lo_released s'))"
  using assms
proof (induction e script s arbitrary: s' rule: outboundLoop.induct)
  case (2 e arrivals w rest s)
  let ?q = "s\<lparr> lo_queue := lo_queue s @ arrivals \<rparr>"
  let ?t = "outbound_turn e w ?q"
  have q: "length (lo_scratch ?q) = tunBatchSize" "on_wire e ?q = on_wire e s"
    and rel: "lo_released ?q = lo_released s"
    using 2(2) by (simp_all add: on_wire_def)
  obtain xs where x: "on_wire e ?t = on_wire e s @ xs" "subseq xs (map pkt_bytes (take tunBatchSize (lo_queue ?q)))"
    "lo_released ?t = lo_released s @ take tunBatchSize (lo_queue ?q)"
    "all_ok e w \<longrightarrow> xs = map pkt_bytes (take tunBatchSize (lo_queue ?q))"
    "length (lo_scratch ?t) = tunBatchSize" "lo_released ?t @ lo_queue ?t = lo_released s @ lo_queue ?q"
    using outbound_turn_spec[OF q(1) refl, of e w, unfolded q(2) rel] by blast
  have "subseq (on_wire e ?t) (map pkt_bytes (lo_released ?t))"
    using list_emb_append_mono[OF 2(3) x(2)] by (simp add: x(1,3))
  from 2(1)[OF x(5) this] 2(4) x show ?case by auto
qed auto

section \<open>Properties\<close>

text \<open>C17 The reading loop hands the stack exactly the IPv4 packets the adapter delivers whose size is between
  one byte and the MTU, in their order and unchanged, until the first error that is not temporary
  ends it; a temporary error loses nothing and is followed by a pause that starts at 100 ms, doubles
  with every further failure in a row and never exceeds 5 s.\<close>

theorem link_reads_good_packets:
  assumes "ep_batch e"
  shows "\<exists>ended slept alive rest. dispatchLoop e rs = (ended, concat (map (good_packets e) alive), slept) \<and>
    rs = alive @ rest \<and> \<not> list_ex fatal_read alive \<and> (ended \<longleftrightarrow> rest \<noteq> []) \<and> (ended \<longrightarrow> fatal_read (hd rest)) \<and>
    length slept = length (filter failed_read alive) \<and> slept = pauses 0 alive \<and>
    list_all (\<lambda>d. 100 \<le> d \<and> d \<le> 5000) slept"
proof -
  let ?alive = "takeWhile (\<lambda>r. \<not> fatal_read r) rs" and ?rest = "dropWhile (\<lambda>r. \<not> fatal_read r) rs"
  have "dispatchRetryDelay = retry_pause 0" by (simp add: retry_pause_def link_consts)
  then have d: "dispatchLoop e rs = (?rest \<noteq> [], concat (map (good_packets e) ?alive), pauses 0 ?alive)"
    using assms dispatch_loop_spec[of e 0 rs] by (simp add: dispatchLoop_def Let_def dropWhile_eq_Nil_conv)
  have "100 \<le> retry_pause k \<and> retry_pause k \<le> 5000" for k
    by (simp add: retry_pause_def link_consts)
  then have b: "list_all (\<lambda>d. 100 \<le> d \<and> d \<le> 5000) (pauses k xs) \<and> length (pauses k xs) = length (filter failed_read xs)" for k xs
    by (induction k xs rule: pauses.induct) auto
  have "\<not> list_ex fatal_read ?alive" by (auto simp: list_ex_iff dest: set_takeWhileD)
  moreover have "?rest \<noteq> [] \<longrightarrow> fatal_read (hd ?rest)" using hd_dropWhile[of "\<lambda>r. \<not> fatal_read r" rs] by auto
  ultimately show ?thesis
    using d b[of 0 ?alive]
    by (intro exI[of _ "?rest \<noteq> []"] exI[of _ "pauses 0 ?alive"] exI[of _ ?alive] exI[of _ ?rest]) simp
qed

definition wit_ep :: endpoint where
  "wit_ep = \<lparr> ep_batch = True, ep_mtu = 1280, ep_offset = 4 \<rparr>"

definition wit_reads :: "dev_read list" where
  "wit_reads =
     [\<lparr> dr_err = None, dr_bufs = [([0, 0, 0, 0, 0x45, 1], 2), ([0, 0, 0, 0, 0x60, 1], 2)], dr_attached = True \<rparr>,
      \<lparr> dr_err = Some \<lparr> de_EOF = False, de_Closed = False, de_Net = None, de_Errno = Some EAGAIN \<rparr>,
         dr_bufs = [], dr_attached = True \<rparr>,
      \<lparr> dr_err = Some \<lparr> de_EOF = False, de_Closed = True, de_Net = None, de_Errno = None \<rparr>,
         dr_bufs = [], dr_attached = True \<rparr>]"

theorem link_reads_witness:
  "dispatchLoop wit_ep wit_reads = (True, [[0x45, 1]], [100]) \<and>
   (\<exists>alive rest. wit_reads = alive @ rest \<and> rest \<noteq> [] \<and> [[0x45, 1]] = concat (map (good_packets wit_ep) alive))"
proof -
  have d: "dispatchLoop wit_ep wit_reads = (True, [[0x45, 1]], [100])" by code_simp
  have "ep_batch wit_ep" by (simp add: wit_ep_def)
  from link_reads_good_packets[OF this, of wit_reads] d show ?thesis by auto
qed


definition wit_pkt :: packet where "wit_pkt = \<lparr> pk_views = [[9, 9, 1], [2, 3]], pk_hdrOff = 2 \<rparr>"


end
