(* ===== verification/Netstack_Setup.thy ===== *)
theory Netstack_Setup
  imports Tunnel_Remote Forward_Base
begin

text \<open>
  The packet stack behind the network adapter, \<open>netstack/setup.go\<close> with the Linux forms of \<open>Open\<close> and
  \<open>SetTunIP\<close> (\<open>tun_linux.go\<close>, \<open>setup_linux.go\<close>), and the forwarders of captured connections,
  \<open>forward_tcp.go\<close> and \<open>forward_udp.go\<close>. The stack itself is a library; here it is what the code has set up
  on it. Adapters and stacks are numbered as they are created and the state holds which are still
  open, so that leaks can be stated. What the system's calls return is an argument.
\<close>

section \<open>Addresses\<close>

text \<open>\<open>netip.ParseAddr\<close> as far as the code looks: the octets of an IPv4 address. Any other result is refused.\<close>

definition parse_addr4 :: "string \<Rightarrow> ip option" where
  "parse_addr4 s =
     (case dropWhile (\<lambda>c. c \<noteq> CHR ''.'' \<and> c \<noteq> CHR '':'' \<and> c \<noteq> CHR ''%'') s of
        [] \<Rightarrow> None
      | c # _ \<Rightarrow> if c = CHR ''.'' then parse_ip4 s else None)"

definition tunInterfacePrefixFrom :: "string \<Rightarrow> (ip \<times> nat) option" where
  "tunInterfacePrefixFrom destIP =
     (case parse_addr4 destIP of
        None \<Rightarrow> None
      | Some b \<Rightarrow>
          (let iface = [b ! 0, b ! 1, b ! 2, 2]
           in if iface = b then None else Some (iface, 24)))"

definition prefix_String :: "ip \<times> nat \<Rightarrow> string" where
  "prefix_String = (\<lambda>(a, n). ip4_string a @ ''/'' @ dec_nat n)"

section \<open>State\<close>

definition TunMTU :: nat where "TunMTU = 1280"
definition healthCheckInterval :: nat where "healthCheckInterval = 30"
definition healthCheckRetryInterval :: nat where "healthCheckRetryInterval = 5"

text \<open>A stack: its number, the adapter registered on it, its address, whether it takes packets for every
  address and answers for every address, whether it has a default route, and the tunnel handlers.\<close>

record nstack =
  st_id :: nat
  st_nic :: "nat option"
  st_addr :: "ip option"
  st_routes :: bool
  st_promiscuous :: bool
  st_spoofing :: bool
  st_handlers :: bool

definition new_stack :: "nat \<Rightarrow> nstack" where
  "new_stack n = \<lparr> st_id = n, st_nic = None, st_addr = None, st_routes = False, st_promiscuous = False,
     st_spoofing = False, st_handlers = False \<rparr>"

record netstack =
  ns_name :: string
  ns_ip :: string
  ns_initDone :: bool
  ns_stack :: "nstack option"
  ns_device :: "nat option"
  ns_tunnel :: "conn option"
  ns_open_stacks :: "nat list"
  ns_open_devs :: "nat list"
  ns_next :: nat
  ns_cmds :: "string list list"
  ns_loops :: nat
  ns_failCount :: nat
  ns_exited :: bool

definition ns_init :: netstack where
  "ns_init = \<lparr> ns_name = ''Goodlink'', ns_ip = ''192.17.19.1'', ns_initDone = False, ns_stack = None,
     ns_device = None, ns_tunnel = None, ns_open_stacks = [], ns_open_devs = [], ns_next = 0, ns_cmds = [],
     ns_loops = 0, ns_failCount = 0, ns_exited = False \<rparr>"

text \<open>
  What the system does. \<open>Open\<close>: the adapter is opened, its MTU set and read back, the end point made,
  and whether the error names \<open>wintun.dll\<close>; the commands that are run; the stack's own calls.
\<close>

record ns_env =
  ne_open :: bool
  ne_setMTU :: bool
  ne_getMTU :: bool
  ne_fdbased :: bool
  ne_dll :: bool
  ne_run :: "string list \<Rightarrow> bool"
  ne_nic :: bool
  ne_addr :: bool
  ne_promisc :: bool
  ne_spoof :: bool

datatype ns_err = OpenDll | NeedAdminRestart | SetIPFailed | NicFailed | BadNicIP | BindFailed
  | PromiscFailed | SpoofFailed

section \<open>Operations\<close>

definition run_cmd :: "ns_env \<Rightarrow> string list \<Rightarrow> netstack \<Rightarrow> bool \<times> netstack" where
  "run_cmd env c s = (ne_run env c, s\<lparr> ns_cmds := ns_cmds s @ [c] \<rparr>)"

definition CleanupOldAdapter :: "ns_env \<Rightarrow> string \<Rightarrow> netstack \<Rightarrow> netstack" where
  "CleanupOldAdapter env name s = snd (run_cmd env [''ip'', ''link'', ''delete'', name] s)"

definition close_dev :: "nat \<Rightarrow> netstack \<Rightarrow> netstack" where
  "close_dev d s = s\<lparr> ns_open_devs := removeAll d (ns_open_devs s) \<rparr>"

definition close_stack :: "nat \<Rightarrow> netstack \<Rightarrow> netstack" where
  "close_stack n s = s\<lparr> ns_open_stacks := removeAll n (ns_open_stacks s) \<rparr>"

text \<open>\<open>Open\<close>: every failure after the adapter exists closes it again.\<close>

definition tun_Open :: "ns_env \<Rightarrow> netstack \<Rightarrow> nat option \<times> netstack" where
  "tun_Open env s =
     (if \<not> ne_open env then (None, s)
      else let fd = ns_next s;
               s1 = s\<lparr> ns_open_devs := fd # ns_open_devs s, ns_next := Suc fd \<rparr>
           in if \<not> ne_setMTU env then (None, close_dev fd s1)
              else if \<not> ne_getMTU env then (None, close_dev fd s1)
              else if \<not> ne_fdbased env then (None, close_dev fd s1)
              else (Some fd, s1))"

definition SetTunIP :: "ns_env \<Rightarrow> string \<Rightarrow> netstack \<Rightarrow> bool \<times> netstack" where
  "SetTunIP env ip s =
     (case tunInterfacePrefixFrom ip of
        None \<Rightarrow> (False, s)
      | Some p \<Rightarrow>
          (case run_cmd env [''ip'', ''addr'', ''add'', prefix_String p, ''dev'', ns_name s] s of
             (False, s1) \<Rightarrow> (False, s1)
           | (True, s1) \<Rightarrow>
               (case run_cmd env [''ip'', ''link'', ''set'', ns_name s, ''up'', ''mtu'', dec_nat TunMTU] s1 of
                  (False, s2) \<Rightarrow> (False, s2)
                | (True, s2) \<Rightarrow> run_cmd env [''ip'', ''route'', ''add'', ns_ip s, ''dev'', ns_name s] s2)))"

definition cleanupStackResources :: "netstack \<Rightarrow> netstack" where
  "cleanupStackResources s =
     (let s1 = (case ns_device s of None \<Rightarrow> s | Some d \<Rightarrow> (close_dev d s)\<lparr> ns_device := None \<rparr>)
      in case ns_stack s1 of None \<Rightarrow> s1 | Some st \<Rightarrow> (close_stack (st_id st) s1)\<lparr> ns_stack := None \<rparr>)"

definition on_stack :: "(nstack \<Rightarrow> nstack) \<Rightarrow> netstack \<Rightarrow> netstack" where
  "on_stack f s = s\<lparr> ns_stack := map_option f (ns_stack s) \<rparr>"

definition setNetStack :: "ns_env \<Rightarrow> netstack \<Rightarrow> ns_err option \<times> netstack" where
  "setNetStack env s =
     (let s1 = on_stack (\<lambda>st. st\<lparr> st_routes := True \<rparr>) s
      in if \<not> ne_promisc env then (Some PromiscFailed, s1)
         else let s2 = on_stack (\<lambda>st. st\<lparr> st_promiscuous := True \<rparr>) s1
              in if \<not> ne_spoof env then (Some SpoofFailed, s2)
                 else (None, on_stack (\<lambda>st. st\<lparr> st_spoofing := True \<rparr>) s2))"

definition nic_ip :: "string \<Rightarrow> ip option" where
  "nic_ip s = Option.bind (parse_ip s) to4"

text \<open>The part of \<open>initStack\<close> after the adapter has its address.\<close>

definition setup_nic :: "ns_env \<Rightarrow> nat \<Rightarrow> netstack \<Rightarrow> ns_err option \<times> netstack" where
  "setup_nic env dev s =
     (if \<not> ne_nic env then (Some NicFailed, cleanupStackResources s)
      else let s1 = on_stack (\<lambda>st. st\<lparr> st_nic := Some dev \<rparr>) s
           in case nic_ip (ns_ip s) of
                None \<Rightarrow> (Some BadNicIP, cleanupStackResources s1)
              | Some a \<Rightarrow>
                  if \<not> ne_addr env then (Some BindFailed, cleanupStackResources s1)
                  else (case setNetStack env (on_stack (\<lambda>st. st\<lparr> st_addr := Some a \<rparr>) s1) of
                          (Some e, s2) \<Rightarrow> (Some e, cleanupStackResources s2)
                        | (None, s2) \<Rightarrow> (None, on_stack (\<lambda>st. st\<lparr> st_handlers := True \<rparr>) s2)))"

definition initStack :: "ns_env \<Rightarrow> netstack \<Rightarrow> ns_err option \<times> netstack" where
  "initStack env s0 =
     (let s1 = CleanupOldAdapter env (ns_name s0) s0;
          n = ns_next s1;
          s2 = s1\<lparr> ns_stack := Some (new_stack n), ns_open_stacks := n # ns_open_stacks s1, ns_next := Suc n \<rparr>
      in case tun_Open env s2 of
           (None, s3) \<Rightarrow> (Some (if ne_dll env then OpenDll else NeedAdminRestart), s3)
         | (Some dev, s3) \<Rightarrow>
             (case SetTunIP env (ns_ip s3) (s3\<lparr> ns_device := Some dev \<rparr>) of
                (False, s4) \<Rightarrow> (Some SetIPFailed, cleanupStackResources s4)
              | (True, s4) \<Rightarrow> setup_nic env dev s4))"

definition Start :: "string \<Rightarrow> string \<Rightarrow> ns_env \<Rightarrow> netstack \<Rightarrow> ns_err option \<times> netstack" where
  "Start adapterName destIP env s =
     (let s1 = s\<lparr> ns_name := (if adapterName \<noteq> [] then adapterName else ns_name s),
                  ns_ip := (if destIP \<noteq> [] then destIP else ns_ip s) \<rparr>
      in if ns_initDone s1 then (None, s1)
         else case initStack env s1 of
           (Some e, s2) \<Rightarrow> (Some e, s2)
         | (None, s2) \<Rightarrow> (None, s2\<lparr> ns_initDone := True, ns_loops := Suc (ns_loops s2) \<rparr>))"

definition rebuildStack :: "ns_env \<Rightarrow> netstack \<Rightarrow> netstack" where
  "rebuildStack env s =
     (let s1 = (case ns_device s of None \<Rightarrow> s | Some d \<Rightarrow> (close_dev d s)\<lparr> ns_device := None \<rparr>);
          s2 = (case ns_stack s1 of None \<Rightarrow> s1 | Some st \<Rightarrow> (close_stack (st_id st) s1)\<lparr> ns_stack := None \<rparr>)
      in case initStack env s2 of
           (Some e, s3) \<Rightarrow> cleanupStackResources (s3\<lparr> ns_initDone := False \<rparr>)
         | (None, s3) \<Rightarrow> s3\<lparr> ns_initDone := True \<rparr>)"

text \<open>One turn of \<open>healthCheckLoop\<close>: \<open>nic\<close> is what the stack says of its adapter, if it knows it: whether it
  runs. The pause before the turn depends on the turns before.\<close>

definition health_interval :: "netstack \<Rightarrow> nat" where
  "health_interval s = (if ns_failCount s > 0 then healthCheckRetryInterval else healthCheckInterval)"

definition health_check :: "ns_env \<Rightarrow> bool option \<Rightarrow> netstack \<Rightarrow> netstack" where
  "health_check env nic s =
     (let (healthy, s1) =
            (case ns_stack s of
               None \<Rightarrow> (let r = rebuildStack env s in (ns_stack r \<noteq> None, r))
             | Some st \<Rightarrow>
                 if nic = None \<or> nic = Some False
                 then let r = rebuildStack env s in (ns_stack r \<noteq> None, r)
                 else (True, s))
      in if healthy then s1\<lparr> ns_failCount := 0 \<rparr> else s1\<lparr> ns_failCount := Suc (ns_failCount s1) \<rparr>)"

definition SetForWarder :: "conn option \<Rightarrow> netstack \<Rightarrow> netstack" where
  "SetForWarder c s = s\<lparr> ns_tunnel := c \<rparr>"

text \<open>\<open>RunLocal\<close> starts the stack once; when that fails the process ends. The health check runs from then on.\<close>

inductive ns_step :: "netstack \<Rightarrow> netstack \<Rightarrow> bool" where
  start: "\<not> ns_exited s \<Longrightarrow> ns_loops s = 0 \<Longrightarrow> Start name ip env s = (r, s') \<Longrightarrow>
    ns_step s (s'\<lparr> ns_exited := (r \<noteq> None) \<rparr>)"
| health: "\<not> ns_exited s \<Longrightarrow> 0 < ns_loops s \<Longrightarrow> ns_step s (health_check env nic s)"
| forwarder: "\<not> ns_exited s \<Longrightarrow> ns_step s (SetForWarder c s)"

inductive_cases ns_stepE: "ns_step s s'"

inductive ns_reach :: "netstack \<Rightarrow> bool" where
  init: "ns_reach ns_init"
| step: "ns_reach s \<Longrightarrow> ns_step s s' \<Longrightarrow> ns_reach s'"

section \<open>What is open\<close>

definition ip_ok :: "string \<Rightarrow> bool" where
  "ip_ok s \<longleftrightarrow> tunInterfacePrefixFrom s \<noteq> None \<and> nic_ip s \<noteq> None"

definition stack_complete :: "netstack \<Rightarrow> bool" where
  "stack_complete s \<longleftrightarrow> (case (ns_stack s, ns_device s) of
      (Some st, Some d) \<Rightarrow> st_nic st = Some d \<and> st_addr st = nic_ip (ns_ip s) \<and> nic_ip (ns_ip s) \<noteq> None \<and>
        st_routes st \<and> st_promiscuous st \<and> st_spoofing st \<and> st_handlers st
    | _ \<Rightarrow> False)"

definition held :: "netstack \<Rightarrow> bool" where
  "held s \<longleftrightarrow> ns_open_devs s = (case ns_device s of None \<Rightarrow> [] | Some d \<Rightarrow> [d]) \<and>
     ns_open_stacks s = (case ns_stack s of None \<Rightarrow> [] | Some st \<Rightarrow> [st_id st])"

definition released :: "netstack \<Rightarrow> bool" where
  "released s \<longleftrightarrow> held s \<and> ns_stack s = None \<and> ns_device s = None"

text \<open>None of this depends on the counters and flags.\<close>

lemma status_held [simp]:
  "held (s\<lparr> ns_initDone := x0 \<rparr>) = held s"
  "held (s\<lparr> ns_loops := x1 \<rparr>) = held s"
  "held (s\<lparr> ns_failCount := x2 \<rparr>) = held s"
  "held (s\<lparr> ns_exited := x3 \<rparr>) = held s"
  "held (s\<lparr> ns_tunnel := x4 \<rparr>) = held s"
  "held (s\<lparr> ns_cmds := x5 \<rparr>) = held s"
  by (simp_all add: held_def)

lemma status_released [simp]:
  "released (s\<lparr> ns_initDone := x0 \<rparr>) = released s"
  "released (s\<lparr> ns_loops := x1 \<rparr>) = released s"
  "released (s\<lparr> ns_failCount := x2 \<rparr>) = released s"
  "released (s\<lparr> ns_exited := x3 \<rparr>) = released s"
  "released (s\<lparr> ns_tunnel := x4 \<rparr>) = released s"
  "released (s\<lparr> ns_cmds := x5 \<rparr>) = released s"
  by (simp_all add: released_def)

lemma status_complete [simp]:
  "stack_complete (s\<lparr> ns_initDone := x0 \<rparr>) = stack_complete s"
  "stack_complete (s\<lparr> ns_loops := x1 \<rparr>) = stack_complete s"
  "stack_complete (s\<lparr> ns_failCount := x2 \<rparr>) = stack_complete s"
  "stack_complete (s\<lparr> ns_exited := x3 \<rparr>) = stack_complete s"
  "stack_complete (s\<lparr> ns_tunnel := x4 \<rparr>) = stack_complete s"
  "stack_complete (s\<lparr> ns_cmds := x5 \<rparr>) = stack_complete s"
  by (simp_all add: stack_complete_def split: option.splits)

text \<open>The fields \<open>initStack\<close> leaves alone.\<close>

definition same_session :: "netstack \<Rightarrow> netstack \<Rightarrow> bool" where
  "same_session s s' \<longleftrightarrow> ns_name s' = ns_name s \<and> ns_ip s' = ns_ip s \<and> ns_tunnel s' = ns_tunnel s \<and>
     ns_loops s' = ns_loops s \<and> ns_failCount s' = ns_failCount s \<and> ns_exited s' = ns_exited s"

lemmas ns_defs = run_cmd_def CleanupOldAdapter_def close_dev_def close_stack_def on_stack_def
  cleanupStackResources_def same_session_def

lemma cleanup_released: "held s \<Longrightarrow> released (cleanupStackResources s)"
  by (auto simp: released_def held_def ns_defs Let_def split: option.splits)

lemma cleanup_same: "same_session s (cleanupStackResources s)"
  by (simp add: ns_defs Let_def split: option.splits)

lemma cleanup_initDone [simp]: "ns_initDone (cleanupStackResources s) = ns_initDone s"
  by (simp add: ns_defs Let_def split: option.splits)

lemma same_trans: "same_session s s' \<Longrightarrow> same_session s' s'' \<Longrightarrow> same_session s s''"
  by (simp add: same_session_def)

lemma tun_Open_held:
  assumes "held s" "ns_device s = None" "tun_Open env s = (d, s')"
  shows "same_session s s' \<and> ns_stack s' = ns_stack s \<and> ns_initDone s' = ns_initDone s \<and>
    held (s'\<lparr> ns_device := d \<rparr>) \<and> ns_device s' = None \<and>
    (d \<noteq> None \<longleftrightarrow> ne_open env \<and> ne_setMTU env \<and> ne_getMTU env \<and> ne_fdbased env)"
  using assms by (auto simp: tun_Open_def held_def ns_defs Let_def split: if_splits)

lemma SetTunIP_cmds:
  assumes "SetTunIP env ip s = (ok, s')"
  shows "\<exists>cs. s' = s\<lparr> ns_cmds := cs \<rparr>" "ok \<Longrightarrow> tunInterfacePrefixFrom ip \<noteq> None"
    "tunInterfacePrefixFrom ip \<noteq> None \<Longrightarrow> (\<And>c. ne_run env c) \<Longrightarrow> ok"
proof -
  have u: "s = s\<lparr> ns_cmds := ns_cmds s \<rparr>" by simp
  show "\<exists>cs. s' = s\<lparr> ns_cmds := cs \<rparr>"
    using assms unfolding SetTunIP_def run_cmd_def
    by (simp split: option.splits bool.splits) (metis u)+
  show "ok \<Longrightarrow> tunInterfacePrefixFrom ip \<noteq> None"
    using assms unfolding SetTunIP_def run_cmd_def by (simp split: option.splits bool.splits)
  show "tunInterfacePrefixFrom ip \<noteq> None \<Longrightarrow> (\<And>c. ne_run env c) \<Longrightarrow> ok"
    using assms unfolding SetTunIP_def run_cmd_def by (simp split: option.splits bool.splits)
qed

lemma on_stack_held: "held s \<Longrightarrow> (\<And>st. st_id (f st) = st_id st) \<Longrightarrow> held (on_stack f s)"
  by (auto simp: held_def on_stack_def split: option.splits)

definition stack_frame :: "netstack \<Rightarrow> netstack \<Rightarrow> bool" where
  "stack_frame s t \<longleftrightarrow> held t \<and> same_session s t \<and> ns_initDone t = ns_initDone s"

lemma frame_on_stack:
  "stack_frame s t \<Longrightarrow> (\<And>st. st_id (f st) = st_id st) \<Longrightarrow> stack_frame s (on_stack f t)"
  using on_stack_held[of t f] by (simp add: stack_frame_def) (simp add: on_stack_def same_session_def)

lemma frame_cleanup:
  "stack_frame s t \<Longrightarrow> stack_frame s (cleanupStackResources t) \<and> released (cleanupStackResources t)"
  using same_trans[OF _ cleanup_same] cleanup_released[of t] by (auto simp: stack_frame_def released_def)

lemma setNetStack_frame:
  "stack_frame s t \<Longrightarrow> setNetStack env t = (r, t') \<Longrightarrow> stack_frame s t'"
  by (auto simp: setNetStack_def Let_def frame_on_stack split: if_splits)

lemma setup_nic_fails:
  assumes "stack_frame s t" "setup_nic env d t = (Some e, s')"
  shows "stack_frame s s' \<and> released s'"
proof -
  have s1: "stack_frame s (on_stack (\<lambda>st. st\<lparr> st_nic := x \<rparr>) t)" for x
    using assms(1) by (simp add: frame_on_stack)
  then have s2: "stack_frame s (on_stack (\<lambda>st. st\<lparr> st_addr := y \<rparr>) (on_stack (\<lambda>st. st\<lparr> st_nic := x \<rparr>) t))" for x y
    by (simp add: frame_on_stack)
  have "\<exists>t'. s' = cleanupStackResources t' \<and> stack_frame s t'"
    using assms s1 setNetStack_frame[OF s2]
    by (auto simp: setup_nic_def Let_def split: if_splits option.splits prod.splits)
  then show ?thesis using frame_cleanup by blast
qed

lemma setup_nic_works:
  assumes "stack_frame s t" "ns_stack t = Some st" "ns_device t = Some d" "setup_nic env d t = (None, s')"
  shows "stack_frame s s' \<and> stack_complete s' \<and> nic_ip (ns_ip s) \<noteq> None"
proof -
  obtain a where a: "nic_ip (ns_ip t) = Some a" "ne_promisc env" "ne_spoof env"
    "s' = on_stack (\<lambda>st. st\<lparr> st_handlers := True \<rparr>) (on_stack (\<lambda>st. st\<lparr> st_spoofing := True \<rparr>)
       (on_stack (\<lambda>st. st\<lparr> st_promiscuous := True \<rparr>) (on_stack (\<lambda>st. st\<lparr> st_routes := True \<rparr>)
         (on_stack (\<lambda>st. st\<lparr> st_addr := Some a \<rparr>) (on_stack (\<lambda>st. st\<lparr> st_nic := Some d \<rparr>) t)))))"
    using assms(4) by (auto simp: setup_nic_def setNetStack_def Let_def split: if_splits option.splits)
  have "stack_frame s s'" unfolding a(4) by (intro frame_on_stack assms(1)) simp_all
  moreover have "stack_complete s'"
    using a assms(2,3) by (simp add: stack_complete_def on_stack_def)
  moreover have "ns_ip s = ns_ip t" using assms(1) by (simp add: stack_frame_def same_session_def)
  ultimately show ?thesis using a(1) by simp
qed

lemma setup_nic_succeeds:
  "nic_ip (ns_ip t) \<noteq> None \<Longrightarrow> ne_nic env \<Longrightarrow> ne_addr env \<Longrightarrow> ne_promisc env \<Longrightarrow> ne_spoof env \<Longrightarrow>
     fst (setup_nic env d t) = None"
  by (auto simp: setup_nic_def setNetStack_def Let_def)

text \<open>All the calls \<open>initStack\<close> makes work.\<close>

definition env_ok :: "ns_env \<Rightarrow> bool" where
  "env_ok env \<longleftrightarrow> ne_open env \<and> ne_setMTU env \<and> ne_getMTU env \<and> ne_fdbased env \<and> (\<forall>c. ne_run env c) \<and>
     ne_nic env \<and> ne_addr env \<and> ne_promisc env \<and> ne_spoof env"

text \<open>Up to the adapter: the new stack and what \<open>Open\<close> gave.\<close>

lemma initStack_cases:
  assumes "released s" "initStack env s = (r, s')"
  obtains (no_dev) t n where "s' = t" "stack_frame s t" "ns_device t = None" "ns_stack t = Some (new_stack n)"
      "r = Some (if ne_dll env then OpenDll else NeedAdminRestart)" "\<not> env_ok env"
  | (no_ip) t where "stack_frame s t" "s' = cleanupStackResources t" "r = Some SetIPFailed"
      "\<not> (env_ok env \<and> tunInterfacePrefixFrom (ns_ip s) \<noteq> None)"
  | (dev) t d n where "stack_frame s t" "ns_device t = Some d" "ns_stack t = Some (new_stack n)"
      "setup_nic env d t = (r, s')" "tunInterfacePrefixFrom (ns_ip s) \<noteq> None"
proof -
  define n where "n = ns_next s"
  define s2 where "s2 = s\<lparr> ns_cmds := ns_cmds s @ [[''ip'', ''link'', ''delete'', ns_name s]],
     ns_stack := Some (new_stack n), ns_open_stacks := n # ns_open_stacks s, ns_next := Suc n \<rparr>"
  have s2: "stack_frame s s2" "ns_device s2 = None" "ns_stack s2 = Some (new_stack n)"
    using assms(1) by (auto simp: s2_def stack_frame_def same_session_def released_def held_def new_stack_def)
  obtain d s3 where o: "tun_Open env s2 = (d, s3)" by fastforce
  have h: "held s2" using s2(1) by (simp add: stack_frame_def)
  note O = tun_Open_held[OF h s2(2) o]
  have f3: "stack_frame s (s3\<lparr> ns_device := d \<rparr>)" "ns_stack s3 = Some (new_stack n)"
    using O s2 by (auto simp: stack_frame_def same_session_def)
  have i: "initStack env s = (case (d, s3) of
      (None, s3) \<Rightarrow> (Some (if ne_dll env then OpenDll else NeedAdminRestart), s3)
    | (Some dev, s3) \<Rightarrow> (case SetTunIP env (ns_ip s3) (s3\<lparr> ns_device := Some dev \<rparr>) of
        (False, s4) \<Rightarrow> (Some SetIPFailed, cleanupStackResources s4)
      | (True, s4) \<Rightarrow> setup_nic env dev s4))"
    unfolding o[symmetric] s2_def n_def
    by (simp add: initStack_def CleanupOldAdapter_def run_cmd_def Let_def)
  show thesis
  proof (cases d)
    case None
    have "s3\<lparr> ns_device := None \<rparr> = s3" using O by simp
    then have "stack_frame s s3" using f3(1) None by simp
    then show thesis using None i assms(2) f3(2) O by (intro no_dev[of s3 n]) (auto simp: env_ok_def)
  next
    case (Some dev)
    obtain ok s4 where t: "SetTunIP env (ns_ip s3) (s3\<lparr> ns_device := Some dev \<rparr>) = (ok, s4)" by fastforce
    have ip: "ns_ip s3 = ns_ip s" using f3(1) by (simp add: stack_frame_def same_session_def)
    obtain cs where s4: "s4 = s3\<lparr> ns_device := Some dev, ns_cmds := cs \<rparr>" using SetTunIP_cmds(1)[OF t] by auto
    have f4: "stack_frame s s4" "ns_stack s4 = Some (new_stack n)" "ns_device s4 = Some dev"
      using f3 by (simp_all add: Some s4 stack_frame_def same_session_def)
    show thesis
    proof (cases ok)
      case True
      then show thesis using dev[OF f4(1,3,2)] i assms(2) t SetTunIP_cmds(2)[OF t] by (simp add: Some ip)
    next
      case False
      then show thesis using no_ip[OF f4(1)] i assms(2) t SetTunIP_cmds(3)[OF t] by (auto simp: Some ip env_ok_def)
    qed
  qed
qed

lemma initStack_held:
  assumes "released s" "initStack env s = (r, s')"
  shows "stack_frame s s' \<and> (r = None \<longrightarrow> stack_complete s' \<and> ip_ok (ns_ip s)) \<and>
    (r \<noteq> None \<longrightarrow> ns_device s' = None) \<and> (env_ok env \<and> ip_ok (ns_ip s) \<longrightarrow> r = None)"
  using assms
proof (cases rule: initStack_cases)
  case (no_dev t n)
  then show ?thesis by simp
next
  case (no_ip t)
  then show ?thesis using frame_cleanup[of s t] by (auto simp: released_def ip_ok_def)
next
  case (dev t d n)
  have ip: "ns_ip t = ns_ip s" using dev(1) by (simp add: stack_frame_def same_session_def)
  show ?thesis
  proof (cases r)
    case None
    then show ?thesis using setup_nic_works[OF dev(1,3,2)] dev(4,5) by (simp add: ip_ok_def)
  next
    case (Some e)
    then show ?thesis
      using setup_nic_fails[OF dev(1)] dev(4) setup_nic_succeeds[of t env d] ip
      by (auto simp: released_def ip_ok_def env_ok_def)
  qed
qed

lemma rebuild_eq:
  "rebuildStack env s = (case initStack env (cleanupStackResources s) of
     (Some e, s3) \<Rightarrow> cleanupStackResources (s3\<lparr> ns_initDone := False \<rparr>)
   | (None, s3) \<Rightarrow> s3\<lparr> ns_initDone := True \<rparr>)"
  by (simp add: rebuildStack_def cleanupStackResources_def Let_def)

lemma rebuild_held:
  assumes "held s"
  shows "held (rebuildStack env s) \<and> same_session s (rebuildStack env s) \<and>
    (if ns_initDone (rebuildStack env s) then stack_complete (rebuildStack env s) else released (rebuildStack env s)) \<and>
    (env_ok env \<and> ip_ok (ns_ip s) \<longrightarrow> ns_initDone (rebuildStack env s))"
proof -
  let ?c = "cleanupStackResources s"
  obtain r s3 where i: "initStack env ?c = (r, s3)" by fastforce
  have sc: "same_session s ?c" by (rule cleanup_same)
  then have ip: "ns_ip ?c = ns_ip s" by (simp add: same_session_def)
  note I = initStack_held[OF cleanup_released[OF assms] i, unfolded ip]
  have ss: "same_session s s3" using I same_trans[OF sc] by (simp add: stack_frame_def)
  show ?thesis
  proof (cases r)
    case None
    then have "rebuildStack env s = s3\<lparr> ns_initDone := True \<rparr>" by (simp add: rebuild_eq i)
    then show ?thesis using I ss None
      by (simp add: stack_frame_def same_session_def)
  next
    case (Some e)
    let ?t = "s3\<lparr> ns_initDone := False \<rparr>"
    have t: "rebuildStack env s = cleanupStackResources ?t" by (simp add: rebuild_eq i Some)
    have "held ?t" "same_session s ?t" using I ss by (simp_all add: stack_frame_def same_session_def)
    then have "released (cleanupStackResources ?t)" "same_session s (cleanupStackResources ?t)"
      by (auto intro: cleanup_released same_trans[OF _ cleanup_same])
    then show ?thesis using I Some by (auto simp: t released_def)
  qed
qed

definition ns_ok :: "netstack \<Rightarrow> bool" where
  "ns_ok s \<longleftrightarrow> held s \<and> ns_loops s \<le> 1 \<and>
     (ns_loops s = 0 \<and> \<not> ns_exited s \<longrightarrow> released s \<and> \<not> ns_initDone s) \<and>
     (ns_loops s > 0 \<longrightarrow> ip_ok (ns_ip s) \<and> \<not> ns_exited s \<and>
        (if ns_initDone s then stack_complete s else released s))"

lemma Start_ok:
  assumes "ns_ok s" "\<not> ns_exited s" "ns_loops s = 0" "Start name ip env s = (r, s')"
  shows "ns_ok (s'\<lparr> ns_exited := (r \<noteq> None) \<rparr>)"
proof -
  define s1 where "s1 = s\<lparr> ns_name := (if name \<noteq> [] then name else ns_name s),
     ns_ip := (if ip \<noteq> [] then ip else ns_ip s) \<rparr>"
  have s1: "released s1" "\<not> ns_initDone s1" "ns_loops s1 = 0"
    using assms by (auto simp: s1_def ns_ok_def released_def held_def)
  obtain r2 s2 where i: "initStack env s1 = (r2, s2)" by fastforce
  have e: "r = r2" "s' = (if r2 = None then s2\<lparr> ns_initDone := True, ns_loops := Suc (ns_loops s2) \<rparr> else s2)"
    using assms(4) s1(2) i by (auto simp: Start_def s1_def[symmetric] split: option.splits)
  show ?thesis
    using initStack_held[OF s1(1) i] s1(3)
    by (cases r2) (auto simp: e ns_ok_def stack_frame_def same_session_def)
qed

lemma health_check_ok:
  assumes "ns_ok s" "0 < ns_loops s"
  shows "ns_ok (health_check env nic s)"
proof -
  have fails: "ns_ok (t\<lparr> ns_failCount := k \<rparr>) = ns_ok t" for t k
    by (simp add: ns_ok_def)
  have "ns_ok (rebuildStack env s)"
    using rebuild_held[of s env] assms by (auto simp: ns_ok_def same_session_def)
  then show ?thesis using assms(1)
    by (auto simp: health_check_def Let_def fails split: option.splits)
qed

lemma SetForWarder_ok: "ns_ok (SetForWarder c s) = ns_ok s"
  by (simp add: SetForWarder_def ns_ok_def)

lemma ns_reach_ok: "ns_reach s \<Longrightarrow> ns_ok s"
proof (induction rule: ns_reach.induct)
  case init
  then show ?case by (simp add: ns_ok_def ns_init_def released_def held_def)
next
  case (step s s')
  from step(2) show ?case
  proof (cases rule: ns_step.cases)
    case (start name ip env r s2)
    show ?thesis unfolding start(1) using Start_ok[OF step(3) start(2,3,4)] .
  qed (simp_all add: SetForWarder_ok health_check_ok step(3))
qed

text \<open>The tunnel is nobody's business here but \<open>SetForWarder\<close>'s.\<close>

lemma tunnel_simps [simp]:
  "ns_tunnel (on_stack f s) = ns_tunnel s" "ns_tunnel (close_dev d s) = ns_tunnel s"
  "ns_tunnel (close_stack n s) = ns_tunnel s" "ns_tunnel (cleanupStackResources s) = ns_tunnel s"
  "ns_tunnel (CleanupOldAdapter env name s) = ns_tunnel s"
  by (simp_all add: ns_defs Let_def split: option.splits)

lemma tun_Open_tunnel: "tun_Open env s = (d, s') \<Longrightarrow> ns_tunnel s' = ns_tunnel s"
  by (auto simp: tun_Open_def Let_def split: if_splits)

lemma setNetStack_tunnel: "setNetStack env s = (r, s') \<Longrightarrow> ns_tunnel s' = ns_tunnel s"
  by (auto simp: setNetStack_def Let_def split: if_splits)

lemma setup_nic_tunnel: "setup_nic env d s = (r, s') \<Longrightarrow> ns_tunnel s' = ns_tunnel s"
  by (auto simp: setup_nic_def Let_def dest!: setNetStack_tunnel split: if_splits option.splits prod.splits)

lemma SetTunIP_tunnel: "SetTunIP env ip s = (ok, s') \<Longrightarrow> ns_tunnel s' = ns_tunnel s"
  using SetTunIP_cmds(1)[of env ip s ok s'] by auto

lemma initStack_tunnel: "initStack env s = (r, s') \<Longrightarrow> ns_tunnel s' = ns_tunnel s"
  by (auto simp: initStack_def Let_def dest!: tun_Open_tunnel SetTunIP_tunnel setup_nic_tunnel
      split: option.splits prod.splits bool.splits)

lemma Start_tunnel: "ns_tunnel (snd (Start name ip env s)) = ns_tunnel s"
  by (auto simp: Start_def Let_def dest!: initStack_tunnel split: option.splits prod.splits)

lemma health_check_tunnel: "ns_tunnel (health_check env nic s) = ns_tunnel s"
proof -
  have "ns_tunnel (rebuildStack env s) = ns_tunnel s"
    by (auto simp: rebuild_eq dest!: initStack_tunnel split: option.splits prod.splits)
  then show ?thesis by (auto simp: health_check_def Let_def split: option.splits)
qed

lemma netstack_idle: "ns_reach s \<Longrightarrow> \<not> ns_exited s \<Longrightarrow> \<not> ns_initDone s \<Longrightarrow> ns_open_devs s = [] \<and> ns_open_stacks s = []"
  using ns_reach_ok[of s] by (cases "ns_loops s = 0") (auto simp: ns_ok_def released_def held_def)

section \<open>Properties\<close>

text \<open>C15 Whatever fails while the stack is set up, checked or rebuilt, nothing leaks: in every reachable state the
  only adapter and the only stack that are open are the current ones, and outside an end of the process
  either the stack is complete (its adapter registered, address, routes and handlers in place) or
  neither an adapter nor a stack is open.\<close>

theorem netstack_leaks_nothing:
  assumes "ns_reach s"
  shows "ns_open_devs s = (case ns_device s of None \<Rightarrow> [] | Some d \<Rightarrow> [d]) \<and>
    ns_open_stacks s = (case ns_stack s of None \<Rightarrow> [] | Some st \<Rightarrow> [st_id st]) \<and>
    (\<not> ns_exited s \<longrightarrow> (if ns_initDone s then stack_complete s else ns_open_devs s = [] \<and> ns_open_stacks s = []))"
proof -
  have ok: "ns_ok s" using assms by (rule ns_reach_ok)
  have h: "held s" using ok by (simp add: ns_ok_def)
  have e: "if ns_initDone s then stack_complete s else released s" if "\<not> ns_exited s"
    using ok that by (cases "ns_loops s = 0") (auto simp: ns_ok_def)
  have "ns_open_devs s = [] \<and> ns_open_stacks s = []" if "released s"
    using that by (simp add: released_def held_def)
  with e h show ?thesis by (auto simp: held_def)
qed

definition ns_wit_env :: ns_env where
  "ns_wit_env = \<lparr> ne_open = True, ne_setMTU = True, ne_getMTU = True, ne_fdbased = True, ne_dll = False,
     ne_run = (\<lambda>_. True), ne_nic = True, ne_addr = True, ne_promisc = True, ne_spoof = True \<rparr>"

definition wit_started :: netstack where
  "wit_started = snd (Start ''Goodlink-20'' ''192.17.20.1'' ns_wit_env ns_init)"

definition wit_broken :: netstack where
  "wit_broken = health_check (ns_wit_env\<lparr> ne_open := False \<rparr>) None wit_started"

lemma wit_ip: "ip_ok ''192.17.20.1''"
  by code_simp

lemma ns_wit_env_ok: "env_ok ns_wit_env"
  by (simp add: env_ok_def ns_wit_env_def)

lemma wit_started_ok: "fst (Start ''Goodlink-20'' ''192.17.20.1'' ns_wit_env ns_init) = None"
  "\<not> ns_exited wit_started" "0 < ns_loops wit_started" "ns_initDone wit_started"
proof -
  let ?s = "ns_init\<lparr> ns_name := ''Goodlink-20'', ns_ip := ''192.17.20.1'' \<rparr>"
  obtain r t where i: "initStack ns_wit_env ?s = (r, t)" by fastforce
  have rel: "released ?s" by (simp add: ns_init_def released_def held_def)
  have r: "r = None" "\<not> ns_exited t"
    using initStack_held[OF rel i] wit_ip ns_wit_env_ok by (simp_all add: stack_frame_def same_session_def ns_init_def)
  have e: "Start ''Goodlink-20'' ''192.17.20.1'' ns_wit_env ns_init =
      (None, t\<lparr> ns_initDone := True, ns_loops := Suc (ns_loops t) \<rparr>)"
    using i r(1) by (simp add: Start_def Let_def) (simp add: ns_init_def)
  show "fst (Start ''Goodlink-20'' ''192.17.20.1'' ns_wit_env ns_init) = None" unfolding e by simp
  show "\<not> ns_exited wit_started" "0 < ns_loops wit_started" "ns_initDone wit_started"
    unfolding wit_started_def e using r(2) by simp_all
qed

lemma wit_started_reach: "ns_reach wit_started"
proof -
  have s: "Start ''Goodlink-20'' ''192.17.20.1'' ns_wit_env ns_init = (None, wit_started)"
    using wit_started_ok(1) by (metis wit_started_def prod.collapse)
  have "ns_step ns_init (wit_started\<lparr> ns_exited := False \<rparr>)"
    using ns_step.start[OF _ _ s] by (simp add: ns_init_def)
  moreover have "wit_started\<lparr> ns_exited := False \<rparr> = wit_started" using wit_started_ok(2) by simp
  ultimately show ?thesis using ns_reach.step[OF ns_reach.init] by simp
qed

lemma wit_broken_reach: "ns_reach wit_broken"
  unfolding wit_broken_def
  using ns_reach.step[OF wit_started_reach ns_step.health[OF wit_started_ok(2,3)]] .

lemma wit_broken_state: "\<not> ns_exited wit_broken" "0 < ns_loops wit_broken" "\<not> ns_initDone wit_broken"
proof -
  let ?e = "ns_wit_env\<lparr> ne_open := False \<rparr>"
  have f: "fst (initStack ?e t) \<noteq> None" for t
    by (simp add: initStack_def tun_Open_def Let_def)
  have h: "held wit_started" using ns_reach_ok[OF wit_started_reach] by (simp add: ns_ok_def)
  have n: "\<not> ns_initDone (rebuildStack ?e wit_started)"
    using f[of "cleanupStackResources wit_started"] by (auto simp: rebuild_eq split: prod.splits option.splits)
  show "\<not> ns_exited wit_broken" "0 < ns_loops wit_broken" "\<not> ns_initDone wit_broken"
    using rebuild_held[OF h, of ?e] n wit_started_ok
    by (auto simp: wit_broken_def health_check_def Let_def same_session_def split: option.splits)
qed

theorem netstack_leaks_nothing_witness:
  "stack_complete wit_started \<and> ns_open_devs wit_broken = [] \<and> ns_open_stacks wit_broken = []"
  using netstack_leaks_nothing[OF wit_started_reach, THEN conjunct2, THEN conjunct2]
    netstack_leaks_nothing[OF wit_broken_reach, THEN conjunct2, THEN conjunct2]
    wit_started_ok wit_broken_state
  by simp

text \<open>C16 The stack heals itself under a running tunnel: whatever happened before, the first health check in which
  the system's calls work ends with a complete stack for the same adapter name and address, the
  tunnel untouched, and the slow interval; a check that could not rebuild it leaves nothing open and is
  repeated after five seconds instead of thirty.\<close>

theorem netstack_heals:
  assumes "ns_reach s" "0 < ns_loops s" "health_check env nic s = s'"
  shows "ns_tunnel s' = ns_tunnel s \<and> ns_name s' = ns_name s \<and> ns_ip s' = ns_ip s \<and> 0 < ns_loops s' \<and>
    (if stack_complete s' then health_interval s' = 30
     else health_interval s' = 5 \<and> ns_open_devs s' = [] \<and> ns_open_stacks s' = []) \<and>
    (env_ok env \<longrightarrow> stack_complete s')"
proof -
  have ok: "ns_ok s" using assms(1) by (rule ns_reach_ok)
  let ?r = "rebuildStack env s"
  let ?rebuild = "ns_stack s = None \<or> nic = None \<or> nic = Some False"
  have R: "same_session s ?r" "if ns_initDone ?r then stack_complete ?r else released ?r"
      "env_ok env \<longrightarrow> ns_initDone ?r"
    using rebuild_held[of s env] ok assms(2) by (auto simp: ns_ok_def)
  have c: "ns_stack t \<noteq> None" if "stack_complete t" for t
    using that by (auto simp: stack_complete_def split: option.splits)
  have n: "ns_stack t = None \<and> \<not> stack_complete t \<and> ns_open_devs t = [] \<and> ns_open_stacks t = []" if "released t" for t
    using that by (simp add: released_def held_def stack_complete_def)
  show ?thesis
  proof (cases ?rebuild)
    case True
    then have "s' = (if ns_stack ?r \<noteq> None then ?r\<lparr> ns_failCount := 0 \<rparr> else ?r\<lparr> ns_failCount := Suc (ns_failCount ?r) \<rparr>)"
      using assms(3) by (auto simp: health_check_def Let_def split: option.splits)
    then show ?thesis
      using R c[of ?r] n[of ?r] assms(2)
      by (cases "ns_initDone ?r")
         (auto simp: same_session_def health_interval_def healthCheckInterval_def healthCheckRetryInterval_def)
  next
    case False
    then have s': "s' = s\<lparr> ns_failCount := 0 \<rparr>"
      using assms(3) by (auto simp: health_check_def Let_def split: option.splits)
    have "stack_complete s" using ok assms(2) False n[of s] by (auto simp: ns_ok_def split: if_splits)
    then show ?thesis using assms(2) by (simp add: s' health_interval_def healthCheckInterval_def)
  qed
qed

theorem netstack_heals_witness:
  "stack_complete (health_check ns_wit_env None wit_broken) \<and> health_interval wit_broken = 5"
proof -
  have "ns_open_devs wit_broken = []"
    using netstack_idle[OF wit_broken_reach wit_broken_state(1,3)] by simp
  then have "\<not> stack_complete wit_broken"
    using ns_reach_ok[OF wit_broken_reach] by (auto simp: ns_ok_def held_def stack_complete_def split: option.splits)
  with ns_wit_env_ok show ?thesis
    using netstack_heals[OF wit_broken_reach wit_broken_state(2) refl, of ns_wit_env None]
      netstack_heals[OF wit_started_reach wit_started_ok(3), of "ns_wit_env\<lparr> ne_open := False \<rparr>" None wit_broken]
    by (simp add: wit_broken_def)
qed

end
