(* ===== verification/Netstack_Fwd.thy ===== *)
theory Netstack_Fwd
  imports Netstack_Setup
begin

text \<open>
  What happens to a connection the network adapter captures, \<open>netstack/forward_tcp.go\<close> and
  \<open>netstack/forward_udp.go\<close>: the handlers the stack calls for a new TCP or UDP flow and the goroutine
  each starts, as the trace of what they do to the request, the captured connection and the
  tunnel stream. Whether the calls into the stack and the tunnel work is an argument.
\<close>

section \<open>The handlers\<close>

definition LoopBackAddr :: bytes where "LoopBackAddr = [127, 0, 0, 1]"

datatype cap_ev =
    CompleteReq bool
  | OriginClose
  | CapWrite bytes
  | CapCancelRead
  | CapClose
  | CapRelay
  | CapRelayUDP

text \<open>An end point can be made; the stream opens within ten seconds; the head can be written.\<close>

record cap_env =
  ce_endpoint :: bool
  ce_open :: bool
  ce_write :: bool

definition ForwardTCPConn :: "cap_env \<Rightarrow> u16 \<Rightarrow> cap_ev list" where
  "ForwardTCPConn env localPort =
     (if \<not> ce_open env then [OriginClose]
      else let ioBuf = head_bytes 0x00 LoopBackAddr localPort
           in if \<not> ce_write env then [CapWrite ioBuf, OriginClose, CapCancelRead, CapClose]
              else [CapWrite ioBuf, CapRelay])"

definition NewTcpForwarder :: "conn option \<Rightarrow> cap_env \<Rightarrow> u16 \<Rightarrow> cap_ev list" where
  "NewTcpForwarder currentTunnel env localPort =
     (if currentTunnel = None then [CompleteReq True]
      else if \<not> ce_endpoint env then [CompleteReq True]
      else CompleteReq False # ForwardTCPConn env localPort)"

definition ForwardUdpConn :: "cap_env \<Rightarrow> u16 \<Rightarrow> cap_ev list" where
  "ForwardUdpConn env localPort =
     (if \<not> ce_open env then [OriginClose]
      else let ioBuf = head_bytes 0x01 LoopBackAddr localPort
           in if \<not> ce_write env then [CapWrite ioBuf, OriginClose, CapCancelRead, CapClose]
              else [CapWrite ioBuf, CapRelayUDP])"

text \<open>The UDP handler answers whether it took the packet.\<close>

definition NewUdpForwarder :: "conn option \<Rightarrow> cap_env \<Rightarrow> u16 \<Rightarrow> bool \<times> cap_ev list" where
  "NewUdpForwarder currentTunnel env localPort =
     (if currentTunnel = None then (False, [])
      else if \<not> ce_endpoint env then (False, [])
      else (True, ForwardUdpConn env localPort))"

lemmas cap_defs = NewTcpForwarder_def NewUdpForwarder_def ForwardTCPConn_def ForwardUdpConn_def Let_def

lemma length_LoopBackAddr: "length LoopBackAddr = 4"
  by (simp add: LoopBackAddr_def)

text \<open>Either the request is refused, or its connection is closed, or it is relayed, and a stream that was
  opened and not relayed is closed.\<close>

lemma captured_settled:
  "NewTcpForwarder t env p = [CompleteReq True] \<or> OriginClose \<in> set (NewTcpForwarder t env p) \<or>
     last (NewTcpForwarder t env p) = CapRelay"
  "\<not> fst (NewUdpForwarder t env p) \<or> OriginClose \<in> set (snd (NewUdpForwarder t env p)) \<or>
     last (snd (NewUdpForwarder t env p)) = CapRelayUDP"
  by (auto simp: cap_defs)

section \<open>Properties\<close>

text \<open>C19 A captured connection reaches the same port of the remote machine itself: the head written for a TCP or
  UDP flow makes the remote end dial 127.0.0.1 at the flow's port (13389 becoming 3389; port 1080 of
  a remote that allows it is the built-in proxy), with everything behind the head left for the
  relay; without a tunnel the flow is refused, and no flow is left neither refused, closed nor relayed.\<close>

theorem captured_reaches_loopback:
  assumes "content r = h @ rest" "process_stream en r remoteAddr allowProxy = (evs, r')"
  shows "(CapWrite h \<in> set (NewTcpForwarder t env port) \<longrightarrow> content r' = rest \<and>
      (if port = PROXY_PORT \<and> allowProxy then ServeProxy remoteAddr \<in> set evs
       else DialTCP (join_host_port (ip_string [127, 0, 0, 1])
              (go_itoa (int (unat (if port = 13389 then 3389 else port))))) \<in> set evs)) \<and>
    (CapWrite h \<in> set (snd (NewUdpForwarder t env port)) \<longrightarrow> content r' = rest \<and>
       DialUDP [127, 0, 0, 1] (int (unat port)) \<in> set evs) \<and>
    NewTcpForwarder None env port = [CompleteReq True] \<and> NewUdpForwarder None env port = (False, []) \<and>
    (NewTcpForwarder t env port = [CompleteReq True] \<or> OriginClose \<in> set (NewTcpForwarder t env port) \<or>
       last (NewTcpForwarder t env port) = CapRelay) \<and>
    (fst (NewUdpForwarder t env port) \<longrightarrow> OriginClose \<in> set (snd (NewUdpForwarder t env port)) \<or>
       last (snd (NewUdpForwarder t env port)) = CapRelayUDP)"
proof -
  have tcp: "h = head_bytes 0 LoopBackAddr port" if "CapWrite h \<in> set (NewTcpForwarder t env port)"
    using that by (auto simp: cap_defs split: if_splits)
  have udp: "h = head_bytes 1 LoopBackAddr port" if "CapWrite h \<in> set (snd (NewUdpForwarder t env port))"
    using that by (auto simp: cap_defs split: if_splits)
  have n: "NewTcpForwarder None env port = [CompleteReq True]" "NewUdpForwarder None env port = (False, [])"
    by (simp_all add: cap_defs)
  have T: "content r' = rest \<and>
      (if port = PROXY_PORT \<and> allowProxy then ServeProxy remoteAddr \<in> set evs
       else DialTCP (join_host_port (ip_string LoopBackAddr)
              (go_itoa (int (unat (if port = 13389 then 3389 else port))))) \<in> set evs)"
    if "h = head_bytes 0 LoopBackAddr port"
    using head_routes_stream[OF length_LoopBackAddr assms(1)[unfolded that] assms(2)] by auto
  have U: "content r' = rest \<and> DialUDP LoopBackAddr (int (unat port)) \<in> set evs" if "h = head_bytes 1 LoopBackAddr port"
    using head_routes_stream[OF length_LoopBackAddr assms(1)[unfolded that] assms(2)] by auto
  show ?thesis
    using tcp udp T U n captured_settled[of t env port] by (simp only: LoopBackAddr_def) blast
qed

theorem captured_witness:
  "\<exists>h evs r'. CapWrite h \<in> set (NewTcpForwarder (Some 1) \<lparr> ce_endpoint = True, ce_open = True, ce_write = True \<rparr> 443) \<and>
     process_stream \<lparr> re_dialTCP = (\<lambda>_. True), re_dialUDP = (\<lambda>_ _. True) \<rparr> ([h @ [7]], EOF) ''x'' False = (evs, r') \<and>
     DialTCP (join_host_port (ip_string [127, 0, 0, 1]) (go_itoa 443)) \<in> set evs"
proof -
  let ?env = "\<lparr> ce_endpoint = True, ce_open = True, ce_write = True \<rparr>"
  let ?en = "\<lparr> re_dialTCP = (\<lambda>_. True), re_dialUDP = (\<lambda>_ _. True) \<rparr>"
  let ?h = "head_bytes 0 LoopBackAddr 443"
  have w: "CapWrite ?h \<in> set (NewTcpForwarder (Some 1) ?env 443)" by (simp add: cap_defs)
  obtain evs r' where p: "process_stream ?en ([?h @ [7]], EOF) ''x'' False = (evs, r')" by (rule prod.exhaust)
  have "content ([?h @ [7]], EOF) = ?h @ [7]" by (simp add: content_def)
  from captured_reaches_loopback[OF this p, of "Some 1" ?env 443] w p show ?thesis
    by (intro exI[of _ ?h] exI[of _ evs] exI[of _ r']) simp
qed

end
