(* ===== verification/Session_Local.thy ===== *)
theory Session_Local
  imports Session_Proto Forward_Mgr Netstack_Setup
begin

text \<open>
  The local worker around its sessions, \<open>pro/local.go\<close>: setting up the forwarding listeners or the network
  adapter, asking for a tunnel again and again, putting each tunnel to use and taking it away when it
  ends, the built-in proxy as the remote end allows it, and the watcher that follows the stored
  configuration meanwhile. One turn of \<open>RunLocal\<close> is a function up to the moment it waits for the tunnel's
  end, and what follows is another; the watcher, the health check of the adapter, the listeners
  and \<open>StopLocal\<close> come in between. The handshake (\<open>Session_Proto\<close>) is present by its result.
\<close>

section \<open>State\<close>

text \<open>\<open>ForwardFingerprint\<close> is the mode and the JSON text of the rules, which determines them.\<close>

type_synonym fingerprint = "string \<times> ui_rule list"

definition ForwardFingerprint :: "ui_service \<Rightarrow> fingerprint" where
  "ForwardFingerprint s = (uv_LocalMode s, uv_ForwardRules s)"

definition maxConnectAttempts :: nat where "maxConnectAttempts = 15"
definition StatusNeedAdmin :: nat where "StatusNeedAdmin = 7"
definition StatusConnectFailed :: nat where "StatusConnectFailed = 8"

datatype report = ReportStatus nat | ReportProxyAddr string | ReportProxyDenied

datatype setup_err = NoService | BadRules rule_err | ListenFails

datatype run_end = EndSetup setup_err | EndNoAddr | EndAdapter ns_err | EndSession | EndAttempts | EndStopped

text \<open>At the top of the loop; waiting for the end of a tunnel, with the remote end's permission for the
  proxy; returned.\<close>

datatype run_phase = RTop | RServing conn bool | RDone run_end

text \<open>The manager is an object the loop and the watcher share; \<open>lr_hasMgr\<close> says whether \<open>m_forward_mgr\<close> still
  points to it. The watcher keeps the fingerprint it applied last and the one it last complained about.\<close>

record local_run =
  lr_svc :: ui_service
  lr_state :: nat
  lr_useForward :: bool
  lr_mgr :: "fwd_mgr option"
  lr_hasMgr :: bool
  lr_watch :: "(fingerprint \<times> fingerprint option) option"
  lr_ns :: netstack
  lr_nsStarted :: bool
  lr_count :: nat
  lr_socket :: bool
  lr_open :: nat
  lr_reports :: "report list"
  lr_phase :: run_phase

definition lr_report :: "report \<Rightarrow> local_run \<Rightarrow> local_run" where
  "lr_report r lr = lr\<lparr> lr_reports := lr_reports lr @ [r] \<rparr>"

definition on_mgr :: "(fwd_mgr \<Rightarrow> fwd_mgr) \<Rightarrow> local_run \<Rightarrow> local_run" where
  "on_mgr f lr = (if lr_hasMgr lr then lr\<lparr> lr_mgr := map_option f (lr_mgr lr) \<rparr> else lr)"

section \<open>Operations\<close>

text \<open>\<open>listen\<close>: which listeners can be opened; \<open>enum\<close>: the order in which the map of the rules is visited.\<close>

definition setupForwardMode ::
  "bool \<Rightarrow> ui_service option \<Rightarrow> (forward_rule \<Rightarrow> bool) \<Rightarrow>
     (forward_rule list \<Rightarrow> (string \<times> forward_rule) list) \<Rightarrow> local_run \<Rightarrow>
     (setup_err + bool) \<times> local_run" where
  "setupForwardMode fromUI stored listen enum lr =
     (if \<not> fromUI then (Inr False, lr)
      else case stored of
        None \<Rightarrow> (Inl NoService, lr)
      | Some svc \<Rightarrow>
          if uv_LocalMode svc \<noteq> LocalModeForward then (Inr False, lr)
          else (case RulesFromUI (uv_ForwardRules svc) of
                  Inl e \<Rightarrow> (Inl (BadRules e), lr)
                | Inr rules \<Rightarrow>
                    (case Apply listen (enum rules) NewForwardManager of
                       (ok, _, m) \<Rightarrow>
                         if \<not> ok then (Inl ListenFails, lr\<lparr> lr_mgr := Some (snd (mgr_Close m)), lr_hasMgr := False \<rparr>)
                         else (Inr True, lr\<lparr> lr_mgr := Some m, lr_hasMgr := True,
                                             lr_watch := Some (ForwardFingerprint svc, None) \<rparr>))))"

definition applyLocalProxy :: "bool \<Rightarrow> bool \<Rightarrow> bool \<Rightarrow> int option \<Rightarrow> local_run \<Rightarrow> local_run" where
  "applyLocalProxy useForward allow preferred random lr =
     (if \<not> allow then lr_report ReportProxyDenied (on_mgr (\<lambda>m. snd (StopBuiltinProxy m)) lr)
      else if useForward then
        (case (if lr_hasMgr lr then lr_mgr lr else None) of
           None \<Rightarrow> lr_report ReportProxyDenied lr
         | Some m \<Rightarrow>
             (case StartBuiltinProxy preferred random m of
                (None, m') \<Rightarrow> lr_report ReportProxyDenied (lr\<lparr> lr_mgr := Some m' \<rparr>)
              | (Some (addr, fallback), m') \<Rightarrow> lr_report (ReportProxyAddr addr) (lr\<lparr> lr_mgr := Some m' \<rparr>)))
      else lr_report (ReportProxyAddr (join_host_port (uv_TunIP (lr_svc lr)) (go_itoa (int (unat PROXY_PORT))))) lr)"

definition fresh_run :: "ui_service \<Rightarrow> local_run" where
  "fresh_run svc = \<lparr> lr_svc = svc, lr_state = 1, lr_useForward = False, lr_mgr = None, lr_hasMgr = False,
     lr_watch = None, lr_ns = ns_init, lr_nsStarted = False, lr_count = 0, lr_socket = False, lr_open = 0,
     lr_reports = [], lr_phase = RTop \<rparr>"

text \<open>\<open>RunLocal\<close> up to its loop.\<close>

definition RunLocal_start ::
  "ui_service \<Rightarrow> bool \<Rightarrow> ui_service option \<Rightarrow> (forward_rule \<Rightarrow> bool) \<Rightarrow>
     (forward_rule list \<Rightarrow> (string \<times> forward_rule) list) \<Rightarrow> local_run" where
  "RunLocal_start svc fromUI stored listen enum =
     (case setupForwardMode fromUI stored listen enum (fresh_run svc) of
        (Inl e, lr) \<Rightarrow> lr\<lparr> lr_phase := RDone (EndSetup e) \<rparr>
      | (Inr u, lr) \<Rightarrow> lr\<lparr> lr_useForward := u \<rparr>)"

text \<open>What a turn meets: how obtaining the address goes, what starting the adapter meets, how
  \<open>GetLocalQuicConn\<close> ends, and the ports for the built-in proxy.\<close>

datatype quic_result = QErr | QNone | QConn conn bool

record run_env =
  re_local4 :: string
  re_local6 :: string
  re_probes :: "udp_attempt list"
  re_adapter :: ns_env
  re_quic :: quic_result
  re_preferred :: bool
  re_random :: "int option"

text \<open>The new tunnel is given to whatever captures traffic.\<close>

definition use_tunnel :: "conn option \<Rightarrow> local_run \<Rightarrow> local_run" where
  "use_tunnel c lr =
     (if lr_useForward lr \<and> lr_hasMgr lr then on_mgr (SetQuic c) lr
      else if \<not> lr_useForward lr then lr\<lparr> lr_ns := SetForWarder c (lr_ns lr) \<rparr>
      else lr)"

text \<open>The adapter, started once and only without forwarding listeners.\<close>

definition start_adapter :: "ns_env \<Rightarrow> local_run \<Rightarrow> ns_err option \<times> local_run" where
  "start_adapter env lr =
     (if \<not> lr_useForward lr \<and> \<not> lr_nsStarted lr then
        (case Start (AdapterName (lr_svc lr)) (uv_TunIP (lr_svc lr)) env (lr_ns lr) of
           (Some e, ns) \<Rightarrow>
             (let lr1 = lr\<lparr> lr_ns := ns \<rparr>
              in (Some e, if e = NeedAdminRestart then lr_report (ReportStatus StatusNeedAdmin) lr1 else lr1))
         | (None, ns) \<Rightarrow> (None, lr\<lparr> lr_ns := ns, lr_nsStarted := True \<rparr>))
      else (None, lr))"

text \<open>The part of a turn after the adapter.\<close>

definition attempt :: "run_env \<Rightarrow> local_run \<Rightarrow> local_run" where
  "attempt env lr0 =
     (let lr = lr0\<lparr> lr_count := Suc (lr_count lr0) \<rparr>
      in case re_quic env of
           QErr \<Rightarrow> lr\<lparr> lr_phase := RDone EndSession \<rparr>
         | QNone \<Rightarrow>
             if lr_count lr \<ge> maxConnectAttempts
             then (lr_report (ReportStatus StatusConnectFailed) lr)\<lparr> lr_phase := RDone EndAttempts \<rparr>
             else lr
         | QConn c allow \<Rightarrow>
             (applyLocalProxy (lr_useForward lr) allow (re_preferred env) (re_random env) (use_tunnel (Some c) lr))
               \<lparr> lr_state := 2, lr_phase := RServing c allow \<rparr>)"

definition local_turn :: "run_env \<Rightarrow> local_run \<Rightarrow> local_run" where
  "local_turn env lr =
     (if lr_state lr \<noteq> 1 then lr\<lparr> lr_phase := RDone EndStopped \<rparr>
      else let lr1 = (if lr_socket lr then lr\<lparr> lr_socket := False, lr_open := lr_open lr - 1 \<rparr> else lr)
           in case GetUDPAddr (re_local4 env) (re_local6 env) (re_probes env) of
                (None, n) \<Rightarrow> lr1\<lparr> lr_open := lr_open lr1 + n, lr_phase := RDone EndNoAddr \<rparr>
              | (Some addr, n) \<Rightarrow>
                  (case start_adapter (re_adapter env) (lr1\<lparr> lr_open := lr_open lr1 + n, lr_socket := True \<rparr>) of
                     (Some e, lr2) \<Rightarrow> lr2\<lparr> lr_phase := RDone (EndAdapter e) \<rparr>
                   | (None, lr2) \<Rightarrow> attempt env lr2))"

text \<open>After \<open>ProcessHealth\<close> returned.\<close>

definition after_health :: "local_run \<Rightarrow> local_run" where
  "after_health lr =
     (let lr1 = (if lr_state lr \<noteq> 0 then lr_report (ReportStatus StatusConnecting) (lr\<lparr> lr_state := 1 \<rparr>) else lr)
      in (use_tunnel None lr1)\<lparr> lr_count := 0, lr_phase := RTop \<rparr>)"

definition StopLocal :: "local_run \<Rightarrow> local_run" where
  "StopLocal lr =
     (let lr1 = lr\<lparr> lr_state := 0 \<rparr>
      in (on_mgr (\<lambda>m. snd (mgr_Close m)) lr1)\<lparr> lr_hasMgr := False \<rparr>)"

text \<open>One tick of \<open>watchUIForwardConfig\<close>. \<open>stored\<close> is what \<open>GetService\<close> finds, \<open>valid\<close> whether the
  configuration can be read and passes its validation.\<close>

definition watch_tick ::
  "ui_service option \<Rightarrow> bool \<Rightarrow> (forward_rule \<Rightarrow> bool) \<Rightarrow>
     (forward_rule list \<Rightarrow> (string \<times> forward_rule) list) \<Rightarrow> local_run \<Rightarrow> local_run" where
  "watch_tick stored valid listen enum lr =
     (case (lr_watch lr, lr_mgr lr) of
        (Some (applied, lastFail), Some m) \<Rightarrow>
          if lr_state lr = 0 then lr\<lparr> lr_watch := None \<rparr>
          else (case stored of
             None \<Rightarrow> lr
           | Some svc \<Rightarrow>
               (let fp = ForwardFingerprint svc
                in if \<not> valid then lr\<lparr> lr_watch := Some (applied, Some fp) \<rparr>
                   else if fp = applied then lr
                   else if uv_LocalMode svc \<noteq> LocalModeForward then lr\<lparr> lr_watch := Some (fp, None) \<rparr>
                   else case RulesFromUI (uv_ForwardRules svc) of
                     Inl e \<Rightarrow> lr\<lparr> lr_watch := Some (applied, Some fp) \<rparr>
                   | Inr rules \<Rightarrow>
                       (case Apply listen (enum rules) m of
                          (ok, _, m') \<Rightarrow>
                            lr\<lparr> lr_mgr := Some m',
                                lr_watch := Some (if ok then (fp, None) else (applied, Some fp)) \<rparr>)))
      | _ \<Rightarrow> lr)"

section \<open>All interleavings\<close>

definition enumeration :: "(forward_rule list \<Rightarrow> (string \<times> forward_rule) list) \<Rightarrow> bool" where
  "enumeration enum \<longleftrightarrow> (\<forall>rules. enumerates (enum rules) rules)"

inductive rl_step :: "local_run \<Rightarrow> local_run \<Rightarrow> bool" where
  turn: "lr_phase lr = RTop \<Longrightarrow> rl_step lr (local_turn env lr)"
| health: "lr_phase lr = RServing c allow \<Longrightarrow> rl_step lr (after_health lr)"
| stop: "rl_step lr (StopLocal lr)"
| watch: "enumeration enum \<Longrightarrow> rl_step lr (watch_tick stored valid listen enum lr)"
| adapter: "0 < ns_loops (lr_ns lr) \<Longrightarrow> rl_step lr (lr\<lparr> lr_ns := health_check env nic (lr_ns lr) \<rparr>)"
| listener: "lr_mgr lr = Some m \<Longrightarrow> fm_entries m = xs @ e # ys \<Longrightarrow> run_quic r' = run_quic (fe_runner e) \<Longrightarrow>
    run_target r' = run_target (fe_runner e) \<Longrightarrow> run_wf r' \<Longrightarrow>
    rl_step lr (lr\<lparr> lr_mgr := Some (m\<lparr> fm_entries := xs @ e\<lparr> fe_runner := r' \<rparr> # ys \<rparr>) \<rparr>)"

inductive rl_reach :: "local_run \<Rightarrow> bool" where
  start: "enumeration enum \<Longrightarrow> rl_reach (RunLocal_start svc fromUI stored listen enum)"
| step: "rl_reach lr \<Longrightarrow> rl_step lr lr' \<Longrightarrow> rl_reach lr'"

section \<open>The invariant\<close>

text \<open>The tunnel the listeners, and the adapter, ought to have.\<close>

definition mgr_tunnel :: "local_run \<Rightarrow> conn option" where
  "mgr_tunnel lr = (case lr_phase lr of RServing c _ \<Rightarrow> if lr_hasMgr lr then Some c else None | _ \<Rightarrow> None)"

definition adapter_tunnel :: "local_run \<Rightarrow> conn option" where
  "adapter_tunnel lr = (case lr_phase lr of RServing c _ \<Rightarrow> if lr_useForward lr then None else Some c | _ \<Rightarrow> None)"

definition shared_ok :: "local_run \<Rightarrow> bool" where
  "shared_ok lr \<longleftrightarrow>
     (\<forall>m. lr_mgr lr = Some m \<longrightarrow> mgr_reachable m \<and> fm_quic m = mgr_tunnel lr \<and> (fm_closed m \<longleftrightarrow> \<not> lr_hasMgr lr) \<and>
        (\<forall>c. lr_phase lr = RServing c False \<longrightarrow> fm_builtin m = None)) \<and>
     (lr_hasMgr lr \<longrightarrow> lr_mgr lr \<noteq> None) \<and> ns_tunnel (lr_ns lr) = adapter_tunnel lr"

definition loop_ok :: "local_run \<Rightarrow> bool" where
  "loop_ok lr \<longleftrightarrow> (lr_hasMgr lr \<longrightarrow> lr_useForward lr) \<and> lr_open lr = (if lr_socket lr then 1 else 0) \<and>
     (case lr_phase lr of
        RTop \<Rightarrow> lr_state lr \<in> {0, 1} \<and> lr_count lr < maxConnectAttempts \<and>
                 (lr_state lr = 1 \<longrightarrow> lr_hasMgr lr = lr_useForward lr)
      | RServing c a \<Rightarrow> lr_state lr \<in> {0, 2} \<and> (lr_state lr = 2 \<longrightarrow> lr_hasMgr lr = lr_useForward lr)
      | RDone e \<Rightarrow> lr_count lr \<le> maxConnectAttempts)"

lemma mgr_op_frames:
  "Apply listen ws m = (ok, cl, m') \<Longrightarrow> fm_quic m' = fm_quic m \<and> fm_builtin m' = fm_builtin m \<and> fm_closed m' = fm_closed m"
  "StartBuiltinProxy p r m = (res, m') \<Longrightarrow> fm_quic m' = fm_quic m \<and> fm_closed m' = fm_closed m"
  "fm_quic (snd (StopBuiltinProxy m)) = fm_quic m" "fm_closed (snd (StopBuiltinProxy m)) = fm_closed m"
  "fm_builtin (snd (StopBuiltinProxy m)) = None"
  "\<not> fm_closed m \<Longrightarrow> fm_quic (SetQuic q m) = q" "fm_closed (SetQuic q m) = fm_closed m"
  "fm_closed (snd (mgr_Close m))" "fm_quic (snd (mgr_Close m)) = None" "fm_builtin (snd (mgr_Close m)) = None"
  by (auto simp: Apply_def StartBuiltinProxy_def StopBuiltinProxy_def SetQuic_def mgr_Close_def Let_def
      split: prod.splits option.splits if_splits)

lemma mgr_op_reachable:
  assumes "mgr_reachable m"
  shows "enumeration enum \<Longrightarrow> Apply listen (enum rules) m = (ok, cl, m') \<Longrightarrow> mgr_reachable m'"
    "StartBuiltinProxy p r m = (res, m') \<Longrightarrow> mgr_reachable m'"
    "mgr_reachable (snd (StopBuiltinProxy m))" "mgr_reachable (SetQuic q m)" "mgr_reachable (snd (mgr_Close m))"
  using assms
  by (auto simp: enumeration_def intro: mgr_reachable.step mgr_step.do_apply mgr_step.start_builtin
      mgr_step.stop_builtin mgr_step.set_quic mgr_step.close)

lemma new_manager: "fm_quic NewForwardManager = None" "\<not> fm_closed NewForwardManager" "fm_builtin NewForwardManager = None"
  by (simp_all add: NewForwardManager_def)

lemma setup_ok:
  assumes "enumeration enum" "setupForwardMode fromUI stored listen enum (fresh_run svc) = (r, lr)"
  shows "shared_ok lr \<and> lr_phase lr = RTop \<and> lr_open lr = 0 \<and> \<not> lr_socket lr \<and> lr_count lr = 0 \<and> lr_state lr = 1 \<and>
    (\<forall>u. r = Inr u \<longrightarrow> lr_hasMgr lr = u) \<and> (\<forall>e. r = Inl e \<longrightarrow> \<not> lr_hasMgr lr) \<and> \<not> lr_useForward lr"
proof -
  have a: "mgr_reachable m \<and> fm_quic m = None \<and> \<not> fm_closed m" if "Apply listen (enum rules) NewForwardManager = (ok, cl, m)"
    for rules ok cl m
    using mgr_op_reachable(1)[OF mgr_reachable.new assms(1) that] mgr_op_frames(1)[OF that] new_manager by simp
  have n: "ns_tunnel ns_init = None" by (simp add: ns_init_def)
  show ?thesis
    using assms(2) n
    by (auto simp: setupForwardMode_def shared_ok_def fresh_run_def mgr_tunnel_def adapter_tunnel_def mgr_op_frames
        intro!: mgr_op_reachable(5) dest!: a split: if_splits option.splits sum.splits prod.splits)
qed

lemma start_ok_run: "enumeration enum \<Longrightarrow> shared_ok (RunLocal_start svc fromUI stored listen enum) \<and>
    loop_ok (RunLocal_start svc fromUI stored listen enum)"
proof -
  assume e: "enumeration enum"
  obtain r lr where s: "setupForwardMode fromUI stored listen enum (fresh_run svc) = (r, lr)" by fastforce
  show ?thesis
    using setup_ok[OF e s] s
    by (cases r) (auto simp: RunLocal_start_def shared_ok_def loop_ok_def mgr_tunnel_def adapter_tunnel_def
        maxConnectAttempts_def)
qed

text \<open>What each part of a turn does to the fields the invariant looks at.\<close>

definition loop_fields :: "local_run \<Rightarrow> ui_service \<times> nat \<times> bool \<times> bool \<times> nat \<times> bool \<times> nat \<times> run_phase" where
  "loop_fields lr = (lr_svc lr, lr_state lr, lr_useForward lr, lr_hasMgr lr, lr_count lr, lr_socket lr, lr_open lr, lr_phase lr)"

lemma loop_fields_eq:
  assumes "loop_fields lr' = loop_fields lr"
  shows "lr_svc lr' = lr_svc lr" "lr_state lr' = lr_state lr" "lr_useForward lr' = lr_useForward lr"
    "lr_hasMgr lr' = lr_hasMgr lr" "lr_count lr' = lr_count lr" "lr_socket lr' = lr_socket lr"
    "lr_open lr' = lr_open lr" "lr_phase lr' = lr_phase lr"
    "loop_ok lr' = loop_ok lr" "mgr_tunnel lr' = mgr_tunnel lr" "adapter_tunnel lr' = adapter_tunnel lr"
  using assms by (simp_all add: loop_fields_def loop_ok_def mgr_tunnel_def adapter_tunnel_def split: run_phase.splits)

lemma use_tunnel_fields: "loop_fields (use_tunnel c lr) = loop_fields lr"
  by (simp add: loop_fields_def use_tunnel_def on_mgr_def)

lemma use_tunnel_shared:
  "lr_mgr (use_tunnel c lr) = (if lr_useForward lr \<and> lr_hasMgr lr then map_option (SetQuic c) (lr_mgr lr) else lr_mgr lr)"
  "ns_tunnel (lr_ns (use_tunnel c lr)) = (if lr_useForward lr then ns_tunnel (lr_ns lr) else c)"
  by (simp_all add: use_tunnel_def on_mgr_def SetForWarder_def)

lemma applyLocalProxy_fields: "loop_fields (applyLocalProxy u allow p r lr) = loop_fields lr"
  by (auto simp: loop_fields_def applyLocalProxy_def lr_report_def on_mgr_def split: option.splits prod.splits)

lemma applyLocalProxy_ns: "lr_ns (applyLocalProxy u allow p r lr) = lr_ns lr"
  by (auto simp: applyLocalProxy_def lr_report_def on_mgr_def split: option.splits prod.splits)

lemma applyLocalProxy_mgr:
  "lr_mgr (applyLocalProxy u allow p r lr) =
     (if lr_hasMgr lr then map_option (\<lambda>m. if \<not> allow then snd (StopBuiltinProxy m)
        else if u then snd (StartBuiltinProxy p r m) else m) (lr_mgr lr) else lr_mgr lr)"
  by (auto simp: applyLocalProxy_def lr_report_def on_mgr_def split: option.splits prod.splits)

lemma start_adapter_cases:
  assumes "start_adapter env lr = (r, lr')"
  shows "\<exists>ns started reports. lr' = lr\<lparr> lr_ns := ns, lr_nsStarted := started, lr_reports := reports \<rparr> \<and>
    ns_tunnel ns = ns_tunnel (lr_ns lr)"
proof (cases "\<not> lr_useForward lr \<and> \<not> lr_nsStarted lr")
  case True
  obtain e ns where s: "Start (AdapterName (lr_svc lr)) (uv_TunIP (lr_svc lr)) env (lr_ns lr) = (e, ns)" by fastforce
  have t: "ns_tunnel ns = ns_tunnel (lr_ns lr)" using Start_tunnel[of _ _ env "lr_ns lr"] s by (metis snd_conv)
  have "lr' = (case e of Some e \<Rightarrow> if e = NeedAdminRestart
      then lr_report (ReportStatus StatusNeedAdmin) (lr\<lparr> lr_ns := ns \<rparr>) else lr\<lparr> lr_ns := ns \<rparr>
    | None \<Rightarrow> lr\<lparr> lr_ns := ns, lr_nsStarted := True \<rparr>)"
    using assms True unfolding start_adapter_def s by (cases e) (auto simp: Let_def)
  then have "lr' = lr\<lparr> lr_ns := ns, lr_nsStarted := lr_nsStarted lr', lr_reports := lr_reports lr' \<rparr>"
    by (simp add: lr_report_def split: option.splits if_splits)
  with t show ?thesis by blast
next
  case False
  then have "lr' = lr" using assms unfolding start_adapter_def by (simp split: if_splits)
  then have "lr' = lr\<lparr> lr_ns := lr_ns lr, lr_nsStarted := lr_nsStarted lr, lr_reports := lr_reports lr \<rparr>" by simp
  then show ?thesis by blast
qed

lemma start_adapter_frame:
  assumes "start_adapter env lr = (r, lr')"
  shows "loop_fields lr' = loop_fields lr" "lr_mgr lr' = lr_mgr lr" "ns_tunnel (lr_ns lr') = ns_tunnel (lr_ns lr)"
  using start_adapter_cases[OF assms] by (auto simp: loop_fields_def)

lemma shared_cong:
  "loop_fields lr' = loop_fields lr \<Longrightarrow> lr_mgr lr' = lr_mgr lr \<Longrightarrow> ns_tunnel (lr_ns lr') = ns_tunnel (lr_ns lr) \<Longrightarrow>
     shared_ok lr' = shared_ok lr"
  using loop_fields_eq[of lr' lr] by (simp add: shared_ok_def)

lemma attempt_ok:
  assumes "shared_ok lr" "loop_ok lr" "lr_phase lr = RTop" "lr_state lr = 1"
  shows "shared_ok (attempt env lr) \<and> loop_ok (attempt env lr)"
proof (cases "re_quic env")
  case (QConn c allow)
  define t where "t = use_tunnel (Some c) (lr\<lparr> lr_count := Suc (lr_count lr) \<rparr>)"
  define u where "u = applyLocalProxy (lr_useForward lr) allow (re_preferred env) (re_random env) t"
  have a: "attempt env lr = u\<lparr> lr_state := 2, lr_phase := RServing c allow \<rparr>"
    by (simp add: attempt_def QConn u_def t_def Let_def)
  have hm: "lr_hasMgr lr = lr_useForward lr" using assms by (simp add: loop_ok_def)
  have f: "loop_fields u = loop_fields (lr\<lparr> lr_count := Suc (lr_count lr) \<rparr>)"
    by (simp add: u_def t_def applyLocalProxy_fields use_tunnel_fields)
  note F = loop_fields_eq(1-8)[OF f, simplified]
  have tf: "lr_hasMgr t = lr_hasMgr lr"
    using loop_fields_eq(4)[OF use_tunnel_fields] by (simp add: t_def)
  have ns: "ns_tunnel (lr_ns u) = (if lr_useForward lr then None else Some c)"
    using assms(1,3) by (simp add: u_def t_def applyLocalProxy_ns use_tunnel_shared shared_ok_def adapter_tunnel_def)
  have mg: "lr_mgr u = (if lr_useForward lr then map_option (\<lambda>m. if \<not> allow then snd (StopBuiltinProxy (SetQuic (Some c) m))
      else snd (StartBuiltinProxy (re_preferred env) (re_random env) (SetQuic (Some c) m))) (lr_mgr lr) else lr_mgr lr)"
    by (cases "lr_useForward lr"; cases allow)
       (simp_all add: u_def applyLocalProxy_mgr tf hm, simp_all add: t_def use_tunnel_shared hm option.map_comp comp_def)
  have st: "fm_quic (snd (StartBuiltinProxy p r m)) = fm_quic m" "fm_closed (snd (StartBuiltinProxy p r m)) = fm_closed m"
    "mgr_reachable m \<Longrightarrow> mgr_reachable (snd (StartBuiltinProxy p r m))" for p r m
    using mgr_op_frames(2)[of p r m] mgr_op_reachable(2)[of m p r] by (metis prod.collapse)+
  have cb: "fm_builtin m = None" if "mgr_reachable m" "fm_closed m" for m
    using mgr_reachable_inv[OF that(1)] that(2) by (simp add: mgr_inv_def)
  let ?g = "\<lambda>m. if \<not> allow then snd (StopBuiltinProxy (SetQuic (Some c) m))
      else snd (StartBuiltinProxy (re_preferred env) (re_random env) (SetQuic (Some c) m))"
  have g: "mgr_reachable (?g m) \<and> fm_quic (?g m) = Some c \<and> \<not> fm_closed (?g m) \<and> (\<not> allow \<longrightarrow> fm_builtin (?g m) = None)"
    if "mgr_reachable m" "\<not> fm_closed m" for m
    using that mgr_op_reachable(4)[OF that(1), of "Some c"] mgr_op_reachable(3)
    by (cases allow) (simp_all add: st mgr_op_frames)
  have M: "mgr_reachable m \<and> fm_quic m = (if lr_useForward lr then Some c else None) \<and>
      fm_closed m = (\<not> lr_useForward lr) \<and> (\<not> allow \<longrightarrow> fm_builtin m = None)" if mu: "lr_mgr u = Some m" for m
  proof (cases "lr_useForward lr")
    case True
    then obtain m0 where "lr_mgr lr = Some m0" "m = ?g m0" using mg mu by (cases "lr_mgr lr") auto
    then show ?thesis using g[of m0] assms(1) hm True by (simp add: shared_ok_def)
  next
    case False
    then have "lr_mgr lr = Some m" using mg mu by simp
    then show ?thesis using assms(1,3) hm False cb[of m] by (simp add: shared_ok_def mgr_tunnel_def)
  qed
  have "lr_mgr u \<noteq> None" if "lr_useForward lr" using mg that assms(1) hm by (simp add: shared_ok_def)
  then have "shared_ok (attempt env lr)"
    unfolding a shared_ok_def using M ns by (simp add: mgr_tunnel_def adapter_tunnel_def F hm)
  moreover have "loop_ok (attempt env lr)"
    using assms(2) hm by (simp add: a loop_ok_def F)
  ultimately show ?thesis ..
qed (use assms in \<open>auto simp: attempt_def shared_ok_def loop_ok_def mgr_tunnel_def adapter_tunnel_def Let_def
      lr_report_def\<close>)

lemma udp_addr_cases: "GetUDPAddr l4 l6 outs = (r, n) \<Longrightarrow> (r = None \<and> n = 0) \<or> (r \<noteq> None \<and> n = 1)"
  using get_udp_addr_cases[of maxGetUDPAddrAttempts _ outs r n] by (auto simp: GetUDPAddr_def)

lemma local_turn_ok:
  assumes "shared_ok lr" "loop_ok lr" "lr_phase lr = RTop"
  shows "shared_ok (local_turn env lr) \<and> loop_ok (local_turn env lr)"
proof (cases "lr_state lr = 1")
  case False
  then show ?thesis using assms
    by (auto simp: local_turn_def shared_ok_def loop_ok_def mgr_tunnel_def adapter_tunnel_def)
next
  case True
  define lr1 where "lr1 = (if lr_socket lr then lr\<lparr> lr_socket := False, lr_open := lr_open lr - 1 \<rparr> else lr)"
  obtain r n where g: "GetUDPAddr (re_local4 env) (re_local6 env) (re_probes env) = (r, n)" by fastforce
  define lr2 where "lr2 = lr1\<lparr> lr_open := lr_open lr1 + n, lr_socket := True \<rparr>"
  obtain e lr3 where s: "start_adapter (re_adapter env) lr2 = (e, lr3)" by fastforce
  note G = udp_addr_cases[OF g]
  have t: "local_turn env lr = (case r of None \<Rightarrow> lr1\<lparr> lr_open := lr_open lr1 + n, lr_phase := RDone EndNoAddr \<rparr>
      | Some a \<Rightarrow> (case e of Some e \<Rightarrow> lr3\<lparr> lr_phase := RDone (EndAdapter e) \<rparr> | None \<Rightarrow> attempt env lr3))"
    using True s by (simp add: local_turn_def lr1_def[symmetric] g lr2_def split: option.split)
  show ?thesis
  proof (cases r)
    case None
    then show ?thesis using assms G
      by (auto simp: t lr1_def shared_ok_def loop_ok_def mgr_tunnel_def adapter_tunnel_def)
  next
    case (Some a)
    have l2: "shared_ok lr2" "loop_ok lr2" "lr_phase lr2 = RTop" "lr_state lr2 = 1"
      using assms G Some True
      by (auto simp: lr2_def lr1_def shared_ok_def loop_ok_def mgr_tunnel_def adapter_tunnel_def)
    note F = start_adapter_frame[OF s]
    have l3: "shared_ok lr3" "loop_ok lr3" "lr_phase lr3 = RTop" "lr_state lr3 = 1"
      using l2 shared_cong[OF F] loop_fields_eq[OF F(1)] by simp_all
    show ?thesis
    proof (cases e)
      case None
      then show ?thesis using attempt_ok[OF l3] Some by (simp add: t)
    next
      case (Some e')
      then show ?thesis using l3 \<open>r = Some a\<close>
        by (auto simp: t shared_ok_def loop_ok_def mgr_tunnel_def adapter_tunnel_def)
    qed
  qed
qed

lemma after_health_ok:
  assumes "shared_ok lr" "loop_ok lr" "lr_phase lr = RServing c a"
  shows "shared_ok (after_health lr) \<and> loop_ok (after_health lr)"
proof -
  define lr1 where "lr1 = (if lr_state lr \<noteq> 0 then lr_report (ReportStatus StatusConnecting) (lr\<lparr> lr_state := 1 \<rparr>) else lr)"
  have a: "after_health lr = (use_tunnel None lr1)\<lparr> lr_count := 0, lr_phase := RTop \<rparr>"
    by (simp add: after_health_def lr1_def Let_def)
  have l1: "lr_mgr lr1 = lr_mgr lr" "lr_hasMgr lr1 = lr_hasMgr lr" "lr_useForward lr1 = lr_useForward lr"
    "lr_ns lr1 = lr_ns lr" "lr_open lr1 = lr_open lr" "lr_socket lr1 = lr_socket lr"
    "lr_state lr1 = (if lr_state lr = 0 then 0 else 1)"
    by (simp_all add: lr1_def lr_report_def)
  note F = loop_fields_eq(1-8)[OF use_tunnel_fields[of None lr1]]
  have M: "mgr_reachable m \<and> fm_quic m = None \<and> fm_closed m = (\<not> lr_hasMgr lr)"
    if m: "lr_mgr (use_tunnel None lr1) = Some m" for m
  proof (cases "lr_useForward lr \<and> lr_hasMgr lr")
    case True
    then obtain m0 where m0: "lr_mgr lr = Some m0" "m = SetQuic None m0"
      using m by (cases "lr_mgr lr") (auto simp: use_tunnel_shared l1)
    then have "mgr_reachable m0" "\<not> fm_closed m0" using assms(1) True by (simp_all add: shared_ok_def)
    then show ?thesis using True by (simp add: m0(2) mgr_op_reachable(4) mgr_op_frames)
  next
    case False
    then have m0: "lr_mgr lr = Some m" using m by (auto simp: use_tunnel_shared l1)
    then have "mgr_reachable m" "fm_closed m = (\<not> lr_hasMgr lr)" using assms(1) by (simp_all add: shared_ok_def)
    then show ?thesis using mgr_reachable_inv[of m] assms(2) False by (auto simp: mgr_inv_def loop_ok_def)
  qed
  have "lr_hasMgr lr \<Longrightarrow> lr_mgr (use_tunnel None lr1) \<noteq> None"
    using assms(1) by (simp add: use_tunnel_shared l1 shared_ok_def)
  then have "shared_ok (after_health lr)"
    unfolding a shared_ok_def using M assms(1,3)
    by (simp add: mgr_tunnel_def adapter_tunnel_def F l1 use_tunnel_shared shared_ok_def)
  moreover have "loop_ok (after_health lr)"
    unfolding a loop_ok_def using assms(2,3) by (auto simp: F l1 loop_ok_def maxConnectAttempts_def)
  ultimately show ?thesis ..
qed

lemma StopLocal_fields:
  "lr_mgr (StopLocal lr) = (if lr_hasMgr lr then map_option (\<lambda>m. snd (mgr_Close m)) (lr_mgr lr) else lr_mgr lr)"
  "\<not> lr_hasMgr (StopLocal lr)" "lr_state (StopLocal lr) = 0" "lr_phase (StopLocal lr) = lr_phase lr"
  "lr_useForward (StopLocal lr) = lr_useForward lr" "lr_ns (StopLocal lr) = lr_ns lr"
  "lr_count (StopLocal lr) = lr_count lr" "lr_socket (StopLocal lr) = lr_socket lr" "lr_open (StopLocal lr) = lr_open lr"
  by (simp_all add: StopLocal_def on_mgr_def Let_def)

lemma StopLocal_ok:
  assumes "shared_ok lr" "loop_ok lr"
  shows "shared_ok (StopLocal lr) \<and> loop_ok (StopLocal lr)"
proof -
  have M: "mgr_reachable m \<and> fm_quic m = None \<and> fm_closed m \<and> fm_builtin m = None" if m: "lr_mgr (StopLocal lr) = Some m" for m
  proof (cases "lr_hasMgr lr")
    case True
    then obtain m0 where m0: "lr_mgr lr = Some m0" "m = snd (mgr_Close m0)"
      using m by (cases "lr_mgr lr") (auto simp: StopLocal_fields)
    then have "mgr_reachable m0" using assms(1) by (simp add: shared_ok_def)
    then show ?thesis by (simp add: m0(2) mgr_op_reachable(5) mgr_op_frames)
  next
    case False
    then have "lr_mgr lr = Some m" using m by (simp add: StopLocal_fields)
    then have "mgr_reachable m" "fm_closed m" using assms(1) False by (simp_all add: shared_ok_def)
    then show ?thesis using mgr_reachable_inv[of m] by (simp add: mgr_inv_def)
  qed
  have "mgr_tunnel (StopLocal lr) = None" "adapter_tunnel (StopLocal lr) = adapter_tunnel lr"
    by (simp_all add: mgr_tunnel_def adapter_tunnel_def StopLocal_fields split: run_phase.split)
  then have "shared_ok (StopLocal lr)" unfolding shared_ok_def using M assms(1) by (simp add: StopLocal_fields shared_ok_def)
  moreover have "loop_ok (StopLocal lr)"
    using assms(2) unfolding loop_ok_def by (simp add: StopLocal_fields split: run_phase.splits)
  ultimately show ?thesis ..
qed

lemma watch_ok:
  assumes "shared_ok lr" "loop_ok lr" "enumeration enum"
  shows "shared_ok (watch_tick stored valid listen enum lr) \<and> loop_ok (watch_tick stored valid listen enum lr)"
proof -
  let ?t = "watch_tick stored valid listen enum lr"
  have f: "loop_fields ?t = loop_fields lr" "lr_ns ?t = lr_ns lr"
    by (auto simp: watch_tick_def loop_fields_def Let_def split: option.splits prod.splits sum.splits)
  have m: "lr_mgr ?t = lr_mgr lr \<or> (\<exists>m rules ok cl m'. lr_mgr lr = Some m \<and> Apply listen (enum rules) m = (ok, cl, m') \<and>
      lr_mgr ?t = Some m')"
    by (auto simp: watch_tick_def Let_def split: option.splits prod.splits sum.splits)
  have "shared_ok ?t"
    using m
  proof (elim disjE exE conjE)
    assume "lr_mgr ?t = lr_mgr lr"
    then show ?thesis using shared_cong[OF f(1)] f(2) assms(1) by simp
  next
    fix m rules ok cl m'
    assume a: "lr_mgr lr = Some m" "Apply listen (enum rules) m = (ok, cl, m')" "lr_mgr ?t = Some m'"
    then have "mgr_reachable m'" using mgr_op_reachable(1)[OF _ assms(3) a(2)] assms(1) by (simp add: shared_ok_def)
    then show ?thesis
      using assms(1) a mgr_op_frames(1)[OF a(2)] loop_fields_eq[OF f(1)] f(2) by (simp add: shared_ok_def)
  qed
  then show ?thesis using loop_fields_eq(9)[OF f(1)] assms(2) by simp
qed

lemma rl_step_ok: "rl_step lr lr' \<Longrightarrow> shared_ok lr \<Longrightarrow> loop_ok lr \<Longrightarrow> shared_ok lr' \<and> loop_ok lr'"
proof (induction rule: rl_step.induct)
  case (adapter lr env nic)
  let ?l = "lr\<lparr> lr_ns := health_check env nic (lr_ns lr) \<rparr>"
  have f: "loop_fields ?l = loop_fields lr" by (simp add: loop_fields_def)
  show ?case using shared_cong[OF f] loop_fields_eq(9)[OF f] adapter by (simp add: health_check_tunnel)
next
  case (listener lr m xs e ys r')
  let ?m = "m\<lparr> fm_entries := xs @ e\<lparr> fe_runner := r' \<rparr> # ys \<rparr>"
  let ?l = "lr\<lparr> lr_mgr := Some ?m \<rparr>"
  have f: "loop_fields ?l = loop_fields lr" by (simp add: loop_fields_def)
  have "mgr_reachable ?m"
    using mgr_reachable.step[OF _ mgr_step.progress[OF listener(2-5)]] listener(1,6) by (simp add: shared_ok_def)
  then show ?case using listener(1,6,7) loop_fields_eq[OF f] by (simp add: shared_ok_def)
qed (simp_all add: local_turn_ok after_health_ok StopLocal_ok watch_ok)

lemma rl_reach_ok: "rl_reach lr \<Longrightarrow> shared_ok lr \<and> loop_ok lr"
  by (induction rule: rl_reach.induct) (simp_all add: start_ok_run rl_step_ok)

section \<open>Properties\<close>


text \<open>A map of rules in the order of their first occurrence.\<close>

definition wanted_list :: "forward_rule list \<Rightarrow> (string \<times> forward_rule) list" where
  "wanted_list rules = map (\<lambda>k. (k, the (wanted_map rules k))) (remdups (map listenKey rules))"

lemma wanted_list_enumeration: "enumeration wanted_list"
proof -
  have d: "distinct (map fst (wanted_list rules))" for rules
    by (simp add: wanted_list_def comp_def)
  have "map_of (wanted_list rules) k = wanted_map rules k" for rules k
  proof (cases "k \<in> set (map listenKey rules)")
    case True
    then have "wanted_map rules k \<noteq> None" by (auto simp: wanted_map_def map_of_eq_None_iff image_image)
    moreover have "(k, the (wanted_map rules k)) \<in> set (wanted_list rules)" using True by (auto simp: wanted_list_def)
    ultimately show ?thesis using d[of rules] by simp
  next
    case False
    then have "wanted_map rules k = None" "map_of (wanted_list rules) k = None"
      by (auto simp: wanted_map_def wanted_list_def map_of_eq_None_iff)
    then show ?thesis by simp
  qed
  then show ?thesis using d by (auto simp: enumeration_def enumerates_def)
qed

definition wit_svc :: ui_service where
  "wit_svc = \<lparr> uv_ID = ''a'', uv_Name = ''a'', uv_WorkType = ''Local'', uv_TunKey = [], uv_LocalMode = ''forward'',
     uv_Transport = ''kcp'', uv_TunIP = ''192.17.20.1'', uv_AutoStart = False,
     uv_ForwardRules = [\<lparr> ur_proto = ''tcp'', ur_listen = ''127.0.0.1:80'', ur_remote = ''10.0.0.5:80'' \<rparr>],
     uv_AllowLocalProxy = None \<rparr>"

definition wit_tunnel_env :: run_env where
  "wit_tunnel_env = \<lparr> re_local4 = [], re_local6 = [], re_probes = demo_probe, re_adapter = ns_wit_env,
     re_quic = QConn 7 False, re_preferred = True, re_random = None \<rparr>"

definition wit_run0 :: local_run where
  "wit_run0 = RunLocal_start wit_svc True (Some wit_svc) (\<lambda>_. True) wanted_list"

definition wit_run1 :: local_run where "wit_run1 = local_turn wit_tunnel_env wit_run0"

lemma wit_rules: "RulesFromUI (uv_ForwardRules wit_svc) = Inr [wit_rule]"
  by code_simp

definition wit_mgr :: fwd_mgr where
  "wit_mgr = \<lparr> fm_entries = [\<lparr> fe_key = listenKey wit_rule, fe_rule = wit_rule,
       fe_runner = TcpRunner (tcp_new (fr_listenAddr wit_rule) (fr_remoteIP wit_rule) (fr_remotePort wit_rule)) \<rparr>],
     fm_builtin = None, fm_quic = None, fm_closed = False \<rparr>"

lemma wit_wanted: "wanted_list [wit_rule] = [(listenKey wit_rule, wit_rule)]"
  by (simp add: wanted_list_def wanted_map_def)

lemma wit_apply: "Apply (\<lambda>_. True) [(listenKey wit_rule, wit_rule)] NewForwardManager = (True, [], wit_mgr)"
  by (simp add: Apply_def NewForwardManager_def start_runner_def newForwardRunner_def closed_of_def wit_mgr_def)
    (simp add: wit_rule_def)

lemma wit_run0_eq:
  "wit_run0 = (fresh_run wit_svc)\<lparr> lr_mgr := Some wit_mgr, lr_hasMgr := True,
     lr_watch := Some (ForwardFingerprint wit_svc, None), lr_useForward := True \<rparr>"
proof -
  have "uv_LocalMode wit_svc = LocalModeForward" by (simp add: wit_svc_def LocalModeForward_def)
  then show ?thesis by (simp add: wit_run0_def RunLocal_start_def setupForwardMode_def wit_rules wit_wanted wit_apply)
qed

lemma wit_run_states:
  "lr_phase wit_run0 = RTop" "lr_state wit_run0 = 1" "lr_useForward wit_run0" "lr_count wit_run0 = 0"
  "lr_phase wit_run1 = RServing 7 False" "lr_hasMgr wit_run1"
  "map fe_key (fm_entries (the (lr_mgr wit_run1))) = [listenKey wit_rule]" "lr_mgr wit_run1 \<noteq> None"
proof -
  show "lr_phase wit_run0 = RTop" "lr_state wit_run0 = 1" "lr_useForward wit_run0" "lr_count wit_run0 = 0"
    by (simp_all add: wit_run0_eq fresh_run_def)
  have "wit_run1 = attempt wit_tunnel_env (wit_run0\<lparr> lr_open := 1, lr_socket := True \<rparr>)"
    using demo_guards(1) by (simp add: wit_run1_def local_turn_def start_adapter_def wit_run0_eq fresh_run_def wit_tunnel_env_def)
  then have e: "wit_run1 = (applyLocalProxy True False True None (use_tunnel (Some 7)
      (wit_run0\<lparr> lr_open := 1, lr_socket := True, lr_count := 1 \<rparr>)))\<lparr> lr_state := 2, lr_phase := RServing 7 False \<rparr>"
    by (simp add: attempt_def wit_tunnel_env_def wit_run0_eq fresh_run_def Let_def)
  show "lr_phase wit_run1 = RServing 7 False" "lr_hasMgr wit_run1"
    "map fe_key (fm_entries (the (lr_mgr wit_run1))) = [listenKey wit_rule]" "lr_mgr wit_run1 \<noteq> None"
    unfolding e
    by (simp_all add: applyLocalProxy_def lr_report_def on_mgr_def use_tunnel_def wit_run0_eq fresh_run_def
        StopBuiltinProxy_def SetQuic_def wit_mgr_def setRunnerQuic_def split: option.split)
qed

lemma wit_run_reach: "rl_reach wit_run0" "rl_reach wit_run1"
proof -
  show r: "rl_reach wit_run0" unfolding wit_run0_def by (rule rl_reach.start[OF wanted_list_enumeration])
  show "rl_reach wit_run1"
    unfolding wit_run1_def using rl_reach.step[OF r rl_step.turn[OF wit_run_states(1)]] .
qed


definition no_remote :: "run_env \<Rightarrow> bool" where
  "no_remote env \<longleftrightarrow> re_quic env = QNone \<and> fst (GetUDPAddr (re_local4 env) (re_local6 env) (re_probes env)) \<noteq> None"

lemma no_remote_turn:
  assumes "no_remote env" "lr_phase lr = RTop" "lr_state lr = 1" "lr_useForward lr \<or> lr_nsStarted lr"
  shows "local_turn env lr =
    (let lr1 = lr\<lparr> lr_socket := True, lr_open := lr_open (local_turn env lr), lr_count := Suc (lr_count lr) \<rparr>
     in if Suc (lr_count lr) \<ge> 15 then (lr_report (ReportStatus StatusConnectFailed) lr1)\<lparr> lr_phase := RDone EndAttempts \<rparr>
        else lr1)"
proof -
  obtain a n where g: "GetUDPAddr (re_local4 env) (re_local6 env) (re_probes env) = (Some a, n)"
    using assms(1) by (cases "GetUDPAddr (re_local4 env) (re_local6 env) (re_probes env)") (auto simp: no_remote_def)
  have s: "start_adapter e l = (None, l)" if "lr_useForward l \<or> lr_nsStarted l" for e l
    using that by (auto simp: start_adapter_def)
  show ?thesis
    using assms g by (auto simp: local_turn_def s attempt_def no_remote_def maxConnectAttempts_def lr_report_def Let_def)
qed

text \<open>C14 The worker gives up exactly when fifteen attempts in a row find no remote end: after fewer it is at the
  top of its loop again with that many counted, after the fifteenth it has reported the failed
  connection and returned; a tunnel in between starts the count anew, so it is below fifteen whenever
  a turn begins, and a failed session ends the worker at once.\<close>

theorem gives_up_after_fifteen:
  assumes "rl_reach lr" "lr_phase lr = RTop" "lr_state lr = 1" "lr_useForward lr \<or> lr_nsStarted lr"
    and "list_all no_remote envs" "lr_count lr + length envs \<le> 15"
  shows "lr_count lr < 15 \<and>
    (let lr' = fold local_turn envs lr
     in if lr_count lr + length envs < 15 then lr_phase lr' = RTop \<and> lr_count lr' = lr_count lr + length envs
        else lr_phase lr' = RDone EndAttempts \<and> last (lr_reports lr') = ReportStatus StatusConnectFailed) \<and>
    (re_quic env = QErr \<longrightarrow> lr_phase (local_turn env lr) \<noteq> RTop \<and> (\<forall>c a. lr_phase (local_turn env lr) \<noteq> RServing c a)) \<and>
    (\<forall>c a. re_quic env = QConn c a \<longrightarrow> lr_count (after_health (local_turn env lr)) = 0)"
proof -
  have c: "lr_count lr < 15" using rl_reach_ok[OF assms(1)] assms(2) by (simp add: loop_ok_def maxConnectAttempts_def)
  have F: "let lr' = fold local_turn envs l
     in if lr_count l + length envs < 15 then lr_phase lr' = RTop \<and> lr_count lr' = lr_count l + length envs
        else lr_phase lr' = RDone EndAttempts \<and> last (lr_reports lr') = ReportStatus StatusConnectFailed"
    if "lr_phase l = RTop" "lr_state l = 1" "lr_useForward l \<or> lr_nsStarted l" "list_all no_remote envs"
      "lr_count l + length envs \<le> 15" "lr_count l < 15" for l envs
    using that
  proof (induction envs arbitrary: l)
    case (Cons e es)
    define t where "t = local_turn e l"
    have "no_remote e" using Cons.prems by simp
    note T = no_remote_turn[OF this Cons.prems(1-3), folded t_def]
    show ?case
    proof (cases "Suc (lr_count l) \<ge> 15")
      case True
      then have "length es = 0" using Cons.prems(5) unfolding list.size by linarith
      then have "es = []" by simp
      moreover have "lr_phase t = RDone EndAttempts" "last (lr_reports t) = ReportStatus StatusConnectFailed"
        using True by (subst T, simp add: Let_def lr_report_def)+
      ultimately show ?thesis using True by (simp add: t_def[symmetric])
    next
      case False
      have "lr_phase t = RTop" "lr_state t = 1" "lr_useForward t \<or> lr_nsStarted t" "lr_count t = Suc (lr_count l)"
        by (subst T, use False Cons.prems in \<open>simp add: Let_def\<close>)+
      then show ?thesis using Cons.IH[of t] Cons.prems False by (auto simp: t_def[symmetric] Let_def split: if_splits)
    qed
  qed simp
  have E: "lr_phase (local_turn env lr) \<noteq> RTop \<and> (\<forall>c a. lr_phase (local_turn env lr) \<noteq> RServing c a)" if "re_quic env = QErr"
    using assms(3) that by (auto simp: local_turn_def attempt_def Let_def split: option.splits prod.splits)
  have "lr_count (after_health l) = 0" for l by (simp add: after_health_def Let_def)
  then show ?thesis using c F[OF assms(2-6) c] E by blast
qed

theorem gives_up_witness:
  "lr_phase (fold local_turn (replicate 15 (wit_tunnel_env\<lparr> re_quic := QNone \<rparr>)) wit_run0) = RDone EndAttempts"
proof -
  let ?e = "wit_tunnel_env\<lparr> re_quic := QNone \<rparr>"
  have "no_remote ?e" using demo_guards(1) by (simp add: no_remote_def wit_tunnel_env_def)
  then have "list_all no_remote (replicate 15 ?e)" by (simp add: list_all_length)
  from gives_up_after_fifteen[OF wit_run_reach(1) wit_run_states(1,2) _ this] wit_run_states(3,4)
  show ?thesis by (simp add: Let_def)
qed

text \<open>What the watcher does to the listeners: nothing unless a valid configuration with other rules asks for it;
  an update that succeeded is not repeated, one that failed is tried again at the next tick.\<close>

lemma watch_idle:
  assumes "lr_watch lr = Some (applied, complained)" "lr_mgr lr = Some m"
    and "\<not> valid \<or> stored = None \<or> (\<exists>svc. stored = Some svc \<and> (ForwardFingerprint svc = applied \<or>
      uv_LocalMode svc \<noteq> LocalModeForward \<or> (\<exists>e. RulesFromUI (uv_ForwardRules svc) = Inl e)))"
  shows "lr_mgr (watch_tick stored valid listen enum lr) = Some m"
  using assms by (auto simp: watch_tick_def Let_def split: option.splits prod.splits sum.splits)

lemma watch_applies:
  assumes "lr_watch lr = Some (applied, complained)" "lr_mgr lr = Some m" "lr_state lr \<noteq> 0"
    and "ForwardFingerprint svc \<noteq> applied" "uv_LocalMode svc = LocalModeForward"
    and "RulesFromUI (uv_ForwardRules svc) = Inr rules" "Apply listen (enum rules) m = (ok, cl, m')"
  shows "watch_tick (Some svc) True listen enum lr = lr\<lparr> lr_mgr := Some m',
    lr_watch := Some (if ok then (ForwardFingerprint svc, None) else (applied, Some (ForwardFingerprint svc))) \<rparr>"
  using assms by (simp add: watch_tick_def Let_def)

lemma watch_settled:
  "lr_watch lr = Some (ForwardFingerprint svc, complained) \<Longrightarrow> lr_mgr lr = Some m \<Longrightarrow> lr_state lr \<noteq> 0 \<Longrightarrow>
     watch_tick (Some svc) True listen enum lr = lr"
  by (simp add: watch_tick_def Let_def)

definition moved_svc :: ui_service where
  "moved_svc = wit_svc\<lparr> uv_ForwardRules :=
     [\<lparr> ur_proto = ''tcp'', ur_listen = ''127.0.0.1:80'', ur_remote = ''10.0.0.5:81'' \<rparr>] \<rparr>"

definition moved_rule :: forward_rule where "moved_rule = wit_rule\<lparr> fr_remotePort := 81 \<rparr>"

lemma moved_rules: "RulesFromUI (uv_ForwardRules moved_svc) = Inr [moved_rule]"
  by code_simp

lemma moved_facts: "listenKey moved_rule = listenKey wit_rule" "uv_LocalMode moved_svc = LocalModeForward"
  "wanted_list [moved_rule] = [(listenKey wit_rule, moved_rule)]" "ForwardFingerprint moved_svc \<noteq> ForwardFingerprint wit_svc"
  by (simp_all add: moved_rule_def listenKey_def moved_svc_def wit_svc_def LocalModeForward_def wanted_list_def
      wanted_map_def ForwardFingerprint_def)

text \<open>The listener of the witness after it stopped serving.\<close>

definition dead_runner :: fwd_runner where
  "dead_runner = TcpRunner ((tcp_new (fr_listenAddr wit_rule) (fr_remoteIP wit_rule) (fr_remotePort wit_rule))
     \<lparr> ft_failed := True, ft_serving := False \<rparr>)"

definition dead_mgr :: fwd_mgr where
  "dead_mgr = wit_mgr\<lparr> fm_entries := [\<lparr> fe_key = listenKey wit_rule, fe_rule = wit_rule, fe_runner = dead_runner \<rparr>] \<rparr>"

definition wit_dead :: local_run where "wit_dead = wit_run0\<lparr> lr_mgr := Some dead_mgr \<rparr>"

lemma wit_dead_reach: "rl_reach wit_dead"
proof -
  define e where "e = hd (fm_entries wit_mgr)"
  have es: "fm_entries wit_mgr = [] @ e # []" by (simp add: e_def wit_mgr_def)
  have "rl_step wit_run0 (wit_run0\<lparr> lr_mgr := Some (wit_mgr\<lparr> fm_entries := [] @ e\<lparr> fe_runner := dead_runner \<rparr> # [] \<rparr>) \<rparr>)"
    by (rule rl_step.listener[OF _ es])
       (simp_all add: wit_run0_eq fresh_run_def e_def wit_mgr_def dead_runner_def run_defs tcp_new_def tcp_target_def)
  moreover have "wit_mgr\<lparr> fm_entries := [] @ e\<lparr> fe_runner := dead_runner \<rparr> # [] \<rparr> = dead_mgr"
    by (simp add: dead_mgr_def e_def wit_mgr_def)
  ultimately show ?thesis unfolding wit_dead_def using rl_reach.step[OF wit_run_reach(1)] by simp
qed

lemma dead_apply:
  "Apply (\<lambda>_. False) [(listenKey wit_rule, moved_rule)] dead_mgr =
     (True, [(listenKey wit_rule, run_Close dead_runner)], dead_mgr\<lparr> fm_entries := [] \<rparr>)"
  by (simp add: Apply_def dead_mgr_def wit_mgr_def keep_entry_def start_runner_def newForwardRunner_def closed_of_def
      dead_runner_def run_defs)

text \<open>C28 A listener that had stopped and cannot be reopened during an update is lost although its rule stays: the
  update counts as successful and its rules as applied, so that no later tick, whatever can be opened by
  then, touches the listeners again, while applying the very same rules once more would open it.\<close>

theorem failed_rebuild_is_forgotten:
  "\<exists>lr m svc rules. rl_reach lr \<and> lr_phase lr = RTop \<and> lr_mgr lr = Some m \<and> \<not> fm_closed m \<and>
     RulesFromUI (uv_ForwardRules svc) = Inr rules \<and> rules \<noteq> [] \<and> fm_entries m = [] \<and>
     (\<forall>listen. watch_tick (Some svc) True listen wanted_list lr = lr) \<and>
     (\<exists>cl m'. Apply (\<lambda>_. True) (wanted_list rules) m = (True, cl, m') \<and> map fe_rule (fm_entries m') = rules)"
proof -
  let ?m = "dead_mgr\<lparr> fm_entries := [] \<rparr>"
  define lr where "lr = watch_tick (Some moved_svc) True (\<lambda>_. False) wanted_list wit_dead"
  have d: "lr_watch wit_dead = Some (ForwardFingerprint wit_svc, None)" "lr_mgr wit_dead = Some dead_mgr"
    "lr_state wit_dead \<noteq> 0" "lr_phase wit_dead = RTop"
    by (simp_all add: wit_dead_def wit_run0_eq fresh_run_def)
  have "Apply (\<lambda>_. False) (wanted_list [moved_rule]) dead_mgr =
      (True, [(listenKey wit_rule, run_Close dead_runner)], ?m)"
    unfolding moved_facts(3) by (rule dead_apply)
  then have e: "lr = wit_dead\<lparr> lr_mgr := Some ?m, lr_watch := Some (ForwardFingerprint moved_svc, None) \<rparr>"
    using watch_applies[OF d(1-3) moved_facts(4,2) moved_rules] by (simp add: lr_def)
  have r: "rl_reach lr"
    unfolding lr_def by (rule rl_reach.step[OF wit_dead_reach rl_step.watch[OF wanted_list_enumeration]])
  have s: "lr_watch lr = Some (ForwardFingerprint moved_svc, None)" "lr_mgr lr = Some ?m" "lr_state lr \<noteq> 0"
    using d by (simp_all add: e)
  have a: "\<exists>cl m'. Apply (\<lambda>_. True) (wanted_list [moved_rule]) ?m = (True, cl, m') \<and> map fe_rule (fm_entries m') = [moved_rule]"
    by (simp add: moved_facts(3) Apply_def dead_mgr_def wit_mgr_def start_runner_def newForwardRunner_def)
  have p: "lr_phase lr = RTop" "\<not> fm_closed ?m" using d(4) by (simp_all add: e dead_mgr_def wit_mgr_def)
  have idle: "\<forall>listen. watch_tick (Some moved_svc) True listen wanted_list lr = lr"
    using watch_settled[OF s] by blast
  show ?thesis
    by (intro exI[of _ lr] exI[of _ ?m] exI[of _ moved_svc] exI[of _ "[moved_rule]"] conjI r p s(2) moved_rules idle a)
       simp_all
qed

end
