(* ===== verification/Ui_Download.thy ===== *)
theory Ui_Download
  imports Ui_Http Ui_Run
begin

text \<open>
  The update dialogue of the web interface, the first half of \<open>ui2/upgrade.go\<close> with its routes in
  \<open>ui2/server.go\<close>: asking for the latest release, downloading its archive with a progress display, and
  handing over to the update process. The download is a goroutine of which one runs at a time; its
  stages, and every piece the response delivers, are steps between which any other request may
  come. Files are a map from paths to their contents; what the network and the file system answer is an
  argument. \<open>dl_received\<close> records the bodies that arrived in full; the code keeps no such list.
\<close>

section \<open>State\<close>

text \<open>What the user is told; the texts are an argument.\<close>

datatype dl_error = TempDirFails | BadURL | RequestFails | HttpStatus nat | CreateFails | CopyFails | CloseFails | RenameFails

datatype dl_refusal = NoReleaseInfo | NoArchive | Busy | NotWindows | NotDownloaded | ArchiveGone | StartFails

record progress_writer =
  pw_total :: int
  pw_read :: int
  pw_lastP :: int
  pw_lastT :: int

datatype dl_task =
    DlBegin string
  | DlFetch string
  | DlCopy string progress_writer string
  | DlEnd

record dl_sys =
  dl_ui :: ui_sys
  dl_check :: upgrade_check
  dl_busy :: bool
  dl_zip :: string
  dl_task :: "dl_task option"
  dl_files :: "string \<Rightarrow> string option"
  dl_received :: "(string \<times> string) list"
  dl_commands :: "string list list"
  dl_exiting :: bool

definition dl_progress :: "bool \<Rightarrow> int \<Rightarrow> bool \<Rightarrow> string \<Rightarrow> dl_sys \<Rightarrow> dl_sys" where
  "dl_progress downloading percent finished err s =
     s\<lparr> dl_ui := on_data (setUpgradeProgress downloading percent finished err) (dl_ui s) \<rparr>"

definition dl_upgrade :: "dl_sys \<Rightarrow> upgrade_info" where
  "dl_upgrade s = um_upgrade (us_data (dl_ui s))"

section \<open>The download\<close>

text \<open>What the goroutine still does when it fails: tell the user, and clear the busy flag as deferred.\<close>

definition dl_fail :: "string \<Rightarrow> int \<Rightarrow> dl_sys \<Rightarrow> dl_sys" where
  "dl_fail msg percent s = (dl_progress False percent False msg s)\<lparr> dl_task := Some DlEnd \<rparr>"

definition dl_begin :: "string \<Rightarrow> dl_sys \<Rightarrow> dl_sys" where
  "dl_begin url s = (dl_progress True 0 False [] s)\<lparr> dl_task := Some (DlFetch url) \<rparr>"

text \<open>What stands between the start and the copying.\<close>

record dl_env =
  de_dir :: "string option"
  de_urlOk :: bool
  de_response :: "nat option"
  de_total :: int
  de_create :: bool

text \<open>The path separator is the platform's.\<close>

definition dl_join :: "char \<Rightarrow> string \<Rightarrow> string \<Rightarrow> string" where
  "dl_join sep dir name = dir @ [sep] @ name"

definition part_of :: "string \<Rightarrow> string" where "part_of dest = dest @ ''.part''"

definition dl_fetch :: "(dl_error \<Rightarrow> string) \<Rightarrow> char \<Rightarrow> string \<Rightarrow> dl_env \<Rightarrow> dl_sys \<Rightarrow> dl_sys" where
  "dl_fetch say sep zipName env s =
     (case de_dir env of
        None \<Rightarrow> dl_fail (say TempDirFails) 0 s
      | Some dir \<Rightarrow>
          (let dest = dl_join sep dir zipName
           in if \<not> de_urlOk env then dl_fail (say BadURL) 0 s
              else case de_response env of
                None \<Rightarrow> dl_fail (say RequestFails) 0 s
              | Some status \<Rightarrow>
                  if status \<noteq> 200 then dl_fail (say (HttpStatus status)) 0 s
                  else if \<not> de_create env then dl_fail (say CreateFails) 0 s
                  else s\<lparr> dl_files := (dl_files s)(part_of dest \<mapsto> []),
                          dl_task := Some (DlCopy dest \<lparr> pw_total = de_total env, pw_read = 0, pw_lastP = 0, pw_lastT = 0 \<rparr> []) \<rparr>))"

text \<open>\<open>progressWriter.Write\<close> of which \<open>n\<close> bytes reached the file. \<open>now\<close> is in milliseconds.\<close>

definition pw_percent :: "progress_writer \<Rightarrow> int" where
  "pw_percent p =
     (if pw_total p > 0 then (let pct = pw_read p * 100 div pw_total p in if pct > 100 then 100 else pct) else 0)"

definition pw_Write :: "int \<Rightarrow> nat \<Rightarrow> progress_writer \<Rightarrow> bool \<times> progress_writer" where
  "pw_Write now n p =
     (let p1 = p\<lparr> pw_read := pw_read p + int n \<rparr>;
          pct = pw_percent p1
      in if pct \<noteq> pw_lastP p1 \<and> (pct \<ge> pw_lastP p1 + 1 \<or> pct = 100 \<or> now - pw_lastT p1 \<ge> 200)
         then (True, p1\<lparr> pw_lastP := pct, pw_lastT := now \<rparr>)
         else (False, p1))"

text \<open>A piece of the body, of which the file takes \<open>n\<close> bytes.\<close>

definition dl_write :: "int \<Rightarrow> string \<Rightarrow> string \<Rightarrow> progress_writer \<Rightarrow> string \<Rightarrow> dl_sys \<Rightarrow> dl_sys" where
  "dl_write now piece dest p got s =
     (case pw_Write now (length piece) p of
        (shown, p1) \<Rightarrow>
          (let s1 = s\<lparr> dl_files := (dl_files s)(part_of dest \<mapsto> got @ piece),
                       dl_task := Some (DlCopy dest p1 (got @ piece)) \<rparr>
           in if shown then dl_progress True (pw_lastP p1) False [] s1 else s1))"

text \<open>The copying ends: with an error, or with the body complete.\<close>

definition dl_remove :: "string \<Rightarrow> dl_sys \<Rightarrow> dl_sys" where
  "dl_remove path s = s\<lparr> dl_files := (dl_files s)(path := None) \<rparr>"

definition dl_finish ::
  "(dl_error \<Rightarrow> string) \<Rightarrow> bool \<Rightarrow> bool \<Rightarrow> bool \<Rightarrow> string \<Rightarrow> progress_writer \<Rightarrow> string \<Rightarrow> dl_sys \<Rightarrow> dl_sys" where
  "dl_finish say copied closed renamed dest p got s =
     (if \<not> copied then dl_fail (say CopyFails) (pw_lastP p) (dl_remove (part_of dest) s)
      else let s0 = s\<lparr> dl_received := (dest, got) # dl_received s \<rparr>
      in if \<not> closed then dl_fail (say CloseFails) (pw_lastP p) (dl_remove (part_of dest) s0)
      else let s1 = dl_remove dest s0
      in if \<not> renamed then dl_fail (say RenameFails) (pw_lastP p) (dl_remove (part_of dest) s1)
      else let s2 = s1\<lparr> dl_files := (dl_files s1)(dest := dl_files s1 (part_of dest), part_of dest := None),
                        dl_zip := dest \<rparr>
           in (dl_progress False 100 True [] s2)\<lparr> dl_task := Some DlEnd \<rparr>)"

definition dl_end :: "dl_sys \<Rightarrow> dl_sys" where
  "dl_end s = s\<lparr> dl_busy := False, dl_task := None \<rparr>"

section \<open>The requests\<close>

text \<open>\<open>fetched\<close> is the latest release, if it can be asked for.\<close>

definition HandleUpgradeInfo :: "string \<Rightarrow> release option \<Rightarrow> dl_sys \<Rightarrow> upgrade_cache option \<times> dl_sys" where
  "HandleUpgradeInfo zipName fetched s =
     (case GetUpgradeInfo zipName fetched (dl_check s) of
        (None, k) \<Rightarrow> (None, s\<lparr> dl_check := k \<rparr>)
      | (Some info, k) \<Rightarrow>
          (let need = uc_Latest info \<noteq> [] \<and> uc_Latest info \<noteq> um_version (us_data (dl_ui s))
           in (Some info, s\<lparr> dl_check := k,
                 dl_ui := on_data (setUpgradeInfo need (uc_Latest info) (uc_Body info) (uc_DownloadURL info)) (dl_ui s) \<rparr>)))"

definition HandleUpgradeDownload :: "string \<Rightarrow> release option \<Rightarrow> dl_sys \<Rightarrow> dl_refusal option \<times> dl_sys" where
  "HandleUpgradeDownload zipName fetched s =
     (case GetUpgradeInfo zipName fetched (dl_check s) of
        (None, k) \<Rightarrow> (Some NoReleaseInfo, s\<lparr> dl_check := k \<rparr>)
      | (Some info, k) \<Rightarrow>
          (let s1 = s\<lparr> dl_check := k \<rparr>
           in if uc_DownloadURL info = [] then (Some NoArchive, s1)
              else if dl_busy s1 then (Some Busy, s1)
              else (None, s1\<lparr> dl_busy := True, dl_task := Some (DlBegin (uc_DownloadURL info)) \<rparr>)))"

text \<open>\<open>started\<close>: the update process can be started.\<close>

definition HandleUpgradeApply ::
  "ui_env \<Rightarrow> bool \<Rightarrow> int \<Rightarrow> string \<Rightarrow> bool \<Rightarrow> dl_sys \<Rightarrow> dl_refusal option \<times> dl_sys" where
  "HandleUpgradeApply env windows pid exe started s =
     (if \<not> windows then (Some NotWindows, s)
      else if dl_busy s then (Some Busy, s)
      else if \<not> ug_Done (dl_upgrade s) \<or> dl_zip s = [] then (Some NotDownloaded, s)
      else if dl_files s (dl_zip s) = None then (Some ArchiveGone, s)
      else let s1 = s\<lparr> dl_ui := StopCmdProcess env (dl_ui s) \<rparr>
           in if \<not> started then (Some StartFails, s1)
              else (None, s1\<lparr> dl_commands := dl_commands s1 @ [update_command (dl_zip s) pid exe], dl_exiting := True \<rparr>))"

text \<open>The routes; each looks at the method itself.\<close>

datatype upgrade_answer = GInfo upgrade_cache | GOk | GRefused dl_refusal | GBadMethod

definition handleUpgradeInfo :: "string \<Rightarrow> release option \<Rightarrow> string \<Rightarrow> dl_sys \<Rightarrow> (nat \<times> upgrade_answer) \<times> dl_sys" where
  "handleUpgradeInfo zipName fetched method s =
     (if method \<noteq> ''GET'' then ((405, GBadMethod), s)
      else case HandleUpgradeInfo zipName fetched s of
        (None, s') \<Rightarrow> ((502, GRefused NoReleaseInfo), s')
      | (Some info, s') \<Rightarrow> ((200, GInfo info), s'))"

definition handleUpgradeDownload :: "string \<Rightarrow> release option \<Rightarrow> string \<Rightarrow> dl_sys \<Rightarrow> (nat \<times> upgrade_answer) \<times> dl_sys" where
  "handleUpgradeDownload zipName fetched method s =
     (if method \<noteq> ''POST'' then ((405, GBadMethod), s)
      else case HandleUpgradeDownload zipName fetched s of
        (Some e, s') \<Rightarrow> ((409, GRefused e), s')
      | (None, s') \<Rightarrow> ((200, GOk), s'))"

definition handleUpgradeApply ::
  "ui_env \<Rightarrow> bool \<Rightarrow> int \<Rightarrow> string \<Rightarrow> bool \<Rightarrow> string \<Rightarrow> dl_sys \<Rightarrow> (nat \<times> upgrade_answer) \<times> dl_sys" where
  "handleUpgradeApply env windows pid exe started method s =
     (if method \<noteq> ''POST'' then ((405, GBadMethod), s)
      else case HandleUpgradeApply env windows pid exe started s of
        (Some e, s') \<Rightarrow> ((400, GRefused e), s')
      | (None, s') \<Rightarrow> ((200, GOk), s'))"

section \<open>What earlier updates left behind\<close>

text \<open>At the start of the interface: the files with their modification times, in nanoseconds.\<close>

definition upgradeRollbackKeep :: int where "upgradeRollbackKeep = 7 * 24 * 3600 * 10 ^ 9"

definition removeOldAfter ::
  "int \<Rightarrow> (string \<Rightarrow> bool) \<Rightarrow> string \<Rightarrow> int \<Rightarrow> (string \<Rightarrow> int option) \<Rightarrow> string \<Rightarrow> int option" where
  "removeOldAfter now removable path keep fs =
     (case fs path of
        None \<Rightarrow> fs
      | Some t \<Rightarrow> if now - t < keep then fs else if removable path then fs(path := None) else fs)"

definition cleanupUpgradeResidues ::
  "char \<Rightarrow> int \<Rightarrow> (string \<Rightarrow> bool) \<Rightarrow> string \<Rightarrow> string \<Rightarrow> (string \<Rightarrow> int option) \<Rightarrow> string \<Rightarrow> int option" where
  "cleanupUpgradeResidues sep now removable dir exe fs =
     removeOldAfter now removable (dl_join sep dir ''wintun.dll.old'') upgradeRollbackKeep
       (removeOldAfter now removable (exe @ ''.old'') upgradeRollbackKeep fs)"

text \<open>Only the two files kept for going back are ever removed, and not before their time.\<close>

lemma cleanup_keeps_recent:
  assumes "fs path = Some t" "cleanupUpgradeResidues sep now removable dir exe fs path = None"
  shows "path \<in> {exe @ ''.old'', dl_join sep dir ''wintun.dll.old''} \<and> now - t \<ge> upgradeRollbackKeep"
  using assms
  by (auto simp: cleanupUpgradeResidues_def removeOldAfter_def split: option.splits if_splits)

section \<open>All interleavings\<close>

text \<open>\<open>os.MkdirTemp\<close> gives a directory that did not exist before, so nothing lies in it and the archive of an
  earlier download, in a directory that stays, is not in it either. The rest of the program may do
  anything to the interface, but does not write the download's part of the upgrade information. A file in
  the temporary directory may be removed by others.\<close>

definition same_download :: "upgrade_info \<Rightarrow> upgrade_info \<Rightarrow> bool" where
  "same_download u v \<longleftrightarrow> ug_Downloading u = ug_Downloading v \<and> ug_Percent u = ug_Percent v \<and> ug_Done u = ug_Done v"

inductive dl_step :: "(dl_error \<Rightarrow> string) \<Rightarrow> char \<Rightarrow> string \<Rightarrow> dl_sys \<Rightarrow> dl_sys \<Rightarrow> bool" for say sep zipName where
  info: "dl_step say sep zipName s (snd (HandleUpgradeInfo zipName fetched s))"
| download: "dl_step say sep zipName s (snd (HandleUpgradeDownload zipName fetched s))"
| apply_update: "dl_step say sep zipName s (snd (HandleUpgradeApply env windows pid exe started s))"
| dl_started: "dl_task s = Some (DlBegin url) \<Longrightarrow> dl_step say sep zipName s (dl_begin url s)"
| answered: "dl_task s = Some (DlFetch url) \<Longrightarrow>
    (\<And>dir x. de_dir env = Some dir \<Longrightarrow> dl_files s (dl_join sep dir x) = None \<and> dl_zip s \<noteq> dl_join sep dir x) \<Longrightarrow>
    dl_step say sep zipName s (dl_fetch say sep zipName env s)"
| received: "dl_task s = Some (DlCopy dest p got) \<Longrightarrow> dl_step say sep zipName s (dl_write now piece dest p got s)"
| copied: "dl_task s = Some (DlCopy dest p got) \<Longrightarrow>
    dl_step say sep zipName s (dl_finish say copied closed renamed dest p got s)"
| task_end: "dl_task s = Some DlEnd \<Longrightarrow> dl_step say sep zipName s (dl_end s)"
| other: "same_download (um_upgrade (us_data ui)) (dl_upgrade s) \<Longrightarrow>
    dl_step say sep zipName s (s\<lparr> dl_ui := ui, dl_check := k \<rparr>)"
| removed: "dl_step say sep zipName s (dl_remove (dl_zip s) s)"

inductive_cases dl_stepE: "dl_step say sep zipName s s'"

inductive dl_reach :: "(dl_error \<Rightarrow> string) \<Rightarrow> char \<Rightarrow> string \<Rightarrow> dl_sys \<Rightarrow> bool" for say sep zipName where
  init: "\<not> dl_busy s \<Longrightarrow> dl_task s = None \<Longrightarrow> dl_zip s = [] \<Longrightarrow> \<not> ug_Done (dl_upgrade s) \<Longrightarrow>
    \<not> ug_Downloading (dl_upgrade s) \<Longrightarrow> ug_Percent (dl_upgrade s) = 0 \<Longrightarrow> dl_reach say sep zipName s"
| step: "dl_reach say sep zipName s \<Longrightarrow> dl_step say sep zipName s s' \<Longrightarrow> dl_reach say sep zipName s'"

section \<open>The invariant\<close>

definition task_ok :: "dl_sys \<Rightarrow> bool" where
  "task_ok s \<longleftrightarrow> (case dl_task s of
      None \<Rightarrow> \<not> ug_Downloading (dl_upgrade s)
    | Some (DlBegin url) \<Rightarrow> True
    | Some (DlFetch url) \<Rightarrow> ug_Percent (dl_upgrade s) = 0 \<and> \<not> ug_Done (dl_upgrade s)
    | Some (DlCopy dest p got) \<Rightarrow> dl_files s (part_of dest) = Some got \<and> dl_zip s \<noteq> part_of dest \<and> dest \<noteq> [] \<and>
        pw_read p = int (length got) \<and> ug_Percent (dl_upgrade s) = pw_lastP p \<and> pw_lastP p = pw_percent p \<and>
        \<not> ug_Done (dl_upgrade s)
    | Some DlEnd \<Rightarrow> \<not> ug_Downloading (dl_upgrade s))"

definition archive_ok :: "dl_sys \<Rightarrow> bool" where
  "archive_ok s \<longleftrightarrow>
     (dl_zip s \<noteq> [] \<longrightarrow> (\<forall>c. dl_files s (dl_zip s) = Some c \<longrightarrow> (dl_zip s, c) \<in> set (dl_received s))) \<and>
     (ug_Done (dl_upgrade s) \<longrightarrow> dl_zip s \<noteq> [])"

definition dl_ok :: "dl_sys \<Rightarrow> bool" where
  "dl_ok s \<longleftrightarrow> dl_busy s = (dl_task s \<noteq> None) \<and> 0 \<le> ug_Percent (dl_upgrade s) \<and> ug_Percent (dl_upgrade s) \<le> 100 \<and>
     task_ok s \<and> archive_ok s"

text \<open>Messages to the browsers do not touch the upgrade information.\<close>

lemma upgrade_broadcast [simp]: "um_upgrade (broadcast m d) = um_upgrade d" "um_upgrade (broadcastState d) = um_upgrade d"
  by (simp_all add: broadcast_def broadcastState_def)

lemma upgrade_progress:
  "um_upgrade (setUpgradeProgress downloading percent finished err d) = (um_upgrade d)\<lparr> ug_Downloading := downloading,
     ug_Percent := min 100 (max 0 percent), ug_Done := finished, ug_Error := err \<rparr>"
  by (auto simp: setUpgradeProgress_def broadcastUpgrade_def Let_def)

lemma dl_upgrade_progress [simp]:
  "dl_upgrade (dl_progress downloading percent finished err s) = (dl_upgrade s)\<lparr> ug_Downloading := downloading,
     ug_Percent := min 100 (max 0 percent), ug_Done := finished, ug_Error := err \<rparr>"
  by (simp add: dl_upgrade_def dl_progress_def on_data_def upgrade_progress)

lemma dl_progress_simps [simp]:
  "dl_busy (dl_progress a b c e s) = dl_busy s" "dl_zip (dl_progress a b c e s) = dl_zip s"
  "dl_task (dl_progress a b c e s) = dl_task s" "dl_files (dl_progress a b c e s) = dl_files s"
  "dl_received (dl_progress a b c e s) = dl_received s" "dl_check (dl_progress a b c e s) = dl_check s"
  by (simp_all add: dl_progress_def)

lemma dl_upgrade_simps [simp]:
  "dl_upgrade (s\<lparr> dl_task := t \<rparr>) = dl_upgrade s" "dl_upgrade (s\<lparr> dl_files := fs \<rparr>) = dl_upgrade s"
  "dl_upgrade (s\<lparr> dl_busy := b \<rparr>) = dl_upgrade s" "dl_upgrade (s\<lparr> dl_zip := z \<rparr>) = dl_upgrade s"
  "dl_upgrade (s\<lparr> dl_received := r \<rparr>) = dl_upgrade s" "dl_upgrade (s\<lparr> dl_check := k \<rparr>) = dl_upgrade s"
  "dl_upgrade (s\<lparr> dl_commands := c \<rparr>) = dl_upgrade s" "dl_upgrade (s\<lparr> dl_exiting := x \<rparr>) = dl_upgrade s"
  by (simp_all add: dl_upgrade_def)

lemma part_of_neq [simp]: "part_of d \<noteq> d" "d \<noteq> part_of d" "part_of d = part_of e \<longleftrightarrow> d = e"
  by (simp_all add: part_of_def)

lemma pw_percent_bounds: "0 \<le> pw_read p \<Longrightarrow> 0 \<le> pw_percent p \<and> pw_percent p \<le> 100"
  by (simp add: pw_percent_def Let_def pos_imp_zdiv_nonneg_iff)

lemma pw_percent_mono: "pw_percent p \<le> pw_percent (p\<lparr> pw_read := pw_read p + int n \<rparr>)"
proof -
  have "pw_read p * 100 div pw_total p \<le> (pw_read p + int n) * 100 div pw_total p" if "pw_total p > 0"
    using that by (intro zdiv_mono1) simp_all
  then show ?thesis by (auto simp: pw_percent_def Let_def)
qed

text \<open>A failing download.\<close>

lemma dl_fail_ok:
  assumes "dl_busy s" "archive_ok s"
  shows "dl_ok (dl_fail msg percent s)"
  using assms by (auto simp: dl_ok_def dl_fail_def task_ok_def archive_ok_def)

lemma archive_remove: "archive_ok s \<Longrightarrow> archive_ok (dl_remove path s)"
  by (auto simp: archive_ok_def dl_remove_def split: if_splits)

lemma archive_received: "archive_ok s \<Longrightarrow> archive_ok (s\<lparr> dl_received := x # dl_received s \<rparr>)"
  by (auto simp: archive_ok_def)


lemma task_frame:
  assumes "dl_task s = dl_task t" "same_download (dl_upgrade s) (dl_upgrade t)" "dl_files s = dl_files t"
    and "dl_zip s = dl_zip t" "dl_busy s = dl_busy t" "dl_received s = dl_received t" "dl_ok t"
  shows "dl_ok s"
  using assms
  by (auto simp: dl_ok_def task_ok_def archive_ok_def same_download_def split: option.split dl_task.split)

lemma same_download_refl [simp]: "same_download u u"
  by (simp add: same_download_def)

lemma upgrade_info_same [simp]: "same_download (um_upgrade (setUpgradeInfo need l b u d)) (um_upgrade d)"
  by (simp add: setUpgradeInfo_def broadcastUpgrade_def same_download_def Let_def)

lemma upgrade_setServiceStatus [simp]: "um_upgrade (setServiceStatus sid st d) = um_upgrade d"
  by (simp add: setServiceStatus_def with_service_def upd_svc_def Let_def split: option.split)

lemma upgrade_resetProxyListen [simp]: "um_upgrade (resetProxyListen sid d) = um_upgrade d"
  by (simp add: resetProxyListen_def setProxyListen_def with_service_def upd_svc_def Let_def split: option.split)

lemma StopCmdProcess_upgrade [simp]: "um_upgrade (us_data (StopCmdProcess env u)) = um_upgrade (us_data u)"
proof -
  have "um_upgrade (fold (\<lambda>sid d. setServiceStatus sid Idle (resetProxyListen sid d)) ids d) = um_upgrade d" for ids d
    by (induction ids arbitrary: d) simp_all
  then show ?thesis by (simp add: StopCmdProcess_def Let_def on_data_def)
qed

lemma Info_ok: "dl_ok s \<Longrightarrow> dl_ok (snd (HandleUpgradeInfo zipName fetched s))"
  by (rule task_frame[of _ s])
     (auto simp: HandleUpgradeInfo_def dl_upgrade_def on_data_def Let_def split: prod.split option.split)

lemma Apply_ok_step: "dl_ok s \<Longrightarrow> dl_ok (snd (HandleUpgradeApply env windows pid exe started s))"
  by (rule task_frame[of _ s]) (auto simp: HandleUpgradeApply_def dl_upgrade_def Let_def)

lemma Download_ok: "dl_ok s \<Longrightarrow> dl_ok (snd (HandleUpgradeDownload zipName fetched s))"
proof -
  assume s: "dl_ok s"
  have check: "dl_ok (s\<lparr> dl_check := k \<rparr>)" for k by (rule task_frame[OF _ _ _ _ _ _ s]) simp_all
  have "dl_ok (s\<lparr> dl_check := k, dl_busy := True, dl_task := Some (DlBegin url) \<rparr>)" for k url
    using s by (simp add: dl_ok_def task_ok_def archive_ok_def dl_upgrade_def)
  with check show ?thesis
    by (simp add: HandleUpgradeDownload_def Let_def split: prod.split option.split)
qed

lemma begin_ok: "dl_ok s \<Longrightarrow> dl_task s = Some (DlBegin url) \<Longrightarrow> dl_ok (dl_begin url s)"
  by (simp add: dl_ok_def dl_begin_def task_ok_def archive_ok_def)

lemma fetch_ok:
  assumes "dl_ok s" "dl_task s = Some (DlFetch url)"
    and "\<And>dir x. de_dir env = Some dir \<Longrightarrow> dl_files s (dl_join sep dir x) = None \<and> dl_zip s \<noteq> dl_join sep dir x"
  shows "dl_ok (dl_fetch say sep zipName env s)"
proof -
  have s: "dl_busy s" "archive_ok s" using assms(1,2) by (auto simp: dl_ok_def)
  have part: "part_of (dl_join sep dir zipName) = dl_join sep dir (zipName @ ''.part'')" for dir
    by (simp add: dl_join_def part_of_def)
  show ?thesis
  proof (cases "\<exists>dir. de_dir env = Some dir \<and> de_urlOk env \<and> de_response env = Some 200 \<and> de_create env")
    case True
    then obtain dir where d: "de_dir env = Some dir" "de_urlOk env" "de_response env = Some 200" "de_create env" by blast
    with assms(3) have "dl_zip s \<noteq> part_of (dl_join sep dir zipName)" by (simp add: part)
    with assms(1,2) d show ?thesis
      by (auto simp: dl_fetch_def dl_ok_def task_ok_def archive_ok_def dl_join_def pw_percent_def Let_def)
  next
    case False
    then show ?thesis
      using dl_fail_ok[OF s] by (auto simp: dl_fetch_def Let_def split: option.split)
  qed
qed

lemma write_ok:
  assumes "dl_ok s" "dl_task s = Some (DlCopy dest p got)"
  shows "dl_ok (dl_write now piece dest p got s)"
proof -
  let ?p = "p\<lparr> pw_read := pw_read p + int (length piece) \<rparr>"
  have "pw_percent p \<le> pw_percent ?p" by (rule pw_percent_mono)
  moreover have "0 \<le> pw_percent ?p \<and> pw_percent ?p \<le> 100"
    using assms by (intro pw_percent_bounds) (simp add: dl_ok_def task_ok_def)
  ultimately show ?thesis
    using assms
    by (auto simp: dl_write_def pw_Write_def dl_ok_def task_ok_def archive_ok_def pw_percent_def Let_def)
qed

lemma finish_ok:
  assumes "dl_ok s" "dl_task s = Some (DlCopy dest p got)"
  shows "dl_ok (dl_finish say copied closed renamed dest p got s)"
proof -
  have s: "dl_busy s" "archive_ok s" "dl_files s (part_of dest) = Some got" "dest \<noteq> []" "dl_zip s \<noteq> part_of dest"
    using assms by (auto simp: dl_ok_def task_ok_def)
  have busy: "dl_busy (dl_remove x s') = dl_busy s'" for x s' by (simp add: dl_remove_def)
  show ?thesis
    using s
    by (auto simp: dl_finish_def Let_def busy intro!: dl_fail_ok archive_remove archive_received)
       (auto simp: dl_ok_def task_ok_def archive_ok_def dl_remove_def)
qed

lemma end_ok: "dl_ok s \<Longrightarrow> dl_task s = Some DlEnd \<Longrightarrow> dl_ok (dl_end s)"
  by (auto simp: dl_ok_def dl_end_def task_ok_def archive_ok_def dl_upgrade_def)

lemma other_ok:
  assumes "dl_ok s" "same_download (um_upgrade (us_data ui)) (dl_upgrade s)"
  shows "dl_ok (s\<lparr> dl_ui := ui, dl_check := k \<rparr>)"
  by (rule task_frame[OF _ _ _ _ _ _ assms(1)]) (simp_all add: dl_upgrade_def assms(2)[unfolded dl_upgrade_def])

lemma removed_ok: "dl_ok s \<Longrightarrow> dl_ok (dl_remove (dl_zip s) s)"
  by (auto simp: dl_ok_def task_ok_def archive_ok_def dl_remove_def dl_upgrade_def split: option.splits dl_task.splits)

lemma dl_step_ok: "dl_step say sep zipName s s' \<Longrightarrow> dl_ok s \<Longrightarrow> dl_ok s'"
  by (erule dl_stepE)
     (simp_all add: Info_ok Download_ok Apply_ok_step begin_ok fetch_ok write_ok finish_ok end_ok other_ok removed_ok)

lemma dl_reach_ok: "dl_reach say sep zipName s \<Longrightarrow> dl_ok s"
proof (induction rule: dl_reach.induct)
  case (init s)
  then show ?case by (simp add: dl_ok_def task_ok_def archive_ok_def)
qed (rule dl_step_ok)


section \<open>Properties\<close>

text \<open>
  What the browsers are shown while the copying runs is exactly the share received, at most 100, and it
  never goes back.
\<close>

theorem shown_percent_exact:
  assumes "dl_reach say sep zipName s" "dl_task s = Some (DlCopy dest p got)"
  shows "ug_Percent (dl_upgrade s) =
      (if pw_total p > 0 then min 100 (int (length got) * 100 div pw_total p) else 0) \<and>
    ug_Percent (dl_upgrade s) \<le> ug_Percent (dl_upgrade (dl_write now piece dest p got s))"
proof -
  have s: "pw_read p = int (length got)" "ug_Percent (dl_upgrade s) = pw_percent p" "pw_lastP p = pw_percent p"
    using dl_reach_ok[OF assms(1)] assms(2) by (auto simp: dl_ok_def task_ok_def)
  let ?p = "p\<lparr> pw_read := pw_read p + int (length piece) \<rparr>"
  have "pw_percent p \<le> pw_percent ?p" by (rule pw_percent_mono)
  moreover have "0 \<le> pw_percent ?p \<and> pw_percent ?p \<le> 100"
    using s(1) by (intro pw_percent_bounds) simp
  ultimately have "pw_percent p \<le> ug_Percent (dl_upgrade (dl_write now piece dest p got s))"
    using s by (auto simp: dl_write_def pw_Write_def Let_def)
  then show ?thesis
    using s by (auto simp: pw_percent_def Let_def)
qed

lemma cleanup_procs [simp]: "us_procs (CleanupOrphanedCmdProcesses env s) = us_procs s"
proof -
  have "us_procs (fold (cleanup_pid_file env) fs s) = us_procs s" for fs
    by (induction fs arbitrary: s)
       (simp_all add: cleanup_pid_file_def KillProcess_def Let_def split: option.split)
  then show ?thesis by (simp add: CleanupOrphanedCmdProcesses_def)
qed

text \<open>C20 Whatever requests, downloads and failures came before, and whoever removed files from the temporary
  directory: when \<open>HandleUpgradeApply\<close> accepts, no download is running, the archive handed to the update
  process is there and holds a body that was received in full and under that path, the workers are
  stopped with no restart to come, and one process is started, whose command line reads back as that archive,
  this process and this program.\<close>

theorem update_starts_from_complete_archive:
  assumes "dl_reach say sep zipName s" "HandleUpgradeApply env windows pid exe started s = (None, s')"
    and "int_min \<le> pid" "pid \<le> int_max"
  shows "(\<exists>c. dl_files s (dl_zip s) = Some c \<and> (dl_zip s, c) \<in> set (dl_received s)) \<and> dl_task s = None \<and>
    (\<forall>(sid, w) \<in> set (us_procs (dl_ui s')). sp_cmd w = None \<and> \<not> sp_autoRestart w) \<and>
    (\<exists>cmd. dl_commands s' = dl_commands s @ [cmd] \<and> ParseSelfUpdateArgs cmd = (dl_zip s, pid, exe, True))"
proof -
  have accepted: "\<not> dl_busy s" "ug_Done (dl_upgrade s)" "dl_zip s \<noteq> []" "dl_files s (dl_zip s) \<noteq> None"
    "s' = s\<lparr> dl_ui := StopCmdProcess env (dl_ui s), dl_commands := dl_commands s @ [update_command (dl_zip s) pid exe],
            dl_exiting := True \<rparr>"
    using assms(2) by (auto simp: HandleUpgradeApply_def Let_def split: if_splits)
  have procs: "\<forall>(sid, w) \<in> set (us_procs (StopCmdProcess env u)). sp_cmd w = None \<and> \<not> sp_autoRestart w" for u
    by (auto simp: StopCmdProcess_def Let_def on_data_def)
  have "ParseSelfUpdateArgs (update_command (dl_zip s) pid exe) = (dl_zip s, pid, exe, True)"
    by (rule update_command_parses_back[OF assms(3,4)])
  with accepted dl_reach_ok[OF assms(1)] procs show ?thesis
    by (auto simp: dl_ok_def archive_ok_def)
qed


text \<open>A download in two pieces, and the state after each of its steps.\<close>

definition wit_release :: release where
  "wit_release = \<lparr> rl_TagName = ''v3.5.0'', rl_Body = ''news'', rl_Assets = [(''goodlink.zip'', ''https://x/g'')] \<rparr>"

definition wit_dl0 :: dl_sys where
  "wit_dl0 = \<lparr> dl_ui = demo_sys Idle Map.empty [] [] [] 1 [],
     dl_check = \<lparr> uk_checking = False, uk_checkedAt = None,
       uk_cache = \<lparr> uc_Latest = [], uc_Body = [], uc_DownloadURL = [] \<rparr> \<rparr>,
     dl_busy = False, dl_zip = [], dl_task = None, dl_files = Map.empty, dl_received = [], dl_commands = [],
     dl_exiting = False \<rparr>"

definition wit_writer :: "int \<Rightarrow> progress_writer" where
  "wit_writer n = \<lparr> pw_total = 4, pw_read = n, pw_lastP = n * 25, pw_lastT = n \<rparr>"

definition wit_dest :: string where "wit_dest = ''/tmp/u1/goodlink.zip''"

definition wit_dl1 :: dl_sys where "wit_dl1 = snd (HandleUpgradeDownload ''goodlink.zip'' (Some wit_release) wit_dl0)"
definition wit_dl2 :: dl_sys where "wit_dl2 = dl_begin ''https://x/g'' wit_dl1"
definition wit_dl3 :: dl_sys where
  "wit_dl3 = dl_fetch (\<lambda>e. []) CHR ''/'' ''goodlink.zip''
     \<lparr> de_dir = Some ''/tmp/u1'', de_urlOk = True, de_response = Some 200, de_total = 4, de_create = True \<rparr> wit_dl2"
definition wit_dl4 :: dl_sys where "wit_dl4 = dl_write 2 ''PK'' wit_dest (wit_writer 0) [] wit_dl3"
definition wit_dl5 :: dl_sys where "wit_dl5 = dl_write 4 ''zz'' wit_dest (wit_writer 2) ''PK'' wit_dl4"
definition wit_dl6 :: dl_sys where
  "wit_dl6 = dl_finish (\<lambda>e. []) True True True wit_dest (wit_writer 4) ''PKzz'' wit_dl5"
definition wit_dl7 :: dl_sys where "wit_dl7 = dl_end wit_dl6"

lemma wit_dl1: "dl_task wit_dl1 = Some (DlBegin ''https://x/g'')" "dl_zip wit_dl1 = []" "dl_files wit_dl1 = Map.empty"
proof -
  have "findAssetURL wit_release ''goodlink.zip'' = ''https://x/g''" by code_simp
  then show "dl_task wit_dl1 = Some (DlBegin ''https://x/g'')" "dl_zip wit_dl1 = []" "dl_files wit_dl1 = Map.empty"
    by (simp_all add: wit_dl1_def HandleUpgradeDownload_def GetUpgradeInfo_def storeUpgradeCache_def wit_dl0_def Let_def)
qed

lemma wit_dl2: "dl_task wit_dl2 = Some (DlFetch ''https://x/g'')" "dl_zip wit_dl2 = []" "dl_files wit_dl2 = Map.empty"
  by (simp_all add: wit_dl2_def dl_begin_def wit_dl1)

lemma wit_dl3: "dl_task wit_dl3 = Some (DlCopy wit_dest (wit_writer 0) [])"
  by (simp add: wit_dl3_def dl_fetch_def dl_join_def wit_dest_def wit_writer_def Let_def)

lemma wit_dl4: "dl_task wit_dl4 = Some (DlCopy wit_dest (wit_writer 2) ''PK'')"
  by (simp add: wit_dl4_def dl_write_def pw_Write_def pw_percent_def wit_writer_def Let_def)

lemma wit_dl5: "dl_task wit_dl5 = Some (DlCopy wit_dest (wit_writer 4) ''PKzz'')"
  "dl_files wit_dl5 (part_of wit_dest) = Some ''PKzz''"
  by (simp_all add: wit_dl5_def dl_write_def pw_Write_def pw_percent_def wit_writer_def Let_def)

lemma wit_dl6: "dl_task wit_dl6 = Some DlEnd" "dl_zip wit_dl6 = wit_dest" "ug_Done (dl_upgrade wit_dl6)"
  "dl_files wit_dl6 wit_dest = Some ''PKzz''"
  by (simp_all add: wit_dl6_def dl_finish_def dl_remove_def wit_dl5 Let_def)

lemma wit_dl_reach: "dl_reach (\<lambda>e. []) CHR ''/'' ''goodlink.zip'' wit_dl7"
proof -
  let ?r = "dl_reach (\<lambda>e. []) CHR ''/'' ''goodlink.zip''"
  have "?r wit_dl0"
    by (rule dl_reach.init) (simp_all add: wit_dl0_def dl_upgrade_def demo_sys_def demo_at_def demo_data_def)
  then have "?r wit_dl1" unfolding wit_dl1_def by (rule dl_reach.step[OF _ dl_step.download])
  then have "?r wit_dl2" unfolding wit_dl2_def by (rule dl_reach.step[OF _ dl_step.dl_started]) (rule wit_dl1)
  then have "?r wit_dl3" unfolding wit_dl3_def
    by (rule dl_reach.step[OF _ dl_step.answered]) (simp_all add: wit_dl2 dl_join_def)
  then have "?r wit_dl4" unfolding wit_dl4_def by (rule dl_reach.step[OF _ dl_step.received]) (rule wit_dl3)
  then have "?r wit_dl5" unfolding wit_dl5_def by (rule dl_reach.step[OF _ dl_step.received]) (rule wit_dl4)
  then have "?r wit_dl6" unfolding wit_dl6_def by (rule dl_reach.step[OF _ dl_step.copied]) (rule wit_dl5)
  then show ?thesis unfolding wit_dl7_def by (rule dl_reach.step[OF _ dl_step.task_end]) (rule wit_dl6)
qed

theorem update_starts_witness:
  "HandleUpgradeApply demo_env True 4711 ''g.exe'' True wit_dl7 = (None, snd (HandleUpgradeApply demo_env True 4711 ''g.exe'' True wit_dl7)) \<and>
   (\<exists>c. dl_files wit_dl7 (dl_zip wit_dl7) = Some c \<and> (dl_zip wit_dl7, c) \<in> set (dl_received wit_dl7))"
proof -
  have "fst (HandleUpgradeApply demo_env True 4711 ''g.exe'' True wit_dl7) = None"
    by (simp add: HandleUpgradeApply_def wit_dl7_def dl_end_def wit_dl6 wit_dest_def[symmetric] Let_def)
       (simp add: wit_dest_def)
  then have a: "HandleUpgradeApply demo_env True 4711 ''g.exe'' True wit_dl7 = (None, snd (HandleUpgradeApply demo_env True 4711 ''g.exe'' True wit_dl7))"
    by (simp add: prod_eq_iff)
  from update_starts_from_complete_archive[OF wit_dl_reach a] a show ?thesis
    by (simp add: int_min_def int_max_def)
qed

end
