(* ===== verification/Ui_Events.thy ===== *)
theory Ui_Events
  imports Ui_Http Ui_Run
begin

text \<open>
  The event stream of the web interface: \<open>handleEvents\<close> of \<open>ui2/server.go\<close> on the hub of \<open>ui2/state.go\<close>.
  A browser subscribes, is sent the whole state, then whatever is broadcast. Unlike in \<open>Ui_State\<close>, where
  it is one step, a broadcast is cut here where the code is: a state is changed under its lock, the
  changing goroutine then takes a snapshot under the lock again, and then waits for the lock of the hub to
  hand it to the channels. \<open>ev_lost\<close> (clients whose channel was once full) and \<open>ev_overtaken\<close> (a message was
  handed over before an older one) record the past for the theorems; the code has nothing of the kind.
\<close>

section \<open>State\<close>

datatype ev_out = OSnapshot ui_view | OMsg sse_msg | OPing

record ev_sys =
  ev_data :: ui_data
  ev_due :: nat
  ev_pending :: "sse_msg list"
  ev_open :: "nat \<Rightarrow> ev_out list option"
  ev_check :: upgrade_check
  ev_lost :: "nat set"
  ev_overtaken :: bool

text \<open>\<open>ev_due\<close> counts changes whose goroutine has not yet taken its snapshot; \<open>ev_open c\<close> is what was
  written to browser \<open>c\<close>, from the snapshot on.\<close>

definition startUpgradeCheck :: "nat \<Rightarrow> upgrade_check \<Rightarrow> bool \<times> upgrade_check" where
  "startUpgradeCheck = runUpgradeCheck 0"

definition TriggerUpgradeCheck :: "nat \<Rightarrow> upgrade_check \<Rightarrow> bool \<times> upgrade_check" where
  "TriggerUpgradeCheck = runUpgradeCheck (15 * 60)"

section \<open>A stream\<close>

definition ev_connect :: "bool \<Rightarrow> ev_sys \<Rightarrow> ev_sys" where
  "ev_connect flusher s =
     (if \<not> flusher then s
      else case subscribe (ev_data s) of (c, d) \<Rightarrow> s\<lparr> ev_data := d, ev_lost := ev_lost s - {c} \<rparr>)"

definition ev_close :: "nat \<Rightarrow> ev_sys \<Rightarrow> ev_sys" where
  "ev_close c s = s\<lparr> ev_data := unsubscribe c (ev_data s), ev_open := (ev_open s)(c := None) \<rparr>"

text \<open>The answer begins with the whole state; \<open>ok\<close> is the outcome of the write.\<close>

definition ev_greet :: "nat \<Rightarrow> nat \<Rightarrow> bool \<Rightarrow> ev_sys \<Rightarrow> ev_sys" where
  "ev_greet now c ok s =
     (if ok then s\<lparr> ev_open := (ev_open s)(c \<mapsto> [OSnapshot (snapshot True (ev_data s))]),
                    ev_check := snd (TriggerUpgradeCheck now (ev_check s)) \<rparr>
      else ev_close c s)"

definition pop_client :: "nat \<Rightarrow> ui_data \<Rightarrow> ui_data" where
  "pop_client c d = d\<lparr> um_clients := map (\<lambda>(k, q). (k, if k = c then tl q else q)) (um_clients d) \<rparr>"

text \<open>One turn of the loop, of a stream on which \<open>w\<close> was written: the browser is gone, a heartbeat, or a message.\<close>

datatype ev_event = EvGone | EvBeat bool | EvMsg bool

definition ev_turn :: "nat \<Rightarrow> ev_out list \<Rightarrow> sse_msg list \<Rightarrow> ev_event \<Rightarrow> ev_sys \<Rightarrow> ev_sys" where
  "ev_turn c w q e s =
     (case e of
        EvGone \<Rightarrow> ev_close c s
      | EvBeat ok \<Rightarrow> if ok then s\<lparr> ev_open := (ev_open s)(c \<mapsto> w @ [OPing]) \<rparr> else ev_close c s
      | EvMsg ok \<Rightarrow>
          (case q of
             [] \<Rightarrow> s
           | m # _ \<Rightarrow>
               (let s1 = s\<lparr> ev_data := pop_client c (ev_data s) \<rparr>
                in if ok then s1\<lparr> ev_open := (ev_open s1)(c \<mapsto> w @ [OMsg m]) \<rparr> else ev_close c s1)))"

section \<open>The rest of the program\<close>

definition ev_prepare :: "ev_sys \<Rightarrow> ev_sys" where
  "ev_prepare s = s\<lparr> ev_due := ev_due s - 1, ev_pending := ev_pending s @ [SseState (snapshot False (ev_data s))] \<rparr>"

text \<open>The \<open>i\<close>-th of the messages waiting for the hub goes first.\<close>

definition ev_send :: "nat \<Rightarrow> ev_sys \<Rightarrow> ev_sys" where
  "ev_send i s =
     s\<lparr> ev_data := broadcast (ev_pending s ! i) (ev_data s),
        ev_pending := take i (ev_pending s) @ drop (Suc i) (ev_pending s),
        ev_lost := ev_lost s \<union> {c. \<exists>q. (c, q) \<in> set (um_clients (ev_data s)) \<and> sse_buffer \<le> length q},
        ev_overtaken := (ev_overtaken s \<or> i \<noteq> 0) \<rparr>"

definition services_of :: "ui_data \<Rightarrow> service_view list" where
  "services_of d = st_Services (snapshot False d)"

definition is_state :: "sse_msg \<Rightarrow> bool" where
  "is_state m \<longleftrightarrow> (case m of SseState _ \<Rightarrow> True | _ \<Rightarrow> False)"

inductive ev_step :: "ev_sys \<Rightarrow> ev_sys \<Rightarrow> bool" where
  connect: "ev_step s (ev_connect flusher s)"
| greet: "(c, q) \<in> set (um_clients (ev_data s)) \<Longrightarrow> ev_open s c = None \<Longrightarrow> ev_step s (ev_greet now c ok s)"
| turn: "(c, q) \<in> set (um_clients (ev_data s)) \<Longrightarrow> ev_open s c = Some w \<Longrightarrow> ev_step s (ev_turn c w q e s)"
| change: "um_clients d = um_clients (ev_data s) \<Longrightarrow> ev_step s (s\<lparr> ev_data := d, ev_due := Suc (ev_due s) \<rparr>)"
| quiet: "um_clients d = um_clients (ev_data s) \<Longrightarrow> services_of d = services_of (ev_data s) \<Longrightarrow>
    ev_step s (s\<lparr> ev_data := d, ev_check := k \<rparr>)"
| prepare: "ev_due s > 0 \<Longrightarrow> ev_step s (ev_prepare s)"
| note_msg: "\<not> is_state m \<Longrightarrow> ev_step s (s\<lparr> ev_pending := ev_pending s @ [m] \<rparr>)"
| send: "i < length (ev_pending s) \<Longrightarrow> ev_step s (ev_send i s)"

inductive_cases ev_stepE: "ev_step s s'"

inductive ev_reach :: "ev_sys \<Rightarrow> bool" where
  init: "um_clients (ev_data s) = [] \<Longrightarrow> ev_due s = 0 \<Longrightarrow> ev_pending s = [] \<Longrightarrow> ev_open s = Map.empty \<Longrightarrow> ev_reach s"
| step: "ev_reach s \<Longrightarrow> ev_step s s' \<Longrightarrow> ev_reach s'"

section \<open>What the browser shows\<close>

text \<open>The page replaces its services by those of every state it is sent; the log lines are kept apart.\<close>

definition bare :: "ui_view \<Rightarrow> service_view list" where
  "bare v = map (\<lambda>x. x\<lparr> vw_Logs := [] \<rparr>) (st_Services v)"

fun view_of :: "ev_out \<Rightarrow> service_view list option" where
  "view_of (OSnapshot v) = Some (bare v)"
| "view_of (OMsg (SseState v)) = Some (bare v)"
| "view_of _ = None"

definition newer :: "service_view list option \<Rightarrow> service_view list option \<Rightarrow> service_view list option" where
  "newer a b = (case b of None \<Rightarrow> a | Some v \<Rightarrow> Some v)"

definition last_view :: "ev_out list \<Rightarrow> service_view list option" where
  "last_view w = foldl (\<lambda>a x. newer a (view_of x)) None w"

lemma newer_simps [simp]: "newer a None = a" "newer a (Some v) = Some v" "newer None b = b"
  by (simp_all add: newer_def split: option.split)

lemma newer_None [simp]: "newer a b = None \<longleftrightarrow> a = None \<and> b = None"
  by (cases b) auto

lemma newer_assoc [simp]: "newer (newer a b) c = newer a (newer b c)"
  by (cases b; cases c) auto

lemma last_view_Nil [simp]: "last_view [] = None"
  by (simp add: last_view_def)

lemma last_view_append [simp]: "last_view (u @ w) = newer (last_view u) (last_view w)"
  by (induction w rule: rev_induct) (auto simp: last_view_def newer_def split: option.splits)

lemma last_view_single [simp]: "last_view [x] = view_of x"
  by (simp add: last_view_def)

lemma last_view_Cons [simp]: "last_view (x # w) = newer (view_of x) (last_view w)"
  using last_view_append[of "[x]" w] by simp

lemma bare_snapshot [simp]: "bare (snapshot b d) = services_of d"
  by (simp add: bare_def services_of_def snapshot_def serviceViewLocked_def Let_def)

lemma view_of_note [simp]: "\<not> is_state m \<Longrightarrow> view_of (OMsg m) = None"
  by (cases m) (simp_all add: is_state_def)

lemma services_clients [simp]: "services_of (d\<lparr> um_clients := cs \<rparr>) = services_of d"
  by (simp add: services_of_def snapshot_def serviceViewLocked_def snapshotServiceLogs_def Let_def)

lemma services_simps [simp]:
  "services_of (broadcast m d) = services_of d" "services_of (unsubscribe c d) = services_of d"
  "services_of (pop_client c d) = services_of d" "services_of (snd (subscribe d)) = services_of d"
  by (simp_all add: broadcast_def unsubscribe_def pop_client_def subscribe_def Let_def)

section \<open>The invariant\<close>

definition stream_ok :: "ev_sys \<Rightarrow> nat \<Rightarrow> sse_msg list \<Rightarrow> bool" where
  "stream_ok s c q \<longleftrightarrow>
     (case ev_open s c of
        None \<Rightarrow> last_view (map OMsg (q @ ev_pending s)) \<in> {None, Some (services_of (ev_data s))}
      | Some w \<Rightarrow> last_view (w @ map OMsg (q @ ev_pending s)) = Some (services_of (ev_data s)))"

definition ev_ok :: "ev_sys \<Rightarrow> bool" where
  "ev_ok s \<longleftrightarrow> distinct (map fst (um_clients (ev_data s))) \<and>
     (\<forall>c. ev_open s c \<noteq> None \<longrightarrow> c \<in> fst ` set (um_clients (ev_data s))) \<and>
     (\<not> ev_overtaken s \<and> ev_due s = 0 \<longrightarrow>
        last_view (map OMsg (ev_pending s)) \<in> {None, Some (services_of (ev_data s))} \<and>
        (\<forall>(c, q) \<in> set (um_clients (ev_data s)). c \<notin> ev_lost s \<longrightarrow> stream_ok s c q))"


lemma ev_okI:
  assumes "distinct (map fst (um_clients (ev_data s)))"
    and "\<And>c. ev_open s c \<noteq> None \<Longrightarrow> c \<in> fst ` set (um_clients (ev_data s))"
    and "\<not> ev_overtaken s \<Longrightarrow> ev_due s = 0 \<Longrightarrow>
      last_view (map OMsg (ev_pending s)) \<in> {None, Some (services_of (ev_data s))}"
    and "\<And>c q. \<not> ev_overtaken s \<Longrightarrow> ev_due s = 0 \<Longrightarrow> (c, q) \<in> set (um_clients (ev_data s)) \<Longrightarrow>
      c \<notin> ev_lost s \<Longrightarrow> stream_ok s c q"
  shows "ev_ok s"
  using assms unfolding ev_ok_def by blast

lemma ev_okD:
  assumes "ev_ok s"
  shows "distinct (map fst (um_clients (ev_data s)))"
    "ev_open s c \<noteq> None \<Longrightarrow> c \<in> fst ` set (um_clients (ev_data s))"
    "\<not> ev_overtaken s \<Longrightarrow> ev_due s = 0 \<Longrightarrow>
      last_view (map OMsg (ev_pending s)) \<in> {None, Some (services_of (ev_data s))}"
    "\<not> ev_overtaken s \<Longrightarrow> ev_due s = 0 \<Longrightarrow> (c, q) \<in> set (um_clients (ev_data s)) \<Longrightarrow>
      c \<notin> ev_lost s \<Longrightarrow> stream_ok s c q"
  using assms unfolding ev_ok_def by blast+

text \<open>A step that keeps the data as the browsers see it, the messages in sight and the memory of the past.\<close>

lemma stream_frame:
  assumes "stream_ok s c q" "services_of (ev_data t) = services_of (ev_data s)" "ev_open t c = ev_open s c"
    and "map OMsg (p @ ev_pending t) = map OMsg (q @ ev_pending s)"
  shows "stream_ok t c p"
  using assms unfolding stream_ok_def by (simp only:)

lemma connect_eq:
  obtains c where "c \<notin> fst ` set (um_clients (ev_data s))"
    "ev_connect True s = s\<lparr> ev_data := (ev_data s)\<lparr> um_clients := um_clients (ev_data s) @ [(c, [])] \<rparr>,
       ev_lost := ev_lost s - {c} \<rparr>"
proof
  show "Suc (Max (insert 0 (fst ` set (um_clients (ev_data s))))) \<notin> fst ` set (um_clients (ev_data s))"
    by (metis List.finite_set Max_ge Suc_n_not_le_n finite_imageI finite_insert insertI2)
qed (simp add: ev_connect_def subscribe_def Let_def)

lemma connect_ok:
  assumes s: "ev_ok s"
  shows "ev_ok (ev_connect flusher s)"
proof (cases flusher)
  case True
  obtain c where c: "c \<notin> fst ` set (um_clients (ev_data s))"
    and eq: "ev_connect True s = s\<lparr> ev_data := (ev_data s)\<lparr> um_clients := um_clients (ev_data s) @ [(c, [])] \<rparr>,
       ev_lost := ev_lost s - {c} \<rparr>" by (rule connect_eq)
  have unopened: "ev_open s c = None" using ev_okD(2)[OF s, of c] c by blast
  have "ev_ok (ev_connect True s)"
  proof (rule ev_okI)
    fix k q
    assume old: "\<not> ev_overtaken (ev_connect True s)" "ev_due (ev_connect True s) = 0"
      and k: "(k, q) \<in> set (um_clients (ev_data (ev_connect True s)))" "k \<notin> ev_lost (ev_connect True s)"
    show "stream_ok (ev_connect True s) k q"
    proof (cases "k = c")
      case True
      with k c have "q = []" by (auto simp: eq image_iff)
      then show ?thesis using True old ev_okD(3)[OF s] unopened by (simp add: eq stream_ok_def)
    next
      case False
      with k old have "stream_ok s k q" by (intro ev_okD(4)[OF s]) (auto simp: eq)
      then show ?thesis by (rule stream_frame) (simp_all add: eq)
    qed
  qed (use ev_okD(1-3)[OF s] c in \<open>auto simp: eq\<close>)
  then show ?thesis using True by simp
qed (simp add: ev_connect_def s)

lemma close_eq [simp]:
  "ev_overtaken (ev_close c s) = ev_overtaken s" "ev_due (ev_close c s) = ev_due s"
  "ev_pending (ev_close c s) = ev_pending s" "ev_lost (ev_close c s) = ev_lost s"
  "services_of (ev_data (ev_close c s)) = services_of (ev_data s)"
  "um_clients (ev_data (ev_close c s)) = filter (\<lambda>p. fst p \<noteq> c) (um_clients (ev_data s))"
  "ev_open (ev_close c s) k = (if k = c then None else ev_open s k)"
  by (simp_all add: ev_close_def unsubscribe_def)

lemma close_ok:
  assumes s: "ev_ok s"
  shows "ev_ok (ev_close c s)"
proof (rule ev_okI)
  show "distinct (map fst (um_clients (ev_data (ev_close c s))))"
    using ev_okD(1)[OF s] by (simp add: distinct_map_filter)
  show "k \<in> fst ` set (um_clients (ev_data (ev_close c s)))" if "ev_open (ev_close c s) k \<noteq> None" for k
  proof -
    have "k \<noteq> c" "ev_open s k \<noteq> None" using that by (auto split: if_splits)
    with ev_okD(2)[OF s] obtain q where "(k, q) \<in> set (um_clients (ev_data s))" by fastforce
    with \<open>k \<noteq> c\<close> show ?thesis by (auto intro!: image_eqI[of _ _ "(k, q)"])
  qed
  show "stream_ok (ev_close c s) k q"
    if "\<not> ev_overtaken (ev_close c s)" "ev_due (ev_close c s) = 0"
      "(k, q) \<in> set (um_clients (ev_data (ev_close c s)))" "k \<notin> ev_lost (ev_close c s)" for k q
  proof -
    have "stream_ok s k q" by (rule ev_okD(4)[OF s]) (use that in simp_all)
    then show ?thesis by (rule stream_frame) (use that in simp_all)
  qed
qed (use ev_okD(3)[OF s] in simp)


lemma greet_ok:
  assumes s: "ev_ok s" "(c, q) \<in> set (um_clients (ev_data s))" "ev_open s c = None"
  shows "ev_ok (ev_greet now c ok s)"
proof (cases ok)
  case True
  have "ev_ok (ev_greet now c True s)"
  proof (rule ev_okI)
    fix k p
    assume a: "\<not> ev_overtaken (ev_greet now c True s)" "ev_due (ev_greet now c True s) = 0"
      "(k, p) \<in> set (um_clients (ev_data (ev_greet now c True s)))" "k \<notin> ev_lost (ev_greet now c True s)"
    have old: "stream_ok s k p" by (rule ev_okD(4)[OF s(1)]) (use a in \<open>simp_all add: ev_greet_def\<close>)
    show "stream_ok (ev_greet now c True s) k p"
    proof (cases "k = c")
      case True
      then show ?thesis using old s(3) by (auto simp: stream_ok_def ev_greet_def last_view_Cons)
    next
      case False
      from old show ?thesis by (rule stream_frame) (simp_all add: ev_greet_def False)
    qed
  qed (use ev_okD(1-3)[OF s(1)] s(2) in \<open>force simp: ev_greet_def split: if_splits\<close>)+
  then show ?thesis using True by simp
qed (simp add: ev_greet_def close_ok[OF s(1)])

lemma turn_ok:
  assumes s: "ev_ok s" "(c, q) \<in> set (um_clients (ev_data s))" "ev_open s c = Some w"
  shows "ev_ok (ev_turn c w q e s)"
proof -
  have beat: "ev_ok (s\<lparr> ev_open := (ev_open s)(c \<mapsto> w @ [OPing]) \<rparr>)" (is "ev_ok ?t")
  proof (rule ev_okI)
    show "stream_ok ?t k p"
      if "\<not> ev_overtaken ?t" "ev_due ?t = 0" "(k, p) \<in> set (um_clients (ev_data ?t))" "k \<notin> ev_lost ?t" for k p
    proof -
      have "stream_ok s k p" by (rule ev_okD(4)[OF s(1)]) (use that in simp_all)
      then show ?thesis using s(3) by (cases "k = c") (auto simp: stream_ok_def split: option.splits)
    qed
  qed (use ev_okD(1-3)[OF s(1)] s(2) in \<open>force split: if_splits\<close>)+
  let ?p = "s\<lparr> ev_data := pop_client c (ev_data s) \<rparr>"
  have msg: "ev_ok (?p\<lparr> ev_open := (ev_open s)(c \<mapsto> w @ [OMsg m]) \<rparr>)" (is "ev_ok ?t") if q: "q = m # r" for m r
  proof (rule ev_okI)
    show "distinct (map fst (um_clients (ev_data ?t)))"
      using ev_okD(1)[OF s(1)] by (simp add: pop_client_def case_prod_beta comp_def)
    show "k \<in> fst ` set (um_clients (ev_data ?t))" if "ev_open ?t k \<noteq> None" for k
    proof -
      have "k \<in> fst ` set (um_clients (ev_data s))"
        using that ev_okD(2)[OF s(1), of k] s(2) by (force split: if_splits)
      then show ?thesis by (simp add: pop_client_def case_prod_beta image_image)
    qed
    show "stream_ok ?t k p"
      if a: "\<not> ev_overtaken ?t" "ev_due ?t = 0" "(k, p) \<in> set (um_clients (ev_data ?t))" "k \<notin> ev_lost ?t" for k p
    proof -
      from a(3) obtain p0 where p0: "(k, p0) \<in> set (um_clients (ev_data s))" "p = (if k = c then tl p0 else p0)"
        by (auto simp: pop_client_def)
      have old: "stream_ok s k p0" by (rule ev_okD(4)[OF s(1)]) (use a p0(1) in simp_all)
      show ?thesis
      proof (cases "k = c")
        case True
        then have "p0 = m # r" using p0(1) s(2) ev_okD(1)[OF s(1)] q by (auto dest: eq_key_imp_eq_value)
        then show ?thesis using old s(3) p0(2) True by (simp add: stream_ok_def last_view_Cons)
      next
        case False
        from old show ?thesis by (rule stream_frame) (simp_all add: False p0(2))
      qed
    qed
  qed (use ev_okD(3)[OF s(1)] in simp)
  have "map (\<lambda>(k, q). (k, if k = c then tl q else q)) (filter (\<lambda>x. fst x \<noteq> c) (um_clients (ev_data s)))
      = filter (\<lambda>x. fst x \<noteq> c) (um_clients (ev_data s))"
    by (rule map_idI) auto
  then have close: "ev_close c ?p = ev_close c s"
    by (simp add: ev_close_def unsubscribe_def pop_client_def filter_map comp_def case_prod_beta)
  show ?thesis
    using beat msg close_ok[OF s(1), of c] close s(1)
    by (cases e) (auto simp: ev_turn_def Let_def split: list.split)
qed

lemma change_ok: "ev_ok s \<Longrightarrow> um_clients d = um_clients (ev_data s) \<Longrightarrow> ev_ok (s\<lparr> ev_data := d, ev_due := Suc (ev_due s) \<rparr>)"
  by (simp add: ev_ok_def)

lemma quiet_ok:
  "ev_ok s \<Longrightarrow> um_clients d = um_clients (ev_data s) \<Longrightarrow> services_of d = services_of (ev_data s) \<Longrightarrow>
   ev_ok (s\<lparr> ev_data := d, ev_check := k \<rparr>)"
  by (auto simp: ev_ok_def stream_ok_def split: option.splits)

lemma prepare_ok: "ev_ok s \<Longrightarrow> ev_ok (ev_prepare s)"
  by (auto simp: ev_ok_def stream_ok_def ev_prepare_def split: option.split)

lemma note_ok: "ev_ok s \<Longrightarrow> \<not> is_state m \<Longrightarrow> ev_ok (s\<lparr> ev_pending := ev_pending s @ [m] \<rparr>)"
  by (auto simp: ev_ok_def stream_ok_def split: option.splits)

lemma send_ok:
  assumes s: "ev_ok s" "i < length (ev_pending s)"
  shows "ev_ok (ev_send i s)"
proof (cases "i = 0")
  case True
  obtain m r where p: "ev_pending s = m # r" using s(2) True by (cases "ev_pending s") auto
  have clients: "um_clients (ev_data (ev_send 0 s)) =
      map (\<lambda>(c, q). (c, if length q < sse_buffer then q @ [m] else q)) (um_clients (ev_data s))"
    by (simp add: ev_send_def broadcast_def p)
  have "ev_ok (ev_send 0 s)"
  proof (rule ev_okI)
    show "distinct (map fst (um_clients (ev_data (ev_send 0 s))))"
      using ev_okD(1)[OF s(1)] by (simp add: clients case_prod_beta comp_def)
    show "k \<in> fst ` set (um_clients (ev_data (ev_send 0 s)))" if "ev_open (ev_send 0 s) k \<noteq> None" for k
    proof -
      have "fst ` set (um_clients (ev_data (ev_send 0 s))) = fst ` set (um_clients (ev_data s))"
        by (simp add: clients case_prod_beta image_image)
      then show ?thesis using ev_okD(2)[OF s(1), of k] that by (simp add: ev_send_def)
    qed
    show "last_view (map OMsg (ev_pending (ev_send 0 s))) \<in> {None, Some (services_of (ev_data (ev_send 0 s)))}"
      if "\<not> ev_overtaken (ev_send 0 s)" "ev_due (ev_send 0 s) = 0"
      using ev_okD(3)[OF s(1)] that
      by (cases "last_view (map OMsg r)") (auto simp: ev_send_def p last_view_Cons)
    show "stream_ok (ev_send 0 s) k q"
      if a: "\<not> ev_overtaken (ev_send 0 s)" "ev_due (ev_send 0 s) = 0"
        "(k, q) \<in> set (um_clients (ev_data (ev_send 0 s)))" "k \<notin> ev_lost (ev_send 0 s)" for k q
    proof -
      from a(3) obtain q0 where q0: "(k, q0) \<in> set (um_clients (ev_data s))"
        "q = (if length q0 < sse_buffer then q0 @ [m] else q0)" by (auto simp: clients)
      have room: "length q0 < sse_buffer" using a(4) q0(1) by (auto simp: ev_send_def)
      have "stream_ok s k q0" by (rule ev_okD(4)[OF s(1)]) (use a q0(1) in \<open>simp_all add: ev_send_def\<close>)
      then show ?thesis by (rule stream_frame) (simp_all add: ev_send_def p q0(2) room)
    qed
  qed
  then show ?thesis using True by simp
next
  case False
  have clients: "map fst (um_clients (ev_data (ev_send i s))) = map fst (um_clients (ev_data s))"
    by (simp add: ev_send_def broadcast_def case_prod_beta comp_def)
  then have "fst ` set (um_clients (ev_data (ev_send i s))) = fst ` set (um_clients (ev_data s))"
    by (metis list.set_map)
  then show ?thesis
    using ev_okD(1,2)[OF s(1)] clients False by (intro ev_okI) (simp_all add: ev_send_def)
qed

lemma ev_step_ok: "ev_step s s' \<Longrightarrow> ev_ok s \<Longrightarrow> ev_ok s'"
  by (erule ev_stepE)
     (simp_all add: connect_ok greet_ok turn_ok change_ok quiet_ok prepare_ok note_ok send_ok)

lemma ev_reach_ok: "ev_reach s \<Longrightarrow> ev_ok s"
proof (induction rule: ev_reach.induct)
  case (init s)
  then show ?case by (simp add: ev_ok_def)
qed (rule ev_step_ok)


section \<open>Properties\<close>


text \<open>A run in which one goroutine takes its snapshot, another changes the service and is first at the hub.\<close>

definition ev_at :: "svc_status \<Rightarrow> nat \<Rightarrow> sse_msg list \<Rightarrow> (nat \<times> sse_msg list) list \<Rightarrow> ev_out list option \<Rightarrow> bool \<Rightarrow> ev_sys" where
  "ev_at st due ps cs w ot = \<lparr> ev_data = (demo_at st Map.empty)\<lparr> um_clients := cs \<rparr>, ev_due = due, ev_pending = ps,
     ev_open = (case w of None \<Rightarrow> Map.empty | Some x \<Rightarrow> [1 \<mapsto> x]),
     ev_check = \<lparr> uk_checking = True, uk_checkedAt = None,
       uk_cache = \<lparr> uc_Latest = [], uc_Body = [], uc_DownloadURL = [] \<rparr> \<rparr>, ev_lost = {}, ev_overtaken = ot \<rparr>"

definition ev_msg :: "svc_status \<Rightarrow> sse_msg" where
  "ev_msg st = SseState (snapshot False (demo_at st Map.empty))"

definition ev_hello :: ev_out where
  "ev_hello = OSnapshot (snapshot True (demo_at Detecting Map.empty))"

lemma snapshot_clients [simp]: "snapshot b (d\<lparr> um_clients := cs \<rparr>) = snapshot b d"
  by (simp add: snapshot_def serviceViewLocked_def snapshotServiceLogs_def Let_def)

lemma ev_at_connected: "ev_reach (ev_at Detecting 0 [] [(1, [])] (Some [ev_hello]) False)"
proof -
  have "ev_reach (ev_at Detecting 0 [] [] None False)" by (rule ev_reach.init) (simp_all add: ev_at_def)
  then have "ev_reach (ev_connect True (ev_at Detecting 0 [] [] None False))"
    by (rule ev_reach.step[OF _ ev_step.connect])
  moreover have "ev_connect True (ev_at Detecting 0 [] [] None False) = ev_at Detecting 0 [] [(1, [])] None False"
    by (simp add: ev_connect_def subscribe_def ev_at_def)
  ultimately have "ev_reach (ev_at Detecting 0 [] [(1, [])] None False)" by simp
  then have "ev_reach (ev_greet 0 1 True (ev_at Detecting 0 [] [(1, [])] None False))"
    by (rule ev_reach.step[OF _ ev_step.greet[where q = "[]"]]) (simp_all add: ev_at_def)
  moreover have "ev_greet 0 1 True (ev_at Detecting 0 [] [(1, [])] None False) =
      ev_at Detecting 0 [] [(1, [])] (Some [ev_hello]) False"
    by (simp add: ev_greet_def TriggerUpgradeCheck_def runUpgradeCheck_def ev_at_def ev_hello_def)
  ultimately show ?thesis by simp
qed

lemma ev_at_change:
  assumes "ev_reach (ev_at st 0 ps cs w ot)"
  shows "ev_reach (ev_at st' 0 (ps @ [ev_msg st']) cs w ot)"
proof -
  have "ev_reach (ev_at st' 1 ps cs w ot)"
    using ev_reach.step[OF assms ev_step.change[of "(demo_at st' Map.empty)\<lparr> um_clients := cs \<rparr>"]]
    by (simp add: ev_at_def)
  then have "ev_reach (ev_prepare (ev_at st' 1 ps cs w ot))"
    by (rule ev_reach.step[OF _ ev_step.prepare]) (simp add: ev_at_def)
  then show ?thesis by (simp add: ev_prepare_def ev_at_def ev_msg_def)
qed

lemma ev_at_send:
  assumes "ev_reach (ev_at st due ps [(1, q)] w ot)" "i < length ps" "length q < sse_buffer"
  shows "ev_reach (ev_at st due (take i ps @ drop (Suc i) ps) [(1, q @ [ps ! i])] w (ot \<or> i \<noteq> 0))"
  using ev_reach.step[OF assms(1) ev_step.send[of i]] assms(2,3)
  by (simp add: ev_at_def ev_send_def broadcast_def)

lemma ev_at_receive:
  assumes "ev_reach (ev_at st due ps [(1, m # q)] (Some w) ot)"
  shows "ev_reach (ev_at st due ps [(1, q)] (Some (w @ [OMsg m])) ot)"
  using ev_reach.step[OF assms ev_step.turn[of 1 "m # q" _ w "EvMsg True"]]
  by (simp add: ev_at_def ev_turn_def pop_client_def)


text \<open>The condition is needed: \<open>broadcastState\<close> takes its snapshot before it waits for the hub, so of two
  changes the older state can be handed over last. Then everything is delivered, nothing was dropped, no
  change is on its way, and the browser goes on showing a state the program is no longer in.\<close>

theorem overtaken_broadcast_shows_old_state:
  "\<exists>s w. ev_reach s \<and> um_clients (ev_data s) = [(1, [])] \<and> ev_open s 1 = Some w \<and> ev_due s = 0 \<and>
     ev_pending s = [] \<and> ev_lost s = {} \<and> last_view w \<noteq> Some (services_of (ev_data s))"
proof -
  let ?w = "[ev_hello, OMsg (ev_msg ConnectingNAT4), OMsg (ev_msg Idle)]"
  have "ev_reach (ev_at ConnectingNAT4 0 [ev_msg Idle, ev_msg ConnectingNAT4] [(1, [])] (Some [ev_hello]) False)"
    using ev_at_change[OF ev_at_change[OF ev_at_connected]] by fastforce
  from ev_at_send[OF this, of 1]
  have "ev_reach (ev_at ConnectingNAT4 0 [ev_msg Idle] [(1, [ev_msg ConnectingNAT4])] (Some [ev_hello]) True)"
    by (simp add: sse_buffer_def)
  from ev_at_send[OF this, of 0]
  have "ev_reach (ev_at ConnectingNAT4 0 [] [(1, [ev_msg ConnectingNAT4, ev_msg Idle])] (Some [ev_hello]) True)"
    by (simp add: sse_buffer_def)
  from ev_at_receive[OF ev_at_receive[OF this]]
  have "ev_reach (ev_at ConnectingNAT4 0 [] [(1, [])] (Some ?w) True)" by simp
  moreover have "services_of (demo_at Idle Map.empty) \<noteq> services_of (demo_at ConnectingNAT4 Map.empty)"
    by (simp add: services_of_def snapshot_def serviceViewLocked_def new_service_def Let_def)
  then have "last_view ?w \<noteq> Some (services_of (ev_data (ev_at ConnectingNAT4 0 [] [(1, [])] (Some ?w) True)))"
    by (simp add: ev_at_def ev_msg_def)
  ultimately show ?thesis
    by (intro exI[of _ "ev_at ConnectingNAT4 0 [] [(1, [])] (Some ?w) True"] exI[of _ ?w]) (simp add: ev_at_def)
qed

end
