(* ===== verification/Session_Setup.thy ===== *)
theory Session_Setup
  imports Session_Proto Upnp_Client
begin

text \<open>
  What surrounds the sessions of \<open>Session_Proto\<close>: \<open>Init\<close> of \<open>pro/comm.go\<close> (which Redis server, and the clearing
  of old port mappings), and of \<open>pro/remote.go\<close> the life of a connection that is served, with the port
  the router forwards for it. The hash of the key, the Redis client and creating a tunnel are outside.
\<close>

section \<open>Init\<close>

record redis_args =
  ra_addr :: string
  ra_tls_addr :: string
  ra_pass :: string
  ra_id :: int

record redis_file =
  rf_Addr :: string
  rf_TlsAddr :: string
  rf_Passwd :: string
  rf_ID :: int

record tls_config =
  tc_InsecureSkipVerify :: bool
  tc_ClientCert :: bool

record redis_options =
  ro_Addr :: string
  ro_Password :: string
  ro_DB :: int
  ro_TLSConfig :: "tls_config option"
  ro_timeout :: nat

definition redis_options_of :: "redis_args \<Rightarrow> redis_file \<Rightarrow> redis_options" where
  "redis_options_of a f =
     (let tls = Some \<lparr> tc_InsecureSkipVerify = True, tc_ClientCert = False \<rparr>;
          opts = (\<lambda>addr pass db t. \<lparr> ro_Addr = addr, ro_Password = pass, ro_DB = db, ro_TLSConfig = t, ro_timeout = 5 \<rparr>)
      in if ra_addr a = [] \<and> ra_tls_addr a = [] then
           (if rf_TlsAddr f \<noteq> [] then opts (rf_TlsAddr f) (rf_Passwd f) (rf_ID f) tls
            else opts (rf_Addr f) (rf_Passwd f) (rf_ID f) None)
         else if ra_tls_addr a \<noteq> [] then opts (ra_tls_addr a) (ra_pass a) (ra_id a) tls
         else opts (ra_addr a) (ra_pass a) (ra_id a) None)"

record pro_state =
  pr_redis :: "redis_options option"
  pr_tun_key :: string
  pr_md5_tun_key :: string
  pr_upnp :: upnp
  pr_svc :: "ui_service option"

text \<open>\<open>client\<close>: the library returns a client. The result of the UPnP set-up is not looked at.\<close>

definition pro_Init ::
  "(string \<Rightarrow> string) \<Rightarrow> bool \<Rightarrow> 'w upnp_lib \<Rightarrow> string option \<Rightarrow> (ip option \<times> string) list list \<Rightarrow> (nat \<Rightarrow> bool)
     \<Rightarrow> (nat \<Rightarrow> bool) \<Rightarrow> redis_args \<Rightarrow> redis_file \<Rightarrow> ui_service \<Rightarrow> pro_state \<Rightarrow> 'w \<Rightarrow> bool \<times> pro_state \<times> 'w" where
  "pro_Init md5 client lib localIP sockets late_get late_del args cfg svc p w =
     (let p1 = p\<lparr> pr_svc := Some svc, pr_tun_key := uv_TunKey svc, pr_md5_tun_key := md5 (uv_TunKey svc) \<rparr>
      in if \<not> client then (False, p1\<lparr> pr_redis := None \<rparr>, w)
         else let p2 = p1\<lparr> pr_redis := Some (redis_options_of args cfg) \<rparr> in
           case upnp_Init lib localIP sockets ((pr_upnp p2)\<lparr> up_Description := ''goodlink-'' @ uv_ID svc \<rparr>) w of
             (e, u, w1) \<Rightarrow>
               (case CleanMappings lib late_get late_del u w1 of
                  (n, w2) \<Rightarrow> (True, p2\<lparr> pr_upnp := u \<rparr>, w2)))"

text \<open>Arguments on the command line win over the downloaded file, and an address with TLS over one without.\<close>

lemma redis_options_choice:
  "ro_TLSConfig (redis_options_of a f) \<noteq> None \<longleftrightarrow>
     ra_tls_addr a \<noteq> [] \<or> ra_addr a = [] \<and> rf_TlsAddr f \<noteq> []"
  "ra_addr a \<noteq> [] \<or> ra_tls_addr a \<noteq> [] \<Longrightarrow> ro_Addr (redis_options_of a f) \<in> {ra_addr a, ra_tls_addr a} - {[]} \<and>
     ro_Password (redis_options_of a f) = ra_pass a \<and> ro_DB (redis_options_of a f) = ra_id a"
  by (auto simp: redis_options_of_def Let_def)

text \<open>The certificate of the server is never looked at, with or without arguments.\<close>

lemma redis_tls_unverified:
  "ro_TLSConfig (redis_options_of a f) = Some t \<Longrightarrow> tc_InsecureSkipVerify t"
  by (auto simp: redis_options_of_def Let_def split: if_splits)

section \<open>Served connections\<close>

text \<open>\<open>Release\<close>: what is closed, in this order.\<close>

datatype resource = TunActiveRes | TunPassiveRes | UdpConnRes

definition Release :: "bool \<Rightarrow> bool \<Rightarrow> bool \<Rightarrow> resource list" where
  "Release active passive udp =
     (if active then [TunActiveRes] else []) @ (if passive then [TunPassiveRes] else []) @ (if udp then [UdpConnRes] else [])"

text \<open>
  \<open>handleConnection\<close> after the health check has ended: the session is closed, then its port is given back in
  two steps, each under the lock of the UPnP client. \<open>udpPort\<close> is the local port, \<open>None\<close> when the
  address is not a UDP address.
\<close>

record port_sys =
  pt_upnp :: upnp
  pt_log :: "http_call list"
  pt_live :: "int list"
  pt_ending :: "int list"

definition conn_port :: "int option \<Rightarrow> int" where
  "conn_port udpPort = (case udpPort of Some p \<Rightarrow> p | None \<Rightarrow> 0)"

definition handleConnection_unkeep :: "int \<Rightarrow> port_sys \<Rightarrow> port_sys" where
  "handleConnection_unkeep p s =
     s\<lparr> pt_upnp := RemoveKeepPort p (pt_upnp s), pt_live := remove1 p (pt_live s), pt_ending := p # pt_ending s \<rparr>"

definition handleConnection_unmap :: "http_call list upnp_lib \<Rightarrow> int \<Rightarrow> port_sys \<Rightarrow> port_sys" where
  "handleConnection_unmap lib p s =
     s\<lparr> pt_log := snd (DelPortMapping lib p ''udp'' (pt_upnp s) (pt_log s)), pt_ending := remove1 p (pt_ending s) \<rparr>"

text \<open>
  The interleavings. A tunnel that gets a port keeps it before it is served; a port belongs to one socket
  until \<open>Release\<close>, so it is not in use by an earlier connection. The clearing of \<open>processSession\<close> runs whenever
  it likes.
\<close>

inductive port_step :: "http_call list upnp_lib \<Rightarrow> port_sys \<Rightarrow> port_sys \<Rightarrow> bool" for lib where
  connected: "p \<notin> set (pt_live s) \<union> set (pt_ending s) \<Longrightarrow>
    port_step lib s (s\<lparr> pt_upnp := AddKeepPort p (pt_upnp s), pt_live := p # pt_live s \<rparr>)"
| cleaned: "port_step lib s (s\<lparr> pt_log := snd (CleanMappings lib late_get late_del (pt_upnp s) (pt_log s)) \<rparr>)"
| unkept: "p \<in> set (pt_live s) \<Longrightarrow> port_step lib s (handleConnection_unkeep p s)"
| unmapped: "p \<in> set (pt_ending s) \<Longrightarrow> port_step lib s (handleConnection_unmap lib p s)"

inductive_cases port_stepE: "port_step lib s s'"

inductive port_reach :: "http_call list upnp_lib \<Rightarrow> port_sys \<Rightarrow> bool" for lib where
  init: "pt_live s = [] \<Longrightarrow> pt_ending s = [] \<Longrightarrow> port_reach lib s"
| step: "port_reach lib s \<Longrightarrow> port_step lib s s' \<Longrightarrow> port_reach lib s'"

definition port_ok :: "port_sys \<Rightarrow> bool" where
  "port_ok s \<longleftrightarrow> set (pt_live s) \<subseteq> set (up_KeepPorts (pt_upnp s)) \<and> distinct (pt_live s @ pt_ending s)"

lemma keep_ports [simp]:
  "set (up_KeepPorts (AddKeepPort p u)) = insert p (set (up_KeepPorts u))"
  "set (up_KeepPorts (RemoveKeepPort p u)) = set (up_KeepPorts u) - {p}"
  by (auto simp: AddKeepPort_def RemoveKeepPort_def)

lemma port_step_ok: "port_step lib s s' \<Longrightarrow> port_ok s \<Longrightarrow> port_ok s'"
  by (erule port_stepE)
     (auto simp: port_ok_def handleConnection_unkeep_def handleConnection_unmap_def set_remove1_eq
           dest: in_set_remove1 [THEN iffD1, rotated] intro: distinct_remove1 dest: notin_set_remove1)

lemma port_reach_ok: "port_reach lib s \<Longrightarrow> port_ok s"
proof (induction rule: port_reach.induct)
  case (init s)
  then show ?case by (simp add: port_ok_def)
qed (rule port_step_ok)


text \<open>
  A port that is served keeps its mapping: whatever runs at the same time, every request sent to the router
  reads an entry or deletes the mapping of a port that no connection is being served on.
\<close>

lemma unmap_requests:
  assumes "up_Gateway u = Some g" "IsValid u" "ul_http lib = recorded srv"
  shows "\<exists>calls. snd (DelPortMapping lib p ''udp'' u log) = log @ calls \<and>
    set calls \<subseteq> {del_call u g (empty_entry\<lparr> me_ExternalPort := p, me_Protocol := ''udp'' \<rparr>)}"
proof -
  let ?e = "empty_entry\<lparr> me_ExternalPort := p, me_Protocol := ''udp'' \<rparr>"
  have udp: "normalizeProtocol ''udp'' = ''UDP''" "normalizeProtocol ''UDP'' = ''UDP''" by code_simp+
  have same: "DelPortMapping lib p ''udp'' u log = DelPortMapping lib p ''UDP'' u log"
    by (simp add: DelPortMapping_def DelPortMapping_Send_def udp)
  show ?thesis
  proof (cases "validPort p")
    case True
    obtain err log' where d: "DelPortMapping lib p ''UDP'' u log = (err, log')" by (metis surj_pair)
    have "deletable ?e" using True by (simp add: deletable_def udp)
    from DelPortMapping_recorded[OF assms this, of log err log'] d
    have "log' = (if validServiceType (gw_ServiceType g) then log @ [del_call u g ?e] else log)" by (simp add: udp)
    then show ?thesis
      by (intro exI[of _ "if validServiceType (gw_ServiceType g) then [del_call u g ?e] else []"]) (simp add: same d)
  next
    case False
    then show ?thesis by (intro exI[of _ "[]"]) (simp add: DelPortMapping_def DelPortMapping_Send_def Let_def)
  qed
qed

theorem served_port_stays_mapped:
  assumes "port_reach lib s" "port_step lib s s'" "up_Gateway (pt_upnp s) = Some g" "IsValid (pt_upnp s)"
    and "ul_http lib = recorded srv"
  shows "\<exists>calls. pt_log s' = pt_log s @ calls \<and>
    (\<forall>c \<in> set calls. (\<exists>k. c = get_call (pt_upnp s) g k) \<or>
       (\<exists>e. c = del_call (pt_upnp s) g e \<and> me_ExternalPort e \<notin> set (pt_live s)))"
  using assms(2)
proof cases
  case (cleaned late_get late_del)
  obtain n log' where c: "CleanMappings lib late_get late_del (pt_upnp s) (pt_log s) = (n, log')" by (metis surj_pair)
  obtain gets dels es where r: "log' = pt_log s @ gets @ dels"
    "gets = map (get_call (pt_upnp s) g) [0..<length gets]"
    "prefix dels (map (del_call (pt_upnp s) g) (filter (\<lambda>e. own_unkept (pt_upnp s) e \<and> deletable e) es))"
    using clean_requests[OF assms(3-5) c] by blast
  have live: "set (pt_live s) \<subseteq> set (up_KeepPorts (pt_upnp s))"
    using port_reach_ok[OF assms(1)] by (simp add: port_ok_def)
  have "\<exists>k. x = get_call (pt_upnp s) g k" if "x \<in> set gets" for x
  proof -
    have "x \<in> set (map (get_call (pt_upnp s) g) [0..<length gets])" using that r(2) by simp
    then show ?thesis by auto
  qed
  moreover have "\<exists>e. x = del_call (pt_upnp s) g e \<and> me_ExternalPort e \<notin> set (pt_live s)" if x: "x \<in> set dels" for x
  proof -
    obtain e where "x = del_call (pt_upnp s) g e" "own_unkept (pt_upnp s) e"
      using x set_mono_prefix[OF r(3)] by auto
    then show ?thesis using live by (auto simp: own_unkept_def)
  qed
  ultimately show ?thesis
    using cleaned c r(1) by (intro exI[of _ "gets @ dels"]) auto
next
  case (unmapped p)
  have "p \<notin> set (pt_live s)" using port_reach_ok[OF assms(1)] unmapped by (auto simp: port_ok_def)
  moreover obtain calls where "snd (DelPortMapping lib p ''udp'' (pt_upnp s) (pt_log s)) = pt_log s @ calls"
    "set calls \<subseteq> {del_call (pt_upnp s) g (empty_entry\<lparr> me_ExternalPort := p, me_Protocol := ''udp'' \<rparr>)}"
    using unmap_requests[OF assms(3-5), of p "pt_log s"] by blast
  ultimately show ?thesis
    using unmapped
    by (intro exI[of _ calls] conjI ballI disjI2
          exI[of _ "empty_entry\<lparr> me_ExternalPort := p, me_Protocol := ''udp'' \<rparr>"])
       (auto simp: handleConnection_unmap_def)
qed (simp_all add: handleConnection_unkeep_def)

end
