(* ===== verification/Windows_Net.thy ===== *)
theory Windows_Net
  imports Netstack_Setup
begin

text \<open>
  The adapter on Windows: the library \<open>winipcfg\<close> (socket addresses in \<open>types.go\<close>, the operations on an
  interface in \<open>luid.go\<close>, the fallback over \<open>netsh\<close> in \<open>netsh.go\<close>, the growing buffer of \<open>winipcfg.go\<close>) and
  what \<open>netstack/setup_windows.go\<close> and \<open>tun_windows.go\<close> make of it. The system calls are the operations of a
  record over a world of any type; laws about them are hypotheses where a theorem needs them. Members
  of the system's rows that the code never names are left out.
\<close>

section \<open>Addresses\<close>

text \<open>\<open>netip.Addr\<close>: the zero value, four octets, or sixteen with a zone.\<close>

datatype net_addr = NoAddr | Addr4 bytes | Addr6 bytes string

type_synonym net_prefix = "net_addr \<times> int"

definition AF_UNSPEC :: u16 where "AF_UNSPEC = 0"
definition AF_INET :: u16 where "AF_INET = 2"
definition AF_INET6 :: u16 where "AF_INET6 = 23"

lemmas af_defs = AF_UNSPEC_def AF_INET_def AF_INET6_def

definition addr_family :: "net_addr \<Rightarrow> u16" where
  "addr_family a = (case a of NoAddr \<Rightarrow> AF_UNSPEC | Addr4 _ \<Rightarrow> AF_INET | Addr6 _ _ \<Rightarrow> AF_INET6)"

definition bit_len :: "net_addr \<Rightarrow> int" where
  "bit_len a = (case a of NoAddr \<Rightarrow> 0 | Addr4 _ \<Rightarrow> 32 | Addr6 _ _ \<Rightarrow> 128)"

definition without_zone :: "net_addr \<Rightarrow> net_addr" where
  "without_zone a = (case a of Addr6 b _ \<Rightarrow> Addr6 b [] | _ \<Rightarrow> a)"

text \<open>\<open>netip.PrefixFrom\<close>: -1 stands for a length that does not fit.\<close>

definition prefix_from :: "net_addr \<Rightarrow> int \<Rightarrow> net_prefix" where
  "prefix_from a bits = (without_zone a, if a \<noteq> NoAddr \<and> 0 \<le> bits \<and> bits \<le> bit_len a then bits else -1)"

definition parse_uint32 :: "string \<Rightarrow> nat option" where
  "parse_uint32 z =
     (if z = [] \<or> \<not> list_all is_digit z \<or> digits_val z \<ge> 2 ^ 32 then None else Some (digits_val z))"

section \<open>Socket addresses\<close>

datatype win_err = InvalidParameter | ProtocolUnreachable | ProcNotFound | BufferOverflow | NoTcpIpInterface | NetshSays string | OsErr nat

record sockaddr_inet =
  sa_Family :: u16
  sa_data :: bytes

text \<open>The machine's order, lowest octet first; ports are stored highest octet first.\<close>

definition le_put32 :: "nat \<Rightarrow> bytes" where
  "le_put32 n = [of_nat n, of_nat (n div 256), of_nat (n div 65536), of_nat (n div 16777216)]"

definition le_get32 :: "bytes \<Rightarrow> nat" where
  "le_get32 b = unat (b ! 0) + 256 * unat (b ! 1) + 65536 * unat (b ! 2) + 16777216 * unat (b ! 3)"

text \<open>The IPv4 form is sixteen of the twenty-eight octets, family included; the rest of the buffer stays.\<close>

definition SetAddrPort :: "net_addr \<Rightarrow> u16 \<Rightarrow> sockaddr_inet \<Rightarrow> win_err option \<times> sockaddr_inet" where
  "SetAddrPort a port s =
     (case a of
        Addr4 b \<Rightarrow>
          (None, s\<lparr> sa_Family := AF_INET, sa_data := put_u16 port @ b @ replicate 8 0 @ drop 14 (sa_data s) \<rparr>)
      | Addr6 b z \<Rightarrow>
          (let scope = (if z \<noteq> [] then (case parse_uint32 z of Some n \<Rightarrow> n | None \<Rightarrow> 0) else 0)
           in (None, s\<lparr> sa_Family := AF_INET6, sa_data := put_u16 port @ replicate 4 0 @ b @ le_put32 scope \<rparr>))
      | NoAddr \<Rightarrow> (Some InvalidParameter, s))"

definition SetAddr :: "net_addr \<Rightarrow> sockaddr_inet \<Rightarrow> win_err option \<times> sockaddr_inet" where
  "SetAddr a = SetAddrPort a 0"

definition sa_Addr :: "sockaddr_inet \<Rightarrow> net_addr" where
  "sa_Addr s =
     (if sa_Family s = AF_INET then Addr4 (take 4 (drop 2 (sa_data s)))
      else if sa_Family s = AF_INET6 then
        (let b = take 16 (drop 6 (sa_data s)); scope = le_get32 (take 4 (drop 22 (sa_data s)))
         in Addr6 b (if scope \<noteq> 0 then dec_nat scope else []))
      else NoAddr)"

definition sa_Port :: "sockaddr_inet \<Rightarrow> u16" where
  "sa_Port s =
     (if sa_Family s = AF_INET \<or> sa_Family s = AF_INET6 then get_u16 (sa_data s ! 0) (sa_data s ! 1) else 0)"

definition AddrPort :: "sockaddr_inet \<Rightarrow> net_addr \<times> u16" where
  "AddrPort s = (sa_Addr s, sa_Port s)"

record ip_prefix =
  ipf_Raw :: sockaddr_inet
  ipf_Length :: u8

definition SetPrefix :: "net_prefix \<Rightarrow> ip_prefix \<Rightarrow> win_err option \<times> ip_prefix" where
  "SetPrefix np p =
     (case SetAddr (fst np) (ipf_Raw p) of
        (Some e, raw) \<Rightarrow> (Some e, p\<lparr> ipf_Raw := raw \<rparr>)
      | (None, raw) \<Rightarrow> (None, p\<lparr> ipf_Raw := raw, ipf_Length := of_int (snd np) \<rparr>))"

definition Prefix :: "ip_prefix \<Rightarrow> net_prefix" where
  "Prefix p =
     (let s = ipf_Raw p in
      if sa_Family s = AF_INET then prefix_from (Addr4 (take 4 (drop 2 (sa_data s)))) (int (unat (ipf_Length p)))
      else if sa_Family s = AF_INET6 then prefix_from (Addr6 (take 16 (drop 6 (sa_data s))) []) (int (unat (ipf_Length p)))
      else (NoAddr, -1))"

section \<open>What comes back\<close>

text \<open>Octet counts are part of the types in the code. A zone survives as the number it is, other zones do not.\<close>

definition valid_addr :: "net_addr \<Rightarrow> bool" where
  "valid_addr a \<longleftrightarrow> (case a of NoAddr \<Rightarrow> False | Addr4 b \<Rightarrow> length b = 4 | Addr6 b _ \<Rightarrow> length b = 16)"

definition valid_prefix :: "net_prefix \<Rightarrow> bool" where
  "valid_prefix np \<longleftrightarrow> valid_addr (fst np) \<and> (snd np = -1 \<or> 0 \<le> snd np \<and> snd np \<le> bit_len (fst np))"

definition zone_number :: "net_addr \<Rightarrow> net_addr" where
  "zone_number a =
     (case a of
        Addr6 b z \<Rightarrow> Addr6 b (case parse_uint32 z of Some n \<Rightarrow> if n = 0 then [] else dec_nat n | None \<Rightarrow> [])
      | _ \<Rightarrow> a)"

lemma le_get_put32: "n < 2 ^ 32 \<Longrightarrow> le_get32 (le_put32 n) = n"
proof -
  assume n: "n < 2 ^ 32"
  have d: "n div 65536 = n div 256 div 256" "n div 16777216 = n div 256 div 256 div 256"
    by (simp_all add: div_mult2_eq[symmetric])
  have "n div 16777216 < 256" using n by (simp add: less_mult_imp_div_less)
  then have c: "n div 256 div 256 div 256 mod 256 = n div 256 div 256 div 256" by (simp add: d(2))
  note m = mod_mult_div_eq[of n 256] mod_mult_div_eq[of "n div 256" 256] mod_mult_div_eq[of "n div 256 div 256" 256]
  have "n mod 256 + 256 * (n div 256 mod 256) + 65536 * (n div 256 div 256 mod 256)
      + 16777216 * (n div 256 div 256 div 256) = n"
    using m by linarith
  then show ?thesis by (simp add: le_get32_def le_put32_def unat_of_nat d c)
qed

lemma length_le_put32 [simp]: "length (le_put32 n) = 4"
  by (simp add: le_put32_def)

lemma parse_uint32_less: "parse_uint32 z = Some n \<Longrightarrow> n < 2 ^ 32"
  by (auto simp: parse_uint32_def split: if_splits)

lemma parse_uint32_dec: "n < 2 ^ 32 \<Longrightarrow> parse_uint32 (dec_nat n) = Some n"
  by (simp add: parse_uint32_def dec_nat_digits)

lemma SetAddrPort_ok:
  assumes "valid_addr a"
  shows "fst (SetAddrPort a p s) = None" "AddrPort (snd (SetAddrPort a p s)) = (zone_number a, p)"
    "sa_Family (snd (SetAddrPort a p s)) = addr_family a"
proof -
  have port: "get_u16 (put_u16 p ! 0) (put_u16 p ! Suc 0) = p" by (simp add: put_u16_def)
  show "fst (SetAddrPort a p s) = None" "sa_Family (snd (SetAddrPort a p s)) = addr_family a"
    using assms by (cases a; simp add: SetAddrPort_def valid_addr_def addr_family_def Let_def)+
  show "AddrPort (snd (SetAddrPort a p s)) = (zone_number a, p)"
  proof (cases a)
    case (Addr6 b z)
    let ?n = "if z \<noteq> [] then (case parse_uint32 z of Some n \<Rightarrow> n | None \<Rightarrow> 0) else 0"
    have "?n < 2 ^ 32" using parse_uint32_less[of z] by (auto split: option.split)
    then have "le_get32 (le_put32 ?n) = ?n" by (rule le_get_put32)
    moreover have "parse_uint32 [] = None" by (simp add: parse_uint32_def)
    ultimately show ?thesis
      using assms Addr6 port
      by (auto simp: SetAddrPort_def AddrPort_def sa_Addr_def sa_Port_def valid_addr_def zone_number_def nth_append
          af_defs Let_def split: option.split)
  qed (use assms port in \<open>auto simp: SetAddrPort_def AddrPort_def sa_Addr_def sa_Port_def valid_addr_def
        zone_number_def nth_append af_defs\<close>)
qed

text \<open>A socket address gives back what was put into it, whatever the buffer held before: the family, the port
  in either order of octets, and the address with a numeric zone below 2^32; a zone that is a name, or
  zero, comes back as none. The length of the buffer does not change.\<close>

theorem sockaddr_roundtrip:
  assumes "valid_addr a" "length (sa_data s) = 26"
  shows "fst (SetAddrPort a p s) = None \<and> AddrPort (snd (SetAddrPort a p s)) = (zone_number a, p) \<and>
    length (sa_data (snd (SetAddrPort a p s))) = 26"
proof -
  have "length (sa_data (snd (SetAddrPort a p s))) = 26"
    using assms by (cases a) (simp_all add: SetAddrPort_def valid_addr_def Let_def)
  then show ?thesis using SetAddrPort_ok[OF assms(1)] by simp
qed

theorem sockaddr_roundtrip_witness:
  "AddrPort (snd (SetAddrPort (Addr6 (replicate 16 1) (dec_nat 7)) 443 \<lparr> sa_Family = 0, sa_data = replicate 26 9 \<rparr>))
     = (Addr6 (replicate 16 1) (dec_nat 7), 443)"
proof -
  have "zone_number (Addr6 (replicate 16 1) (dec_nat 7)) = Addr6 (replicate 16 1) (dec_nat 7)"
    by (simp add: zone_number_def parse_uint32_dec)
  then show ?thesis
    using sockaddr_roundtrip[of "Addr6 (replicate 16 1) (dec_nat 7)" "\<lparr> sa_Family = 0, sa_data = replicate 26 9 \<rparr>" 443]
    by (simp add: valid_addr_def)
qed

text \<open>The comment at \<open>SetAddrPort\<close> says that all other members are set to zero.\<close>

lemma set_addr_keeps_tail: "length b = 4 \<Longrightarrow> drop 14 (sa_data (snd (SetAddr (Addr4 b) s))) = drop 14 (sa_data s)"
  by (simp add: SetAddr_def SetAddrPort_def)

lemma SetPrefix_ok:
  assumes "valid_prefix np"
  shows "fst (SetPrefix np p) = None" "Prefix (snd (SetPrefix np p)) = (without_zone (fst np), snd np)"
proof -
  obtain a bits where np: "np = (a, bits)" by (cases np)
  have len: "int (unat (of_int bits :: u8)) = (if bits = -1 then 255 else bits)"
  proof (cases "bits = -1")
    case False
    then have "0 \<le> bits" "bits \<le> 128"
      using assms by (auto simp: np valid_prefix_def bit_len_def valid_addr_def split: net_addr.splits)
    have "int (unat (of_int bits :: u8)) = uint (of_int bits :: u8)" by simp
    also have "uint (of_int bits :: u8) = bits mod 256" by (simp add: uint_word_of_int)
    finally have "int (unat (of_int bits :: u8)) = bits mod 256" .
    then show ?thesis using \<open>0 \<le> bits\<close> \<open>bits \<le> 128\<close> False by simp
  qed (simp add: unsigned_minus_1_eq_mask mask_eq_exp_minus_1)
  show "fst (SetPrefix np p) = None" "Prefix (snd (SetPrefix np p)) = (without_zone (fst np), snd np)"
    using assms len
    by (cases a; auto simp: np SetPrefix_def SetAddr_def SetAddrPort_def Prefix_def prefix_from_def valid_prefix_def
        valid_addr_def without_zone_def bit_len_def af_defs Let_def)+
qed


section \<open>Rows and tables\<close>

record uip_row =
  ur_Address :: sockaddr_inet
  ur_LUID :: "64 word"
  ur_ValidLifetime :: u32
  ur_PreferredLifetime :: u32
  ur_OnLink :: u8
  ur_Dad :: nat

record fwd_row =
  fr_LUID :: "64 word"
  fr_Dest :: ip_prefix
  fr_NextHop :: sockaddr_inet
  fr_Metric :: u32
  fr_ValidLifetime :: u32
  fr_PreferredLifetime :: u32

record ipif_row =
  ir_Family :: u16
  ir_LUID :: "64 word"
  ir_Index :: nat
  ir_SitePrefixLength :: u32
  ir_Metric :: u32
  ir_NLMTU :: u32
  ir_DadTransmits :: u32
  ir_RouterDiscovery :: nat
  ir_Managed :: bool
  ir_OtherStateful :: bool
  ir_AutoMetric :: bool
  ir_WeakReceive :: bool
  ir_WeakSend :: bool

text \<open>A table of the system: \<open>ot_init\<close> is what its initialising call makes of a zeroed row.\<close>

record ('r, 'w) os_table =
  ot_init :: 'r
  ot_read :: "u16 \<Rightarrow> 'w \<Rightarrow> (win_err + 'r list) \<times> 'w"
  ot_get :: "'r \<Rightarrow> 'w \<Rightarrow> (win_err + 'r) \<times> 'w"
  ot_create :: "'r \<Rightarrow> 'w \<Rightarrow> win_err option \<times> 'w"
  ot_delete :: "'r \<Rightarrow> 'w \<Rightarrow> win_err option \<times> 'w"
  ot_set :: "'r \<Rightarrow> 'w \<Rightarrow> win_err option \<times> 'w"

record 'w win_lib =
  wl_addrs :: "(uip_row, 'w) os_table"
  wl_routes :: "(fwd_row, 'w) os_table"
  wl_ipifs :: "(ipif_row, 'w) os_table"
  wl_guid :: "64 word \<Rightarrow> 'w \<Rightarrow> (win_err + string) \<times> 'w"
  wl_netsh :: "string \<Rightarrow> 'w \<Rightarrow> (win_err option \<times> string) \<times> 'w"
  wl_IpConfig :: "string \<Rightarrow> 'w \<Rightarrow> (win_err + string list) \<times> 'w"
  wl_setDomain :: "string \<Rightarrow> string \<Rightarrow> 'w \<Rightarrow> win_err option \<times> 'w"

definition DadStatePreferred :: nat where "DadStatePreferred = 4"
definition infinite_lifetime :: u32 where "infinite_lifetime = 0xFFFFFFFF"

text \<open>The loops over a list that stop at the first error.\<close>

fun add_all :: "('a \<Rightarrow> 'w \<Rightarrow> win_err option \<times> 'w) \<Rightarrow> 'a list \<Rightarrow> 'w \<Rightarrow> win_err option \<times> 'w" where
  "add_all f [] w = (None, w)"
| "add_all f (x # xs) w =
     (case f x w of (Some e, w1) \<Rightarrow> (Some e, w1) | (None, w1) \<Rightarrow> add_all f xs w1)"

text \<open>Which entries the loops over one family take; any other family takes all.\<close>

definition for_family :: "u16 \<Rightarrow> net_addr \<Rightarrow> bool" where
  "for_family fam a \<longleftrightarrow>
     \<not> (addr_family a \<noteq> AF_INET \<and> fam = AF_INET) \<and> \<not> (addr_family a \<noteq> AF_INET6 \<and> fam = AF_INET6)"

section \<open>Addresses of an interface\<close>

definition AddIPAddress :: "'w win_lib \<Rightarrow> 64 word \<Rightarrow> net_prefix \<Rightarrow> 'w \<Rightarrow> win_err option \<times> 'w" where
  "AddIPAddress lib luid np w =
     (let row = (ot_init (wl_addrs lib))\<lparr> ur_LUID := luid, ur_Dad := DadStatePreferred,
            ur_ValidLifetime := infinite_lifetime, ur_PreferredLifetime := infinite_lifetime \<rparr>
      in case SetAddr (fst np) (ur_Address row) of
           (Some e, _) \<Rightarrow> (Some e, w)
         | (None, sa) \<Rightarrow> ot_create (wl_addrs lib) (row\<lparr> ur_Address := sa, ur_OnLink := of_int (snd np) \<rparr>) w)"

definition AddIPAddresses :: "'w win_lib \<Rightarrow> 64 word \<Rightarrow> net_prefix list \<Rightarrow> 'w \<Rightarrow> win_err option \<times> 'w" where
  "AddIPAddresses lib luid = add_all (AddIPAddress lib luid)"

text \<open>The outcomes of the deletions are ignored.\<close>

definition FlushIPAddresses :: "'w win_lib \<Rightarrow> 64 word \<Rightarrow> u16 \<Rightarrow> 'w \<Rightarrow> win_err option \<times> 'w" where
  "FlushIPAddresses lib luid fam w =
     (case ot_read (wl_addrs lib) fam w of
        (Inl e, w1) \<Rightarrow> (Some e, w1)
      | (Inr t, w1) \<Rightarrow>
          (None, fold (\<lambda>r w. if ur_LUID r = luid then snd (ot_delete (wl_addrs lib) r w) else w) t w1))"

definition SetIPAddresses :: "'w win_lib \<Rightarrow> 64 word \<Rightarrow> net_prefix list \<Rightarrow> 'w \<Rightarrow> win_err option \<times> 'w" where
  "SetIPAddresses lib luid ps w =
     (case FlushIPAddresses lib luid AF_UNSPEC w of
        (Some e, w1) \<Rightarrow> (Some e, w1) | (None, w1) \<Rightarrow> AddIPAddresses lib luid ps w1)"

definition SetIPAddressesForFamily ::
  "'w win_lib \<Rightarrow> 64 word \<Rightarrow> u16 \<Rightarrow> net_prefix list \<Rightarrow> 'w \<Rightarrow> win_err option \<times> 'w" where
  "SetIPAddressesForFamily lib luid fam ps w =
     (case FlushIPAddresses lib luid fam w of
        (Some e, w1) \<Rightarrow> (Some e, w1)
      | (None, w1) \<Rightarrow> add_all (AddIPAddress lib luid) (filter (\<lambda>np. for_family fam (fst np)) ps) w1)"

definition zero_sockaddr :: sockaddr_inet where
  "zero_sockaddr = \<lparr> sa_Family = 0, sa_data = replicate 26 0 \<rparr>"

definition IPAddress :: "'w win_lib \<Rightarrow> 64 word \<Rightarrow> net_addr \<Rightarrow> 'w \<Rightarrow> (win_err + uip_row) \<times> 'w" where
  "IPAddress lib luid a w =
     (case SetAddr a zero_sockaddr of
        (Some e, _) \<Rightarrow> (Inl e, w)
      | (None, sa) \<Rightarrow> ot_get (wl_addrs lib) \<lparr> ur_Address = sa, ur_LUID = luid, ur_ValidLifetime = 0,
          ur_PreferredLifetime = 0, ur_OnLink = 0, ur_Dad = 0 \<rparr> w)"

definition DeleteIPAddress :: "'w win_lib \<Rightarrow> 64 word \<Rightarrow> net_prefix \<Rightarrow> 'w \<Rightarrow> win_err option \<times> 'w" where
  "DeleteIPAddress lib luid np w =
     (let row = (ot_init (wl_addrs lib))\<lparr> ur_LUID := luid \<rparr>
      in case SetAddr (fst np) (ur_Address row) of
           (Some e, _) \<Rightarrow> (Some e, w)
         | (None, sa) \<Rightarrow> ot_delete (wl_addrs lib) (row\<lparr> ur_Address := sa, ur_OnLink := of_int (snd np) \<rparr>) w)"

section \<open>Routes of an interface\<close>

record route_data =
  rd_Destination :: net_prefix
  rd_NextHop :: net_addr
  rd_Metric :: u32

text \<open>The row of a route, if both of its addresses are addresses.\<close>

definition route_row :: "'w win_lib \<Rightarrow> 64 word \<Rightarrow> net_prefix \<Rightarrow> net_addr \<Rightarrow> win_err + fwd_row" where
  "route_row lib luid dest hop =
     (let row = (ot_init (wl_routes lib))\<lparr> fr_LUID := luid \<rparr>
      in case SetPrefix dest (fr_Dest row) of
           (Some e, _) \<Rightarrow> Inl e
         | (None, p) \<Rightarrow>
             (case SetAddr hop (fr_NextHop row) of
                (Some e, _) \<Rightarrow> Inl e
              | (None, sa) \<Rightarrow> Inr (row\<lparr> fr_Dest := p, fr_NextHop := sa \<rparr>)))"

definition Route :: "'w win_lib \<Rightarrow> 64 word \<Rightarrow> net_prefix \<Rightarrow> net_addr \<Rightarrow> 'w \<Rightarrow> (win_err + fwd_row) \<times> 'w" where
  "Route lib luid dest hop w =
     (case route_row lib luid dest hop of
        Inl e \<Rightarrow> (Inl e, w)
      | Inr row \<Rightarrow> ot_get (wl_routes lib)
          (row\<lparr> fr_ValidLifetime := infinite_lifetime, fr_PreferredLifetime := infinite_lifetime \<rparr>) w)"

definition AddRoute :: "'w win_lib \<Rightarrow> 64 word \<Rightarrow> route_data \<Rightarrow> 'w \<Rightarrow> win_err option \<times> 'w" where
  "AddRoute lib luid rd w =
     (case route_row lib luid (rd_Destination rd) (rd_NextHop rd) of
        Inl e \<Rightarrow> (Some e, w)
      | Inr row \<Rightarrow> ot_create (wl_routes lib) (row\<lparr> fr_Metric := rd_Metric rd \<rparr>) w)"

definition AddRoutes :: "'w win_lib \<Rightarrow> 64 word \<Rightarrow> route_data list \<Rightarrow> 'w \<Rightarrow> win_err option \<times> 'w" where
  "AddRoutes lib luid = add_all (AddRoute lib luid)"

fun flush_rows ::
  "('r, 'w) os_table \<Rightarrow> ('r \<Rightarrow> bool) \<Rightarrow> 'r list \<Rightarrow> win_err option \<Rightarrow> 'w \<Rightarrow> win_err option \<times> 'w" where
  "flush_rows T mine [] err w = (err, w)"
| "flush_rows T mine (r # rs) err w =
     (if mine r then
        (case ot_delete T r w of
           (None, w1) \<Rightarrow> flush_rows T mine rs err w1
         | (Some e, w1) \<Rightarrow> flush_rows T mine rs (Some e) w1)
      else flush_rows T mine rs err w)"

definition FlushRoutes :: "'w win_lib \<Rightarrow> 64 word \<Rightarrow> u16 \<Rightarrow> 'w \<Rightarrow> win_err option \<times> 'w" where
  "FlushRoutes lib luid fam w =
     (case ot_read (wl_routes lib) fam w of
        (Inl e, w1) \<Rightarrow> (Some e, w1)
      | (Inr t, w1) \<Rightarrow> flush_rows (wl_routes lib) (\<lambda>r. fr_LUID r = luid) t None w1)"

definition SetRoutes :: "'w win_lib \<Rightarrow> 64 word \<Rightarrow> route_data list \<Rightarrow> 'w \<Rightarrow> win_err option \<times> 'w" where
  "SetRoutes lib luid rds w =
     (case FlushRoutes lib luid AF_UNSPEC w of
        (Some e, w1) \<Rightarrow> (Some e, w1) | (None, w1) \<Rightarrow> AddRoutes lib luid rds w1)"

definition SetRoutesForFamily ::
  "'w win_lib \<Rightarrow> 64 word \<Rightarrow> u16 \<Rightarrow> route_data list \<Rightarrow> 'w \<Rightarrow> win_err option \<times> 'w" where
  "SetRoutesForFamily lib luid fam rds w =
     (case FlushRoutes lib luid fam w of
        (Some e, w1) \<Rightarrow> (Some e, w1)
      | (None, w1) \<Rightarrow> add_all (AddRoute lib luid) (filter (\<lambda>rd. for_family fam (fst (rd_Destination rd))) rds) w1)"

definition DeleteRoute :: "'w win_lib \<Rightarrow> 64 word \<Rightarrow> net_prefix \<Rightarrow> net_addr \<Rightarrow> 'w \<Rightarrow> win_err option \<times> 'w" where
  "DeleteRoute lib luid dest hop w =
     (case route_row lib luid dest hop of
        Inl e \<Rightarrow> (Some e, w)
      | Inr row \<Rightarrow>
          (case ot_get (wl_routes lib) row w of
             (Inl e, w1) \<Rightarrow> (Some e, w1) | (Inr row', w1) \<Rightarrow> ot_delete (wl_routes lib) row' w1))"

section \<open>The interface itself\<close>

text \<open>The correction of a row after it was read.\<close>

definition site_prefix_fix :: "ipif_row \<Rightarrow> ipif_row" where
  "site_prefix_fix row =
     (if ir_Family row = AF_INET then
        (if ir_SitePrefixLength row > 32 then row\<lparr> ir_SitePrefixLength := 0 \<rparr> else row)
      else if ir_Family row = AF_INET6 then
        (if ir_SitePrefixLength row > 128 then row\<lparr> ir_SitePrefixLength := 128 \<rparr> else row)
      else row)"

definition IPInterface :: "'w win_lib \<Rightarrow> 64 word \<Rightarrow> u16 \<Rightarrow> 'w \<Rightarrow> (win_err + ipif_row) \<times> 'w" where
  "IPInterface lib luid fam w =
     (case ot_get (wl_ipifs lib) ((ot_init (wl_ipifs lib))\<lparr> ir_LUID := luid, ir_Family := fam \<rparr>) w of
        (Inl e, w1) \<Rightarrow> (Inl e, w1) | (Inr row, w1) \<Rightarrow> (Inr (site_prefix_fix row), w1))"

text \<open>What is read can be written: the system refuses longer prefixes.\<close>

lemma site_prefix_fixed:
  "ir_Family row = AF_INET \<Longrightarrow> ir_SitePrefixLength (site_prefix_fix row) \<le> 32"
  "ir_Family row = AF_INET6 \<Longrightarrow> ir_SitePrefixLength (site_prefix_fix row) \<le> 128"
  "ir_LUID (site_prefix_fix row) = ir_LUID row" "site_prefix_fix (site_prefix_fix row) = site_prefix_fix row"
  by (auto simp: site_prefix_fix_def af_defs not_less)


section \<open>What the system keeps\<close>

text \<open>
  The documented behaviour of a table: reading returns the rows of the family (all for \<open>AF_UNSPEC\<close>) and changes
  nothing, a row created is there, a row deleted is gone, and a call that fails changes nothing. \<open>view\<close> is
  the set of keys in the table.
\<close>

definition table_laws :: "('r, 'w) os_table \<Rightarrow> ('w \<Rightarrow> 'k set) \<Rightarrow> ('r \<Rightarrow> 'k) \<Rightarrow> ('k \<Rightarrow> u16) \<Rightarrow> bool" where
  "table_laws T view key kfam \<longleftrightarrow>
     (\<forall>fam w. view (snd (ot_read T fam w)) = view w \<and>
        (\<forall>rs. fst (ot_read T fam w) = Inr rs \<longrightarrow> key ` set rs = {k \<in> view w. fam = AF_UNSPEC \<or> kfam k = fam})) \<and>
     (\<forall>r w. view (snd (ot_create T r w)) = (if fst (ot_create T r w) = None then insert (key r) (view w) else view w)) \<and>
     (\<forall>r w. view (snd (ot_delete T r w)) = (if fst (ot_delete T r w) = None then view w - {key r} else view w))"

lemma table_lawsD:
  assumes "table_laws T view key kfam"
  shows "ot_read T fam w = (Inr rs, w1) \<Longrightarrow> view w1 = view w"
    "ot_read T fam w = (Inr rs, w1) \<Longrightarrow> key ` set rs = {k \<in> view w. fam = AF_UNSPEC \<or> kfam k = fam}"
    "ot_read T fam w = (Inl e, w1) \<Longrightarrow> view w1 = view w"
    "ot_create T r w = (None, w1) \<Longrightarrow> view w1 = insert (key r) (view w)"
    "ot_create T r w = (Some e, w1) \<Longrightarrow> view w1 = view w"
    "ot_delete T r w = (None, w1) \<Longrightarrow> view w1 = view w - {key r}"
    "ot_delete T r w = (Some e, w1) \<Longrightarrow> view w1 = view w"
proof -
  have read: "view (snd (ot_read T fam w)) = view w"
      "fst (ot_read T fam w) = Inr rs \<Longrightarrow> key ` set rs = {k \<in> view w. fam = AF_UNSPEC \<or> kfam k = fam}"
    and create: "view (snd (ot_create T r w)) = (if fst (ot_create T r w) = None then insert (key r) (view w) else view w)"
    and delete: "view (snd (ot_delete T r w)) = (if fst (ot_delete T r w) = None then view w - {key r} else view w)"
    using assms unfolding table_laws_def by blast+
  show "ot_read T fam w = (Inr rs, w1) \<Longrightarrow> view w1 = view w"
    "ot_read T fam w = (Inr rs, w1) \<Longrightarrow> key ` set rs = {k \<in> view w. fam = AF_UNSPEC \<or> kfam k = fam}"
    "ot_read T fam w = (Inl e, w1) \<Longrightarrow> view w1 = view w"
    using read by auto
  show "ot_create T r w = (None, w1) \<Longrightarrow> view w1 = insert (key r) (view w)"
    "ot_create T r w = (Some e, w1) \<Longrightarrow> view w1 = view w"
    using create by auto
  show "ot_delete T r w = (None, w1) \<Longrightarrow> view w1 = view w - {key r}"
    "ot_delete T r w = (Some e, w1) \<Longrightarrow> view w1 = view w"
    using delete by auto
qed

lemma flush_rows_view:
  assumes "table_laws T view key kfam" "flush_rows T mine rs err w = (r, w1)"
  shows "view w - key ` {x \<in> set rs. mine x} \<subseteq> view w1 \<and> view w1 \<subseteq> view w \<and>
    (r = None \<longrightarrow> err = None \<and> view w1 = view w - key ` {x \<in> set rs. mine x})"
  using assms(2)
proof (induction rs arbitrary: err w)
  case (Cons x rs)
  have sel: "{y \<in> set (x # rs). mine y} = (if mine x then insert x {y \<in> set rs. mine y} else {y \<in> set rs. mine y})"
    by auto
  show ?case
  proof (cases "mine x")
    case True
    obtain d w0 where d: "ot_delete T x w = (d, w0)" by fastforce
    show ?thesis
    proof (cases d)
      case None
      with d have "view w0 = view w - {key x}" using table_lawsD(6)[OF assms(1)] by blast
      then show ?thesis using Cons.IH[of err w0] Cons.prems d None True unfolding sel by auto
    next
      case (Some e)
      with d have "view w0 = view w" using table_lawsD(7)[OF assms(1)] by blast
      then show ?thesis using Cons.IH[of "Some e" w0] Cons.prems d Some True unfolding sel by auto
    qed
  next
    case False
    then show ?thesis using Cons.IH[of err w] Cons.prems unfolding sel by simp
  qed
qed simp

lemma add_all_view:
  assumes "\<And>x w r w1. x \<in> set xs \<Longrightarrow> f x w = (r, w1) \<Longrightarrow> view w1 = (if r = None then insert (g x) (view w) else view w)"
    and "add_all f xs w = (r, w1)"
  shows "view w \<subseteq> view w1 \<and> view w1 \<subseteq> view w \<union> g ` set xs \<and> (r = None \<longrightarrow> view w1 = view w \<union> g ` set xs)"
  using assms
proof (induction xs arbitrary: w)
  case (Cons x xs)
  obtain r0 w0 where f: "f x w = (r0, w0)" by fastforce
  have v: "view w0 = (if r0 = None then insert (g x) (view w) else view w)" by (rule Cons.prems(1)[OF _ f]) simp
  show ?case
  proof (cases r0)
    case None
    have "view w0 \<subseteq> view w1 \<and> view w1 \<subseteq> view w0 \<union> g ` set xs \<and> (r = None \<longrightarrow> view w1 = view w0 \<union> g ` set xs)"
      by (rule Cons.IH) (use Cons.prems f None in auto)
    then show ?thesis using v None by auto
  next
    case (Some e)
    then show ?thesis using Cons.prems(2) f v by auto
  qed
qed simp

text \<open>The keys: whose row it is and what it is about.\<close>

type_synonym route_key = "64 word \<times> net_prefix \<times> net_addr"

definition route_key :: "fwd_row \<Rightarrow> route_key" where
  "route_key r = (fr_LUID r, Prefix (fr_Dest r), sa_Addr (fr_NextHop r))"

definition route_family :: "route_key \<Rightarrow> u16" where
  "route_family k = addr_family (fst (fst (snd k)))"

definition wanted_route :: "64 word \<Rightarrow> route_data \<Rightarrow> route_key" where
  "wanted_route luid rd =
     (luid, (without_zone (fst (rd_Destination rd)), snd (rd_Destination rd)), zone_number (rd_NextHop rd))"

definition valid_route :: "route_data \<Rightarrow> bool" where
  "valid_route rd \<longleftrightarrow> valid_prefix (rd_Destination rd) \<and> valid_addr (rd_NextHop rd)"

lemma AddRoute_view:
  assumes "table_laws (wl_routes lib) view route_key route_family" "valid_route rd" "AddRoute lib luid rd w = (r, w1)"
  shows "view w1 = (if r = None then insert (wanted_route luid rd) (view w) else view w)"
proof -
  let ?row = "(ot_init (wl_routes lib))\<lparr> fr_LUID := luid \<rparr>"
  obtain p where p: "SetPrefix (rd_Destination rd) (fr_Dest ?row) = (None, p)"
    "Prefix p = (without_zone (fst (rd_Destination rd)), snd (rd_Destination rd))"
    using SetPrefix_ok[of "rd_Destination rd" "fr_Dest ?row"] assms(2) by (metis prod.collapse valid_route_def)
  obtain sa where sa: "SetAddr (rd_NextHop rd) (fr_NextHop ?row) = (None, sa)" "sa_Addr sa = zone_number (rd_NextHop rd)"
    using SetAddrPort_ok(1,2)[of "rd_NextHop rd" 0 "fr_NextHop ?row"] assms(2)
    by (metis AddrPort_def Pair_inject SetAddr_def prod.collapse valid_route_def)
  define row where "row = ?row\<lparr> fr_Dest := p, fr_NextHop := sa, fr_Metric := rd_Metric rd \<rparr>"
  have c: "ot_create (wl_routes lib) row w = (r, w1)"
    using assms(3) p(1) sa(1) by (simp add: AddRoute_def route_row_def row_def Let_def)
  have "route_key row = wanted_route luid rd" by (simp add: route_key_def wanted_route_def row_def p(2) sa(2))
  then show ?thesis
    using table_lawsD(4,5)[OF assms(1)] c by (cases r) auto
qed

lemma wanted_route_mine:
  "fst (wanted_route luid rd) = luid" "route_family (wanted_route luid rd) = addr_family (fst (rd_Destination rd))"
  by (cases "fst (rd_Destination rd)"; simp add: wanted_route_def route_family_def without_zone_def addr_family_def)+

lemma replaced_part:
  assumes "V1 = V - {k \<in> V. P k}" "V1 \<subseteq> V'" "V' \<subseteq> V1 \<union> N" "\<forall>k \<in> N. P k" "N \<subseteq> M"
  shows "(\<forall>k. \<not> P k \<longrightarrow> k \<in> V' \<longleftrightarrow> k \<in> V) \<and> V' \<subseteq> V \<union> M \<and> (V' = V1 \<union> N \<longrightarrow> {k \<in> V'. P k} = N)"
  using assms by auto

definition covers :: "u16 \<Rightarrow> u16 \<Rightarrow> bool" where
  "covers fam f \<longleftrightarrow> fam = AF_UNSPEC \<or> f = fam"

lemma set_routes:
  assumes "table_laws (wl_routes lib) view route_key route_family" "fam \<in> {AF_UNSPEC, AF_INET, AF_INET6}"
    and "\<forall>rd \<in> set rds. valid_route rd" "SetRoutesForFamily lib luid fam rds w = (r, w')"
  shows "(\<forall>k. \<not> (fst k = luid \<and> covers fam (route_family k)) \<longrightarrow> k \<in> view w' \<longleftrightarrow> k \<in> view w) \<and>
    view w' \<subseteq> view w \<union> wanted_route luid ` set rds \<and>
    (r = None \<longrightarrow> {k \<in> view w'. fst k = luid \<and> covers fam (route_family k)} =
       wanted_route luid ` {rd \<in> set rds. covers fam (addr_family (fst (rd_Destination rd)))})"
proof (cases "ot_read (wl_routes lib) fam w")
  case (Pair t w0)
  have ff: "for_family fam a \<longleftrightarrow> covers fam (addr_family a)" for a
    using assms(2) by (auto simp: for_family_def covers_def af_defs)
  show ?thesis
  proof (cases t)
    case (Inl e)
    have "view w0 = view w" by (rule table_lawsD(3)[OF assms(1) Pair[unfolded Inl]])
    moreover have "w' = w0" "r = Some e"
      using assms(4) Pair Inl by (simp_all add: SetRoutesForFamily_def FlushRoutes_def)
    ultimately show ?thesis by simp
  next
    case (Inr rs)
    let ?mine = "\<lambda>k. fst k = luid \<and> covers fam (route_family k)"
    note read = Pair[unfolded Inr]
    have w0: "view w0 = view w" by (rule table_lawsD(1)[OF assms(1) read])
    have rows: "route_key ` set rs = {k \<in> view w. covers fam (route_family k)}"
      using table_lawsD(2)[OF assms(1) read] by (simp add: covers_def)
    have mine: "route_key ` {x \<in> set rs. fr_LUID x = luid} = {k \<in> view w. ?mine k}"
    proof -
      have "{k \<in> view w. ?mine k} = {k \<in> route_key ` set rs. fst k = luid}" unfolding rows by auto
      also have "\<dots> = route_key ` {x \<in> set rs. fr_LUID x = luid}" by (auto simp: route_key_def)
      finally show ?thesis by simp
    qed
    obtain r1 w1 where f: "flush_rows (wl_routes lib) (\<lambda>x. fr_LUID x = luid) rs None w0 = (r1, w1)" by fastforce
    note fl = flush_rows_view[OF assms(1) f, unfolded mine w0]
    show ?thesis
    proof (cases r1)
      case (Some e)
      then have end_w: "w' = w1" "r = Some e"
        using assms(4) Pair Inr f by (simp_all add: SetRoutesForFamily_def FlushRoutes_def)
      from fl have "view w - {k \<in> view w. ?mine k} \<subseteq> view w1" "view w1 \<subseteq> view w" by blast+
      then show ?thesis unfolding end_w by blast
    next
      case None
      let ?rds = "filter (\<lambda>rd. for_family fam (fst (rd_Destination rd))) rds"
      have added: "add_all (AddRoute lib luid) ?rds w1 = (r, w')"
        using assms(4) Pair Inr f None by (simp add: SetRoutesForFamily_def FlushRoutes_def)
      have one: "view w2 = (if q = None then insert (wanted_route luid rd) (view v) else view v)"
        if "rd \<in> set ?rds" "AddRoute lib luid rd v = (q, w2)" for rd v q w2
        by (rule AddRoute_view[OF assms(1) _ that(2)]) (use that(1) assms(3) in simp)
      have a: "view w1 \<subseteq> view w' \<and> view w' \<subseteq> view w1 \<union> wanted_route luid ` set ?rds \<and>
          (r = None \<longrightarrow> view w' = view w1 \<union> wanted_route luid ` set ?rds)"
        by (rule add_all_view[OF one added])
      have sel: "set ?rds = {rd \<in> set rds. covers fam (addr_family (fst (rd_Destination rd)))}"
        using ff by auto
      have new: "\<forall>k \<in> wanted_route luid ` set ?rds. ?mine k" unfolding sel by (auto simp: wanted_route_mine)
      have sub: "wanted_route luid ` set ?rds \<subseteq> wanted_route luid ` set rds" by auto
      have gone: "view w1 = view w - {k \<in> view w. ?mine k}" using fl None by simp
      note res = replaced_part[OF gone conjunct1[OF a] conjunct1[OF conjunct2[OF a]] new sub]
      show ?thesis
        using res a unfolding sel by simp
    qed
  qed
qed

text \<open>C21 Setting the routes of an interface, of one family or of both, on a system that does what its
  documentation says: whatever the outcome, routes of other interfaces and of a family not meant stay as they are,
  and what the interface has afterwards was there or was asked for; and if it succeeds, the interface has in
  what was meant exactly the routes asked for, each with the next hop asked for.\<close>

theorem set_routes_exact:
  assumes "table_laws (wl_routes lib) view route_key route_family" "fam \<in> {AF_UNSPEC, AF_INET, AF_INET6}"
    and "\<forall>rd \<in> set rds. valid_route rd" "SetRoutesForFamily lib luid fam rds w = (r, w')"
  shows "(\<forall>k. \<not> (fst k = luid \<and> covers fam (route_family k)) \<longrightarrow> k \<in> view w' \<longleftrightarrow> k \<in> view w) \<and>
    view w' \<subseteq> view w \<union> wanted_route luid ` set rds \<and>
    (r = None \<longrightarrow> {k \<in> view w'. fst k = luid \<and> covers fam (route_family k)} =
       wanted_route luid ` {rd \<in> set rds. covers fam (addr_family (fst (rd_Destination rd)))})"
  by (rule set_routes[OF assms])


text \<open>A system with one table of routes, kept as a list.\<close>

definition wit_win :: "fwd_row list win_lib" where
  "wit_win = \<lparr>
     wl_addrs = \<lparr> ot_init = \<lparr> ur_Address = zero_sockaddr, ur_LUID = 0, ur_ValidLifetime = 0, ur_PreferredLifetime = 0,
         ur_OnLink = 0, ur_Dad = 0 \<rparr>, ot_read = (\<lambda>fam w. (Inr [], w)), ot_get = (\<lambda>r w. (Inr r, w)),
       ot_create = (\<lambda>r w. (None, w)), ot_delete = (\<lambda>r w. (None, w)), ot_set = (\<lambda>r w. (None, w)) \<rparr>,
     wl_routes = \<lparr> ot_init = \<lparr> fr_LUID = 0, fr_Dest = \<lparr> ipf_Raw = zero_sockaddr, ipf_Length = 0 \<rparr>, fr_NextHop = zero_sockaddr,
         fr_Metric = 0, fr_ValidLifetime = 0, fr_PreferredLifetime = 0 \<rparr>,
       ot_read = (\<lambda>fam w. (Inr (filter (\<lambda>r. fam = AF_UNSPEC \<or> route_family (route_key r) = fam) w), w)),
       ot_get = (\<lambda>r w. (Inr r, w)), ot_create = (\<lambda>r w. (None, r # w)),
       ot_delete = (\<lambda>r w. (None, filter (\<lambda>x. route_key x \<noteq> route_key r) w)), ot_set = (\<lambda>r w. (None, w)) \<rparr>,
     wl_ipifs = \<lparr> ot_init = \<lparr> ir_Family = 0, ir_LUID = 0, ir_Index = 0, ir_SitePrefixLength = 0, ir_Metric = 0, ir_NLMTU = 0,
         ir_DadTransmits = 0, ir_RouterDiscovery = 0, ir_Managed = False, ir_OtherStateful = False,
         ir_AutoMetric = False, ir_WeakReceive = False, ir_WeakSend = False \<rparr>, ot_read = (\<lambda>fam w. (Inr [], w)),
       ot_get = (\<lambda>r w. (Inr r, w)), ot_create = (\<lambda>r w. (None, w)), ot_delete = (\<lambda>r w. (None, w)),
       ot_set = (\<lambda>r w. (None, w)) \<rparr>,
     wl_guid = (\<lambda>l w. (Inr [], w)), wl_netsh = (\<lambda>s w. ((None, []), w)), 
     wl_IpConfig = (\<lambda>k w. (Inr [], w)), wl_setDomain = (\<lambda>k d w. (None, w)) \<rparr>"

lemma wit_win_laws: "table_laws (wl_routes wit_win) (\<lambda>w. route_key ` set w) route_key route_family"
  by (auto simp: table_laws_def wit_win_def)

definition wit_rd :: route_data where
  "wit_rd = \<lparr> rd_Destination = (Addr4 [192, 17, 19, 1], 32), rd_NextHop = Addr4 [0, 0, 0, 0], rd_Metric = 0 \<rparr>"

theorem set_routes_exact_witness:
  "{k \<in> route_key ` set (snd (SetRoutesForFamily wit_win 5 AF_INET [wit_rd] [])). fst k = 5 \<and> covers AF_INET (route_family k)}
     = {wanted_route 5 wit_rd}"
proof -
  obtain r w' where s: "SetRoutesForFamily wit_win 5 AF_INET [wit_rd] [] = (r, w')" by fastforce
  have valid: "\<forall>rd \<in> set [wit_rd]. valid_route rd"
    by (simp add: valid_route_def valid_prefix_def valid_addr_def bit_len_def wit_rd_def)
  have "r = None"
    using s by (auto simp: SetRoutesForFamily_def FlushRoutes_def AddRoute_def route_row_def SetPrefix_def SetAddr_def
        SetAddrPort_def wit_win_def wit_rd_def Let_def split: if_splits)
  moreover have "addr_family (fst (rd_Destination wit_rd)) = AF_INET" by (simp add: wit_rd_def addr_family_def)
  ultimately show ?thesis
    using set_routes_exact[OF wit_win_laws _ valid s] s by (auto simp: image_iff covers_def)
qed

text \<open>
  With addresses it is different: \<open>FlushIPAddresses\<close> does not look at the outcome of a deletion, so a successful
  \<open>SetIPAddresses\<close> can leave addresses that were not asked for.
\<close>

type_synonym address_key = "64 word \<times> net_addr"

definition address_key :: "uip_row \<Rightarrow> address_key" where
  "address_key r = (ur_LUID r, sa_Addr (ur_Address r))"

definition address_family :: "address_key \<Rightarrow> u16" where
  "address_family k = addr_family (snd k)"

lemma flush_as_rows:
  "fold (\<lambda>r w. if mine r then snd (ot_delete T r w) else w) t w = snd (flush_rows T mine t err w)"
  by (induction t arbitrary: err w) (auto split: prod.splits option.splits)

lemma AddIPAddress_view:
  assumes "table_laws (wl_addrs lib) view address_key kfam" "valid_addr (fst np)" "AddIPAddress lib luid np w = (r, w1)"
  shows "view w1 = (if r = None then insert (luid, zone_number (fst np)) (view w) else view w)"
proof -
  let ?row = "(ot_init (wl_addrs lib))\<lparr> ur_LUID := luid, ur_Dad := DadStatePreferred,
            ur_ValidLifetime := infinite_lifetime, ur_PreferredLifetime := infinite_lifetime \<rparr>"
  obtain sa where sa: "SetAddr (fst np) (ur_Address ?row) = (None, sa)" "sa_Addr sa = zone_number (fst np)"
    using SetAddrPort_ok(1,2)[of "fst np" 0 "ur_Address ?row"] assms(2)
    by (metis AddrPort_def Pair_inject SetAddr_def prod.collapse)
  define row where "row = ?row\<lparr> ur_Address := sa, ur_OnLink := of_int (snd np) \<rparr>"
  have c: "ot_create (wl_addrs lib) row w = (r, w1)"
    using assms(3) sa(1) by (simp add: AddIPAddress_def row_def Let_def)
  have "address_key row = (luid, zone_number (fst np))" by (simp add: address_key_def row_def sa(2))
  then show ?thesis using table_lawsD(4,5)[OF assms(1)] c by (cases r) auto
qed

theorem set_addresses_adds_all:
  assumes "table_laws (wl_addrs lib) view address_key address_family" "\<forall>np \<in> set ps. valid_addr (fst np)"
    and "SetIPAddresses lib luid ps w = (r, w')"
  shows "(\<forall>k. fst k \<noteq> luid \<longrightarrow> k \<in> view w' \<longleftrightarrow> k \<in> view w) \<and>
    (r = None \<longrightarrow> (\<lambda>np. (luid, zone_number (fst np))) ` set ps \<subseteq> view w')"
proof (cases "ot_read (wl_addrs lib) AF_UNSPEC w")
  case (Pair t w0)
  show ?thesis
  proof (cases t)
    case (Inl e)
    have "view w0 = view w" by (rule table_lawsD(3)[OF assms(1) Pair[unfolded Inl]])
    moreover have "w' = w0" "r = Some e"
      using assms(3) Pair Inl by (simp_all add: SetIPAddresses_def FlushIPAddresses_def)
    ultimately show ?thesis by simp
  next
    case (Inr rs)
    have w0: "view w0 = view w" by (rule table_lawsD(1)[OF assms(1) Pair[unfolded Inr]])
    obtain r1 w1 where f: "flush_rows (wl_addrs lib) (\<lambda>x. ur_LUID x = luid) rs None w0 = (r1, w1)" by fastforce
    note fl = flush_rows_view[OF assms(1) f, unfolded w0]
    have added: "add_all (AddIPAddress lib luid) ps w1 = (r, w')"
      using assms(3) Pair Inr f
      by (simp add: SetIPAddresses_def FlushIPAddresses_def AddIPAddresses_def flush_as_rows[where err = None])
    have one: "view w2 = (if q = None then insert (luid, zone_number (fst np)) (view v) else view v)"
      if "np \<in> set ps" "AddIPAddress lib luid np v = (q, w2)" for np v q w2
      by (rule AddIPAddress_view[OF assms(1) _ that(2)]) (use that(1) assms(2) in simp)
    have a: "view w1 \<subseteq> view w' \<and> view w' \<subseteq> view w1 \<union> (\<lambda>np. (luid, zone_number (fst np))) ` set ps \<and>
        (r = None \<longrightarrow> view w' = view w1 \<union> (\<lambda>np. (luid, zone_number (fst np))) ` set ps)"
      by (rule add_all_view[OF one added])
    have keep: "k \<in> view w1 \<longleftrightarrow> k \<in> view w" if "fst k \<noteq> luid" for k
    proof -
      have "k \<notin> address_key ` {x \<in> set rs. ur_LUID x = luid}" using that by (auto simp: address_key_def)
      with fl show ?thesis by auto
    qed
    have "k \<in> view w' \<longleftrightarrow> k \<in> view w" if "fst k \<noteq> luid" for k
    proof -
      have "k \<notin> (\<lambda>np. (luid, zone_number (fst np))) ` set ps" using that by auto
      with a keep[OF that] show ?thesis by blast
    qed
    moreover have "r = None \<longrightarrow> (\<lambda>np. (luid, zone_number (fst np))) ` set ps \<subseteq> view w'"
    proof
      assume "r = None"
      with a have "view w' = view w1 \<union> (\<lambda>np. (luid, zone_number (fst np))) ` set ps" by simp
      then show "(\<lambda>np. (luid, zone_number (fst np))) ` set ps \<subseteq> view w'" by simp
    qed
    ultimately show ?thesis by simp
  qed
qed


section \<open>The list of adapters\<close>

text \<open>
  \<open>GetAdaptersAddresses\<close> asks with a buffer of the size it was told last, until that is enough. The size is a
  32-bit number that must grow from one attempt to the next, so the loop ends whatever the system answers.
\<close>

lemma u32_grow: "(a :: u32) < b \<Longrightarrow> 4294967296 - unat b < 4294967296 - unat a"
proof -
  assume "a < b"
  then have "unat a < unat b" by (simp add: word_less_nat_alt)
  moreover have "unat b < 2 ^ 32" using unsigned_less[of b] by simp
  ultimately show ?thesis by simp
qed

function adapters_loop :: "(u32 \<Rightarrow> 'w \<Rightarrow> (win_err + 'a list) \<times> u32 \<times> 'w) \<Rightarrow> u32 \<Rightarrow> 'w \<Rightarrow> (win_err + 'a list) \<times> 'w" where
  "adapters_loop ask n w =
     (case ask n w of
        (Inr as, n', w1) \<Rightarrow> (Inr as, w1)
      | (Inl e, n', w1) \<Rightarrow>
          if e \<noteq> BufferOverflow \<or> n' \<le> n then (Inl e, w1) else adapters_loop ask n' w1)"
  by pat_completeness auto
termination
  by (relation "measure (\<lambda>(ask, n, w). 2 ^ 32 - unat n)")
     (auto simp: not_le intro: u32_grow)

declare adapters_loop.simps [simp del]

definition GetAdaptersAddresses ::
  "(u32 \<Rightarrow> 'w \<Rightarrow> (win_err + 'a list) \<times> u32 \<times> 'w) \<Rightarrow> 'w \<Rightarrow> (win_err + 'a list) \<times> 'w" where
  "GetAdaptersAddresses ask w = adapters_loop ask 15000 w"

text \<open>An answer that keeps saying the buffer is too small, with the same size, is an error and not a loop.\<close>

lemma adapters_stuck:
  "ask 15000 w = (Inl BufferOverflow, size', w1) \<Longrightarrow> size' \<le> 15000 \<Longrightarrow>
   GetAdaptersAddresses ask w = (Inl BufferOverflow, w1)"
  by (simp add: GetAdaptersAddresses_def adapters_loop.simps)

section \<open>Name servers\<close>

text \<open>\<open>netip.Addr.String\<close>: a mapped address keeps its prefix, and a zone follows a percent sign.\<close>

definition addr_string :: "net_addr \<Rightarrow> string" where
  "addr_string a =
     (case a of
        NoAddr \<Rightarrow> ''invalid IP''
      | Addr4 b \<Rightarrow> ip4_string b
      | Addr6 b z \<Rightarrow>
          (case to4 b of Some b4 \<Rightarrow> ''::ffff:'' @ ip4_string b4 | None \<Rightarrow> ip6_string b) @ (if z = [] then [] else CHR ''%'' # z))"

text \<open>\<open>strings.ReplaceAll\<close> and \<open>bytes.ReplaceAll\<close> of a text that is not empty.\<close>

function replace_all :: "string \<Rightarrow> string \<Rightarrow> string \<Rightarrow> string" where
  "replace_all old new s =
     (case s of
        [] \<Rightarrow> []
      | c # r \<Rightarrow> if old \<noteq> [] \<and> has_prefix old s then new @ replace_all old new (drop (length old) s)
                 else c # replace_all old new r)"
  by pat_completeness auto
termination
  by (relation "measure (\<lambda>(old, new, s). length s)") auto

declare replace_all.simps [simp del]

definition cr_lf :: string where "cr_lf = [char_of (13 :: nat), char_of (10 :: nat)]"
definition lf :: string where "lf = [char_of (10 :: nat)]"

definition netsh_clean :: "string \<Rightarrow> string" where
  "netsh_clean output =
     trim_space (replace_all ''There are no Domain Name Servers (DNS) configured on this computer.'' []
       (replace_all ''netsh>'' [] (replace_all cr_lf lf output)))"

definition runNetsh :: "'w win_lib \<Rightarrow> string list \<Rightarrow> 'w \<Rightarrow> win_err option \<times> 'w" where
  "runNetsh lib cmds w =
     (case wl_netsh lib (join_str cr_lf (cmds @ [''exit'' @ cr_lf])) w of
        ((Some e, output), w1) \<Rightarrow> (Some e, w1)
      | ((None, output), w1) \<Rightarrow>
          (if netsh_clean output \<noteq> [] then Some (NetshSays (netsh_clean output)) else None, w1))"

definition netsh_flush :: "string \<Rightarrow> nat \<Rightarrow> string" where
  "netsh_flush v n = ''interface '' @ v @ '' set dnsservers name='' @ dec_nat n @ '' source=static address=none validate=no register=both''"

definition netsh_add :: "string \<Rightarrow> nat \<Rightarrow> net_addr \<Rightarrow> string" where
  "netsh_add v n a = ''interface '' @ v @ '' add dnsservers name='' @ dec_nat n @ '' address='' @ addr_string a @ '' validate=no''"

definition netsh_family :: "u16 \<Rightarrow> string" where
  "netsh_family fam = (if fam = AF_INET then ''ipv4'' else ''ipv6'')"

definition fallbackSetDNSForFamily :: "'w win_lib \<Rightarrow> 64 word \<Rightarrow> u16 \<Rightarrow> net_addr list \<Rightarrow> 'w \<Rightarrow> win_err option \<times> 'w" where
  "fallbackSetDNSForFamily lib luid fam dnses w =
     (case IPInterface lib luid fam w of
        (Inl e, w1) \<Rightarrow> (Some e, w1)
      | (Inr row, w1) \<Rightarrow>
          runNetsh lib (netsh_flush (netsh_family fam) (ir_Index row) #
            map (netsh_add (netsh_family fam) (ir_Index row)) (filter (\<lambda>a. addr_family a = fam) dnses)) w1)"

text \<open>The registry: reading the list \<open>IpConfig\<close> of a key, and setting the value \<open>Domain\<close> of a key.\<close>

definition adapter_key :: "string \<Rightarrow> string" where
  "adapter_key guid =
     (let bs = [char_of (92 :: nat)] in ''SYSTEM'' @ bs @ ''CurrentControlSet'' @ bs @ ''Services'' @ bs @ ''Tcpip'' @ bs
        @ ''Parameters'' @ bs @ ''Adapters'' @ bs @ guid)"

definition service_key :: "string \<Rightarrow> string" where
  "service_key path =
     (let bs = [char_of (92 :: nat)] in ''SYSTEM'' @ bs @ ''CurrentControlSet'' @ bs @ ''Services'' @ bs @ path)"

definition fallbackSetDNSDomain :: "'w win_lib \<Rightarrow> 64 word \<Rightarrow> string \<Rightarrow> 'w \<Rightarrow> win_err option \<times> 'w" where
  "fallbackSetDNSDomain lib luid domain w =
     (case wl_guid lib luid w of
        (Inl e, w1) \<Rightarrow> (Some e, w1)
      | (Inr guid, w1) \<Rightarrow>
          (case wl_IpConfig lib (adapter_key guid) w1 of
             (Inl e, w2) \<Rightarrow> (Some e, w2)
           | (Inr [], w2) \<Rightarrow> (Some NoTcpIpInterface, w2)
           | (Inr (path # _), w2) \<Rightarrow> wl_setDomain lib (service_key path) domain w2))"

record dns_settings =
  ds_Flags :: nat
  ds_NameServer :: string
  ds_SearchList :: string

definition has_nul :: "string \<Rightarrow> bool" where
  "has_nul s \<longleftrightarrow> char_of (0 :: nat) \<in> set s"

text \<open>\<open>set\<close> is \<open>SetInterfaceDnsSettings\<close>. The flags are 2 (name servers), 4 (search list) and 1 (IPv6).\<close>

definition SetDNS ::
  "'w win_lib \<Rightarrow> (string \<Rightarrow> dns_settings \<Rightarrow> 'w \<Rightarrow> win_err option \<times> 'w) \<Rightarrow> 64 word \<Rightarrow> u16 \<Rightarrow> net_addr list
     \<Rightarrow> string list \<Rightarrow> 'w \<Rightarrow> win_err option \<times> 'w" where
  "SetDNS lib set_dns luid fam servers domains w =
     (if fam \<noteq> AF_INET \<and> fam \<noteq> AF_INET6 then (Some ProtocolUnreachable, w)
      else let names = join_str '','' (map addr_string (filter (\<lambda>a. addr_family a = fam) servers));
               list = join_str '','' domains
      in if has_nul names \<or> has_nul list then (Some InvalidParameter, w)
      else case wl_guid lib luid w of
        (Inl e, w1) \<Rightarrow> (Some e, w1)
      | (Inr guid, w1) \<Rightarrow>
          (case set_dns guid \<lparr> ds_Flags = 6 + (if fam = AF_INET6 then 1 else 0), ds_NameServer = names,
               ds_SearchList = list \<rparr> w1 of
             (None, w2) \<Rightarrow> (None, w2)
           | (Some e, w2) \<Rightarrow>
               if e \<noteq> ProcNotFound then (Some e, w2)
               else case fallbackSetDNSForFamily lib luid fam servers w2 of
                 (Some e', w3) \<Rightarrow> (Some e', w3)
               | (None, w3) \<Rightarrow> fallbackSetDNSDomain lib luid (case domains of [] \<Rightarrow> [] | d # _ \<Rightarrow> d) w3))"

definition FlushDNS ::
  "'w win_lib \<Rightarrow> (string \<Rightarrow> dns_settings \<Rightarrow> 'w \<Rightarrow> win_err option \<times> 'w) \<Rightarrow> 64 word \<Rightarrow> u16 \<Rightarrow> 'w \<Rightarrow> win_err option \<times> 'w" where
  "FlushDNS lib set_dns luid fam = SetDNS lib set_dns luid fam [] []"

text \<open>\<open>DNS\<close>: per adapter its interface and its servers, \<open>None\<close> for one that is not an address.\<close>

fun adapter_servers :: "net_addr option list \<Rightarrow> win_err + net_addr list" where
  "adapter_servers [] = Inr []"
| "adapter_servers (None # as) = Inl InvalidParameter"
| "adapter_servers (Some a # as) = (case adapter_servers as of Inl e \<Rightarrow> Inl e | Inr r \<Rightarrow> Inr (a # r))"

definition DNS ::
  "(u32 \<Rightarrow> 'w \<Rightarrow> (win_err + (64 word \<times> net_addr option list) list) \<times> u32 \<times> 'w) \<Rightarrow> 64 word \<Rightarrow> 'w
     \<Rightarrow> (win_err + net_addr list) \<times> 'w" where
  "DNS ask luid w =
     (case GetAdaptersAddresses ask w of
        (Inl e, w1) \<Rightarrow> (Inl e, w1)
      | (Inr as, w1) \<Rightarrow> (adapter_servers (concat (map snd (filter (\<lambda>a. fst a = luid) as))), w1))"

section \<open>The adapter of the packet stack\<close>

definition RouterDiscoveryDisabled :: nat where "RouterDiscoveryDisabled = 0"

definition tun_ipif :: "u32 \<Rightarrow> ipif_row \<Rightarrow> ipif_row" where
  "tun_ipif mtu row =
     (let r = row\<lparr> ir_RouterDiscovery := RouterDiscoveryDisabled, ir_DadTransmits := 0, ir_Managed := False,
            ir_OtherStateful := False, ir_AutoMetric := False, ir_Metric := 0, ir_WeakReceive := True, ir_WeakSend := True \<rparr>
      in if mtu > 0 then r\<lparr> ir_NLMTU := mtu \<rparr> else r)"

text \<open>The errors tell which part failed.\<close>

datatype tun_ip_err = BadTunIP | BadTunRoute | RouteFails win_err | AddressFails win_err | InterfaceFails win_err | SetFails win_err

definition tun_route :: "bytes \<Rightarrow> int \<Rightarrow> route_data" where
  "tun_route b n = \<lparr> rd_Destination = (Addr4 b, n), rd_NextHop = Addr4 [0, 0, 0, 0], rd_Metric = 0 \<rparr>"

definition win_SetTunIP :: "'w win_lib \<Rightarrow> 64 word \<Rightarrow> u32 \<Rightarrow> string \<Rightarrow> int \<Rightarrow> 'w \<Rightarrow> tun_ip_err option \<times> 'w" where
  "win_SetTunIP lib luid mtu ip bits w =
     (case tunInterfacePrefixFrom ip of
        None \<Rightarrow> (Some BadTunIP, w)
      | Some (iface, n) \<Rightarrow>
          (case parse_addr4 ip of
             None \<Rightarrow> (Some BadTunRoute, w)
           | Some b \<Rightarrow>
               if bits < 0 \<or> bits > 32 then (Some BadTunRoute, w)
               else case SetRoutes lib luid [tun_route b bits] w of
                 (Some e, w1) \<Rightarrow> (Some (RouteFails e), w1)
               | (None, w1) \<Rightarrow>
                   (case SetIPAddresses lib luid [(Addr4 iface, int n)] w1 of
                      (Some e, w2) \<Rightarrow> (Some (AddressFails e), w2)
                    | (None, w2) \<Rightarrow>
                        (case IPInterface lib luid AF_INET w2 of
                           (Inl e, w3) \<Rightarrow> (Some (InterfaceFails e), w3)
                         | (Inr row, w3) \<Rightarrow>
                             (case ot_set (wl_ipifs lib) (tun_ipif mtu row) w3 of
                                (Some e, w4) \<Rightarrow> (Some (SetFails e), w4) | (None, w4) \<Rightarrow> (None, w4))))))"

lemma SetRoutes_all: "SetRoutes lib luid rds w = SetRoutesForFamily lib luid AF_UNSPEC rds w"
  by (simp add: SetRoutes_def SetRoutesForFamily_def AddRoutes_def for_family_def af_defs split: prod.split option.split)

lemma tun_ip_stages:
  assumes "win_SetTunIP lib luid mtu ip bits w = (None, w')"
  obtains iface n b w1 w2 w3 row where "tunInterfacePrefixFrom ip = Some (iface, n)" "parse_addr4 ip = Some b"
    "0 \<le> bits" "bits \<le> 32" "SetRoutes lib luid [tun_route b bits] w = (None, w1)"
    "SetIPAddresses lib luid [(Addr4 iface, int n)] w1 = (None, w2)" "IPInterface lib luid AF_INET w2 = (Inr row, w3)"
    "ot_set (wl_ipifs lib) (tun_ipif mtu row) w3 = (None, w')"
  using assms that by (auto simp: win_SetTunIP_def not_less split: option.splits if_splits prod.splits sum.splits)

text \<open>
  Configuring the adapter takes effect in the order of the code: first the interface has the one on-link route
  to the address and nothing else, without touching another interface's; then, with its routes in place, it is
  given the address, and again no other interface is touched; the row written last says no router
  discovery, no duplicate detection, metric zero.
\<close>

theorem tun_ip_configures_adapter:
  assumes "win_SetTunIP lib luid mtu ip bits w = (None, w')"
    and "table_laws (wl_routes lib) rview route_key route_family" "table_laws (wl_addrs lib) aview address_key address_family"
  shows "\<exists>b iface w1 w2 w3 row. parse_addr4 ip = Some b \<and> tunInterfacePrefixFrom ip = Some (iface, 24) \<and>
    {k \<in> rview w1. fst k = luid} = {(luid, (Addr4 b, bits), Addr4 [0, 0, 0, 0])} \<and>
    (\<forall>k. fst k \<noteq> luid \<longrightarrow> k \<in> rview w1 \<longleftrightarrow> k \<in> rview w) \<and>
    (luid, Addr4 iface) \<in> aview w2 \<and> (\<forall>k. fst k \<noteq> luid \<longrightarrow> k \<in> aview w2 \<longleftrightarrow> k \<in> aview w1) \<and>
    ot_set (wl_ipifs lib) (tun_ipif mtu row) w3 = (None, w') \<and> ir_Metric (tun_ipif mtu row) = 0 \<and>
    ir_RouterDiscovery (tun_ipif mtu row) = RouterDiscoveryDisabled \<and> ir_DadTransmits (tun_ipif mtu row) = 0"
proof -
  obtain iface n b w1 w2 w3 row where s: "tunInterfacePrefixFrom ip = Some (iface, n)" "parse_addr4 ip = Some b"
    "0 \<le> bits" "bits \<le> 32" "SetRoutes lib luid [tun_route b bits] w = (None, w1)"
    "SetIPAddresses lib luid [(Addr4 iface, int n)] w1 = (None, w2)"
    "ot_set (wl_ipifs lib) (tun_ipif mtu row) w3 = (None, w')"
    using tun_ip_stages[OF assms(1)] by metis
  have len: "length b = 4" using s(2) by (auto simp: parse_addr4_def parse_ip4_def split: list.splits option.splits if_splits)
  have iface: "length iface = 4" "n = 24" using s(1) by (auto simp: tunInterfacePrefixFrom_def Let_def split: option.splits if_splits)
  have "\<forall>rd \<in> set [tun_route b bits]. valid_route rd"
    using s(3,4) len by (simp add: tun_route_def valid_route_def valid_prefix_def valid_addr_def bit_len_def)
  note r = set_routes[OF assms(2) _ this s(5)[unfolded SetRoutes_all]]
  have "wanted_route luid (tun_route b bits) = (luid, (Addr4 b, bits), Addr4 [0, 0, 0, 0])"
    by (simp add: wanted_route_def tun_route_def without_zone_def zone_number_def)
  then have routes: "{k \<in> rview w1. fst k = luid} = {(luid, (Addr4 b, bits), Addr4 [0, 0, 0, 0])}"
    "\<forall>k. fst k \<noteq> luid \<longrightarrow> k \<in> rview w1 \<longleftrightarrow> k \<in> rview w"
    using r by (auto simp: covers_def)
  have "\<forall>np \<in> set [(Addr4 iface, int n)]. valid_addr (fst np)" using iface by (simp add: valid_addr_def)
  from set_addresses_adds_all[OF assms(3) this s(6)]
  have "(luid, Addr4 iface) \<in> aview w2" "\<forall>k. fst k \<noteq> luid \<longrightarrow> k \<in> aview w2 \<longleftrightarrow> k \<in> aview w1"
    by (simp_all add: zone_number_def)
  with s routes iface show ?thesis
    by (intro exI[of _ b] exI[of _ iface] exI[of _ w1] exI[of _ w2] exI[of _ w3] exI[of _ row])
       (simp add: tun_ipif_def Let_def)
qed

text \<open>\<open>InitWintunDll\<close>: the driver lies beside the program, which then loads it from there.\<close>

definition InitWintunDll :: "string option \<Rightarrow> (string \<Rightarrow> bool) \<Rightarrow> (string \<Rightarrow> bool) \<Rightarrow> bool" where
  "InitWintunDll exeDir present loadable =
     (case exeDir of
        None \<Rightarrow> False
      | Some dir \<Rightarrow> present (dir @ [char_of (92 :: nat)] @ ''wintun.dll'') \<and> loadable dir)"

record win_tun_env =
  wt_dll :: bool
  wt_create :: bool
  wt_native :: bool
  wt_mtu :: bool
  wt_endpoint :: bool

text \<open>\<open>Open\<close> of \<open>tun_windows.go\<close>; the device that was created is closed on every later failure.\<close>

definition win_Open :: "win_tun_env \<Rightarrow> netstack \<Rightarrow> nat option \<times> netstack" where
  "win_Open env s =
     (if \<not> wt_dll env then (None, s)
      else if \<not> wt_create env then (None, s)
      else let fd = ns_next s;
               s1 = s\<lparr> ns_open_devs := fd # ns_open_devs s, ns_next := Suc fd \<rparr>
           in if \<not> wt_native env then (None, close_dev fd s1)
              else if \<not> wt_mtu env then (None, close_dev fd s1)
              else if \<not> wt_endpoint env then (None, close_dev fd s1)
              else (Some fd, s1))"

text \<open>Opening is the same on both systems, so what is shown about leaks on Linux holds here.\<close>

lemma win_Open_as_tun_Open:
  "win_Open env s = tun_Open (e\<lparr> ne_open := wt_dll env \<and> wt_create env, ne_setMTU := wt_native env, ne_getMTU := wt_mtu env,
     ne_fdbased := wt_endpoint env \<rparr>) s"
  by (simp add: win_Open_def tun_Open_def Let_def)

end
