(* ===== verification/Transport_Kcp.thy ===== *)
theory Transport_Kcp
  imports Session_Proto "HOL-Library.Multiset"
begin

text \<open>
  The tunnel's transport, \<open>tls2\<close>: the choice between QUIC and KCP, and the KCP session of \<open>kcp.go\<close>. There every
  blocking call of the library runs in a goroutine of its own that leaves its result in a channel, and
  the caller waits for that channel or for its context; so a call can end before its goroutine does.
  A state holds all calls of a session with what each holds, and a step is what a goroutine, a caller or the
  peer does next. A listener is such a session of sessions.
\<close>

section \<open>Choice\<close>

datatype protocol = ProtoKCP | ProtoQUIC

definition uses_kcp :: "string \<Rightarrow> bool" where
  "uses_kcp transport \<longleftrightarrow> equal_fold (trim_space transport) ''kcp''"

definition Dial :: "string \<Rightarrow> protocol" where
  "Dial transport = (if uses_kcp transport then ProtoKCP else ProtoQUIC)"

definition Listen :: "string \<Rightarrow> protocol" where
  "Listen transport = (if uses_kcp transport then ProtoKCP else ProtoQUIC)"

text \<open>What \<open>smuxConf\<close> and \<open>applyKCP\<close> set; times in seconds, sizes in bytes and packets.\<close>

record smux_config =
  sm_Version :: nat
  sm_KeepAliveInterval :: nat
  sm_KeepAliveTimeout :: nat
  sm_MaxStreamBuffer :: nat

definition smuxConf :: smux_config where
  "smuxConf = \<lparr> sm_Version = 2, sm_KeepAliveInterval = 10, sm_KeepAliveTimeout = 120, sm_MaxStreamBuffer = 256 * 1024 \<rparr>"

record kcp_setting =
  kp_stream :: bool
  kp_nodelay :: "nat \<times> nat \<times> nat \<times> nat"
  kp_window :: "nat \<times> nat"
  kp_ackNoDelay :: bool

definition applyKCP :: kcp_setting where
  "applyKCP = \<lparr> kp_stream = True, kp_nodelay = (1, 20, 2, 1), kp_window = (1024, 1024), kp_ackNoDelay = True \<rparr>"

text \<open>
  The two ends agree on the protocol when the remote end's transport is one that the configuration can
  hold: the local end gets it through \<open>sessionTransport\<close>, the remote end uses it as it is.
\<close>

lemma ends_choose_alike:
  assumes "t \<in> {TransportKCP, TransportQUIC}"
  shows "Dial (sessionTransport t) = Listen t" "Listen (sessionTransport t) = Dial t"
proof -
  have "sessionTransport t = t"
    using assms
    by (auto simp: sessionTransport_def NormalizeTransport_def ui_consts trim_space_def trim_left_def trim_right_def
      ascii_space_def space2_def space3_def lower_char_def dotted_I_def kelvin_def)
  then show "Dial (sessionTransport t) = Listen t" "Listen (sessionTransport t) = Dial t"
    by (simp_all add: Dial_def Listen_def)
qed

section \<open>A session\<close>

text \<open>
  A call waits, has its result in the channel, was left by its caller (before or after the goroutine had a
  result), or has returned; \<open>None\<close> is an error. Streams are numbered as they come to be, by either side.
\<close>

datatype call_kind = OpenCall | AcceptCall

datatype call_phase = Running | Got "nat option" | Abandoned | AbandonedGot "nat option" | Returned "nat option"

record kcp_sess =
  ks_calls :: "(call_kind \<times> call_phase) list"
  ks_incoming :: "nat list"
  ks_made :: nat
  ks_closed :: "nat list"

definition kcp_init :: kcp_sess where
  "kcp_init = \<lparr> ks_calls = [], ks_incoming = [], ks_made = 0, ks_closed = [] \<rparr>"

definition set_phase :: "nat \<Rightarrow> call_phase \<Rightarrow> kcp_sess \<Rightarrow> kcp_sess" where
  "set_phase i p s = s\<lparr> ks_calls := (ks_calls s)[i := (fst (ks_calls s ! i), p)] \<rparr>"

text \<open>The goroutine puts its result into the channel, whether anybody waits or not.\<close>

definition put_result :: "nat \<Rightarrow> nat option \<Rightarrow> kcp_sess \<Rightarrow> kcp_sess" where
  "put_result i r s = set_phase i (if snd (ks_calls s ! i) = Running then Got r else AbandonedGot r) s"

definition goroutine_runs :: "kcp_sess \<Rightarrow> nat \<Rightarrow> call_kind \<Rightarrow> bool" where
  "goroutine_runs s i k \<longleftrightarrow> i < length (ks_calls s) \<and> fst (ks_calls s ! i) = k \<and> snd (ks_calls s ! i) \<in> {Running, Abandoned}"

text \<open>The caller's \<open>select\<close>: the context is done, also when a result is there.\<close>

definition ctx_done :: "nat \<Rightarrow> kcp_sess \<Rightarrow> kcp_sess" where
  "ctx_done i s =
     (case snd (ks_calls s ! i) of
        Running \<Rightarrow> set_phase i Abandoned s
      | Got r \<Rightarrow> set_phase i (AbandonedGot r) s
      | _ \<Rightarrow> s)"

text \<open>The goroutine that \<open>OpenStreamSync\<close> starts when its context is done; \<open>AcceptStream\<close> starts none.\<close>

definition close_late :: "nat \<Rightarrow> nat option \<Rightarrow> kcp_sess \<Rightarrow> kcp_sess" where
  "close_late i r s =
     (let s1 = set_phase i (Returned None) s
      in case r of None \<Rightarrow> s1 | Some st \<Rightarrow> s1\<lparr> ks_closed := st # ks_closed s1 \<rparr>)"

inductive kcp_step :: "kcp_sess \<Rightarrow> kcp_sess \<Rightarrow> bool" where
  call: "kcp_step s (s\<lparr> ks_calls := ks_calls s @ [(k, Running)] \<rparr>)"
| peer: "kcp_step s (s\<lparr> ks_incoming := ks_incoming s @ [ks_made s], ks_made := Suc (ks_made s) \<rparr>)"
| opened: "goroutine_runs s i OpenCall \<Longrightarrow>
    kcp_step s ((put_result i (Some (ks_made s)) s)\<lparr> ks_made := Suc (ks_made s) \<rparr>)"
| accepted: "goroutine_runs s i AcceptCall \<Longrightarrow> ks_incoming s = st # rest \<Longrightarrow>
    kcp_step s ((put_result i (Some st) s)\<lparr> ks_incoming := rest \<rparr>)"
| failed: "goroutine_runs s i k \<Longrightarrow> kcp_step s (put_result i None s)"
| returned: "i < length (ks_calls s) \<Longrightarrow> snd (ks_calls s ! i) = Got r \<Longrightarrow> kcp_step s (set_phase i (Returned r) s)"
| cancelled: "i < length (ks_calls s) \<Longrightarrow> kcp_step s (ctx_done i s)"
| late: "i < length (ks_calls s) \<Longrightarrow> ks_calls s ! i = (OpenCall, AbandonedGot r) \<Longrightarrow> kcp_step s (close_late i r s)"

inductive_cases kcp_stepE: "kcp_step s s'"

inductive kcp_reach :: "kcp_sess \<Rightarrow> bool" where
  init: "kcp_reach kcp_init"
| step: "kcp_reach s \<Longrightarrow> kcp_step s s' \<Longrightarrow> kcp_reach s'"

text \<open>\<open>wrapKCP\<close> and \<open>CloseWithError\<close>: what is closed, in order.\<close>

datatype kcp_part = MuxPart | SessionPart | ListenerPart

definition wrapKCP :: "bool \<Rightarrow> bool \<times> kcp_part list" where
  "wrapKCP mux_ok = (if mux_ok then (True, []) else (False, [SessionPart]))"

definition CloseWithError :: "bool \<Rightarrow> bool \<Rightarrow> bool \<Rightarrow> kcp_part list" where
  "CloseWithError mux sess ln =
     (if mux then [MuxPart] else []) @ (if sess then [SessionPart] else []) @ (if ln then [ListenerPart] else [])"

section \<open>Where the streams are\<close>

fun held :: "call_kind \<times> call_phase \<Rightarrow> nat list" where
  "held (k, Got (Some st)) = [st]"
| "held (k, AbandonedGot (Some st)) = [st]"
| "held (k, Returned (Some st)) = [st]"
| "held _ = []"

definition all_held :: "kcp_sess \<Rightarrow> nat list" where
  "all_held s = concat (map held (ks_calls s))"

definition kcp_ok :: "kcp_sess \<Rightarrow> bool" where
  "kcp_ok s \<longleftrightarrow> mset (all_held s) + mset (ks_incoming s) + mset (ks_closed s) = mset [0..<ks_made s]"

lemma mset_concat_update:
  "i < length xs \<Longrightarrow> mset (concat (map f (xs[i := y]))) + mset (f (xs ! i)) = mset (concat (map f xs)) + mset (f y)"
  by (induction xs arbitrary: i) (auto split: nat.split simp: less_Suc_eq_0_disj)

lemma in_held_iff: "st \<in> set (held (k, p)) \<longleftrightarrow> p \<in> {Got (Some st), AbandonedGot (Some st), Returned (Some st)}"
  by (cases "(k, p)" rule: held.cases) auto

lemma held_set_phase:
  assumes "i < length (ks_calls s)"
  shows "mset (all_held (set_phase i p s)) + mset (held (ks_calls s ! i)) =
    mset (all_held s) + mset (held (fst (ks_calls s ! i), p))"
  using mset_concat_update[OF assms] by (simp add: all_held_def set_phase_def)

lemma set_phase_simps [simp]:
  "ks_incoming (set_phase i p s) = ks_incoming s" "ks_made (set_phase i p s) = ks_made s"
  "ks_closed (set_phase i p s) = ks_closed s"
  "all_held (s\<lparr> ks_made := n \<rparr>) = all_held s" "all_held (s\<lparr> ks_incoming := xs \<rparr>) = all_held s"
  "all_held (s\<lparr> ks_closed := xs \<rparr>) = all_held s"
  by (simp_all add: set_phase_def all_held_def)

lemma all_held_call: "all_held (s\<lparr> ks_calls := ks_calls s @ [(k, Running)] \<rparr>) = all_held s"
  by (simp add: all_held_def)

lemma put_result_held:
  assumes "goroutine_runs s i k"
  shows "mset (all_held (put_result i r s)) = mset (all_held s) + mset (case r of None \<Rightarrow> [] | Some st \<Rightarrow> [st])"
proof -
  have "held (ks_calls s ! i) = []"
    using assms by (cases "ks_calls s ! i") (auto simp: goroutine_runs_def)
  moreover have "held (q, if c then Got r else AbandonedGot r) = (case r of None \<Rightarrow> [] | Some st \<Rightarrow> [st])" for q c
    by (cases r) simp_all
  ultimately show ?thesis
    using held_set_phase[of i s] assms by (simp add: put_result_def goroutine_runs_def)
qed

lemma put_result_simps [simp]:
  "ks_incoming (put_result i r s) = ks_incoming s" "ks_made (put_result i r s) = ks_made s"
  "ks_closed (put_result i r s) = ks_closed s"
  by (simp_all add: put_result_def)

lemma kcp_step_ok: "kcp_step s s' \<Longrightarrow> kcp_ok s \<Longrightarrow> kcp_ok s'"
proof (erule kcp_stepE)
  fix i r assume s: "kcp_ok s" and g: "i < length (ks_calls s)" "snd (ks_calls s ! i) = Got r" "s' = set_phase i (Returned r) s"
  have "held (ks_calls s ! i) = held (fst (ks_calls s ! i), Returned r)"
    using g(2) by (cases "ks_calls s ! i"; cases r) auto
  then show ?thesis using s held_set_phase[OF g(1), of "Returned r"] g(3) by (simp add: kcp_ok_def)
next
  fix i assume s: "kcp_ok s" and g: "i < length (ks_calls s)" "s' = ctx_done i s"
  show ?thesis
  proof (cases "snd (ks_calls s ! i)")
    case Running
    then have "held (ks_calls s ! i) = []" by (cases "ks_calls s ! i") auto
    then show ?thesis using Running s held_set_phase[OF g(1), of Abandoned] g(2) by (simp add: kcp_ok_def ctx_done_def)
  next
    case (Got r)
    then have "held (ks_calls s ! i) = held (fst (ks_calls s ! i), AbandonedGot r)"
      by (cases "ks_calls s ! i"; cases r) auto
    then show ?thesis using Got s held_set_phase[OF g(1), of "AbandonedGot r"] g(2) by (simp add: kcp_ok_def ctx_done_def)
  qed (use s g(2) in \<open>simp_all add: ctx_done_def\<close>)
next
  fix i r assume s: "kcp_ok s"
    and g: "i < length (ks_calls s)" "ks_calls s ! i = (OpenCall, AbandonedGot r)" "s' = close_late i r s"
  show ?thesis
    using s held_set_phase[OF g(1), of "Returned None"] g(2,3)
    by (cases r) (simp_all add: kcp_ok_def close_late_def Let_def flip: union_mset_add_mset_left)
qed (auto simp: kcp_ok_def put_result_held all_held_call)

lemma kcp_reach_ok: "kcp_reach s \<Longrightarrow> kcp_ok s"
proof (induction rule: kcp_reach.induct)
  case init
  show ?case by (simp add: kcp_ok_def kcp_init_def all_held_def)
qed (rule kcp_step_ok)

text \<open>
  No stream is in two places, and none is forgotten by \<open>OpenStreamSync\<close>: when every call has come to its
  end, a stream waits to be accepted, was closed, belongs to the one caller it was returned to, or lies in
  the channel of an \<open>AcceptStream\<close> whose caller has gone.
\<close>

definition call_over :: "call_kind \<times> call_phase \<Rightarrow> bool" where
  "call_over c \<longleftrightarrow> (\<exists>r. snd c = Returned r) \<or> fst c = AcceptCall \<and> (\<exists>r. snd c = AbandonedGot r)"

theorem streams_accounted_for:
  assumes "kcp_reach s" "\<forall>c \<in> set (ks_calls s). call_over c" "st < ks_made s"
  shows "distinct (all_held s @ ks_incoming s @ ks_closed s)"
    "st \<in> set (ks_incoming s) \<or> st \<in> set (ks_closed s) \<or> (\<exists>k. (k, Returned (Some st)) \<in> set (ks_calls s)) \<or>
     (AcceptCall, AbandonedGot (Some st)) \<in> set (ks_calls s)"
proof -
  have m: "mset (all_held s @ ks_incoming s @ ks_closed s) = mset [0..<ks_made s]"
    using kcp_reach_ok[OF assms(1)] by (simp add: kcp_ok_def add.assoc)
  then show "distinct (all_held s @ ks_incoming s @ ks_closed s)" by (metis distinct_upt mset_eq_imp_distinct_iff)
  have "st \<in> set (all_held s @ ks_incoming s @ ks_closed s)" using assms(3) mset_eq_setD[OF m] by simp
  moreover have "(\<exists>k. (k, Returned (Some st)) \<in> set (ks_calls s)) \<or> (AcceptCall, AbandonedGot (Some st)) \<in> set (ks_calls s)"
    if h: "st \<in> set (all_held s)"
  proof -
    obtain c where c: "c \<in> set (ks_calls s)" "st \<in> set (held c)" 
      using h unfolding all_held_def set_concat set_map by blast
    obtain k p where kp: "c = (k, p)" by (cases c)
    have "call_over c" using assms(2) c(1) by blast
    then show ?thesis using c kp by (auto simp: call_over_def in_held_iff)
  qed
  ultimately show "st \<in> set (ks_incoming s) \<or> st \<in> set (ks_closed s) \<or> (\<exists>k. (k, Returned (Some st)) \<in> set (ks_calls s)) \<or>
     (AcceptCall, AbandonedGot (Some st)) \<in> set (ks_calls s)"
    by auto
qed

text \<open>
  The last case is a defect. A caller of \<open>AcceptStream\<close> gives up, the next one waits, the peer opens a stream: the
  goroutine of the first call takes it, and it is neither returned nor closed, then or ever.
\<close>

lemma abandoned_stays:
  assumes "kcp_step s s'" "i < length (ks_calls s)" "ks_calls s ! i = (AcceptCall, AbandonedGot r)"
  shows "i < length (ks_calls s') \<and> ks_calls s' ! i = (AcceptCall, AbandonedGot r)"
  using assms
  by (auto elim!: kcp_stepE simp: put_result_def set_phase_def ctx_done_def close_late_def goroutine_runs_def nth_append
      nth_list_update Let_def split: call_phase.splits option.splits)

theorem cancelled_accept_swallows_stream:
  "\<exists>s. kcp_reach s \<and> ks_calls s = [(AcceptCall, AbandonedGot (Some 0)), (AcceptCall, Running)] \<and> ks_incoming s = [] \<and>
     (\<forall>s'. kcp_step\<^sup>*\<^sup>* s s' \<longrightarrow> ks_calls s' ! 0 = (AcceptCall, AbandonedGot (Some 0)))"
proof -
  define s where "s = \<lparr> ks_calls = [(AcceptCall, AbandonedGot (Some 0)), (AcceptCall, Running)], ks_incoming = [],
      ks_made = 1, ks_closed = [] \<rparr>"
  have "kcp_reach \<lparr> ks_calls = [(AcceptCall, Running)], ks_incoming = [], ks_made = 0, ks_closed = [] \<rparr>"
    using kcp_reach.step[OF kcp_reach.init kcp_step.call[of _ AcceptCall]] by (simp add: kcp_init_def)
  from kcp_reach.step[OF this kcp_step.cancelled[of 0]]
  have "kcp_reach \<lparr> ks_calls = [(AcceptCall, Abandoned)], ks_incoming = [], ks_made = 0, ks_closed = [] \<rparr>"
    by (simp add: ctx_done_def set_phase_def)
  from kcp_reach.step[OF this kcp_step.call[of _ AcceptCall]]
  have "kcp_reach \<lparr> ks_calls = [(AcceptCall, Abandoned), (AcceptCall, Running)], ks_incoming = [], ks_made = 0, ks_closed = [] \<rparr>"
    by simp
  from kcp_reach.step[OF this kcp_step.peer]
  have "kcp_reach \<lparr> ks_calls = [(AcceptCall, Abandoned), (AcceptCall, Running)], ks_incoming = [0], ks_made = 1, ks_closed = [] \<rparr>"
    by simp
  from kcp_reach.step[OF this kcp_step.accepted[of _ 0]]
  have r: "kcp_reach s" by (simp add: s_def goroutine_runs_def put_result_def set_phase_def)
  have "0 < length (ks_calls s') \<and> ks_calls s' ! 0 = (AcceptCall, AbandonedGot (Some 0))" if "kcp_step\<^sup>*\<^sup>* s s'" for s'
    using that
  proof induction
    case base
    show ?case by (simp add: s_def)
  next
    case (step y z)
    then show ?case using abandoned_stays by blast
  qed
  then show ?thesis using r by (intro exI[of _ s]) (simp add: s_def)
qed

section \<open>Dialling and listening\<close>

text \<open>
  A connection, with the role of its multiplexer and whether closing it closes a listener too. \<open>dialKCP\<close>,
  \<open>listenKCP\<close> and what \<open>Accept\<close> makes of a session; the flags say whether the library's calls succeed.
\<close>

record kcp_end =
  ke_client :: bool
  ke_setting :: kcp_setting
  ke_mux :: smux_config
  ke_listener :: bool

definition wrapped :: "bool \<Rightarrow> bool \<Rightarrow> bool \<Rightarrow> kcp_end option \<times> kcp_part list" where
  "wrapped mux_ok client ln =
     (case wrapKCP mux_ok of
        (False, closed) \<Rightarrow> (None, closed)
      | (True, closed) \<Rightarrow>
          (Some \<lparr> ke_client = client, ke_setting = applyKCP, ke_mux = smuxConf, ke_listener = ln \<rparr>, closed))"

definition dialKCP :: "bool \<Rightarrow> bool \<Rightarrow> kcp_end option \<times> kcp_part list" where
  "dialKCP conn_ok mux_ok = (if \<not> conn_ok then (None, []) else wrapped mux_ok True False)"

definition listenKCP :: "bool \<Rightarrow> bool" where
  "listenKCP serve_ok = serve_ok"

definition accepted_session :: "bool \<Rightarrow> bool \<Rightarrow> kcp_end option \<times> kcp_part list" where
  "accepted_session conn_ok mux_ok = (if \<not> conn_ok then (None, []) else wrapped mux_ok False True)"

definition close_end :: "kcp_end \<Rightarrow> kcp_part list" where
  "close_end e = CloseWithError True True (ke_listener e)"

text \<open>
  The two ends have opposite roles and the same settings; only the accepting end closes its listener with the
  connection, and a session without a multiplexer is closed at once.
\<close>

lemma kcp_ends_fit:
  assumes "dialKCP s1 m1 = (Some d, c1)" "accepted_session s2 m2 = (Some a, c2)"
  shows "ke_client d \<noteq> ke_client a \<and> ke_setting d = ke_setting a \<and> ke_mux d = ke_mux a"
    "ListenerPart \<in> set (close_end a) \<and> ListenerPart \<notin> set (close_end d)" "c1 = [] \<and> c2 = []"
  using assms
  by (auto simp: dialKCP_def accepted_session_def wrapped_def wrapKCP_def close_end_def CloseWithError_def split: if_splits)

lemma no_session_left_open:
  "fst (dialKCP True mux_ok) = None \<Longrightarrow> snd (dialKCP True mux_ok) = [SessionPart]"
  "fst (accepted_session True mux_ok) = None \<Longrightarrow> snd (accepted_session True mux_ok) = [SessionPart]"
  by (cases mux_ok; simp add: dialKCP_def accepted_session_def wrapped_def wrapKCP_def)+

text \<open>
  \<open>Accept\<close> of a listener is built like \<open>AcceptStream\<close>, with sessions in place of streams: a listener's run is one in
  which there are only such calls.
\<close>

inductive listener_reach :: "kcp_sess \<Rightarrow> bool" where
  init: "listener_reach kcp_init"
| step: "listener_reach s \<Longrightarrow> kcp_step s s' \<Longrightarrow> \<forall>c \<in> set (ks_calls s'). fst c = AcceptCall \<Longrightarrow> listener_reach s'"

lemma listener_reach_kcp: "listener_reach s \<Longrightarrow> kcp_reach s"
  by (induction rule: listener_reach.induct) (auto intro: kcp_reach.intros)

lemma listener_calls: "listener_reach s \<Longrightarrow> \<forall>c \<in> set (ks_calls s). fst c = AcceptCall"
  by (induction rule: listener_reach.induct) (simp_all add: kcp_init_def)

text \<open>
  A session that no caller gets is never closed: once all calls are over it waits in the listener, or lies in the
  channel of a call that was given up.
\<close>

lemma listener_closes_nothing: "listener_reach s \<Longrightarrow> ks_closed s = []"
proof (induction rule: listener_reach.induct)
  case (step s s')
  have "\<not> (i < length (ks_calls s) \<and> ks_calls s ! i = (OpenCall, p))" for i p
    using listener_calls[OF step(1)] by (metis call_kind.distinct(1) fst_conv nth_mem)
  then show ?case
    using step(2,4) by (auto elim!: kcp_stepE simp: set_phase_def ctx_done_def put_result_def split: call_phase.splits)
qed (simp add: kcp_init_def)

lemma lost_sessions:
  assumes "listener_reach s" "\<forall>c \<in> set (ks_calls s). call_over c" "st < ks_made s"
    "\<not> (\<exists>k. (k, Returned (Some st)) \<in> set (ks_calls s))"
  shows "st \<in> set (ks_incoming s) \<or> (AcceptCall, AbandonedGot (Some st)) \<in> set (ks_calls s)"
  using streams_accounted_for(2)[OF listener_reach_kcp[OF assms(1)] assms(2,3)] listener_closes_nothing[OF assms(1)] assms(4)
  by auto

end
