(* ===== verification/Main_Entry.thy ===== *)
theory Main_Entry
  imports Config_Args
begin

text \<open>
  How the program starts: \<open>main.go\<close> with the flags of \<open>config/args.go\<close> (which of its roles a command line selects),
  and \<open>utils/single_instance.go\<close> with its Unix half (one interface at a time, and a second start that makes the
  first one show itself). The syntax of numbers in flags is an argument; fetching the runtime configuration, the
  profiler and signals are left out.
\<close>

section \<open>Flags\<close>

record cli_flags =
  fl_v :: bool
  fl_pprof_addr :: string
  fl_stun_ip :: string
  fl_stun_port :: int
  fl_redis_addr :: string
  fl_redis_tls_addr :: string
  fl_redis_pass :: string
  fl_redis_id :: int
  fl_ui :: bool
  fl_service_id :: string
  fl_self_update :: bool
  fl_zip :: string
  fl_wait_pid :: int
  fl_target :: string
  fl_no_browser :: bool

definition default_flags :: cli_flags where
  "default_flags = \<lparr> fl_v = False, fl_pprof_addr = [], fl_stun_ip = [], fl_stun_port = 3478, fl_redis_addr = [],
     fl_redis_tls_addr = [], fl_redis_pass = [], fl_redis_id = 15, fl_ui = False, fl_service_id = [],
     fl_self_update = False, fl_zip = [], fl_wait_pid = 0, fl_target = [], fl_no_browser = False \<rparr>"

datatype flag_kind =
    BoolFlag "bool \<Rightarrow> cli_flags \<Rightarrow> cli_flags"
  | StringFlag "string \<Rightarrow> cli_flags \<Rightarrow> cli_flags"
  | IntFlag "int \<Rightarrow> cli_flags \<Rightarrow> cli_flags"

definition declared_flags :: "(string \<times> flag_kind) list" where
  "declared_flags =
     [(''v'', BoolFlag (\<lambda>x f. f\<lparr> fl_v := x \<rparr>)),
      (''pprof_addr'', StringFlag (\<lambda>x f. f\<lparr> fl_pprof_addr := x \<rparr>)),
      (''stun_svr_ip'', StringFlag (\<lambda>x f. f\<lparr> fl_stun_ip := x \<rparr>)),
      (''stun_svr_port'', IntFlag (\<lambda>x f. f\<lparr> fl_stun_port := x \<rparr>)),
      (''redis_addr'', StringFlag (\<lambda>x f. f\<lparr> fl_redis_addr := x \<rparr>)),
      (''redis_tls_addr'', StringFlag (\<lambda>x f. f\<lparr> fl_redis_tls_addr := x \<rparr>)),
      (''redis_pass'', StringFlag (\<lambda>x f. f\<lparr> fl_redis_pass := x \<rparr>)),
      (''redis_id'', IntFlag (\<lambda>x f. f\<lparr> fl_redis_id := x \<rparr>)),
      (''ui'', BoolFlag (\<lambda>x f. f\<lparr> fl_ui := x \<rparr>)),
      (''service-id'', StringFlag (\<lambda>x f. f\<lparr> fl_service_id := x \<rparr>)),
      (''self-update'', BoolFlag (\<lambda>x f. f\<lparr> fl_self_update := x \<rparr>)),
      (''zip'', StringFlag (\<lambda>x f. f\<lparr> fl_zip := x \<rparr>)),
      (''wait-pid'', IntFlag (\<lambda>x f. f\<lparr> fl_wait_pid := x \<rparr>)),
      (''target'', StringFlag (\<lambda>x f. f\<lparr> fl_target := x \<rparr>)),
      (''no-browser'', BoolFlag (\<lambda>x f. f\<lparr> fl_no_browser := x \<rparr>))]"

text \<open>\<open>flag.Parse\<close>: one argument as a flag, with its value when one is attached.\<close>

datatype flag_word = NoFlag | EndOfFlags | BadSyntax | FlagWord string "string option"

definition flag_word_of :: "string \<Rightarrow> flag_word" where
  "flag_word_of s =
     (if length s < 2 \<or> hd s \<noteq> CHR ''-'' then NoFlag
      else let two = (s ! 1 = CHR ''-''); name = drop (if two then 2 else 1) s
      in if two \<and> length s = 2 then EndOfFlags
         else if name = [] \<or> hd name = CHR ''-'' \<or> hd name = CHR ''='' then BadSyntax
         else case cut_at (CHR ''='') name of
                None \<Rightarrow> FlagWord name None | Some (n, v) \<Rightarrow> FlagWord n (Some v))"

text \<open>The program ends with code 0 when help is asked for, and with 2 on any error.\<close>

datatype flag_result = FlagsOk cli_flags | FlagsExit nat

fun parse_flags :: "(string \<Rightarrow> int option) \<Rightarrow> string list \<Rightarrow> cli_flags \<Rightarrow> flag_result" where
  "parse_flags num [] f = FlagsOk f"
| "parse_flags num (a # rest) f =
     (case flag_word_of a of
        NoFlag \<Rightarrow> FlagsOk f
      | EndOfFlags \<Rightarrow> FlagsOk f
      | BadSyntax \<Rightarrow> FlagsExit 2
      | FlagWord name value \<Rightarrow>
          (case map_of declared_flags name of
             None \<Rightarrow> FlagsExit (if name = ''help'' \<or> name = ''h'' then 0 else 2)
           | Some (BoolFlag upd) \<Rightarrow>
               (case value of
                  None \<Rightarrow> parse_flags num rest (upd True f)
                | Some v \<Rightarrow> (case parse_bool v of None \<Rightarrow> FlagsExit 2 | Some b \<Rightarrow> parse_flags num rest (upd b f)))
           | Some (StringFlag upd) \<Rightarrow>
               (case value of
                  Some v \<Rightarrow> parse_flags num rest (upd v f)
                | None \<Rightarrow> (case rest of [] \<Rightarrow> FlagsExit 2 | v # rest' \<Rightarrow> parse_flags num rest' (upd v f)))
           | Some (IntFlag upd) \<Rightarrow>
               (case value of
                  Some v \<Rightarrow> (case num v of None \<Rightarrow> FlagsExit 2 | Some n \<Rightarrow> parse_flags num rest (upd n f))
                | None \<Rightarrow>
                    (case rest of
                       [] \<Rightarrow> FlagsExit 2
                     | v # rest' \<Rightarrow> (case num v of None \<Rightarrow> FlagsExit 2 | Some n \<Rightarrow> parse_flags num rest' (upd n f))))))"

definition Help :: "(string \<Rightarrow> int option) \<Rightarrow> string list \<Rightarrow> flag_result" where
  "Help num args =
     (case parse_flags num args default_flags of
        FlagsExit n \<Rightarrow> FlagsExit n | FlagsOk f \<Rightarrow> if fl_v f then FlagsExit 0 else FlagsOk f)"

section \<open>The roles\<close>

datatype main_mode =
    ModeUI bool
  | ModeSelfUpdate string int string
  | ModeStunServer string int
  | ModeUsage
  | ModeExit nat
  | ModeWorker cli_flags

text \<open>\<open>main\<close>, of the arguments after the program's name.\<close>

definition main_mode_of :: "(string \<Rightarrow> int option) \<Rightarrow> string list \<Rightarrow> main_mode" where
  "main_mode_of num args =
     (if args = [] then ModeUI True
      else case ParseSelfUpdateArgs args of (zipPath, waitPid, target, ok) \<Rightarrow>
        if ok then ModeSelfUpdate zipPath waitPid target
        else case ParseUILaunchArgs args of (openBrowser, ui_ok) \<Rightarrow>
          if ui_ok then ModeUI openBrowser
          else case Help num args of
            FlagsExit n \<Rightarrow> ModeExit n
          | FlagsOk f \<Rightarrow>
              if fl_stun_ip f \<noteq> [] \<and> fl_stun_port f > 0 then ModeStunServer (fl_stun_ip f) (fl_stun_port f)
              else if \<not> fl_ui f \<or> fl_service_id f = [] then ModeUsage
              else ModeWorker f)"

text \<open>How the interface starts a worker (\<open>startCmdProcess\<close>), and itself with more rights.\<close>

definition worker_command :: "string \<Rightarrow> string list" where
  "worker_command sid = [''--ui'', ''--service-id='' @ sid]"

definition relaunch_command :: "string list" where
  "relaunch_command = [''--no-browser'']"

text \<open>What a worker runs and its exit code: the service, whether \<open>Init\<close> succeeds, and its type.\<close>

datatype worker_run = RunsLocal | RunsRemote | RunsNothing

definition main2_work :: "string option \<Rightarrow> bool \<Rightarrow> worker_run \<times> nat" where
  "main2_work workType init_ok =
     (case workType of
        None \<Rightarrow> (RunsNothing, 1)
      | Some t \<Rightarrow>
          if \<not> init_ok then (RunsNothing, 1)
          else if to_lower t = ''local'' then (RunsLocal, 0)
          else if to_lower t = ''remote'' then (RunsRemote, 0)
          else (RunsNothing, 1))"

lemma service_flag_word: "flag_word_of (''--service-id='' @ sid) = FlagWord ''service-id'' (Some sid)"
  by (simp add: flag_word_of_def)

lemma service_flag_arg: "self_arg_of (''--service-id='' @ sid) = AIgnored" "self_arg_of ''--ui'' = AIgnored"
  by (simp_all add: self_arg_of_def has_prefix_def)

text \<open>
  Every command line the program starts itself with selects the role it is meant to, whatever the identifier of
  the service and the paths are: a worker of that service with no other setting, the update process, the
  interface without a browser.
\<close>

theorem own_commands_select_roles:
  "sid \<noteq> [] \<Longrightarrow> main_mode_of num (worker_command sid) =
     ModeWorker (default_flags\<lparr> fl_ui := True, fl_service_id := sid \<rparr>)"
  "int_min \<le> pid \<Longrightarrow> pid \<le> int_max \<Longrightarrow>
     main_mode_of num (update_command zipPath pid exe) = ModeSelfUpdate zipPath pid exe"
  "main_mode_of num relaunch_command = ModeUI False"
proof -
  assume sid: "sid \<noteq> []"
  define a where "a = ''--service-id='' @ sid"
  have cmd: "worker_command sid = [''--ui'', a]" by (simp add: worker_command_def a_def)
  have "self_arg_of a = AIgnored" unfolding a_def by (rule service_flag_arg)
  then have self: "ParseSelfUpdateArgs [''--ui'', a] = ([], 0, [], False)"
    by (simp add: ParseSelfUpdateArgs_def service_flag_arg(2) no_args_def)
  have ui: "ParseUILaunchArgs [''--ui'', a] = (True, False)"
    by (simp add: ParseUILaunchArgs_def parseBoolFlag_def has_prefix_def)
  have "flag_word_of ''--ui'' = FlagWord ''ui'' None" by (simp add: flag_word_of_def)
  moreover have "flag_word_of a = FlagWord ''service-id'' (Some sid)" unfolding a_def by (rule service_flag_word)
  ultimately have "parse_flags num [''--ui'', a] default_flags = FlagsOk (default_flags\<lparr> fl_ui := True, fl_service_id := sid \<rparr>)"
    by (simp add: declared_flags_def)
  then show "main_mode_of num (worker_command sid) = ModeWorker (default_flags\<lparr> fl_ui := True, fl_service_id := sid \<rparr>)"
    using sid self ui unfolding cmd by (simp add: main_mode_of_def Help_def default_flags_def)
next
  assume "int_min \<le> pid" "pid \<le> int_max"
  then show "main_mode_of num (update_command zipPath pid exe) = ModeSelfUpdate zipPath pid exe"
    by (simp add: main_mode_of_def update_command_parses_back) (simp add: update_command_def)
next
  show "main_mode_of num relaunch_command = ModeUI False"
    by (simp add: main_mode_of_def relaunch_command_def ParseSelfUpdateArgs_def ParseUILaunchArgs_def self_arg_of_def
        has_prefix_def no_args_def parseBoolFlag_def)
qed

section \<open>Start of the interface\<close>

datatype ui_act =
    UNotify | UCleanup | UTrayIcons | UInit | UStartServer | UShowOnRequest | UOpenBrowser | URunLoop | URemovePids

text \<open>
  \<open>runUI\<close>: what it does in order, of whether an instance exists, whether the process has administrator rights or
  could be started again with them, whether it is the single instance and whether the server starts.
\<close>

definition runUI :: "bool \<Rightarrow> bool \<Rightarrow> bool \<Rightarrow> bool \<Rightarrow> bool \<Rightarrow> bool \<Rightarrow> ui_act list" where
  "runUI exists_other admin relaunched single served openBrowser =
     (if exists_other then [UNotify]
      else if \<not> admin \<and> relaunched then []
      else if \<not> single then []
      else [UCleanup, UTrayIcons, UInit, UStartServer] @
        (if \<not> served then []
         else [UShowOnRequest] @ (if openBrowser then [UOpenBrowser] else []) @ [URunLoop, URemovePids]))"

text \<open>Windows only: a command line that is for a person gets the console of the process that started it.\<close>

definition attachParentConsoleIfCLI :: "string list \<Rightarrow> bool" where
  "attachParentConsoleIfCLI args \<longleftrightarrow>
     args \<noteq> [] \<and> \<not> snd (snd (snd (ParseSelfUpdateArgs args))) \<and> \<not> snd (ParseUILaunchArgs args) \<and>
     \<not> list_ex (\<lambda>a. a = ''--ui'' \<or> a = ''-ui'' \<or> has_prefix ''--ui='' a \<or> has_prefix ''-ui='' a) args"

definition quoteArgs :: "string list \<Rightarrow> string" where
  "quoteArgs args =
     join_str '' '' (map (\<lambda>a. if a = [] \<or> list_ex (\<lambda>c. c \<in> set (CHR 0x22 # CHR 0x09 # '' '')) a
       then CHR 0x22 # concat (map (\<lambda>c. if c = CHR 0x22 then [CHR 0x5C, CHR 0x22] else [c]) a) @ [CHR 0x22]
       else a) args)"

lemma quoteArgs_relaunch: "quoteArgs relaunch_command = ''--no-browser''"
  by (simp add: quoteArgs_def relaunch_command_def)

text \<open>No process the program starts by itself takes a console.\<close>

lemma own_commands_take_no_console:
  "\<not> attachParentConsoleIfCLI (worker_command sid)" "\<not> attachParentConsoleIfCLI relaunch_command"
  "int_min \<le> pid \<Longrightarrow> pid \<le> int_max \<Longrightarrow> \<not> attachParentConsoleIfCLI (update_command zipPath pid exe)"
  by (simp_all add: attachParentConsoleIfCLI_def worker_command_def relaunch_command_def ParseUILaunchArgs_def
      parseBoolFlag_def has_prefix_def update_command_parses_back)

section \<open>Processes left from an earlier run, on Unix\<close>

text \<open>
  An entry of \<open>/proc\<close>: its name, whether it is a directory, the target of its link \<open>exe\<close> (when it can be read), and
  the arguments of the process, which the code never looks at. The functions of \<open>path/filepath\<close> are arguments.
\<close>

record proc_entry =
  pe_name :: string
  pe_dir :: bool
  pe_exe :: "string option"
  pe_args :: "string list"

record path_env =
  pa_Abs :: "string \<Rightarrow> string option"
  pa_Clean :: "string \<Rightarrow> string"
  pa_EvalSymlinks :: "string \<Rightarrow> string option"

definition normalizeExePath :: "path_env \<Rightarrow> string \<Rightarrow> string" where
  "normalizeExePath env path =
     (if path = [] then []
      else case pa_Abs env path of
        None \<Rightarrow> []
      | Some a \<Rightarrow> let c = pa_Clean env a in case pa_EvalSymlinks env c of None \<Rightarrow> c | Some r \<Rightarrow> r)"

definition KillProcess_unix :: "int \<Rightarrow> int \<Rightarrow> int list" where
  "KillProcess_unix selfPid pid = (if pid \<le> 0 \<or> pid = selfPid then [] else [pid])"

definition entry_victims :: "path_env \<Rightarrow> string \<Rightarrow> int \<Rightarrow> int \<Rightarrow> proc_entry \<Rightarrow> int list" where
  "entry_victims env self selfPid parentPid e =
     (if \<not> pe_dir e then []
      else case atoi (pe_name e) of
        None \<Rightarrow> []
      | Some pid \<Rightarrow>
          if pid \<le> 0 \<or> pid = selfPid \<or> pid = parentPid then []
          else case pe_exe e of
            None \<Rightarrow> []
          | Some exe \<Rightarrow> if normalizeExePath env exe \<noteq> self then [] else KillProcess_unix selfPid pid)"

definition unix_victims :: "path_env \<Rightarrow> string \<Rightarrow> int \<Rightarrow> int \<Rightarrow> proc_entry list option \<Rightarrow> int list" where
  "unix_victims env cmdExe selfPid parentPid dir =
     (let self = normalizeExePath env cmdExe in
      if self = [] then []
      else case dir of
        None \<Rightarrow> []
      | Some entries \<Rightarrow> concat (map (entry_victims env self selfPid parentPid) entries))"

lemma in_entry_victims:
  "pid \<in> set (entry_victims env self selfPid parentPid e) \<longleftrightarrow>
     pe_dir e \<and> atoi (pe_name e) = Some pid \<and> pid > 0 \<and> pid \<noteq> selfPid \<and> pid \<noteq> parentPid \<and>
     (\<exists>exe. pe_exe e = Some exe \<and> normalizeExePath env exe = self)"
  by (cases "atoi (pe_name e)"; cases "pe_exe e") (auto simp: entry_victims_def KillProcess_unix_def)

text \<open>
  What is killed runs the program's own executable and is neither the process itself nor the one that started it; and
  every such process is killed, whatever its role: a worker of the last run, but also the update process of
  \<open>HandleUpgradeApply\<close> when a new interface starts before it has replaced the executable, and a STUN server.
\<close>

theorem unix_victims_iff:
  "pid \<in> set (unix_victims env cmdExe selfPid parentPid dir) \<longleftrightarrow>
     normalizeExePath env cmdExe \<noteq> [] \<and> pid > 0 \<and> pid \<noteq> selfPid \<and> pid \<noteq> parentPid \<and>
     (\<exists>entries e exe. dir = Some entries \<and> e \<in> set entries \<and> pe_dir e \<and> atoi (pe_name e) = Some pid \<and>
        pe_exe e = Some exe \<and> normalizeExePath env exe = normalizeExePath env cmdExe)"
  by (cases dir) (auto simp: unix_victims_def in_entry_victims Let_def)

lemma cleanup_kills_update_process:
  assumes "normalizeExePath env exe \<noteq> []" "0 < n" "n \<le> int_max" "n \<noteq> selfPid" "n \<noteq> parentPid"
  shows "n \<in> set (unix_victims env exe selfPid parentPid
    (Some [\<lparr> pe_name = go_itoa n, pe_dir = True, pe_exe = Some exe, pe_args = update_command zipPath w exe \<rparr>]))"
  using assms by (auto simp: unix_victims_iff atoi_go_itoa int_min_def)

section \<open>One interface at a time\<close>

text \<open>
  A process that could not open the lock file goes on without the lock. \<open>in_chan p\<close>: the channel of process \<open>p\<close>
  holds its one message. The notification file is in the directory \<open>dir p\<close> that process \<open>p\<close> computes: the temporary
  directory on Unix, that of its executable on Windows.
\<close>

datatype inst_phase = NotStarted | RunsLocked | RunsUnlocked | Gone

record inst_sys =
  in_lock :: "nat option"
  in_phase :: "nat \<Rightarrow> inst_phase"
  in_file :: "string \<Rightarrow> string option"
  in_chan :: "nat \<Rightarrow> bool"
  in_shown :: "nat \<Rightarrow> nat"

definition show_window :: string where "show_window = ''SHOW_WINDOW''"

definition NotifyExistingInstance :: "string \<Rightarrow> bool \<Rightarrow> inst_sys \<Rightarrow> inst_sys" where
  "NotifyExistingInstance dir writable s =
     (if writable then s\<lparr> in_file := (in_file s)(dir := Some show_window) \<rparr> else s)"

definition CheckSingleInstance :: "string \<Rightarrow> bool \<Rightarrow> bool \<Rightarrow> nat \<Rightarrow> inst_sys \<Rightarrow> bool \<times> inst_sys" where
  "CheckSingleInstance dir openable writable p s =
     (if \<not> openable then (True, s\<lparr> in_phase := (in_phase s)(p := RunsUnlocked) \<rparr>)
      else if in_lock s \<noteq> None then
        (False, (NotifyExistingInstance dir writable s)\<lparr> in_phase := (in_phase s)(p := Gone) \<rparr>)
      else (True, s\<lparr> in_lock := Some p, in_phase := (in_phase s)(p := RunsLocked), in_chan := (in_chan s)(p := False) \<rparr>))"

text \<open>On Windows a mutex that cannot be created counts as one that exists, and \<open>InstanceExists\<close> looks for it before.\<close>

definition CheckSingleInstance_windows :: "string \<Rightarrow> bool \<Rightarrow> bool \<Rightarrow> nat \<Rightarrow> inst_sys \<Rightarrow> bool \<times> inst_sys" where
  "CheckSingleInstance_windows dir created writable p s =
     (if \<not> created \<or> in_lock s \<noteq> None then
        (False, (NotifyExistingInstance dir writable s)\<lparr> in_phase := (in_phase s)(p := Gone) \<rparr>)
      else (True, s\<lparr> in_lock := Some p, in_phase := (in_phase s)(p := RunsLocked), in_chan := (in_chan s)(p := False) \<rparr>))"

definition InstanceExists_windows :: "inst_sys \<Rightarrow> bool" where
  "InstanceExists_windows s \<longleftrightarrow> in_lock s \<noteq> None"

text \<open>A turn of the listener; a file that is still being written is left for the next turn.\<close>

definition instance_poll :: "string \<Rightarrow> nat \<Rightarrow> inst_sys \<Rightarrow> inst_sys" where
  "instance_poll dir p s =
     (if in_file s dir = Some show_window
      then s\<lparr> in_file := (in_file s)(dir := None), in_chan := (in_chan s)(p := True) \<rparr> else s)"

definition instance_show :: "nat \<Rightarrow> inst_sys \<Rightarrow> inst_sys" where
  "instance_show p s = s\<lparr> in_chan := (in_chan s)(p := False), in_shown := (in_shown s)(p := Suc (in_shown s p)) \<rparr>"

text \<open>The system releases the lock of a process that ends.\<close>

definition instance_exit :: "nat \<Rightarrow> inst_sys \<Rightarrow> inst_sys" where
  "instance_exit p s =
     s\<lparr> in_phase := (in_phase s)(p := Gone), in_lock := (if in_lock s = Some p then None else in_lock s) \<rparr>"

inductive inst_step :: "bool \<Rightarrow> bool \<Rightarrow> (nat \<Rightarrow> string) \<Rightarrow> inst_sys \<Rightarrow> inst_sys \<Rightarrow> bool" for windows lockable dir where
  start: "in_phase s p = NotStarted \<Longrightarrow> \<not> windows \<Longrightarrow> lockable \<longrightarrow> openable \<Longrightarrow>
    inst_step windows lockable dir s (snd (CheckSingleInstance (dir p) openable writable p s))"
| start_windows: "in_phase s p = NotStarted \<Longrightarrow> windows \<Longrightarrow>
    inst_step windows lockable dir s (snd (CheckSingleInstance_windows (dir p) created writable p s))"
| exists_windows: "in_phase s p = NotStarted \<Longrightarrow> windows \<Longrightarrow> InstanceExists_windows s \<Longrightarrow>
    inst_step windows lockable dir s
      ((NotifyExistingInstance (dir p) writable s)\<lparr> in_phase := (in_phase s)(p := Gone) \<rparr>)"
| poll: "in_phase s p = RunsLocked \<Longrightarrow> inst_step windows lockable dir s (instance_poll (dir p) p s)"
| shown: "in_phase s p = RunsLocked \<Longrightarrow> in_chan s p \<Longrightarrow> inst_step windows lockable dir s (instance_show p s)"
| exits: "in_phase s p \<in> {RunsLocked, RunsUnlocked} \<Longrightarrow> inst_step windows lockable dir s (instance_exit p s)"
| tampered: "inst_step windows lockable dir s (s\<lparr> in_file := x \<rparr>)"

inductive_cases inst_stepE: "inst_step windows lockable dir s s'"

inductive inst_reach :: "bool \<Rightarrow> bool \<Rightarrow> (nat \<Rightarrow> string) \<Rightarrow> inst_sys \<Rightarrow> bool" for windows lockable dir where
  init: "in_lock s = None \<Longrightarrow> in_phase s = (\<lambda>p. NotStarted) \<Longrightarrow> inst_reach windows lockable dir s"
| step: "inst_reach windows lockable dir s \<Longrightarrow> inst_step windows lockable dir s s' \<Longrightarrow> inst_reach windows lockable dir s'"

definition inst_ok :: "bool \<Rightarrow> inst_sys \<Rightarrow> bool" where
  "inst_ok lockable s \<longleftrightarrow>
     (case in_lock s of None \<Rightarrow> \<forall>p. in_phase s p \<noteq> RunsLocked | Some q \<Rightarrow> \<forall>p. in_phase s p = RunsLocked \<longleftrightarrow> p = q) \<and>
     (lockable \<longrightarrow> (\<forall>p. in_phase s p \<noteq> RunsUnlocked))"

lemma inst_step_ok:
  "inst_step windows lockable dir s s' \<Longrightarrow> inst_ok (lockable \<or> windows) s \<Longrightarrow> inst_ok (lockable \<or> windows) s'"
  by (erule inst_stepE)
     (auto simp: inst_ok_def CheckSingleInstance_def CheckSingleInstance_windows_def NotifyExistingInstance_def
       instance_poll_def instance_show_def instance_exit_def split: if_splits option.splits,
      (metis inst_phase.distinct(1))+)

lemma inst_reach_ok: "inst_reach windows lockable dir s \<Longrightarrow> inst_ok (lockable \<or> windows) s"
proof (induction rule: inst_reach.induct)
  case (init s)
  then show ?case by (simp add: inst_ok_def)
qed (rule inst_step_ok)

text \<open>
  Two processes never hold the lock; on Windows, and on Unix when the lock file can always be opened, two
  interfaces never run. A start that finds one running ends, and leaves a message that the running one turns
  into a window, provided both look in the same directory.
\<close>

theorem one_interface:
  assumes "inst_reach windows lockable dir s"
  shows "in_phase s p = RunsLocked \<Longrightarrow> in_phase s q = RunsLocked \<Longrightarrow> p = q"
    "lockable \<or> windows \<Longrightarrow> in_phase s p \<in> {RunsLocked, RunsUnlocked} \<Longrightarrow>
      in_phase s q \<in> {RunsLocked, RunsUnlocked} \<Longrightarrow> p = q"
  using inst_reach_ok[OF assms] by (auto simp: inst_ok_def split: option.splits)

lemma second_start_shows_window:
  assumes "inst_reach windows lockable dir s" "in_phase s p = RunsLocked" "dir q = dir p"
    "(r, t) \<in> {CheckSingleInstance (dir q) True True q s, CheckSingleInstance_windows (dir q) created True q s}"
  shows "\<not> r \<and> in_chan (instance_poll (dir p) p t) p \<and> in_file (instance_poll (dir p) p t) (dir p) = None \<and>
    in_shown (instance_show p (instance_poll (dir p) p t)) p = Suc (in_shown s p)"
  using assms inst_reach_ok[OF assms(1)]
  by (auto simp: inst_ok_def CheckSingleInstance_def CheckSingleInstance_windows_def NotifyExistingInstance_def
      instance_poll_def instance_show_def split: option.splits)

text \<open>
  On Windows the lock is one for the whole machine and the directory is that of the executable: a copy of the program
  in another directory ends without a word, and the running interface does not open its window.
\<close>

lemma other_copy_unheard:
  assumes "inst_reach True lockable dir s" "in_phase s p = RunsLocked" "dir q \<noteq> dir p" "in_file s (dir p) = None"
  shows "fst (CheckSingleInstance_windows (dir q) created writable q s) = False \<and>
    instance_poll (dir p) p (snd (CheckSingleInstance_windows (dir q) created writable q s)) =
      snd (CheckSingleInstance_windows (dir q) created writable q s)"
  using assms inst_reach_ok[OF assms(1)]
  by (auto simp: inst_ok_def CheckSingleInstance_windows_def NotifyExistingInstance_def instance_poll_def
      split: option.splits)

text \<open>The interface cleans up, and so kills, only as the single instance.\<close>

lemma cleanup_only_single:
  "UCleanup \<in> set (runUI exists_other admin relaunched single served openBrowser) \<Longrightarrow> single \<and> \<not> exists_other"
  by (auto simp: runUI_def split: if_splits)

end
