(* ===== verification/Netstack_Run.thy ===== *)
theory Netstack_Run
  imports Netstack_Link Netstack_Fwd
begin

text \<open>
  The life of an adapter's end point, \<open>netstack/endpoint_tun.go\<close>: its two loops from \<open>Attach\<close> to their end, with
  \<open>Close\<close>, \<open>Wait\<close> and the closing of the adapter, in every order; the options of captured connections,
  \<open>tcp.go\<close> and \<open>udp.go\<close>; and the adapter of macOS, \<open>tun_darwin.go\<close> and \<open>setup_darwin.go\<close>. What a loop does between its
  start and its end is in \<open>Netstack_Link\<close>; here a turn of the reading loop only tells whether it ends.
\<close>

section \<open>The end point\<close>

datatype loop_state = LoopIdle | Looping | LoopEnded

text \<open>
  \<open>el_once\<close>: the loops were started; \<open>el_cancel\<close>: there is a function that ends their context; \<open>el_wg\<close>: the counter of
  the wait group; the adapter is open; the packet queue towards it is open.
\<close>

record ep_life =
  el_attached :: bool
  el_once :: bool
  el_cancel :: bool
  el_ctxDone :: bool
  el_wg :: nat
  el_dispatch :: loop_state
  el_outbound :: loop_state
  el_dev_open :: bool
  el_queue_open :: bool

definition el_new :: ep_life where
  "el_new = \<lparr> el_attached = False, el_once = False, el_cancel = False, el_ctxDone = False, el_wg = 0,
     el_dispatch = LoopIdle, el_outbound = LoopIdle, el_dev_open = True, el_queue_open = True \<rparr>"

text \<open>The stack attaches itself with a dispatcher and detaches itself with none.\<close>

definition ep_Attach :: "bool \<Rightarrow> ep_life \<Rightarrow> ep_life" where
  "ep_Attach dispatcher s =
     (let s1 = s\<lparr> el_attached := dispatcher \<rparr>
      in if el_once s then s1
         else s1\<lparr> el_once := True, el_cancel := True, el_wg := el_wg s + 2, el_outbound := Looping, el_dispatch := Looping \<rparr>)"

definition ep_Close :: "ep_life \<Rightarrow> ep_life" where
  "ep_Close s =
     (let s1 = (if el_cancel s then s\<lparr> el_ctxDone := True \<rparr> else s)
      in s1\<lparr> el_queue_open := False \<rparr>)"

text \<open>\<open>Close\<close> of the adapter: the device, then, deferred, the end point.\<close>

definition tun_Close :: "ep_life \<Rightarrow> ep_life" where
  "tun_Close s = ep_Close (s\<lparr> el_dev_open := False \<rparr>)"

definition ep_Wait_returns :: "ep_life \<Rightarrow> bool" where
  "ep_Wait_returns s \<longleftrightarrow> el_wg s = 0"

text \<open>A read of the reading loop; the loop that ends cancels the context and is counted off.\<close>

definition dispatch_read :: "endpoint \<Rightarrow> nat \<Rightarrow> dev_read \<Rightarrow> ep_life \<Rightarrow> ep_life" where
  "dispatch_read e retryDelay r s =
     (case (if ep_batch e then batch_turn else single_turn) e retryDelay r of
        Quit \<Rightarrow> s\<lparr> el_dispatch := LoopEnded, el_ctxDone := True, el_wg := el_wg s - 1 \<rparr>
      | _ \<Rightarrow> s)"

text \<open>\<open>ReadContext\<close> gives no packet once the context is done and nothing waits.\<close>

definition outbound_end :: "ep_life \<Rightarrow> ep_life" where
  "outbound_end s = s\<lparr> el_outbound := LoopEnded, el_wg := el_wg s - 1 \<rparr>"

text \<open>
  The steps of an end point with a device that, closed, fails every read with \<open>os.ErrClosed\<close>; \<open>lost\<close> is a device that
  fails for another reason.
\<close>

definition closed_read :: dev_read where
  "closed_read = \<lparr> dr_err = Some \<lparr> de_EOF = False, de_Closed = True, de_Net = None, de_Errno = None \<rparr>, dr_bufs = [],
     dr_attached = False \<rparr>"

inductive ep_step :: "endpoint \<Rightarrow> ep_life \<Rightarrow> ep_life \<Rightarrow> bool" for e where
  attach: "ep_step e s (ep_Attach d s)"
| closes: "ep_step e s (ep_Close s)"
| dev_closes: "ep_step e s (tun_Close s)"
| reads: "el_dispatch s = Looping \<Longrightarrow> el_dev_open s \<or> r = closed_read \<Longrightarrow> ep_step e s (dispatch_read e retryDelay r s)"
| out_ends: "el_outbound s = Looping \<Longrightarrow> el_ctxDone s \<Longrightarrow> ep_step e s (outbound_end s)"

inductive_cases ep_stepE: "ep_step e s s'"

inductive ep_reach :: "endpoint \<Rightarrow> ep_life \<Rightarrow> bool" for e where
  init: "ep_reach e el_new"
| step: "ep_reach e s \<Longrightarrow> ep_step e s s' \<Longrightarrow> ep_reach e s'"

definition loops_running :: "ep_life \<Rightarrow> nat" where
  "loops_running s = (if el_dispatch s = Looping then 1 else 0) + (if el_outbound s = Looping then 1 else 0)"

definition ep_life_ok :: "ep_life \<Rightarrow> bool" where
  "ep_life_ok s \<longleftrightarrow> el_wg s = loops_running s \<and> el_cancel s = el_once s \<and>
     (el_once s \<longleftrightarrow> el_dispatch s \<noteq> LoopIdle) \<and> (el_once s \<longleftrightarrow> el_outbound s \<noteq> LoopIdle) \<and>
     (el_dispatch s = LoopEnded \<longrightarrow> el_ctxDone s) \<and> (el_outbound s = LoopEnded \<longrightarrow> el_ctxDone s)"

lemmas ep_life_defs = ep_Attach_def ep_Close_def tun_Close_def outbound_end_def loops_running_def

lemma dispatch_read_cases:
  "dispatch_read e d r s = s \<or>
     dispatch_read e d r s = s\<lparr> el_dispatch := LoopEnded, el_ctxDone := True, el_wg := el_wg s - 1 \<rparr>"
  by (simp add: dispatch_read_def split: dispatch_turn.split)

lemma dispatch_read_closed:
  "dispatch_read e d closed_read s = s\<lparr> el_dispatch := LoopEnded, el_ctxDone := True, el_wg := el_wg s - 1 \<rparr>"
  by (simp add: dispatch_read_def closed_read_def batch_turn_def single_turn_def isTemporaryError_def)

lemma dispatch_read_ok: "el_dispatch s = Looping \<Longrightarrow> ep_life_ok s \<Longrightarrow> ep_life_ok (dispatch_read e d r s)"
  using dispatch_read_cases[of e d r s] by (auto simp: ep_life_ok_def loops_running_def)

lemma ep_step_ok: "ep_step e s s' \<Longrightarrow> ep_life_ok s \<Longrightarrow> ep_life_ok s'"
  by (erule ep_stepE) (auto simp: dispatch_read_ok, auto simp: ep_life_ok_def ep_life_defs Let_def)

lemma ep_reach_ok: "ep_reach e s \<Longrightarrow> ep_life_ok s"
proof (induction rule: ep_reach.induct)
  case init
  show ?case by (simp add: ep_life_ok_def loops_running_def el_new_def)
qed (rule ep_step_ok)

text \<open>
  The loops start at most once, and one that ended never runs again. When the device is closed, each loop still
  running has a step that ends it and no step keeps it from that one, so \<open>Wait\<close> comes to return whatever else
  happens; it returns before the first \<open>Attach\<close> as well, and not while a loop runs.
\<close>

definition loop_steps :: "endpoint \<Rightarrow> ep_life \<Rightarrow> ep_life" where
  "loop_steps e s =
     (let s1 = (if el_dispatch s = Looping then dispatch_read e 0 closed_read s else s)
      in if el_outbound s1 = Looping \<and> el_ctxDone s1 then outbound_end s1 else s1)"

lemma loops_never_restart:
  assumes "ep_step e s s'" "ep_reach e s"
  shows "el_dispatch s = LoopEnded \<Longrightarrow> el_dispatch s' = LoopEnded"
    "el_outbound s = LoopEnded \<Longrightarrow> el_outbound s' = LoopEnded"
    "el_once s \<Longrightarrow> loops_running s' \<le> loops_running s"
  using assms(1) ep_reach_ok[OF assms(2)]
  by (auto elim!: ep_stepE simp: ep_life_ok_def ep_life_defs dispatch_read_def Let_def split: dispatch_turn.splits)

lemma loop_steps_run: "\<not> el_dev_open s \<Longrightarrow> (ep_step e)\<^sup>*\<^sup>* s (loop_steps e s)"
proof -
  define s1 where "s1 = (if el_dispatch s = Looping then dispatch_read e 0 closed_read s else s)"
  have "(ep_step e)\<^sup>*\<^sup>* s s1" unfolding s1_def by (auto intro: ep_step.reads)
  moreover have "(ep_step e)\<^sup>*\<^sup>* s1 (loop_steps e s)"
    unfolding loop_steps_def Let_def s1_def[symmetric] by (auto intro: ep_step.out_ends)
  ultimately show ?thesis by (rule rtranclp_trans)
qed

theorem closed_adapter_stops:
  assumes "ep_reach e s" "\<not> el_dev_open s"
  shows "(ep_step e)\<^sup>*\<^sup>* s (loop_steps e s)" "ep_Wait_returns (loop_steps e s)"
    "ep_Wait_returns s \<longleftrightarrow> el_dispatch s \<noteq> Looping \<and> el_outbound s \<noteq> Looping"
proof -
  have ok: "ep_life_ok s" by (rule ep_reach_ok[OF assms(1)])
  show "(ep_step e)\<^sup>*\<^sup>* s (loop_steps e s)" by (rule loop_steps_run[OF assms(2)])
  show "ep_Wait_returns s \<longleftrightarrow> el_dispatch s \<noteq> Looping \<and> el_outbound s \<noteq> Looping"
    using ok by (auto simp: ep_Wait_returns_def ep_life_ok_def loops_running_def)
  show "ep_Wait_returns (loop_steps e s)"
  proof (cases "el_dispatch s")
    case LoopIdle
    then show ?thesis using ok by (auto simp: ep_Wait_returns_def loop_steps_def ep_life_ok_def loops_running_def Let_def)
  next
    case Looping
    then show ?thesis using ok
      by (simp add: ep_Wait_returns_def loop_steps_def dispatch_read_closed ep_life_ok_def ep_life_defs Let_def)
  next
    case LoopEnded
    then show ?thesis using ok
      by (simp add: ep_Wait_returns_def loop_steps_def ep_life_ok_def ep_life_defs Let_def)
  qed
qed

text \<open>
  A device lost while it is open ends both loops for good, and nothing else changes: the stack stays attached and its
  queue open, and no step, attaching again included, starts a loop. What the health check of the stack reads is the
  stack's own mark on the adapter, not the loops.
\<close>

definition lost_read :: dev_read where
  "lost_read = \<lparr> dr_err = Some \<lparr> de_EOF = False, de_Closed = False, de_Net = None, de_Errno = Some OtherErrno \<rparr>,
     dr_bufs = [], dr_attached = True \<rparr>"

lemma lost_device_stays_attached:
  assumes "ep_reach e s" "el_dispatch s = Looping" "el_dev_open s"
  shows "ep_step e s (dispatch_read e d lost_read s)"
    "el_attached (dispatch_read e d lost_read s) = el_attached s \<and> el_queue_open (dispatch_read e d lost_read s) = el_queue_open s"
    "(ep_step e)\<^sup>*\<^sup>* (dispatch_read e d lost_read s) t \<Longrightarrow> el_dispatch t = LoopEnded"
proof -
  have ended: "dispatch_read e d lost_read s = s\<lparr> el_dispatch := LoopEnded, el_ctxDone := True, el_wg := el_wg s - 1 \<rparr>"
    by (simp add: dispatch_read_def lost_read_def batch_turn_def single_turn_def isTemporaryError_def)
  show st: "ep_step e s (dispatch_read e d lost_read s)" using assms(2,3) by (auto intro: ep_step.reads)
  show "el_attached (dispatch_read e d lost_read s) = el_attached s \<and> el_queue_open (dispatch_read e d lost_read s) = el_queue_open s"
    by (simp add: ended)
  assume "(ep_step e)\<^sup>*\<^sup>* (dispatch_read e d lost_read s) t"
  then have "ep_reach e t \<and> el_dispatch t = LoopEnded"
  proof induction
    case base
    show ?case using ep_reach.step[OF assms(1) st] by (simp add: ended)
  next
    case (step y z)
    then show ?case using ep_reach.step loops_never_restart(1) by blast
  qed
  then show "el_dispatch t = LoopEnded" ..
qed

section \<open>Options of captured connections\<close>

text \<open>What is set on an end point of the stack, in order; times in seconds. A call that fails sets nothing.\<close>

datatype sock_set =
    SetKeepAlive bool
  | SetKeepaliveIdle nat
  | SetKeepaliveInterval nat
  | SetKeepaliveCount nat
  | SetSendBuffer nat bool
  | SetReceiveBuffer nat bool
  | SetDelay bool
  | SetQuickAck bool
  | SetReuseAddress bool
  | SetReusePort bool

definition defaultSendBufferSize :: nat where "defaultSendBufferSize = 4 * 1024 * 1024"
definition defaultReceiveBufferSize :: nat where "defaultReceiveBufferSize = 4 * 1024 * 1024"
definition tcpKeepaliveCount :: nat where "tcpKeepaliveCount = 6"
definition tcpKeepaliveIdle :: nat where "tcpKeepaliveIdle = 30"
definition tcpKeepaliveInterval :: nat where "tcpKeepaliveInterval = 10"
definition udpSendBufferSize :: nat where "udpSendBufferSize = 256 * 1024"
definition udpReceiveBufferSize :: nat where "udpReceiveBufferSize = 256 * 1024"

definition setSocketOptions :: "(sock_set \<Rightarrow> bool) \<Rightarrow> bool \<times> sock_set list" where
  "setSocketOptions accepts =
     (let keep = [SetKeepAlive True] in
      if \<not> accepts (SetKeepaliveIdle tcpKeepaliveIdle) then (False, keep)
      else let idle = keep @ [SetKeepaliveIdle tcpKeepaliveIdle] in
      if \<not> accepts (SetKeepaliveInterval tcpKeepaliveInterval) then (False, idle)
      else let interval = idle @ [SetKeepaliveInterval tcpKeepaliveInterval] in
      if \<not> accepts (SetKeepaliveCount tcpKeepaliveCount) then (False, interval)
      else (True, interval @ [SetKeepaliveCount tcpKeepaliveCount, SetSendBuffer defaultSendBufferSize True,
        SetReceiveBuffer defaultReceiveBufferSize True, SetDelay False, SetQuickAck True, SetReuseAddress True,
        SetReusePort True]))"

definition setUdpSocketOptions :: "sock_set list" where
  "setUdpSocketOptions = [SetSendBuffer udpSendBufferSize True, SetReceiveBuffer udpReceiveBufferSize True]"

text \<open>
  Nagle's algorithm is off on a captured connection exactly when the three keep-alive calls work; the handler does not
  look at the result and relays the connection either way.
\<close>

lemma delay_off_iff_accepted:
  "SetDelay False \<in> set (snd (setSocketOptions accepts)) \<longleftrightarrow> fst (setSocketOptions accepts)"
  "fst (setSocketOptions accepts) \<longleftrightarrow> accepts (SetKeepaliveIdle tcpKeepaliveIdle) \<and>
     accepts (SetKeepaliveInterval tcpKeepaliveInterval) \<and> accepts (SetKeepaliveCount tcpKeepaliveCount)"
  by (simp_all add: setSocketOptions_def Let_def)

section \<open>The adapter of macOS\<close>

record darwin_env =
  dw_create :: bool
  dw_native :: bool
  dw_name :: "string option"
  dw_mtu :: "nat option"

text \<open>
  \<open>Open\<close>: the system chooses the name; a panic of the type assertion is turned into an error, with the device left
  open. The MTU asked for is that of the argument unless it is 0.
\<close>

definition darwin_forcedMTU :: "nat \<Rightarrow> nat" where
  "darwin_forcedMTU mtu = (if mtu > 0 then mtu else 0)"

definition darwin_Open :: "darwin_env \<Rightarrow> netstack \<Rightarrow> (nat \<times> string \<times> endpoint) option \<times> netstack" where
  "darwin_Open env s =
     (if \<not> dw_create env then (None, s)
      else let fd = ns_next s; s1 = s\<lparr> ns_open_devs := fd # ns_open_devs s, ns_next := Suc fd \<rparr>
           in if \<not> dw_native env then (None, s1)
              else case dw_name env of
                None \<Rightarrow> (None, close_dev fd s1)
              | Some actualName \<Rightarrow>
                  (case dw_mtu env of
                     None \<Rightarrow> (None, close_dev fd s1)
                   | Some m \<Rightarrow>
                       (case NewEndpoint (Some True) (unat (of_nat m :: 32 word)) 4 of
                          Inl _ \<Rightarrow> (None, close_dev fd s1)
                        | Inr ep \<Rightarrow> (Some (fd, actualName, ep), s1))))"

definition darwin_SetTunIP :: "ns_env \<Rightarrow> string \<Rightarrow> string \<Rightarrow> nat \<Rightarrow> netstack \<Rightarrow> bool \<times> netstack" where
  "darwin_SetTunIP env devName ip bits s =
     (case run_cmd env [''ifconfig'', devName, ip @ ''/'' @ dec_nat bits, ''up''] s of
        (False, s1) \<Rightarrow> (False, s1)
      | (True, s1) \<Rightarrow>
          (case run_cmd env [''ifconfig'', devName, ''mtu'', dec_nat TunMTU] s1 of
             (False, s2) \<Rightarrow> (False, s2)
           | (True, s2) \<Rightarrow> run_cmd env [''route'', ''add'', ''-host'', ip, ''-interface'', devName] s2))"

text \<open>An adapter that cannot be used is closed, and one that opens reads and writes behind a head of four bytes.\<close>

lemma darwin_Open_closes:
  assumes "darwin_Open env s = (r, t)" "ns_next s \<notin> set (ns_open_devs s)" "dw_native env"
  shows "case r of
      None \<Rightarrow> ns_open_devs t = ns_open_devs s
    | Some (fd, n, ep) \<Rightarrow> ns_open_devs t = fd # ns_open_devs s \<and> dw_name env = Some n \<and> ep_offset ep = 4 \<and> ep_mtu ep > 0 \<and> ep_batch ep"
  using assms
  by (auto simp: darwin_Open_def close_dev_def NewEndpoint_def Let_def split: if_splits option.splits sum.splits)

text \<open>The commands stop at the first that fails, and success means that all three worked.\<close>

lemma darwin_SetTunIP_stages:
  assumes "darwin_SetTunIP env devName ip bits s = (ok, t)"
  defines "cmds \<equiv> [[''ifconfig'', devName, ip @ ''/'' @ dec_nat bits, ''up''], [''ifconfig'', devName, ''mtu'', dec_nat TunMTU],
      [''route'', ''add'', ''-host'', ip, ''-interface'', devName]]"
  shows "ok \<longleftrightarrow> list_all (ne_run env) cmds"
    "\<exists>k \<in> {1, 2, 3}. ns_cmds t = ns_cmds s @ take k cmds \<and> list_all (ne_run env) (take (k - 1) cmds)"
proof -
  show "ok \<longleftrightarrow> list_all (ne_run env) cmds"
    using assms by (auto simp: darwin_SetTunIP_def run_cmd_def split: prod.splits bool.splits)
  show "\<exists>k \<in> {1, 2, 3}. ns_cmds t = ns_cmds s @ take k cmds \<and> list_all (ne_run env) (take (k - 1) cmds)"
    using assms by (auto simp: darwin_SetTunIP_def run_cmd_def numeral_2_eq_2 numeral_3_eq_3 split: prod.splits bool.splits)
qed

end
