(* ===== verification/Netstack_Device.thy ===== *)
theory Netstack_Device
  imports Netstack_Run Windows_Net
begin

text \<open>
  The calls below the adapter (\<open>netstack\<close>): \<open>setMTU\<close> of \<open>tun_linux.go\<close> and the address setting of
  \<open>setup_linux.go\<close> by \<open>ioctl\<close>, with the requests they send in their order, and the adapter of Windows and macOS
  (\<open>tun_windows.go\<close>, \<open>tun_darwin.go\<close>, \<open>tun_batch.go\<close>), whose single reads and writes borrow their arrays from
  pools. The kernel and the native adapter are parameters.
\<close>

section \<open>Requests to the kernel\<close>

text \<open>
  A request names an interface and carries a value; \<open>NewIfreq\<close> refuses names that do not fit, and
  \<open>None\<close> is then the null pointer it returns. \<open>SetInet4Addr\<close> refuses anything but four octets and leaves
  the value empty.
\<close>

datatype ioctl_cmd = SIOCGIFFLAGS | SIOCSIFFLAGS | SIOCSIFADDR | SIOCSIFNETMASK | SIOCSIFMTU

datatype ifr_value = IfrZero | IfrUint16 u16 | IfrUint32 u32 | IfrInet4 bytes

type_synonym ifreq = "string \<times> ifr_value"

definition IFNAMSIZ :: nat where "IFNAMSIZ = 16"
definition AF_INET_fd :: int where "AF_INET_fd = 2"
definition IFF_UP :: u16 where "IFF_UP = 1"
definition IFF_NOARP :: u16 where "IFF_NOARP = 0x80"

definition NewIfreq :: "string \<Rightarrow> ifreq option" where
  "NewIfreq name = (if length name \<ge> IFNAMSIZ then None else Some (name, IfrZero))"

definition SetUint16 :: "u16 \<Rightarrow> ifreq \<Rightarrow> ifreq" where
  "SetUint16 v r = (fst r, IfrUint16 v)"

definition SetUint32 :: "u32 \<Rightarrow> ifreq \<Rightarrow> ifreq" where
  "SetUint32 v r = (fst r, IfrUint32 v)"

definition SetInet4Addr :: "bytes option \<Rightarrow> ifreq \<Rightarrow> ifreq" where
  "SetInet4Addr v r =
     (case v of
        None \<Rightarrow> r
      | Some b \<Rightarrow> if length b = 4 then (fst r, IfrInet4 b) else r)"

text \<open>
  The kernel answers a request with an error number, 0 for none, and with what the first two octets of
  the value hold afterwards. The requests made are recorded with the descriptor they were made on.
\<close>

type_synonym 'k kernel = "int \<Rightarrow> ioctl_cmd \<Rightarrow> ifreq option \<Rightarrow> 'k \<Rightarrow> nat \<times> u16 \<times> 'k"
type_synonym 'k io = "'k \<times> (int \<times> ioctl_cmd \<times> ifreq option) list"

definition sys_ioctl :: "'k kernel \<Rightarrow> int \<Rightarrow> ioctl_cmd \<Rightarrow> ifreq option \<Rightarrow> 'k io \<Rightarrow> nat \<times> u16 \<times> 'k io" where
  "sys_ioctl kern fd cmd req st =
     (case kern fd cmd req (fst st) of
        (errno, v, k) \<Rightarrow> (errno, v, (k, snd st @ [(fd, cmd, req)])))"

section \<open>The address of an interface\<close>

text \<open>The step that failed, in the order of the code; a null pointer that was accepted would be dereferenced.\<close>

datatype set_ip_step = NotExists | PreCheck | SetDown | SetAddr | SetMask | SetUp

datatype set_ip_result = IpSet | IpFailed set_ip_step nat | IpPanic

definition checkInterfaceExists :: "'k kernel \<Rightarrow> string \<Rightarrow> 'k io \<Rightarrow> nat \<times> 'k io" where
  "checkInterfaceExists kern name st =
     (case sys_ioctl kern AF_INET_fd SIOCGIFFLAGS (NewIfreq name) st of (errno, _, st') \<Rightarrow> (errno, st'))"

definition down_flags :: "u16 \<Rightarrow> u16" where
  "down_flags originalFlags = and originalFlags (not IFF_UP)"

definition up_flags :: "u16 \<Rightarrow> u16" where
  "up_flags originalFlags = and (or originalFlags IFF_UP) (not IFF_NOARP)"

definition activate :: "'k kernel \<Rightarrow> ifreq \<Rightarrow> u16 \<Rightarrow> 'k io \<Rightarrow> set_ip_result \<times> 'k io" where
  "activate kern req originalFlags st =
     (case sys_ioctl kern AF_INET_fd SIOCSIFFLAGS (Some (SetUint16 (up_flags originalFlags) req)) st of
        (errno, _, st') \<Rightarrow> (if errno \<noteq> 0 then IpFailed SetUp errno else IpSet, st'))"

definition assign_ip :: "'k kernel \<Rightarrow> ifreq \<Rightarrow> ip \<Rightarrow> bytes \<Rightarrow> u16 \<Rightarrow> 'k io \<Rightarrow> set_ip_result \<times> 'k io" where
  "assign_ip kern req ip msk originalFlags st =
     (case sys_ioctl kern AF_INET_fd SIOCSIFADDR (Some (SetInet4Addr (to4 ip) req)) st of
        (errno, _, st1) \<Rightarrow>
          if errno \<noteq> 0 then (IpFailed SetAddr errno, st1)
          else case sys_ioctl kern AF_INET_fd SIOCSIFNETMASK (Some (SetInet4Addr (to4 msk) req)) st1 of
            (errno', _, st2) \<Rightarrow>
              if errno' \<noteq> 0 then (IpFailed SetMask errno', st2)
              else activate kern req originalFlags st2)"

definition setUnixIP :: "'k kernel \<Rightarrow> string \<Rightarrow> ip \<Rightarrow> bytes \<Rightarrow> 'k io \<Rightarrow> set_ip_result \<times> 'k io" where
  "setUnixIP kern name ip msk st =
     (case checkInterfaceExists kern name st of
        (errno, st1) \<Rightarrow>
          if errno \<noteq> 0 then (IpFailed NotExists errno, st1)
          else case sys_ioctl kern AF_INET_fd SIOCGIFFLAGS (NewIfreq name) st1 of
            (errno', originalFlags, st2) \<Rightarrow>
              if errno' \<noteq> 0 then (IpFailed PreCheck errno', st2)
              else case NewIfreq name of
                None \<Rightarrow> (IpPanic, st2)
              | Some req \<Rightarrow>
                  (case sys_ioctl kern AF_INET_fd SIOCSIFFLAGS (Some (SetUint16 (down_flags originalFlags) req)) st2 of
                     (errno'', _, st3) \<Rightarrow>
                       if errno'' \<noteq> 0 then (IpFailed SetDown errno'', st3)
                       else assign_ip kern req ip msk originalFlags st3))"

lemmas set_ip_defs = setUnixIP_def assign_ip_def activate_def checkInterfaceExists_def sys_ioctl_def

text \<open>The requests of a complete run: the address and the mask are set between going down and coming up.\<close>

definition set_ip_requests :: "ifreq \<Rightarrow> ip \<Rightarrow> bytes \<Rightarrow> u16 \<Rightarrow> (ioctl_cmd \<times> ifreq option) list" where
  "set_ip_requests req ip msk f =
     [(SIOCGIFFLAGS, Some req), (SIOCGIFFLAGS, Some req),
      (SIOCSIFFLAGS, Some (SetUint16 (down_flags f) req)),
      (SIOCSIFADDR, Some (SetInet4Addr (to4 ip) req)),
      (SIOCSIFNETMASK, Some (SetInet4Addr (to4 msk) req)),
      (SIOCSIFFLAGS, Some (SetUint16 (up_flags f) req))]"

definition step_number :: "set_ip_step \<Rightarrow> nat" where
  "step_number p = (case p of NotExists \<Rightarrow> 1 | PreCheck \<Rightarrow> 2 | SetDown \<Rightarrow> 3 | SetAddr \<Rightarrow> 4 | SetMask \<Rightarrow> 5 | SetUp \<Rightarrow> 6)"

text \<open>The requests of every run on a name that fits: all of them, or the first ones up to the one refused.\<close>

theorem set_ip_sends_prefix:
  assumes "NewIfreq name = Some req" "setUnixIP kern name ip msk (k, tr) = (r, k', tr')"
  shows "\<exists>f. tr' = tr @ map (Pair AF_INET_fd)
       (case r of IpFailed p _ \<Rightarrow> take (step_number p) (set_ip_requests req ip msk f) | _ \<Rightarrow> set_ip_requests req ip msk f) \<and>
     r \<noteq> IpPanic"
  using assms
  by (auto simp: set_ip_defs set_ip_requests_def step_number_def split: prod.splits if_splits)

text \<open>After a refused address, mask or activation no request brings the interface up again.\<close>

corollary failed_set_ip_stays_down:
  assumes "NewIfreq name = Some req" "setUnixIP kern name ip msk (k, tr) = (IpFailed p e, k', tr')" "p \<in> {SetAddr, SetMask}"
  shows "\<exists>f. [c \<leftarrow> drop (length tr) tr'. fst (snd c) = SIOCSIFFLAGS] =
     [(AF_INET_fd, SIOCSIFFLAGS, Some (SetUint16 (down_flags f) req))]"
proof -
  obtain f where "tr' = tr @ map (Pair AF_INET_fd) (take (step_number p) (set_ip_requests req ip msk f))"
    using set_ip_sends_prefix[OF assms(1,2)] by auto
  then show ?thesis using assms(3) by (auto simp: set_ip_requests_def step_number_def intro!: exI[of _ f])
qed

text \<open>The flags asked for at the end: up and with address resolution, everything else as it was.\<close>

lemma up_flags_bits:
  "bit (up_flags f) i \<longleftrightarrow> (i = 0 \<or> bit f i) \<and> i \<noteq> 7 \<and> i < 16"
  "bit (down_flags f) i \<longleftrightarrow> bit f i \<and> i \<noteq> 0"
proof -
  have b: "bit IFF_NOARP i \<longleftrightarrow> i = 7" "bit IFF_UP i \<longleftrightarrow> i = 0"
  proof -
    have p: "IFF_NOARP = push_bit 7 1" by (simp add: IFF_NOARP_def push_bit_eq_mult)
    have "bit (push_bit 7 (1 :: u16)) i \<longleftrightarrow> i = 7" by (simp only: bit_push_bit_iff bit_1_iff) auto
    then show "bit IFF_NOARP i \<longleftrightarrow> i = 7" by (simp only: p)
    show "bit IFF_UP i \<longleftrightarrow> i = 0" by (auto simp: IFF_UP_def bit_1_iff)
  qed
  show "bit (up_flags f) i \<longleftrightarrow> (i = 0 \<or> bit f i) \<and> i \<noteq> 7 \<and> i < 16"
    using bit_imp_le_length[of f i] by (auto simp: up_flags_def bit_and_iff bit_or_iff bit_not_iff b)
  show "bit (down_flags f) i \<longleftrightarrow> bit f i \<and> i \<noteq> 0"
    using bit_imp_le_length[of f i] by (auto simp: down_flags_def bit_and_iff bit_not_iff b)
qed

text \<open>
  Every request goes to descriptor 2, the number of an address family and not of a socket the function opened.
  A kernel that takes these requests on sockets only refuses the first one, and the interface is
  reported missing.
\<close>

theorem set_ip_needs_socket:
  assumes "\<And>cmd req k. fst (kern AF_INET_fd cmd req k) = enotsock" "enotsock \<noteq> 0"
  shows "fst (setUnixIP kern name ip msk st) = IpFailed NotExists enotsock"
proof -
  have "fst (kern AF_INET_fd SIOCGIFFLAGS (NewIfreq name) (fst st)) = enotsock" by (rule assms(1))
  then show ?thesis using assms(2) by (auto simp: set_ip_defs split: prod.splits)
qed

text \<open>An address that is not IPv4 is not refused before the interface is down: the empty request is sent.\<close>

lemma set_ip_six_sends_empty:
  assumes "NewIfreq name = Some req" "to4 ip = None"
  shows "set_ip_requests req ip msk f ! 3 = (SIOCSIFADDR, Some (name, IfrZero))"
  using assms by (auto simp: set_ip_requests_def SetInet4Addr_def NewIfreq_def split: if_splits)

section \<open>The size of packets on Linux\<close>

datatype mtu_event = SocketOpened int | SocketIoctl int ioctl_cmd "ifreq option" | SocketClosed int

datatype mtu_error = SocketErr nat | IfreqErr | IoctlErr nat

text \<open>\<open>sock\<close> is what opening the datagram socket gave: an error number or the descriptor.\<close>

definition setMTU :: "'k kernel \<Rightarrow> nat + int \<Rightarrow> string \<Rightarrow> u32 \<Rightarrow> 'k \<Rightarrow> mtu_error option \<times> mtu_event list \<times> 'k" where
  "setMTU kern sock name n k =
     (case sock of
        Inl e \<Rightarrow> (Some (SocketErr e), [], k)
      | Inr fd \<Rightarrow>
          (case NewIfreq name of
             None \<Rightarrow> (Some IfreqErr, [SocketOpened fd, SocketClosed fd], k)
           | Some req \<Rightarrow>
               (case kern fd SIOCSIFMTU (Some (SetUint32 n req)) k of
                  (errno, _, k') \<Rightarrow>
                    (if errno \<noteq> 0 then Some (IoctlErr errno) else None,
                     [SocketOpened fd, SocketIoctl fd SIOCSIFMTU (Some (SetUint32 n req)), SocketClosed fd], k'))))"

fun opened_fds :: "mtu_event list \<Rightarrow> int list" where
  "opened_fds [] = []"
| "opened_fds (SocketOpened fd # es) = opened_fds es @ [fd]"
| "opened_fds (SocketClosed fd # es) = removeAll fd (opened_fds es)"
| "opened_fds (SocketIoctl fd c r # es) = opened_fds es"

text \<open>Nothing stays open, whatever fails, and the request goes to the socket that was opened for it.\<close>

lemma setMTU_closes_socket:
  assumes "setMTU kern sock name n k = (r, es, k')"
  shows "opened_fds (rev es) = []"
    "SocketIoctl fd c q \<in> set es \<Longrightarrow> sock = Inr fd \<and> c = SIOCSIFMTU \<and> q = Some (name, IfrUint32 n)"
  using assms
  by (auto simp: setMTU_def NewIfreq_def SetUint32_def split: sum.splits option.splits prod.splits if_splits)

text \<open>
  \<open>Open\<close> with the calls it makes: a name too long is refused first, which is what \<open>NewIfreq\<close> in \<open>setMTU\<close>
  would refuse. What \<open>tun_Open\<close> takes from its environment is computed here.
\<close>

definition linux_Open ::
  "'k kernel \<Rightarrow> nat + int \<Rightarrow> string \<Rightarrow> u32 \<Rightarrow> 'k \<Rightarrow> ns_env \<Rightarrow> netstack \<Rightarrow> nat option \<times> netstack" where
  "linux_Open kern sock name m k env s =
     tun_Open (env\<lparr> ne_open := length name < IFNAMSIZ \<and> ne_open env,
                    ne_setMTU := (m > 0 \<longrightarrow> fst (setMTU kern sock name m k) = None) \<rparr>) s"

lemma linux_Open_failure:
  assumes "linux_Open kern sock name m k env s = (None, t)" "ne_open env" "ne_getMTU env" "ne_fdbased env"
    "length name < IFNAMSIZ"
  shows "m > 0 \<and> (case sock of Inl _ \<Rightarrow> True
     | Inr fd \<Rightarrow> fst (kern fd SIOCSIFMTU (Some (name, IfrUint32 m)) k) \<noteq> 0)"
  using assms
  by (auto simp: linux_Open_def tun_Open_def setMTU_def NewIfreq_def SetUint32_def Let_def
      split: sum.splits option.splits prod.splits if_splits)

section \<open>Reads and writes of the native adapter\<close>

text \<open>
  \<open>sync.Pool\<close>: \<open>Get\<close> takes one of the pooled things, whichever it likes, or has a new one made. The
  arrays of the pool have one slot each, which \<open>Read\<close> and \<open>Write\<close> point at the caller's packet.
\<close>

definition pool_Get :: "nat option \<Rightarrow> 'a \<Rightarrow> 'a list \<Rightarrow> 'a \<times> 'a list" where
  "pool_Get pick new p =
     (case pick of
        None \<Rightarrow> (new, p)
      | Some i \<Rightarrow> if i < length p then (p ! i, take i p @ drop (Suc i) p) else (new, p))"

record rw_pools =
  rBuffPool :: "(bytes list \<times> nat list) list"
  wBuffPool :: "bytes list list"

definition rw_new :: rw_pools where
  "rw_new = \<lparr> rBuffPool = [], wBuffPool = [] \<rparr>"

definition new_rBuff :: "bytes list \<times> nat list" where
  "new_rBuff = ([[]], [0])"

definition new_wBuff :: "bytes list" where
  "new_wBuff = [[]]"

text \<open>
  The native adapter fills buffers and sizes and returns a count and an error; writing it takes the
  buffers and returns the same. Arguments and results are those of \<open>ReadBatch\<close> and \<open>WriteBatch\<close>.
\<close>

type_synonym 'k nt_read = "bytes list \<Rightarrow> nat list \<Rightarrow> int \<Rightarrow> 'k \<Rightarrow> bytes list \<times> nat list \<times> nat \<times> dev_err option \<times> 'k"
type_synonym 'k nt_write = "bytes list \<Rightarrow> int \<Rightarrow> 'k \<Rightarrow> nat \<times> dev_err option \<times> 'k"

definition ReadBatch :: "'k nt_read \<Rightarrow> bytes list \<Rightarrow> nat list \<Rightarrow> int \<Rightarrow> 'k \<Rightarrow> bytes list \<times> nat list \<times> nat \<times> dev_err option \<times> 'k" where
  "ReadBatch nt bufs sizes off k = nt bufs sizes off k"

definition WriteBatch :: "'k nt_write \<Rightarrow> bytes list \<Rightarrow> int \<Rightarrow> 'k \<Rightarrow> nat \<times> dev_err option \<times> 'k" where
  "WriteBatch nt bufs off k = nt bufs off k"

text \<open>\<open>Read\<close> returns the size slot and the error, not the count; the packet's memory is the caller's. \<open>None\<close>
  is indexing an empty array.\<close>

definition TUN_Read ::
  "'k nt_read \<Rightarrow> int \<Rightarrow> nat option \<Rightarrow> bytes \<Rightarrow> rw_pools \<times> 'k \<Rightarrow>
     (nat \<times> dev_err option \<times> bytes \<times> rw_pools \<times> 'k) option" where
  "TUN_Read nt off pick packet = (\<lambda>(s, k).
     (case pool_Get pick new_rBuff (rBuffPool s) of
        ((buffs, sizes), p) \<Rightarrow>
          if buffs = [] then None
          else (case nt (buffs[0 := packet]) sizes off k of
            (buffs', sizes', _, err, k') \<Rightarrow>
              if sizes' = [] then None
              else Some (sizes' ! 0, err, buffs' ! 0, s\<lparr> rBuffPool := (buffs', sizes') # p \<rparr>, k'))))"

definition TUN_Write ::
  "'k nt_write \<Rightarrow> int \<Rightarrow> nat option \<Rightarrow> bytes \<Rightarrow> rw_pools \<times> 'k \<Rightarrow> (nat \<times> dev_err option \<times> rw_pools \<times> 'k) option" where
  "TUN_Write nt off pick packet = (\<lambda>(s, k).
     (case pool_Get pick new_wBuff (wBuffPool s) of
        (buffs, p) \<Rightarrow>
          if buffs = [] then None
          else (case nt (buffs[0 := packet]) off k of
            (n, err, k') \<Rightarrow> Some (n, err, s\<lparr> wBuffPool := buffs[0 := packet] # p \<rparr>, k'))))"

text \<open>
  The arrays have one slot at every moment. A callee cannot change the length of a slice it is
  given, so this is asked of the native read.
\<close>

definition pools_ok :: "rw_pools \<Rightarrow> bool" where
  "pools_ok s \<longleftrightarrow> (\<forall>(b, z) \<in> set (rBuffPool s). length b = 1 \<and> length z = 1) \<and> (\<forall>b \<in> set (wBuffPool s). length b = 1)"

definition keeps_lengths :: "'k nt_read \<Rightarrow> bool" where
  "keeps_lengths nt \<longleftrightarrow> (\<forall>b z off k. case nt b z off k of (b', z', _) \<Rightarrow> length b' = length b \<and> length z' = length z)"

lemma pool_Get_from:
  assumes "pool_Get pick new p = (x, q)"
  shows "x = new \<or> x \<in> set p" "set q \<subseteq> set p"
  using assms by (auto simp: pool_Get_def split: option.splits if_splits dest: in_set_takeD in_set_dropD)

lemma one_slot [simp]: "length b = 1 \<Longrightarrow> b[0 := x] = [x]"
  by (cases b) auto

theorem pooled_calls_never_panic:
  assumes "pools_ok s" "keeps_lengths ntr"
  shows "\<exists>n err packet' s' k'. TUN_Read ntr off pick packet (s, k) = Some (n, err, packet', s', k') \<and> pools_ok s'"
    and "\<exists>n err s' k'. TUN_Write ntw off pick packet (s, k) = Some (n, err, s', k') \<and> pools_ok s' \<and>
       (n, err, k') = WriteBatch ntw [packet] off k"
proof -
  obtain b z p where g: "pool_Get pick new_rBuff (rBuffPool s) = ((b, z), p)"
    by (metis surj_pair)
  have bz: "length b = 1" "length z = 1" and p: "\<forall>(b, z) \<in> set p. length b = 1 \<and> length z = 1"
    using pool_Get_from[OF g] assms(1) by (auto simp: pools_ok_def new_rBuff_def)
  obtain b' z' n err k' where r: "ntr [packet] z off k = (b', z', n, err, k')" by (metis prod_cases5)
  have "length b' = 1" "length z' = 1"
    using assms(2) r bz unfolding keeps_lengths_def by (force split: prod.splits)+
  with g r bz p assms(1)
  show "\<exists>n err packet' s' k'. TUN_Read ntr off pick packet (s, k) = Some (n, err, packet', s', k') \<and> pools_ok s'"
    by (auto simp: TUN_Read_def pools_ok_def)
  obtain c q where gw: "pool_Get pick new_wBuff (wBuffPool s) = (c, q)" by fastforce
  have "length c = 1" "\<forall>b \<in> set q. length b = 1"
    using pool_Get_from[OF gw] assms(1) by (auto simp: pools_ok_def new_wBuff_def)
  then show "\<exists>n err s' k'. TUN_Write ntw off pick packet (s, k) = Some (n, err, s', k') \<and> pools_ok s' \<and>
       (n, err, k') = WriteBatch ntw [packet] off k"
    using gw assms(1) by (auto simp: TUN_Write_def pools_ok_def WriteBatch_def split: prod.splits)
qed

text \<open>
  A native read that sets the size of the packet it reads is not disturbed by which array the pool
  gives: what the caller sees of a successful read is what a fresh array shows.
\<close>

definition sets_size :: "'k nt_read \<Rightarrow> bool" where
  "sets_size nt \<longleftrightarrow>
     (\<forall>packet z z' off k. (case (nt [packet] [z] off k, nt [packet] [z'] off k) of
        ((b, s, n, err, k1), (b', s', n', err', k2)) \<Rightarrow>
          b = b' \<and> n = n' \<and> err = err' \<and> k1 = k2 \<and> (err = None \<and> n = 1 \<longrightarrow> s = s')))"

theorem pooled_read_as_fresh:
  assumes "pools_ok s" "keeps_lengths nt" "sets_size nt"
    "TUN_Read nt off pick packet (s, k) = Some (n, err, packet', s', k')"
  shows "\<exists>z c. ReadBatch nt [packet] [0] off k = ([packet'], [z], c, err, k') \<and> (err = None \<and> c = 1 \<longrightarrow> n = z)"
proof -
  obtain b z p where g: "pool_Get pick new_rBuff (rBuffPool s) = ((b, z), p)"
    by (metis surj_pair)
  have "length b = 1" "length z = 1"
    using pool_Get_from[OF g] assms(1) by (auto simp: pools_ok_def new_rBuff_def)
  then obtain z0 where z: "z = [z0]" and b: "b[0 := packet] = [packet]" by (auto simp: length_Suc_conv)
  obtain b1 z1 c1 e1 k1 where r1: "nt [packet] [z0] off k = (b1, z1, c1, e1, k1)" by (metis prod_cases5)
  obtain b2 z2 c2 e2 k2 where r2: "nt [packet] [0] off k = (b2, z2, c2, e2, k2)" by (metis prod_cases5)
  have len: "length b1 = 1" "length z1 = 1" "length b2 = 1" "length z2 = 1"
    using assms(2) r1 r2 unfolding keeps_lengths_def by (force split: prod.splits)+
  have same: "b1 = b2" "c1 = c2" "e1 = e2" "k1 = k2" "e1 = None \<and> c1 = 1 \<longrightarrow> z1 = z2"
    using assms(3) r1 r2 unfolding sets_size_def by (force split: prod.splits)+
  show ?thesis
    using assms(4) g z b r1 r2 len same \<open>length b = 1\<close>
    by (auto simp: TUN_Read_def ReadBatch_def length_Suc_conv split: if_splits)
qed

text \<open>
  The count is ignored. A read that brings no packet and no error leaves the size slot alone, so the size
  of an earlier packet is returned and the buffer's old octets are taken for a new packet. (The
  packet loop uses \<open>ReadBatch\<close> where there is one, and goes by the count.)
\<close>

definition idle_read :: "nat \<Rightarrow> unit nt_read" where
  "idle_read c b z off k = (b, if c = 0 then z else [c], if c = 0 then 0 else 1, None, k)"

lemma empty_read_returns_old_size:
  assumes "0 < c" "TUN_Read (idle_read c) off None packet (rw_new, ()) = Some (n, None, packet', s', ())"
  shows "n = c \<and> TUN_Read (idle_read 0) off (Some 0) packet (s', ()) = Some (c, None, packet, s', ())"
  using assms
  by (auto simp: TUN_Read_def idle_read_def pool_Get_def rw_new_def new_rBuff_def)

text \<open>An error's size is not looked at by the loop.\<close>

lemma failed_read_size_unused:
  "dr_err r \<noteq> None \<Longrightarrow> single_turn e d (r\<lparr> dr_bufs := bs \<rparr>) = single_turn e d r"
  by (simp add: single_turn_def)

section \<open>Adapters left over\<close>

text \<open>Windows closes an adapter of this name that is left over; without the driver there is none to close.\<close>

definition win_CleanupOldAdapter :: "string option \<Rightarrow> (string \<Rightarrow> bool) \<Rightarrow> (string \<Rightarrow> bool) \<Rightarrow> (string \<Rightarrow> 'a option) \<Rightarrow> string \<Rightarrow> 'a option" where
  "win_CleanupOldAdapter exeDir present loadable adapter name =
     (if \<not> InitWintunDll exeDir present loadable then None else adapter name)"

lemma win_cleanup_closes_iff:
  "win_CleanupOldAdapter exeDir present loadable adapter name = Some a \<longleftrightarrow>
     (\<exists>dir. exeDir = Some dir \<and> present (dir @ [char_of (92 :: nat)] @ ''wintun.dll'') \<and> loadable dir) \<and> adapter name = Some a"
  by (auto simp: win_CleanupOldAdapter_def InitWintunDll_def split: option.splits)

end
