(* ===== verification/Relay_Run.thy ===== *)
theory Relay_Run
  imports Tunnel_Frame "HOL-Library.Sublist"
begin

text \<open>
  \<open>relay\<close> of \<open>proxy/proxy_io.go\<close> as its two goroutines run, in every interleaving, with the idle timer of
  \<open>newIdleTimer\<close> and the closing each direction does on the other's source. What \<open>Close\<close> does to a stream differs
  between the transports, as \<open>closeWrite\<close> notes: on QUIC it ends the writing side, on smux the whole stream. It is a
  parameter here, with its contract in two locales: what both transports promise, and what only QUIC does.
\<close>

section \<open>The two ends\<close>

text \<open>What an end still has to deliver, what was written to it, and which sides of it are open.\<close>

record stream_end =
  sd_in :: reader
  sd_out :: bytes
  sd_readable :: bool
  sd_writable :: bool

definition open_end :: "reader \<Rightarrow> stream_end" where
  "open_end r = \<lparr> sd_in = r, sd_out = [], sd_readable = True, sd_writable = True \<rparr>"

definition quic_Close :: "stream_end \<Rightarrow> stream_end" where
  "quic_Close e = e\<lparr> sd_writable := False \<rparr>"

definition smux_Close :: "stream_end \<Rightarrow> stream_end" where
  "smux_Close e = e\<lparr> sd_readable := False, sd_writable := False \<rparr>"

definition tcp_CloseWrite :: "stream_end \<Rightarrow> stream_end" where
  "tcp_CloseWrite e = e\<lparr> sd_writable := False \<rparr>"

text \<open>\<open>CancelRead\<close> and \<open>Close\<close> at the end of the relay.\<close>

definition close_both :: "stream_end \<Rightarrow> stream_end" where
  "close_both e = e\<lparr> sd_readable := False, sd_writable := False \<rparr>"

section \<open>A relay that runs\<close>

datatype dir_phase = Copying | Closing | DirDone

text \<open>\<open>rr_failed\<close> is history: a write was refused by the other side, or the timer fired.\<close>

record relay_run =
  rr_conn :: stream_end
  rr_stream :: stream_end
  rr_up :: dir_phase
  rr_down :: dir_phase
  rr_expired :: bool
  rr_failed :: bool
  rr_closed :: bool

definition relay_start :: "reader \<Rightarrow> reader \<Rightarrow> relay_run" where
  "relay_start fromConn fromStream =
     \<lparr> rr_conn = open_end fromConn, rr_stream = open_end fromStream, rr_up = Copying, rr_down = Copying,
       rr_expired = False, rr_failed = False, rr_closed = False \<rparr>"

text \<open>
  An iteration of \<open>copyBuf\<close>: whether the loop ends, and both ends after it. Past the deadline and on a closed side a
  read or write fails; \<open>ok\<close> says whether the other side takes what is written.
\<close>

definition copy_turn :: "bool \<Rightarrow> bool \<Rightarrow> stream_end \<Rightarrow> stream_end \<Rightarrow> bool \<times> stream_end \<times> stream_end" where
  "copy_turn expired ok src dst =
     (if expired \<or> \<not> sd_readable src then (True, src, dst)
      else case read_some copyBufSize (sd_in src) of
        ((c, err), r') \<Rightarrow>
          (let src' = src\<lparr> sd_in := r' \<rparr>
           in if c = [] then (err \<noteq> None, src', dst)
              else if \<not> ok \<or> \<not> sd_writable dst then (True, src', dst)
              else (err \<noteq> None, src', dst\<lparr> sd_out := sd_out dst @ c \<rparr>)))"

definition up_turn :: "bool \<Rightarrow> relay_run \<Rightarrow> relay_run" where
  "up_turn ok s =
     (case copy_turn (rr_expired s) ok (rr_conn s) (rr_stream s) of
        (ended, c, st) \<Rightarrow>
          s\<lparr> rr_conn := c, rr_stream := st, rr_up := (if ended then Closing else Copying),
             rr_failed := (rr_failed s \<or> \<not> ok) \<rparr>)"

definition down_turn :: "bool \<Rightarrow> relay_run \<Rightarrow> relay_run" where
  "down_turn ok s =
     (case copy_turn (rr_expired s) ok (rr_stream s) (rr_conn s) of
        (ended, st, c) \<Rightarrow>
          s\<lparr> rr_conn := c, rr_stream := st, rr_down := (if ended then Closing else Copying),
             rr_failed := (rr_failed s \<or> \<not> ok) \<rparr>)"

definition up_close :: "(stream_end \<Rightarrow> stream_end) \<Rightarrow> relay_run \<Rightarrow> relay_run" where
  "up_close close s = s\<lparr> rr_stream := close (rr_stream s), rr_up := DirDone \<rparr>"

definition down_close :: "relay_run \<Rightarrow> relay_run" where
  "down_close s = s\<lparr> rr_conn := tcp_CloseWrite (rr_conn s), rr_down := DirDone \<rparr>"

text \<open>The timer sets every deadline to the present; a later bump starts it again but takes no deadline back.\<close>

definition idle_fires :: "relay_run \<Rightarrow> relay_run" where
  "idle_fires s = s\<lparr> rr_expired := True, rr_failed := True \<rparr>"

text \<open>After both goroutines: \<open>stopTimer\<close>, \<open>CancelRead\<close>, and both \<open>Close\<close>.\<close>

definition relay_finish :: "relay_run \<Rightarrow> relay_run" where
  "relay_finish s =
     s\<lparr> rr_stream := close_both (rr_stream s), rr_conn := close_both (rr_conn s), rr_closed := True \<rparr>"

inductive relay_step :: "(stream_end \<Rightarrow> stream_end) \<Rightarrow> relay_run \<Rightarrow> relay_run \<Rightarrow> bool" for close where
  up: "rr_up s = Copying \<Longrightarrow> relay_step close s (up_turn ok s)"
| down: "rr_down s = Copying \<Longrightarrow> relay_step close s (down_turn ok s)"
| up_closes: "rr_up s = Closing \<Longrightarrow> relay_step close s (up_close close s)"
| down_closes: "rr_down s = Closing \<Longrightarrow> relay_step close s (down_close s)"
| idle: "\<not> rr_closed s \<Longrightarrow> \<not> rr_expired s \<Longrightarrow> relay_step close s (idle_fires s)"
| finish: "rr_up s = DirDone \<Longrightarrow> rr_down s = DirDone \<Longrightarrow> \<not> rr_closed s \<Longrightarrow> relay_step close s (relay_finish s)"

inductive_cases relay_stepE: "relay_step close s s'"

inductive relay_reach :: "(stream_end \<Rightarrow> stream_end) \<Rightarrow> reader \<Rightarrow> reader \<Rightarrow> relay_run \<Rightarrow> bool" for close a b where
  init: "relay_reach close a b (relay_start a b)"
| step: "relay_reach close a b s \<Longrightarrow> relay_step close s s' \<Longrightarrow> relay_reach close a b s'"

section \<open>What closing promises\<close>

definition phase_left :: "dir_phase \<Rightarrow> nat" where
  "phase_left p = (case p of Copying \<Rightarrow> 2 | Closing \<Rightarrow> 1 | DirDone \<Rightarrow> 0)"

definition relay_measure :: "relay_run \<Rightarrow> nat" where
  "relay_measure s = reader_size (sd_in (rr_conn s)) + reader_size (sd_in (rr_stream s)) +
     phase_left (rr_up s) + phase_left (rr_down s) + (if rr_expired s then 0 else 1) + (if rr_closed s then 0 else 1)"

lemma phase_left_simps [simp]: "phase_left Copying = 2" "phase_left Closing = 1" "phase_left DirDone = 0"
  by (simp_all add: phase_left_def)

lemma relay_not_stuck: "\<not> rr_closed s \<Longrightarrow> \<exists>s'. relay_step close s s'"
  by (cases "rr_up s"; cases "rr_down s") (auto intro: relay_step.intros)

locale stream_close =
  fixes close :: "stream_end \<Rightarrow> stream_end"
  assumes close_in: "sd_in (close e) = sd_in e"
    and close_out: "sd_out (close e) = sd_out e"
begin

text \<open>What arrives on one side is a beginning of what was sent on the other, with either transport.\<close>

definition dir_ok :: "bytes \<Rightarrow> dir_phase \<Rightarrow> stream_end \<Rightarrow> stream_end \<Rightarrow> bool" where
  "dir_ok sent p src dst \<longleftrightarrow>
     (\<exists>lost. sent = sd_out dst @ lost @ content (sd_in src) \<and> (p = Copying \<longrightarrow> lost = []))"

lemma copy_turn_ok:
  assumes "copy_turn expired ok src dst = (ended, src', dst')" "dir_ok sent Copying src dst"
  shows "dir_ok sent (if ended then Closing else Copying) src' dst'"
proof (cases "expired \<or> \<not> sd_readable src")
  case True
  then show ?thesis using assms by (auto simp: copy_turn_def dir_ok_def)
next
  case False
  obtain c err r' where r: "read_some copyBufSize (sd_in src) = ((c, err), r')" by (metis surj_pair)
  show ?thesis
    using assms False read_some_content[OF r] unfolding copy_turn_def r by (auto simp: dir_ok_def Let_def split: if_splits)
qed

lemma copy_turn_other:
  assumes "copy_turn expired ok src dst = (ended, src', dst')"
  shows "sd_out src' = sd_out src" "sd_in dst' = sd_in dst"
  using assms by (auto simp: copy_turn_def Let_def split: if_splits prod.splits)

definition both_ok :: "bytes \<Rightarrow> bytes \<Rightarrow> relay_run \<Rightarrow> bool" where
  "both_ok a b s \<longleftrightarrow> dir_ok a (rr_up s) (rr_conn s) (rr_stream s) \<and> dir_ok b (rr_down s) (rr_stream s) (rr_conn s)"

lemma step_both_ok: "relay_step close s s' \<Longrightarrow> both_ok a b s \<Longrightarrow> both_ok a b s'"
proof (erule relay_stepE)
  fix ok assume s: "both_ok a b s" and g: "s' = up_turn ok s" "rr_up s = Copying"
  obtain ended c st where t: "copy_turn (rr_expired s) ok (rr_conn s) (rr_stream s) = (ended, c, st)" by (metis surj_pair)
  show ?thesis
    using s g t copy_turn_ok[OF t, of a] copy_turn_other[OF t] by (simp add: both_ok_def up_turn_def dir_ok_def)
next
  fix ok assume s: "both_ok a b s" and g: "s' = down_turn ok s" "rr_down s = Copying"
  obtain ended c st where t: "copy_turn (rr_expired s) ok (rr_stream s) (rr_conn s) = (ended, st, c)" by (metis surj_pair)
  show ?thesis
    using s g t copy_turn_ok[OF t, of b] copy_turn_other[OF t] by (simp add: both_ok_def down_turn_def dir_ok_def)
qed (auto simp: both_ok_def dir_ok_def up_close_def down_close_def idle_fires_def relay_finish_def tcp_CloseWrite_def
    close_both_def close_in close_out)

lemma reach_both_ok: "relay_reach close a b s \<Longrightarrow> both_ok (content a) (content b) s"
proof (induction rule: relay_reach.induct)
  case init
  show ?case by (simp add: both_ok_def dir_ok_def relay_start_def open_end_def)
qed (rule step_both_ok)

lemma arrives_prefix:
  assumes "relay_reach close a b s"
  shows "prefix (sd_out (rr_stream s)) (content a) \<and> prefix (sd_out (rr_conn s)) (content b)"
  using reach_both_ok[OF assms] by (auto simp: both_ok_def dir_ok_def)

text \<open>Every step brings the relay nearer to its end.\<close>

lemma copy_turn_measure:
  assumes "copy_turn expired ok src dst = (ended, src', dst')"
  shows "reader_size (sd_in src') < reader_size (sd_in src) \<or> ended \<and> reader_size (sd_in src') = reader_size (sd_in src)"
proof (cases "expired \<or> \<not> sd_readable src")
  case True
  then show ?thesis using assms by (auto simp: copy_turn_def)
next
  case False
  obtain c err r' where r: "read_some copyBufSize (sd_in src) = ((c, err), r')" by (metis surj_pair)
  show ?thesis
  proof (cases err)
    case None
    then have "reader_size r' < reader_size (sd_in src)"
      using r by (intro read_some_decreases) (auto simp: copyBufSize_def)
    then show ?thesis using assms False unfolding copy_turn_def r by (auto simp: Let_def split: if_splits)
  next
    case (Some e)
    then have "c = []" "r' = sd_in src" using r by (auto simp: read_some_def split: prod.splits list.splits if_splits)
    then show ?thesis using assms False Some unfolding copy_turn_def r by (auto simp: Let_def)
  qed
qed

lemma step_measure: "relay_step close s s' \<Longrightarrow> relay_measure s' < relay_measure s"
proof (erule relay_stepE)
  fix ok assume g: "s' = up_turn ok s" "rr_up s = Copying"
  obtain ended c st where t: "copy_turn (rr_expired s) ok (rr_conn s) (rr_stream s) = (ended, c, st)" by (metis surj_pair)
  show ?thesis
    using g t copy_turn_measure[OF t] copy_turn_other[OF t] by (auto simp: relay_measure_def up_turn_def)
next
  fix ok assume g: "s' = down_turn ok s" "rr_down s = Copying"
  obtain ended c st where t: "copy_turn (rr_expired s) ok (rr_stream s) (rr_conn s) = (ended, st, c)" by (metis surj_pair)
  show ?thesis
    using g t copy_turn_measure[OF t] copy_turn_other[OF t] by (auto simp: relay_measure_def down_turn_def)
qed (auto simp: relay_measure_def up_close_def down_close_def idle_fires_def relay_finish_def tcp_CloseWrite_def
    close_both_def close_in)

lemma no_endless_run: "\<not> (\<exists>f. \<forall>i. relay_step close (f i) (f (Suc i)))"
proof
  assume "\<exists>f. \<forall>i. relay_step close (f i) (f (Suc i))"
  then obtain f where f: "\<And>i. relay_step close (f i) (f (Suc i))" by blast
  have "i + relay_measure (f i) \<le> relay_measure (f 0)" for i
  proof (induction i)
    case (Suc i)
    then show ?case using step_measure[OF f, of i] by linarith
  qed simp
  from this[of "Suc (relay_measure (f 0))"] show False by simp
qed

end

locale half_close = stream_close +
  assumes close_readable: "sd_readable (close e) = sd_readable e"
begin

text \<open>While nothing fails, a direction that ended has copied everything, and its target was open to the last byte.\<close>

definition dir_full :: "bytes \<Rightarrow> dir_phase \<Rightarrow> stream_end \<Rightarrow> stream_end \<Rightarrow> bool" where
  "dir_full sent p src dst \<longleftrightarrow>
     sent = sd_out dst @ content (sd_in src) \<and> (p = Copying \<longrightarrow> sd_readable src) \<and>
     (p = Copying \<longrightarrow> sd_writable dst) \<and> (p \<noteq> Copying \<longrightarrow> content (sd_in src) = [])"

definition both_full :: "bytes \<Rightarrow> bytes \<Rightarrow> relay_run \<Rightarrow> bool" where
  "both_full a b s \<longleftrightarrow> rr_failed s \<or>
     \<not> rr_expired s \<and> dir_full a (rr_up s) (rr_conn s) (rr_stream s) \<and> dir_full b (rr_down s) (rr_stream s) (rr_conn s)"

lemma copy_turn_full:
  assumes "copy_turn False True src dst = (ended, src', dst')" "dir_full sent Copying src dst"
  shows "dir_full sent (if ended then Closing else Copying) src' dst'"
proof -
  obtain c err r' where r: "read_some copyBufSize (sd_in src) = ((c, err), r')" by (metis surj_pair)
  show ?thesis
    using assms read_some_content[OF r] unfolding copy_turn_def r by (auto simp: dir_full_def Let_def split: if_splits)
qed

lemma copy_turn_sides:
  assumes "copy_turn expired ok src dst = (ended, src', dst')"
  shows "sd_readable src' = sd_readable src" "sd_writable src' = sd_writable src"
    "sd_readable dst' = sd_readable dst" "sd_writable dst' = sd_writable dst"
  using assms by (auto simp: copy_turn_def Let_def split: if_splits prod.splits)

lemma step_both_full: "relay_step close s s' \<Longrightarrow> both_full a b s \<Longrightarrow> both_full a b s'"
proof (erule relay_stepE)
  fix ok assume s: "both_full a b s" and g: "s' = up_turn ok s" "rr_up s = Copying"
  show ?thesis
  proof (cases "rr_failed s \<or> \<not> ok")
    case True
    then show ?thesis using g by (auto simp: both_full_def up_turn_def split: prod.split)
  next
    case False
    obtain ended c st where t: "copy_turn (rr_expired s) ok (rr_conn s) (rr_stream s) = (ended, c, st)" by (metis surj_pair)
    with False s have "copy_turn False True (rr_conn s) (rr_stream s) = (ended, c, st)" by (simp add: both_full_def)
    from copy_turn_full[OF this, of a] show ?thesis
      using False s g t copy_turn_other[OF t] copy_turn_sides[OF t]
      by (simp add: both_full_def up_turn_def) (simp add: dir_full_def)
  qed
next
  fix ok assume s: "both_full a b s" and g: "s' = down_turn ok s" "rr_down s = Copying"
  show ?thesis
  proof (cases "rr_failed s \<or> \<not> ok")
    case True
    then show ?thesis using g by (auto simp: both_full_def down_turn_def split: prod.split)
  next
    case False
    obtain ended c st where t: "copy_turn (rr_expired s) ok (rr_stream s) (rr_conn s) = (ended, st, c)" by (metis surj_pair)
    with False s have "copy_turn False True (rr_stream s) (rr_conn s) = (ended, st, c)" by (simp add: both_full_def)
    from copy_turn_full[OF this, of b] show ?thesis
      using False s g t copy_turn_other[OF t] copy_turn_sides[OF t]
      by (simp add: both_full_def down_turn_def) (simp add: dir_full_def)
  qed
qed (auto simp: both_full_def dir_full_def up_close_def down_close_def idle_fires_def relay_finish_def tcp_CloseWrite_def
    close_both_def close_in close_out close_readable)

lemma reach_both_full: "relay_reach close a b s \<Longrightarrow> both_full (content a) (content b) s"
proof (induction rule: relay_reach.induct)
  case init
  show ?case by (simp add: both_full_def dir_full_def relay_start_def open_end_def)
qed (rule step_both_full)

end

interpretation quic_stream: half_close quic_Close
  by unfold_locales (simp_all add: quic_Close_def)

interpretation smux_stream: stream_close smux_Close
  by unfold_locales (simp_all add: smux_Close_def)

text \<open>A schedule, to run the relay on concrete ends.\<close>

datatype relay_act = MoveUp | MoveDown | UpCloses | DownCloses | Finish

fun relay_move :: "(stream_end \<Rightarrow> stream_end) \<Rightarrow> relay_act \<Rightarrow> relay_run \<Rightarrow> relay_run option" where
  "relay_move close MoveUp s = (if rr_up s = Copying then Some (up_turn True s) else None)"
| "relay_move close MoveDown s = (if rr_down s = Copying then Some (down_turn True s) else None)"
| "relay_move close UpCloses s = (if rr_up s = Closing then Some (up_close close s) else None)"
| "relay_move close DownCloses s = (if rr_down s = Closing then Some (down_close s) else None)"
| "relay_move close Finish s =
     (if rr_up s = DirDone \<and> rr_down s = DirDone \<and> \<not> rr_closed s then Some (relay_finish s) else None)"

fun relay_moves :: "(stream_end \<Rightarrow> stream_end) \<Rightarrow> relay_act list \<Rightarrow> relay_run \<Rightarrow> relay_run option" where
  "relay_moves close [] s = Some s"
| "relay_moves close (m # ms) s = (case relay_move close m s of None \<Rightarrow> None | Some s' \<Rightarrow> relay_moves close ms s')"

lemma relay_move_step: "relay_move close m s = Some s' \<Longrightarrow> relay_step close s s'"
  by (cases m) (auto split: if_splits intro: relay_step.intros)

lemma relay_moves_reach: "relay_reach close a b s \<Longrightarrow> relay_moves close ms s = Some s' \<Longrightarrow> relay_reach close a b s'"
  by (induction ms arbitrary: s) (auto split: option.splits dest!: relay_move_step dest: relay_reach.step)

lemmas relay_run_defs = up_turn_def down_turn_def copy_turn_def read_some_def relay_start_def open_end_def up_close_def
  smux_Close_def quic_Close_def down_close_def tcp_CloseWrite_def relay_finish_def close_both_def copyBufSize_def

section \<open>Properties\<close>

text \<open>On QUIC a relay that ran without a refused write and without the idle timer has brought every byte of each side
  to the other, whichever side ended first and however the two goroutines were interleaved; with either
  transport and any failure what arrived is a beginning of what was sent.\<close>

theorem running_relay_transparent:
  assumes "relay_reach quic_Close a b s" "rr_closed s" "\<not> rr_failed s"
  shows "sd_out (rr_stream s) = content a \<and> sd_out (rr_conn s) = content b"
proof -
  have phases: "rr_closed s \<longrightarrow> rr_up s = DirDone \<and> rr_down s = DirDone" using assms(1)
  proof induction
    case (step s s')
    then show ?case
      by (auto elim!: relay_stepE simp: up_turn_def down_turn_def up_close_def down_close_def idle_fires_def relay_finish_def
          split: prod.splits)
  qed (simp add: relay_start_def)
  then show ?thesis
    using assms(2,3) quic_stream.reach_both_full[OF assms(1)]
    by (auto simp: quic_stream.both_full_def quic_stream.dir_full_def)
qed

theorem running_relay_transparent_witness:
  "\<exists>s. relay_moves quic_Close [MoveUp, MoveUp, UpCloses, MoveDown, MoveDown, MoveDown, DownCloses, Finish]
      (relay_start ([[1, 2]], EOF) ([[3, 4], [5]], EOF)) = Some s \<and>
    sd_out (rr_stream s) = [1, 2] \<and> sd_out (rr_conn s) = [3, 4, 5]"
proof -
  obtain s where s: "relay_moves quic_Close [MoveUp, MoveUp, UpCloses, MoveDown, MoveDown, MoveDown, DownCloses, Finish]
      (relay_start ([[1, 2]], EOF) ([[3, 4], [5]], EOF)) = Some s" "rr_closed s" "\<not> rr_failed s"
    by (simp add: relay_run_defs)
  show ?thesis
    using s running_relay_transparent[OF relay_moves_reach[OF relay_reach.init s(1)] s(2,3)] by (simp add: content_def)
qed


text \<open>
  On KCP, the transport used when nothing else is set, the first side to end takes the other with it: a client that ends
  its sending after the request gets nothing of the answer, though no write failed and nobody was idle.
\<close>

theorem smux_relay_loses_answer:
  "\<exists>s. relay_reach smux_Close ([[1, 2]], EOF) ([[3, 4], [5]], EOF) s \<and> rr_closed s \<and> \<not> rr_failed s \<and>
     sd_out (rr_stream s) = [1, 2] \<and> sd_out (rr_conn s) = []"
proof -
  have "\<exists>s. relay_moves smux_Close [MoveUp, MoveUp, UpCloses, MoveDown, DownCloses, Finish]
      (relay_start ([[1, 2]], EOF) ([[3, 4], [5]], EOF)) = Some s \<and> rr_closed s \<and> \<not> rr_failed s \<and>
      sd_out (rr_stream s) = [1, 2] \<and> sd_out (rr_conn s) = []"
    by (simp add: relay_run_defs)
  then show ?thesis using relay_moves_reach[OF relay_reach.init] by blast
qed

end
