(* ===== verification/Udp_Pool.thy ===== *)
theory Udp_Pool
  imports Udp_Coalesce "HOL-Library.Multiset"
begin

text \<open>
  The buffer pool under the coalescing connection, \<open>getBuf\<close>, \<open>putBuf\<close> and \<open>releaseBatch\<close> of
  \<open>udpbatch/batch_windows.go\<close>. \<open>Udp_Coalesce\<close> holds datagrams by value; here a datagram is a slot that refers to a
  buffer, buffers are used again, a caller fills one outside the lock, and the sender gives back what each attempt
  sent before it tries the rest. The connection with buffers refines the one with values, so everything shown there
  holds of it.
\<close>

section \<open>Buffers\<close>

definition poolBufCap :: nat where "poolBufCap = 2048"

text \<open>A slot: the buffer, how much of it is the datagram, the address; \<open>sl_data\<close> is the history of what the caller gave.\<close>

record slot =
  sl_buf :: nat
  sl_len :: nat
  sl_addr :: net_addr
  sl_data :: bytes

datatype pool_phase = PNoSender | PWaiting | PPopping | PWriting "slot list" nat

text \<open>
  A buffer's memory is as long as its capacity. \<open>pl_w0\<close> and \<open>pl_ms0\<close> are history: the writer and the datagrams at the
  start of a batch.
\<close>

record pool_conn =
  pl_mem :: "nat \<Rightarrow> bytes"
  pl_next :: nat
  pl_pool :: "nat list"
  pl_callers :: "slot list"
  pl_queue :: "slot list"
  pl_kick :: bool
  pl_closed :: bool
  pl_fatal :: "write_err option"
  pl_sender :: pool_phase
  pl_w :: "bool \<times> net"
  pl_accepted :: "message list"
  pl_taken :: "message list"
  pl_w0 :: "bool \<times> net"
  pl_ms0 :: "message list"

definition pool_new :: "bool \<times> net \<Rightarrow> pool_conn" where
  "pool_new w = \<lparr> pl_mem = (\<lambda>_. []), pl_next = 0, pl_pool = [], pl_callers = [], pl_queue = [], pl_kick = False,
     pl_closed = False, pl_fatal = None, pl_sender = PNoSender, pl_w = w, pl_accepted = [], pl_taken = [], pl_w0 = w,
     pl_ms0 = [] \<rparr>"

definition make_buf :: "nat \<Rightarrow> pool_conn \<Rightarrow> nat \<times> pool_conn" where
  "make_buf n s = (pl_next s, s\<lparr> pl_mem := (pl_mem s)(pl_next s := replicate n 0), pl_next := Suc (pl_next s) \<rparr>)"

text \<open>\<open>sync.Pool\<close> gives any buffer put into it, or a new one.\<close>

definition getBuf :: "nat option \<Rightarrow> nat \<Rightarrow> pool_conn \<Rightarrow> nat \<times> pool_conn" where
  "getBuf pick n s =
     (if n > poolBufCap then make_buf n s
      else case pick of
        None \<Rightarrow> make_buf poolBufCap s
      | Some b \<Rightarrow>
          let s1 = s\<lparr> pl_pool := remove1 b (pl_pool s) \<rparr>
          in if length (pl_mem s1 b) < n then make_buf n s1 else (b, s1))"

definition putBuf :: "nat \<Rightarrow> pool_conn \<Rightarrow> pool_conn" where
  "putBuf b s = (if length (pl_mem s b) = poolBufCap then s\<lparr> pl_pool := b # pl_pool s \<rparr> else s)"

definition releaseBatch :: "slot list \<Rightarrow> pool_conn \<Rightarrow> pool_conn" where
  "releaseBatch batch s = fold (\<lambda>sl. putBuf (sl_buf sl)) batch s"

definition slot_message :: "pool_conn \<Rightarrow> slot \<Rightarrow> message" where
  "slot_message s sl = \<lparr> mg_buf = take (sl_len sl) (pl_mem s (sl_buf sl)), mg_addr = sl_addr sl \<rparr>"

section \<open>The connection\<close>

text \<open>\<open>WriteTo\<close> up to its lock: a buffer is got and filled.\<close>

definition pool_WriteTo_fill :: "nat option \<Rightarrow> bytes \<Rightarrow> go_addr \<Rightarrow> pool_conn \<Rightarrow> pool_conn" where
  "pool_WriteTo_fill pick b addr s =
     (case addrPortFrom addr of
        None \<Rightarrow> s
      | Some ap \<Rightarrow>
          (case getBuf pick (length b) s of
             (i, s1) \<Rightarrow>
               s1\<lparr> pl_mem := (pl_mem s1)(i := go_copy (pl_mem s1 i) b),
                   pl_callers := pl_callers s1 @ [\<lparr> sl_buf = i, sl_len = length b, sl_addr = ap, sl_data = b \<rparr>] \<rparr>))"

text \<open>Its section under the lock, for the caller in place \<open>k\<close>; a caller that has to wait stays.\<close>

definition pool_WriteTo_lock :: "nat \<Rightarrow> pool_conn \<Rightarrow> pool_conn" where
  "pool_WriteTo_lock k s =
     (let sl = pl_callers s ! k;
          s0 = s\<lparr> pl_callers := take k (pl_callers s) @ drop (Suc k) (pl_callers s) \<rparr>
      in if length (pl_queue s) \<ge> queueCap \<and> \<not> pl_closed s \<and> pl_fatal s = None then s
         else if pl_fatal s \<noteq> None then putBuf (sl_buf sl) s0
         else if pl_closed s then putBuf (sl_buf sl) s0
         else
           let s1 = s0\<lparr> pl_queue := pl_queue s0 @ [sl], pl_accepted := pl_accepted s0 @ [slot_message s sl] \<rparr>;
               s2 = (if pl_sender s1 = PNoSender then s1\<lparr> pl_sender := PWaiting \<rparr> else s1)
           in s2\<lparr> pl_kick := True \<rparr>)"

definition pool_Close :: "pool_conn \<Rightarrow> pool_conn" where
  "pool_Close s = (if pl_closed s then s else s\<lparr> pl_closed := True, pl_kick := True \<rparr>)"

definition pool_timer :: "pool_conn \<Rightarrow> pool_conn" where
  "pool_timer s =
     (if pl_closed s \<or> pl_queue s \<noteq> [] then s\<lparr> pl_sender := PPopping \<rparr> else s\<lparr> pl_sender := PNoSender \<rparr>)"

definition pool_kick :: "pool_conn \<Rightarrow> pool_conn" where
  "pool_kick s = s\<lparr> pl_kick := False, pl_sender := PPopping \<rparr>"

text \<open>\<open>pop\<close>, and what the loop does with its batch: nothing, giving it back, or starting to write.\<close>

definition pool_pop :: "pool_conn \<Rightarrow> pool_conn" where
  "pool_pop s =
     (if pl_queue s = [] then
        (if pl_closed s then s\<lparr> pl_sender := PNoSender \<rparr> else s\<lparr> pl_sender := PWaiting \<rparr>)
      else
        let n = min (length (pl_queue s)) maxBatch;
            batch = take n (pl_queue s);
            ms = map (slot_message s) batch;
            s1 = s\<lparr> pl_queue := drop n (pl_queue s), pl_taken := pl_taken s @ ms \<rparr>
        in if pl_fatal s \<noteq> None then (releaseBatch batch s1)\<lparr> pl_sender := PWaiting \<rparr>
           else s1\<lparr> pl_sender := PWriting batch 0, pl_w0 := pl_w s, pl_ms0 := ms \<rparr>)"

definition pool_noteFatal :: "write_err \<Rightarrow> pool_conn \<Rightarrow> pool_conn" where
  "pool_noteFatal e s = (if pl_fatal s = None then s\<lparr> pl_fatal := Some e \<rparr> else s)"

text \<open>One attempt of \<open>writeAll\<close> on what is left of the batch.\<close>

definition pool_attempt :: "slot list \<Rightarrow> nat \<Rightarrow> pool_conn \<Rightarrow> pool_conn" where
  "pool_attempt rest attempt s =
     (if \<not> (attempt < writeAttempts \<and> rest \<noteq> []) then (releaseBatch rest s)\<lparr> pl_sender := PWaiting \<rparr>
      else
        case windows_WriteBatch (pl_w s) (map (slot_message s) rest) of
          ((n0, err), w') \<Rightarrow>
            let n = min n0 (length rest);
                s1 = releaseBatch (take n rest) (s\<lparr> pl_w := w' \<rparr>);
                rest' = drop n rest
            in (case err of
                  None \<Rightarrow> (releaseBatch rest' s1)\<lparr> pl_sender := PWaiting \<rparr>
                | Some e \<Rightarrow>
                    if rest' = [] then s1\<lparr> pl_sender := PWaiting \<rparr>
                    else if isFatalWriteErr e then (releaseBatch rest' (pool_noteFatal e s1))\<lparr> pl_sender := PWaiting \<rparr>
                    else s1\<lparr> pl_sender := PWriting rest' (Suc attempt) \<rparr>))"

inductive pool_step :: "pool_conn \<Rightarrow> pool_conn \<Rightarrow> bool" where
  fill: "(\<And>b. pick = Some b \<Longrightarrow> b \<in> set (pl_pool s)) \<Longrightarrow> pool_step s (pool_WriteTo_fill pick b addr s)"
| lock: "k < length (pl_callers s) \<Longrightarrow> pool_step s (pool_WriteTo_lock k s)"
| close: "pool_step s (pool_Close s)"
| timer: "pl_sender s = PWaiting \<Longrightarrow> pool_step s (pool_timer s)"
| kick: "pl_sender s = PWaiting \<Longrightarrow> pl_kick s \<Longrightarrow> pool_step s (pool_kick s)"
| pop: "pl_sender s = PPopping \<Longrightarrow> pool_step s (pool_pop s)"
| attempt: "pl_sender s = PWriting rest a \<Longrightarrow> pool_step s (pool_attempt rest a s)"

inductive_cases pool_stepE: "pool_step s s'"

inductive pool_reach :: "bool \<times> net \<Rightarrow> pool_conn \<Rightarrow> bool" for w where
  init: "pool_reach w (pool_new w)"
| step: "pool_reach w s \<Longrightarrow> pool_step s s' \<Longrightarrow> pool_reach w s'"

section \<open>Ownership\<close>

definition pool_flight :: "pool_conn \<Rightarrow> slot list" where
  "pool_flight s = (case pl_sender s of PWriting rest a \<Rightarrow> rest | _ \<Rightarrow> [])"

definition live_slots :: "pool_conn \<Rightarrow> slot list" where
  "live_slots s = pl_callers s @ pl_queue s @ pool_flight s"

definition slot_ok :: "pool_conn \<Rightarrow> slot \<Rightarrow> bool" where
  "slot_ok s sl \<longleftrightarrow> sl_buf sl < pl_next s \<and> (\<exists>addr. addrPortFrom addr = Some (sl_addr sl)) \<and>
     slot_message s sl = \<lparr> mg_buf = sl_data sl, mg_addr = sl_addr sl \<rparr>"

definition owners_ok :: "pool_conn \<Rightarrow> bool" where
  "owners_ok s \<longleftrightarrow>
     distinct (pl_pool s @ map sl_buf (live_slots s)) \<and>
     (\<forall>b \<in> set (pl_pool s). b < pl_next s \<and> length (pl_mem s b) = poolBufCap) \<and>
     (\<forall>sl \<in> set (live_slots s). slot_ok s sl)"

text \<open>What the rest of a batch still does is what the whole batch would have done.\<close>

definition batch_ok_so_far :: "pool_conn \<Rightarrow> bool" where
  "batch_ok_so_far s \<longleftrightarrow>
     (case pl_sender s of
        PWriting rest a \<Rightarrow>
          fst (writeAll windows_WriteBatch writeAttempts (pl_w0 s) (pl_ms0 s)) =
            fst (writeAll windows_WriteBatch (writeAttempts - a) (pl_w s) (map (slot_message s) rest)) \<and>
          snd (snd (writeAll windows_WriteBatch writeAttempts (pl_w0 s) (pl_ms0 s))) =
            snd (snd (writeAll windows_WriteBatch (writeAttempts - a) (pl_w s) (map (slot_message s) rest)))
      | _ \<Rightarrow> True)"

definition pool_abs :: "pool_conn \<Rightarrow> coal" where
  "pool_abs s =
     \<lparr> co_queue = map (slot_message s) (pl_queue s), co_kick = pl_kick s, co_closed = pl_closed s, co_fatal = pl_fatal s,
       co_sender = (case pl_sender s of PNoSender \<Rightarrow> NoSender | PWaiting \<Rightarrow> Waiting | PPopping \<Rightarrow> Popping
         | PWriting rest a \<Rightarrow> Writing (pl_ms0 s)),
       co_w = (case pl_sender s of PWriting rest a \<Rightarrow> pl_w0 s | _ \<Rightarrow> pl_w s),
       co_accepted = pl_accepted s, co_taken = pl_taken s \<rparr>"

lemma putBuf_simps [simp]:
  "pl_mem (putBuf b s) = pl_mem s" "pl_next (putBuf b s) = pl_next s" "pl_callers (putBuf b s) = pl_callers s"
  "pl_queue (putBuf b s) = pl_queue s" "pl_kick (putBuf b s) = pl_kick s" "pl_closed (putBuf b s) = pl_closed s"
  "pl_fatal (putBuf b s) = pl_fatal s" "pl_sender (putBuf b s) = pl_sender s" "pl_w (putBuf b s) = pl_w s"
  "pl_accepted (putBuf b s) = pl_accepted s" "pl_taken (putBuf b s) = pl_taken s"
  "pl_w0 (putBuf b s) = pl_w0 s" "pl_ms0 (putBuf b s) = pl_ms0 s"
  by (simp_all add: putBuf_def)

lemma releaseBatch_Nil [simp]: "releaseBatch [] s = s"
  by (simp add: releaseBatch_def)

lemma releaseBatch_Cons: "releaseBatch (sl # ss) s = releaseBatch ss (putBuf (sl_buf sl) s)"
  by (simp add: releaseBatch_def)

lemma releaseBatch_simps [simp]:
  "pl_mem (releaseBatch b s) = pl_mem s" "pl_next (releaseBatch b s) = pl_next s"
  "pl_callers (releaseBatch b s) = pl_callers s" "pl_queue (releaseBatch b s) = pl_queue s"
  "pl_kick (releaseBatch b s) = pl_kick s" "pl_closed (releaseBatch b s) = pl_closed s"
  "pl_fatal (releaseBatch b s) = pl_fatal s" "pl_sender (releaseBatch b s) = pl_sender s"
  "pl_w (releaseBatch b s) = pl_w s" "pl_accepted (releaseBatch b s) = pl_accepted s"
  "pl_taken (releaseBatch b s) = pl_taken s" "pl_w0 (releaseBatch b s) = pl_w0 s" "pl_ms0 (releaseBatch b s) = pl_ms0 s"
  by (induction b arbitrary: s) (simp_all add: releaseBatch_Cons)

lemma slot_message_cong: "pl_mem s' = pl_mem s \<Longrightarrow> slot_message s' = slot_message s"
  by (rule ext) (simp add: slot_message_def)

lemma slot_message_upd [simp]:
  "slot_message (putBuf b s) = slot_message s" "slot_message (releaseBatch ss s) = slot_message s"
  "slot_message (s\<lparr> pl_callers := c \<rparr>) = slot_message s" "slot_message (s\<lparr> pl_queue := q \<rparr>) = slot_message s"
  "slot_message (s\<lparr> pl_sender := p \<rparr>) = slot_message s" "slot_message (s\<lparr> pl_kick := x \<rparr>) = slot_message s"
  "slot_message (s\<lparr> pl_accepted := ms \<rparr>) = slot_message s" "slot_message (s\<lparr> pl_taken := ms \<rparr>) = slot_message s"
  "slot_message (s\<lparr> pl_w := w \<rparr>) = slot_message s" "slot_message (s\<lparr> pl_w0 := w \<rparr>) = slot_message s"
  "slot_message (s\<lparr> pl_ms0 := ms \<rparr>) = slot_message s" "slot_message (s\<lparr> pl_fatal := f \<rparr>) = slot_message s"
  "slot_message (s\<lparr> pl_closed := x \<rparr>) = slot_message s"
  by (rule slot_message_cong, simp)+

lemma slot_ok_cong: "pl_mem s' = pl_mem s \<Longrightarrow> pl_next s' = pl_next s \<Longrightarrow> slot_ok s' sl = slot_ok s sl"
  using slot_message_cong[of s' s] by (simp add: slot_ok_def)

lemma releaseBatch_cong:
  "pl_mem t = pl_mem s \<Longrightarrow> pl_pool t = pl_pool s \<Longrightarrow> pl_pool (releaseBatch b t) = pl_pool (releaseBatch b s)"
proof (induction b arbitrary: s t)
  case (Cons sl b)
  have "pl_mem (putBuf (sl_buf sl) t) = pl_mem (putBuf (sl_buf sl) s)" by (simp add: Cons.prems(1))
  moreover have "pl_pool (putBuf (sl_buf sl) t) = pl_pool (putBuf (sl_buf sl) s)" by (simp add: putBuf_def Cons.prems)
  ultimately show ?case unfolding releaseBatch_Cons by (rule Cons.IH)
qed simp

lemma releaseBatch_append: "releaseBatch (xs @ ys) s = releaseBatch ys (releaseBatch xs s)"
  by (simp add: releaseBatch_def)

text \<open>A release moves buffers from the batch to the pool, each once, and no buffer of another size.\<close>

lemma releaseBatch_distinct:
  "distinct (pl_pool s @ map sl_buf b @ rest) \<Longrightarrow>
     distinct (pl_pool (releaseBatch b s) @ rest) \<and> set (pl_pool (releaseBatch b s)) \<subseteq> set (pl_pool s) \<union> sl_buf ` set b"
proof (induction b arbitrary: s)
  case (Cons sl b)
  have "distinct (pl_pool (putBuf (sl_buf sl) s) @ map sl_buf b @ rest)"
    using Cons.prems by (auto simp: putBuf_def)
  from Cons.IH[OF this] show ?case by (auto simp: releaseBatch_Cons putBuf_def split: if_splits)
qed simp

lemma releaseBatch_cap:
  "\<forall>i \<in> set (pl_pool s). length (pl_mem s i) = poolBufCap \<Longrightarrow>
     \<forall>i \<in> set (pl_pool (releaseBatch b s)). length (pl_mem s i) = poolBufCap"
proof (induction b arbitrary: s)
  case (Cons sl b)
  then have "\<forall>i \<in> set (pl_pool (putBuf (sl_buf sl) s)). length (pl_mem (putBuf (sl_buf sl) s) i) = poolBufCap"
    by (auto simp: putBuf_def)
  from Cons.IH[OF this] show ?case by (simp add: releaseBatch_Cons)
qed simp

text \<open>A state that gives back \<open>b\<close> and keeps the slots \<open>keep\<close>.\<close>

lemma owners_release:
  assumes "owners_ok s" "map sl_buf (live_slots s) = map sl_buf pre @ map sl_buf b @ map sl_buf post"
    and "pl_pool t = pl_pool (releaseBatch b s)" "pl_mem t = pl_mem s" "pl_next t = pl_next s"
    and "live_slots t = pre @ post" "set (pre @ b @ post) \<subseteq> set (live_slots s)"
  shows "owners_ok t"
proof -
  have d: "distinct (pl_pool s @ map sl_buf b @ map sl_buf (pre @ post))"
    using assms(1,2) by (auto simp: owners_ok_def)
  have slots: "\<forall>sl \<in> set (live_slots s). slot_ok s sl" using assms(1) by (simp add: owners_ok_def)
  have "slot_ok t sl" if "sl \<in> set (pre @ post)" for sl
    using that slots assms(7) slot_ok_cong[OF assms(4,5)] by auto
  moreover have "i < pl_next t \<and> length (pl_mem t i) = poolBufCap" if i: "i \<in> set (pl_pool t)" for i
  proof
    show "length (pl_mem t i) = poolBufCap"
      using i releaseBatch_cap[of s b] assms(1,3,4) by (auto simp: owners_ok_def)
    have "i \<in> set (pl_pool s) \<union> sl_buf ` set b" using i releaseBatch_distinct[OF d] assms(3) by auto
    then show "i < pl_next t"
      using assms(1,5,7) slots by (auto simp: owners_ok_def slot_ok_def)
  qed
  ultimately show ?thesis
    using releaseBatch_distinct[OF d] assms(3,6) by (auto simp: owners_ok_def)
qed

text \<open>The same without a release: the slots are only handed on.\<close>

lemma owners_move:
  assumes "owners_ok s" "pl_pool t = pl_pool s" "pl_mem t = pl_mem s" "pl_next t = pl_next s"
    and "distinct (map sl_buf (live_slots t))" "set (live_slots t) \<subseteq> set (live_slots s)"
  shows "owners_ok t"
  using assms(1,5,6) slot_ok_cong[OF assms(3,4)] unfolding owners_ok_def assms(2,3,4) by auto

section \<open>The steps\<close>

text \<open>A buffer from the pool is no live slot's, is no longer in the pool and is large enough.\<close>

lemma getBuf_spec:
  assumes "owners_ok s" "\<And>b. pick = Some b \<Longrightarrow> b \<in> set (pl_pool s)" "getBuf pick n s = (i, s1)"
  shows "i \<notin> sl_buf ` set (live_slots s)" "i \<notin> set (pl_pool s1)" "distinct (pl_pool s1)"
    "set (pl_pool s1) \<subseteq> set (pl_pool s)" "b \<noteq> i \<Longrightarrow> pl_mem s1 b = pl_mem s b" "n \<le> length (pl_mem s1 i)"
    "i < pl_next s1" "pl_next s \<le> pl_next s1"
    "s1 = s\<lparr> pl_mem := pl_mem s1, pl_next := pl_next s1, pl_pool := pl_pool s1 \<rparr>"
proof -
  have pool: "distinct (pl_pool s)" "\<And>b. b \<in> set (pl_pool s) \<Longrightarrow> b < pl_next s" "\<And>sl. sl \<in> set (live_slots s) \<Longrightarrow> sl_buf sl < pl_next s"
    "\<And>b. b \<in> set (pl_pool s) \<Longrightarrow> b \<notin> sl_buf ` set (live_slots s)"
    using assms(1) by (auto simp: owners_ok_def slot_ok_def)
  have fresh: "pl_next s \<notin> sl_buf ` set (live_slots s)" "pl_next s \<notin> set (pl_pool s)"
    using pool(2,3) by fastforce+
  consider (large) "getBuf pick n s = make_buf (max n poolBufCap) s" "n > poolBufCap \<or> pick = None"
    | (pooled) b where "pick = Some b" "b \<in> set (pl_pool s)" "n \<le> poolBufCap"
    using assms(2) by (cases pick; cases "n > poolBufCap") (auto simp: getBuf_def max_def)
  then consider (new) m where "(i, s1) = make_buf m s" "n \<le> m"
    | (renew) b where "b \<in> set (pl_pool s)" "(i, s1) = make_buf n (s\<lparr> pl_pool := remove1 b (pl_pool s) \<rparr>)"
    | (again) "i \<in> set (pl_pool s)" "n \<le> length (pl_mem s i)" "s1 = s\<lparr> pl_pool := remove1 i (pl_pool s) \<rparr>"
    using assms(3) by cases (auto simp: getBuf_def Let_def not_less split: if_splits)
  then show "i \<notin> sl_buf ` set (live_slots s)" "i \<notin> set (pl_pool s1)" "distinct (pl_pool s1)"
    "set (pl_pool s1) \<subseteq> set (pl_pool s)" "b \<noteq> i \<Longrightarrow> pl_mem s1 b = pl_mem s b" "n \<le> length (pl_mem s1 i)"
    "i < pl_next s1" "pl_next s \<le> pl_next s1"
    "s1 = s\<lparr> pl_mem := pl_mem s1, pl_next := pl_next s1, pl_pool := pl_pool s1 \<rparr>"
    using pool fresh by (cases; auto simp: make_buf_def dest: notin_set_remove1)+
qed

lemma slot_message_other:
  "(\<And>b. b \<noteq> i \<Longrightarrow> pl_mem t b = pl_mem s b) \<Longrightarrow> sl_buf sl \<noteq> i \<Longrightarrow> slot_message t sl = slot_message s sl"
  by (simp add: slot_message_def)

lemma slot_ok_other:
  "(\<And>b. b \<noteq> i \<Longrightarrow> pl_mem t b = pl_mem s b) \<Longrightarrow> sl_buf sl \<noteq> i \<Longrightarrow> pl_next s \<le> pl_next t \<Longrightarrow> slot_ok s sl \<Longrightarrow> slot_ok t sl"
  using slot_message_other[of i t s sl] by (auto simp: slot_ok_def)

text \<open>Filling a buffer changes no datagram that somebody else holds.\<close>

lemma fill_ok:
  assumes "owners_ok s" "\<And>b. pick = Some b \<Longrightarrow> b \<in> set (pl_pool s)"
    and t_def: "t = pool_WriteTo_fill pick d addr s"
  shows "owners_ok t" "pl_queue t = pl_queue s" "pl_sender t = pl_sender s"
    "\<forall>sl \<in> set (live_slots s). slot_message t sl = slot_message s sl"
    "t = s\<lparr> pl_mem := pl_mem t, pl_next := pl_next t, pl_pool := pl_pool t, pl_callers := pl_callers t \<rparr>"
proof -
  have "owners_ok t \<and> pl_queue t = pl_queue s \<and> pl_sender t = pl_sender s \<and>
    (\<forall>sl \<in> set (live_slots s). slot_message t sl = slot_message s sl) \<and>
    t = s\<lparr> pl_mem := pl_mem t, pl_next := pl_next t, pl_pool := pl_pool t, pl_callers := pl_callers t \<rparr>"
  proof (cases "addrPortFrom addr")
    case None
    then show ?thesis using assms(1) by (simp add: t_def pool_WriteTo_fill_def)
  next
    case (Some ap)
    obtain i s1 where g: "getBuf pick (length d) s = (i, s1)" by (metis surj_pair)
    note sp = getBuf_spec[OF assms(1,2) g]
    define sl0 where "sl0 = \<lparr> sl_buf = i, sl_len = length d, sl_addr = ap, sl_data = d \<rparr>"
    have t: "t = s1\<lparr> pl_mem := (pl_mem s1)(i := go_copy (pl_mem s1 i) d), pl_callers := pl_callers s1 @ [sl0] \<rparr>"
      by (simp add: t_def pool_WriteTo_fill_def Some g sl0_def)
    have s1: "pl_callers s1 = pl_callers s" "pl_queue s1 = pl_queue s" "pl_sender s1 = pl_sender s" "pl_kick s1 = pl_kick s"
      "pl_closed s1 = pl_closed s" "pl_fatal s1 = pl_fatal s" "pl_w s1 = pl_w s" "pl_accepted s1 = pl_accepted s"
      "pl_taken s1 = pl_taken s" "pl_w0 s1 = pl_w0 s" "pl_ms0 s1 = pl_ms0 s"
      by (subst sp(9); simp)+
    have mem: "pl_mem t b = pl_mem s b" if "b \<noteq> i" for b using that sp(5) by (simp add: t)
    have same: "slot_message t sl = slot_message s sl" if "sl \<in> set (live_slots s)" for sl
      using that sp(1) by (intro slot_message_other[of i t s sl, OF mem]) auto
    have live: "set (live_slots t) = insert sl0 (set (live_slots s))"
      "mset (live_slots t) = mset (sl0 # live_slots s)"
      by (auto simp: live_slots_def pool_flight_def t s1)
    have ok0: "slot_ok t sl0" using sp(6,7) Some by (auto simp: slot_ok_def slot_message_def t sl0_def)
    have okl: "slot_ok t sl" if "sl \<in> set (live_slots s)" for sl
    proof (rule slot_ok_other[of i t s sl, OF mem])
      show "sl_buf sl \<noteq> i" using that sp(1) by auto
      show "pl_next s \<le> pl_next t" using sp(8) by (simp add: t)
      show "slot_ok s sl" using that assms(1) by (simp add: owners_ok_def)
    qed
    have "mset (map sl_buf (live_slots t)) = mset (map sl_buf (sl0 # live_slots s))"
      using arg_cong[OF live(2), of "image_mset sl_buf"] by simp
    from mset_eq_imp_distinct_iff[OF this] have dl: "distinct (map sl_buf (live_slots t))"
      using sp(1) assms(1) by (simp add: owners_ok_def sl0_def)
    have "owners_ok t"
      unfolding owners_ok_def
    proof (intro conjI ballI)
      have pt: "pl_pool t = pl_pool s1" and b0: "sl_buf sl0 = i" by (simp_all add: t sl0_def)
      have "sl_buf ` set (live_slots t) \<inter> set (pl_pool t) = {}"
        using sp(2,4) assms(1) by (auto simp: live(1) owners_ok_def pt b0)
      then show "distinct (pl_pool t @ map sl_buf (live_slots t))" using dl sp(3) by (auto simp: pt)
      fix b assume "b \<in> set (pl_pool t)"
      then have "b \<in> set (pl_pool s1)" by (simp add: t)
      then have b: "b \<in> set (pl_pool s)" "b \<noteq> i" using sp(2,4) by auto
      show "b < pl_next t" using b(1) sp(8) assms(1) by (auto simp: owners_ok_def t)
      show "length (pl_mem t b) = poolBufCap" using b mem assms(1) by (auto simp: owners_ok_def)
    next
      fix sl assume "sl \<in> set (live_slots t)"
      then show "slot_ok t sl" using ok0 okl by (auto simp: live)
    qed
    moreover have "t = s\<lparr> pl_mem := pl_mem t, pl_next := pl_next t, pl_pool := pl_pool t, pl_callers := pl_callers t \<rparr>"
      by (rule pool_conn.equality) (simp_all add: t s1)
    ultimately show ?thesis using same s1 by (simp add: t)
  qed
  then show "owners_ok t" "pl_queue t = pl_queue s" "pl_sender t = pl_sender s"
    "\<forall>sl \<in> set (live_slots s). slot_message t sl = slot_message s sl"
    "t = s\<lparr> pl_mem := pl_mem t, pl_next := pl_next t, pl_pool := pl_pool t, pl_callers := pl_callers t \<rparr>"
    by blast+
qed

text \<open>Under the lock a datagram is queued, given back or left where it is.\<close>

lemma lock_ok:
  assumes "owners_ok s" "k < length (pl_callers s)" and t: "t = pool_WriteTo_lock k s"
  shows "owners_ok t \<and> pl_mem t = pl_mem s \<and> pool_flight t = pool_flight s \<and>
    (\<exists>addr. pool_abs t = snd (WriteTo (pool_abs s) (sl_data (pl_callers s ! k)) addr))"
proof -
  define sl pre post where "sl = pl_callers s ! k" and "pre = take k (pl_callers s)" and "post = drop (Suc k) (pl_callers s)"
  define s0 where "s0 = s\<lparr> pl_callers := pre @ post \<rparr>"
  have callers: "pl_callers s = pre @ sl # post"
    using assms(2) by (simp add: sl_def pre_def post_def id_take_nth_drop)
  have "sl \<in> set (live_slots s)" by (simp add: live_slots_def callers)
  then have "slot_ok s sl" using assms(1) by (simp add: owners_ok_def)
  then obtain addr where addr: "addrPortFrom addr = Some (sl_addr sl)"
    and msg: "slot_message s sl = \<lparr> mg_buf = sl_data sl, mg_addr = sl_addr sl \<rparr>" by (auto simp: slot_ok_def)
  have t': "t = (if length (pl_queue s) \<ge> queueCap \<and> \<not> pl_closed s \<and> pl_fatal s = None then s
         else if pl_fatal s \<noteq> None \<or> pl_closed s then putBuf (sl_buf sl) s0
         else s0\<lparr> pl_queue := pl_queue s @ [sl], pl_accepted := pl_accepted s @ [slot_message s sl],
           pl_sender := (if pl_sender s = PNoSender then PWaiting else pl_sender s), pl_kick := True \<rparr>)"
    by (auto simp: t pool_WriteTo_lock_def sl_def pre_def post_def s0_def Let_def)
  consider (waits) "length (pl_queue s) \<ge> queueCap" "\<not> pl_closed s" "pl_fatal s = None"
    | (fails) "pl_fatal s \<noteq> None \<or> pl_closed s" | (queued) "length (pl_queue s) < queueCap" "\<not> pl_closed s" "pl_fatal s = None"
    by fastforce
  then show ?thesis
  proof cases
    case waits
    then show ?thesis using assms(1) addr
      by (intro conjI exI[of _ addr]) (simp_all add: t' WriteTo_def pool_abs_def)
  next
    case fails
    then have tp: "t = putBuf (sl_buf sl) s0" by (auto simp: t')
    have fl: "pool_flight t = pool_flight s" by (simp add: tp s0_def pool_flight_def)
    have "owners_ok t"
    proof (rule owners_release[OF assms(1), of pre "[sl]" "post @ pl_queue s @ pool_flight s"])
      show "live_slots t = pre @ post @ pl_queue s @ pool_flight s"
        using fl by (simp add: live_slots_def) (simp add: tp s0_def)
    qed (auto simp: live_slots_def callers tp s0_def releaseBatch_def putBuf_def)
    moreover have "pool_abs t = pool_abs s"
      by (simp add: pool_abs_def tp s0_def split: pool_phase.split)
    ultimately show ?thesis using fails addr fl
      by (intro conjI exI[of _ addr]) (auto simp: tp s0_def WriteTo_def pool_abs_def split: option.splits)
  next
    case queued
    then have tq: "t = s0\<lparr> pl_queue := pl_queue s @ [sl], pl_accepted := pl_accepted s @ [slot_message s sl],
           pl_sender := (if pl_sender s = PNoSender then PWaiting else pl_sender s), pl_kick := True \<rparr>"
      by (auto simp: t')
    have fl: "pool_flight t = pool_flight s" by (simp add: tq s0_def pool_flight_def)
    have live: "live_slots t = pre @ post @ pl_queue s @ [sl] @ pool_flight s"
      using fl by (simp add: live_slots_def) (simp add: tq s0_def)
    have "owners_ok t"
    proof (rule owners_move[OF assms(1)])
      show "distinct (map sl_buf (live_slots t))"
        using assms(1) unfolding live by (auto simp: owners_ok_def live_slots_def callers)
      show "set (live_slots t) \<subseteq> set (live_slots s)" unfolding live by (auto simp: live_slots_def callers)
    qed (simp_all add: tq s0_def)
    moreover have "pool_abs t = snd (WriteTo (pool_abs s) (sl_data sl) addr)"
      using queued addr msg
      by (simp add: pool_abs_def WriteTo_def wake_def Let_def tq s0_def split: pool_phase.split)
    ultimately show ?thesis using fl by (intro conjI exI[of _ addr]) (simp_all add: tq s0_def sl_def)
  qed
qed

lemma pop_ok:
  assumes "owners_ok s" "pl_sender s = PPopping" and t: "t = pool_pop s"
  shows "owners_ok t \<and> batch_ok_so_far t \<and> pool_abs t = sender_pop (pool_abs s)"
proof -
  have fl: "pool_flight s = []" using assms(2) by (simp add: pool_flight_def)
  define n where "n = min (length (pl_queue s)) maxBatch"
  define batch rest where "batch = take n (pl_queue s)" and "rest = drop n (pl_queue s)"
  define s1 where "s1 = s\<lparr> pl_queue := rest, pl_taken := pl_taken s @ map (slot_message s) batch \<rparr>"
  have q: "pl_queue s = batch @ rest" by (simp add: batch_def rest_def)
  consider (empty) "pl_queue s = []" | (fatal) "pl_queue s \<noteq> []" "pl_fatal s \<noteq> None"
    | (writes) "pl_queue s \<noteq> []" "pl_fatal s = None" by blast
  then show ?thesis
  proof cases
    case empty
    then have "pool_flight t = []" "t = s\<lparr> pl_sender := pl_sender t \<rparr>"
      by (simp_all add: t pool_pop_def pool_flight_def)
    then have "owners_ok t"
      using assms(1) fl
      by (intro owners_move[OF assms(1)]) (auto simp: owners_ok_def live_slots_def t pool_pop_def empty pool_flight_def)
    then show ?thesis using empty assms(2)
      by (simp add: t pool_pop_def batch_ok_so_far_def pool_abs_def sender_pop_def pop_def)
  next
    case fatal
    then have tf: "t = (releaseBatch batch s1)\<lparr> pl_sender := PWaiting \<rparr>"
      by (simp add: t pool_pop_def n_def batch_def rest_def s1_def Let_def)
    have "owners_ok t"
    proof (rule owners_release[OF assms(1), of "pl_callers s" batch rest])
      show "pl_pool t = pl_pool (releaseBatch batch s)"
        using releaseBatch_cong[of s1 s batch] by (simp add: tf s1_def)
    qed (auto simp: live_slots_def pool_flight_def assms(2) q tf s1_def)
    moreover have "batch_ok_so_far t" by (simp add: tf batch_ok_so_far_def)
    moreover obtain e where e: "pl_fatal s = Some e" using fatal by blast
    have "sender_pop (pool_abs s) = (pool_abs s)\<lparr> co_queue := map (slot_message s) rest,
        co_taken := pl_taken s @ map (slot_message s) batch, co_sender := Waiting \<rparr>"
      using fatal(1) by (simp add: sender_pop_def pop_def pool_abs_def e Let_def n_def batch_def rest_def take_map drop_map)
    moreover have "pool_abs t = (pool_abs s)\<lparr> co_queue := map (slot_message s) rest,
        co_taken := pl_taken s @ map (slot_message s) batch, co_sender := Waiting \<rparr>"
      by (simp add: tf s1_def pool_abs_def assms(2))
    ultimately show ?thesis by simp
  next
    case writes
    then have tw: "t = s1\<lparr> pl_sender := PWriting batch 0, pl_w0 := pl_w s, pl_ms0 := map (slot_message s) batch \<rparr>"
      by (simp add: t pool_pop_def n_def batch_def rest_def s1_def Let_def)
    have ne: "batch \<noteq> []" using writes by (simp add: batch_def n_def maxBatch_def)
    have live: "live_slots t = pl_callers s @ rest @ batch" by (simp add: live_slots_def pool_flight_def tw s1_def)
    have "owners_ok t"
    proof (rule owners_move[OF assms(1)])
      show "distinct (map sl_buf (live_slots t))"
        using assms(1) unfolding live by (auto simp: owners_ok_def live_slots_def q fl)
      show "set (live_slots t) \<subseteq> set (live_slots s)" unfolding live by (auto simp: live_slots_def q)
    qed (simp_all add: tw s1_def)
    then show ?thesis using writes ne assms(2)
      by (simp add: tw s1_def batch_ok_so_far_def pool_abs_def sender_pop_def pop_def Let_def n_def batch_def rest_def take_map drop_map)
  qed
qed

text \<open>One attempt is one round of \<open>writeAll\<close>.\<close>

lemma writeAll_round:
  assumes "a < writeAttempts" "ms \<noteq> []" "wb w ms = ((n, err), w')"
  shows "writeAll wb (writeAttempts - a) w ms =
    (case err of
       None \<Rightarrow> (None, drop n ms, w')
     | Some e \<Rightarrow> if drop n ms = [] then (None, [], w')
         else if isFatalWriteErr e then (Some e, drop n ms, w') else writeAll wb (writeAttempts - Suc a) w' (drop n ms))"
proof -
  have "writeAttempts - a = Suc (writeAttempts - Suc a)" using assms(1) by simp
  then show ?thesis using assms(2,3) by (simp add: Let_def)
qed

definition writes_as :: "write_err option \<Rightarrow> bool \<times> net \<Rightarrow> pool_conn \<Rightarrow> bool" where
  "writes_as f w' s \<longleftrightarrow>
     (\<exists>gone. writeAll windows_WriteBatch writeAttempts (pl_w0 s) (pl_ms0 s) = (f, gone, w'))"

lemma batch_ok_writes:
  assumes "batch_ok_so_far s" "pl_sender s = PWriting rest a"
    and "writeAll windows_WriteBatch (writeAttempts - a) (pl_w s) (map (slot_message s) rest) = (f, gone, w')"
  shows "writes_as f w' s"
  using assms by (cases "writeAll windows_WriteBatch writeAttempts (pl_w0 s) (pl_ms0 s)")
    (auto simp: batch_ok_so_far_def writes_as_def)

text \<open>A batch whose last buffers have been given back is a batch written.\<close>

lemma batch_done:
  assumes "writes_as f w' s" "pl_sender s = PWriting rest a"
    and "t = (releaseBatch rest s)\<lparr> pl_w := w', pl_sender := PWaiting,
           pl_fatal := (if pl_fatal s = None then f else pl_fatal s), pl_pool := pool \<rparr>"
  shows "pool_abs t = sender_write (pool_abs s) (pl_ms0 s)"
proof -
  obtain gone where "writeAll windows_WriteBatch writeAttempts (pl_w0 s) (pl_ms0 s) = (f, gone, w')"
    using assms(1) by (auto simp: writes_as_def)
  then show ?thesis
    using assms(2,3) slot_message_cong[of t s]
    by (auto simp: pool_abs_def sender_write_def noteFatal_def Let_def split: option.split)
qed

lemma owners_flight_done:
  assumes "owners_ok s" "pl_sender s = PWriting (gone @ keep) a" "pl_pool t = pl_pool (releaseBatch gone s)"
    and "pl_mem t = pl_mem s" "pl_next t = pl_next s" "pl_callers t = pl_callers s" "pl_queue t = pl_queue s"
    and "pool_flight t = keep"
  shows "owners_ok t"
  by (rule owners_release[OF assms(1), of "pl_callers s @ pl_queue s" gone keep])
     (auto simp: assms(2-8) live_slots_def pool_flight_def[of s])

lemma pool_attempt_ok:
  assumes "owners_ok s" "batch_ok_so_far s" "pl_sender s = PWriting rest a" and t: "t = pool_attempt rest a s"
  shows "owners_ok t \<and> batch_ok_so_far t \<and>
    (pool_abs t = pool_abs s \<or> pool_abs t = sender_write (pool_abs s) (pl_ms0 s))"
proof (cases "a < writeAttempts \<and> rest \<noteq> []")
  case False
  then have tf: "t = (releaseBatch rest s)\<lparr> pl_sender := PWaiting \<rparr>" by (auto simp: t pool_attempt_def)
  obtain f gone w' where wa: "writeAll windows_WriteBatch (writeAttempts - a) (pl_w s) (map (slot_message s) rest) = (f, gone, w')"
    by (metis surj_pair)
  then have fw: "f = None" "w' = pl_w s" using False by (cases "writeAttempts - a"; auto)+
  have "owners_ok t"
    by (rule owners_flight_done[of s rest "[]" a t]) (simp_all add: assms(1,3) tf pool_flight_def)
  moreover have "pool_abs t = sender_write (pool_abs s) (pl_ms0 s)"
    by (rule batch_done[OF batch_ok_writes[OF assms(2,3) wa] assms(3), where pool = "pl_pool (releaseBatch rest s)"])
       (simp add: tf fw)
  ultimately show ?thesis by (simp add: batch_ok_so_far_def tf)
next
  case True
  define ms where "ms = map (slot_message s) rest"
  obtain n0 err w' where wb: "windows_WriteBatch (pl_w s) ms = ((n0, err), w')" by (metis surj_pair)
  define n where "n = min n0 (length rest)"
  define gone keep where "gone = take n rest" and "keep = drop n rest"
  define s1 where "s1 = releaseBatch gone (s\<lparr> pl_w := w' \<rparr>)"
  have rest: "rest = gone @ keep" by (simp add: gone_def keep_def)
  have drop: "drop n0 ms = map (slot_message s) keep"
    by (simp add: ms_def keep_def n_def drop_map min_def)
  have round: "writeAll windows_WriteBatch (writeAttempts - a) (pl_w s) (map (slot_message s) rest) =
    (case err of
       None \<Rightarrow> (None, map (slot_message s) keep, w')
     | Some e \<Rightarrow> if keep = [] then (None, [], w')
         else if isFatalWriteErr e then (Some e, map (slot_message s) keep, w')
         else writeAll windows_WriteBatch (writeAttempts - Suc a) w' (map (slot_message s) keep))"
    using writeAll_round[of a ms windows_WriteBatch "pl_w s" n0 err w'] wb True unfolding drop by (simp add: ms_def cong: option.case_cong)
  have tt: "t = (case err of
                  None \<Rightarrow> (releaseBatch keep s1)\<lparr> pl_sender := PWaiting \<rparr>
                | Some e \<Rightarrow>
                    if keep = [] then s1\<lparr> pl_sender := PWaiting \<rparr>
                    else if isFatalWriteErr e then (releaseBatch keep (pool_noteFatal e s1))\<lparr> pl_sender := PWaiting \<rparr>
                    else s1\<lparr> pl_sender := PWriting keep (Suc a) \<rparr>)"
    by (simp only: t pool_attempt_def s1_def keep_def gone_def n_def wb[unfolded ms_def] Let_def prod.case True simp_thms if_False)
  have s1_pool: "pl_pool s1 = pl_pool (releaseBatch gone s)" unfolding s1_def by (rule releaseBatch_cong) simp_all
  have all_pool: "pl_pool (releaseBatch keep s2) = pl_pool (releaseBatch rest s)"
    if "pl_mem s2 = pl_mem s1" "pl_pool s2 = pl_pool s1" for s2
    unfolding rest releaseBatch_append using that s1_pool by (intro releaseBatch_cong) (simp_all add: s1_def)
  consider (over) f where "fst (case err of
       None \<Rightarrow> (None, map (slot_message s) keep, w')
     | Some e \<Rightarrow> if keep = [] then (None, [], w')
         else if isFatalWriteErr e then (Some e, map (slot_message s) keep, w')
         else writeAll windows_WriteBatch (writeAttempts - Suc a) w' (map (slot_message s) keep)) = f" 
      "err = None \<or> keep = [] \<or> isFatalWriteErr (the err)"
    | (again) e where "err = Some e" "keep \<noteq> []" "\<not> isFatalWriteErr e"
    by (cases err) auto
  then show ?thesis
  proof cases
    case again
    then have ta: "t = s1\<lparr> pl_sender := PWriting keep (Suc a) \<rparr>" by (simp add: tt)
    have "owners_ok t"
      by (rule owners_flight_done[of s gone keep a t]) (simp_all add: assms(1,3) rest[symmetric] ta s1_pool, simp_all add: s1_def pool_flight_def)
    moreover have "batch_ok_so_far t"
      using assms(2,3) again round by (simp add: batch_ok_so_far_def ta s1_def)
    moreover have "pool_abs t = pool_abs s" by (simp add: pool_abs_def ta s1_def assms(3))
    ultimately show ?thesis by simp
  next
    case over
    have wf: "writes_as f w' s"
      using over batch_ok_writes[OF assms(2,3)] round by (auto split: option.splits if_splits)
    have te: "t = (releaseBatch rest s)\<lparr> pl_w := w', pl_sender := PWaiting,
           pl_fatal := (if pl_fatal s = None then f else pl_fatal s), pl_pool := pl_pool t \<rparr>"
      using over by (intro pool_conn.equality) (auto simp: tt s1_def pool_noteFatal_def split: option.splits)
    have "pl_pool t = pl_pool (releaseBatch rest s)"
      using over all_pool[of s1] all_pool[of "pool_noteFatal (the err) s1"] s1_pool rest
      by (auto simp: tt pool_noteFatal_def split: option.splits)
    moreover have fields: "pl_mem t = pl_mem s" "pl_next t = pl_next s" "pl_callers t = pl_callers s" "pl_queue t = pl_queue s"
      "pl_sender t = PWaiting"
      using over by (auto simp: tt s1_def pool_noteFatal_def split: option.splits)
    ultimately have "owners_ok t"
      by (intro owners_flight_done[of s rest "[]" a t]) (simp_all add: assms(1,3) pool_flight_def)
    moreover have "batch_ok_so_far t" by (simp add: batch_ok_so_far_def fields)
    ultimately show ?thesis using batch_done[OF wf assms(3) te] by simp
  qed
qed

definition pool_ok :: "pool_conn \<Rightarrow> bool" where
  "pool_ok s \<longleftrightarrow> owners_ok s \<and> batch_ok_so_far s"

lemma batch_ok_cong:
  assumes "batch_ok_so_far s" "\<forall>sl \<in> set (pool_flight s). slot_message t sl = slot_message s sl"
    and "pl_sender t = pl_sender s \<or> pool_flight t = [] \<and> (\<forall>rest a. pl_sender t \<noteq> PWriting rest a)"
    and "pl_w t = pl_w s" "pl_w0 t = pl_w0 s" "pl_ms0 t = pl_ms0 s"
  shows "batch_ok_so_far t"
proof (cases "pl_sender t")
  case (PWriting rest a)
  then have s: "pl_sender s = PWriting rest a" using assms(3) by auto
  then have "map (slot_message t) rest = map (slot_message s) rest" using assms(2) by (simp add: pool_flight_def)
  then show ?thesis using assms(1) unfolding batch_ok_so_far_def PWriting s assms(4-6) by (simp only: pool_phase.case)
qed (simp_all add: batch_ok_so_far_def)

lemma lock_batch_ok:
  assumes "batch_ok_so_far s" "pl_mem t = pl_mem s" and t: "t = pool_WriteTo_lock k s"
  shows "batch_ok_so_far t"
proof (rule batch_ok_cong[OF assms(1)])
  show "pl_sender t = pl_sender s \<or> pool_flight t = [] \<and> (\<forall>rest a. pl_sender t \<noteq> PWriting rest a)"
    "pl_w t = pl_w s" "pl_w0 t = pl_w0 s" "pl_ms0 t = pl_ms0 s"
    by (simp_all add: t pool_WriteTo_lock_def Let_def pool_flight_def)
qed (simp add: slot_message_cong[OF assms(2)])

text \<open>Closing, the timer and the wake-up touch no buffer.\<close>

lemma pool_quiet_ok:
  assumes "pool_ok s" "t = s\<lparr> pl_closed := c, pl_kick := k, pl_sender := p \<rparr>"
    and "p = pl_sender s \<or> pl_sender s = PWaiting \<and> p \<in> {PPopping, PNoSender}"
  shows "pool_ok t"
proof -
  have "live_slots t = live_slots s" using assms(2,3) by (auto simp: live_slots_def pool_flight_def)
  then have "owners_ok t"
    using assms(1,2) by (intro owners_move[of s t]) (auto simp: pool_ok_def owners_ok_def)
  moreover have "batch_ok_so_far t" using assms by (intro batch_ok_cong[of s t]) (auto simp: pool_ok_def pool_flight_def)
  ultimately show ?thesis by (simp add: pool_ok_def)
qed

text \<open>Every step with buffers is a step with values, or none.\<close>

lemma pool_step_refines:
  assumes "pool_step s t" "pool_ok s"
  shows "pool_ok t \<and> (pool_abs t = pool_abs s \<or> coal_step (pool_abs s) (pool_abs t))"
  using assms(1)
proof (rule pool_stepE)
  fix pick d addr assume t: "t = pool_WriteTo_fill pick d addr s" and p: "\<And>b. pick = Some b \<Longrightarrow> b \<in> set (pl_pool s)"
  have own: "owners_ok s" using assms(2) by (simp add: pool_ok_def)
  have f: "owners_ok t" "pl_queue t = pl_queue s" "pl_sender t = pl_sender s"
    "\<forall>sl \<in> set (live_slots s). slot_message t sl = slot_message s sl"
    "t = s\<lparr> pl_mem := pl_mem t, pl_next := pl_next t, pl_pool := pl_pool t, pl_callers := pl_callers t \<rparr>"
    by (rule fill_ok[OF own _ t], erule p)+
  have same: "pl_kick t = pl_kick s" "pl_closed t = pl_closed s" "pl_fatal t = pl_fatal s" "pl_w t = pl_w s"
    "pl_accepted t = pl_accepted s" "pl_taken t = pl_taken s" "pl_w0 t = pl_w0 s" "pl_ms0 t = pl_ms0 s"
    by (subst f(5); simp)+
  have "batch_ok_so_far t"
    using assms(2) f(3,4) same by (intro batch_ok_cong[of s t]) (auto simp: pool_ok_def live_slots_def)
  moreover have "map (slot_message t) (pl_queue s) = map (slot_message s) (pl_queue s)"
    using f(4) by (simp add: live_slots_def)
  then have "pool_abs t = pool_abs s" unfolding pool_abs_def f(2,3) same by (simp only:)
  ultimately show ?thesis using f(1) by (simp add: pool_ok_def)
next
  fix k assume t: "t = pool_WriteTo_lock k s" and k: "k < length (pl_callers s)"
  have l: "owners_ok t" "pl_mem t = pl_mem s"
    "\<exists>addr. pool_abs t = snd (WriteTo (pool_abs s) (sl_data (pl_callers s ! k)) addr)"
    using lock_ok[OF _ k t] assms(2) by (simp_all add: pool_ok_def)
  moreover have "batch_ok_so_far t" using lock_batch_ok[OF _ l(2) t] assms(2) by (simp add: pool_ok_def)
  ultimately show ?thesis using coal_step.write_to by (auto simp: pool_ok_def)
next
  assume t: "t = pool_Close s"
  have "pool_ok t"
    by (rule pool_quiet_ok[OF assms(2), where t = t and c = True and k = "pl_kick t" and p = "pl_sender s"]) (auto simp: t pool_Close_def)
  moreover have "pool_abs t = Close_conn (pool_abs s)"
    by (simp add: t pool_Close_def Close_conn_def pool_abs_def wake_def split: pool_phase.split)
  ultimately show ?thesis using coal_step.close by auto
next
  assume t: "t = pool_timer s" and p: "pl_sender s = PWaiting"
  have "pool_ok t"
    by (rule pool_quiet_ok[OF assms(2), where t = t and c = "pl_closed s" and k = "pl_kick s" and p = "pl_sender t"]) (auto simp: t p pool_timer_def)
  moreover have "pool_abs t = select_timer (pool_abs s)"
    by (simp add: t p pool_timer_def select_timer_def tryIdleExit_def pool_abs_def)
  moreover have "co_sender (pool_abs s) = Waiting" by (simp add: pool_abs_def p)
  ultimately show ?thesis using coal_step.timer by auto
next
  assume t: "t = pool_kick s" and p: "pl_sender s = PWaiting" "pl_kick s"
  have "pool_ok t"
    by (rule pool_quiet_ok[OF assms(2), where t = t and c = "pl_closed s" and k = False and p = PPopping]) (auto simp: t p pool_kick_def)
  moreover have "pool_abs t = select_kick (pool_abs s)" by (simp add: t p pool_kick_def select_kick_def pool_abs_def)
  moreover have "co_sender (pool_abs s) = Waiting" "co_kick (pool_abs s)" by (simp_all add: pool_abs_def p)
  ultimately show ?thesis using coal_step.kick by auto
next
  assume t: "t = pool_pop s" and p: "pl_sender s = PPopping"
  have "co_sender (pool_abs s) = Popping" by (simp add: pool_abs_def p)
  then show ?thesis using pop_ok[OF _ p t] assms(2) coal_step.pop by (auto simp: pool_ok_def)
next
  fix rest a assume t: "t = pool_attempt rest a s" and p: "pl_sender s = PWriting rest a"
  have "co_sender (pool_abs s) = Writing (pl_ms0 s)" by (simp add: pool_abs_def p)
  then show ?thesis using pool_attempt_ok[OF _ _ p t] assms(2) coal_step.send by (auto simp: pool_ok_def)
qed

lemma pool_new_ok: "pool_ok (pool_new w)" "pool_abs (pool_new w) = newCoalesceConn w"
  by (simp_all add: pool_ok_def owners_ok_def batch_ok_so_far_def live_slots_def pool_flight_def pool_new_def pool_abs_def
      newCoalesceConn_def)

lemma pool_reach_refines: "pool_reach w s \<Longrightarrow> pool_ok s \<and> coal_reachable w (pool_abs s)"
proof (induction rule: pool_reach.induct)
  case init
  show ?case using pool_new_ok coal_reachable.start[of w] by simp
next
  case (step s t)
  then show ?case using pool_step_refines[of s t] coal_reachable.step by metis
qed

section \<open>Properties\<close>

text \<open>C39 Buffers that are used again never mix datagrams up: whatever callers fill, the lock, the sender's attempts and the
  releases do in whatever order, a buffer has one owner, every datagram that is queued or being written still reads as
  what its caller gave, and the connection behaves as the one that holds its datagrams by value.\<close>

theorem reused_buffers_keep_datagrams:
  assumes "pool_reach w s"
  shows "coal_reachable w (pool_abs s) \<and> distinct (pl_pool s @ map sl_buf (live_slots s)) \<and>
    (\<forall>sl \<in> set (pl_queue s @ pool_flight s). slot_message s sl = \<lparr> mg_buf = sl_data sl, mg_addr = sl_addr sl \<rparr>)"
  using pool_reach_refines[OF assms] by (auto simp: pool_ok_def owners_ok_def live_slots_def slot_ok_def)

definition wit_pool :: pool_conn where
  "wit_pool = pool_WriteTo_lock 0 (pool_WriteTo_fill None [7, 8] (UDPAddr [10, 0, 0, 1] 53 []) (pool_new (True, \<lparr> nt_script = [], nt_log = [] \<rparr>)))"

theorem reused_buffers_witness:
  "map sl_data (pl_queue wit_pool) = [[7, 8]] \<and>
    map (mg_buf \<circ> slot_message wit_pool) (pl_queue wit_pool) = [[7, 8]]"
proof -
  define w :: "bool \<times> net" where "w = (True, \<lparr> nt_script = [], nt_log = [] \<rparr>)"
  have f: "pool_reach w (pool_WriteTo_fill None [7, 8] (UDPAddr [10, 0, 0, 1] 53 []) (pool_new w))"
    by (rule pool_reach.step[OF pool_reach.init]) (rule pool_step.fill, simp)
  have r: "pool_reach w wit_pool"
    unfolding wit_pool_def w_def[symmetric]
    by (rule pool_reach.step[OF f pool_step.lock])
       (simp add: pool_WriteTo_fill_def addrPortFrom_def getBuf_def make_buf_def poolBufCap_def)
  have q: "map sl_data (pl_queue wit_pool) = [[7, 8]]"
    by (simp add: wit_pool_def pool_WriteTo_lock_def pool_WriteTo_fill_def addrPortFrom_def getBuf_def make_buf_def
        poolBufCap_def pool_new_def queueCap_def Let_def)
  have "map (mg_buf \<circ> slot_message wit_pool) (pl_queue wit_pool) = map sl_data (pl_queue wit_pool)"
    using reused_buffers_keep_datagrams[OF r] by simp
  with q show ?thesis by simp
qed

end
