(* ===== verification/Udp_Writers.thy ===== *)
theory Udp_Writers
  imports Udp_Coalesce Go_Net
begin

text \<open>
  Making the batch writers of \<open>udpbatch\<close>, and what the Linux writer hands to \<open>sendmmsg\<close>: it fills arrays
  that it keeps from batch to batch, so the message that goes out depends on old contents, capacities
  and the pointers between the arrays. The theorem relates one such call to \<open>sendmmsg\<close> on the messages themselves.
\<close>

section \<open>Choosing a writer\<close>

text \<open>\<open>usoSupported\<close>: the raw connection, the call on it and the socket option each may fail.\<close>

definition usoSupported :: "bool \<Rightarrow> bool \<Rightarrow> bool \<Rightarrow> bool" where
  "usoSupported syscallConn ctl option =
     (if \<not> syscallConn then False else if \<not> ctl then False else option)"

definition usoUnsupported :: "nat option \<Rightarrow> bool" where
  "usoUnsupported errno = (case errno of None \<Rightarrow> False | Some e \<Rightarrow> e = 10042 \<or> e = 10045)"

definition ipv4Socket :: "bytes option \<Rightarrow> bool" where
  "ipv4Socket localIP = (case localIP of None \<Rightarrow> False | Some ip \<Rightarrow> to4 ip \<noteq> None)"

text \<open>\<open>Wrap\<close> of the three builds: only Windows replaces a UDP socket, and only when it can offload.\<close>

datatype goos = Linux | Windows | OtherOS

datatype packet_conn = UDPConn bool | OtherConn | Coalesced

definition Wrap :: "goos \<Rightarrow> packet_conn \<Rightarrow> packet_conn" where
  "Wrap os pc = (case os of Windows \<Rightarrow> (case pc of UDPConn uso \<Rightarrow> if uso then Coalesced else pc | _ \<Rightarrow> pc) | _ \<Rightarrow> pc)"

datatype writer_kind = LinuxWriter bool | WindowsWriter bool | GenericWriter

definition NewWriter :: "goos \<Rightarrow> bytes option \<Rightarrow> bool \<Rightarrow> writer_kind" where
  "NewWriter os localIP uso =
     (case os of Linux \<Rightarrow> LinuxWriter (ipv4Socket localIP) | Windows \<Rightarrow> WindowsWriter uso | OtherOS \<Rightarrow> GenericWriter)"

text \<open>Wrapping a connection twice, as \<open>tls2.Dial\<close> on a socket that \<open>Listen\<close> has seen would, adds no second queue.\<close>

lemma Wrap_idem: "Wrap os (Wrap os pc) = Wrap os pc"
  by (simp add: Wrap_def split: goos.splits packet_conn.splits)

section \<open>The arrays of the Linux writer\<close>

text \<open>
  The four arrays up to their capacity. An address is a window into the array \<open>raw\<close> (its index and its
  length), a port and a zone; a message is the index of its buffer and of its address.
\<close>

record udp_addr =
  ua_ip :: "nat \<times> nat"
  ua_port :: u16
  ua_zone :: string

record scratch =
  sc_msgs :: "(nat \<times> nat) list"
  sc_bufs :: "bytes list"
  sc_addrs :: "udp_addr list"
  sc_raw :: "bytes list"

definition no_addr :: udp_addr where
  "no_addr = \<lparr> ua_ip = (0, 0), ua_port = 0, ua_zone = [] \<rparr>"

definition new_scratch :: scratch where
  "new_scratch = \<lparr> sc_msgs = [], sc_bufs = [], sc_addrs = [], sc_raw = [] \<rparr>"

text \<open>\<open>grow\<close> looks at two of the capacities; taking \<open>n\<close> elements of an array that has fewer panics.\<close>

definition grow :: "nat \<Rightarrow> scratch \<Rightarrow> scratch option" where
  "grow n w =
     (let w1 = (if length (sc_msgs w) < n \<or> length (sc_raw w) < n
                then \<lparr> sc_msgs = replicate n (0, 0), sc_bufs = replicate n [], sc_addrs = replicate n no_addr,
                       sc_raw = replicate n (replicate 16 0) \<rparr>
                else w)
      in if n \<le> length (sc_msgs w1) \<and> n \<le> length (sc_bufs w1) \<and> n \<le> length (sc_addrs w1) \<and> n \<le> length (sc_raw w1)
         then Some w1 else None)"

fun addr_bytes :: "net_addr \<Rightarrow> bytes" where
  "addr_bytes (V4 b p) = b"
| "addr_bytes (V4In6 b z p) = b"
| "addr_bytes (V6 b z p) = b"

fun addr_zone :: "net_addr \<Rightarrow> string" where
  "addr_zone (V4 b p) = []"
| "addr_zone (V4In6 b z p) = z"
| "addr_zone (V6 b z p) = z"

fun addr_port :: "net_addr \<Rightarrow> u16" where
  "addr_port (V4 b p) = p"
| "addr_port (V4In6 b z p) = p"
| "addr_port (V6 b z p) = p"

text \<open>One turn of the loop of \<open>writeSameFamily\<close>.\<close>

definition fill_msg :: "nat \<Rightarrow> message \<Rightarrow> scratch \<Rightarrow> scratch" where
  "fill_msg i m w =
     (let k = (case mg_addr m of V4 _ _ \<Rightarrow> 4 | _ \<Rightarrow> 16);
          raw = take k (addr_bytes (mg_addr m)) @ drop k (sc_raw w ! i)
      in w\<lparr> sc_raw := (sc_raw w)[i := raw],
            sc_addrs := (sc_addrs w)[i := \<lparr> ua_ip = (i, k), ua_port = addr_port (mg_addr m), ua_zone = addr_zone (mg_addr m) \<rparr>],
            sc_bufs := (sc_bufs w)[i := mg_buf m],
            sc_msgs := (sc_msgs w)[i := (i, i)] \<rparr>)"

fun fill_all :: "nat \<Rightarrow> message list \<Rightarrow> scratch \<Rightarrow> scratch" where
  "fill_all i [] w = w"
| "fill_all i (m # ms) w = fill_all (Suc i) ms (fill_msg i m w)"

text \<open>What the kernel reads through the pointers of message \<open>i\<close> at the time of the call: buffer, address, port and zone.\<close>

definition seen_msg :: "scratch \<Rightarrow> nat \<Rightarrow> bytes \<times> bytes \<times> u16 \<times> string" where
  "seen_msg w i =
     (let (b, a) = sc_msgs w ! i; ad = sc_addrs w ! a; (r, k) = ua_ip ad
      in (sc_bufs w ! b, take k (sc_raw w ! r), ua_port ad, ua_zone ad))"

definition prepare_batch :: "scratch \<Rightarrow> message list \<Rightarrow> (scratch \<times> (bytes \<times> bytes \<times> u16 \<times> string) list) option" where
  "prepare_batch w msgs =
     (case grow (length msgs) w of
        None \<Rightarrow> None
      | Some w1 \<Rightarrow> (let w2 = fill_all 0 msgs w1 in Some (w2, map (seen_msg w2) [0..<length msgs])))"

section \<open>The kernel sees the messages given\<close>

definition scratch_ok :: "scratch \<Rightarrow> bool" where
  "scratch_ok w \<longleftrightarrow> length (sc_bufs w) = length (sc_msgs w) \<and> length (sc_addrs w) = length (sc_msgs w) \<and>
     length (sc_raw w) = length (sc_msgs w) \<and> (\<forall>r \<in> set (sc_raw w). length r = 16)"

definition addr_ok :: "net_addr \<Rightarrow> bool" where
  "addr_ok a = (case a of V4 b _ \<Rightarrow> length b = 4 | V4In6 b _ _ \<Rightarrow> length b = 16 | V6 b _ _ \<Rightarrow> length b = 16)"

definition meant :: "message \<Rightarrow> bytes \<times> bytes \<times> u16 \<times> string" where
  "meant m = (mg_buf m, addr_bytes (mg_addr m), addr_port (mg_addr m), addr_zone (mg_addr m))"

lemma new_scratch_ok: "scratch_ok new_scratch"
  by (simp add: scratch_ok_def new_scratch_def)

lemma grow_ok:
  assumes "scratch_ok w"
  shows "\<exists>w1. grow n w = Some w1 \<and> scratch_ok w1 \<and> n \<le> length (sc_msgs w1)"
  using assms by (auto simp: grow_def scratch_ok_def Let_def)

lemma fill_msg_ok:
  assumes "scratch_ok w" "i < length (sc_msgs w)" "addr_ok (mg_addr m)"
  shows "scratch_ok (fill_msg i m w)" "length (sc_msgs (fill_msg i m w)) = length (sc_msgs w)"
    "seen_msg (fill_msg i m w) i = meant m"
proof -
  have "length (sc_raw w ! i) = 16" using assms by (auto simp: scratch_ok_def)
  then show "scratch_ok (fill_msg i m w)" "seen_msg (fill_msg i m w) i = meant m"
    using assms
    by (auto simp: scratch_ok_def fill_msg_def seen_msg_def meant_def addr_ok_def Let_def dest!: set_update_subset_insert[THEN subsetD]
        split: net_addr.splits)
qed (simp add: fill_msg_def Let_def)

lemma seen_msg_other:
  assumes "i \<noteq> j" "sc_msgs w ! i = (i, i)" "fst (ua_ip (sc_addrs w ! i)) = i"
  shows "seen_msg (fill_msg j m w) i = seen_msg w i"
    "sc_msgs (fill_msg j m w) ! i = (i, i)" "fst (ua_ip (sc_addrs (fill_msg j m w) ! i)) = i"
  using assms by (simp_all add: seen_msg_def fill_msg_def Let_def case_prod_beta)

lemma fill_msg_points:
  assumes "scratch_ok w" "i < length (sc_msgs w)"
  shows "sc_msgs (fill_msg i m w) ! i = (i, i)" "fst (ua_ip (sc_addrs (fill_msg i m w) ! i)) = i"
  using assms by (simp_all add: fill_msg_def Let_def scratch_ok_def)

lemma fill_all_before:
  assumes "i < k" "sc_msgs w ! i = (i, i)" "fst (ua_ip (sc_addrs w ! i)) = i"
  shows "seen_msg (fill_all k ms w) i = seen_msg w i"
  using assms
proof (induction ms arbitrary: k w)
  case (Cons m ms)
  have ne: "i \<noteq> k" using Cons.prems(1) by simp
  note other = seen_msg_other[OF ne Cons.prems(2,3), of m]
  show ?case using Cons.IH[of "Suc k" "fill_msg k m w"] Cons.prems(1) other by simp
qed simp

lemma fill_all_ok:
  assumes "scratch_ok w" "k + length ms \<le> length (sc_msgs w)" "\<forall>m \<in> set ms. addr_ok (mg_addr m)"
  shows "scratch_ok (fill_all k ms w) \<and> map (seen_msg (fill_all k ms w)) [k..<k + length ms] = map meant ms"
  using assms
proof (induction ms arbitrary: k w)
  case (Cons m ms)
  have k: "k < length (sc_msgs w)" and m: "addr_ok (mg_addr m)" using Cons.prems by auto
  note filled = fill_msg_ok[OF Cons.prems(1) k m]
  have rest: "scratch_ok (fill_all (Suc k) ms (fill_msg k m w)) \<and>
      map (seen_msg (fill_all (Suc k) ms (fill_msg k m w))) [Suc k..<Suc k + length ms] = map meant ms"
    using Cons.IH[OF filled(1), of "Suc k"] Cons.prems(2,3) filled(2) by simp
  have "seen_msg (fill_all (Suc k) ms (fill_msg k m w)) k = meant m"
    using fill_all_before[of k "Suc k" "fill_msg k m w" ms] fill_msg_points[OF Cons.prems(1) k] filled(3) by simp
  then show ?case using rest by (simp add: upt_conv_Cons del: upt_Suc)
qed simp

text \<open>
  However many batches of whatever sizes the writer has sent before: no array is too short, and the kernel sees exactly
  the buffers, addresses, ports and zones of this batch, in order.
\<close>

fun batches :: "scratch \<Rightarrow> message list list \<Rightarrow> scratch option" where
  "batches w [] = Some w"
| "batches w (ms # mss) = (case prepare_batch w ms of None \<Rightarrow> None | Some (w', _) \<Rightarrow> batches w' mss)"

lemma prepare_batch_ok:
  assumes "scratch_ok w" "\<forall>m \<in> set msgs. addr_ok (mg_addr m)"
  shows "\<exists>w'. prepare_batch w msgs = Some (w', map meant msgs) \<and> scratch_ok w'"
proof -
  obtain w1 where w1: "grow (length msgs) w = Some w1" "scratch_ok w1" "length msgs \<le> length (sc_msgs w1)"
    using grow_ok[OF assms(1)] by blast
  show ?thesis using fill_all_ok[OF w1(2), of 0 msgs] w1 assms(2) by (auto simp: prepare_batch_def Let_def)
qed

theorem kernel_sees_batch:
  assumes "\<forall>ms \<in> set (msgs # mss). \<forall>m \<in> set ms. addr_ok (mg_addr m)"
  shows "\<exists>w w'. batches new_scratch mss = Some w \<and> prepare_batch w msgs = Some (w', map meant msgs)"
proof -
  have "\<exists>w. batches v mss = Some w \<and> scratch_ok w" if "scratch_ok v" for v
    using that assms
  proof (induction mss arbitrary: v)
    case (Cons ms mss)
    then obtain v' where "prepare_batch v ms = Some (v', map meant ms)" "scratch_ok v'"
      using prepare_batch_ok[of v ms] by auto
    then show ?case using Cons by auto
  qed simp
  then show ?thesis using new_scratch_ok prepare_batch_ok[of _ msgs] assms by fastforce
qed

end
