(* ===== verification/Transport_Quic.thy ===== *)
theory Transport_Quic
  imports Transport_Kcp
begin

text \<open>
  The QUIC side of \<open>tls2\<close>: its settings, the TLS configurations of a process, which are made once
  (\<open>config.go\<close>), and the forms of \<open>quic.go\<close> that turn the library's connections and streams into the tunnel's.
  What \<open>crypto/tls\<close> decides in a handshake is the part of the standard library the code relies on; key
  generation, signing and the QUIC library are parameters.
\<close>

section \<open>Settings\<close>

text \<open>Times in seconds, windows in bytes.\<close>

record quic_config =
  qc_MaxIdleTimeout :: nat
  qc_KeepAlivePeriod :: nat
  qc_MaxIncomingStreams :: nat
  qc_Allow0RTT :: bool
  qc_InitialStreamReceiveWindow :: nat
  qc_MaxStreamReceiveWindow :: nat
  qc_InitialConnectionReceiveWindow :: nat
  qc_MaxConnectionReceiveWindow :: nat

definition quicCfg :: quic_config where
  "quicCfg = \<lparr> qc_MaxIdleTimeout = 120, qc_KeepAlivePeriod = 10, qc_MaxIncomingStreams = 16 * 1024,
     qc_Allow0RTT = True, qc_InitialStreamReceiveWindow = 2 * 1024 * 1024,
     qc_MaxStreamReceiveWindow = 6 * 1024 * 1024, qc_InitialConnectionReceiveWindow = 2 * 1024 * 1024,
     qc_MaxConnectionReceiveWindow = 15 * 1024 * 1024 \<rparr>"

lemma quic_settings_consistent:
  "qc_KeepAlivePeriod quicCfg < qc_MaxIdleTimeout quicCfg"
  "qc_InitialStreamReceiveWindow quicCfg \<le> qc_MaxStreamReceiveWindow quicCfg"
  "qc_InitialConnectionReceiveWindow quicCfg \<le> qc_MaxConnectionReceiveWindow quicCfg"
  "qc_KeepAlivePeriod quicCfg = sm_KeepAliveInterval smuxConf" "qc_MaxIdleTimeout quicCfg = sm_KeepAliveTimeout smuxConf"
  by (simp_all add: quicCfg_def smuxConf_def)

section \<open>The configurations of a process\<close>

text \<open>A certificate: the key it is for, the key that cert_ok it, its validity and its names.\<close>

record certificate =
  ct_SerialNumber :: int
  ct_key :: nat
  ct_signer :: nat
  ct_NotBefore :: int
  ct_NotAfter :: int
  ct_ServerAuth :: bool
  ct_DNSNames :: "string list"

record tls_config =
  tc_Certificates :: "certificate list"
  tc_InsecureSkipVerify :: bool
  tc_NextProtos :: "string list"
  tc_MinVersion :: nat
  tc_CurvePreferences :: "string list"
  tc_SessionCache :: "nat option"

definition VersionTLS13 :: nat where "VersionTLS13 = 0x0304"

definition tls_template :: "nat \<Rightarrow> int \<Rightarrow> int \<Rightarrow> certificate" where
  "tls_template key now ten_years_on = \<lparr> ct_SerialNumber = 1, ct_key = key, ct_signer = key, ct_NotBefore = now - 3600,
     ct_NotAfter = ten_years_on, ct_ServerAuth = True, ct_DNSNames = [''localhost''] \<rparr>"

text \<open>
  \<open>key\<close> and \<open>cert_ok\<close> are the outcomes of \<open>GenerateKey\<close> and \<open>CreateCertificate\<close>; the code panics when one
  fails. The result is the client's configuration and the server's.
\<close>

definition initTLSConfigs :: "nat option \<Rightarrow> bool \<Rightarrow> int \<Rightarrow> int \<Rightarrow> (tls_config \<times> tls_config) option" where
  "initTLSConfigs key cert_ok now ten_years_on =
     (case key of
        None \<Rightarrow> None
      | Some k \<Rightarrow>
          if \<not> cert_ok then None
          else
            (let base = \<lparr> tc_Certificates = [], tc_InsecureSkipVerify = False, tc_NextProtos = [''goodlink''],
                   tc_MinVersion = VersionTLS13, tc_CurvePreferences = [''X25519''], tc_SessionCache = None \<rparr>
             in Some (base\<lparr> tc_InsecureSkipVerify := True, tc_SessionCache := Some 128 \<rparr>,
                      base\<lparr> tc_Certificates := [tls_template k now ten_years_on] \<rparr>)))"

text \<open>\<open>initOnce.Do\<close>: a call that panicked counts as done and leaves both pointers nil.\<close>

record tls_process =
  tp_done :: bool
  tp_configs :: "(tls_config \<times> tls_config) option"
  tp_panicked :: bool

definition tls_start :: tls_process where
  "tls_start = \<lparr> tp_done = False, tp_configs = None, tp_panicked = False \<rparr>"

type_synonym tls_attempt = "nat option \<times> bool \<times> int \<times> int"

definition initOnce_Do :: "tls_attempt \<Rightarrow> tls_process \<Rightarrow> tls_process" where
  "initOnce_Do r s =
     (if tp_done s then s
      else (case r of (key, cert_ok, now, on) \<Rightarrow>
        (let c = initTLSConfigs key cert_ok now on in \<lparr> tp_done = True, tp_configs = c, tp_panicked = (c = None) \<rparr>)))"

definition GetClientTLSConfig :: "tls_attempt \<Rightarrow> tls_process \<Rightarrow> tls_config option \<times> tls_process" where
  "GetClientTLSConfig r s = (let s' = initOnce_Do r s in (map_option fst (tp_configs s'), s'))"

definition GetServerTLSConfig :: "tls_attempt \<Rightarrow> tls_process \<Rightarrow> tls_config option \<times> tls_process" where
  "GetServerTLSConfig r s = (let s' = initOnce_Do r s in (map_option snd (tp_configs s'), s'))"

fun tls_calls :: "(bool \<times> tls_attempt) list \<Rightarrow> tls_process \<Rightarrow> tls_config option list \<times> tls_process" where
  "tls_calls [] s = ([], s)"
| "tls_calls ((client, r) # rs) s =
     (let (c, s1) = (if client then GetClientTLSConfig r s else GetServerTLSConfig r s); (cs, s2) = tls_calls rs s1
      in (c # cs, s2))"

lemma tls_calls_done:
  "tp_done s \<Longrightarrow> tls_calls rs s = (map (\<lambda>(client, _). map_option (if client then fst else snd) (tp_configs s)) rs, s)"
  by (induction rs) (auto simp: GetClientTLSConfig_def GetServerTLSConfig_def initOnce_Do_def)

text \<open>Every call of a process gets the configurations of the first one, which alone makes a key.\<close>

lemma configurations_made_once:
  assumes "initTLSConfigs key cert_ok now on = Some (c, v)"
  shows "fst (tls_calls ((first, key, cert_ok, now, on) # rs) tls_start) =
           Some (if first then c else v) # map (\<lambda>(client, _). Some (if client then c else v)) rs"
  using assms
  by (auto simp: GetClientTLSConfig_def GetServerTLSConfig_def initOnce_Do_def tls_start_def tls_calls_done)

text \<open>After a failed first call every later one is given nil, however the later attempts would turn out.\<close>

lemma failed_start_stays_failed:
  assumes "initTLSConfigs key cert_ok now on = None"
  shows "fst (tls_calls ((first, key, cert_ok, now, on) # rs) tls_start) = replicate (Suc (length rs)) None"
  using assms
  by (auto simp: GetClientTLSConfig_def GetServerTLSConfig_def initOnce_Do_def tls_start_def tls_calls_done
      map_replicate_const[symmetric])

section \<open>The handshake\<close>

text \<open>
  \<open>crypto/tls\<close>: versions up to 1.3, the server's choice among the client's protocols and curves, and the
  client's check of the certificate, where \<open>trusted\<close> is the verdict on chain, name and time. A server that asks
  for no client certificate, as here, checks nothing of the client.
\<close>

definition first_common :: "string list \<Rightarrow> string list \<Rightarrow> string option" where
  "first_common xs ys = find (\<lambda>x. x \<in> set ys) xs"

definition tls_handshake :: "(certificate \<Rightarrow> bool) \<Rightarrow> tls_config \<Rightarrow> tls_config \<Rightarrow> (string \<times> certificate) option" where
  "tls_handshake trusted client server =
     (case tc_Certificates server of
        [] \<Rightarrow> None
      | cert # _ \<Rightarrow>
          if tc_MinVersion client \<le> VersionTLS13 \<and> tc_MinVersion server \<le> VersionTLS13 \<and>
             first_common (tc_CurvePreferences server) (tc_CurvePreferences client) \<noteq> None \<and>
             (tc_InsecureSkipVerify client \<or> trusted cert)
          then map_option (\<lambda>p. (p, cert)) (first_common (tc_NextProtos server) (tc_NextProtos client))
          else None)"

text \<open>Any two processes agree on the protocol, whatever keys they made.\<close>

lemma quic_ends_agree:
  assumes "initTLSConfigs k1 g1 n1 o1 = Some (c1, v1)" "initTLSConfigs k2 g2 n2 o2 = Some (c2, v2)"
  shows "\<exists>cert. tls_handshake trusted c1 v2 = Some (''goodlink'', cert) \<and> Some (ct_key cert) = k2"
  using assms
  by (auto simp: initTLSConfigs_def tls_handshake_def first_common_def tls_template_def Let_def VersionTLS13_def
      split: option.splits if_splits)

text \<open>
  The client takes every certificate: a server of anybody that speaks the protocol is accepted in place of the
  other end, with no certificate trusted.
\<close>

lemma any_certificate_accepted:
  assumes "initTLSConfigs k g n on = Some (c, v)" "tc_Certificates server = cert # rest"
    "tc_MinVersion server \<le> VersionTLS13" "''X25519'' \<in> set (tc_CurvePreferences server)"
    "''goodlink'' \<in> set (tc_NextProtos server)"
  shows "tls_handshake (\<lambda>_. False) c server = Some (''goodlink'', cert)"
proof -
  have common: "first_common xs [x] = Some x" if "x \<in> set xs" for x :: string and xs
    using that by (induction xs) (auto simp: first_common_def)
  from assms common show ?thesis
    by (auto simp: initTLSConfigs_def tls_handshake_def Let_def VersionTLS13_def split: option.splits if_splits)
qed

section \<open>Forms of connections and streams\<close>

text \<open>\<open>quicConn\<close>, \<open>quicStream\<close> and \<open>quicListener\<close> around the library's values; the library's calls are arguments.\<close>

datatype 'c quicConn = QuicConn (qconn: 'c)
datatype 's quicStream = QuicStream (qstream: 's)
datatype 'l quicListener = QuicListener (qlistener: 'l)

definition dialQUIC :: "(tls_config option \<Rightarrow> quic_config \<Rightarrow> 'e + 'c) \<Rightarrow> tls_attempt \<Rightarrow> tls_process \<Rightarrow>
    ('e + 'c quicConn) \<times> tls_process" where
  "dialQUIC DialEarly r p =
     (let (cfg, p1) = GetClientTLSConfig r p
      in (case DialEarly cfg quicCfg of Inl e \<Rightarrow> Inl e | Inr c \<Rightarrow> Inr (QuicConn c), p1))"

definition listenQUIC :: "(tls_config option \<Rightarrow> quic_config \<Rightarrow> 'e + 'l) \<Rightarrow> tls_attempt \<Rightarrow> tls_process \<Rightarrow>
    ('e + 'l quicListener) \<times> tls_process" where
  "listenQUIC ListenEarly r p =
     (let (cfg, p1) = GetServerTLSConfig r p
      in (case ListenEarly cfg quicCfg of Inl e \<Rightarrow> Inl e | Inr l \<Rightarrow> Inr (QuicListener l), p1))"

definition quic_OpenStreamSync :: "('c \<Rightarrow> 'e + 's) \<Rightarrow> 'c quicConn \<Rightarrow> 'e + 's quicStream" where
  "quic_OpenStreamSync lib c = (case lib (qconn c) of Inl e \<Rightarrow> Inl e | Inr s \<Rightarrow> Inr (QuicStream s))"

definition quic_AcceptStream :: "('c \<Rightarrow> 'e + 's) \<Rightarrow> 'c quicConn \<Rightarrow> 'e + 's quicStream" where
  "quic_AcceptStream lib c = (case lib (qconn c) of Inl e \<Rightarrow> Inl e | Inr s \<Rightarrow> Inr (QuicStream s))"

definition quic_CloseWithError :: "('c \<Rightarrow> 64 word \<Rightarrow> string \<Rightarrow> 'r) \<Rightarrow> 'c quicConn \<Rightarrow> 64 word \<Rightarrow> string \<Rightarrow> 'r" where
  "quic_CloseWithError lib c errno msg = lib (qconn c) errno msg"

definition quic_CancelRead :: "('s \<Rightarrow> 64 word \<Rightarrow> 'r) \<Rightarrow> 's quicStream \<Rightarrow> 64 word \<Rightarrow> 'r" where
  "quic_CancelRead lib s errno = lib (qstream s) errno"

definition quic_Accept :: "('l \<Rightarrow> 'e + 'c) \<Rightarrow> 'l quicListener \<Rightarrow> 'e + 'c quicConn" where
  "quic_Accept lib l = (case lib (qlistener l) of Inl e \<Rightarrow> Inl e | Inr c \<Rightarrow> Inr (QuicConn c))"

text \<open>
  A dial and a listen of two processes over a library that runs the handshake: when both processes could make
  their configurations, the dialler gets a connection, for every verdict on certificates.
\<close>

lemma dial_reaches_listener:
  assumes "initTLSConfigs k1 g1 n1 o1 = Some (c1, v1)" "initTLSConfigs k2 g2 n2 o2 = Some (c2, v2)"
    and "fst (listenQUIC (\<lambda>cfg q. case cfg of None \<Rightarrow> Inl () | Some v \<Rightarrow> Inr v) (k2, g2, n2, o2) tls_start) = Inr l"
  shows "fst (dialQUIC (\<lambda>cfg q. case cfg of None \<Rightarrow> Inl ()
           | Some c \<Rightarrow> (case tls_handshake trusted c (qlistener l) of None \<Rightarrow> Inl () | Some h \<Rightarrow> Inr (fst h)))
           (k1, g1, n1, o1) tls_start) = Inr (QuicConn ''goodlink'')"
proof -
  from assms(2,3) have "l = QuicListener v2"
    by (simp add: listenQUIC_def GetServerTLSConfig_def initOnce_Do_def tls_start_def Let_def)
  then show ?thesis
    using quic_ends_agree[OF assms(1,2), of trusted] assms(1)
    by (auto simp: dialQUIC_def GetClientTLSConfig_def initOnce_Do_def tls_start_def Let_def)
qed

end
