(* ===== verification/Windows_Layout.thy ===== *)
theory Windows_Layout
  imports Main
begin

text \<open>
  How a struct of the program lies in memory: sizes, alignments and offsets by the rules of the Go compiler for
  the platforms \<open>winipcfg\<close> is built for, and by those of Windows. Every member lies inside its struct.
\<close>

section \<open>Types and their layout\<close>

text \<open>\<open>bool\<close> is \<open>U8\<close>; every pointer is \<open>Ptr\<close>. A member named \<open>_\<close> is a \<open>Pad\<close>.\<close>

datatype gotype = U8 | U16 | U32 | U64 | I32 | I64 | Ptr | Array nat gotype | Struct string "gofield list"
  and gofield = Fld string gotype | Pad gotype

record layout_rules =
  lay_ptr :: nat
  lay_max :: nat
  lay_union :: "string \<Rightarrow> nat"

definition round_up :: "nat \<Rightarrow> nat \<Rightarrow> nat" where
  "round_up n a = (n + a - 1) div a * a"

fun align_of :: "layout_rules \<Rightarrow> gotype \<Rightarrow> nat" and aligns_of :: "layout_rules \<Rightarrow> gofield list \<Rightarrow> nat" where
  "align_of e U8 = 1"
| "align_of e U16 = 2"
| "align_of e U32 = 4"
| "align_of e I32 = 4"
| "align_of e U64 = lay_max e"
| "align_of e I64 = lay_max e"
| "align_of e Ptr = lay_ptr e"
| "align_of e (Array n t) = align_of e t"
| "align_of e (Struct s fs) = max (lay_union e s) (aligns_of e fs)"
| "aligns_of e [] = 1"
| "aligns_of e (Fld f t # fs) = max (align_of e t) (aligns_of e fs)"
| "aligns_of e (Pad t # fs) = max (align_of e t) (aligns_of e fs)"

text \<open>\<open>end_of\<close> is where the members end that follow offset \<open>o\<close>.\<close>

fun size_of :: "layout_rules \<Rightarrow> gotype \<Rightarrow> nat" and end_of :: "layout_rules \<Rightarrow> nat \<Rightarrow> gofield list \<Rightarrow> nat" where
  "size_of e U8 = 1"
| "size_of e U16 = 2"
| "size_of e U32 = 4"
| "size_of e I32 = 4"
| "size_of e U64 = 8"
| "size_of e I64 = 8"
| "size_of e Ptr = lay_ptr e"
| "size_of e (Array n t) = n * size_of e t"
| "size_of e (Struct s fs) = round_up (end_of e 0 fs) (align_of e (Struct s fs))"
| "end_of e off [] = off"
| "end_of e off (Fld f t # fs) = end_of e (round_up off (align_of e t) + size_of e t) fs"
| "end_of e off (Pad t # fs) = end_of e (round_up off (align_of e t) + size_of e t) fs"

text \<open>The named members with their paths, offsets and sizes; an array of structs contributes each element's.\<close>

type_synonym leaf = "string list \<times> nat \<times> nat"

definition shift_leaf :: "nat \<Rightarrow> leaf \<Rightarrow> leaf" where
  "shift_leaf d l = (case l of (p, off, n) \<Rightarrow> (p, off + d, n))"

definition under :: "string \<Rightarrow> leaf \<Rightarrow> leaf" where
  "under f l = (case l of (p, off, n) \<Rightarrow> (f # p, off, n))"

fun is_struct :: "gotype \<Rightarrow> bool" where
  "is_struct (Struct s fs) = True"
| "is_struct _ = False"

fun leaves :: "layout_rules \<Rightarrow> gotype \<Rightarrow> leaf list" and leaves_from :: "layout_rules \<Rightarrow> nat \<Rightarrow> gofield list \<Rightarrow> leaf list"
where
  "leaves e (Struct s fs) = leaves_from e 0 fs"
| "leaves e (Array n t) =
     (if is_struct t then concat (map (\<lambda>i. map (shift_leaf (i * size_of e t)) (leaves e t)) [0..<n])
      else [([], 0, n * size_of e t)])"
| "leaves e t = [([], 0, size_of e t)]"
| "leaves_from e off [] = []"
| "leaves_from e off (Fld f t # fs) =
     (let a = round_up off (align_of e t)
      in map (under f \<circ> shift_leaf a) (leaves e t) @ leaves_from e (a + size_of e t) fs)"
| "leaves_from e off (Pad t # fs) = leaves_from e (round_up off (align_of e t) + size_of e t) fs"

text \<open>
  The platforms the files are built for, and the two sets of rules: those of the Go compiler, and those
  of Windows, which aligns every integer to its size. In Windows' headers three of the structs hold a
  union whose other member raises the alignment.
\<close>

datatype goarch = Arch386 | ArchArm | ArchAmd64 | ArchArm64

definition is32 :: "goarch \<Rightarrow> bool" where
  "is32 a = (a = Arch386 \<or> a = ArchArm)"

definition go_rules :: "goarch \<Rightarrow> layout_rules" where
  "go_rules a = (if is32 a then \<lparr> lay_ptr = 4, lay_max = 4, lay_union = \<lambda>_. 1 \<rparr>
                 else \<lparr> lay_ptr = 8, lay_max = 8, lay_union = \<lambda>_. 1 \<rparr>)"

definition windows_union :: "string \<Rightarrow> nat" where
  "windows_union s = (if s = ''RawSockaddrInet'' then 4
                      else if s = ''IPAdapterWINSServerAddress'' \<or> s = ''IPAdapterGatewayAddress'' then 8 else 1)"

definition windows_rules :: "goarch \<Rightarrow> layout_rules" where
  "windows_rules a = \<lparr> lay_ptr = (if is32 a then 4 else 8), lay_max = 8, lay_union = windows_union \<rparr>"

section \<open>Members lie inside their struct\<close>

lemma round_up_ge: "0 < a \<Longrightarrow> n \<le> round_up n a"
  using dividend_less_times_div[of a "n + a - 1"] by (simp add: round_up_def mult.commute)

definition rules_ok :: "layout_rules \<Rightarrow> bool" where
  "rules_ok e \<longleftrightarrow> 0 < lay_ptr e \<and> 0 < lay_max e"

lemma rules_are_ok [simp]: "rules_ok (go_rules a)" "rules_ok (windows_rules a)"
  by (simp_all add: rules_ok_def go_rules_def windows_rules_def)

lemma align_pos:
  "rules_ok e \<Longrightarrow> 0 < align_of e t"
  "rules_ok e \<Longrightarrow> 0 < aligns_of e fs"
  by (induction e t and e fs rule: align_of_aligns_of.induct) (auto simp: rules_ok_def less_max_iff_disj)

lemma array_shift:
  fixes i n s :: nat
  assumes "i < n" "off + k \<le> s"
  shows "i * s + off + k \<le> n * s"
proof -
  have "i * s + off + k \<le> Suc i * s" using assms(2) by simp
  also have "\<dots> \<le> n * s" using assms(1) by (intro mult_le_mono1) simp
  finally show ?thesis .
qed

lemma end_grows: "rules_ok e \<Longrightarrow> off \<le> end_of e off fs"
proof (induction fs arbitrary: off)
  case (Cons f fs)
  have step: "off \<le> end_of e (round_up off (align_of e t) + size_of e t) fs" for t
    using Cons.IH[OF Cons.prems, of "round_up off (align_of e t) + size_of e t"]
      round_up_ge[OF align_pos(1)[OF Cons.prems], of off t] by linarith
  show ?case by (cases f) (use step in auto)
qed simp

lemma leaves_inside:
  "rules_ok e \<Longrightarrow> (p, off, n) \<in> set (leaves e t) \<Longrightarrow> off + n \<le> size_of e t"
  "rules_ok e \<Longrightarrow> (p, off, n) \<in> set (leaves_from e d fs) \<Longrightarrow> d \<le> off \<and> off + n \<le> end_of e d fs"
proof (induction e t and e d fs arbitrary: p off n and p off n rule: leaves_leaves_from.induct)
  case (1 e s fs)
  have "off + n \<le> end_of e 0 fs" using 1 by auto
  then show ?case using round_up_ge[OF align_pos(1)[OF 1(2)], of "end_of e 0 fs" "Struct s fs"] by simp
next
  case (2 e k t)
  show ?case
  proof (cases "is_struct t")
    case True
    then obtain i o' where i: "i < k" "(p, o', n) \<in> set (leaves e t)" "off = o' + i * size_of e t"
      using 2(3) by (auto simp: shift_leaf_def)
    show ?thesis using array_shift[OF i(1) 2(1)[OF True _ 2(2) i(2)]] i by (simp add: add.commute add.left_commute)
  qed (use 2 in auto)
next
  case (5 e d f t fs)
  let ?a = "round_up d (align_of e t)"
  have a: "d \<le> ?a" using round_up_ge[OF align_pos(1)[OF 5(3)]] .
  from 5(4) consider o' q where "(q, o', n) \<in> set (leaves e t)" "off = o' + ?a"
    | "(p, off, n) \<in> set (leaves_from e (?a + size_of e t) fs)"
    by (auto simp: Let_def under_def shift_leaf_def)
  then show ?case
  proof cases
    case 1
    then have "o' + n \<le> size_of e t" using 5(1)[OF refl 5(3)] by blast
    then show ?thesis using 1 a end_grows[OF 5(3), of "?a + size_of e t" fs] by simp
  next
    case 2
    then show ?thesis using 5(2)[OF refl 5(3)] a by fastforce
  qed
next
  case (6 e d t fs)
  then show ?case using round_up_ge[OF align_pos(1)[OF 6(2)], of d t] by fastforce
qed auto

end
