(* ===== verification/Windows_Enums.thy ===== *)
theory Windows_Enums
  imports Go_Prelude Windows_Layout
begin

text \<open>
  The enumerations of \<open>winipcfg/types.go\<close>: the integer type of each and its constants in their order. Constants
  written with \<open>iota\<close> are counted, flags are single bits.
\<close>

section \<open>Enumerations\<close>

record enum =
  en_type :: gotype
  en_values :: "(string \<times> int) list"

text \<open>\<open>iota + k\<close>, \<open>1 << iota\<close> and a disjunction of earlier constants.\<close>

fun iota_from :: "int \<Rightarrow> string list \<Rightarrow> (string \<times> int) list" where
  "iota_from k [] = []"
| "iota_from k (c # cs) = (c, k) # iota_from (k + 1) cs"

definition iota_flags :: "string list \<Rightarrow> (string \<times> int) list" where
  "iota_flags cs = map (\<lambda>(c, k). (c, push_bit (nat k) 1)) (iota_from 0 cs)"

definition flags_or :: "(string \<times> int) list \<Rightarrow> string list \<Rightarrow> int" where
  "flags_or vs cs = fold (\<lambda>c n. n OR (case map_of vs c of Some v \<Rightarrow> v | None \<Rightarrow> 0)) cs 0"

definition AddressFamily :: enum where
  "AddressFamily = \<lparr> en_type = U16, en_values = [] \<rparr>"

definition IPAAFlags :: enum where
  "IPAAFlags = \<lparr> en_type = U32, en_values =
      iota_flags [''IPAAFlagDdnsEnabled'', ''IPAAFlagRegisterAdapterSuffix'', ''IPAAFlagDhcpv4Enabled'',
       ''IPAAFlagReceiveOnly'', ''IPAAFlagNoMulticast'', ''IPAAFlagIpv6OtherStatefulConfig'',
       ''IPAAFlagNetbiosOverTcpipEnabled'', ''IPAAFlagIpv4Enabled'', ''IPAAFlagIpv6Enabled'',
       ''IPAAFlagIpv6ManagedAddressConfigurationSupported''] \<rparr>"

definition IfOperStatus :: enum where
  "IfOperStatus = \<lparr> en_type = U32, en_values =
      iota_from 1 [''IfOperStatusUp'', ''IfOperStatusDown'', ''IfOperStatusTesting'', ''IfOperStatusUnknown'',
       ''IfOperStatusDormant'', ''IfOperStatusNotPresent'', ''IfOperStatusLowerLayerDown''] \<rparr>"

definition IfType :: enum where
  "IfType = \<lparr> en_type = U32, en_values =
      [(''IfTypeOther'', 1), (''IfTypeRegular1822'', 2), (''IfTypeHdh1822'', 3), (''IfTypeDdnX25'', 4),
       (''IfTypeRfc877X25'', 5), (''IfTypeEthernetCSMACD'', 6), (''IfTypeISO88023CSMACD'', 7),
       (''IfTypeISO88024Tokenbus'', 8), (''IfTypeISO88025Tokenring'', 9), (''IfTypeISO88026Man'', 10),
       (''IfTypeStarlan'', 11), (''IfTypeProteon10Mbit'', 12), (''IfTypeProteon80Mbit'', 13),
       (''IfTypeHyperchannel'', 14), (''IfTypeFddi'', 15), (''IfTypeLapB'', 16), (''IfTypeSdlc'', 17),
       (''IfTypeDs1'', 18), (''IfTypeE1'', 19), (''IfTypeBasicISDN'', 20), (''IfTypePrimaryISDN'', 21),
       (''IfTypePropPoint2PointSerial'', 22), (''IfTypePPP'', 23), (''IfTypeSoftwareLoopback'', 24),
       (''IfTypeEon'', 25), (''IfTypeEthernet3Mbit'', 26), (''IfTypeNsip'', 27), (''IfTypeSlip'', 28),
       (''IfTypeUltra'', 29), (''IfTypeDs3'', 30), (''IfTypeSip'', 31), (''IfTypeFramerelay'', 32),
       (''IfTypeRs232'', 33), (''IfTypePara'', 34), (''IfTypeArcnet'', 35), (''IfTypeArcnetPlus'', 36),
       (''IfTypeAtm'', 37), (''IfTypeMioX25'', 38), (''IfTypeSonet'', 39), (''IfTypeX25Ple'', 40),
       (''IfTypeIso88022LLC'', 41), (''IfTypeLocaltalk'', 42), (''IfTypeSmdsDxi'', 43),
       (''IfTypeFramerelayService'', 44), (''IfTypeV35'', 45), (''IfTypeHssi'', 46), (''IfTypeHippi'', 47),
       (''IfTypeModem'', 48), (''IfTypeAal5'', 49), (''IfTypeSonetPath'', 50), (''IfTypeSonetVt'', 51),
       (''IfTypeSmdsIcip'', 52), (''IfTypePropVirtual'', 53), (''IfTypePropMultiplexor'', 54),
       (''IfTypeIEEE80212'', 55), (''IfTypeFibrechannel'', 56), (''IfTypeHippiinterface'', 57),
       (''IfTypeFramerelayInterconnect'', 58), (''IfTypeAflane8023'', 59), (''IfTypeAflane8025'', 60),
       (''IfTypeCctemul'', 61), (''IfTypeFastether'', 62), (''IfTypeISDN'', 63), (''IfTypeV11'', 64),
       (''IfTypeV36'', 65), (''IfTypeG703_64k'', 66), (''IfTypeG703_2mb'', 67), (''IfTypeQllc'', 68),
       (''IfTypeFastetherFX'', 69), (''IfTypeChannel'', 70), (''IfTypeIEEE80211'', 71),
       (''IfTypeIBM370parchan'', 72), (''IfTypeEscon'', 73), (''IfTypeDlsw'', 74), (''IfTypeISDNS'', 75),
       (''IfTypeISDNU'', 76), (''IfTypeLapD'', 77), (''IfTypeIpswitch'', 78), (''IfTypeRsrb'', 79),
       (''IfTypeAtmLogical'', 80), (''IfTypeDs0'', 81), (''IfTypeDs0Bundle'', 82), (''IfTypeBsc'', 83),
       (''IfTypeAsync'', 84), (''IfTypeCnr'', 85), (''IfTypeIso88025rDtr'', 86), (''IfTypeEplrs'', 87),
       (''IfTypeArap'', 88), (''IfTypePropCnls'', 89), (''IfTypeHostpad'', 90), (''IfTypeTermpad'', 91),
       (''IfTypeFramerelayMpi'', 92), (''IfTypeX213'', 93), (''IfTypeAdsl'', 94), (''IfTypeRadsl'', 95),
       (''IfTypeSdsl'', 96), (''IfTypeVdsl'', 97), (''IfTypeIso88025Crfprint'', 98), (''IfTypeMyrinet'', 99),
       (''IfTypeVoiceEm'', 100), (''IfTypeVoiceFxo'', 101), (''IfTypeVoiceFxs'', 102),
       (''IfTypeVoiceEncap'', 103), (''IfTypeVoiceOverip'', 104), (''IfTypeAtmDxi'', 105),
       (''IfTypeAtmFuni'', 106), (''IfTypeAtmIma'', 107), (''IfTypePPPmultilinkbundle'', 108),
       (''IfTypeIpoverCdlc'', 109), (''IfTypeIpoverClaw'', 110), (''IfTypeStacktostack'', 111),
       (''IfTypeVirtualipaddress'', 112), (''IfTypeMpc'', 113), (''IfTypeIpoverAtm'', 114),
       (''IfTypeIso88025Fiber'', 115), (''IfTypeTdlc'', 116), (''IfTypeGigabitethernet'', 117),
       (''IfTypeHdlc'', 118), (''IfTypeLapF'', 119), (''IfTypeV37'', 120), (''IfTypeX25Mlp'', 121),
       (''IfTypeX25Huntgroup'', 122), (''IfTypeTransphdlc'', 123), (''IfTypeInterleave'', 124),
       (''IfTypeFast'', 125), (''IfTypeIP'', 126), (''IfTypeDocscableMaclayer'', 127),
       (''IfTypeDocscableDownstream'', 128), (''IfTypeDocscableUpstream'', 129), (''IfTypeA12mppswitch'', 130),
       (''IfTypeTunnel'', 131), (''IfTypeCoffee'', 132), (''IfTypeCes'', 133),
       (''IfTypeAtmSubinterface'', 134), (''IfTypeL2Vlan'', 135), (''IfTypeL3Ipvlan'', 136),
       (''IfTypeL3Ipxvlan'', 137), (''IfTypeDigitalpowerline'', 138), (''IfTypeMediamailoverip'', 139),
       (''IfTypeDtm'', 140), (''IfTypeDcn'', 141), (''IfTypeIpforward'', 142), (''IfTypeMsdsl'', 143),
       (''IfTypeIEEE1394'', 144), (''IfTypeIfGsn'', 145), (''IfTypeDvbrccMaclayer'', 146),
       (''IfTypeDvbrccDownstream'', 147), (''IfTypeDvbrccUpstream'', 148), (''IfTypeAtmVirtual'', 149),
       (''IfTypeMplsTunnel'', 150), (''IfTypeSrp'', 151), (''IfTypeVoiceoveratm'', 152),
       (''IfTypeVoiceoverframerelay'', 153), (''IfTypeIdsl'', 154), (''IfTypeCompositelink'', 155),
       (''IfTypeSs7Siglink'', 156), (''IfTypePropWirelessP2P'', 157), (''IfTypeFrForward'', 158),
       (''IfTypeRfc1483'', 159), (''IfTypeUsb'', 160), (''IfTypeIEEE8023adLag'', 161),
       (''IfTypeBgpPolicyAccounting'', 162), (''IfTypeFrf16MfrBundle'', 163), (''IfTypeH323Gatekeeper'', 164),
       (''IfTypeH323Proxy'', 165), (''IfTypeMpls'', 166), (''IfTypeMfSiglink'', 167), (''IfTypeHdsl2'', 168),
       (''IfTypeShdsl'', 169), (''IfTypeDs1Fdl'', 170), (''IfTypePos'', 171), (''IfTypeDvbAsiIn'', 172),
       (''IfTypeDvbAsiOut'', 173), (''IfTypePlc'', 174), (''IfTypeNfas'', 175), (''IfTypeTr008'', 176),
       (''IfTypeGr303Rdt'', 177), (''IfTypeGr303Idt'', 178), (''IfTypeIsup'', 179),
       (''IfTypePropDocsWirelessMaclayer'', 180), (''IfTypePropDocsWirelessDownstream'', 181),
       (''IfTypePropDocsWirelessUpstream'', 182), (''IfTypeHiperlan2'', 183), (''IfTypePropBwaP2MP'', 184),
       (''IfTypeSonetOverheadChannel'', 185), (''IfTypeDigitalWrapperOverheadChannel'', 186),
       (''IfTypeAal2'', 187), (''IfTypeRadioMac'', 188), (''IfTypeAtmRadio'', 189), (''IfTypeImt'', 190),
       (''IfTypeMvl'', 191), (''IfTypeReachDsl'', 192), (''IfTypeFrDlciEndpt'', 193),
       (''IfTypeAtmVciEndpt'', 194), (''IfTypeOpticalChannel'', 195), (''IfTypeOpticalTransport'', 196),
       (''IfTypeIEEE80216Wman'', 237), (''IfTypeWwanpp'', 243), (''IfTypeWwanpp2'', 244),
       (''IfTypeIEEE802154'', 259), (''IfTypeXboxWireless'', 281)] \<rparr>"

definition MibIfEntryLevel :: enum where
  "MibIfEntryLevel = \<lparr> en_type = U32, en_values =
      [(''MibIfEntryNormal'', 0), (''MibIfEntryNormalWithoutStatistics'', 2)] \<rparr>"

definition NdisMedium :: enum where
  "NdisMedium = \<lparr> en_type = U32, en_values =
      iota_from 0 [''NdisMedium802_3'', ''NdisMedium802_5'', ''NdisMediumFddi'', ''NdisMediumWan'',
       ''NdisMediumLocalTalk'', ''NdisMediumDix'', ''NdisMediumArcnetRaw'', ''NdisMediumArcnet878_2'',
       ''NdisMediumAtm'', ''NdisMediumWirelessWan'', ''NdisMediumIrda'', ''NdisMediumBpc'',
       ''NdisMediumCoWan'', ''NdisMedium1394'', ''NdisMediumInfiniBand'', ''NdisMediumTunnel'',
       ''NdisMediumNative802_11'', ''NdisMediumLoopback'', ''NdisMediumWiMAX'', ''NdisMediumIP'',
       ''NdisMediumMax''] \<rparr>"

definition NdisPhysicalMedium :: enum where
  "NdisPhysicalMedium = \<lparr> en_type = U32, en_values =
      iota_from 0 [''NdisPhysicalMediumUnspecified'', ''NdisPhysicalMediumWirelessLan'',
       ''NdisPhysicalMediumCableModem'', ''NdisPhysicalMediumPhoneLine'', ''NdisPhysicalMediumPowerLine'',
       ''NdisPhysicalMediumDSL'', ''NdisPhysicalMediumFibreChannel'', ''NdisPhysicalMedium1394'',
       ''NdisPhysicalMediumWirelessWan'', ''NdisPhysicalMediumNative802_11'', ''NdisPhysicalMediumBluetooth'',
       ''NdisPhysicalMediumInfiniband'', ''NdisPhysicalMediumWiMax'', ''NdisPhysicalMediumUWB'',
       ''NdisPhysicalMedium802_3'', ''NdisPhysicalMedium802_5'', ''NdisPhysicalMediumIrda'',
       ''NdisPhysicalMediumWiredWAN'', ''NdisPhysicalMediumWiredCoWan'', ''NdisPhysicalMediumOther'',
       ''NdisPhysicalMediumNative802_15_4'', ''NdisPhysicalMediumMax''] \<rparr>"

definition NetIfAccessType :: enum where
  "NetIfAccessType = \<lparr> en_type = U32, en_values =
      iota_from 1 [''NetIfAccessLoopback'', ''NetIfAccessBroadcast'', ''NetIfAccessPointToPoint'',
       ''NetIfAccessPointToMultiPoint'', ''NetIfAccessMax''] \<rparr>"

definition NetIfAdminStatus :: enum where
  "NetIfAdminStatus = \<lparr> en_type = U32, en_values =
      iota_from 1 [''NetIfAdminStatusUp'', ''NetIfAdminStatusDown'', ''NetIfAdminStatusTesting''] \<rparr>"

definition NetIfConnectionType :: enum where
  "NetIfConnectionType = \<lparr> en_type = U32, en_values =
      iota_from 1 [''NetIfConnectionDedicated'', ''NetIfConnectionPassive'', ''NetIfConnectionDemand'',
       ''NetIfConnectionMaximum''] \<rparr>"

definition NetIfDirectionType :: enum where
  "NetIfDirectionType = \<lparr> en_type = U32, en_values =
      iota_from 0 [''NetIfDirectionSendReceive'', ''NetIfDirectionSendOnly'', ''NetIfDirectionReceiveOnly'',
       ''NetIfDirectionMaximum''] \<rparr>"

definition NetIfMediaConnectState :: enum where
  "NetIfMediaConnectState = \<lparr> en_type = U32, en_values =
      iota_from 0 [''MediaConnectStateUnknown'', ''MediaConnectStateConnected'', ''MediaConnectStateDisconnected''] \<rparr>"

definition DadState :: enum where
  "DadState = \<lparr> en_type = U32, en_values =
      iota_from 0 [''DadStateInvalid'', ''DadStateTentative'', ''DadStateDuplicate'', ''DadStateDeprecated'',
       ''DadStatePreferred''] \<rparr>"

definition PrefixOrigin :: enum where
  "PrefixOrigin = \<lparr> en_type = U32, en_values =
      iota_from 0 [''PrefixOriginOther'', ''PrefixOriginManual'', ''PrefixOriginWellKnown'', ''PrefixOriginDHCP'',
       ''PrefixOriginRouterAdvertisement''] @
      [(''PrefixOriginUnchanged'', push_bit 4 1)] \<rparr>"

definition LinkLocalAddressBehavior :: enum where
  "LinkLocalAddressBehavior = \<lparr> en_type = I32, en_values =
      iota_from 0 [''LinkLocalAddressAlwaysOff'', ''LinkLocalAddressDelayed'', ''LinkLocalAddressAlwaysOn''] @
      [(''LinkLocalAddressUnchanged'', -1)] \<rparr>"

definition OffloadRod :: enum where
  "OffloadRod = \<lparr> en_type = U8, en_values =
      iota_flags [''ChecksumSupported'', ''OptionsSupported'', ''DatagramChecksumSupported'',
       ''StreamChecksumSupported'', ''StreamOptionsSupported'', ''FastPathCompatible'',
       ''LargeSendOffloadSupported'', ''GiantSendOffloadSupported''] \<rparr>"

definition RouteOrigin :: enum where
  "RouteOrigin = \<lparr> en_type = U32, en_values =
      iota_from 0 [''RouteOriginManual'', ''RouteOriginWellKnown'', ''RouteOriginDHCP'',
       ''RouteOriginRouterAdvertisement'', ''RouteOrigin6to4''] \<rparr>"

definition RouteProtocol :: enum where
  "RouteProtocol = \<lparr> en_type = U32, en_values =
      iota_from 1 [''RouteProtocolOther'', ''RouteProtocolLocal'', ''RouteProtocolNetMgmt'', ''RouteProtocolIcmp'',
       ''RouteProtocolEgp'', ''RouteProtocolGgp'', ''RouteProtocolHello'', ''RouteProtocolRip'',
       ''RouteProtocolIsIs'', ''RouteProtocolEsIs'', ''RouteProtocolCisco'', ''RouteProtocolBbn'',
       ''RouteProtocolOspf'', ''RouteProtocolBgp'', ''RouteProtocolIdpr'', ''RouteProtocolEigrp'',
       ''RouteProtocolDvmrp'', ''RouteProtocolRpl'', ''RouteProtocolDHCP''] @
      [(''RouteProtocolNTAutostatic'', 10002), (''RouteProtocolNTStatic'', 10006),
       (''RouteProtocolNTStaticNonDOD'', 10007)] \<rparr>"

definition RouterDiscoveryBehavior :: enum where
  "RouterDiscoveryBehavior = \<lparr> en_type = I32, en_values =
      iota_from 0 [''RouterDiscoveryDisabled'', ''RouterDiscoveryEnabled'', ''RouterDiscoveryDHCP''] @
      [(''RouterDiscoveryUnchanged'', -1)] \<rparr>"

definition SuffixOrigin :: enum where
  "SuffixOrigin = \<lparr> en_type = U32, en_values =
      iota_from 0 [''SuffixOriginOther'', ''SuffixOriginManual'', ''SuffixOriginWellKnown'', ''SuffixOriginDHCP'',
       ''SuffixOriginLinkLayerAddress'', ''SuffixOriginRandom''] @
      [(''SuffixOriginUnchanged'', push_bit 4 1)] \<rparr>"

definition MibNotificationType :: enum where
  "MibNotificationType = \<lparr> en_type = U32, en_values =
      iota_from 0 [''MibParameterNotification'', ''MibAddInstance'', ''MibDeleteInstance'',
       ''MibInitialNotification''] \<rparr>"

definition TunnelType :: enum where
  "TunnelType = \<lparr> en_type = U32, en_values =
      [(''TunnelTypeNone'', 0), (''TunnelTypeOther'', 1), (''TunnelTypeDirect'', 2), (''TunnelType6to4'', 11),
       (''TunnelTypeIsatap'', 13), (''TunnelTypeTeredo'', 14), (''TunnelTypeIPHTTPS'', 15)] \<rparr>"

definition InterfaceAndOperStatusFlags :: enum where
  "InterfaceAndOperStatusFlags = \<lparr> en_type = U8, en_values =
      iota_flags [''IAOSFHardwareInterface'', ''IAOSFFilterInterface'', ''IAOSFConnectorPresent'',
       ''IAOSFNotAuthenticated'', ''IAOSFNotMediaConnected'', ''IAOSFPaused'', ''IAOSFLowPower'',
       ''IAOSFEndPointInterface''] \<rparr>"

definition GAA_bits :: "(string \<times> int) list" where
  "GAA_bits =
      iota_flags [''GAAFlagSkipUnicast'', ''GAAFlagSkipAnycast'', ''GAAFlagSkipMulticast'', ''GAAFlagSkipDNSServer'',
       ''GAAFlagIncludePrefix'', ''GAAFlagSkipFriendlyName'', ''GAAFlagIncludeWinsInfo'',
       ''GAAFlagIncludeGateways'', ''GAAFlagIncludeAllInterfaces'', ''GAAFlagIncludeAllCompartments'',
       ''GAAFlagIncludeTunnelBindingOrder'', ''GAAFlagSkipDNSInfo'']"

definition GAAFlags :: enum where
  "GAAFlags = \<lparr> en_type = U32, en_values =
      GAA_bits @
      [(''GAAFlagDefault'', 0)] @
      [(''GAAFlagSkipAll'', flags_or GAA_bits [''GAAFlagSkipUnicast'', ''GAAFlagSkipAnycast'',
       ''GAAFlagSkipMulticast'', ''GAAFlagSkipDNSServer'', ''GAAFlagSkipFriendlyName'', ''GAAFlagSkipDNSInfo''])] @
      [(''GAAFlagIncludeAll'', flags_or GAA_bits [''GAAFlagIncludePrefix'', ''GAAFlagIncludeWinsInfo'',
       ''GAAFlagIncludeGateways'', ''GAAFlagIncludeAllInterfaces'', ''GAAFlagIncludeAllCompartments'',
       ''GAAFlagIncludeTunnelBindingOrder''])] \<rparr>"

definition ScopeLevel :: enum where
  "ScopeLevel = \<lparr> en_type = U32, en_values =
      [(''ScopeLevelInterface'', 1), (''ScopeLevelLink'', 2), (''ScopeLevelSubnet'', 3), (''ScopeLevelAdmin'', 4),
       (''ScopeLevelSite'', 5), (''ScopeLevelOrganization'', 8), (''ScopeLevelGlobal'', 14),
       (''ScopeLevelCount'', 16)] \<rparr>"

section \<open>Values\<close>

text \<open>The constants of an enumeration fit its type, and no two are the same.\<close>

fun type_range :: "gotype \<Rightarrow> int \<times> int" where
  "type_range U8 = (0, 2 ^ 8)"
| "type_range U16 = (0, 2 ^ 16)"
| "type_range U32 = (0, 2 ^ 32)"
| "type_range I32 = (- (2 ^ 31), 2 ^ 31)"
| "type_range _ = (0, 0)"

definition enum_ok :: "enum \<Rightarrow> bool" where
  "enum_ok e \<longleftrightarrow> (let (lo, hi) = type_range (en_type e); vs = map snd (en_values e)
     in list_all (\<lambda>v. lo \<le> v \<and> v < hi) vs \<and> distinct vs)"

lemma iota_values: "map snd (iota_from k cs) = map (\<lambda>i. k + int i) [0..<length cs]"
proof (induction cs arbitrary: k)
  case (Cons c cs)
  have "[0..<length (c # cs)] = 0 # map Suc [0..<length cs]" by (simp add: upt_conv_Cons map_Suc_upt del: upt_Suc)
  then show ?case by (simp add: Cons.IH add.assoc del: upt_Suc)
qed simp

lemma flag_values: "map snd (iota_flags cs) = map (\<lambda>i. 2 ^ i) [0..<length cs]"
proof -
  have "map snd (iota_flags cs) = map (\<lambda>k. push_bit (nat k) 1) (map snd (iota_from 0 cs))"
    by (simp add: iota_flags_def o_def case_prod_beta)
  then show ?thesis by (simp add: iota_values o_def push_bit_eq_mult del: upt_Suc)
qed

lemma enum_ok_iota:
  assumes "type_range t = (lo, hi)" "lo \<le> k" "k + int (length cs) \<le> hi" "map snd xs = vs" "distinct vs"
    "list_all (\<lambda>v. lo \<le> v \<and> v < hi \<and> (v < k \<or> k + int (length cs) \<le> v)) vs"
  shows "enum_ok \<lparr> en_type = t, en_values = iota_from k cs @ xs \<rparr>"
  using assms
  by (fastforce simp: enum_ok_def iota_values list_all_iff distinct_map inj_on_def Let_def)

lemma enum_ok_iota_only:
  assumes "type_range t = (lo, hi)" "lo \<le> k" "k + int (length cs) \<le> hi"
  shows "enum_ok \<lparr> en_type = t, en_values = iota_from k cs \<rparr>"
  using enum_ok_iota[OF assms, of "[]" "[]"] by simp

lemma enum_ok_flags:
  assumes "type_range t = (0, hi)" "2 ^ length cs \<le> hi" "distinct vs"
    "list_all (\<lambda>v. 0 \<le> v \<and> v < hi \<and> v \<notin> (\<lambda>i. 2 ^ i) ` {..<length cs}) vs" "map snd xs = vs"
  shows "enum_ok \<lparr> en_type = t, en_values = iota_flags cs @ xs \<rparr>"
proof -
  have "(2::int) ^ i < hi" if "i < length cs" for i
    by (rule order_less_le_trans[OF power_strict_increasing[OF that] assms(2)]) simp
  then show ?thesis
    using assms by (auto simp: enum_ok_def flag_values list_all_iff distinct_map inj_on_def Let_def)
qed

lemma enum_ok_flags_only:
  assumes "type_range t = (0, hi)" "2 ^ length cs \<le> hi"
  shows "enum_ok \<lparr> en_type = t, en_values = iota_flags cs \<rparr>"
  using enum_ok_flags[OF assms, of "[]" "[]"] by simp

lemma iota_enumerations_ok:
  "list_all enum_ok [IfOperStatus, NdisMedium, NdisPhysicalMedium, NetIfAccessType, NetIfAdminStatus, NetIfConnectionType,
     NetIfDirectionType, NetIfMediaConnectState, DadState, RouteOrigin, MibNotificationType]"
  unfolding IfOperStatus_def NdisMedium_def NdisPhysicalMedium_def NetIfAccessType_def NetIfAdminStatus_def
    NetIfConnectionType_def NetIfDirectionType_def NetIfMediaConnectState_def DadState_def RouteOrigin_def
    MibNotificationType_def list.pred_inject(2)
  by (intro conjI list.pred_inject(1); (rule enum_ok_iota_only, rule type_range.simps, simp, simp))

lemma mixed_enumerations_ok:
  "list_all enum_ok [PrefixOrigin, LinkLocalAddressBehavior, RouteProtocol, RouterDiscoveryBehavior, SuffixOrigin]"
  unfolding PrefixOrigin_def LinkLocalAddressBehavior_def RouteProtocol_def RouterDiscoveryBehavior_def SuffixOrigin_def
    list.pred_inject(2)
  by (intro conjI list.pred_inject(1); (rule enum_ok_iota, rule type_range.simps, simp, simp, rule refl, simp_all add: push_bit_eq_mult))

lemma flag_enumerations_ok: "list_all enum_ok [IPAAFlags, OffloadRod, InterfaceAndOperStatusFlags]"
  unfolding IPAAFlags_def OffloadRod_def InterfaceAndOperStatusFlags_def list.pred_inject(2)
  by (intro conjI list.pred_inject(1); (rule enum_ok_flags_only, rule type_range.simps, simp))

lemma listed_enumerations_ok: "list_all enum_ok [AddressFamily, MibIfEntryLevel, TunnelType, ScopeLevel]"
  by (simp add: enum_ok_def AddressFamily_def MibIfEntryLevel_def TunnelType_def ScopeLevel_def)

lemma interface_types_ok: "enum_ok IfType"
proof -
  have "map snd (en_values IfType) = [1..196] @ [237, 243, 244, 259, 281]" by (simp add: IfType_def upto.simps)
  moreover have "en_type IfType = U32" by (simp add: IfType_def)
  ultimately show ?thesis by (auto simp: enum_ok_def list_all_iff)
qed

end
