(* ===== verification/Windows_Tables.thy ===== *)
theory Windows_Tables
  imports Windows_Net Windows_Enums
begin

text \<open>
  The tables Windows fills in for \<open>winipcfg\<close>: the structs of \<open>types.go\<close>, \<open>types_32.go\<close> and \<open>types_64.go\<close>, and the
  functions of \<open>winipcfg.go\<close> that copy a table out of the
  system's memory. On 386 and arm the compiler aligns 64-bit members to four bytes where Windows aligns
  them to eight, so the 32-bit declarations carry blank members; with these every member lies where
  Windows puts it, and the rows that are copied are the rows Windows wrote. Types of
  \<open>golang.org/x/sys/windows\<close> are a parameter, with their documented form as a hypothesis.
\<close>

section \<open>The structs\<close>

definition anySize :: nat where "anySize = 1"
definition maxDNSSuffixStringLength :: nat where "maxDNSSuffixStringLength = 256"
definition maxDHCPv6DUIDLength :: nat where "maxDHCPv6DUIDLength = 130"
definition ifMaxStringSize :: nat where "ifMaxStringSize = 256"
definition ifMaxPhysAddressLength :: nat where "ifMaxPhysAddressLength = 32"
definition ScopeLevelCount :: nat where "ScopeLevelCount = 16"
definition LUID :: gotype where "LUID = U64"

text \<open>What comes from \<open>golang.org/x/sys/windows\<close>.\<close>

record sys_types =
  xs_SocketAddress :: gotype
  xs_GUID :: gotype
  xs_MAX_ADAPTER_ADDRESS_LENGTH :: nat

definition RawSockaddrInet :: gotype where
  "RawSockaddrInet = Struct ''RawSockaddrInet''
    [Fld ''Family'' (en_type AddressFamily), Fld ''data'' (Array 26 U8)]"

definition IPAddressPrefix :: gotype where
  "IPAddressPrefix = Struct ''IPAddressPrefix''
    [Fld ''RawPrefix'' RawSockaddrInet, Fld ''PrefixLength'' U8, Pad (Array 2 U8)]"

definition MibIPforwardRow2 :: gotype where
  "MibIPforwardRow2 = Struct ''MibIPforwardRow2''
    [Fld ''InterfaceLUID'' LUID, Fld ''InterfaceIndex'' U32, Fld ''DestinationPrefix'' IPAddressPrefix,
     Fld ''NextHop'' RawSockaddrInet, Fld ''SitePrefixLength'' U8, Fld ''ValidLifetime'' U32,
     Fld ''PreferredLifetime'' U32, Fld ''Metric'' U32, Fld ''Protocol'' (en_type RouteProtocol),
     Fld ''Loopback'' U8, Fld ''AutoconfigureAddress'' U8, Fld ''Publish'' U8, Fld ''Immortal'' U8,
     Fld ''Age'' U32, Fld ''Origin'' (en_type RouteOrigin)]"

definition IPAdapterDNSSuffix :: gotype where
  "IPAdapterDNSSuffix = Struct ''IPAdapterDNSSuffix''
    [Fld ''Next'' Ptr, Fld ''str'' (Array maxDNSSuffixStringLength U16)]"

definition DnsInterfaceSettings :: gotype where
  "DnsInterfaceSettings = Struct ''DnsInterfaceSettings''
    [Fld ''Version'' U32, Pad (Array 4 U8), Fld ''Flags'' U64, Fld ''Domain'' Ptr, Fld ''NameServer'' Ptr,
     Fld ''SearchList'' Ptr, Fld ''RegistrationEnabled'' U32, Fld ''RegisterAdapterName'' U32,
     Fld ''EnableLLMNR'' U32, Fld ''QueryAdapterName'' U32, Fld ''ProfileNameServer'' Ptr]"

definition IPAdapterWINSServerAddress_64 :: "sys_types \<Rightarrow> gotype" where
  "IPAdapterWINSServerAddress_64 sys = Struct ''IPAdapterWINSServerAddress''
    [Fld ''Length'' U32, Pad U32, Fld ''Next'' Ptr, Fld ''Address'' (xs_SocketAddress sys)]"

definition IPAdapterGatewayAddress_64 :: "sys_types \<Rightarrow> gotype" where
  "IPAdapterGatewayAddress_64 sys = Struct ''IPAdapterGatewayAddress''
    [Fld ''Length'' U32, Pad U32, Fld ''Next'' Ptr, Fld ''Address'' (xs_SocketAddress sys)]"

definition IPAdapterAddresses_64 :: "sys_types \<Rightarrow> gotype" where
  "IPAdapterAddresses_64 sys = Struct ''IPAdapterAddresses''
    [Fld ''Length'' U32, Fld ''IfIndex'' U32, Fld ''Next'' Ptr, Fld ''adapterName'' Ptr,
     Fld ''FirstUnicastAddress'' Ptr, Fld ''FirstAnycastAddress'' Ptr, Fld ''FirstMulticastAddress'' Ptr,
     Fld ''FirstDNSServerAddress'' Ptr, Fld ''dnsSuffix'' Ptr, Fld ''description'' Ptr,
     Fld ''friendlyName'' Ptr, Fld ''physicalAddress'' (Array (xs_MAX_ADAPTER_ADDRESS_LENGTH sys) U8),
     Fld ''physicalAddressLength'' U32, Fld ''Flags'' (en_type IPAAFlags), Fld ''MTU'' U32,
     Fld ''IfType'' (en_type IfType), Fld ''OperStatus'' (en_type IfOperStatus), Fld ''IPv6IfIndex'' U32,
     Fld ''ZoneIndices'' (Array 16 U32), Fld ''FirstPrefix'' Ptr, Fld ''TransmitLinkSpeed'' U64,
     Fld ''ReceiveLinkSpeed'' U64, Fld ''FirstWINSServerAddress'' Ptr, Fld ''FirstGatewayAddress'' Ptr,
     Fld ''Ipv4Metric'' U32, Fld ''Ipv6Metric'' U32, Fld ''LUID'' LUID,
     Fld ''DHCPv4Server'' (xs_SocketAddress sys), Fld ''CompartmentID'' U32, Fld ''NetworkGUID'' (xs_GUID sys),
     Fld ''ConnectionType'' (en_type NetIfConnectionType), Fld ''TunnelType'' (en_type TunnelType),
     Fld ''DHCPv6Server'' (xs_SocketAddress sys), Fld ''dhcpv6ClientDUID'' (Array maxDHCPv6DUIDLength U8),
     Fld ''dhcpv6ClientDUIDLength'' U32, Fld ''DHCPv6IAID'' U32, Fld ''FirstDNSSuffix'' Ptr]"

definition MibIPInterfaceRow_64 :: gotype where
  "MibIPInterfaceRow_64 = Struct ''MibIPInterfaceRow''
    [Fld ''Family'' (en_type AddressFamily), Fld ''InterfaceLUID'' LUID, Fld ''InterfaceIndex'' U32,
     Fld ''MaxReassemblySize'' U32, Fld ''InterfaceIdentifier'' U64, Fld ''MinRouterAdvertisementInterval'' U32,
     Fld ''MaxRouterAdvertisementInterval'' U32, Fld ''AdvertisingEnabled'' U8, Fld ''ForwardingEnabled'' U8,
     Fld ''WeakHostSend'' U8, Fld ''WeakHostReceive'' U8, Fld ''UseAutomaticMetric'' U8,
     Fld ''UseNeighborUnreachabilityDetection'' U8, Fld ''ManagedAddressConfigurationSupported'' U8,
     Fld ''OtherStatefulConfigurationSupported'' U8, Fld ''AdvertiseDefaultRoute'' U8,
     Fld ''RouterDiscoveryBehavior'' (en_type RouterDiscoveryBehavior), Fld ''DadTransmits'' U32,
     Fld ''BaseReachableTime'' U32, Fld ''RetransmitTime'' U32, Fld ''PathMTUDiscoveryTimeout'' U32,
     Fld ''LinkLocalAddressBehavior'' (en_type LinkLocalAddressBehavior), Fld ''LinkLocalAddressTimeout'' U32,
     Fld ''ZoneIndices'' (Array ScopeLevelCount U32), Fld ''SitePrefixLength'' U32, Fld ''Metric'' U32,
     Fld ''NLMTU'' U32, Fld ''Connected'' U8, Fld ''SupportsWakeUpPatterns'' U8,
     Fld ''SupportsNeighborDiscovery'' U8, Fld ''SupportsRouterDiscovery'' U8, Fld ''ReachableTime'' U32,
     Fld ''TransmitOffload'' (en_type OffloadRod), Fld ''ReceiveOffload'' (en_type OffloadRod),
     Fld ''DisableDefaultRoutes'' U8]"

definition mibIPInterfaceTable_64 :: gotype where
  "mibIPInterfaceTable_64 = Struct ''mibIPInterfaceTable''
    [Fld ''numEntries'' U32, Fld ''table'' (Array anySize MibIPInterfaceRow_64)]"

definition MibIfRow2_64 :: "sys_types \<Rightarrow> gotype" where
  "MibIfRow2_64 sys = Struct ''MibIfRow2''
    [Fld ''InterfaceLUID'' LUID, Fld ''InterfaceIndex'' U32, Fld ''InterfaceGUID'' (xs_GUID sys),
     Fld ''alias'' (Array (ifMaxStringSize + 1) U16), Fld ''description'' (Array (ifMaxStringSize + 1) U16),
     Fld ''physicalAddressLength'' U32, Fld ''physicalAddress'' (Array ifMaxPhysAddressLength U8),
     Fld ''permanentPhysicalAddress'' (Array ifMaxPhysAddressLength U8), Fld ''MTU'' U32,
     Fld ''Type'' (en_type IfType), Fld ''TunnelType'' (en_type TunnelType),
     Fld ''MediaType'' (en_type NdisMedium), Fld ''PhysicalMediumType'' (en_type NdisPhysicalMedium),
     Fld ''AccessType'' (en_type NetIfAccessType), Fld ''DirectionType'' (en_type NetIfDirectionType),
     Fld ''InterfaceAndOperStatusFlags'' (en_type InterfaceAndOperStatusFlags),
     Fld ''OperStatus'' (en_type IfOperStatus), Fld ''AdminStatus'' (en_type NetIfAdminStatus),
     Fld ''MediaConnectState'' (en_type NetIfMediaConnectState), Fld ''NetworkGUID'' (xs_GUID sys),
     Fld ''ConnectionType'' (en_type NetIfConnectionType), Fld ''TransmitLinkSpeed'' U64,
     Fld ''ReceiveLinkSpeed'' U64, Fld ''InOctets'' U64, Fld ''InUcastPkts'' U64, Fld ''InNUcastPkts'' U64,
     Fld ''InDiscards'' U64, Fld ''InErrors'' U64, Fld ''InUnknownProtos'' U64, Fld ''InUcastOctets'' U64,
     Fld ''InMulticastOctets'' U64, Fld ''InBroadcastOctets'' U64, Fld ''OutOctets'' U64,
     Fld ''OutUcastPkts'' U64, Fld ''OutNUcastPkts'' U64, Fld ''OutDiscards'' U64, Fld ''OutErrors'' U64,
     Fld ''OutUcastOctets'' U64, Fld ''OutMulticastOctets'' U64, Fld ''OutBroadcastOctets'' U64,
     Fld ''OutQLen'' U64]"

definition mibIfTable2_64 :: "sys_types \<Rightarrow> gotype" where
  "mibIfTable2_64 sys = Struct ''mibIfTable2''
    [Fld ''numEntries'' U32, Fld ''table'' (Array anySize (MibIfRow2_64 sys))]"

definition MibUnicastIPAddressRow_64 :: gotype where
  "MibUnicastIPAddressRow_64 = Struct ''MibUnicastIPAddressRow''
    [Fld ''Address'' RawSockaddrInet, Fld ''InterfaceLUID'' LUID, Fld ''InterfaceIndex'' U32,
     Fld ''PrefixOrigin'' (en_type PrefixOrigin), Fld ''SuffixOrigin'' (en_type SuffixOrigin),
     Fld ''ValidLifetime'' U32, Fld ''PreferredLifetime'' U32, Fld ''OnLinkPrefixLength'' U8,
     Fld ''SkipAsSource'' U8, Fld ''DadState'' (en_type DadState), Fld ''ScopeID'' U32,
     Fld ''CreationTimeStamp'' I64]"

definition mibUnicastIPAddressTable_64 :: gotype where
  "mibUnicastIPAddressTable_64 = Struct ''mibUnicastIPAddressTable''
    [Fld ''numEntries'' U32, Fld ''table'' (Array anySize MibUnicastIPAddressRow_64)]"

definition MibAnycastIPAddressRow_64 :: gotype where
  "MibAnycastIPAddressRow_64 = Struct ''MibAnycastIPAddressRow''
    [Fld ''Address'' RawSockaddrInet, Fld ''InterfaceLUID'' LUID, Fld ''InterfaceIndex'' U32,
     Fld ''ScopeID'' U32]"

definition mibAnycastIPAddressTable_64 :: gotype where
  "mibAnycastIPAddressTable_64 = Struct ''mibAnycastIPAddressTable''
    [Fld ''numEntries'' U32, Fld ''table'' (Array anySize MibAnycastIPAddressRow_64)]"

definition mibIPforwardTable2_64 :: gotype where
  "mibIPforwardTable2_64 = Struct ''mibIPforwardTable2''
    [Fld ''numEntries'' U32, Fld ''table'' (Array anySize MibIPforwardRow2)]"

definition IPAdapterWINSServerAddress_32 :: "sys_types \<Rightarrow> gotype" where
  "IPAdapterWINSServerAddress_32 sys = Struct ''IPAdapterWINSServerAddress''
    [Fld ''Length'' U32, Pad U32, Fld ''Next'' Ptr, Fld ''Address'' (xs_SocketAddress sys), Pad (Array 4 U8)]"

definition IPAdapterGatewayAddress_32 :: "sys_types \<Rightarrow> gotype" where
  "IPAdapterGatewayAddress_32 sys = Struct ''IPAdapterGatewayAddress''
    [Fld ''Length'' U32, Pad U32, Fld ''Next'' Ptr, Fld ''Address'' (xs_SocketAddress sys), Pad (Array 4 U8)]"

definition IPAdapterAddresses_32 :: "sys_types \<Rightarrow> gotype" where
  "IPAdapterAddresses_32 sys = Struct ''IPAdapterAddresses''
    [Fld ''Length'' U32, Fld ''IfIndex'' U32, Fld ''Next'' Ptr, Fld ''adapterName'' Ptr,
     Fld ''FirstUnicastAddress'' Ptr, Fld ''FirstAnycastAddress'' Ptr, Fld ''FirstMulticastAddress'' Ptr,
     Fld ''FirstDNSServerAddress'' Ptr, Fld ''dnsSuffix'' Ptr, Fld ''description'' Ptr,
     Fld ''friendlyName'' Ptr, Fld ''physicalAddress'' (Array (xs_MAX_ADAPTER_ADDRESS_LENGTH sys) U8),
     Fld ''physicalAddressLength'' U32, Fld ''Flags'' (en_type IPAAFlags), Fld ''MTU'' U32,
     Fld ''IfType'' (en_type IfType), Fld ''OperStatus'' (en_type IfOperStatus), Fld ''IPv6IfIndex'' U32,
     Fld ''ZoneIndices'' (Array 16 U32), Fld ''FirstPrefix'' Ptr, Fld ''TransmitLinkSpeed'' U64,
     Fld ''ReceiveLinkSpeed'' U64, Fld ''FirstWINSServerAddress'' Ptr, Fld ''FirstGatewayAddress'' Ptr,
     Fld ''Ipv4Metric'' U32, Fld ''Ipv6Metric'' U32, Fld ''LUID'' LUID,
     Fld ''DHCPv4Server'' (xs_SocketAddress sys), Fld ''CompartmentID'' U32, Fld ''NetworkGUID'' (xs_GUID sys),
     Fld ''ConnectionType'' (en_type NetIfConnectionType), Fld ''TunnelType'' (en_type TunnelType),
     Fld ''DHCPv6Server'' (xs_SocketAddress sys), Fld ''dhcpv6ClientDUID'' (Array maxDHCPv6DUIDLength U8),
     Fld ''dhcpv6ClientDUIDLength'' U32, Fld ''DHCPv6IAID'' U32, Fld ''FirstDNSSuffix'' Ptr, Pad (Array 4 U8)]"

definition MibIPInterfaceRow_32 :: gotype where
  "MibIPInterfaceRow_32 = Struct ''MibIPInterfaceRow''
    [Fld ''Family'' (en_type AddressFamily), Pad (Array 4 U8), Fld ''InterfaceLUID'' LUID,
     Fld ''InterfaceIndex'' U32, Fld ''MaxReassemblySize'' U32, Fld ''InterfaceIdentifier'' U64,
     Fld ''MinRouterAdvertisementInterval'' U32, Fld ''MaxRouterAdvertisementInterval'' U32,
     Fld ''AdvertisingEnabled'' U8, Fld ''ForwardingEnabled'' U8, Fld ''WeakHostSend'' U8,
     Fld ''WeakHostReceive'' U8, Fld ''UseAutomaticMetric'' U8, Fld ''UseNeighborUnreachabilityDetection'' U8,
     Fld ''ManagedAddressConfigurationSupported'' U8, Fld ''OtherStatefulConfigurationSupported'' U8,
     Fld ''AdvertiseDefaultRoute'' U8, Fld ''RouterDiscoveryBehavior'' (en_type RouterDiscoveryBehavior),
     Fld ''DadTransmits'' U32, Fld ''BaseReachableTime'' U32, Fld ''RetransmitTime'' U32,
     Fld ''PathMTUDiscoveryTimeout'' U32, Fld ''LinkLocalAddressBehavior'' (en_type LinkLocalAddressBehavior),
     Fld ''LinkLocalAddressTimeout'' U32, Fld ''ZoneIndices'' (Array ScopeLevelCount U32),
     Fld ''SitePrefixLength'' U32, Fld ''Metric'' U32, Fld ''NLMTU'' U32, Fld ''Connected'' U8,
     Fld ''SupportsWakeUpPatterns'' U8, Fld ''SupportsNeighborDiscovery'' U8,
     Fld ''SupportsRouterDiscovery'' U8, Fld ''ReachableTime'' U32,
     Fld ''TransmitOffload'' (en_type OffloadRod), Fld ''ReceiveOffload'' (en_type OffloadRod),
     Fld ''DisableDefaultRoutes'' U8]"

definition mibIPInterfaceTable_32 :: gotype where
  "mibIPInterfaceTable_32 = Struct ''mibIPInterfaceTable''
    [Fld ''numEntries'' U32, Pad (Array 4 U8), Fld ''table'' (Array anySize MibIPInterfaceRow_32)]"

definition MibIfRow2_32 :: "sys_types \<Rightarrow> gotype" where
  "MibIfRow2_32 sys = Struct ''MibIfRow2''
    [Fld ''InterfaceLUID'' LUID, Fld ''InterfaceIndex'' U32, Fld ''InterfaceGUID'' (xs_GUID sys),
     Fld ''alias'' (Array (ifMaxStringSize + 1) U16), Fld ''description'' (Array (ifMaxStringSize + 1) U16),
     Fld ''physicalAddressLength'' U32, Fld ''physicalAddress'' (Array ifMaxPhysAddressLength U8),
     Fld ''permanentPhysicalAddress'' (Array ifMaxPhysAddressLength U8), Fld ''MTU'' U32,
     Fld ''Type'' (en_type IfType), Fld ''TunnelType'' (en_type TunnelType),
     Fld ''MediaType'' (en_type NdisMedium), Fld ''PhysicalMediumType'' (en_type NdisPhysicalMedium),
     Fld ''AccessType'' (en_type NetIfAccessType), Fld ''DirectionType'' (en_type NetIfDirectionType),
     Fld ''InterfaceAndOperStatusFlags'' (en_type InterfaceAndOperStatusFlags),
     Fld ''OperStatus'' (en_type IfOperStatus), Fld ''AdminStatus'' (en_type NetIfAdminStatus),
     Fld ''MediaConnectState'' (en_type NetIfMediaConnectState), Fld ''NetworkGUID'' (xs_GUID sys),
     Fld ''ConnectionType'' (en_type NetIfConnectionType), Pad (Array 4 U8), Fld ''TransmitLinkSpeed'' U64,
     Fld ''ReceiveLinkSpeed'' U64, Fld ''InOctets'' U64, Fld ''InUcastPkts'' U64, Fld ''InNUcastPkts'' U64,
     Fld ''InDiscards'' U64, Fld ''InErrors'' U64, Fld ''InUnknownProtos'' U64, Fld ''InUcastOctets'' U64,
     Fld ''InMulticastOctets'' U64, Fld ''InBroadcastOctets'' U64, Fld ''OutOctets'' U64,
     Fld ''OutUcastPkts'' U64, Fld ''OutNUcastPkts'' U64, Fld ''OutDiscards'' U64, Fld ''OutErrors'' U64,
     Fld ''OutUcastOctets'' U64, Fld ''OutMulticastOctets'' U64, Fld ''OutBroadcastOctets'' U64,
     Fld ''OutQLen'' U64]"

definition mibIfTable2_32 :: "sys_types \<Rightarrow> gotype" where
  "mibIfTable2_32 sys = Struct ''mibIfTable2''
    [Fld ''numEntries'' U32, Pad (Array 4 U8), Fld ''table'' (Array anySize (MibIfRow2_32 sys))]"

definition MibUnicastIPAddressRow_32 :: gotype where
  "MibUnicastIPAddressRow_32 = Struct ''MibUnicastIPAddressRow''
    [Fld ''Address'' RawSockaddrInet, Pad (Array 4 U8), Fld ''InterfaceLUID'' LUID, Fld ''InterfaceIndex'' U32,
     Fld ''PrefixOrigin'' (en_type PrefixOrigin), Fld ''SuffixOrigin'' (en_type SuffixOrigin),
     Fld ''ValidLifetime'' U32, Fld ''PreferredLifetime'' U32, Fld ''OnLinkPrefixLength'' U8,
     Fld ''SkipAsSource'' U8, Fld ''DadState'' (en_type DadState), Fld ''ScopeID'' U32,
     Fld ''CreationTimeStamp'' I64]"

definition mibUnicastIPAddressTable_32 :: gotype where
  "mibUnicastIPAddressTable_32 = Struct ''mibUnicastIPAddressTable''
    [Fld ''numEntries'' U32, Pad (Array 4 U8), Fld ''table'' (Array anySize MibUnicastIPAddressRow_32)]"

definition MibAnycastIPAddressRow_32 :: gotype where
  "MibAnycastIPAddressRow_32 = Struct ''MibAnycastIPAddressRow''
    [Fld ''Address'' RawSockaddrInet, Pad (Array 4 U8), Fld ''InterfaceLUID'' LUID, Fld ''InterfaceIndex'' U32,
     Fld ''ScopeID'' U32]"

definition mibAnycastIPAddressTable_32 :: gotype where
  "mibAnycastIPAddressTable_32 = Struct ''mibAnycastIPAddressTable''
    [Fld ''numEntries'' U32, Pad (Array 4 U8), Fld ''table'' (Array anySize MibAnycastIPAddressRow_32)]"

definition mibIPforwardTable2_32 :: gotype where
  "mibIPforwardTable2_32 = Struct ''mibIPforwardTable2''
    [Fld ''numEntries'' U32, Pad (Array 4 U8), Fld ''table'' (Array anySize MibIPforwardRow2)]"

text \<open>The declaration a platform is built with: the 32-bit file for 386 and arm, the 64-bit file otherwise.\<close>

definition built :: "goarch \<Rightarrow> gotype \<times> gotype \<Rightarrow> gotype" where
  "built a d = (if is32 a then fst d else snd d)"

definition rows_of :: "sys_types \<Rightarrow> (gotype \<times> gotype) list" where
  "rows_of sys =
     [(IPAdapterWINSServerAddress_32 sys, IPAdapterWINSServerAddress_64 sys),
      (IPAdapterGatewayAddress_32 sys, IPAdapterGatewayAddress_64 sys),
      (IPAdapterAddresses_32 sys, IPAdapterAddresses_64 sys),
      (IPAdapterDNSSuffix, IPAdapterDNSSuffix),
      (DnsInterfaceSettings, DnsInterfaceSettings),
      (MibIPInterfaceRow_32, MibIPInterfaceRow_64),
      (MibIfRow2_32 sys, MibIfRow2_64 sys),
      (MibUnicastIPAddressRow_32, MibUnicastIPAddressRow_64),
      (MibAnycastIPAddressRow_32, MibAnycastIPAddressRow_64),
      (MibIPforwardRow2, MibIPforwardRow2)]"

definition mibIPInterfaceTable :: "gotype \<times> gotype" where
  "mibIPInterfaceTable = (mibIPInterfaceTable_32, mibIPInterfaceTable_64)"

definition mibIfTable2 :: "sys_types \<Rightarrow> gotype \<times> gotype" where
  "mibIfTable2 sys = (mibIfTable2_32 sys, mibIfTable2_64 sys)"

definition mibUnicastIPAddressTable :: "gotype \<times> gotype" where
  "mibUnicastIPAddressTable = (mibUnicastIPAddressTable_32, mibUnicastIPAddressTable_64)"

definition mibAnycastIPAddressTable :: "gotype \<times> gotype" where
  "mibAnycastIPAddressTable = (mibAnycastIPAddressTable_32, mibAnycastIPAddressTable_64)"

definition mibIPforwardTable2 :: "gotype \<times> gotype" where
  "mibIPforwardTable2 = (mibIPforwardTable2_32, mibIPforwardTable2_64)"

definition tables_of :: "sys_types \<Rightarrow> (gotype \<times> gotype) list" where
  "tables_of sys = [mibIPInterfaceTable, mibIfTable2 sys, mibUnicastIPAddressTable, mibAnycastIPAddressTable,
     mibIPforwardTable2]"

section \<open>Copying a table\<close>

text \<open>Offset and type of a member.\<close>

fun member_from :: "layout_rules \<Rightarrow> nat \<Rightarrow> gofield list \<Rightarrow> string \<Rightarrow> nat \<times> gotype" where
  "member_from e off [] f = (off, U8)"
| "member_from e off (Fld g t # fs) f =
     (let a = round_up off (align_of e t) in if g = f then (a, t) else member_from e (a + size_of e t) fs f)"
| "member_from e off (Pad t # fs) f = member_from e (round_up off (align_of e t) + size_of e t) fs f"

fun fields_of :: "gotype \<Rightarrow> gofield list" where
  "fields_of (Struct s fs) = fs"
| "fields_of _ = []"

fun elem_of :: "gotype \<Rightarrow> gotype" where
  "elem_of (Array n t) = t"
| "elem_of t = t"

definition member_offset :: "layout_rules \<Rightarrow> gotype \<Rightarrow> string \<Rightarrow> nat" where
  "member_offset e t f = fst (member_from e 0 (fields_of t) f)"

definition row_type :: "layout_rules \<Rightarrow> gotype \<Rightarrow> gotype" where
  "row_type e t = elem_of (snd (member_from e 0 (fields_of t) ''table''))"

type_synonym memory = "nat \<Rightarrow> u8"

definition read_bytes :: "memory \<Rightarrow> nat \<Rightarrow> nat \<Rightarrow> bytes" where
  "read_bytes mem a n = map mem [a..<a + n]"

definition numEntries :: "layout_rules \<Rightarrow> gotype \<Rightarrow> memory \<Rightarrow> nat \<Rightarrow> nat" where
  "numEntries e tab mem p = le_get32 (read_bytes mem (p + member_offset e tab ''numEntries'') 4)"

text \<open>The method \<open>get\<close> of a table: \<open>unsafe.Slice(&tab.table[0], tab.numEntries)\<close>.\<close>

definition table_get :: "layout_rules \<Rightarrow> gotype \<Rightarrow> memory \<Rightarrow> nat \<Rightarrow> bytes list" where
  "table_get e tab mem p =
     (let row = row_type e tab; base = p + member_offset e tab ''table''
      in map (\<lambda>i. read_bytes mem (base + i * size_of e row) (size_of e row)) [0..<numEntries e tab mem p])"

text \<open>
  The system call leaves an address, or an error. The rows are copied, then the system's memory is
  freed; the second component lists the addresses handed to \<open>FreeMibTable\<close>.
\<close>

definition copy_table :: "layout_rules \<Rightarrow> gotype \<Rightarrow> 'e + memory \<times> nat \<Rightarrow> ('e + bytes list) \<times> nat list" where
  "copy_table e tab r = (case r of Inl err \<Rightarrow> (Inl err, []) | Inr (mem, p) \<Rightarrow> (Inr (table_get e tab mem p), [p]))"

definition GetIPInterfaceTable :: "goarch \<Rightarrow> (u16 \<Rightarrow> 'e + memory \<times> nat) \<Rightarrow> u16 \<Rightarrow> ('e + bytes list) \<times> nat list" where
  "GetIPInterfaceTable a call family = copy_table (go_rules a) (built a mibIPInterfaceTable) (call family)"

definition GetIfTable2Ex :: "goarch \<Rightarrow> sys_types \<Rightarrow> (u32 \<Rightarrow> 'e + memory \<times> nat) \<Rightarrow> u32 \<Rightarrow> ('e + bytes list) \<times> nat list"
  where "GetIfTable2Ex a sys call level = copy_table (go_rules a) (built a (mibIfTable2 sys)) (call level)"

definition GetUnicastIPAddressTable :: "goarch \<Rightarrow> (u16 \<Rightarrow> 'e + memory \<times> nat) \<Rightarrow> u16 \<Rightarrow> ('e + bytes list) \<times> nat list"
  where "GetUnicastIPAddressTable a call family =
     copy_table (go_rules a) (built a mibUnicastIPAddressTable) (call family)"

definition GetAnycastIPAddressTable :: "goarch \<Rightarrow> (u16 \<Rightarrow> 'e + memory \<times> nat) \<Rightarrow> u16 \<Rightarrow> ('e + bytes list) \<times> nat list"
  where "GetAnycastIPAddressTable a call family =
     copy_table (go_rules a) (built a mibAnycastIPAddressTable) (call family)"

definition GetIPForwardTable2 :: "goarch \<Rightarrow> (u16 \<Rightarrow> 'e + memory \<times> nat) \<Rightarrow> u16 \<Rightarrow> ('e + bytes list) \<times> nat list" where
  "GetIPForwardTable2 a call family = copy_table (go_rules a) (built a mibIPforwardTable2) (call family)"

text \<open>The members of a row as the program reads them, and as Windows wrote them.\<close>

definition row_members :: "layout_rules \<Rightarrow> gotype \<Rightarrow> bytes \<Rightarrow> (string list \<times> bytes) list" where
  "row_members e t bs = map (\<lambda>(p, off, n). (p, take n (drop off bs))) (leaves e t)"

definition members_at :: "layout_rules \<Rightarrow> gotype \<Rightarrow> memory \<Rightarrow> nat \<Rightarrow> (string list \<times> bytes) list" where
  "members_at e t mem a = map (\<lambda>(p, off, n). (p, read_bytes mem (a + off) n)) (leaves e t)"

definition windows_rows :: "layout_rules \<Rightarrow> gotype \<Rightarrow> memory \<Rightarrow> nat \<Rightarrow> (string list \<times> bytes) list list" where
  "windows_rows e tab mem p =
     (let row = row_type e tab; base = p + member_offset e tab ''table''
      in map (\<lambda>i. members_at e row mem (base + i * size_of e row)) [0..<numEntries e tab mem p])"

text \<open>\<open>SetInterfaceDnsSettings\<close> passes the GUID's sixteen bytes by address or cut into machine words.\<close>

datatype guid_arg = ByPtr bytes | ByQwords bytes bytes | ByDwords bytes bytes bytes bytes

definition guid_word :: "nat \<Rightarrow> bytes \<Rightarrow> nat \<Rightarrow> bytes" where
  "guid_word w guid i = take w (drop (i * w) guid)"

definition SetInterfaceDnsSettings :: "goarch \<Rightarrow> bytes \<Rightarrow> guid_arg" where
  "SetInterfaceDnsSettings a guid =
     (let word = guid_word (lay_ptr (go_rules a)) guid
      in case a of ArchAmd64 \<Rightarrow> ByPtr guid
         | ArchArm64 \<Rightarrow> ByQwords (word 0) (word 1)
         | _ \<Rightarrow> ByDwords (word 0) (word 1) (word 2) (word 3))"

fun guid_received :: "guid_arg \<Rightarrow> bytes" where
  "guid_received (ByPtr g) = g"
| "guid_received (ByQwords x y) = x @ y"
| "guid_received (ByDwords x y z w) = x @ y @ z @ w"

definition sys_documented :: "sys_types \<Rightarrow> bool" where
  "sys_documented sys \<longleftrightarrow>
     xs_SocketAddress sys = Struct ''SocketAddress'' [Fld ''Sockaddr'' Ptr, Fld ''SockaddrLength'' I32] \<and>
     xs_GUID sys = Struct ''GUID'' [Fld ''Data1'' U32, Fld ''Data2'' U16, Fld ''Data3'' U16, Fld ''Data4'' (Array 8 U8)] \<and>
     xs_MAX_ADAPTER_ADDRESS_LENGTH sys = 8"

section \<open>The declarations and Windows\<close>

lemmas struct_defs = AddressFamily_def IPAAFlags_def IfOperStatus_def IfType_def NdisMedium_def NdisPhysicalMedium_def
  NetIfAccessType_def NetIfAdminStatus_def NetIfConnectionType_def NetIfDirectionType_def NetIfMediaConnectState_def
  DadState_def PrefixOrigin_def LinkLocalAddressBehavior_def OffloadRod_def RouteOrigin_def RouteProtocol_def
  RouterDiscoveryBehavior_def SuffixOrigin_def TunnelType_def InterfaceAndOperStatusFlags_def
  anySize_def maxDNSSuffixStringLength_def maxDHCPv6DUIDLength_def ifMaxStringSize_def ifMaxPhysAddressLength_def
  ScopeLevelCount_def LUID_def RawSockaddrInet_def IPAddressPrefix_def MibIPforwardRow2_def IPAdapterDNSSuffix_def
  DnsInterfaceSettings_def IPAdapterWINSServerAddress_64_def IPAdapterGatewayAddress_64_def IPAdapterAddresses_64_def
  MibIPInterfaceRow_64_def MibIfRow2_64_def MibUnicastIPAddressRow_64_def MibAnycastIPAddressRow_64_def
  IPAdapterWINSServerAddress_32_def IPAdapterGatewayAddress_32_def IPAdapterAddresses_32_def MibIPInterfaceRow_32_def
  MibIfRow2_32_def MibUnicastIPAddressRow_32_def MibAnycastIPAddressRow_32_def

lemmas table_defs = mibIPInterfaceTable_def mibIfTable2_def mibUnicastIPAddressTable_def mibAnycastIPAddressTable_def
  mibIPforwardTable2_def mibIPInterfaceTable_32_def mibIPInterfaceTable_64_def mibIfTable2_32_def mibIfTable2_64_def
  mibUnicastIPAddressTable_32_def mibUnicastIPAddressTable_64_def mibAnycastIPAddressTable_32_def
  mibAnycastIPAddressTable_64_def mibIPforwardTable2_32_def mibIPforwardTable2_64_def

text \<open>The rules with the platform's width written out, on which the layouts are computed.\<close>

definition same_layout :: "layout_rules \<Rightarrow> layout_rules \<Rightarrow> gotype \<Rightarrow> gotype \<Rightarrow> bool" where
  "same_layout e w t u \<longleftrightarrow> leaves e t = leaves w u \<and> size_of e t = size_of w u"

lemma platforms:
  "(\<And>a. is32 a \<Longrightarrow> go_rules a = \<lparr> lay_ptr = 4, lay_max = 4, lay_union = \<lambda>_. 1 \<rparr>)"
  "(\<And>a. is32 a \<Longrightarrow> windows_rules a = \<lparr> lay_ptr = 4, lay_max = 8, lay_union = windows_union \<rparr>)"
  "(\<And>a. \<not> is32 a \<Longrightarrow> go_rules a = \<lparr> lay_ptr = 8, lay_max = 8, lay_union = \<lambda>_. 1 \<rparr>)"
  "(\<And>a. \<not> is32 a \<Longrightarrow> windows_rules a = \<lparr> lay_ptr = 8, lay_max = 8, lay_union = windows_union \<rparr>)"
  by (simp_all add: go_rules_def windows_rules_def)

lemma round_up_eval:
  "round_up n (Suc 0) = n" "round_up n 2 = n + n mod 2" "round_up n (Suc (Suc 0)) = n + n mod 2" "round_up n 4 = (n + 3) div 4 * 4" "round_up n 8 = (n + 7) div 8 * 8"
proof -
  show "round_up n 2 = n + n mod 2" "round_up n (Suc (Suc 0)) = n + n mod 2" unfolding round_up_def by presburger+
qed (simp_all add: round_up_def)

lemmas layout_eval = same_layout_def struct_defs Let_def round_up_eval under_def shift_leaf_def windows_union_def o_def

lemma rows_32:
  assumes "sys_documented sys"
  shows "list_all (\<lambda>(t, u). same_layout \<lparr> lay_ptr = 4, lay_max = 4, lay_union = \<lambda>_. 1 \<rparr>
           \<lparr> lay_ptr = 4, lay_max = 8, lay_union = windows_union \<rparr> t u) (rows_of sys)"
  using assms unfolding sys_documented_def rows_of_def by (simp add: layout_eval cong: let_weak_cong)

lemma rows_64:
  assumes "sys_documented sys"
  shows "list_all (\<lambda>(t, u). same_layout \<lparr> lay_ptr = 8, lay_max = 8, lay_union = \<lambda>_. 1 \<rparr>
           \<lparr> lay_ptr = 8, lay_max = 8, lay_union = windows_union \<rparr> u u) (rows_of sys)"
  using assms unfolding sys_documented_def rows_of_def by (simp add: layout_eval cong: let_weak_cong)

lemma tables_32:
  assumes "sys_documented sys"
  shows "list_all (\<lambda>(t, u). same_layout \<lparr> lay_ptr = 4, lay_max = 4, lay_union = \<lambda>_. 1 \<rparr>
           \<lparr> lay_ptr = 4, lay_max = 8, lay_union = windows_union \<rparr> t u) (tables_of sys)"
  using assms unfolding sys_documented_def tables_of_def table_defs by (simp add: layout_eval cong: let_weak_cong)

lemma tables_64:
  assumes "sys_documented sys"
  shows "list_all (\<lambda>(t, u). same_layout \<lparr> lay_ptr = 8, lay_max = 8, lay_union = \<lambda>_. 1 \<rparr>
           \<lparr> lay_ptr = 8, lay_max = 8, lay_union = windows_union \<rparr> u u) (tables_of sys)"
  using assms unfolding sys_documented_def tables_of_def table_defs by (simp add: layout_eval cong: let_weak_cong)

lemma same_layout_declared:
  assumes "sys_documented sys" "d \<in> set (rows_of sys @ tables_of sys)"
  shows "same_layout (go_rules a) (windows_rules a) (built a d) (snd d)"
  using rows_32[OF assms(1)] rows_64[OF assms(1)] tables_32[OF assms(1)] tables_64[OF assms(1)] assms(2)
  by (cases "is32 a") (auto simp: platforms built_def list_all_iff)

text \<open>A table: where its count and its rows are, and which of the structs its rows have.\<close>

definition table_row :: "layout_rules \<Rightarrow> gotype \<Rightarrow> nat \<times> nat \<times> gotype" where
  "table_row e t = (member_offset e t ''numEntries'', member_offset e t ''table'', row_type e t)"

lemma table_rows:
  assumes "sys_documented sys" "d \<in> set (tables_of sys)"
  shows "\<exists>r \<in> set (rows_of sys). table_row (go_rules a) (built a d) = (0, 8, built a r) \<and>
           table_row (windows_rules a) (snd d) = (0, 8, snd r)"
proof -
  have eqs: "list_all (\<lambda>(d, r). table_row (go_rules a) (built a d) = (0, 8, built a r) \<and>
           table_row (windows_rules a) (snd d) = (0, 8, snd r))
     [(mibIPInterfaceTable, MibIPInterfaceRow_32, MibIPInterfaceRow_64),
      (mibIfTable2 sys, MibIfRow2_32 sys, MibIfRow2_64 sys),
      (mibUnicastIPAddressTable, MibUnicastIPAddressRow_32, MibUnicastIPAddressRow_64),
      (mibAnycastIPAddressTable, MibAnycastIPAddressRow_32, MibAnycastIPAddressRow_64),
      (mibIPforwardTable2, MibIPforwardRow2, MibIPforwardRow2)]"
    using assms(1) unfolding sys_documented_def
    by (cases "is32 a") (simp_all add: built_def platforms table_row_def member_offset_def row_type_def table_defs layout_eval
      cong: let_weak_cong)
  then show ?thesis using assms(2) unfolding tables_of_def rows_of_def by auto
qed

text \<open>C34 On every platform the program is built for, each struct that Windows fills in or reads lies in the program's
  memory as Windows lays it out: every named member, down to the members of nested structs and table rows, has
  the same offset and size, and the struct as a whole has the same size, so the blank members of the 32-bit
  declarations are exactly those that are needed. The layout of Windows is that of the 64-bit declarations with
  every integer aligned to its size and pointers of the platform's width.\<close>

theorem structs_match_windows:
  assumes "sys_documented sys" "d \<in> set (rows_of sys @ tables_of sys)"
  shows "leaves (go_rules a) (built a d) = leaves (windows_rules a) (snd d) \<and>
         size_of (go_rules a) (built a d) = size_of (windows_rules a) (snd d)"
  using same_layout_declared[OF assms, of a] by (simp add: same_layout_def)

definition windows_sys :: sys_types where
  "windows_sys =
     \<lparr> xs_SocketAddress = Struct ''SocketAddress'' [Fld ''Sockaddr'' Ptr, Fld ''SockaddrLength'' I32],
       xs_GUID = Struct ''GUID'' [Fld ''Data1'' U32, Fld ''Data2'' U16, Fld ''Data3'' U16, Fld ''Data4'' (Array 8 U8)],
       xs_MAX_ADAPTER_ADDRESS_LENGTH = 8 \<rparr>"

lemma windows_sys_documented: "sys_documented windows_sys"
  by (simp add: sys_documented_def windows_sys_def)

theorem structs_match_windows_witness:
  "leaves (go_rules Arch386) MibUnicastIPAddressRow_32 = leaves (windows_rules Arch386) MibUnicastIPAddressRow_64 \<and>
   (leaves (go_rules Arch386) MibUnicastIPAddressRow_64 \<noteq> leaves (windows_rules Arch386) MibUnicastIPAddressRow_64)"
proof
  show "leaves (go_rules Arch386) MibUnicastIPAddressRow_32 = leaves (windows_rules Arch386) MibUnicastIPAddressRow_64"
    using structs_match_windows[OF windows_sys_documented, of "(MibUnicastIPAddressRow_32, MibUnicastIPAddressRow_64)" Arch386]
    by (simp add: rows_of_def built_def is32_def)
  show "leaves (go_rules Arch386) MibUnicastIPAddressRow_64 \<noteq> leaves (windows_rules Arch386) MibUnicastIPAddressRow_64"
    by (simp add: go_rules_def windows_rules_def is32_def layout_eval cong: let_weak_cong)
qed

section \<open>Tables\<close>

lemma take_drop_read:
  "off + n \<le> s \<Longrightarrow> take n (drop off (read_bytes mem a s)) = read_bytes mem (a + off) n"
  by (intro nth_equalityI) (simp_all add: read_bytes_def add.assoc)

lemma row_members_read:
  assumes "rules_ok e" "s = size_of e t"
  shows "row_members e t (read_bytes mem a s) = members_at e t mem a"
  using leaves_inside(1)[OF assms(1)] assms(2) by (auto simp: row_members_def members_at_def take_drop_read)

text \<open>
  Whatever memory the system call leaves: the rows that are copied have the members Windows wrote, one for each entry
  it counted, and the memory is freed exactly once; after an error nothing is.
\<close>

theorem tables_read_as_written:
  assumes "sys_documented sys" "d \<in> set (tables_of sys)"
  shows "\<exists>rows. copy_table (go_rules a) (built a d) (Inr (mem, p)) = (Inr rows, [p]) \<and>
           map (row_members (go_rules a) (row_type (go_rules a) (built a d))) rows
             = windows_rows (windows_rules a) (snd d) mem p"
    and "copy_table (go_rules a) (built a d) (Inl err) = (Inl err, [])"
proof -
  obtain r where r: "r \<in> set (rows_of sys)"
    and go: "member_offset (go_rules a) (built a d) ''numEntries'' = 0" "member_offset (go_rules a) (built a d) ''table'' = 8"
      "row_type (go_rules a) (built a d) = built a r"
    and win: "member_offset (windows_rules a) (snd d) ''numEntries'' = 0"
      "member_offset (windows_rules a) (snd d) ''table'' = 8" "row_type (windows_rules a) (snd d) = snd r"
    using table_rows[OF assms, of a] by (auto simp: table_row_def)
  have "same_layout (go_rules a) (windows_rules a) (built a r) (snd r)" using same_layout_declared assms(1) r by auto
  then have same: "size_of (go_rules a) (built a r) = size_of (windows_rules a) (snd r)"
    "members_at (go_rules a) (built a r) = members_at (windows_rules a) (snd r)"
    by (auto simp: same_layout_def members_at_def fun_eq_iff)
  show "\<exists>rows. copy_table (go_rules a) (built a d) (Inr (mem, p)) = (Inr rows, [p]) \<and>
           map (row_members (go_rules a) (row_type (go_rules a) (built a d))) rows
             = windows_rows (windows_rules a) (snd d) mem p"
    using same by (simp add: copy_table_def table_get_def windows_rows_def numEntries_def go win Let_def row_members_read)
qed (simp add: copy_table_def)

text \<open>In particular the table of routes, from which the routes of an interface are deleted.\<close>

lemma route_table_read_as_written:
  assumes "call family = Inr (mem, p)"
  shows "\<exists>rows. GetIPForwardTable2 a call family = (Inr rows, [p]) \<and>
           map (row_members (go_rules a) MibIPforwardRow2) rows
             = windows_rows (windows_rules a) mibIPforwardTable2_64 mem p"
proof -
  have "row_type (go_rules a) (built a mibIPforwardTable2) = MibIPforwardRow2"
    by (simp add: row_type_def built_def table_defs Let_def)
  moreover have "mibIPforwardTable2 \<in> set (tables_of windows_sys)" by (simp add: tables_of_def)
  ultimately show ?thesis
    using tables_read_as_written(1)[OF windows_sys_documented, of mibIPforwardTable2 a mem p] assms
    by (simp add: GetIPForwardTable2_def table_defs)
qed

text \<open>The GUID reaches the system whole on every platform, and no word is read behind it.\<close>

lemma guid_passed_whole:
  assumes "length guid = 16" shows "guid_received (SetInterfaceDnsSettings a guid) = guid"
  using assms by (cases a)
    (auto simp: SetInterfaceDnsSettings_def guid_word_def go_rules_def is32_def take_add[symmetric] numeral_eq_Suc
      length_Suc_conv)

section \<open>Interfaces\<close>

text \<open>
  The conversions of \<open>luid.go\<close>: a system call fills in the value it is given a pointer to, or fails, and then
  the program returns the zero value with the error. \<open>blank\<close> is the zero value.
\<close>

definition filled :: "('v \<Rightarrow> 'e option \<times> 'v) \<Rightarrow> 'v \<Rightarrow> 'v \<Rightarrow> 'v \<times> 'e option" where
  "filled call blank v = (case call v of (Some e, _) \<Rightarrow> (blank, Some e) | (None, v') \<Rightarrow> (v', None))"

definition Interface :: "('r \<Rightarrow> 'e option \<times> 'r) \<Rightarrow> (64 word \<Rightarrow> 'r) \<Rightarrow> 64 word \<Rightarrow> 'r option \<times> 'e option" where
  "Interface getIfEntry2 row_with luid =
     (case getIfEntry2 (row_with luid) of (Some e, _) \<Rightarrow> (None, Some e) | (None, row) \<Rightarrow> (Some row, None))"

definition GUID :: "(64 word \<Rightarrow> bytes \<Rightarrow> 'e option \<times> bytes) \<Rightarrow> 64 word \<Rightarrow> bytes option \<times> 'e option" where
  "GUID convert luid =
     (case convert luid (replicate 16 0) of (Some e, _) \<Rightarrow> (None, Some e) | (None, g) \<Rightarrow> (Some g, None))"

definition LUIDFromGUID :: "(bytes \<Rightarrow> 64 word \<Rightarrow> 'e option \<times> 64 word) \<Rightarrow> bytes \<Rightarrow> 64 word \<times> 'e option" where
  "LUIDFromGUID convert guid = filled (convert guid) 0 0"

definition LUIDFromIndex :: "(u32 \<Rightarrow> 64 word \<Rightarrow> 'e option \<times> 64 word) \<Rightarrow> u32 \<Rightarrow> 64 word \<times> 'e option" where
  "LUIDFromIndex convert index = filled (convert index) 0 0"

text \<open>Identifiers survive the way to a GUID and back when the two system calls are inverse to each other.\<close>

lemma luid_guid_roundtrip:
  assumes "GUID to_guid luid = (Some g, None)" "\<And>blank. from_guid g blank = (None, luid)"
  shows "LUIDFromGUID from_guid g = (luid, None)"
  using assms by (simp add: LUIDFromGUID_def filled_def)

lemma failed_conversion_yields_zero:
  "snd (LUIDFromGUID convert guid) = Some e \<Longrightarrow> fst (LUIDFromGUID convert guid) = 0"
  "snd (LUIDFromIndex from_index index) = Some e \<Longrightarrow> fst (LUIDFromIndex from_index index) = 0"
  by (auto simp: LUIDFromGUID_def LUIDFromIndex_def filled_def split: prod.splits option.splits)

text \<open>
  Addresses of variable length in arrays of fixed length; \<open>None\<close> is the panic of a slice that is too long. Texts of a
  row end at the first zero, which \<open>utf16\<close> of the parameter looks for.
\<close>

definition PhysicalAddress :: "bytes \<Rightarrow> nat \<Rightarrow> bytes option" where
  "PhysicalAddress physicalAddress len = (if len \<le> length physicalAddress then Some (take len physicalAddress) else None)"

definition PermanentPhysicalAddress :: "bytes \<Rightarrow> nat \<Rightarrow> bytes option" where
  "PermanentPhysicalAddress permanentPhysicalAddress len =
     (if len \<le> length permanentPhysicalAddress then Some (take len permanentPhysicalAddress) else None)"

definition DHCPv6ClientDUID :: "bytes \<Rightarrow> nat \<Rightarrow> bytes option" where
  "DHCPv6ClientDUID duid len = (if len \<le> length duid then Some (take len duid) else None)"

definition DNSSuffix :: "(u16 list \<Rightarrow> string) \<Rightarrow> u16 list option \<Rightarrow> string" where
  "DNSSuffix utf16 dnsSuffix = (case dnsSuffix of None \<Rightarrow> [] | Some s \<Rightarrow> utf16 s)"

definition Description :: "(u16 list \<Rightarrow> string) \<Rightarrow> u16 list option \<Rightarrow> string" where
  "Description utf16 description = (case description of None \<Rightarrow> [] | Some s \<Rightarrow> utf16 s)"

definition FriendlyName :: "(u16 list \<Rightarrow> string) \<Rightarrow> u16 list option \<Rightarrow> string" where
  "FriendlyName utf16 friendlyName = (case friendlyName of None \<Rightarrow> [] | Some s \<Rightarrow> utf16 s)"

text \<open>Nothing checks the length Windows gives; the two addresses of a row share it, and fail together.\<close>

lemma physical_addresses_total:
  assumes "length hw = ifMaxPhysAddressLength" "length perm = ifMaxPhysAddressLength"
  shows "PhysicalAddress hw len \<noteq> None \<longleftrightarrow> len \<le> 32" "PermanentPhysicalAddress perm len \<noteq> None \<longleftrightarrow> len \<le> 32"
    "PhysicalAddress hw len = Some b \<Longrightarrow> length b = len"
  using assms by (auto simp: PhysicalAddress_def PermanentPhysicalAddress_def ifMaxPhysAddressLength_def split: if_splits)

end
