(* ===== verification/Ui_Server.thy ===== *)
theory Ui_Server
  imports Ui_Http
begin

text \<open>
  Starting the web server, \<open>StartServer\<close> of \<open>ui2/server.go\<close>: the routes as they are registered with
  \<open>http.ServeMux\<close>, the multiplexer's choice among them, and the address the browser is sent to; the request for
  the latest release in \<open>ui2/footer.go\<close>. A path is clean, as the multiplexer makes it before it looks.
\<close>

section \<open>Patterns\<close>

text \<open>A pattern of \<open>ServeMux\<close>: a method or none, literal and wildcard segments, and whether it ends in a slash.\<close>

datatype segment = Lit string | Wild

record pattern =
  pt_method :: "string option"
  pt_segments :: "segment list"
  pt_subtree :: bool

definition parse_segment :: "string \<Rightarrow> segment" where
  "parse_segment s = (if s \<noteq> [] \<and> hd s = CHR ''{'' then Wild else Lit s)"

definition parse_pattern :: "string \<Rightarrow> pattern" where
  "parse_pattern s =
     (let (m, p) = (case split_on CHR '' '' s of [m, p] \<Rightarrow> (Some m, p) | _ \<Rightarrow> (None, s));
          segs = tl (split_on CHR ''/'' p); subtree = (last segs = [])
      in \<lparr> pt_method = m, pt_segments = map parse_segment (if subtree then butlast segs else segs), pt_subtree = subtree \<rparr>)"

fun match_segments :: "segment list \<Rightarrow> string list \<Rightarrow> string list option" where
  "match_segments [] [] = Some []"
| "match_segments (Lit l # ps) (x # xs) = (if x = l then match_segments ps xs else None)"
| "match_segments (Wild # ps) (x # xs) = (if x \<noteq> [] then map_option ((#) x) (match_segments ps xs) else None)"
| "match_segments _ _ = None"

definition method_matches :: "string option \<Rightarrow> string \<Rightarrow> bool" where
  "method_matches m method = (case m of None \<Rightarrow> True | Some x \<Rightarrow> x = method \<or> x = ''GET'' \<and> method = ''HEAD'')"

definition pattern_match :: "pattern \<Rightarrow> string \<Rightarrow> string list \<Rightarrow> string list option" where
  "pattern_match p method path =
     (if \<not> method_matches (pt_method p) method then None
      else if pt_subtree p then
        (if length (pt_segments p) < length path then match_segments (pt_segments p) (take (length (pt_segments p)) path)
         else None)
      else match_segments (pt_segments p) path)"

section \<open>Routes\<close>

datatype ui_handler =
    handleState | handleCreateService | handleDeleteService | handleRenameService | handleStartService
  | handleStopService | handleServiceForwards | handleServiceAutoStart | handleServiceConfig | handleGenerateKey
  | handleConfig | handleEvents | handleUpgradeInfo | handleUpgradeDownload | handleUpgradeApply | fileServer

definition ui_routes :: "(string \<times> ui_handler) list" where
  "ui_routes =
     [(''/api/state'', handleState),
      (''POST /api/services'', handleCreateService),
      (''DELETE /api/services/{id}'', handleDeleteService),
      (''POST /api/services/{id}/rename'', handleRenameService),
      (''POST /api/services/{id}/start'', handleStartService),
      (''POST /api/services/{id}/stop'', handleStopService),
      (''POST /api/services/{id}/forwards'', handleServiceForwards),
      (''POST /api/services/{id}/autostart'', handleServiceAutoStart),
      (''POST /api/services/{id}/config'', handleServiceConfig),
      (''/api/key/generate'', handleGenerateKey),
      (''/api/config'', handleConfig),
      (''/api/events'', handleEvents),
      (''/api/upgrade/info'', handleUpgradeInfo),
      (''/api/upgrade/download'', handleUpgradeDownload),
      (''/api/upgrade/apply'', handleUpgradeApply),
      (''/'', fileServer)]"

definition ui_mux :: "(pattern \<times> ui_handler) list" where
  "ui_mux = map (\<lambda>(p, h). (parse_pattern p, h)) ui_routes"

text \<open>Patterns that end in a slash are less specific than those that match a path as a whole.\<close>

definition mux_hits ::
  "(pattern \<times> ui_handler) list \<Rightarrow> string \<Rightarrow> string list \<Rightarrow> (bool \<times> ui_handler \<times> string list) list" where
  "mux_hits routes method xs =
     List.map_filter (\<lambda>(p, h). map_option (\<lambda>c. (pt_subtree p, h, c)) (pattern_match p method xs)) routes"

definition mux_route :: "(pattern \<times> ui_handler) list \<Rightarrow> string \<Rightarrow> string \<Rightarrow> (ui_handler \<times> string list) option" where
  "mux_route routes method path =
     (let hits = mux_hits routes method (tl (split_on CHR ''/'' path))
      in case find (\<lambda>(sub, _). \<not> sub) hits of
           Some (_, r) \<Rightarrow> Some r
         | None \<Rightarrow> (case hits of [] \<Rightarrow> None | (_, r) # _ \<Rightarrow> Some r))"

text \<open>The handler around the multiplexer; a body of more than \<open>maxAPIBodyBytes\<close> cannot be read to its end.\<close>

definition maxAPIBodyBytes :: nat where "maxAPIBodyBytes = 2 ^ 20"

definition limited_body :: "bytes \<Rightarrow> bytes \<times> bool" where
  "limited_body b = (take maxAPIBodyBytes b, length b \<le> maxAPIBodyBytes)"

definition ui_dispatch ::
  "string \<Rightarrow> http_req \<Rightarrow> string \<Rightarrow> string \<Rightarrow> bytes \<Rightarrow> ((ui_handler \<times> string list) \<times> bytes \<times> bool) option" where
  "ui_dispatch uiToken r method path body =
     (if \<not> authorize uiToken r then None
      else map_option (\<lambda>h. (h, limited_body body)) (mux_route ui_mux method path))"

section \<open>Start\<close>

text \<open>
  \<open>bound\<close> is what \<open>ln.Addr()\<close> says, or \<open>None\<close> when listening failed; \<open>web_ok\<close> tells whether the embedded files
  are there. The result is the URL and whether the listener was closed again.
\<close>

definition StartServer :: "string option \<Rightarrow> bool \<Rightarrow> string option \<times> bool" where
  "StartServer bound web_ok =
     (case bound of
        None \<Rightarrow> (None, False)
      | Some a \<Rightarrow>
          if \<not> web_ok then (None, True)
          else (Some (''http://127.0.0.1:'' @ split_on CHR '':'' a ! 1 @ ''/''), False))"

text \<open>\<open>fetchLatestRelease\<close>: the request, the status, reading and decoding the body.\<close>

definition fetchLatestRelease :: "('e + nat \<times> ('e + bytes)) \<Rightarrow> (bytes \<Rightarrow> release option) \<Rightarrow> release option" where
  "fetchLatestRelease resp json =
     (case resp of
        Inl _ \<Rightarrow> None
      | Inr (status, body) \<Rightarrow>
          if status \<noteq> 200 then None else (case body of Inl _ \<Rightarrow> None | Inr b \<Rightarrow> json b))"

section \<open>No two routes meet\<close>

text \<open>
  Registering two patterns of which neither is more specific panics. The ones of the program never match the same request,
  but for the files, so the order of registration does not matter and registering cannot panic.
\<close>

fun segments_meet :: "segment list \<Rightarrow> segment list \<Rightarrow> bool" where
  "segments_meet [] [] = True"
| "segments_meet (Lit a # ps) (Lit b # qs) = (a = b \<and> segments_meet ps qs)"
| "segments_meet (a # ps) (b # qs) = segments_meet ps qs"
| "segments_meet _ _ = False"

definition patterns_meet :: "pattern \<Rightarrow> pattern \<Rightarrow> bool" where
  "patterns_meet p q \<longleftrightarrow> \<not> pt_subtree p \<and> \<not> pt_subtree q \<and>
     (case (pt_method p, pt_method q) of
        (Some a, Some b) \<Rightarrow> a = b \<or> {a, b} = {''GET'', ''HEAD''}
      | _ \<Rightarrow> True) \<and> segments_meet (pt_segments p) (pt_segments q)"

lemma match_Nil: "match_segments [] xs = (if xs = [] then Some [] else None)"
  by (cases xs) auto

lemma match_Cons_Nil: "match_segments (p # ps) [] = None"
  by (cases p) auto

lemma segments_meetI: "match_segments ps xs \<noteq> None \<Longrightarrow> match_segments qs xs \<noteq> None \<Longrightarrow> segments_meet ps qs"
proof (induction ps arbitrary: qs xs)
  case Nil
  then show ?case by (cases qs) (auto simp: match_Nil match_Cons_Nil split: if_splits)
next
  case (Cons a ps)
  then obtain x ys where xs: "xs = x # ys" by (cases xs) (auto simp: match_Cons_Nil)
  then obtain b qs' where qs: "qs = b # qs'" using Cons.prems(2) by (cases qs) (auto simp: match_Nil)
  have "match_segments ps ys \<noteq> None" "match_segments qs' ys \<noteq> None"
    using Cons.prems unfolding xs qs by (cases a; cases b; auto split: if_splits)+
  then show ?case using Cons.IH Cons.prems unfolding xs qs by (cases a; cases b) (auto split: if_splits)
qed

lemma patterns_meetI:
  assumes "pattern_match p method path \<noteq> None" "pattern_match q method path \<noteq> None" "\<not> pt_subtree p" "\<not> pt_subtree q"
  shows "patterns_meet p q"
proof -
  have m: "method_matches (pt_method p) method" "method_matches (pt_method q) method"
    and s: "match_segments (pt_segments p) path \<noteq> None" "match_segments (pt_segments q) path \<noteq> None"
    using assms by (auto simp: pattern_match_def split: if_splits)
  from m have "case (pt_method p, pt_method q) of (Some a, Some b) \<Rightarrow> a = b \<or> {a, b} = {''GET'', ''HEAD''} | _ \<Rightarrow> True"
    by (auto simp: method_matches_def split: option.splits)
  then show ?thesis using segments_meetI[OF s] assms(3,4) unfolding patterns_meet_def by blast
qed

definition service_pattern :: "string \<Rightarrow> segment list \<Rightarrow> pattern" where
  "service_pattern m xs = \<lparr> pt_method = Some m, pt_segments = Lit ''api'' # Lit ''services'' # xs, pt_subtree = False \<rparr>"

definition api_pattern :: "string list \<Rightarrow> pattern" where
  "api_pattern xs = \<lparr> pt_method = None, pt_segments = Lit ''api'' # map Lit xs, pt_subtree = False \<rparr>"

lemmas pattern_defs = service_pattern_def api_pattern_def

lemma ui_mux_eval:
  "ui_mux =
     [(api_pattern [''state''], handleState), (service_pattern ''POST'' [], handleCreateService),
      (service_pattern ''DELETE'' [Wild], handleDeleteService),
      (service_pattern ''POST'' [Wild, Lit ''rename''], handleRenameService),
      (service_pattern ''POST'' [Wild, Lit ''start''], handleStartService),
      (service_pattern ''POST'' [Wild, Lit ''stop''], handleStopService),
      (service_pattern ''POST'' [Wild, Lit ''forwards''], handleServiceForwards),
      (service_pattern ''POST'' [Wild, Lit ''autostart''], handleServiceAutoStart),
      (service_pattern ''POST'' [Wild, Lit ''config''], handleServiceConfig),
      (api_pattern [''key'', ''generate''], handleGenerateKey), (api_pattern [''config''], handleConfig),
      (api_pattern [''events''], handleEvents), (api_pattern [''upgrade'', ''info''], handleUpgradeInfo),
      (api_pattern [''upgrade'', ''download''], handleUpgradeDownload),
      (api_pattern [''upgrade'', ''apply''], handleUpgradeApply),
      (\<lparr> pt_method = None, pt_segments = [], pt_subtree = True \<rparr>, fileServer)]"
  by (simp add: ui_mux_def ui_routes_def parse_pattern_def parse_segment_def pattern_defs)

definition route_patterns :: "pattern list" where
  "route_patterns = map fst ui_mux"

lemma routes_apart: "i < j \<Longrightarrow> j < length route_patterns \<Longrightarrow> \<not> patterns_meet (route_patterns ! i) (route_patterns ! j)"
proof -
  have "sorted_wrt (\<lambda>p q. \<not> patterns_meet p q) route_patterns"
    unfolding route_patterns_def ui_mux_eval by (simp add: patterns_meet_def pattern_defs)
  then show "i < j \<Longrightarrow> j < length route_patterns \<Longrightarrow> \<not> patterns_meet (route_patterns ! i) (route_patterns ! j)"
    by (simp add: sorted_wrt_iff_nth_less)
qed

theorem routes_unambiguous:
  assumes "i < length route_patterns" "j < length route_patterns"
    "\<not> pt_subtree (route_patterns ! i)" "\<not> pt_subtree (route_patterns ! j)"
    "pattern_match (route_patterns ! i) method path \<noteq> None" "pattern_match (route_patterns ! j) method path \<noteq> None"
  shows "i = j"
  using patterns_meetI[OF assms(5,6,3,4)] patterns_meetI[OF assms(6,5,4,3)] routes_apart assms(1,2)
  by (meson linorder_neqE_nat)

section \<open>What a request reaches\<close>

text \<open>
  A service's route with any name that is one segment; with the wrong method the request is taken for a file. Every
  request passes the check of its origin first.
\<close>

lemma split_service_path:
  assumes "CHR ''/'' \<notin> set sid"
  shows "split_on CHR ''/'' (''/api/services/'' @ sid @ ''/start'') = ['''', ''api'', ''services'', sid, ''start'']"
proof -
  have "split_on CHR ''/'' (sid @ CHR ''/'' # ''start'') = [sid, ''start'']"
    using split_on_append[of "CHR ''/''" sid "''start''"] assms by simp
  then show ?thesis by simp
qed

lemma start_route:
  assumes "CHR ''/'' \<notin> set sid" "sid \<noteq> []"
  shows "mux_route ui_mux ''POST'' (''/api/services/'' @ sid @ ''/start'') = Some (handleStartService, [sid])"
    "mux_route ui_mux ''GET'' (''/api/services/'' @ sid @ ''/start'') = Some (fileServer, [])"
  unfolding mux_route_def split_service_path[OF assms(1)]
  using assms(2)
  by (simp_all add: ui_mux_eval mux_hits_def pattern_defs pattern_match_def method_matches_def List.map_filter_def
      ex_bool_eq all_bool_eq)

lemma dispatch_authorized: "ui_dispatch uiToken r method path body \<noteq> None \<Longrightarrow> authorize uiToken r"
  by (simp add: ui_dispatch_def split: if_splits)

section \<open>Where the browser is sent\<close>

text \<open>A listener on \<open>0.0.0.0\<close> is reached at every address of the machine, any other one only at its own.\<close>

definition reached_at :: "string \<Rightarrow> string \<Rightarrow> bool" where
  "reached_at boundHost host \<longleftrightarrow> boundHost = ''0.0.0.0'' \<or> boundHost = host"

lemma start_url:
  assumes "CHR '':'' \<notin> set h" "CHR '':'' \<notin> set p"
  shows "StartServer (Some (h @ '':'' @ p)) True = (Some (''http://127.0.0.1:'' @ p @ ''/''), False)"
  using split_on_append[of "CHR '':''" h p] split_on_absent[of "CHR '':''" p] assms by (simp add: StartServer_def)

text \<open>
  With the default address the URL reaches the server. With \<open>GOODLINK_UI_ADDR\<close> set to one address of the machine, as the
  comment suggests for use from the local network, the URL that is opened leads nowhere.
\<close>

lemma default_url_reaches: "reached_at ''0.0.0.0'' ''127.0.0.1''"
  by (simp add: reached_at_def)

theorem own_address_url_unreachable:
  "uiListenAddr ''192.168.1.5:16780'' = ''192.168.1.5:16780'' \<and>
   listenUI ''192.168.1.5:16780'' (\<lambda>_. False) = ''192.168.1.5:16780'' \<and>
   StartServer (Some ''192.168.1.5:16780'') True = (Some ''http://127.0.0.1:16780/'', False) \<and>
   \<not> reached_at ''192.168.1.5'' ''127.0.0.1''"
proof (intro conjI)
  show "uiListenAddr ''192.168.1.5:16780'' = ''192.168.1.5:16780''" by code_simp
  show "listenUI ''192.168.1.5:16780'' (\<lambda>_. False) = ''192.168.1.5:16780''" by code_simp
qed (simp_all add: StartServer_def reached_at_def)

end
