(* ===== verification/Platform_Glue.thy ===== *)
theory Platform_Glue
  imports Upgrade_Zip Upnp_Client Config_Ui
begin

text \<open>
  Small parts between the components and the operating system: waiting for a process to end
  (\<open>ui2/upgrade_unix.go\<close>, \<open>upgrade_windows.go\<close>), comparing paths and images, the machine's own address, one
  socket of the gateway search, the configuration handed to a worker through its environment
  (\<open>config/runtime.go\<close>), and the file name, identifiers and messages of \<open>config/uiconfig.go\<close>. Outcomes of system
  calls are arguments, JSON and the resolution of paths are parameters.
\<close>

section \<open>Waiting for a process\<close>

text \<open>Milliseconds since the call; \<open>clock i\<close> and \<open>alive i\<close> are the time and the answer of the i-th look.\<close>

definition wait_timeout :: "int \<Rightarrow> int" where
  "wait_timeout timeout = (if timeout \<le> 0 then 30000 else timeout)"

definition poll_pause :: int where "poll_pause = 200"

fun wait_polls :: "int \<Rightarrow> (int \<times> bool) list \<Rightarrow> nat option" where
  "wait_polls deadline [] = None"
| "wait_polls deadline ((now, alive) # looks) =
     (if \<not> now < deadline then Some 0
      else if \<not> alive then Some 0
      else map_option Suc (wait_polls deadline looks))"

definition waitForPidExit_unix :: "int \<Rightarrow> int \<Rightarrow> (int \<times> bool) list \<Rightarrow> nat option" where
  "waitForPidExit_unix pid timeout looks = (if pid \<le> 0 then Some 0 else wait_polls (wait_timeout timeout) looks)"

text \<open>Windows waits for the handle; \<open>None\<close> is waiting without end.\<close>

definition waitForPidExit_windows :: "int \<Rightarrow> int \<Rightarrow> bool \<Rightarrow> int option option" where
  "waitForPidExit_windows pid timeout opened =
     (if pid \<le> 0 then None
      else if \<not> opened then None
      else Some (if timeout > 0 then Some timeout else None))"

text \<open>The pauses make the looks at least 200 ms apart.\<close>

fun paced :: "(int \<times> bool) list \<Rightarrow> bool" where
  "paced ((t, _) # (u, a) # looks) \<longleftrightarrow> t + poll_pause \<le> u \<and> paced ((u, a) # looks)"
| "paced _ \<longleftrightarrow> True"

lemma wait_polls_bounded:
  assumes "paced ((t, a) # looks)" "0 \<le> t" "deadline - t \<le> poll_pause * int (length looks)"
  shows "\<exists>n \<le> length looks. wait_polls deadline ((t, a) # looks) = Some n"
  using assms
proof (induction looks arbitrary: t a)
  case Nil
  then show ?case by simp
next
  case (Cons l looks)
  obtain u b where l: "l = (u, b)" by (cases l)
  show ?case
  proof (cases "t < deadline \<and> a")
    case True
    have "paced ((u, b) # looks)" "t + poll_pause \<le> u" using Cons.prems(1) l by auto
    moreover have "0 \<le> u" "deadline - u \<le> poll_pause * int (length looks)"
      using calculation(2) Cons.prems(2,3) by (auto simp: poll_pause_def)
    ultimately obtain n where "n \<le> length looks" "wait_polls deadline ((u, b) # looks) = Some n" using Cons.IH by blast
    then show ?thesis using True l by simp
  qed auto
qed

text \<open>
  On Unix the wait ends after at most one look for every 200 ms of the time limit, whatever the process does: it
  returns even when the process never ends, and at once when it has.
\<close>

theorem wait_ends:
  assumes "paced ((0, a) # looks)" "wait_timeout timeout \<le> poll_pause * int (length looks)"
  shows "\<exists>n \<le> length looks. waitForPidExit_unix pid timeout ((0, a) # looks) = Some n"
  using wait_polls_bounded[OF assms(1)] assms(2) by (auto simp: waitForPidExit_unix_def)

text \<open>The two builds differ without a time limit: Unix takes thirty seconds, Windows waits for ever.\<close>

lemma wait_without_limit:
  "wait_timeout 0 = 30000" "waitForPidExit_windows 5 0 True = Some None"
  by (simp_all add: wait_timeout_def waitForPidExit_windows_def)

section \<open>Paths\<close>

text \<open>\<open>absp\<close> is \<open>filepath.Abs\<close> followed by \<open>filepath.Clean\<close>, \<open>links\<close> is \<open>filepath.EvalSymlinks\<close>.\<close>

definition sameFilePath :: "bool \<Rightarrow> (string \<Rightarrow> string option) \<Rightarrow> string \<Rightarrow> string \<Rightarrow> bool" where
  "sameFilePath windows absp a b =
     (case (absp a, absp b) of
        (Some aa, Some bb) \<Rightarrow> if windows then equal_fold aa bb else aa = bb
      | _ \<Rightarrow> False)"

lemma sameFilePath_unix_partial_equivalence:
  "sameFilePath False absp a b \<Longrightarrow> sameFilePath False absp b a"
  "sameFilePath False absp a b \<Longrightarrow> sameFilePath False absp b c \<Longrightarrow> sameFilePath False absp a c"
  "sameFilePath False absp a a \<longleftrightarrow> absp a \<noteq> None"
  by (auto simp: sameFilePath_def split: option.splits)

definition processImageMatches ::
  "string option \<Rightarrow> (string \<Rightarrow> string option) \<Rightarrow> (string \<Rightarrow> string option) \<Rightarrow> string \<Rightarrow> bool" where
  "processImageMatches img absp links wantExe =
     (case img of
        None \<Rightarrow> False
      | Some got \<Rightarrow>
          (case absp got of
             None \<Rightarrow> False
           | Some g \<Rightarrow> equal_fold (case links g of Some r \<Rightarrow> r | None \<Rightarrow> g) wantExe))"

section \<open>The machine's address\<close>

datatype local_addr = LocalUDP ip int | LocalOther

definition GetUDPLocalIPPort :: "local_addr option \<Rightarrow> string \<times> int" where
  "GetUDPLocalIPPort dialled =
     (case dialled of Some (LocalUDP a port) \<Rightarrow> (ip_string a, port) | _ \<Rightarrow> ([], 0))"

definition ip_unspecified :: "ip \<Rightarrow> bool" where
  "ip_unspecified a \<longleftrightarrow> (case to4 a of Some b \<Rightarrow> b = [0, 0, 0, 0] | None \<Rightarrow> a = replicate 16 0)"

definition GetLocalInternetIp :: "local_addr option \<Rightarrow> string option" where
  "GetLocalInternetIp dialled =
     (case dialled of
        Some (LocalUDP a _) \<Rightarrow> if a = [] \<or> ip_unspecified a then None else Some (ip_string a)
      | _ \<Rightarrow> None)"

lemma GetLocalInternetIp_usable:
  assumes "GetLocalInternetIp (Some (LocalUDP a p)) = Some s" "length a = 4 \<or> length a = 16"
  shows "s \<noteq> [] \<and> \<not> ip_unspecified a"
  using assms ip_string_nonempty[OF assms(2)] by (auto simp: GetLocalInternetIp_def split: if_splits)

section \<open>One socket of the gateway search\<close>

record search_net =
  sn_done :: bool
  sn_remote_ok :: bool
  sn_local_ok :: bool
  sn_listen_ok :: bool
  sn_write_ok :: bool
  sn_arrivals :: "(ip option \<times> string) list"
  sn_taken :: bool

text \<open>\<open>send\<close>: the answer that reaches the channel, and how many sockets were opened and were closed at the end.\<close>

definition search_send :: "search_net \<Rightarrow> string \<Rightarrow> string option \<times> nat \<times> nat" where
  "search_send n localHost =
     (if sn_done n then (None, 0, 0)
      else if \<not> sn_remote_ok n then (None, 0, 0)
      else if \<not> sn_local_ok n then (None, 0, 0)
      else if \<not> sn_listen_ok n then (None, 0, 0)
      else if \<not> sn_write_ok n then (None, 1, 1)
      else (case ssdp_receive localHost (sn_arrivals n) of
              None \<Rightarrow> (None, 1, 1)
            | Some r \<Rightarrow> (if sn_taken n then Some r else None, 1, 1)))"

lemma search_socket_closed: "snd (search_send n localHost) \<in> {(0, 0), (1, 1)}"
  by (simp add: search_send_def split: option.splits)

lemma search_answer_checked:
  assumes "fst (search_send n localHost) = Some r"
  shows "ssdp_receive localHost (sn_arrivals n) = Some r"
  using assms by (auto simp: search_send_def split: if_splits option.splits)

section \<open>The configuration of a worker's environment\<close>

record runtime_conf =
  rc_Addr :: string
  rc_TlsAddr :: string
  rc_Passwd :: string
  rc_ID :: int
  rc_StunList :: "string list"

definition empty_runtime_conf :: runtime_conf where
  "empty_runtime_conf = \<lparr> rc_Addr = [], rc_TlsAddr = [], rc_Passwd = [], rc_ID = 0, rc_StunList = [] \<rparr>"

definition RuntimeConfEnv :: string where "RuntimeConfEnv = ''GOODLINK_RUNTIME_CONF''"

definition ExportRuntimeConfEnv :: "(runtime_conf \<Rightarrow> string option) \<Rightarrow> runtime_conf \<Rightarrow> string" where
  "ExportRuntimeConfEnv marshal conf =
     (case marshal conf of None \<Rightarrow> RuntimeConfEnv @ ''='' | Some b \<Rightarrow> RuntimeConfEnv @ ''='' @ b)"

text \<open>\<open>os.Getenv\<close> in a process started with \<open>env\<close>, where a later entry of a name takes the place of an earlier one.\<close>

definition getenv :: "string list \<Rightarrow> string \<Rightarrow> string" where
  "getenv env k =
     (case rev (filter (\<lambda>kv. fst kv = k) (List.map_filter (cut_at CHR ''='') env)) of
        [] \<Rightarrow> []
      | kv # _ \<Rightarrow> snd kv)"

definition LoadRuntimeConfFromEnv :: "(string \<Rightarrow> runtime_conf option) \<Rightarrow> string list \<Rightarrow> runtime_conf \<times> bool" where
  "LoadRuntimeConfFromEnv unmarshal env =
     (let raw = getenv env RuntimeConfEnv
      in if raw = [] then (empty_runtime_conf, False)
         else case unmarshal raw of None \<Rightarrow> (empty_runtime_conf, False) | Some conf \<Rightarrow> (conf, True))"

lemma getenv_last:
  assumes "CHR ''='' \<notin> set k"
  shows "getenv (env @ [k @ ''='' @ v]) k = v"
  using cut_at_append[OF assms, of v]
  by (simp add: getenv_def List.map_filter_def split: list.splits)

text \<open>
  A worker reads the configuration that was exported for it, also when its parent has such a variable itself; one that
  could not be encoded arrives as none, not as the parent's.
\<close>

lemma runtime_conf_arrives:
  assumes "marshal conf = Some b" "b \<noteq> []" "unmarshal b = Some conf"
  shows "LoadRuntimeConfFromEnv unmarshal (env @ [ExportRuntimeConfEnv marshal conf]) = (conf, True)"
  using getenv_last[of RuntimeConfEnv env b] assms
  by (simp add: LoadRuntimeConfFromEnv_def ExportRuntimeConfEnv_def RuntimeConfEnv_def)

lemma unencodable_conf_arrives_empty:
  assumes "marshal conf = None"
  shows "LoadRuntimeConfFromEnv unmarshal (env @ [ExportRuntimeConfEnv marshal conf]) = (empty_runtime_conf, False)"
  using getenv_last[of RuntimeConfEnv env "[]"] assms
  by (simp add: LoadRuntimeConfFromEnv_def ExportRuntimeConfEnv_def RuntimeConfEnv_def)

section \<open>File, identifiers, messages\<close>

definition UIConfigFileName :: string where "UIConfigFileName = ''goodlink.json''"

text \<open>\<open>uiConfigPathOnce\<close>: the path is found once. \<open>join\<close> puts a file name behind the directory of a path.\<close>

definition find_config_path :: "string option \<Rightarrow> (string \<Rightarrow> string option) \<Rightarrow> (string \<Rightarrow> string \<Rightarrow> string) \<Rightarrow> string" where
  "find_config_path exe links join =
     (case exe of
        None \<Rightarrow> UIConfigFileName
      | Some e \<Rightarrow> join (case links e of Some r \<Rightarrow> r | None \<Rightarrow> e) UIConfigFileName)"

definition UIConfigPath ::
  "string option \<Rightarrow> (string \<Rightarrow> string option) \<Rightarrow> (string \<Rightarrow> string \<Rightarrow> string) \<Rightarrow> string option \<Rightarrow> string \<times> string option" where
  "UIConfigPath exe links join known =
     (let p = (case known of Some p \<Rightarrow> p | None \<Rightarrow> find_config_path exe links join) in (p, Some p))"

lemma UIConfigPath_stable:
  "UIConfigPath e' l' j' (snd (UIConfigPath e l j known)) = UIConfigPath e l j known"
  by (simp add: UIConfigPath_def Let_def)

definition newServiceID :: "bytes option \<Rightarrow> nat \<Rightarrow> string" where
  "newServiceID random pid = (case random of None \<Rightarrow> dec_nat pid | Some b \<Rightarrow> hex_encode b)"

lemma hex_digit_code: "a < 16 \<Longrightarrow> (of_char (hex_digit a) :: nat) = (if a < 10 then 48 + a else 87 + a)"
  by (simp add: hex_digit_def del: of_char_def)

lemma hex_digit_inj:
  assumes "a < 16" "b < 16" "hex_digit a = hex_digit b" shows "a = b"
proof -
  have "(if a < 10 then 48 + a else 87 + a) = (of_char (hex_digit a) :: nat)" by (rule hex_digit_code[OF assms(1), symmetric])
  also have "\<dots> = of_char (hex_digit b)" by (simp only: assms(3))
  also have "\<dots> = (if b < 10 then 48 + b else 87 + b)" by (rule hex_digit_code[OF assms(2)])
  finally show ?thesis by (auto split: if_splits)
qed

lemma hex_encode_inj: "hex_encode a = hex_encode b \<Longrightarrow> length a = length b \<Longrightarrow> a = b"
proof (induction a b rule: list_induct2')
  case (4 x xs y ys)
  have d: "unat w div 16 < 16" "unat w mod 16 < 16" for w :: u8 using unsigned_less[of w, where 'a = nat] by auto
  have e: "hex_digit (unat x div 16) = hex_digit (unat y div 16)" "hex_digit (unat x mod 16) = hex_digit (unat y mod 16)"
    "hex_encode xs = hex_encode ys"
    using 4(2) by (simp_all add: hex_encode_def)
  have "unat x = unat y"
    using hex_digit_inj[OF d(1) d(1) e(1)] hex_digit_inj[OF d(2) d(2) e(2)] by (metis div_mult_mod_eq)
  then have "x = y" by (simp add: word_unat_eq_iff)
  then show ?case using 4(1,3) e(3) by simp
qed auto

text \<open>Different random bytes give different identifiers.\<close>

lemma service_ids_differ:
  "length a = 4 \<Longrightarrow> length b = 4 \<Longrightarrow> newServiceID (Some a) p = newServiceID (Some b) q \<Longrightarrow> a = b"
  using hex_encode_inj[of a b] by (simp add: newServiceID_def)

definition conflict_prefix :: string where
  "conflict_prefix = map char_of [0xE6, 0x9C, 0xAC, 0xE5, 0x9C, 0xB0, 0xE7, 0xAB, 0xAF, 0xE5, 0x8F, 0xA3, 0xE5, 0xB7, 0xB2,
     0xE8, 0xA2, 0xAB, 0xE5, 0x8D, 0xA0, 0xE7, 0x94, 0xA8, 0x3A, 0x20 :: nat]"

definition FormatListenConflicts :: "string list \<Rightarrow> string" where
  "FormatListenConflicts conflicts =
     (if conflicts = [] then [] else conflict_prefix @ join_str (map char_of [0xE3, 0x80, 0x81 :: nat]) conflicts)"

lemma FormatListenConflicts_empty: "FormatListenConflicts conflicts = [] \<longleftrightarrow> conflicts = []"
  by (simp add: FormatListenConflicts_def conflict_prefix_def)

end
