(* ===== verification/Forward_Path.thy ===== *)
theory Forward_Path
  imports Relay_Run Forward_Tcp
begin

text \<open>
  A forwarded TCP connection from end to end: the local end accepts it, opens a stream, writes the head and relays
  (\<open>handleConn\<close> in \<open>proxy/proxy_l.go\<close>); the remote end reads the head, dials and relays (\<open>process_stream\<close> in
  \<open>proxy/proxy_r.go\<close>). The tunnel is a reliable stream: what one end reads from it is, in whatever pieces,
  what the other end wrote. Both relays run in every interleaving.
\<close>

section \<open>The two ends together\<close>

text \<open>
  \<open>client\<close> and \<open>target\<close> are what the two TCP connections deliver, \<open>up\<close> and \<open>back\<close> the two directions of the stream as the
  remote and the local end read them.
\<close>

record tcp_path =
  tp_head :: bytes
  tp_up :: reader
  tp_back :: reader
  tp_local :: relay_run
  tp_evs :: "stream_ev list"
  tp_rest :: reader
  tp_remote :: relay_run

definition tcp_forwarded ::
  "(stream_end \<Rightarrow> stream_end) \<Rightarrow> fwd_tcp \<Rightarrow> conn \<Rightarrow> remote_env \<Rightarrow> string \<Rightarrow> bool \<Rightarrow> reader \<Rightarrow> reader \<Rightarrow> tcp_path \<Rightarrow> bool" where
  "tcp_forwarded close p q en remoteAddr allowProxy client target x \<longleftrightarrow>
     HeadWritten (tp_head x) \<in> set (handleConn p q True True) \<and> RelayStarted \<in> set (handleConn p q True True) \<and>
     relay_reach close client (tp_back x) (tp_local x) \<and>
     content (tp_up x) = tp_head x @ sd_out (rr_stream (tp_local x)) \<and>
     process_stream en (tp_up x) remoteAddr allowProxy = (tp_evs x, tp_rest x) \<and> RelayTCP \<in> set (tp_evs x) \<and>
     relay_reach close target (tp_rest x) (tp_remote x) \<and>
     content (tp_back x) = sd_out (rr_stream (tp_remote x))"

definition undisturbed :: "tcp_path \<Rightarrow> bool" where
  "undisturbed x \<longleftrightarrow> rr_closed (tp_local x) \<and> \<not> rr_failed (tp_local x) \<and> rr_closed (tp_remote x) \<and> \<not> rr_failed (tp_remote x)"

text \<open>The address the remote end dials for a target.\<close>

definition dialled :: "bytes \<Rightarrow> u16 \<Rightarrow> string" where
  "dialled ip4 port = join_host_port (ip_string ip4) (go_itoa (int (unat (if port = 13389 then 3389 else port))))"

text \<open>The head the local end writes is the only one it can, and the remote end relays only after dialling its target.\<close>

lemma head_written:
  assumes "HeadWritten h \<in> set (handleConn p q openOk writeOk)"
  shows "\<exists>ip4. to4 (ft_remoteIP p) = Some ip4 \<and> h = head_bytes 0 ip4 (ft_remotePort p)"
  using assms by (auto simp: handleConn_def tcp_target_def split: if_splits option.splits)

lemma relayed_after_dial:
  assumes "length a = 4" "content r = head_bytes 0 a port @ rest"
    "process_stream en r remoteAddr allowProxy = (evs, r')" "RelayTCP \<in> set evs"
  shows "DialTCP (dialled a port) \<in> set evs \<and> re_dialTCP en (dialled a port) \<and> content r' = rest \<and>
    \<not> (port = PROXY_PORT \<and> allowProxy)"
proof -
  have head: "content r' = rest" "\<not> (port = PROXY_PORT \<and> allowProxy) \<longrightarrow> DialTCP (dialled a port) \<in> set evs"
    "ServeProxy remoteAddr \<in> set evs \<longleftrightarrow> port = PROXY_PORT \<and> allowProxy"
    using head_routes_stream[OF assms(1-3)] by (auto simp: dialled_def)
  obtain hdr r1 where full: "ReadFull HEAD_LEN r = (Inr hdr, r1)"
    using assms(3,4) by (auto simp: process_stream_def close_stream_def split: prod.splits sum.splits)
  have "\<not> (ServeProxy remoteAddr \<in> set evs)" and dial: "\<forall>d. DialTCP d \<in> set evs \<longrightarrow> re_dialTCP en d"
    using assms(3,4) full by (auto simp: process_stream_def close_stream_def Let_def split: route.splits if_splits)
  then show ?thesis using head by blast
qed

section \<open>End to end\<close>

text \<open>C32 A forwarded connection over QUIC whose two relays end without a refused write and without the idle timer is
  transparent: the remote end has dialled the target the listener stands for (port 13389 becoming 3389), the target
  has received exactly what the client sent, and the client exactly what the target answered, in order, whoever
  ended first and however the four copying goroutines and the pieces of the tunnel were interleaved.\<close>

theorem forwarded_end_to_end:
  assumes "tcp_forwarded quic_Close p q en remoteAddr allowProxy client target x" "undisturbed x"
  shows "\<exists>ip4. to4 (ft_remoteIP p) = Some ip4 \<and> DialTCP (dialled ip4 (ft_remotePort p)) \<in> set (tp_evs x) \<and>
    sd_out (rr_conn (tp_remote x)) = content client \<and> sd_out (rr_conn (tp_local x)) = content target"
proof -
  obtain ip4 where ip4: "to4 (ft_remoteIP p) = Some ip4" "tp_head x = head_bytes 0 ip4 (ft_remotePort p)"
    using head_written assms(1) unfolding tcp_forwarded_def by blast
  have local: "sd_out (rr_stream (tp_local x)) = content client \<and> sd_out (rr_conn (tp_local x)) = content (tp_back x)"
    using running_relay_transparent[of client "tp_back x" "tp_local x"] assms
    by (auto simp: tcp_forwarded_def undisturbed_def)
  have remote: "sd_out (rr_stream (tp_remote x)) = content target \<and> sd_out (rr_conn (tp_remote x)) = content (tp_rest x)"
    using running_relay_transparent[of target "tp_rest x" "tp_remote x"] assms
    by (auto simp: tcp_forwarded_def undisturbed_def)
  have "DialTCP (dialled ip4 (ft_remotePort p)) \<in> set (tp_evs x) \<and> content (tp_rest x) = content client"
    using relayed_after_dial[OF to4_length[OF ip4(1)], of "tp_up x" "ft_remotePort p" "content client" en remoteAddr
        allowProxy "tp_evs x" "tp_rest x"] assms(1) ip4(2) local
    by (auto simp: tcp_forwarded_def)
  then show ?thesis using ip4(1) local remote assms(1) by (auto simp: tcp_forwarded_def)
qed

text \<open>The listener of a rule to 10.0.0.5:80, a request in two pieces and its answer.\<close>

definition wit_fwd :: fwd_tcp where "wit_fwd = tcp_new ''127.0.0.1:8080'' [10, 0, 0, 5] 80"

definition wit_en :: remote_env where "wit_en = \<lparr> re_dialTCP = (\<lambda>_. True), re_dialUDP = (\<lambda>_ _. True) \<rparr>"

lemma wit_path:
  "\<exists>x. tcp_forwarded quic_Close wit_fwd q wit_en ''peer'' False ([[1], [2]], EOF) ([[9, 8]], EOF) x \<and> undisturbed x"
proof -
  let ?up = "([[0, 10, 0], [0, 5, 0, 80], [1, 2]], EOF) :: reader"
  obtain l where l: "relay_moves quic_Close [MoveUp, MoveUp, MoveUp, UpCloses, MoveDown, MoveDown, DownCloses, Finish]
      (relay_start ([[1], [2]], EOF) ([[9, 8]], EOF)) = Some l" "rr_closed l" "\<not> rr_failed l" "sd_out (rr_stream l) = [1, 2]"
    by (simp add: relay_run_defs)
  obtain r where r: "relay_moves quic_Close [MoveDown, MoveDown, DownCloses, MoveUp, MoveUp, UpCloses, Finish]
      (relay_start ([[9, 8]], EOF) ([[1, 2]], EOF)) = Some r" "rr_closed r" "\<not> rr_failed r" "sd_out (rr_stream r) = [9, 8]"
    by (simp add: relay_run_defs)
  have ip: "to4 [10, 0, 0, 5] = Some [10, 0, 0, 5]" by (simp add: to4_def)
  have h: "HeadWritten [0, 10, 0, 0, 5, 0, 80] \<in> set (handleConn wit_fwd q True True)"
    "RelayStarted \<in> set (handleConn wit_fwd q True True)"
    by (simp_all add: handleConn_def wit_fwd_def tcp_new_def tcp_target_def ip head_bytes_def put_u16_def)
  have s: "fst (process_stream wit_en ?up ''peer'' False) = [HeadDeadline, ClearDeadline,
      DialTCP (dialled [10, 0, 0, 5] 80), RelayTCP, StreamCancelRead, StreamClose] \<and>
      snd (process_stream wit_en ?up ''peer'' False) = ([[1, 2]], EOF)"
    by code_simp
  obtain evs rest where s': "process_stream wit_en ?up ''peer'' False = (evs, rest)" by (cases "process_stream wit_en ?up ''peer'' False")
  have "tcp_forwarded quic_Close wit_fwd q wit_en ''peer'' False ([[1], [2]], EOF) ([[9, 8]], EOF)
      \<lparr> tp_head = [0, 10, 0, 0, 5, 0, 80], tp_up = ?up, tp_back = ([[9, 8]], EOF), tp_local = l, tp_evs = evs,
        tp_rest = rest, tp_remote = r \<rparr>"
    unfolding tcp_forwarded_def
    using h l(4) r(4) s s' relay_moves_reach[OF relay_reach.init l(1)] relay_moves_reach[OF relay_reach.init r(1)]
    by (simp add: content_def)
  moreover have "undisturbed \<lparr> tp_head = [0, 10, 0, 0, 5, 0, 80], tp_up = ?up, tp_back = ([[9, 8]], EOF), tp_local = l,
      tp_evs = evs, tp_rest = rest, tp_remote = r \<rparr>"
    using l(2,3) r(2,3) by (simp add: undisturbed_def)
  ultimately show ?thesis by blast
qed

theorem forwarded_end_to_end_witness:
  "\<exists>x. tcp_forwarded quic_Close wit_fwd 1 wit_en ''peer'' False ([[1], [2]], EOF) ([[9, 8]], EOF) x \<and>
     sd_out (rr_conn (tp_remote x)) = [1, 2] \<and> sd_out (rr_conn (tp_local x)) = [9, 8]"
proof -
  obtain x where x: "tcp_forwarded quic_Close wit_fwd 1 wit_en ''peer'' False ([[1], [2]], EOF) ([[9, 8]], EOF) x" "undisturbed x"
    using wit_path by blast
  show ?thesis using forwarded_end_to_end[OF x] x(1) by (auto simp: content_def)
qed

end
