(* ===== verification/Spec2Isabelle.thy ===== *)
theory Spec2Isabelle
  imports Stun_Client Ui_Run Ui_Http Upnp_Client Forward_Mgr Config_Norm Udp_Coalesce Upgrade_Zip Session_Proto
    Netstack_Link Netstack_Fwd Session_Local Ui_Download Ui_Events Session_Setup Windows_Net
    Transport_Kcp Main_Entry Netstack_Run Netstack_Device Relay_Run Udp_Pool Udp_Writers Transport_Quic Windows_Tables
    Ui_Server Platform_Glue Forward_Path
begin

text \<open>
  GoodLink builds a tunnel between two machines behind NATs. Both run the same program: a main
  process with a web interface (\<open>ui2\<close>) that keeps a list of services (\<open>config\<close>) and starts one worker
  process per service (\<open>pro\<close>). The workers of the two ends meet over Redis, learn their public
  addresses from STUN servers (\<open>stun2\<close>, which also holds a server), punch a hole and get a QUIC or
  KCP tunnel. Over its streams the local end forwards TCP connections and UDP datagrams, from
  listeners (\<open>proxy/proxy_l.go\<close>, \<open>proxy/forward_mgr.go\<close>) or from a network adapter
  (\<open>netstack\<close>); the remote end dials the targets (\<open>proxy/proxy_r.go\<close>). Datagrams leave through
  \<open>udpbatch\<close>; the program replaces itself through \<open>ui2/upgrade.go\<close>.

  Theories and what they model.

  \<open>Go_Prelude\<close>, \<open>Go_Strings\<close>, \<open>Go_Net\<close>: what the source uses of Go's run time and standard library:
  slices of bytes, big-endian fields, results with errors, \<open>strings\<close>, \<open>strconv\<close>, textual
  addresses and \<open>host:port\<close> pairs, with the lemmas all other theories share.

  \<open>Stun_Codec\<close>, \<open>Stun_Server\<close>, \<open>Stun_Client\<close> (\<open>stun2\<close>): building and parsing messages with every
  bounds check and 16-bit computation, the server's transaction table and NAT verdict, the client's
  probes. The parser never reads outside its slice, answers parse back, the verdict is right.

  \<open>Tunnel_Frame\<close>, \<open>Tunnel_Remote\<close> (\<open>proxy/proxy_io.go\<close>, \<open>proxy/proxy_r.go\<close>): streams that deliver
  their content in arbitrary pieces, the two-byte framing of datagrams, the relay loops, and the
  remote dispatcher. The framing is an interface (locale \<open>frame_codec\<close>) interpreted on the code's
  frames; relays neither lose, reorder nor invent bytes; every stream ends closed.
  \<open>Relay_Run\<close> runs the two directions of a TCP relay in every interleaving: over QUIC each side receives
  all the other sent, over KCP, whose close ends both directions, what is still under way may be lost,
  and every relay ends, with both sides closed. \<open>Forward_Path\<close> puts the two ends of a forwarded connection together.

  \<open>Forward_Base\<close>, \<open>Forward_Tcp\<close>, \<open>Forward_Udp\<close>, \<open>Forward_Mgr\<close>: the listeners as step functions, the
  interface \<open>ForwardRunner\<close> (locale \<open>runner\<close>) interpreted on the TCP listener, the UDP listener
  and their sum, and the manager that applies new rule lists while tunnels come and go. UDP
  sessions live in a heap of records because goroutines keep using one after its table entry is gone.

  \<open>Config_Ui\<close>, \<open>Config_Norm\<close>, \<open>Config_Args\<close> (\<open>config\<close>): normalising, validating and saving the
  services, the command lines and versions.

  \<open>Udp_Batch\<close>, \<open>Udp_Coalesce\<close> (\<open>udpbatch\<close>): the three batch writers over a socket that may fail or
  send part of a batch, the interface \<open>Writer\<close> (locale \<open>batch_writer\<close>) interpreted on all three,
  and the queueing connection of Windows on top of it. \<open>Udp_Pool\<close> refines that connection to reused
  buffers with owners, and shows that a datagram keeps its bytes until the writer has taken it.
  \<open>Udp_Writers\<close> holds the choice of a writer and the arrays the Linux writer fills for the kernel.

  \<open>Upgrade_Zip\<close> (\<open>ui2/upgrade.go\<close>): checking an archive and replacing files over a file
  system in which any operation may fail.

  \<open>Session_Proto\<close>, \<open>Session_Setup\<close> (\<open>pro\<close>): the handshake of any number of local and remote ends over a
  key-value store, from the first registration to the tunnel; what is set up before the first one, and
  the port of a connection that is served, beside the clearing of old port mappings.

  \<open>Ui_State\<close>, \<open>Ui_Worker\<close>, \<open>Ui_Handlers\<close> (\<open>ui2/state.go\<close>, \<open>log.go\<close>, \<open>start.go\<close>, \<open>killcmd.go\<close>, the
  handlers of \<open>server.go\<close>): the state of the main process. Services live in a store of records,
  because the list and the index share pointers to them. A handler is one step (the code holds its
  locks across it); every goroutine is a list of tasks, one per critical section, so a waiter, a
  delayed stop or an automatic restart runs at any later moment. A worker command is a number that
  is never used again, and the pid files are those of the Windows build.

  \<open>Ui_Invariant\<close>, \<open>Ui_Lifecycle\<close>, \<open>Ui_Run\<close>: the step relation over all handlers and tasks, the
  invariants of every reachable state (names and ids of list and index agree, at most one live
  worker per service, a waiter for every live worker), the rollbacks of starting a service, and a
  run on which the properties are evaluated.

  \<open>Ui_Http\<close>, \<open>Ui_Server\<close>, \<open>Ui_Events\<close>, \<open>Ui_Download\<close> (\<open>ui2/server.go\<close>, \<open>footer.go\<close>, \<open>upgrade.go\<close>): which requests
  are let in, the registered routes, no two of which meet, the choice of the listening address, decoding and
  status codes of the routes, and the update check;
  the event stream on the hub, with snapshot and hand-over of a broadcast as two steps, and when the
  browser shows the present state; the download of an update, its progress, and the hand-over to the
  update process, interleaved with every other request.

  \<open>Upnp_Soap\<close>, \<open>Upnp_Client\<close> (\<open>upnp\<close>): XML text and requests, with a reader of XML that stands beside
  the code as a specification of what a router sees; discovery, the description of the device, and
  the removal of old mappings. The HTTP client, the XML decoder and URL parsing are parameters. The
  time limit of the removal is a parameter too: it says at which index it has run out.

  \<open>Netstack_Link\<close>, \<open>Netstack_Setup\<close>, \<open>Netstack_Fwd\<close>, \<open>Netstack_Run\<close> (\<open>netstack\<close>): the two loops that carry packets between
  the network adapter and the packet stack, the life of adapter and stack (set-up, health check,
  rebuilding) with what is still open after every failure, in the form they have on Linux, the
  handlers of captured connections up to the remote end that serves them, the life of the loops in every order
  of attaching, closing and failing, the socket options, and the adapter of macOS. The stack itself is a
  library; the model records what the code has set up on it.

  \<open>Windows_Net\<close> (\<open>winipcfg\<close>, \<open>setup_windows.go\<close>, \<open>tun_windows.go\<close>): the adapter on Windows. Socket addresses as
  octets; addresses, routes and name servers of an interface over tables of the system, whose laws are
  named hypotheses; configuring and opening the adapter, the latter shown to be what it is on Linux.

  \<open>Netstack_Device\<close> (\<open>tun_linux.go\<close>, \<open>setup_linux.go\<close>, \<open>tun_windows.go\<close>, \<open>tun_darwin.go\<close>): the calls below the adapter. The
  kernel's requests in their order, complete or cut off at the one refused; and the pools of the single reads
  and writes, which never panic and show a caller what a fresh array would.

  \<open>Windows_Layout\<close>, \<open>Windows_Enums\<close>, \<open>Windows_Tables\<close> (\<open>winipcfg/types*.go\<close>, \<open>winipcfg.go\<close>): the structs shared with
  the system, laid out by the rules of the Go compiler and by those of Windows. Both agree on every
  platform, so the rows copied out of the system's tables are those Windows wrote.

  \<open>Session_Local\<close> (\<open>pro/local.go\<close>): the local worker around its sessions: listeners or adapter, attempts,
  use and withdrawal of each tunnel, the built-in proxy and the watcher of the configuration, in every
  interleaving. It builds on the manager, the handshake and the stack, and shows that captured traffic
  only follows the tunnel being served.

  \<open>Transport_Kcp\<close>, \<open>Transport_Quic\<close> (\<open>tls2\<close>): the choice between KCP and QUIC, which both ends make alike; the calls
  of a KCP session, each with a goroutine that may outlive it: no stream is in two places, and which streams are
  lost; the TLS configurations of a process, made once, with which any two processes complete a handshake.

  \<open>Main_Entry\<close> (\<open>main.go\<close>, \<open>config/args.go\<close>, \<open>utils\<close>): the roles a command line selects, checked against the command
  lines the program builds itself; one interface at a time, and the processes an interface kills at its start.

  \<open>Platform_Glue\<close>: waiting for a process, comparing paths, the machine's address, a socket of the gateway search,
  and the configuration in a worker's environment.

  Conventions. A handler is one function of its whole state, errors are values of a sum or option
  type, and code that runs concurrently is cut at its locks (or at its calls to a shared service)
  into atomic operations that an inductive step relation interleaves; invariants are proved for
  every reachable state. Calls into the operating system, the tunnel or a library read their
  outcome from a script or from an argument, so every theorem holds for each way they can turn
  out. Times are integers the environment supplies. Messages of the log are constructors.

  Bounds. No definition needs fuel: loops over data are recursive on it, retry loops on their own
  counters (five attempts for an address, twenty-five renames, three writes, ten failed accepts, 256
  mapping indices), polling loops on the script of what they find, and loops of servers appear as one turn
  each. Machine integers are words where
  the code's width matters (lengths and ports of STUN and of frames) and integers elsewhere, with
  the range checks of the code.

  Not modelled: the contents of the encryption and of JSON texts; tunnel creation and health checks
  (another module); the libraries below \<open>tls2\<close>; the generated bindings of \<open>winipcfg\<close>; tray and browser;
  the web pages.
\<close>

end
